(* ===== verification/Prelude.thy ===== *)
theory Prelude
  imports Main "HOL-Library.Word"
begin

text \<open>
  Shared vocabulary of the development: the machine types, the result type of fallible
  code, the loop combinators, and the two list operations (\<open>chunk\<close> and \<open>put\<close>) to which
  every buffer access of the native tooling is reduced.

  An exception of the C++ code is \<open>Inl (Runtime message)\<close>. An access outside a buffer,
  which the language leaves undefined, is \<open>Inl Undefined\<close>; that no input leads to it is a
  theorem about each reader, not an assumption of the model.
\<close>

unbundle bit_operations_syntax

section \<open>Machine types and results\<close>

type_synonym u8 = "8 word"
type_synonym u16 = "16 word"
type_synonym u32 = "32 word"
type_synonym u64 = "64 word"
type_synonym bytes = "u8 list"

datatype error =
    Runtime string
  | Undefined

type_synonym 'a res = "error + 'a"

named_theorems res_simps \<open>rewriting of results: binds, guards and loops\<close>
named_theorems byte_simps \<open>rewriting of chunks, splices and the accessors over them\<close>

definition rbind :: "'a res \<Rightarrow> ('a \<Rightarrow> 'b res) \<Rightarrow> 'b res" where
  "rbind m f = (case m of Inl e \<Rightarrow> Inl e | Inr x \<Rightarrow> f x)"

definition require :: "bool \<Rightarrow> string \<Rightarrow> unit res" where
  "require c message = (if c then Inr () else Inl (Runtime message))"

text \<open>A loop that carries a state, and a loop that appends one element a turn.\<close>

fun rfold :: "('a \<Rightarrow> 's \<Rightarrow> 's res) \<Rightarrow> 'a list \<Rightarrow> 's \<Rightarrow> 's res" where
  "rfold f [] s = Inr s"
| "rfold f (x # xs) s = rbind (f x s) (rfold f xs)"

fun rmap :: "('a \<Rightarrow> 'b res) \<Rightarrow> 'a list \<Rightarrow> 'b list res" where
  "rmap f [] = Inr []"
| "rmap f (x # xs) = rbind (f x) (\<lambda>y. rbind (rmap f xs) (\<lambda>ys. Inr (y # ys)))"

lemma rbind_simps [simp]:
  "rbind (Inr x) f = f x"
  "rbind (Inl e) f = Inl e"
  by (simp_all add: rbind_def)

lemma rbind_Inr_iff [res_simps]:
  "rbind m f = Inr y \<longleftrightarrow> (\<exists>x. m = Inr x \<and> f x = Inr y)"
  by (cases m) auto

lemma rbind_Inl_iff [res_simps]:
  "rbind m f = Inl e \<longleftrightarrow> m = Inl e \<or> (\<exists>x. m = Inr x \<and> f x = Inl e)"
  by (cases m) auto

lemma rbind_InrE:
  assumes "rbind m f = Inr y"
  obtains x where "m = Inr x" "f x = Inr y"
  using assms by (auto simp: rbind_Inr_iff)

lemma rbind_assoc: "rbind (rbind m f) g = rbind m (\<lambda>x. rbind (f x) g)"
  by (cases m) auto

lemma rbind_cong [fundef_cong]:
  "m = m' \<Longrightarrow> (\<And>x. m' = Inr x \<Longrightarrow> f x = f' x) \<Longrightarrow> rbind m f = rbind m' f'"
  by (cases m') auto

lemma require_True [simp]: "c \<Longrightarrow> require c message = Inr ()"
  by (simp add: require_def)

lemma require_Inr_iff [res_simps]: "require c message = Inr u \<longleftrightarrow> c"
  by (simp add: require_def)

lemma require_Inl_iff [res_simps]:
  "require c message = Inl e \<longleftrightarrow> \<not> c \<and> e = Runtime message"
  by (auto simp: require_def)

lemma rfold_append:
  "rfold f (xs @ ys) s = rbind (rfold f xs s) (rfold f ys)"
proof (induction xs arbitrary: s)
  case (Cons x xs)
  then show ?case by (cases "f x s") auto
qed simp

lemma rfold_invariant:
  assumes "rfold f xs s = Inr t" and "P s"
    and "\<And>x u v. x \<in> set xs \<Longrightarrow> P u \<Longrightarrow> f x u = Inr v \<Longrightarrow> P v"
  shows "P t"
  using assms
proof (induction xs arbitrary: s)
  case Nil
  then show ?case by simp
next
  case (Cons x xs)
  then obtain u where "f x s = Inr u" and rest: "rfold f xs u = Inr t"
    by (auto elim: rbind_InrE)
  then have "P u" using Cons.prems by auto
  with rest show ?case using Cons.prems(3) by (auto intro: Cons.IH)
qed

lemma rfold_total:
  assumes "\<And>x s. x \<in> set xs \<Longrightarrow> I s \<Longrightarrow> \<exists>s'. f x s = Inr s' \<and> I s'" and "I s"
  shows "\<exists>s'. rfold f xs s = Inr s' \<and> I s'"
  using assms
proof (induction xs arbitrary: s)
  case (Cons x xs)
  from Cons.prems(1) [OF list.set_intros(1) Cons.prems(2)] obtain s1 where "f x s = Inr s1" "I s1" by blast
  with Cons.IH [of s1] Cons.prems(1) show ?case by simp
qed simp

lemma rmap_Inr_iff:
  "rmap f xs = Inr ys \<longleftrightarrow> list_all2 (\<lambda>x y. f x = Inr y) xs ys"
proof (induction xs arbitrary: ys)
  case Nil
  then show ?case by auto
next
  case (Cons x xs)
  then show ?case by (cases ys) (auto simp: rbind_Inr_iff)
qed

lemma rmap_length: "rmap f xs = Inr ys \<Longrightarrow> length ys = length xs"
  by (auto simp: rmap_Inr_iff dest: list_all2_lengthD)

lemma rmap_append: "rmap f (xs @ ys) = rbind (rmap f xs) (\<lambda>us. rbind (rmap f ys) (\<lambda>vs. Inr (us @ vs)))"
  by (induction xs) (auto simp: rbind_assoc rbind_def split: sum.splits)

lemma rmap_pairs:
  assumes "\<And>i. i < n \<Longrightarrow> f (2 * i) = Inr (a i) \<and> f (2 * i + 1) = Inr (b i)"
  shows "rmap f [0..<2 * n] = Inr (concat (map (\<lambda>i. [a i, b i]) [0..<n]))"
  using assms
proof (induction n)
  case (Suc n)
  have "[0..<2 * Suc n] = [0..<2 * n] @ [2 * n, 2 * n + 1]" by simp
  then have "rmap f [0..<2 * Suc n] =
      rbind (rmap f [0..<2 * n]) (\<lambda>us. rbind (rmap f [2 * n, 2 * n + 1]) (\<lambda>vs. Inr (us @ vs)))"
    by (simp only: rmap_append)
  moreover have "rmap f [0..<2 * n] = Inr (concat (map (\<lambda>i. [a i, b i]) [0..<n]))"
    using Suc.prems by (intro Suc.IH) simp
  moreover have "f (2 * n) = Inr (a n)" "f (2 * n + 1) = Inr (b n)" using Suc.prems by auto
  ultimately show ?case by simp
qed simp

lemma rmap_total:
  assumes "\<And>x. x \<in> set xs \<Longrightarrow> f x = Inr (g x)"
  shows "rmap f xs = Inr (map g xs)"
  using assms by (induction xs) auto

text \<open>A result is \<^emph>\<open>safe\<close> when the code did not step outside a buffer.\<close>

definition safe :: "'a res \<Rightarrow> bool" where
  "safe r \<longleftrightarrow> r \<noteq> Inl Undefined"

lemma safe_simps [simp]:
  "safe (Inr x)"
  "safe (Inl e) \<longleftrightarrow> e \<noteq> Undefined"
  by (simp_all add: safe_def)

lemma safe_require [simp, intro]: "safe (require c message)"
  by (simp add: require_def)

lemma safe_rbind [intro]:
  "safe m \<Longrightarrow> (\<And>x. m = Inr x \<Longrightarrow> safe (f x)) \<Longrightarrow> safe (rbind m f)"
  by (cases m) auto

lemma safe_require_bind [intro]:
  "(c \<Longrightarrow> safe (f ())) \<Longrightarrow> safe (rbind (require c message) f)"
  by (cases c) (auto simp: require_def)

lemma safe_rmap [intro]:
  "(\<And>x. x \<in> set xs \<Longrightarrow> safe (f x)) \<Longrightarrow> safe (rmap f xs)"
  by (induction xs) (auto intro!: safe_rbind)

lemma safe_rfold_invariant:
  assumes "P s"
    and "\<And>x u. x \<in> set xs \<Longrightarrow> P u \<Longrightarrow> safe (f x u)"
    and "\<And>x u v. x \<in> set xs \<Longrightarrow> P u \<Longrightarrow> f x u = Inr v \<Longrightarrow> P v"
  shows "safe (rfold f xs s)"
  using assms
proof (induction xs arbitrary: s)
  case Nil
  then show ?case by simp
next
  case (Cons x xs)
  show ?case
    unfolding rfold.simps
  proof (rule safe_rbind)
    show "safe (f x s)" using Cons.prems by simp
    fix u assume "f x s = Inr u"
    then have "P u" using Cons.prems(1,3) by (meson list.set_intros(1))
    then show "safe (rfold f xs u)"
      by (rule Cons.IH) (use Cons.prems(2,3) in \<open>meson list.set_intros(2)\<close>)+
  qed
qed

lemma safe_rfold [intro]:
  "(\<And>x u. x \<in> set xs \<Longrightarrow> safe (f x u)) \<Longrightarrow> safe (rfold f xs s)"
  by (rule safe_rfold_invariant [where P = "\<lambda>_. True"]) auto

section \<open>Chunks and splices\<close>

definition chunk :: "'a list \<Rightarrow> nat \<Rightarrow> nat \<Rightarrow> 'a list" where
  "chunk data at n = take n (drop at data)"

definition put :: "'a list \<Rightarrow> nat \<Rightarrow> 'a list \<Rightarrow> 'a list" where
  "put data at src = take at data @ src @ drop (at + length src) data"

lemma length_chunk [simp]: "length (chunk data at n) = min n (length data - at)"
  by (simp add: chunk_def)

lemma length_put [simp]:
  "at + length src \<le> length data \<Longrightarrow> length (put data at src) = length data"
  by (simp add: put_def)

lemma nth_chunk [simp]: "i < n \<Longrightarrow> at + i < length data \<Longrightarrow> chunk data at n ! i = data ! (at + i)"
  by (simp add: chunk_def)

lemma nth_put [byte_simps]:
  assumes "at + length src \<le> length data" and "i < length data"
  shows "put data at src ! i = (if at \<le> i \<and> i < at + length src then src ! (i - at) else data ! i)"
  using assms by (auto simp: put_def nth_append min_def)

lemma put_empty [simp]: "put data at [] = data"
  by (simp add: put_def)

lemma chunk_zero [simp]: "chunk data at 0 = []"
  by (simp add: chunk_def)

lemma chunk_all [simp]: "length data \<le> n \<Longrightarrow> chunk data 0 n = data"
  by (simp add: chunk_def)

lemma chunk_put_same [byte_simps]:
  "at + length src \<le> length data \<Longrightarrow> n = length src \<Longrightarrow> chunk (put data at src) at n = src"
  by (simp add: chunk_def put_def)

lemma chunk_put_disjoint [byte_simps]:
  assumes "at + length src \<le> length data"
    and "b + n \<le> at \<or> at + length src \<le> b"
  shows "chunk (put data at src) b n = chunk data b n"
proof (rule nth_equalityI)
  show "length (chunk (put data at src) b n) = length (chunk data b n)"
    using assms(1) by simp
next
  fix i assume "i < length (chunk (put data at src) b n)"
  then have "i < n" "b + i < length data" using assms(1) by auto
  with assms show "chunk (put data at src) b n ! i = chunk data b n ! i"
    by (auto simp: nth_put)
qed

lemma chunk_put_within:
  assumes "at + length src \<le> length data" and "at \<le> b" and "b + n \<le> at + length src"
  shows "chunk (put data at src) b n = chunk src (b - at) n"
proof (rule nth_equalityI)
  show "length (chunk (put data at src) b n) = length (chunk src (b - at) n)"
    using assms by auto
next
  fix i assume "i < length (chunk (put data at src) b n)"
  then have "i < n" using assms(1) by auto
  with assms show "chunk (put data at src) b n ! i = chunk src (b - at) n ! i"
    by (simp add: nth_put)
qed

lemma chunk_of_chunk:
  "b + n \<le> m \<Longrightarrow> chunk (chunk data at m) b n = chunk data (at + b) n"
  by (simp add: chunk_def take_drop min_def add.commute)

lemma chunk_take: "at + n \<le> m \<Longrightarrow> chunk (take m data) at n = chunk data at n"
  by (simp add: chunk_def take_drop min_def)

lemma chunk_replicate [byte_simps]:
  "at + n \<le> m \<Longrightarrow> chunk (replicate m x) at n = replicate n x"
  by (simp add: chunk_def)

lemma chunk_eq_nthD:
  assumes "chunk xs a n = chunk ys b n" and "i < n" and "a + n \<le> length xs" and "b + n \<le> length ys"
  shows "xs ! (a + i) = ys ! (b + i)"
proof -
  have "chunk xs a n ! i = chunk ys b n ! i" using assms(1) by simp
  moreover have "chunk xs a n ! i = xs ! (a + i)" using assms(2,3) by simp
  moreover have "chunk ys b n ! i = ys ! (b + i)" using assms(2,4) by simp
  ultimately show ?thesis by simp
qed

section \<open>Sizes\<close>

text \<open>
  \<open>std::size_t\<close> and \<open>std::uint64_t\<close> quantities that count bytes are naturals below
  \<open>2 ^ 64\<close>; an addition that the source leaves unchecked wraps, and the wrap is written
  out with \<open>sz_add\<close>.
\<close>

definition sz_add :: "nat \<Rightarrow> nat \<Rightarrow> nat" where
  "sz_add a b = (a + b) mod 2 ^ 64"

lemma sz_add_exact [simp]: "a + b < 2 ^ 64 \<Longrightarrow> sz_add a b = a + b"
  by (simp add: sz_add_def)

text \<open>A buffer the process can hold: its size leaves room below the end of the size type.\<close>

definition holds :: "'a list \<Rightarrow> bool" where
  "holds data \<longleftrightarrow> length data < 2 ^ 63"

definition elem_at :: "'a list \<Rightarrow> nat \<Rightarrow> 'a res" where
  "elem_at data at = (if at < length data then Inr (data ! at) else Inl Undefined)"

lemma elem_at_in [simp]: "at < length data \<Longrightarrow> elem_at data at = Inr (data ! at)"
  by (simp add: elem_at_def)

lemma elem_at_Inr_iff [res_simps]: "elem_at data at = Inr x \<longleftrightarrow> at < length data \<and> x = data ! at"
  by (auto simp: elem_at_def)

definition subspan :: "'a list \<Rightarrow> nat \<Rightarrow> nat \<Rightarrow> 'a list res" where
  "subspan data at n = (if at + n \<le> length data then Inr (chunk data at n) else Inl Undefined)"

lemma subspan_in [simp]: "at + n \<le> length data \<Longrightarrow> subspan data at n = Inr (chunk data at n)"
  by (simp add: subspan_def)

lemma subspan_Inr_iff [res_simps]:
  "subspan data at n = Inr x \<longleftrightarrow> at + n \<le> length data \<and> x = chunk data at n"
  by (auto simp: subspan_def)

text \<open>Range checks are written without an addition that could wrap.\<close>

definition range_ok :: "nat \<Rightarrow> nat \<Rightarrow> nat \<Rightarrow> bool" where
  "range_ok offset sz len \<longleftrightarrow> offset \<le> len \<and> sz \<le> len - offset"

lemma range_ok_iff [simp]: "range_ok offset sz len \<longleftrightarrow> offset + sz \<le> len"
  by (auto simp: range_ok_def)

section \<open>Words\<close>

lemma and_not_mask_word: "w AND NOT (mask n) = push_bit n (drop_bit n (w :: 'a::len word))"
  by (rule bit_word_eqI) (auto simp: bit_simps)

lemma unat_and_not_mask: "unat (w AND NOT (mask n) :: u64) = unat w div 2 ^ n * 2 ^ n"
proof -
  have lt: "unat w < 2 ^ 64" using unsigned_less [of w, where ?'a = nat] by simp
  have "unat (w AND NOT (mask n)) = unat (push_bit n (drop_bit n w))" by (simp only: and_not_mask_word)
  also have "\<dots> = (unat w div 2 ^ n * 2 ^ n) mod 2 ^ 64"
    using lt by (simp only: unsigned_push_bit_eq unsigned_drop_bit_eq)
      (simp add: push_bit_eq_mult drop_bit_eq_div take_bit_eq_mod)
  also have "\<dots> = unat w div 2 ^ n * 2 ^ n"
  proof (rule mod_less)
    have "unat w div 2 ^ n * 2 ^ n \<le> unat w" by simp
    also note lt
    finally show "unat w div 2 ^ n * 2 ^ n < 2 ^ 64" .
  qed
  finally show ?thesis .
qed

lemma unat_of_nat_small: "n < 2 ^ LENGTH('a) \<Longrightarrow> unat (of_nat n :: 'a::len word) = n"
  by (simp add: unat_of_nat)

lemma unat_u64_small [simp]: "n < 2 ^ 64 \<Longrightarrow> unat (of_nat n :: u64) = n"
  using unat_of_nat_small [of n, where ?'a = 64] by simp

lemma unat_u16_small [simp]: "n < 2 ^ 16 \<Longrightarrow> unat (of_nat n :: u16) = n"
  using unat_of_nat_small [of n, where ?'a = 16] by simp

lemma unat_u64_bound: "unat (w :: u64) < 2 ^ 64"
  using unsigned_less [of w, where ?'a = nat] by simp

lemma unat_u16_bound: "unat (w :: u16) < 2 ^ 16"
  using unsigned_less [of w, where ?'a = nat] by simp

section \<open>Strings\<close>

text \<open>\<open>std::string\<close> is a sequence of bytes; names are \<open>string\<close>s, converted byte by byte.\<close>

definition to_bytes :: "string \<Rightarrow> bytes" where
  "to_bytes s = map (\<lambda>c. word_of_nat (of_char c)) s"

definition of_bytes :: "bytes \<Rightarrow> string" where
  "of_bytes bs = map (\<lambda>b. char_of (unat b)) bs"

lemma of_bytes_to_bytes [simp]: "of_bytes (to_bytes s) = s"
  by (simp add: of_bytes_def to_bytes_def unat_of_nat comp_def)

lemma to_bytes_of_bytes [simp]: "to_bytes (of_bytes bs) = bs"
proof -
  have "word_of_nat (of_char (char_of (unat b) :: char)) = b" for b :: u8
    using unsigned_less [of b, where ?'a = nat] by simp
  then show ?thesis by (simp add: of_bytes_def to_bytes_def comp_def)
qed

lemma length_to_bytes [simp]: "length (to_bytes s) = length s"
  by (simp add: to_bytes_def)

lemma length_of_bytes [simp]: "length (of_bytes bs) = length bs"
  by (simp add: of_bytes_def)

lemma to_bytes_append [simp]: "to_bytes (s @ t) = to_bytes s @ to_bytes t"
  by (simp add: to_bytes_def)

lemma to_bytes_inj [simp]: "to_bytes s = to_bytes t \<longleftrightarrow> s = t"
  by (metis of_bytes_to_bytes)

text \<open>\<open>std::to_string\<close> of an unsigned value.\<close>

fun decimal :: "nat \<Rightarrow> string" where
  "decimal n = (if n < 10 then [char_of (48 + n)] else decimal (n div 10) @ [char_of (48 + n mod 10)])"

declare decimal.simps [simp del]

text \<open>The positions of a loop \<open>for (at = 0; at + n <= len; at += n)\<close>.\<close>

definition strides :: "nat \<Rightarrow> nat \<Rightarrow> nat list" where
  "strides n len = map (\<lambda>i. i * n) [0..<len div n]"

lemma strides_bound: "at \<in> set (strides n len) \<Longrightarrow> at + n \<le> len"
proof -
  assume "at \<in> set (strides n len)"
  then obtain i where i: "at = i * n" "i < len div n" unfolding strides_def by fastforce
  then have "Suc i * n \<le> len div n * n" by (intro mult_le_mono1) simp
  also have "\<dots> \<le> len" by simp
  finally show ?thesis using i by simp
qed

lemma length_strides [simp]: "length (strides n len) = len div n"
  by (simp add: strides_def)

end
