(* ===== verification/Byte_Codec.thy ===== *)
theory Byte_Codec
  imports Prelude
begin

text \<open>
  Little-endian fields in byte buffers. The four files of the native tooling each carry
  their own \<open>read_u*\<close> and \<open>write_u*\<close> helpers, which differ in their exception messages
  only; the loops they share are \<open>read_le\<close> and \<open>write_le\<close> here, and a file's helper is an
  instance of them with its message. The locale \<open>field_access\<close> is the contract the
  container and module writers rely on: a field read is the decoding of the bytes at its
  place, a field written is the splice of its encoding.
\<close>

section \<open>Encoding and decoding\<close>

primrec le_decode :: "bytes \<Rightarrow> 'a::len word" where
  "le_decode [] = 0"
| "le_decode (b # bs) = ucast b OR push_bit 8 (le_decode bs)"

definition le_encode :: "nat \<Rightarrow> 'a::len word \<Rightarrow> bytes" where
  "le_encode n v = map (\<lambda>i. ucast (drop_bit (i * 8) v)) [0..<n]"

lemma length_le_encode [simp]: "length (le_encode n v) = n"
  by (simp add: le_encode_def)

lemma nth_le_encode [simp]: "i < n \<Longrightarrow> le_encode n v ! i = ucast (drop_bit (i * 8) v)"
  by (simp add: le_encode_def)

lemma le_encode_Suc: "le_encode (Suc n) v = le_encode n v @ [ucast (drop_bit (n * 8) v)]"
  by (simp add: le_encode_def)

lemma bit_le_decode:
  "bit (le_decode bs :: 'a::len word) k \<longleftrightarrow>
     k < LENGTH('a) \<and> k div 8 < length bs \<and> bit (bs ! (k div 8)) (k mod 8)"
proof (induction bs arbitrary: k)
  case Nil
  then show ?case by simp
next
  case (Cons b bs)
  show ?case
  proof (cases "k < 8")
    case True
    then show ?thesis
      by (auto simp: bit_or_iff bit_push_bit_iff bit_ucast_iff)
  next
    case False
    then obtain j where j: "k = 8 + j" by (metis le_Suc_ex not_less)
    have "\<not> bit b k" using False by (auto dest: bit_imp_le_length)
    then have "bit (le_decode (b # bs) :: 'a word) k \<longleftrightarrow>
        k < LENGTH('a) \<and> bit (le_decode bs :: 'a word) j"
      by (auto simp: bit_or_iff bit_push_bit_iff bit_ucast_iff j)
    moreover have "k div 8 = Suc (j div 8)" "k mod 8 = j mod 8" by (simp_all add: j)
    ultimately show ?thesis unfolding Cons.IH by (auto simp: j)
  qed
qed

lemma le_decode_encode:
  assumes "LENGTH('a) = n * 8"
  shows "le_decode (le_encode n v) = (v :: 'a::len word)"
proof (rule bit_word_eqI)
  fix k assume k: "k < LENGTH('a)"
  then have "k div 8 < n" using assms by (simp add: less_mult_imp_div_less)
  moreover have "k div 8 * 8 + k mod 8 = k" by simp
  ultimately show "bit (le_decode (le_encode n v) :: 'a word) k = bit v k"
    using k by (simp add: bit_le_decode bit_ucast_iff bit_drop_bit_eq)
qed

lemma le_encode_decode:
  assumes "LENGTH('a) = n * 8" and "length bs = n"
  shows "le_encode n (le_decode bs :: 'a::len word) = bs"
proof (rule nth_equalityI)
  show "length (le_encode n (le_decode bs :: 'a word)) = length bs" using assms by simp
next
  fix i assume "i < length (le_encode n (le_decode bs :: 'a word))"
  then have i: "i < n" by simp
  show "le_encode n (le_decode bs :: 'a word) ! i = bs ! i"
  proof (rule bit_word_eqI)
    fix k assume "k < LENGTH(8)"
    then have k: "k < 8" by simp
    then have "(i * 8 + k) div 8 = i" "(i * 8 + k) mod 8 = k" by simp_all
    moreover have "i * 8 + k < LENGTH('a)" using i k assms(1) by auto
    ultimately show "bit (le_encode n (le_decode bs :: 'a word) ! i) k = bit (bs ! i) k"
      using i k assms(2) by (simp add: bit_ucast_iff bit_drop_bit_eq bit_le_decode)
  qed
qed

lemma le_decode_zeros [simp]: "le_decode (replicate n 0) = 0"
  by (induction n) auto

section \<open>The accessor loops\<close>

definition read_le :: "nat \<Rightarrow> string \<Rightarrow> bytes \<Rightarrow> nat \<Rightarrow> 'a::len word res" where
  "read_le n message data at =
     rbind (require (sz_add at n \<le> length data) message) (\<lambda>_.
     rfold (\<lambda>i v. rbind (elem_at data (sz_add at i)) (\<lambda>b. Inr (v OR push_bit (i * 8) (ucast b))))
       [0..<n] 0)"

definition read_pair :: "string \<Rightarrow> bytes \<Rightarrow> nat \<Rightarrow> u16 res" where
  "read_pair message data at =
     rbind (require (sz_add at 2 \<le> length data) message) (\<lambda>_.
     rbind (elem_at data at) (\<lambda>lo.
     rbind (elem_at data (sz_add at 1)) (\<lambda>hi.
     Inr (ucast lo OR push_bit 8 (ucast hi)))))"

definition set_byte :: "bytes \<Rightarrow> nat \<Rightarrow> u8 \<Rightarrow> bytes res" where
  "set_byte data at b = (if at < length data then Inr (data[at := b]) else Inl Undefined)"

definition write_le :: "nat \<Rightarrow> string \<Rightarrow> bytes \<Rightarrow> nat \<Rightarrow> 'a::len word \<Rightarrow> bytes res" where
  "write_le n message data at v =
     rbind (require (sz_add at n \<le> length data) message) (\<lambda>_.
     rfold (\<lambda>i d. set_byte d (sz_add at i) (ucast (drop_bit (i * 8) v))) [0..<n] data)"

definition write_pair :: "string \<Rightarrow> bytes \<Rightarrow> nat \<Rightarrow> u16 \<Rightarrow> bytes res" where
  "write_pair message data at v =
     rbind (require (sz_add at 2 \<le> length data) message) (\<lambda>_.
     rbind (set_byte data at (ucast v)) (\<lambda>d.
     set_byte d (sz_add at 1) (ucast (drop_bit 8 v))))"

text \<open>\<open>copy_bytes\<close>, whose check subtracts and so cannot wrap.\<close>

definition copy_bytes :: "bytes \<Rightarrow> nat \<Rightarrow> bytes \<Rightarrow> bytes res" where
  "copy_bytes target at source =
     rbind (require (at \<le> length target \<and> length source \<le> length target - at)
              ''copy outside output'') (\<lambda>_.
     Inr (put target at source))"

lemma set_byte_in [simp]: "at < length data \<Longrightarrow> set_byte data at b = Inr (data[at := b])"
  by (simp add: set_byte_def)

lemma set_byte_put: "at < length data \<Longrightarrow> set_byte data at b = Inr (put data at [b])"
  by (simp add: set_byte_def put_def upd_conv_take_nth_drop)

lemma copy_bytes_in [simp]:
  "at + length source \<le> length target \<Longrightarrow> copy_bytes target at source = Inr (put target at source)"
  by (auto simp: copy_bytes_def)

lemma copy_bytes_Inr_iff [res_simps]:
  "copy_bytes target at source = Inr t \<longleftrightarrow>
     at + length source \<le> length target \<and> t = put target at source"
  by (auto simp: copy_bytes_def res_simps)

lemma safe_copy_bytes [simp, intro]: "safe (copy_bytes target at source)"
  by (simp add: copy_bytes_def require_def)

lemma read_loop_bits:
  assumes "at + n \<le> length data" and "at + n < 2 ^ 64" and "m \<le> n"
  shows "rfold (\<lambda>i v. rbind (elem_at data (sz_add at i)) (\<lambda>b. Inr (v OR push_bit (i * 8) (ucast b))))
           [0..<m] 0 = Inr (le_decode (chunk data at m) :: 'a::len word)"
  using assms(3)
proof (induction m)
  case 0
  then show ?case by simp
next
  case (Suc m)
  have step: "le_decode (chunk data at m) OR push_bit (m * 8) (ucast (data ! (at + m)))
      = (le_decode (chunk data at (Suc m)) :: 'a word)" (is "?l = ?r")
  proof (rule bit_word_eqI)
    fix k assume k: "k < LENGTH('a)"
    let ?b = "data ! (at + m)"
    have len: "length (chunk data at m) = m" "length (chunk data at (Suc m)) = Suc m"
      using assms Suc.prems by auto
    have nth: "chunk data at j ! i = data ! (at + i)" if "i < j" "j \<le> n" for i j
      using that assms(1) by simp
    have hi: "bit ?b (k - m * 8) \<longleftrightarrow> bit ?b (k mod 8)" if "k div 8 = m"
      using that by (metis minus_div_mult_eq_mod)
    have out: "\<not> bit ?b (k - m * 8)" if "m < k div 8"
    proof -
      from that have "Suc m * 8 \<le> k" by (metis Suc_leI div_times_less_eq_dividend le_trans mult_le_mono1)
      then show ?thesis by (auto dest: bit_imp_le_length)
    qed
    show "bit ?l k = bit ?r k"
      using k len nth [of "k div 8" m] nth [of "k div 8" "Suc m"] hi out Suc.prems
      by (cases "k div 8" m rule: linorder_cases)
        (auto simp: bit_or_iff bit_push_bit_iff bit_ucast_iff bit_le_decode div_less_iff_less_mult
          less_eq_div_iff_mult_less_eq)
  qed
  have "sz_add at m = at + m" using assms Suc.prems by simp
  with Suc assms step show ?case
    by (simp add: rfold_append)
qed

lemma read_le_in:
  assumes "at + n \<le> length data" and "at + n < 2 ^ 64"
  shows "read_le n message data at = Inr (le_decode (chunk data at n))"
  using assms by (simp add: read_le_def read_loop_bits)

lemma read_le_out:
  assumes "length data < at + n" and "at + n < 2 ^ 64"
  shows "read_le n message data at = Inl (Runtime message)"
  using assms by (simp add: read_le_def require_def)

lemma read_pair_in:
  assumes "at + 2 \<le> length data" and "at + 2 < 2 ^ 64"
  shows "read_pair message data at = Inr (le_decode (chunk data at 2))"
proof -
  have "chunk data at 2 = [data ! at, data ! (at + 1)]"
    using assms by (auto intro!: nth_equalityI simp: less_Suc_eq numeral_2_eq_2)
  with assms show ?thesis by (simp add: read_pair_def)
qed

lemma read_pair_out:
  assumes "length data < at + 2" and "at + 2 < 2 ^ 64"
  shows "read_pair message data at = Inl (Runtime message)"
  using assms by (simp add: read_pair_def require_def)

lemma write_loop_put:
  assumes "at + n \<le> length data" and "at + n < 2 ^ 64" and "m \<le> n"
  shows "rfold (\<lambda>i d. set_byte d (sz_add at i) (ucast (drop_bit (i * 8) v))) [0..<m] data
           = Inr (put data at (le_encode m v))"
  using assms(3)
proof (induction m)
  case 0
  then show ?case by (simp add: le_encode_def)
next
  case (Suc m)
  have "(put data at (le_encode m v))[at + m := ucast (drop_bit (m * 8) v)]
      = put data at (le_encode (Suc m) v)" (is "?l = ?r")
  proof (rule nth_equalityI)
    show "length ?l = length ?r" using Suc.prems assms by simp
  next
    fix i assume "i < length ?l"
    then show "?l ! i = ?r ! i"
      using Suc.prems assms by (auto simp: nth_list_update nth_put nth_append le_encode_Suc)
  qed
  with Suc assms show ?case by (simp add: rfold_append)
qed

lemma write_le_in:
  assumes "at + n \<le> length data" and "at + n < 2 ^ 64"
  shows "write_le n message data at v = Inr (put data at (le_encode n v))"
  using assms by (simp add: write_le_def write_loop_put)

lemma write_le_out:
  assumes "length data < at + n" and "at + n < 2 ^ 64"
  shows "write_le n message data at v = Inl (Runtime message)"
  using assms by (simp add: write_le_def require_def)

lemma write_pair_in:
  assumes "at + 2 \<le> length data" and "at + 2 < 2 ^ 64"
  shows "write_pair message data at v = Inr (put data at (le_encode 2 v))"
proof -
  have "le_encode 2 v = [ucast v, ucast (drop_bit 8 v)]"
    by (auto intro!: nth_equalityI simp: less_Suc_eq numeral_2_eq_2)
  moreover have "data[at := a, Suc at := b] = put data at [a, b]" for a b
    using assms by (auto intro!: nth_equalityI simp: nth_put nth_list_update nth_Cons split: nat.splits)
  ultimately show ?thesis using assms by (simp add: write_pair_def)
qed

lemma write_pair_out:
  assumes "length data < at + 2" and "at + 2 < 2 ^ 64"
  shows "write_pair message data at v = Inl (Runtime message)"
  using assms by (simp add: write_pair_def require_def)

section \<open>The contract of a field\<close>

text \<open>
  What a writer of headers needs to know of a field of \<open>width\<close> bytes: reads decode, writes
  splice, and an access past the end of the buffer is the file's exception, never an
  access outside it.
\<close>

locale field_read =
  fixes width :: nat
    and dec :: "bytes \<Rightarrow> 'v"
    and rd :: "bytes \<Rightarrow> nat \<Rightarrow> 'v res"
  assumes rd_in: "at + width \<le> length data \<Longrightarrow> at + width < 2 ^ 64 \<Longrightarrow>
      rd data at = Inr (dec (chunk data at width))"
    and rd_out: "length data < at + width \<Longrightarrow> at + width < 2 ^ 64 \<Longrightarrow>
      \<exists>m. rd data at = Inl (Runtime m)"
begin

lemma rd_safe: "at + width < 2 ^ 64 \<Longrightarrow> safe (rd data at)"
  using rd_in [of at data] rd_out [of data at] by (cases "at + width \<le> length data") auto

lemma rd_Inr_iff:
  assumes "at + width < 2 ^ 64"
  shows "rd data at = Inr v \<longleftrightarrow> at + width \<le> length data \<and> v = dec (chunk data at width)"
  using assms rd_in [of at data] rd_out [of data at]
  by (cases "at + width \<le> length data") auto

lemma rd_holds: "holds data \<Longrightarrow> at + width \<le> length data \<Longrightarrow> rd data at = Inr (dec (chunk data at width))"
  by (rule rd_in) (auto simp: holds_def)

lemma rd_put_disjoint:
  assumes "b + length src \<le> length data" and "at + width \<le> b \<or> b + length src \<le> at"
    and "at + width < 2 ^ 64" and "at + width \<le> length data"
  shows "rd (put data b src) at = rd data at"
  using assms by (simp add: rd_in chunk_put_disjoint)

lemma rd_chunk:
  assumes "b + n \<le> length data" and "at + width \<le> n" and "n < 2 ^ 64" and "b + n < 2 ^ 64"
  shows "rd (chunk data b n) at = rd data (b + at)"
  using assms by (simp add: rd_in chunk_of_chunk)

end

text \<open>The same with a writer.\<close>

locale field_access = field_read width dec rd
  for width :: nat and dec :: "bytes \<Rightarrow> 'v" and rd :: "bytes \<Rightarrow> nat \<Rightarrow> 'v res" +
  fixes enc :: "'v \<Rightarrow> bytes"
    and wr :: "bytes \<Rightarrow> nat \<Rightarrow> 'v \<Rightarrow> bytes res"
  assumes enc_width: "length (enc v) = width"
    and dec_enc: "dec (enc v) = v"
    and wr_in: "at + width \<le> length data \<Longrightarrow> at + width < 2 ^ 64 \<Longrightarrow>
      wr data at v = Inr (put data at (enc v))"
    and wr_out: "length data < at + width \<Longrightarrow> at + width < 2 ^ 64 \<Longrightarrow>
      \<exists>m. wr data at v = Inl (Runtime m)"
begin

lemma wr_safe: "at + width < 2 ^ 64 \<Longrightarrow> safe (wr data at v)"
  using wr_in [of at data v] wr_out [of data at v] by (cases "at + width \<le> length data") auto

lemma wr_Inr_iff:
  assumes "at + width < 2 ^ 64"
  shows "wr data at v = Inr d \<longleftrightarrow> at + width \<le> length data \<and> d = put data at (enc v)"
  using assms wr_in [of at data v] wr_out [of data at v]
  by (cases "at + width \<le> length data") auto

lemma rd_after_wr:
  assumes "at + width < 2 ^ 64" and "wr data at v = Inr d"
  shows "rd d at = Inr v"
  using assms by (simp add: wr_Inr_iff rd_Inr_iff enc_width chunk_put_same dec_enc)

lemma dec_put_same:
  assumes "at + width \<le> length data"
  shows "dec (chunk (put data at (enc v)) at width) = v"
  using assms by (simp add: chunk_put_same enc_width dec_enc)

end

section \<open>Ascending writes\<close>

text \<open>
  The writers fill a zeroed buffer from its start to its end. A sequence of splices at
  ascending, non-overlapping places leaves every one of them readable, and everything
  between them as it was.
\<close>

definition puts :: "(nat \<times> bytes) list \<Rightarrow> bytes \<Rightarrow> bytes" where
  "puts ops data = fold (\<lambda>(at, src) d. put d at src) ops data"

fun ascending :: "nat \<Rightarrow> (nat \<times> bytes) list \<Rightarrow> nat \<Rightarrow> bool" where
  "ascending lo [] hi \<longleftrightarrow> lo \<le> hi"
| "ascending lo ((at, src) # ops) hi \<longleftrightarrow> lo \<le> at \<and> ascending (at + length src) ops hi"

lemma puts_simps [simp]:
  "puts [] data = data"
  "puts ((at, src) # ops) data = puts ops (put data at src)"
  "puts (ops @ ops') data = puts ops' (puts ops data)"
  by (simp_all add: puts_def)

lemma ascending_le: "ascending lo ops hi \<Longrightarrow> lo \<le> hi"
  by (induction lo ops hi rule: ascending.induct) auto

lemma ascending_append:
  "ascending lo xs mid \<Longrightarrow> ascending mid ys hi \<Longrightarrow> ascending lo (xs @ ys) hi"
proof (induction lo xs mid rule: ascending.induct)
  case (1 lo mid)
  then show ?case by (cases ys) auto
qed auto

lemma ascending_mem:
  "ascending lo ops hi \<Longrightarrow> (at, src) \<in> set ops \<Longrightarrow> lo \<le> at \<and> at + length src \<le> hi"
  by (induction lo ops hi rule: ascending.induct) (auto dest: ascending_le)

lemma ascending_weaken:
  "ascending lo ops hi \<Longrightarrow> lo' \<le> lo \<Longrightarrow> hi \<le> hi' \<Longrightarrow> ascending lo' ops hi'"
  by (induction lo ops hi arbitrary: lo' rule: ascending.induct) auto

lemma length_puts:
  "ascending lo ops hi \<Longrightarrow> hi \<le> length data \<Longrightarrow> length (puts ops data) = length data"
proof (induction lo ops hi arbitrary: data rule: ascending.induct)
  case (2 lo at src ops hi)
  then have "at + length src \<le> length data" using ascending_le by fastforce
  with 2 show ?case by simp
qed simp

lemma chunk_puts_outside:
  assumes "ascending lo ops hi" and "hi \<le> length data" and "b + n \<le> lo \<or> hi \<le> b"
  shows "chunk (puts ops data) b n = chunk data b n"
  using assms
proof (induction lo ops hi arbitrary: data rule: ascending.induct)
  case (2 lo at src ops hi)
  then have "at + length src \<le> hi" using ascending_le by fastforce
  with 2 show ?case by (auto simp: chunk_put_disjoint)
qed simp

lemma chunk_puts_mem:
  assumes "ascending lo ops hi" and "hi \<le> length data" and "(at, src) \<in> set ops"
  shows "chunk (puts ops data) at (length src) = src"
  using assms
proof (induction lo ops hi arbitrary: data rule: ascending.induct)
  case (2 lo a s ops hi)
  then have a: "a + length s \<le> hi" using ascending_le by fastforce
  show ?case
  proof (cases "(at, src) = (a, s)")
    case True
    with 2 a show ?thesis by (auto simp: chunk_puts_outside chunk_put_same)
  next
    case False
    with 2 a show ?thesis by auto
  qed
qed simp

text \<open>A computation that performs exactly such a sequence on any buffer long enough.\<close>

definition emits :: "nat \<Rightarrow> (bytes \<Rightarrow> bytes res) \<Rightarrow> (nat \<times> bytes) list \<Rightarrow> bool" where
  "emits hi m ops \<longleftrightarrow> (\<forall>d. hi \<le> length d \<longrightarrow> m d = Inr (puts ops d) \<and> length (puts ops d) = length d)"

lemma emitsD: "emits hi m ops \<Longrightarrow> hi \<le> length d \<Longrightarrow> m d = Inr (puts ops d)"
  by (simp add: emits_def)

lemma emits_bind:
  "emits hi m ops \<Longrightarrow> emits hi k ops' \<Longrightarrow> emits hi (\<lambda>d. rbind (m d) k) (ops @ ops')"
  by (simp add: emits_def)

lemma emits_return: "emits hi Inr []"
  by (simp add: emits_def)

lemma emits_copy: "at + length src \<le> hi \<Longrightarrow> emits hi (\<lambda>d. copy_bytes d at src) [(at, src)]"
  by (simp add: emits_def)

lemma emits_set_byte: "at < hi \<Longrightarrow> emits hi (\<lambda>d. set_byte d at b) [(at, [b])]"
  by (simp add: emits_def set_byte_put del: set_byte_in)

lemma emits_rfold:
  "(\<And>x. x \<in> set xs \<Longrightarrow> emits hi (f x) (g x)) \<Longrightarrow> emits hi (rfold f xs) (concat (map g xs))"
  by (induction xs) (auto simp: emits_def)

lemma ascending_tighten:
  assumes "ascending lo ops hi" and "ops \<noteq> []"
    and "\<And>at src. (at, src) \<in> set ops \<Longrightarrow> at + length src \<le> hi'"
  shows "ascending lo ops hi'"
  using assms
proof (induction lo ops hi rule: ascending.induct)
  case (2 lo at src ops hi)
  then show ?case by (cases ops) auto
qed simp

text \<open>A buffer \<open>exhibits\<close> a sequence of writes when each of them can be read back from it.\<close>

definition exhibits :: "bytes \<Rightarrow> (nat \<times> bytes) list \<Rightarrow> bool" where
  "exhibits data ops \<longleftrightarrow>
     (\<forall>(at, src) \<in> set ops. at + length src \<le> length data \<and> chunk data at (length src) = src)"

lemma exhibitsD:
  "exhibits data ops \<Longrightarrow> (at, src) \<in> set ops \<Longrightarrow>
     at + length src \<le> length data \<and> chunk data at (length src) = src"
  by (auto simp: exhibits_def)

lemma exhibits_append [simp]: "exhibits data (xs @ ys) \<longleftrightarrow> exhibits data xs \<and> exhibits data ys"
  by (auto simp: exhibits_def)

lemma exhibits_subset: "exhibits data ops \<Longrightarrow> set ops' \<subseteq> set ops \<Longrightarrow> exhibits data ops'"
  by (auto simp: exhibits_def)

lemma exhibits_puts:
  assumes "ascending lo ops hi" and "hi \<le> length data"
  shows "exhibits (puts ops data) ops"
  using assms ascending_mem [OF assms(1)] chunk_puts_mem [OF assms]
  by (fastforce simp: exhibits_def length_puts [OF assms])

lemma exhibits_put_gap:
  assumes "exhibits data (xs @ ys)" and "ascending lo xs mid" and "ascending mid' ys hi"
    and "mid \<le> at" and "at + length src \<le> mid'" and "mid' \<le> length data"
  shows "exhibits (put data at src) (xs @ ys)"
proof -
  have room: "at + length src \<le> length data" using assms(5,6) by simp
  have "b + length s \<le> at \<or> at + length src \<le> b" if "(b, s) \<in> set (xs @ ys)" for b s
    using that ascending_mem [OF assms(2)] ascending_mem [OF assms(3)] assms(4,5) by fastforce
  then show ?thesis using assms(1) room
    by (fastforce simp: exhibits_def chunk_put_disjoint)
qed

context field_access begin

lemma exhibits_rd:
  assumes "exhibits data ops" and "(at, enc v) \<in> set ops" and "at + width < 2 ^ 64"
  shows "rd data at = Inr v"
  using exhibitsD [OF assms(1,2)] assms(3) by (simp add: rd_in enc_width dec_enc)

lemma emits_wr: "at + width \<le> hi \<Longrightarrow> hi < 2 ^ 64 \<Longrightarrow> emits hi (\<lambda>d. wr d at v) [(at, enc v)]"
  by (simp add: emits_def wr_in enc_width)

end

end
