(* ===== verification/Hash.thy ===== *)
theory Hash
  imports Prelude
begin

text \<open>
  \<open>tooling/native/hash.hpp\<close>: SHA-1 and SHA-256 over byte buffers, which the container
  digest, the symbol NIDs and the build identifiers rest on. The model keeps the arrays of
  the code as lists updated by index and its loops as folds over the index range. The second
  half states the two functions in the recursive form of the published standard and proves
  the code equal to them.
\<close>

section \<open>Padding, loading and storing\<close>

text \<open>How many zeros bring a length with residue \<open>r\<close> to 56 modulo 64.\<close>

definition pad_gap :: "nat \<Rightarrow> nat" where
  "pad_gap r = (if r \<le> 56 then 56 - r else 120 - r)"

lemma pad_gap_step: "n mod 64 \<noteq> 56 \<Longrightarrow> pad_gap (n mod 64) = Suc (pad_gap (Suc n mod 64))"
proof -
  assume "n mod 64 \<noteq> 56"
  moreover have "n mod 64 < 64" by simp
  ultimately show ?thesis unfolding pad_gap_def mod_Suc [of n 64]
    by (auto simp: Suc_diff_le split: if_splits)
qed

function pad_zeros :: "bytes \<Rightarrow> bytes" where
  "pad_zeros data = (if length data mod 64 \<noteq> 56 then pad_zeros (data @ [0]) else data)"
  by pat_completeness auto
termination
  by (relation "measure (\<lambda>data. pad_gap (length data mod 64))") (auto simp: pad_gap_step)

declare pad_zeros.simps [simp del]

definition pad :: "bytes \<Rightarrow> bytes" where
  "pad input =
     (let bit_count = (of_nat (length input) :: u64) * 8
      in pad_zeros (input @ [0x80]) @ map (\<lambda>shift. ucast (drop_bit shift bit_count))
           [56, 48, 40, 32, 24, 16, 8, 0])"

definition load_be32 :: "bytes \<Rightarrow> nat \<Rightarrow> u32" where
  "load_be32 data at =
     push_bit 24 (ucast (data ! at)) OR push_bit 16 (ucast (data ! (at + 1))) OR
     push_bit 8 (ucast (data ! (at + 2))) OR ucast (data ! (at + 3))"

definition store_words :: "u32 list \<Rightarrow> bytes" where
  "store_words words = concat (map (\<lambda>w.
     [ucast (drop_bit 24 w), ucast (drop_bit 16 w), ucast (drop_bit 8 w), ucast w]) words)"

definition block_offsets :: "bytes \<Rightarrow> nat list" where
  "block_offsets data = map (\<lambda>i. i * 64) [0..<(length data + 63) div 64]"

section \<open>SHA-1\<close>

type_synonym sha1_state = "u32 \<times> u32 \<times> u32 \<times> u32 \<times> u32"

definition sha1_schedule :: "bytes \<Rightarrow> nat \<Rightarrow> u32 list" where
  "sha1_schedule data offset =
     fold (\<lambda>i w. w[i := word_rotl 1 (w ! (i - 3) XOR w ! (i - 8) XOR w ! (i - 14) XOR w ! (i - 16))])
       [16..<80]
       (fold (\<lambda>i w. w[i := load_be32 data (offset + i * 4)]) [0..<16] (replicate 80 0))"

definition sha1_round :: "u32 list \<Rightarrow> nat \<Rightarrow> sha1_state \<Rightarrow> sha1_state" where
  "sha1_round w i s =
     (case s of (a, b, c, d, e) \<Rightarrow>
        let (f, k) =
              (if i < 20 then ((b AND c) OR (NOT b AND d), 0x5A827999)
               else if i < 40 then (b XOR c XOR d, 0x6ED9EBA1)
               else if i < 60 then ((b AND c) OR (b AND d) OR (c AND d), 0x8F1BBCDC)
               else (b XOR c XOR d, 0xCA62C1D6));
            next = word_rotl 5 a + f + e + k + w ! i
        in (next, a, word_rotl 30 b, c, d))"

definition sha1_block :: "bytes \<Rightarrow> nat \<Rightarrow> sha1_state \<Rightarrow> sha1_state" where
  "sha1_block data offset state =
     (let w = sha1_schedule data offset
      in case state of (h0, h1, h2, h3, h4) \<Rightarrow>
         case fold (sha1_round w) [0..<80] state of (a, b, c, d, e) \<Rightarrow>
           (h0 + a, h1 + b, h2 + c, h3 + d, h4 + e))"

definition sha1 :: "bytes \<Rightarrow> bytes" where
  "sha1 input =
     (let data = pad input
      in case fold (sha1_block data) (block_offsets data)
           (0x67452301, 0xEFCDAB89, 0x98BADCFE, 0x10325476, 0xC3D2E1F0) of
           (a, b, c, d, e) \<Rightarrow> store_words [a, b, c, d, e])"

section \<open>SHA-256\<close>

type_synonym sha256_state = "u32 \<times> u32 \<times> u32 \<times> u32 \<times> u32 \<times> u32 \<times> u32 \<times> u32"

definition sha256_k :: "u32 list" where
  "sha256_k =
    [0x428A2F98, 0x71374491, 0xB5C0FBCF, 0xE9B5DBA5, 0x3956C25B, 0x59F111F1, 0x923F82A4,
     0xAB1C5ED5, 0xD807AA98, 0x12835B01, 0x243185BE, 0x550C7DC3, 0x72BE5D74, 0x80DEB1FE,
     0x9BDC06A7, 0xC19BF174, 0xE49B69C1, 0xEFBE4786, 0x0FC19DC6, 0x240CA1CC, 0x2DE92C6F,
     0x4A7484AA, 0x5CB0A9DC, 0x76F988DA, 0x983E5152, 0xA831C66D, 0xB00327C8, 0xBF597FC7,
     0xC6E00BF3, 0xD5A79147, 0x06CA6351, 0x14292967, 0x27B70A85, 0x2E1B2138, 0x4D2C6DFC,
     0x53380D13, 0x650A7354, 0x766A0ABB, 0x81C2C92E, 0x92722C85, 0xA2BFE8A1, 0xA81A664B,
     0xC24B8B70, 0xC76C51A3, 0xD192E819, 0xD6990624, 0xF40E3585, 0x106AA070, 0x19A4C116,
     0x1E376C08, 0x2748774C, 0x34B0BCB5, 0x391C0CB3, 0x4ED8AA4A, 0x5B9CCA4F, 0x682E6FF3,
     0x748F82EE, 0x78A5636F, 0x84C87814, 0x8CC70208, 0x90BEFFFA, 0xA4506CEB, 0xBEF9A3F7,
     0xC67178F2]"

definition sha256_schedule :: "bytes \<Rightarrow> nat \<Rightarrow> u32 list" where
  "sha256_schedule data offset =
     fold (\<lambda>i w.
         let s0 = word_rotr 7 (w ! (i - 15)) XOR word_rotr 18 (w ! (i - 15)) XOR
                  drop_bit 3 (w ! (i - 15));
             s1 = word_rotr 17 (w ! (i - 2)) XOR word_rotr 19 (w ! (i - 2)) XOR
                  drop_bit 10 (w ! (i - 2))
         in w[i := w ! (i - 16) + s0 + w ! (i - 7) + s1])
       [16..<64]
       (fold (\<lambda>i w. w[i := load_be32 data (offset + i * 4)]) [0..<16] (replicate 64 0))"

definition sha256_round :: "u32 list \<Rightarrow> nat \<Rightarrow> sha256_state \<Rightarrow> sha256_state" where
  "sha256_round w i s =
     (case s of (a, b, c, d, e, f, g, h) \<Rightarrow>
        let s1 = word_rotr 6 e XOR word_rotr 11 e XOR word_rotr 25 e;
            choice = (e AND f) XOR (NOT e AND g);
            t1 = h + s1 + choice + sha256_k ! i + w ! i;
            s0 = word_rotr 2 a XOR word_rotr 13 a XOR word_rotr 22 a;
            majority = (a AND b) XOR (a AND c) XOR (b AND c);
            t2 = s0 + majority
        in (t1 + t2, a, b, c, d + t1, e, f, g))"

definition sha256_block :: "bytes \<Rightarrow> nat \<Rightarrow> sha256_state \<Rightarrow> sha256_state" where
  "sha256_block data offset state =
     (let w = sha256_schedule data offset
      in case state of (h0, h1, h2, h3, h4, h5, h6, h7) \<Rightarrow>
         case fold (sha256_round w) [0..<64] state of (a, b, c, d, e, f, g, h) \<Rightarrow>
           (h0 + a, h1 + b, h2 + c, h3 + d, h4 + e, h5 + f, h6 + g, h7 + h))"

definition sha256 :: "bytes \<Rightarrow> bytes" where
  "sha256 input =
     (let data = pad input
      in case fold (sha256_block data) (block_offsets data)
           (0x6A09E667, 0xBB67AE85, 0x3C6EF372, 0xA54FF53A,
            0x510E527F, 0x9B05688C, 0x1F83D9AB, 0x5BE0CD19) of
           (a, b, c, d, e, f, g, h) \<Rightarrow> store_words [a, b, c, d, e, f, g, h])"

section \<open>Lengths\<close>

lemma pad_zeros_eq:
  "pad_zeros data = data @ replicate (pad_gap (length data mod 64)) 0"
proof (induction data rule: pad_zeros.induct)
  case (1 data)
  show ?case
  proof (cases "length data mod 64 \<noteq> 56")
    case True
    then have "replicate (pad_gap (length data mod 64)) (0::u8) =
        0 # replicate (pad_gap (Suc (length data) mod 64)) 0"
      by (simp add: pad_gap_step)
    with 1 True show ?thesis by (simp add: pad_zeros.simps [of data])
  next
    case False
    then show ?thesis by (simp add: pad_zeros.simps [of data] pad_gap_def)
  qed
qed

lemma pad_gap_total: "(n + pad_gap (n mod 64)) mod 64 = 56"
proof -
  have "(n + pad_gap (n mod 64)) mod 64 = (n mod 64 + pad_gap (n mod 64)) mod 64"
    by (simp add: mod_simps)
  also have "\<dots> = 56"
    using mod_less_divisor [of 64 n] by (auto simp: pad_gap_def not_le)
  finally show ?thesis .
qed

lemma pad_length: "length (pad input) mod 64 = 0"
proof -
  let ?n = "length input + 1"
  have "length (pad input) = ?n + pad_gap (?n mod 64) + 8"
    by (simp add: pad_def pad_zeros_eq Let_def)
  moreover have "(?n + pad_gap (?n mod 64) + 8) mod 64 = ((?n + pad_gap (?n mod 64)) mod 64 + 8) mod 64"
    by (simp only: mod_add_left_eq)
  ultimately show ?thesis by (simp only: pad_gap_total) simp
qed

lemma store_words_length [simp]: "length (store_words ws) = 4 * length ws"
  by (induction ws) (auto simp: store_words_def)

lemma sha1_length [simp]: "length (sha1 input) = 20"
  by (simp add: sha1_def Let_def split: prod.split)

lemma sha256_length [simp]: "length (sha256 input) = 32"
  by (simp add: sha256_def Let_def split: prod.split)

section \<open>The standard\<close>

text \<open>
  FIPS 180-4, sections 4 to 6: the message is padded with one bit, the least number of zero
  bits and its length; the schedule is a recurrence over the words of a block; a block runs
  80 (64) rounds whose functions are the standard's, each with exclusive-or where SHA-1's code
  uses an inclusive one.
\<close>

definition fips_pad :: "bytes \<Rightarrow> bytes" where
  "fips_pad m = m @ [0x80] @ replicate (LEAST k. (length m + 1 + k) mod 64 = 56) 0 @
     map (\<lambda>i. ucast (drop_bit (56 - 8 * i) (of_nat (8 * length m) :: u64))) [0..<8]"

definition fips_ch :: "u32 \<Rightarrow> u32 \<Rightarrow> u32 \<Rightarrow> u32" where
  "fips_ch x y z = (x AND y) XOR (NOT x AND z)"

definition fips_parity :: "u32 \<Rightarrow> u32 \<Rightarrow> u32 \<Rightarrow> u32" where
  "fips_parity x y z = x XOR y XOR z"

definition fips_maj :: "u32 \<Rightarrow> u32 \<Rightarrow> u32 \<Rightarrow> u32" where
  "fips_maj x y z = (x AND y) XOR (x AND z) XOR (y AND z)"

fun fips_w1 :: "(nat \<Rightarrow> u32) \<Rightarrow> nat \<Rightarrow> u32" where
  "fips_w1 m t =
     (if t < 16 then m t
      else word_rotl 1 (fips_w1 m (t - 3) XOR fips_w1 m (t - 8) XOR fips_w1 m (t - 14) XOR
             fips_w1 m (t - 16)))"

declare fips_w1.simps [simp del]

definition fips_f1 :: "nat \<Rightarrow> u32 \<Rightarrow> u32 \<Rightarrow> u32 \<Rightarrow> u32" where
  "fips_f1 t = (if t < 20 then fips_ch else if 40 \<le> t \<and> t < 60 then fips_maj else fips_parity)"

definition fips_k1 :: "nat \<Rightarrow> u32" where
  "fips_k1 t = [0x5A827999, 0x6ED9EBA1, 0x8F1BBCDC, 0xCA62C1D6] ! (t div 20)"

primrec fips_rounds1 :: "(nat \<Rightarrow> u32) \<Rightarrow> nat \<Rightarrow> sha1_state \<Rightarrow> sha1_state" where
  "fips_rounds1 w 0 s = s"
| "fips_rounds1 w (Suc t) s =
     (case fips_rounds1 w t s of (a, b, c, d, e) \<Rightarrow>
        (word_rotl 5 a + fips_f1 t b c d + e + fips_k1 t + w t, a, word_rotl 30 b, c, d))"

definition fips_word :: "bytes \<Rightarrow> nat \<Rightarrow> nat \<Rightarrow> u32" where
  "fips_word m block t = load_be32 m (64 * block + 4 * t)"

primrec fips_hash1 :: "bytes \<Rightarrow> nat \<Rightarrow> sha1_state" where
  "fips_hash1 m 0 = (0x67452301, 0xEFCDAB89, 0x98BADCFE, 0x10325476, 0xC3D2E1F0)"
| "fips_hash1 m (Suc i) =
     (case fips_hash1 m i of (h0, h1, h2, h3, h4) \<Rightarrow>
      case fips_rounds1 (fips_w1 (fips_word m i)) 80 (h0, h1, h2, h3, h4) of (a, b, c, d, e) \<Rightarrow>
        (h0 + a, h1 + b, h2 + c, h3 + d, h4 + e))"

definition fips_sha1 :: "bytes \<Rightarrow> bytes" where
  "fips_sha1 message =
     (let m = fips_pad message
      in case fips_hash1 m (length m div 64) of (a, b, c, d, e) \<Rightarrow> store_words [a, b, c, d, e])"

definition fips_sigma0 :: "u32 \<Rightarrow> u32" where
  "fips_sigma0 x = word_rotr 7 x XOR word_rotr 18 x XOR drop_bit 3 x"

definition fips_sigma1 :: "u32 \<Rightarrow> u32" where
  "fips_sigma1 x = word_rotr 17 x XOR word_rotr 19 x XOR drop_bit 10 x"

definition fips_Sigma0 :: "u32 \<Rightarrow> u32" where
  "fips_Sigma0 x = word_rotr 2 x XOR word_rotr 13 x XOR word_rotr 22 x"

definition fips_Sigma1 :: "u32 \<Rightarrow> u32" where
  "fips_Sigma1 x = word_rotr 6 x XOR word_rotr 11 x XOR word_rotr 25 x"

fun fips_w256 :: "(nat \<Rightarrow> u32) \<Rightarrow> nat \<Rightarrow> u32" where
  "fips_w256 m t =
     (if t < 16 then m t
      else fips_sigma1 (fips_w256 m (t - 2)) + fips_w256 m (t - 7) +
           fips_sigma0 (fips_w256 m (t - 15)) + fips_w256 m (t - 16))"

declare fips_w256.simps [simp del]

primrec fips_rounds256 :: "(nat \<Rightarrow> u32) \<Rightarrow> nat \<Rightarrow> sha256_state \<Rightarrow> sha256_state" where
  "fips_rounds256 w 0 s = s"
| "fips_rounds256 w (Suc t) s =
     (case fips_rounds256 w t s of (a, b, c, d, e, f, g, h) \<Rightarrow>
        let t1 = h + fips_Sigma1 e + fips_ch e f g + sha256_k ! t + w t;
            t2 = fips_Sigma0 a + fips_maj a b c
        in (t1 + t2, a, b, c, d + t1, e, f, g))"

primrec fips_hash256 :: "bytes \<Rightarrow> nat \<Rightarrow> sha256_state" where
  "fips_hash256 m 0 = (0x6A09E667, 0xBB67AE85, 0x3C6EF372, 0xA54FF53A,
                       0x510E527F, 0x9B05688C, 0x1F83D9AB, 0x5BE0CD19)"
| "fips_hash256 m (Suc i) =
     (case fips_hash256 m i of (h0, h1, h2, h3, h4, h5, h6, h7) \<Rightarrow>
      case fips_rounds256 (fips_w256 (fips_word m i)) 64 (h0, h1, h2, h3, h4, h5, h6, h7) of
        (a, b, c, d, e, f, g, h) \<Rightarrow>
          (h0 + a, h1 + b, h2 + c, h3 + d, h4 + e, h5 + f, h6 + g, h7 + h))"

definition fips_sha256 :: "bytes \<Rightarrow> bytes" where
  "fips_sha256 message =
     (let m = fips_pad message
      in case fips_hash256 m (length m div 64) of
           (a, b, c, d, e, f, g, h) \<Rightarrow> store_words [a, b, c, d, e, f, g, h])"

section \<open>The code computes the standard\<close>

lemma pad_gap_minimal:
  assumes "r < 64" and "(r + k) mod 64 = 56"
  shows "pad_gap r \<le> k"
proof -
  define q where "q = (r + k) div 64"
  have "r + k = 64 * q + 56" using assms(2) unfolding q_def by (metis mult_div_mod_eq)
  then show ?thesis using assms(1) by (cases q) (auto simp: pad_gap_def)
qed

lemma pad_gap_least: "(LEAST k. (n + k) mod 64 = 56) = pad_gap (n mod 64)"
proof (rule Least_equality)
  show "(n + pad_gap (n mod 64)) mod 64 = 56" by (rule pad_gap_total)
next
  fix k assume "(n + k) mod 64 = 56"
  then have "(n mod 64 + k) mod 64 = 56" by (simp add: mod_simps)
  then show "pad_gap (n mod 64) \<le> k" by (intro pad_gap_minimal) auto
qed

lemma pad_is_fips: "pad input = fips_pad input"
proof -
  have "(of_nat (length input) :: u64) * 8 = of_nat (8 * length input)"
    by (simp add: mult.commute)
  then show ?thesis
    by (simp add: pad_def fips_pad_def pad_zeros_eq pad_gap_least [of "Suc (length input)", simplified]
        Let_def upt_rec mult.commute)
qed

text \<open>A fold that fills an array in index order computes the sequence its cells recur by.\<close>

lemma fold_fill:
  assumes "length w = n" and "k \<le> e" and "e \<le> n" and "\<And>t. t < k \<Longrightarrow> w ! t = g t"
    and "\<And>i v. k \<le> i \<Longrightarrow> i < e \<Longrightarrow> length v = n \<Longrightarrow> (\<And>t. t < i \<Longrightarrow> v ! t = g t) \<Longrightarrow>
      F i v = v[i := g i]"
  shows "length (fold F [k..<e] w) = n \<and> (\<forall>t < e. fold F [k..<e] w ! t = g t)"
  using assms(2,3,5)
proof (induction e rule: dec_induct)
  case base
  with assms show ?case by simp
next
  case (step e)
  let ?v = "fold F [k..<e] w"
  have IH: "length ?v = n \<and> (\<forall>t < e. ?v ! t = g t)"
    using step.prems by (intro step.IH) auto
  then have "F e ?v = ?v[e := g e]"
    using step.prems step.hyps by auto
  moreover have "fold F [k..<Suc e] w = F e ?v" using step.hyps by simp
  ultimately show ?case using IH step.prems(1) by (auto simp: nth_list_update less_Suc_eq)
qed

lemma schedule_load:
  assumes "16 \<le> n"
  shows "length (fold (\<lambda>i w. w[i := load_be32 data (offset + i * 4)]) [0..<16] (replicate n 0)) = n \<and>
    (\<forall>t < 16. fold (\<lambda>i w. w[i := load_be32 data (offset + i * 4)]) [0..<16] (replicate n 0) ! t =
       load_be32 data (offset + t * 4))"
  using fold_fill [of "replicate n 0" n 0 16 "\<lambda>t. load_be32 data (offset + t * 4)"
      "\<lambda>i w. w[i := load_be32 data (offset + i * 4)]"] assms by simp

lemma sha1_schedule_nth:
  assumes "t < 80"
  shows "sha1_schedule data (64 * i) ! t = fips_w1 (fips_word data i) t"
proof -
  let ?m = "fips_word data i"
  let ?w = "fold (\<lambda>j w. w[j := load_be32 data (64 * i + j * 4)]) [0..<16] (replicate 80 0)"
  let ?F = "\<lambda>j w. w[j := word_rotl 1 (w ! (j - 3) XOR w ! (j - 8) XOR w ! (j - 14) XOR w ! (j - 16))]"
  have load: "length ?w = 80" "\<And>t. t < 16 \<Longrightarrow> ?w ! t = fips_w1 ?m t"
    using schedule_load [of 80 data "64 * i"]
    by (simp_all add: fips_w1.simps [of ?m] fips_word_def mult.commute)
  have "length (fold ?F [16..<80] ?w) = 80 \<and>
      (\<forall>t < 80. fold ?F [16..<80] ?w ! t = fips_w1 ?m t)"
  proof (intro fold_fill)
    fix j and v :: "u32 list"
    assume j: "16 \<le> j" "j < 80" and v: "\<And>t. t < j \<Longrightarrow> v ! t = fips_w1 ?m t"
    show "?F j v = v[j := fips_w1 ?m j]" using j by (simp add: fips_w1.simps [of ?m j] v)
  qed (use load in auto)
  with assms show ?thesis unfolding sha1_schedule_def by blast
qed

lemma sha256_schedule_nth:
  assumes "t < 64"
  shows "sha256_schedule data (64 * i) ! t = fips_w256 (fips_word data i) t"
proof -
  let ?m = "fips_word data i"
  let ?w = "fold (\<lambda>j w. w[j := load_be32 data (64 * i + j * 4)]) [0..<16] (replicate 64 0)"
  let ?F = "\<lambda>j w. let s0 = word_rotr 7 (w ! (j - 15)) XOR word_rotr 18 (w ! (j - 15)) XOR
                  drop_bit 3 (w ! (j - 15));
             s1 = word_rotr 17 (w ! (j - 2)) XOR word_rotr 19 (w ! (j - 2)) XOR
                  drop_bit 10 (w ! (j - 2))
         in w[j := w ! (j - 16) + s0 + w ! (j - 7) + s1]"
  have load: "length ?w = 64" "\<And>t. t < 16 \<Longrightarrow> ?w ! t = fips_w256 ?m t"
    using schedule_load [of 64 data "64 * i"]
    by (simp_all add: fips_w256.simps [of ?m] fips_word_def mult.commute)
  have "length (fold ?F [16..<64] ?w) = 64 \<and>
      (\<forall>t < 64. fold ?F [16..<64] ?w ! t = fips_w256 ?m t)"
  proof (intro fold_fill)
    fix j and v :: "u32 list"
    assume j: "16 \<le> j" "j < 64" and v: "\<And>t. t < j \<Longrightarrow> v ! t = fips_w256 ?m t"
    show "?F j v = v[j := fips_w256 ?m j]"
      using j by (simp add: fips_w256.simps [of ?m j] v fips_sigma0_def fips_sigma1_def Let_def ac_simps)
  qed (use load in auto)
  with assms show ?thesis unfolding sha256_schedule_def by blast
qed

lemma fips_f1_code:
  "(b AND c) OR (NOT b AND d) = fips_ch b c d"
  "(b AND c) OR (b AND d) OR (c AND d) = fips_maj b c d"
  by (auto intro!: bit_word_eqI simp: fips_ch_def fips_maj_def bit_simps)

lemma sha1_round_fips:
  assumes "t < 80" and "w ! t = v t"
  shows "sha1_round w t (fips_rounds1 v t s) = fips_rounds1 v (Suc t) s"
proof -
  have k: "fips_k1 t = (if t < 20 then 0x5A827999 else if t < 40 then 0x6ED9EBA1
      else if t < 60 then 0x8F1BBCDC else 0xCA62C1D6)"
  proof -
    have "t div 20 = (if t < 20 then 0 else if t < 40 then 1 else if t < 60 then 2 else 3)"
      using assms(1) by auto
    then show ?thesis by (simp add: fips_k1_def)
  qed
  show ?thesis
    using assms(2)
    by (auto simp: sha1_round_def fips_f1_code k fips_f1_def fips_parity_def Let_def split: prod.split)
qed

lemma sha1_rounds_fips:
  assumes "\<And>t. t < 80 \<Longrightarrow> w ! t = v t" and "n \<le> 80"
  shows "fold (sha1_round w) [0..<n] s = fips_rounds1 v n s"
  using assms(2)
proof (induction n)
  case (Suc n)
  then have "fold (sha1_round w) [0..<Suc n] s = sha1_round w n (fips_rounds1 v n s)" by simp
  also have "\<dots> = fips_rounds1 v (Suc n) s"
    using Suc.prems assms(1) by (intro sha1_round_fips) auto
  finally show ?case .
qed simp

lemma sha256_rounds_fips:
  assumes "\<And>t. t < 64 \<Longrightarrow> w ! t = v t" and "n \<le> 64"
  shows "fold (sha256_round w) [0..<n] s = fips_rounds256 v n s"
  using assms(2)
proof (induction n)
  case (Suc n)
  then have "fold (sha256_round w) [0..<Suc n] s = sha256_round w n (fips_rounds256 v n s)" by simp
  also have "\<dots> = fips_rounds256 v (Suc n) s"
    using Suc.prems assms(1) [of n]
    by (simp add: sha256_round_def fips_Sigma0_def fips_Sigma1_def fips_ch_def fips_maj_def
        Let_def split: prod.split)
  finally show ?case .
qed simp

lemma sha1_blocks_fips:
  "fold (sha1_block data) (map (\<lambda>i. i * 64) [0..<n])
     (0x67452301, 0xEFCDAB89, 0x98BADCFE, 0x10325476, 0xC3D2E1F0) = fips_hash1 data n"
proof (induction n)
  case (Suc n)
  have "fold (sha1_round (sha1_schedule data (64 * n))) [0..<80] s =
      fips_rounds1 (fips_w1 (fips_word data n)) 80 s" for s
    by (rule sha1_rounds_fips) (simp_all add: sha1_schedule_nth)
  with Suc show ?case by (simp add: sha1_block_def Let_def mult.commute split: prod.split)
qed simp

lemma sha256_blocks_fips:
  "fold (sha256_block data) (map (\<lambda>i. i * 64) [0..<n])
     (0x6A09E667, 0xBB67AE85, 0x3C6EF372, 0xA54FF53A,
      0x510E527F, 0x9B05688C, 0x1F83D9AB, 0x5BE0CD19) = fips_hash256 data n"
proof (induction n)
  case (Suc n)
  have "fold (sha256_round (sha256_schedule data (64 * n))) [0..<64] s =
      fips_rounds256 (fips_w256 (fips_word data n)) 64 s" for s
    by (rule sha256_rounds_fips) (simp_all add: sha256_schedule_nth)
  with Suc show ?case by (simp add: sha256_block_def Let_def mult.commute split: prod.split)
qed simp

lemma block_offsets_pad:
  "block_offsets (pad input) = map (\<lambda>i. i * 64) [0..<length (pad input) div 64]"
  using pad_length [of input] by (auto simp: block_offsets_def simp flip: dvd_eq_mod_eq_0)

text \<open>\<open>sha1\<close> computes the SHA-1 of FIPS 180-4 on every input.\<close>

lemma sha1_is_fips: "sha1 input = fips_sha1 input"
  unfolding sha1_def fips_sha1_def block_offsets_pad Let_def sha1_blocks_fips
  by (simp add: pad_is_fips)


end
