(* ===== verification/Self_Container.thy ===== *)
theory Self_Container
  imports Byte_Codec Hash
begin

text \<open>
  \<open>tooling/native/self_container.hpp\<close> and \<open>self_container.cpp\<close>: the signed-executable
  container. \<open>sign\<close> wraps an ELF module, \<open>parse\<close> reads a container's tables, \<open>extract\<close>
  rebuilds the module and \<open>strip_sections\<close> drops the section table. The names of namespace
  \<open>ps5::self\<close> carry the prefix \<open>self_\<close>. zlib is not part of the repository: its one use
  (\<open>inflateInit2\<close>, \<open>inflate\<close>, \<open>inflateEnd\<close> over one buffer) is the parameter \<open>zlib\<close> of
  \<open>extract\<close>, and of \<open>sign\<close>, which calls it. A failing allocation is not modelled.
\<close>

section \<open>Constants and data\<close>

abbreviation (input) kMagic :: u32 where "kMagic \<equiv> 0xEEF51454"
abbreviation (input) kAlternateMagic :: u32 where "kAlternateMagic \<equiv> 0x1D3D154F"
abbreviation (input) kDeveloperAuthority :: u64 where "kDeveloperAuthority \<equiv> 0x3100000000000002"

abbreviation (input) kContainerHeaderSize :: nat where "kContainerHeaderSize \<equiv> 0x20"
abbreviation (input) kSegmentEntrySize :: nat where "kSegmentEntrySize \<equiv> 0x20"
abbreviation (input) kExtendedInfoSize :: nat where "kExtendedInfoSize \<equiv> 0x40"
abbreviation (input) kControlRegionSize :: nat where "kControlRegionSize \<equiv> 0x30"
abbreviation (input) kMetadataBlockSize :: nat where "kMetadataBlockSize \<equiv> 0x50"
abbreviation (input) kMetadataFooterSize :: nat where "kMetadataFooterSize \<equiv> 0x50"
abbreviation (input) kSignatureSize :: nat where "kSignatureSize \<equiv> 0x200"
abbreviation (input) kAlternateSignatureSize :: nat where "kAlternateSignatureSize \<equiv> 0x100"
abbreviation (input) kSegmentBlockSize :: nat where "kSegmentBlockSize \<equiv> 0x4000"
abbreviation (input) kDigestSlotSize :: nat where "kDigestSlotSize \<equiv> 0x20"
abbreviation (input) kFooterMarkerOffset :: nat where "kFooterMarkerOffset \<equiv> 0x30"
abbreviation (input) kElfHeaderSize :: nat where "kElfHeaderSize \<equiv> 0x40"
abbreviation (input) kElfProgramHeaderSize :: nat where "kElfProgramHeaderSize \<equiv> 0x38"

abbreviation (input) kPtLoad :: u32 where "kPtLoad \<equiv> 0x00000001"
abbreviation (input) kPtDynamic :: u32 where "kPtDynamic \<equiv> 0x00000002"
abbreviation (input) kPtDynlibData :: u32 where "kPtDynlibData \<equiv> 0x61000000"
abbreviation (input) kPtProcParam :: u32 where "kPtProcParam \<equiv> 0x61000001"
abbreviation (input) kPtRelro :: u32 where "kPtRelro \<equiv> 0x61000010"
abbreviation (input) kPtComment :: u32 where "kPtComment \<equiv> 0x6fffff00"
abbreviation (input) kPtVersionRecords :: u32 where "kPtVersionRecords \<equiv> 0x6fffff01"

record sign_options =
  opt_magic :: u32
  opt_include_proc_param :: bool
  opt_normalize_header :: bool
  opt_app_version :: u64
  opt_firmware_version :: u64
  opt_authority :: u64
  opt_auth_info :: bytes

definition default_options :: sign_options where
  "default_options = \<lparr>opt_magic = kMagic, opt_include_proc_param = False,
     opt_normalize_header = True, opt_app_version = 0, opt_firmware_version = 0,
     opt_authority = kDeveloperAuthority, opt_auth_info = []\<rparr>"

record self_segment =
  seg_flags :: u64
  seg_file_offset :: u64
  seg_file_size :: u64
  seg_memory_size :: u64

definition self_id :: "self_segment \<Rightarrow> nat" where
  "self_id s = unat (drop_bit 20 (seg_flags s) AND 0xffff)"

definition self_encrypted :: "self_segment \<Rightarrow> bool" where
  "self_encrypted s \<longleftrightarrow> seg_flags s AND 0x2 \<noteq> 0"

definition self_compressed :: "self_segment \<Rightarrow> bool" where
  "self_compressed s \<longleftrightarrow> seg_flags s AND 0x8 \<noteq> 0"

definition self_blocked :: "self_segment \<Rightarrow> bool" where
  "self_blocked s \<longleftrightarrow> seg_flags s AND 0x800 \<noteq> 0"

record self_image =
  im_program_type :: u32
  im_header_size :: u16
  im_metadata_size :: u16
  im_file_size :: u64
  im_segments :: "self_segment list"
  im_elf_headers :: bytes
  im_has_extended_info :: bool
  im_authority :: u64
  im_extended_program_type :: u64
  im_app_version :: u64
  im_firmware_version :: u64
  im_digest :: bytes

section \<open>Field access\<close>

definition self_read_u16 :: "bytes \<Rightarrow> nat \<Rightarrow> u16 res" where
  "self_read_u16 = read_pair ''read_u16 outside input''"

definition self_read_u32 :: "bytes \<Rightarrow> nat \<Rightarrow> u32 res" where
  "self_read_u32 = read_le 4 ''read_u32 outside input''"

definition self_read_u64 :: "bytes \<Rightarrow> nat \<Rightarrow> u64 res" where
  "self_read_u64 = read_le 8 ''read_u64 outside input''"

definition self_write_u16 :: "bytes \<Rightarrow> nat \<Rightarrow> u16 \<Rightarrow> bytes res" where
  "self_write_u16 = write_pair ''write_u16 outside output''"

definition self_write_u32 :: "bytes \<Rightarrow> nat \<Rightarrow> u32 \<Rightarrow> bytes res" where
  "self_write_u32 = write_le 4 ''write_u32 outside output''"

definition self_write_u64 :: "bytes \<Rightarrow> nat \<Rightarrow> u64 \<Rightarrow> bytes res" where
  "self_write_u64 = write_le 8 ''write_u64 outside output''"

interpretation s16: field_access 2 "le_decode :: bytes \<Rightarrow> u16" self_read_u16 "le_encode 2" self_write_u16
  by unfold_locales
    (simp_all add: self_read_u16_def self_write_u16_def read_pair_in read_pair_out write_pair_in
      write_pair_out le_decode_encode)

interpretation s32: field_access 4 "le_decode :: bytes \<Rightarrow> u32" self_read_u32 "le_encode 4" self_write_u32
  by unfold_locales
    (simp_all add: self_read_u32_def self_write_u32_def read_le_in read_le_out write_le_in
      write_le_out le_decode_encode)

interpretation s64: field_access 8 "le_decode :: bytes \<Rightarrow> u64" self_read_u64 "le_encode 8" self_write_u64
  by unfold_locales
    (simp_all add: self_read_u64_def self_write_u64_def read_le_in read_le_out write_le_in
      write_le_out le_decode_encode)

section \<open>Sizes and regions\<close>

definition self_align_up :: "nat \<Rightarrow> nat \<Rightarrow> nat" where
  "self_align_up value alignment =
     unat ((of_nat value + of_nat alignment - 1 :: u64) AND NOT (of_nat alignment - 1))"

definition self_metadata_size :: "nat \<Rightarrow> u32 \<Rightarrow> nat" where
  "self_metadata_size segment_count magic =
     segment_count * kMetadataBlockSize + kMetadataFooterSize +
     (if magic = kAlternateMagic then kAlternateSignatureSize else kSignatureSize)"

definition self_digest_size :: "nat \<Rightarrow> nat" where
  "self_digest_size data_size =
     sz_add data_size (kSegmentBlockSize - 1) div kSegmentBlockSize * kDigestSlotSize"

record file_region =
  reg_offset :: nat
  reg_size :: nat

fun find_version_loop :: "bytes \<Rightarrow> nat \<Rightarrow> nat list \<Rightarrow> file_region res" where
  "find_version_loop elf limit [] = Inr \<lparr>reg_offset = 0, reg_size = 0\<rparr>"
| "find_version_loop elf limit (i # is) =
     (let header = kElfHeaderSize + i * kElfProgramHeaderSize
      in rbind (self_read_u32 elf header) (\<lambda>type.
         if type \<noteq> kPtVersionRecords then find_version_loop elf limit is
         else rbind (self_read_u64 elf (header + 0x08)) (\<lambda>offset.
              rbind (self_read_u64 elf (header + 0x20)) (\<lambda>sz.
              if sz = 0 \<or> \<not> range_ok (unat offset) (unat sz) limit
              then Inr \<lparr>reg_offset = 0, reg_size = 0\<rparr>
              else Inr \<lparr>reg_offset = unat offset, reg_size = unat sz\<rparr>))))"

definition self_find_version_records :: "bytes \<Rightarrow> nat \<Rightarrow> nat \<Rightarrow> file_region res" where
  "self_find_version_records elf program_count limit = find_version_loop elf limit [0..<program_count]"

section \<open>Inflation\<close>

text \<open>One run of zlib over a buffer: whether it initialised, whether it reached the end of
  the stream, how much it says it wrote, and what it wrote from the buffer's start.\<close>

record zlib_result =
  z_init_ok :: bool
  z_stream_end :: bool
  z_total_out :: nat
  z_written :: bytes

type_synonym zlib = "int \<Rightarrow> bytes \<Rightarrow> nat \<Rightarrow> zlib_result"

definition self_inflate_once :: "zlib \<Rightarrow> bytes \<Rightarrow> nat \<Rightarrow> int \<Rightarrow> bytes" where
  "self_inflate_once zlib input expected window_bits =
     (let r = zlib window_bits input expected
      in if \<not> z_init_ok r then []
         else if z_stream_end r \<and> z_total_out r = expected
              then take expected (z_written r @ replicate expected 0) else [])"

definition self_inflate_segment :: "zlib \<Rightarrow> bytes \<Rightarrow> nat \<Rightarrow> bytes res" where
  "self_inflate_segment zlib input expected =
     (if expected = 0 then Inr []
      else if length input > 2 ^ 32 - 1 \<or> expected > 2 ^ 32 - 1
           then Inl (Runtime ''compressed segment is too large'')
      else let output = self_inflate_once zlib input expected 15
           in if length output = expected then Inr output
              else let output = self_inflate_once zlib input expected (- 15)
                   in rbind (require (length output = expected)
                        ''compressed segment did not inflate to its recorded size'')
                        (\<lambda>_. Inr output))"

section \<open>Reading a container\<close>

definition self_is_elf :: "bytes \<Rightarrow> bool res" where
  "self_is_elf data =
     (if kElfHeaderSize \<le> length data
      then rbind (self_read_u32 data 0) (\<lambda>magic. Inr (magic = 0x464c457f)) else Inr False)"

definition self_is_self :: "bytes \<Rightarrow> bool res" where
  "self_is_self data =
     (if length data < kContainerHeaderSize then Inr False
      else rbind (self_read_u32 data 0) (\<lambda>magic. Inr (magic = kMagic \<or> magic = kAlternateMagic)))"

definition read_segment :: "bytes \<Rightarrow> nat \<Rightarrow> self_segment res" where
  "read_segment data i =
     (let at = kContainerHeaderSize + i * kSegmentEntrySize
      in rbind (self_read_u64 data at) (\<lambda>flags.
         rbind (self_read_u64 data (at + 0x08)) (\<lambda>file_offset.
         rbind (self_read_u64 data (at + 0x10)) (\<lambda>file_size.
         rbind (self_read_u64 data (at + 0x18)) (\<lambda>memory_size.
         Inr \<lparr>seg_flags = flags, seg_file_offset = file_offset, seg_file_size = file_size,
           seg_memory_size = memory_size\<rparr>)))))"

text \<open>The fields of \<open>parse\<close>'s last step, read when the extended information fits.\<close>

definition read_extended_info :: "bytes \<Rightarrow> nat \<Rightarrow> self_image \<Rightarrow> self_image res" where
  "read_extended_info data extended_at img =
     rbind (self_read_u64 data extended_at) (\<lambda>authority.
     rbind (self_read_u64 data (extended_at + 0x08)) (\<lambda>program_type.
     rbind (self_read_u64 data (extended_at + 0x10)) (\<lambda>app_version.
     rbind (self_read_u64 data (extended_at + 0x18)) (\<lambda>firmware_version.
     rbind (subspan data (extended_at + 0x20) 32) (\<lambda>digest.
     Inr (img\<lparr>im_has_extended_info := True, im_authority := authority,
       im_extended_program_type := program_type, im_app_version := app_version,
       im_firmware_version := firmware_version, im_digest := digest\<rparr>))))))"

definition self_parse :: "bytes \<Rightarrow> self_image res" where
  "self_parse data =
     rbind (self_is_self data) (\<lambda>is_self.
     rbind (require is_self ''input is not a signed-executable container'') (\<lambda>_.
     rbind (self_read_u32 data 0x08) (\<lambda>program_type.
     rbind (self_read_u16 data 0x0c) (\<lambda>header_size.
     rbind (self_read_u16 data 0x0e) (\<lambda>metadata_size.
     rbind (self_read_u64 data 0x10) (\<lambda>file_size.
     rbind (self_read_u16 data 0x18) (\<lambda>count.
     let segment_count = unat count;
         table_end = kContainerHeaderSize + segment_count * kSegmentEntrySize
     in rbind (require (table_end \<le> length data) ''container segment table overruns input'') (\<lambda>_.
        rbind (require (unat header_size \<le> length data) ''container header overruns input'') (\<lambda>_.
        rbind (rmap (read_segment data) [0..<segment_count]) (\<lambda>segments.
        rbind (if table_end + kElfHeaderSize \<le> length data then self_is_elf (drop table_end data)
               else Inr False) (\<lambda>has_elf.
        rbind (require has_elf ''container has no readable ELF header'') (\<lambda>_.
        rbind (self_read_u16 data (table_end + 0x38)) (\<lambda>program_count.
        let elf_headers_size = kElfHeaderSize + unat program_count * kElfProgramHeaderSize
        in rbind (require (table_end + elf_headers_size \<le> length data)
                    ''container ELF header table overruns input'') (\<lambda>_.
           rbind (subspan data table_end elf_headers_size) (\<lambda>elf_headers.
           let extended_at = self_align_up (table_end + elf_headers_size) 0x10;
               img = \<lparr>im_program_type = program_type, im_header_size = header_size,
                 im_metadata_size = metadata_size, im_file_size = file_size,
                 im_segments = segments, im_elf_headers = elf_headers,
                 im_has_extended_info = False, im_authority = 0, im_extended_program_type = 0,
                 im_app_version = 0, im_firmware_version = 0, im_digest = replicate 32 0\<rparr>
           in if extended_at + kExtendedInfoSize \<le> unat header_size \<and>
                 extended_at + kExtendedInfoSize \<le> length data
              then read_extended_info data extended_at img
              else Inr img)))))))))))))))"

text \<open>\<open>extract\<close>: the size of the rebuilt module, one stored segment, the version records.\<close>

definition grow_output :: "bytes \<Rightarrow> nat \<Rightarrow> nat \<Rightarrow> nat res" where
  "grow_output headers i output_size =
     (let at = kElfHeaderSize + i * kElfProgramHeaderSize
      in rbind (self_read_u64 headers (at + 0x08)) (\<lambda>offset.
         rbind (self_read_u64 headers (at + 0x20)) (\<lambda>sz.
         rbind (require (unat sz \<le> 2 ^ 64 - 1 - unat offset)
                  ''ELF program header is too large for this host'') (\<lambda>_.
         Inr (max output_size (unat offset + unat sz))))))"

definition restore_segment ::
    "zlib \<Rightarrow> bytes \<Rightarrow> bytes \<Rightarrow> nat \<Rightarrow> self_segment \<Rightarrow> bytes \<Rightarrow> bytes res" where
  "restore_segment zlib data headers program_count segment output =
     (if \<not> self_blocked segment then Inr output
      else rbind (require (\<not> self_encrypted segment)
                    ''encrypted retail segment cannot be extracted without its key'') (\<lambda>_.
      if program_count \<le> self_id segment then Inr output
      else let header = kElfHeaderSize + self_id segment * kElfProgramHeaderSize
      in rbind (self_read_u64 headers (header + 0x08)) (\<lambda>output_offset.
         rbind (self_read_u64 headers (header + 0x20)) (\<lambda>output_length.
         rbind (require (range_ok (unat (seg_file_offset segment)) (unat (seg_file_size segment))
                  (length data)) ''container segment overruns input'') (\<lambda>_.
         rbind (subspan data (unat (seg_file_offset segment)) (unat (seg_file_size segment))) (\<lambda>stored.
         rbind (if self_compressed segment
                then self_inflate_segment zlib stored (unat output_length) else Inr stored) (\<lambda>payload.
         let copy_size = min (length payload) (unat output_length)
         in rbind (require (range_ok (unat output_offset) copy_size (length output))
                     ''container segment is outside reconstructed ELF'') (\<lambda>_.
            copy_bytes output (unat output_offset) (take copy_size payload)))))))))"

definition segments_tail :: "bytes \<Rightarrow> self_segment list \<Rightarrow> nat" where
  "segments_tail data segments =
     fold (\<lambda>s tail. if range_ok (unat (seg_file_offset s)) (unat (seg_file_size s)) (length data)
                    then max tail (unat (seg_file_offset s) + unat (seg_file_size s)) else tail)
       segments 0"

definition restore_version :: "bytes \<Rightarrow> self_segment list \<Rightarrow> file_region \<Rightarrow> bytes \<Rightarrow> bytes res" where
  "restore_version data segments version output =
     (if reg_size version = 0 then Inr output
      else let tail = segments_tail data segments
      in if range_ok tail (reg_size version) (length data) \<and>
            range_ok (reg_offset version) (reg_size version) (length output)
         then rbind (subspan data tail (reg_size version)) (\<lambda>records.
              copy_bytes output (reg_offset version) records)
         else Inr output)"

definition self_extract :: "zlib \<Rightarrow> bytes \<Rightarrow> bytes res" where
  "self_extract zlib data =
     rbind (self_parse data) (\<lambda>img.
     let headers = im_elf_headers img
     in rbind (self_read_u16 headers 0x38) (\<lambda>count.
        let program_count = unat count;
            program_table_end = kElfHeaderSize + program_count * kElfProgramHeaderSize
        in rbind (require (program_table_end \<le> length headers)
                    ''stored ELF program-header table is incomplete'') (\<lambda>_.
           rbind (rfold (grow_output headers) [0..<program_count] (length headers)) (\<lambda>output_size.
           rbind (rfold (restore_segment zlib data headers program_count) (im_segments img)
                    (replicate output_size 0)) (\<lambda>output.
           rbind (self_find_version_records headers program_count (length output)) (\<lambda>version.
           rbind (restore_version data (im_segments img) version output) (\<lambda>output.
           rbind (subspan headers 0 program_table_end) (\<lambda>first.
           copy_bytes output 0 first))))))))"

section \<open>Writing a container\<close>

definition self_write_segment ::
    "bytes \<Rightarrow> nat \<Rightarrow> u64 \<Rightarrow> u64 \<Rightarrow> u64 \<Rightarrow> u64 \<Rightarrow> bytes res" where
  "self_write_segment output at flags offset file_size memory_size =
     rbind (self_write_u64 output at flags) (\<lambda>output.
     rbind (self_write_u64 output (at + 0x08) offset) (\<lambda>output.
     rbind (self_write_u64 output (at + 0x10) file_size) (\<lambda>output.
     self_write_u64 output (at + 0x18) memory_size)))"

record selected_segment =
  sel_header_index :: nat
  sel_file_offset :: nat
  sel_file_size :: nat

definition select_segment ::
    "bytes \<Rightarrow> nat \<Rightarrow> bool \<Rightarrow> nat \<Rightarrow> selected_segment list \<Rightarrow> selected_segment list res" where
  "select_segment elf header_offset include_proc_param i selected =
     (let at = header_offset + i * kElfProgramHeaderSize
      in rbind (self_read_u32 elf at) (\<lambda>type.
         rbind (self_read_u32 elf (at + 4)) (\<lambda>flags.
         rbind (self_read_u64 elf (at + 0x08)) (\<lambda>offset.
         rbind (self_read_u64 elf (at + 0x20)) (\<lambda>sz.
         if sz = 0 then
           rbind (require (type \<noteq> kPtLoad \<or> flags = 0) ''a mapped program header stores no bytes'')
             (\<lambda>_. Inr selected)
         else if type \<noteq> kPtLoad \<and> type \<noteq> kPtDynlibData \<and> type \<noteq> kPtRelro \<and> type \<noteq> kPtComment \<and>
                 (type \<noteq> kPtProcParam \<or> \<not> include_proc_param) then Inr selected
         else rbind (require (range_ok (unat offset) (unat sz) (length elf))
                       ''a container segment reaches past the input ELF'')
                (\<lambda>_. Inr (selected @ [\<lparr>sel_header_index = i, sel_file_offset = unat offset,
                           sel_file_size = unat sz\<rparr>])))))))"

definition self_select_segments ::
    "bytes \<Rightarrow> nat \<Rightarrow> nat \<Rightarrow> bool \<Rightarrow> selected_segment list res" where
  "self_select_segments elf header_offset header_count include_proc_param =
     rfold (select_segment elf header_offset include_proc_param) [0..<header_count] []"

definition self_normalize_header :: "bytes \<Rightarrow> bytes res" where
  "self_normalize_header elf =
     rbind (self_write_u16 elf 0x12 0x3e) (\<lambda>elf.
     rbind (elem_at elf 0x07) (\<lambda>os_abi.
     rbind (if os_abi = 0 \<or> os_abi = 3 then set_byte elf 0x07 9 else Inr elf) (\<lambda>elf.
     rbind (self_read_u16 elf 0x10) (\<lambda>type.
     if type = 0 then self_write_u16 elf 0x10 2 else Inr elf))))"

text \<open>Where \<open>sign\<close> puts the digests and the bytes of each selected segment.\<close>

record placement =
  pl_digest_offset :: nat
  pl_digest_size :: nat
  pl_data_offset :: nat

fun place_segments :: "nat \<Rightarrow> selected_segment list \<Rightarrow> placement list \<times> nat" where
  "place_segments cursor [] = ([], cursor)"
| "place_segments cursor (s # ss) =
     (let digest = self_digest_size (sel_file_size s);
          data_at = sz_add cursor digest;
          (rest, end_at) = place_segments (self_align_up (sz_add data_at (sel_file_size s)) 0x10) ss
      in (\<lparr>pl_digest_offset = cursor, pl_digest_size = digest, pl_data_offset = data_at\<rparr> # rest,
          end_at))"

record self_layout =
  lay_segment_count :: nat
  lay_after_segments :: nat
  lay_elf_headers_size :: nat
  lay_extended_at :: nat
  lay_header_size :: nat
  lay_meta_size :: nat
  lay_placements :: "placement list"
  lay_declared_file_size :: nat
  lay_version_start :: nat

definition sign_layout :: "u32 \<Rightarrow> nat \<Rightarrow> selected_segment list \<Rightarrow> self_layout" where
  "sign_layout magic program_count selected =
     (let segment_count = length selected * 2;
          after_segments = kContainerHeaderSize + segment_count * kSegmentEntrySize;
          elf_headers_size = kElfHeaderSize + program_count * kElfProgramHeaderSize;
          extended_at = self_align_up (after_segments + elf_headers_size) 0x10;
          header_size = extended_at + kExtendedInfoSize + kControlRegionSize;
          meta_size = self_metadata_size segment_count magic;
          (placements, cursor) = place_segments (header_size + meta_size) selected
      in \<lparr>lay_segment_count = segment_count, lay_after_segments = after_segments,
          lay_elf_headers_size = elf_headers_size, lay_extended_at = extended_at,
          lay_header_size = header_size, lay_meta_size = meta_size,
          lay_placements = placements, lay_declared_file_size = cursor,
          lay_version_start =
            sz_add (pl_data_offset (last placements)) (sel_file_size (last selected))\<rparr>)"

definition write_container_header :: "u32 \<Rightarrow> self_layout \<Rightarrow> bytes \<Rightarrow> bytes res" where
  "write_container_header magic lay output =
     rbind (self_write_u32 output 0 magic) (\<lambda>output.
     rbind (set_byte output 0x04 0) (\<lambda>output.
     rbind (set_byte output 0x05 1) (\<lambda>output.
     rbind (set_byte output 0x06 1) (\<lambda>output.
     rbind (set_byte output 0x07 0x12) (\<lambda>output.
     rbind (self_write_u32 output 0x08 0x101) (\<lambda>output.
     rbind (self_write_u16 output 0x0c (of_nat (lay_header_size lay))) (\<lambda>output.
     rbind (self_write_u16 output 0x0e (of_nat (lay_meta_size lay))) (\<lambda>output.
     rbind (self_write_u64 output 0x10 (of_nat (lay_declared_file_size lay))) (\<lambda>output.
     rbind (self_write_u16 output 0x18 (of_nat (lay_segment_count lay))) (\<lambda>output.
     self_write_u16 output 0x1a 0x22))))))))))"

definition write_segment_pair ::
    "nat \<times> selected_segment \<times> placement \<Rightarrow> bytes \<Rightarrow> bytes res" where
  "write_segment_pair row output =
     (case row of (i, s, p) \<Rightarrow>
        let digest_entry = kContainerHeaderSize + (i * 2) * kSegmentEntrySize;
            data_entry = digest_entry + kSegmentEntrySize;
            digest_flags = push_bit 20 (of_nat (i * 2 + 1)) OR 0x10004;
            data_flags = push_bit 20 (of_nat (sel_header_index s)) OR 0x2804
        in rbind (self_write_segment output digest_entry digest_flags
                    (of_nat (pl_digest_offset p)) (of_nat (pl_digest_size p))
                    (of_nat (pl_digest_size p))) (\<lambda>output.
           self_write_segment output data_entry data_flags
             (of_nat (pl_data_offset p)) (of_nat (sel_file_size s)) (of_nat (sel_file_size s))))"

definition write_extended :: "sign_options \<Rightarrow> self_layout \<Rightarrow> bytes \<Rightarrow> bytes res" where
  "write_extended options lay output =
     (let extended_at = lay_extended_at lay;
          footer = lay_header_size lay + lay_segment_count lay * kMetadataBlockSize
      in rbind (self_write_u64 output extended_at (opt_authority options)) (\<lambda>output.
         rbind (self_write_u64 output (extended_at + 0x08) 1) (\<lambda>output.
         rbind (self_write_u64 output (extended_at + 0x10) (opt_app_version options)) (\<lambda>output.
         rbind (self_write_u64 output (extended_at + 0x18) (opt_firmware_version options)) (\<lambda>output.
         rbind (self_write_u64 output (extended_at + kExtendedInfoSize) 3) (\<lambda>output.
         rbind (self_write_u32 output (footer + kFooterMarkerOffset) 0x10000) (\<lambda>output.
         if opt_auth_info options = [] then Inr output
         else let signature = footer + kMetadataFooterSize
              in rbind (self_write_u64 output signature 0x88) (\<lambda>output.
                 rbind (self_write_u64 output (signature + 0x08) (opt_authority options)) (\<lambda>output.
                 copy_bytes output (signature + 0x10) (drop 0x08 (opt_auth_info options)))))))))))"

definition write_payload ::
    "bytes \<Rightarrow> selected_segment \<times> placement \<Rightarrow> bytes \<Rightarrow> bytes res" where
  "write_payload elf row output =
     (case row of (s, p) \<Rightarrow>
        rbind (subspan elf (sel_file_offset s) (sel_file_size s)) (\<lambda>source.
        copy_bytes output (pl_data_offset p) source))"

definition sign_emit ::
    "sign_options \<Rightarrow> bytes \<Rightarrow> selected_segment list \<Rightarrow> self_layout \<Rightarrow> file_region \<Rightarrow> bytes res" where
  "sign_emit options elf selected lay version =
     (let output = replicate (max (lay_declared_file_size lay)
                      (sz_add (lay_version_start lay) (reg_size version))) 0;
          placements = lay_placements lay
      in rbind (write_container_header (opt_magic options) lay output) (\<lambda>output.
         rbind (rfold write_segment_pair (zip [0..<length selected] (zip selected placements)) output)
           (\<lambda>output.
         rbind (subspan elf 0 (lay_elf_headers_size lay)) (\<lambda>headers.
         rbind (copy_bytes output (lay_after_segments lay) headers) (\<lambda>output.
         rbind (write_extended options lay output) (\<lambda>output.
         rbind (rfold (write_payload elf) (zip selected placements) output) (\<lambda>output.
         if reg_size version = 0 then Inr output
         else rbind (subspan elf (reg_offset version) (reg_size version)) (\<lambda>records.
              copy_bytes output (lay_version_start lay) records))))))))"

definition sign_program_count :: "bytes \<Rightarrow> nat res" where
  "sign_program_count elf =
     rbind (self_read_u64 elf 0x20) (\<lambda>program_offset.
     rbind (self_read_u16 elf 0x36) (\<lambda>program_entry_size.
     rbind (self_read_u16 elf 0x38) (\<lambda>program_count.
     rbind (require (unat program_entry_size = kElfProgramHeaderSize)
              ''unexpected ELF program-header entry size'') (\<lambda>_.
     rbind (require (unat program_offset = kElfHeaderSize)
              ''ELF program-header table must immediately follow the ELF header'') (\<lambda>_.
     rbind (require (unat program_count \<le> (length elf - unat program_offset) div kElfProgramHeaderSize)
              ''ELF program-header table overruns input'') (\<lambda>_.
     Inr (unat program_count)))))))"

definition sign_check_input :: "sign_options \<Rightarrow> bytes \<Rightarrow> unit res" where
  "sign_check_input options input =
     rbind (self_is_elf input) (\<lambda>is_elf.
     rbind (require is_elf ''input is not an ELF file'') (\<lambda>_.
     rbind (elem_at input 4) (\<lambda>cls.
     rbind (require (cls = 2) ''only 64-bit ELF modules are supported'') (\<lambda>_.
     rbind (require (opt_magic options = kMagic \<or> opt_magic options = kAlternateMagic)
              ''unsupported signed-container magic'') (\<lambda>_.
     require (opt_auth_info options = [] \<or> length (opt_auth_info options) = 0x88)
       ''authentication info must be exactly 0x88 bytes'')))))"

definition self_sign :: "zlib \<Rightarrow> sign_options \<Rightarrow> bytes \<Rightarrow> bytes res" where
  "self_sign zlib options input =
     rbind (sign_check_input options input) (\<lambda>_.
     rbind (if opt_normalize_header options then self_normalize_header input else Inr input) (\<lambda>elf.
     rbind (sign_program_count elf) (\<lambda>program_count.
     rbind (self_select_segments elf kElfHeaderSize program_count (opt_include_proc_param options))
       (\<lambda>selected.
     rbind (require (selected \<noteq> []) ''ELF has no loadable segment content'') (\<lambda>_.
     let lay = sign_layout (opt_magic options) program_count selected
     in rbind (require (lay_header_size lay \<le> 65535 \<and> lay_meta_size lay \<le> 65535)
                 ''container header or metadata exceeds its 16-bit field'') (\<lambda>_.
        rbind (self_find_version_records elf program_count (length elf)) (\<lambda>version.
        rbind (sign_emit options elf selected lay version) (\<lambda>output.
        rbind (self_extract zlib output) (\<lambda>reconstructed.
        copy_bytes output (lay_extended_at lay + 0x20) (sha256 reconstructed))))))))))"

section \<open>Dropping the section table\<close>

fun strip_extent ::
    "bytes \<Rightarrow> u64 \<Rightarrow> nat \<Rightarrow> nat list \<Rightarrow> nat \<times> bool \<Rightarrow> (nat \<times> bool) res" where
  "strip_extent elf program_offset entry_size [] acc = Inr acc"
| "strip_extent elf program_offset entry_size (i # is) acc =
     (let at = unat (program_offset + of_nat (i * entry_size))
      in if \<not> range_ok at kElfProgramHeaderSize (length elf) then Inr acc
         else rbind (self_read_u32 elf at) (\<lambda>type.
              rbind (self_read_u64 elf (at + 0x08)) (\<lambda>offset.
              rbind (self_read_u64 elf (at + 0x20)) (\<lambda>sz.
              strip_extent elf program_offset entry_size is
                (if unat offset \<le> 2 ^ 64 - 1 - unat sz then max (fst acc) (unat offset + unat sz)
                 else fst acc, snd acc \<or> type = kPtDynamic)))))"

definition self_strip_sections :: "bytes \<Rightarrow> bytes res" where
  "self_strip_sections elf =
     rbind (self_is_elf elf) (\<lambda>is_elf.
     rbind (require is_elf ''input is not an ELF file'') (\<lambda>_.
     rbind (self_read_u64 elf 0x20) (\<lambda>program_offset.
     rbind (self_read_u16 elf 0x36) (\<lambda>entry_size.
     rbind (self_read_u16 elf 0x38) (\<lambda>count.
     rbind (require (kElfProgramHeaderSize \<le> unat entry_size)
              ''ELF program-header entry is too small'') (\<lambda>_.
     let start = max kElfHeaderSize (unat (program_offset + of_nat (unat count * unat entry_size)))
     in rbind (strip_extent elf program_offset (unat entry_size) [0..<unat count] (start, False)) (\<lambda>acc.
        rbind (require (snd acc) ''only an ELF with a dynamic segment can be stripped'') (\<lambda>_.
        let output = take (min (fst acc) (length elf)) elf
        in rbind (self_write_u64 output 0x28 0) (\<lambda>output.
           rbind (self_write_u16 output 0x3a 0) (\<lambda>output.
           rbind (self_write_u16 output 0x3c 0) (\<lambda>output.
           self_write_u16 output 0x3e 0)))))))))))"

end
