(* ===== verification/Self_Layout.thy ===== *)
theory Self_Layout
  imports Self_Container
begin

text \<open>
  Where \<open>sign\<close> puts things. The theory computes the container's layout in closed form, shows
  that \<open>sign_emit\<close> is a sequence of ascending writes into a zeroed buffer (so every field it
  writes can be read back), and derives memory safety of the whole writer.
\<close>

section \<open>Alignment and placement\<close>

lemma unat_and_not_15: "unat (w AND NOT 15 :: u64) = unat w div 16 * 16"
  using unat_and_not_mask [of w 4] by (simp add: mask_eq_exp_minus_1)

lemma self_align_up_16:
  assumes "value + 15 < 2 ^ 64"
  shows "self_align_up value 16 = (value + 15) div 16 * 16"
proof -
  have "(of_nat value + of_nat 16 - 1 :: u64) = of_nat (value + 15)" by simp
  moreover have "unat (of_nat (value + 15) :: u64) = value + 15"
    using assms by (rule unat_u64_small)
  moreover have "(of_nat 16 - 1 :: u64) = 15" by simp
  ultimately show ?thesis unfolding self_align_up_def by (simp only: unat_and_not_15)
qed

lemma self_align_up_bounds:
  assumes "value + 15 < 2 ^ 64"
  shows "value \<le> self_align_up value 16" and "self_align_up value 16 \<le> value + 15"
    and "self_align_up value 16 mod 16 = 0"
  using assms by (simp_all add: self_align_up_16)

lemma self_digest_size_bound:
  assumes "n < 2 ^ 47"
  shows "self_digest_size n \<le> n + 0x20"
proof -
  let ?q = "(n + 16383) div 16384"
  have "?q * 16384 \<le> n + 16383" by simp
  then have "?q * 32 \<le> n + 32" by (cases "?q") auto
  with assms show ?thesis by (simp add: self_digest_size_def)
qed

text \<open>The bytes of the selected segments, at their places in the container.\<close>

definition payload_ops :: "bytes \<Rightarrow> selected_segment list \<Rightarrow> placement list \<Rightarrow> (nat \<times> bytes) list" where
  "payload_ops elf selected placements =
     map (\<lambda>(s, p). (pl_data_offset p, chunk elf (sel_file_offset s) (sel_file_size s)))
       (zip selected placements)"

definition selection_ok :: "bytes \<Rightarrow> selected_segment \<Rightarrow> bool" where
  "selection_ok elf s \<longleftrightarrow> sel_file_offset s + sel_file_size s \<le> length elf"

definition step_room :: nat where "step_room = 2 ^ 49"

lemma place_step:
  assumes "sel_file_size s < 2 ^ 47" and "c + step_room < 2 ^ 63"
  shows "sz_add c (self_digest_size (sel_file_size s)) = c + self_digest_size (sel_file_size s)"
    and "sz_add (c + self_digest_size (sel_file_size s)) (sel_file_size s) =
         c + self_digest_size (sel_file_size s) + sel_file_size s"
    and "c + self_digest_size (sel_file_size s) + sel_file_size s \<le>
         self_align_up (c + self_digest_size (sel_file_size s) + sel_file_size s) 16"
    and "self_align_up (c + self_digest_size (sel_file_size s) + sel_file_size s) 16 \<le> c + step_room"
proof -
  let ?d = "self_digest_size (sel_file_size s)"
  have d: "?d \<le> sel_file_size s + 0x20" using assms(1) by (rule self_digest_size_bound)
  have room: "c + ?d + sel_file_size s + 15 < c + step_room"
    using d assms(1) by (simp add: step_room_def)
  show "sz_add c ?d = c + ?d" "sz_add (c + ?d) (sel_file_size s) = c + ?d + sel_file_size s"
    using room assms(2) by simp_all
  show "c + ?d + sel_file_size s \<le> self_align_up (c + ?d + sel_file_size s) 16"
    "self_align_up (c + ?d + sel_file_size s) 16 \<le> c + step_room"
    using room assms(2) self_align_up_bounds [of "c + ?d + sel_file_size s"] by simp_all
qed

lemma place_segments_ok:
  assumes "\<And>s. s \<in> set ss \<Longrightarrow> sel_file_size s < 2 ^ 47"
    and "c + length ss * step_room < 2 ^ 63"
    and "place_segments c ss = (ps, e)"
  shows "length ps = length ss \<and> c \<le> e \<and> e \<le> c + length ss * step_room \<and>
    (\<forall>(s, p) \<in> set (zip ss ps). c \<le> pl_digest_offset p \<and>
       pl_digest_offset p + pl_digest_size p = pl_data_offset p \<and>
       pl_data_offset p + sel_file_size s \<le> e)"
  using assms
proof (induction ss arbitrary: c ps e)
  case Nil
  then show ?case by simp
next
  case (Cons s ss)
  let ?d = "self_digest_size (sel_file_size s)"
  let ?c = "self_align_up (c + ?d + sel_file_size s) 16"
  have size: "sel_file_size s < 2 ^ 47" using Cons.prems(1) by simp
  have room: "c + step_room < 2 ^ 63" using Cons.prems(2) by simp
  note step = place_step [OF size room]
  obtain ps' where tail: "place_segments ?c ss = (ps', e)"
    and ps: "ps = \<lparr>pl_digest_offset = c, pl_digest_size = ?d, pl_data_offset = c + ?d\<rparr> # ps'"
    using Cons.prems(3) step by (auto simp: Let_def split: prod.splits)
  have "?c + length ss * step_room < 2 ^ 63" using step(4) Cons.prems(2) by simp
  then have IH: "length ps' = length ss \<and> ?c \<le> e \<and> e \<le> ?c + length ss * step_room \<and>
      (\<forall>(s, p) \<in> set (zip ss ps'). ?c \<le> pl_digest_offset p \<and>
         pl_digest_offset p + pl_digest_size p = pl_data_offset p \<and>
         pl_data_offset p + sel_file_size s \<le> e)"
    using Cons.prems(1) tail by (intro Cons.IH) auto
  then show ?case using step(3,4) ps by fastforce
qed

lemma place_segments_ascending:
  assumes "\<And>s. s \<in> set ss \<Longrightarrow> sel_file_size s < 2 ^ 47 \<and> selection_ok elf s"
    and "c + length ss * step_room < 2 ^ 63"
    and "place_segments c ss = (ps, e)"
  shows "ascending c (payload_ops elf ss ps) e"
  using assms
proof (induction ss arbitrary: c ps e)
  case Nil
  then show ?case by (simp add: payload_ops_def)
next
  case (Cons s ss)
  let ?d = "self_digest_size (sel_file_size s)"
  let ?c = "self_align_up (c + ?d + sel_file_size s) 16"
  have size: "sel_file_size s < 2 ^ 47" using Cons.prems(1) by simp
  have room: "c + step_room < 2 ^ 63" using Cons.prems(2) by simp
  note step = place_step [OF size room]
  obtain ps' where tail: "place_segments ?c ss = (ps', e)"
    and ps: "ps = \<lparr>pl_digest_offset = c, pl_digest_size = ?d, pl_data_offset = c + ?d\<rparr> # ps'"
    using Cons.prems(3) step by (auto simp: Let_def split: prod.splits)
  have "?c + length ss * step_room < 2 ^ 63" using step(4) Cons.prems(2) by simp
  then have "ascending ?c (payload_ops elf ss ps') e"
    using Cons.prems(1) tail by (intro Cons.IH) auto
  moreover have "selection_ok elf s" using Cons.prems(1) by simp
  then have "length (chunk elf (sel_file_offset s) (sel_file_size s)) = sel_file_size s"
    by (simp add: selection_ok_def)
  ultimately show ?case
    using step(3) ps by (simp add: payload_ops_def ascending_weaken)
qed

text \<open>The end of the last segment's bytes: where the version records go, and the largest
  end of any region of the table.\<close>

lemma place_segments_last:
  assumes "\<And>s. s \<in> set ss \<Longrightarrow> sel_file_size s < 2 ^ 47"
    and "c + length ss * step_room < 2 ^ 63"
    and "place_segments c ss = (ps, e)" and "ss \<noteq> []"
  shows "c \<le> pl_data_offset (last ps) + sel_file_size (last ss) \<and>
    pl_data_offset (last ps) + sel_file_size (last ss) \<le> e \<and>
    (\<forall>(s, p) \<in> set (zip ss ps). pl_data_offset p + sel_file_size s \<le>
       pl_data_offset (last ps) + sel_file_size (last ss))"
  using assms
proof (induction ss arbitrary: c ps e)
  case Nil
  then show ?case by simp
next
  case (Cons s ss)
  let ?d = "self_digest_size (sel_file_size s)"
  let ?c = "self_align_up (c + ?d + sel_file_size s) 16"
  have size: "sel_file_size s < 2 ^ 47" using Cons.prems(1) by simp
  have room: "c + step_room < 2 ^ 63" using Cons.prems(2) by simp
  note step = place_step [OF size room]
  obtain ps' where tail: "place_segments ?c ss = (ps', e)"
    and ps: "ps = \<lparr>pl_digest_offset = c, pl_digest_size = ?d, pl_data_offset = c + ?d\<rparr> # ps'"
    using Cons.prems(3) step by (auto simp: Let_def split: prod.splits)
  have next_room: "?c + length ss * step_room < 2 ^ 63" using step(4) Cons.prems(2) by simp
  show ?case
  proof (cases "ss = []")
    case True
    with ps tail step(3) show ?thesis by auto
  next
    case False
    with next_room tail Cons.prems(1)
    have "?c \<le> pl_data_offset (last ps') + sel_file_size (last ss) \<and>
        pl_data_offset (last ps') + sel_file_size (last ss) \<le> e \<and>
        (\<forall>(s, p) \<in> set (zip ss ps'). pl_data_offset p + sel_file_size s \<le>
           pl_data_offset (last ps') + sel_file_size (last ss))"
      by (intro Cons.IH) auto
    moreover have "ps' \<noteq> []"
      using place_segments_ok [OF _ next_room tail] Cons.prems(1) False by auto
    ultimately show ?thesis using step(3) ps False by auto
  qed
qed

section \<open>The writes of \<open>sign\<close>\<close>

definition header_ops :: "u32 \<Rightarrow> self_layout \<Rightarrow> (nat \<times> bytes) list" where
  "header_ops magic lay =
     [(0, le_encode 4 magic), (0x04, [0]), (0x05, [1]), (0x06, [1]), (0x07, [0x12]),
      (0x08, le_encode 4 (0x101 :: u32)),
      (0x0c, le_encode 2 (of_nat (lay_header_size lay) :: u16)),
      (0x0e, le_encode 2 (of_nat (lay_meta_size lay) :: u16)),
      (0x10, le_encode 8 (of_nat (lay_declared_file_size lay) :: u64)),
      (0x18, le_encode 2 (of_nat (lay_segment_count lay) :: u16)),
      (0x1a, le_encode 2 (0x22 :: u16))]"

definition entry_ops :: "nat \<Rightarrow> self_segment \<Rightarrow> (nat \<times> bytes) list" where
  "entry_ops at g =
     [(at, le_encode 8 (seg_flags g)), (at + 0x08, le_encode 8 (seg_file_offset g)),
      (at + 0x10, le_encode 8 (seg_file_size g)), (at + 0x18, le_encode 8 (seg_memory_size g))]"

definition digest_entry :: "nat \<Rightarrow> placement \<Rightarrow> self_segment" where
  "digest_entry i p = \<lparr>seg_flags = push_bit 20 (of_nat (i * 2 + 1)) OR 0x10004,
     seg_file_offset = of_nat (pl_digest_offset p), seg_file_size = of_nat (pl_digest_size p),
     seg_memory_size = of_nat (pl_digest_size p)\<rparr>"

definition data_entry :: "selected_segment \<Rightarrow> placement \<Rightarrow> self_segment" where
  "data_entry s p = \<lparr>seg_flags = push_bit 20 (of_nat (sel_header_index s)) OR 0x2804,
     seg_file_offset = of_nat (pl_data_offset p), seg_file_size = of_nat (sel_file_size s),
     seg_memory_size = of_nat (sel_file_size s)\<rparr>"

definition pair_ops :: "nat \<times> selected_segment \<times> placement \<Rightarrow> (nat \<times> bytes) list" where
  "pair_ops row = (case row of (i, s, p) \<Rightarrow>
     entry_ops (0x20 + i * 2 * 0x20) (digest_entry i p) @
     entry_ops (0x20 + i * 2 * 0x20 + 0x20) (data_entry s p))"

definition table_ops :: "selected_segment list \<Rightarrow> placement list \<Rightarrow> (nat \<times> bytes) list" where
  "table_ops selected placements =
     concat (map pair_ops (zip [0..<length selected] (zip selected placements)))"

definition identity_ops :: "sign_options \<Rightarrow> self_layout \<Rightarrow> (nat \<times> bytes) list" where
  "identity_ops options lay =
     [(lay_extended_at lay, le_encode 8 (opt_authority options)),
      (lay_extended_at lay + 0x08, le_encode 8 (1 :: u64)),
      (lay_extended_at lay + 0x10, le_encode 8 (opt_app_version options)),
      (lay_extended_at lay + 0x18, le_encode 8 (opt_firmware_version options))]"

definition footer_ops :: "sign_options \<Rightarrow> self_layout \<Rightarrow> (nat \<times> bytes) list" where
  "footer_ops options lay =
     (let footer = lay_header_size lay + lay_segment_count lay * kMetadataBlockSize;
          signature = footer + kMetadataFooterSize
      in [(lay_extended_at lay + kExtendedInfoSize, le_encode 8 (3 :: u64)),
          (footer + kFooterMarkerOffset, le_encode 4 (0x10000 :: u32))] @
         (if opt_auth_info options = [] then []
          else [(signature, le_encode 8 (0x88 :: u64)),
                (signature + 0x08, le_encode 8 (opt_authority options)),
                (signature + 0x10, drop 0x08 (opt_auth_info options))]))"

definition version_ops :: "bytes \<Rightarrow> self_layout \<Rightarrow> file_region \<Rightarrow> (nat \<times> bytes) list" where
  "version_ops elf lay version =
     (if reg_size version = 0 then []
      else [(lay_version_start lay, chunk elf (reg_offset version) (reg_size version))])"

definition front_ops ::
    "sign_options \<Rightarrow> bytes \<Rightarrow> selected_segment list \<Rightarrow> self_layout \<Rightarrow> (nat \<times> bytes) list" where
  "front_ops options elf selected lay =
     header_ops (opt_magic options) lay @ table_ops selected (lay_placements lay) @
     [(lay_after_segments lay, chunk elf 0 (lay_elf_headers_size lay))] @ identity_ops options lay"

definition back_ops ::
    "sign_options \<Rightarrow> bytes \<Rightarrow> selected_segment list \<Rightarrow> self_layout \<Rightarrow> file_region \<Rightarrow>
     (nat \<times> bytes) list" where
  "back_ops options elf selected lay version =
     footer_ops options lay @ payload_ops elf selected (lay_placements lay) @
     version_ops elf lay version"

definition sign_total :: "self_layout \<Rightarrow> file_region \<Rightarrow> nat" where
  "sign_total lay version =
     max (lay_declared_file_size lay) (sz_add (lay_version_start lay) (reg_size version))"

text \<open>What \<open>sign\<close> has established when it starts to write.\<close>

definition sign_state_ok ::
    "sign_options \<Rightarrow> bytes \<Rightarrow> nat \<Rightarrow> selected_segment list \<Rightarrow> file_region \<Rightarrow> bool" where
  "sign_state_ok options elf program_count selected version \<longleftrightarrow>
     length elf < 2 ^ 47 \<and> 0x40 + program_count * 0x38 \<le> length elf \<and> program_count < 2 ^ 16 \<and>
     selected \<noteq> [] \<and>
     (\<forall>s \<in> set selected. selection_ok elf s \<and> sel_header_index s < program_count) \<and>
     lay_header_size (sign_layout (opt_magic options) program_count selected) \<le> 65535 \<and>
     lay_meta_size (sign_layout (opt_magic options) program_count selected) \<le> 65535 \<and>
     reg_offset version + reg_size version \<le> length elf \<and>
     (opt_auth_info options = [] \<or> length (opt_auth_info options) = 0x88)"

lemma header_ops_ascending: "ascending 0 (header_ops magic lay) 0x20"
  by (simp add: header_ops_def)

lemma entry_ops_ascending: "ascending at (entry_ops at g) (at + 0x20)"
  by (simp add: entry_ops_def)

lemma pair_ops_ascending: "ascending (0x20 + i * 0x40) (pair_ops (i, s, p)) (0x20 + Suc i * 0x40)"
  unfolding pair_ops_def prod.case
  by (rule ascending_append [where mid = "0x20 + i * 2 * 0x20 + 0x20"])
    (auto intro!: ascending_weaken [OF entry_ops_ascending])

lemma pair_rows_ascending:
  "ascending (0x20 + k * 0x40) (concat (map pair_ops (zip [k..<k + length rows] rows)))
     (0x20 + (k + length rows) * 0x40)"
proof (induction rows arbitrary: k)
  case (Cons row rows)
  obtain s p where row: "row = (s, p)" by (cases row)
  have "[k..<k + length (row # rows)] = k # [Suc k..<Suc k + length rows]"
    by (subst upt_conv_Cons) simp_all
  then show ?case using ascending_append [OF pair_ops_ascending [of k s p] Cons.IH [of "Suc k"]] row
    by simp
qed simp

lemma table_ops_ascending:
  assumes "length placements = length selected"
  shows "ascending 0x20 (table_ops selected placements) (0x20 + length selected * 0x40)"
  using pair_rows_ascending [of 0 "zip selected placements"] assms by (simp add: table_ops_def)

text \<open>The layout in closed form.\<close>

lemma sign_layout_facts:
  assumes ok: "sign_state_ok options elf program_count selected version"
    and lay: "lay = sign_layout (opt_magic options) program_count selected"
  shows "lay_segment_count lay = 2 * length selected"
    and "lay_after_segments lay = 0x20 + length selected * 0x40"
    and "lay_elf_headers_size lay = 0x40 + program_count * 0x38"
    and "lay_after_segments lay + lay_elf_headers_size lay \<le> lay_extended_at lay"
    and "lay_extended_at lay = self_align_up (lay_after_segments lay + lay_elf_headers_size lay) 0x10"
    and "lay_header_size lay = lay_extended_at lay + 0x70"
    and "lay_header_size lay \<le> 65535" and "lay_meta_size lay \<le> 65535"
    and "lay_header_size lay + 2 * length selected * 0x50 + 0x150 \<le>
         lay_header_size lay + lay_meta_size lay"
    and "length selected < 2 ^ 10"
    and "place_segments (lay_header_size lay + lay_meta_size lay) selected =
         (lay_placements lay, lay_declared_file_size lay)"
proof -
  let ?a = "0x20 + length selected * 2 * 0x20 + (0x40 + program_count * 0x38)"
  have ext: "lay_extended_at lay = self_align_up ?a 0x10"
    and hs: "lay_header_size lay = lay_extended_at lay + 0x70"
    by (simp_all add: lay sign_layout_def Let_def split: prod.splits)
  have small: "lay_header_size lay \<le> 65535" "lay_meta_size lay \<le> 65535"
    using ok by (simp_all add: sign_state_ok_def lay)
  have meta: "lay_meta_size lay = self_metadata_size (length selected * 2) (opt_magic options)"
    by (simp add: lay sign_layout_def Let_def split: prod.splits)
  have "2 * length selected * 0x50 + 0x150 \<le> lay_meta_size lay"
    by (simp add: meta self_metadata_size_def)
  then show "lay_header_size lay + 2 * length selected * 0x50 + 0x150 \<le>
      lay_header_size lay + lay_meta_size lay"
    and n: "length selected < 2 ^ 10" using small(2) by simp_all
  have "program_count < 2 ^ 16" using ok by (simp add: sign_state_ok_def)
  then have "?a + 15 < 2 ^ 64" using n by simp
  then have "?a \<le> lay_extended_at lay" using self_align_up_bounds(1) [of ?a] ext by simp
  then show "lay_after_segments lay + lay_elf_headers_size lay \<le> lay_extended_at lay"
    by (simp add: lay sign_layout_def Let_def split: prod.splits)
  show "lay_header_size lay \<le> 65535" "lay_meta_size lay \<le> 65535" by (fact small)+
  show "lay_header_size lay = lay_extended_at lay + 0x70" by (fact hs)
  show "place_segments (lay_header_size lay + lay_meta_size lay) selected =
      (lay_placements lay, lay_declared_file_size lay)"
    by (simp add: lay sign_layout_def Let_def split: prod.splits)
qed (simp_all add: lay sign_layout_def Let_def split: prod.splits)

lemma selection_small:
  assumes "sign_state_ok options elf program_count selected version" and "s \<in> set selected"
  shows "sel_file_size s < 2 ^ 47 \<and> selection_ok elf s"
  using assms by (auto simp: sign_state_ok_def selection_ok_def)

lemma payload_room:
  assumes ok: "sign_state_ok options elf program_count selected version"
    and lay: "lay = sign_layout (opt_magic options) program_count selected"
  shows "lay_header_size lay + lay_meta_size lay + length selected * step_room < 2 ^ 62"
proof -
  note f = sign_layout_facts [OF assms]
  have "length selected * step_room \<le> 2 ^ 10 * step_room"
    using f(10) by (intro mult_le_mono1) simp
  also have "\<dots> = 2 ^ 59" by (simp add: step_room_def)
  finally show ?thesis using f(7,8) by simp
qed

lemma payload_room':
  assumes "sign_state_ok options elf program_count selected version"
    and "lay = sign_layout (opt_magic options) program_count selected"
  shows "lay_header_size lay + lay_meta_size lay + length selected * step_room < 2 ^ 63"
  using payload_room [OF assms] by simp

lemma version_start_facts:
  assumes ok: "sign_state_ok options elf program_count selected version"
    and lay: "lay = sign_layout (opt_magic options) program_count selected"
  shows "length (lay_placements lay) = length selected"
    and "lay_declared_file_size lay < 2 ^ 62"
    and "lay_header_size lay + lay_meta_size lay \<le> lay_version_start lay"
    and "lay_version_start lay \<le> lay_declared_file_size lay"
    and "\<forall>(s, p) \<in> set (zip selected (lay_placements lay)).
           lay_header_size lay + lay_meta_size lay \<le> pl_digest_offset p \<and>
           pl_digest_offset p + pl_digest_size p = pl_data_offset p \<and>
           pl_data_offset p + sel_file_size s \<le> lay_version_start lay"
    and "\<exists>(s, p) \<in> set (zip selected (lay_placements lay)).
           pl_data_offset p + sel_file_size s = lay_version_start lay"
    and "ascending (lay_header_size lay + lay_meta_size lay)
           (payload_ops elf selected (lay_placements lay)) (lay_version_start lay)"
    and "sign_total lay version = max (lay_declared_file_size lay)
           (lay_version_start lay + reg_size version)"
    and "sign_total lay version < 2 ^ 63"
proof -
  let ?c = "lay_header_size lay + lay_meta_size lay"
  note f = sign_layout_facts [OF assms] and room = payload_room' [OF assms]
  have small: "sel_file_size s < 2 ^ 47" if "s \<in> set selected" for s
    using selection_small [OF ok that] by simp
  have ne: "selected \<noteq> []" using ok by (simp add: sign_state_ok_def)
  note placed = place_segments_ok [OF small room f(11)]
  note last = place_segments_last [OF small room f(11) ne]
  show len: "length (lay_placements lay) = length selected" using placed by simp
  then have ne': "lay_placements lay \<noteq> []" using ne by auto
  show declared: "lay_declared_file_size lay < 2 ^ 62"
    using placed payload_room [OF assms] by linarith
  have vs: "lay_version_start lay = pl_data_offset (last (lay_placements lay)) + sel_file_size (last selected)"
  proof -
    have "lay_version_start lay = sz_add (pl_data_offset (last (lay_placements lay))) (sel_file_size (last selected))"
      by (simp add: lay sign_layout_def Let_def split: prod.splits)
    with last declared show ?thesis by simp
  qed
  show "?c \<le> lay_version_start lay" "lay_version_start lay \<le> lay_declared_file_size lay"
    using last vs by simp_all
  show rows: "\<forall>(s, p) \<in> set (zip selected (lay_placements lay)). ?c \<le> pl_digest_offset p \<and>
      pl_digest_offset p + pl_digest_size p = pl_data_offset p \<and>
      pl_data_offset p + sel_file_size s \<le> lay_version_start lay"
    using placed last vs by fastforce
  have "(last selected, last (lay_placements lay)) = last (zip selected (lay_placements lay))"
    using len ne ne' by (simp add: last_conv_nth)
  also have "\<dots> \<in> set (zip selected (lay_placements lay))"
    using ne ne' by (intro last_in_set) (auto simp: neq_Nil_conv)
  finally show "\<exists>(s, p) \<in> set (zip selected (lay_placements lay)).
      pl_data_offset p + sel_file_size s = lay_version_start lay"
    using vs by auto
  have "ascending ?c (payload_ops elf selected (lay_placements lay)) (lay_declared_file_size lay)"
    using selection_small [OF ok] room f(11) by (rule place_segments_ascending)
  moreover have "payload_ops elf selected (lay_placements lay) \<noteq> []"
    using ne ne' by (auto simp: payload_ops_def neq_Nil_conv)
  moreover have "at + length src \<le> lay_version_start lay"
    if "(at, src) \<in> set (payload_ops elf selected (lay_placements lay))" for at src
    using that rows by (auto simp: payload_ops_def)
  ultimately show "ascending ?c (payload_ops elf selected (lay_placements lay)) (lay_version_start lay)"
    by (rule ascending_tighten)
  have "reg_size version < 2 ^ 47" using ok by (simp add: sign_state_ok_def)
  then show "sign_total lay version = max (lay_declared_file_size lay) (lay_version_start lay + reg_size version)"
    and "sign_total lay version < 2 ^ 63"
    using declared last vs by (simp_all add: sign_total_def)
qed

lemma front_ops_ascending:
  assumes ok: "sign_state_ok options elf program_count selected version"
    and lay: "lay = sign_layout (opt_magic options) program_count selected"
  shows "ascending 0 (front_ops options elf selected lay) (lay_extended_at lay + 0x20)"
proof -
  note f = sign_layout_facts [OF assms] and v = version_start_facts [OF assms]
  have len: "length (chunk elf 0 (lay_elf_headers_size lay)) = lay_elf_headers_size lay"
    using ok f(3) by (simp add: sign_state_ok_def)
  have "ascending (lay_after_segments lay) ([(lay_after_segments lay, chunk elf 0 (lay_elf_headers_size lay))] @
      identity_ops options lay) (lay_extended_at lay + 0x20)"
    using f(4) len by (simp add: identity_ops_def)
  then show ?thesis
    unfolding front_ops_def
    using header_ops_ascending table_ops_ascending [OF v(1)] f(2) by (metis ascending_append)
qed

lemma back_ops_ascending:
  assumes ok: "sign_state_ok options elf program_count selected version"
    and lay: "lay = sign_layout (opt_magic options) program_count selected"
  shows "ascending (lay_extended_at lay + 0x40) (back_ops options elf selected lay version)
           (sign_total lay version)"
proof -
  note f = sign_layout_facts [OF assms] and v = version_start_facts [OF assms]
  have auth: "opt_auth_info options = [] \<or> length (opt_auth_info options) = 0x88"
    and region: "reg_offset version + reg_size version \<le> length elf"
    using ok by (simp_all add: sign_state_ok_def)
  have "ascending (lay_extended_at lay + 0x40) (footer_ops options lay)
      (lay_header_size lay + lay_meta_size lay)"
    using auth f(1,6,9) by (auto simp: footer_ops_def Let_def)
  moreover have "ascending (lay_version_start lay) (version_ops elf lay version) (sign_total lay version)"
    using region v(4,8) by (auto simp: version_ops_def)
  ultimately show ?thesis unfolding back_ops_def using v(7) by (metis ascending_append)
qed

lemmas emits_writes =
  s16.emits_wr s32.emits_wr s64.emits_wr emits_set_byte emits_copy emits_return

text \<open>A chain of binds, one write at a time.\<close>

lemma emits_step:
  assumes "emits hi m [op]" and "emits hi k ops"
  shows "emits hi (\<lambda>d. rbind (m d) (\<lambda>d. k d)) (op # ops)"
  using emits_bind [OF assms] by simp

lemma header_ops_emits:
  assumes "0x20 \<le> hi" and "hi < 2 ^ 64"
  shows "emits hi (write_container_header magic lay) (header_ops magic lay)"
  unfolding write_container_header_def header_ops_def
  using assms by (intro emits_step emits_writes) simp_all

lemma entry_ops_emits:
  assumes "at + 0x20 \<le> hi" and "hi < 2 ^ 64"
  shows "emits hi (\<lambda>d. self_write_segment d at (seg_flags g) (seg_file_offset g) (seg_file_size g)
           (seg_memory_size g)) (entry_ops at g)"
  unfolding self_write_segment_def entry_ops_def
  using assms by (intro emits_step emits_writes) simp_all

lemma pair_ops_emits:
  assumes "0x20 + Suc i * 0x40 \<le> hi" and "hi < 2 ^ 64"
  shows "emits hi (write_segment_pair (i, s, p)) (pair_ops (i, s, p))"
proof -
  have "emits hi (\<lambda>d. rbind
      (self_write_segment d (0x20 + i * 2 * 0x20) (seg_flags (digest_entry i p))
         (seg_file_offset (digest_entry i p)) (seg_file_size (digest_entry i p))
         (seg_memory_size (digest_entry i p)))
      (\<lambda>d. self_write_segment d (0x20 + i * 2 * 0x20 + 0x20) (seg_flags (data_entry s p))
         (seg_file_offset (data_entry s p)) (seg_file_size (data_entry s p))
         (seg_memory_size (data_entry s p)))) (pair_ops (i, s, p))"
    unfolding pair_ops_def prod.case
    using assms by (intro emits_bind entry_ops_emits) simp_all
  then show ?thesis
    unfolding write_segment_pair_def by (simp add: digest_entry_def data_entry_def Let_def)
qed

lemma table_ops_emits:
  assumes "0x20 + length selected * 0x40 \<le> hi" and "hi < 2 ^ 64"
  shows "emits hi (rfold write_segment_pair (zip [0..<length selected] (zip selected placements)))
           (table_ops selected placements)"
  unfolding table_ops_def
proof (rule emits_rfold)
  fix row assume "row \<in> set (zip [0..<length selected] (zip selected placements))"
  moreover obtain i s p where row: "row = (i, s, p)" by (metis prod.exhaust)
  ultimately have "i < length selected" by (auto dest!: set_zip_leftD)
  then have "0x20 + Suc i * 0x40 \<le> hi" using assms(1) by simp
  then show "emits hi (write_segment_pair row) (pair_ops row)"
    unfolding row by (rule pair_ops_emits) (fact assms(2))
qed

lemma extended_ops_emits:
  assumes "lay_header_size lay + lay_segment_count lay * 0x50 + 0x150 \<le> hi"
    and "lay_extended_at lay + 0x48 \<le> hi" and "hi < 2 ^ 64"
    and "opt_auth_info options = [] \<or> length (opt_auth_info options) = 0x88"
  shows "emits hi (write_extended options lay) (identity_ops options lay @ footer_ops options lay)"
proof -
  have "emits hi (\<lambda>d. if opt_auth_info options = [] then Inr d
      else let signature = lay_header_size lay + lay_segment_count lay * 0x50 + 0x50
           in rbind (self_write_u64 d signature 0x88) (\<lambda>d.
              rbind (self_write_u64 d (signature + 0x08) (opt_authority options)) (\<lambda>d.
              copy_bytes d (signature + 0x10) (drop 0x08 (opt_auth_info options)))))
     (if opt_auth_info options = [] then []
      else let signature = lay_header_size lay + lay_segment_count lay * 0x50 + 0x50
           in [(signature, le_encode 8 (0x88 :: u64)),
               (signature + 0x08, le_encode 8 (opt_authority options)),
               (signature + 0x10, drop 0x08 (opt_auth_info options))])"
    unfolding Let_def
    using assms by (auto intro!: emits_step emits_writes)
  then show ?thesis
    unfolding write_extended_def identity_ops_def footer_ops_def Let_def append.simps
    using assms(1,2,3) by (intro emits_step emits_writes) simp_all
qed

lemma payload_ops_emits:
  assumes "\<And>s. s \<in> set selected \<Longrightarrow> selection_ok elf s"
    and "ascending lo (payload_ops elf selected placements) hi"
  shows "emits hi (rfold (write_payload elf) (zip selected placements))
           (payload_ops elf selected placements)"
proof -
  define g :: "selected_segment \<times> placement \<Rightarrow> (nat \<times> bytes) list"
    where "g = (\<lambda>(s, p). [(pl_data_offset p, chunk elf (sel_file_offset s) (sel_file_size s))])"
  have "emits hi (write_payload elf row) (g row)" if "row \<in> set (zip selected placements)" for row
  proof -
    obtain s p where row: "row = (s, p)" by (cases row)
    then have "s \<in> set selected" using that by (auto dest: set_zip_leftD)
    then have sel: "selection_ok elf s" by (rule assms(1))
    have "(pl_data_offset p, chunk elf (sel_file_offset s) (sel_file_size s))
        \<in> set (payload_ops elf selected placements)"
      using that row by (force simp: payload_ops_def)
    then have "pl_data_offset p + length (chunk elf (sel_file_offset s) (sel_file_size s)) \<le> hi"
      using ascending_mem [OF assms(2)] by blast
    with sel row show ?thesis
      unfolding g_def by (auto simp: write_payload_def selection_ok_def emits_def)
  qed
  then have "emits hi (rfold (write_payload elf) (zip selected placements)) (concat (map g (zip selected placements)))"
    by (rule emits_rfold)
  also have "concat (map g (zip selected placements)) = payload_ops elf selected placements"
    by (simp add: g_def payload_ops_def case_prod_unfold)
  finally show ?thesis .
qed

lemma sign_emit_puts:
  assumes ok: "sign_state_ok options elf program_count selected version"
    and lay: "lay = sign_layout (opt_magic options) program_count selected"
  shows "sign_emit options elf selected lay version =
     Inr (puts (front_ops options elf selected lay @ back_ops options elf selected lay version)
       (replicate (sign_total lay version) 0))"
proof -
  note f = sign_layout_facts [OF assms] and v = version_start_facts [OF assms]
  let ?t = "sign_total lay version" and ?ps = "lay_placements lay"
  let ?n = "length selected"
  have sel: "selection_ok elf s" if "s \<in> set selected" for s
    using ok that by (auto simp: sign_state_ok_def)
  have auth: "opt_auth_info options = [] \<or> length (opt_auth_info options) = 0x88"
    and region: "reg_offset version + reg_size version \<le> length elf"
    and headers: "subspan elf 0 (lay_elf_headers_size lay) = Inr (chunk elf 0 (lay_elf_headers_size lay))"
    using ok f(3) by (auto simp: sign_state_ok_def)
  have t: "?t < 2 ^ 64" using v(9) by simp
  have t1: "lay_header_size lay + lay_meta_size lay \<le> ?t" "lay_version_start lay + reg_size version \<le> ?t"
    using v(3,4,8) by simp_all
  have e1: "emits ?t (write_container_header (opt_magic options) lay) (header_ops (opt_magic options) lay)"
    using t1(1) f(6) t by (intro header_ops_emits) simp_all
  have e2: "emits ?t (rfold write_segment_pair (zip [0..<?n] (zip selected ?ps))) (table_ops selected ?ps)"
    using t1(1) f(2,4,6) t by (intro table_ops_emits) simp_all
  have e3: "emits ?t (\<lambda>d. copy_bytes d (lay_after_segments lay) (chunk elf 0 (lay_elf_headers_size lay)))
      [(lay_after_segments lay, chunk elf 0 (lay_elf_headers_size lay))]"
    using t1(1) f(4,6) by (intro emits_copy) simp
  have e4: "emits ?t (write_extended options lay) (identity_ops options lay @ footer_ops options lay)"
    using t1(1) f(1,6,9) t auth by (intro extended_ops_emits) simp_all
  have e5: "emits ?t (rfold (write_payload elf) (zip selected ?ps)) (payload_ops elf selected ?ps)"
    using sel v(7) t1(2) by (intro payload_ops_emits) (auto intro: ascending_weaken)
  have e6: "emits ?t (\<lambda>d. if reg_size version = 0 then Inr d
      else rbind (subspan elf (reg_offset version) (reg_size version)) (copy_bytes d (lay_version_start lay)))
      (version_ops elf lay version)"
    using region t1(2) by (auto simp: version_ops_def emits_def)
  have "emits ?t (\<lambda>d. rbind (write_container_header (opt_magic options) lay d) (\<lambda>d.
      rbind (rfold write_segment_pair (zip [0..<?n] (zip selected ?ps)) d) (\<lambda>d.
      rbind (copy_bytes d (lay_after_segments lay) (chunk elf 0 (lay_elf_headers_size lay))) (\<lambda>d.
      rbind (write_extended options lay d) (\<lambda>d.
      rbind (rfold (write_payload elf) (zip selected ?ps) d) (\<lambda>d.
      if reg_size version = 0 then Inr d
      else rbind (subspan elf (reg_offset version) (reg_size version)) (copy_bytes d (lay_version_start lay))))))))
      (front_ops options elf selected lay @ back_ops options elf selected lay version)"
    unfolding front_ops_def back_ops_def append_assoc
    using emits_bind [OF e1 emits_bind [OF e2 emits_bind [OF e3 emits_bind [OF e4 emits_bind [OF e5 e6]]]]]
    by simp
  from emitsD [OF this, of "replicate ?t 0"] show ?thesis
    unfolding sign_emit_def Let_def sign_total_def [symmetric] headers by simp
qed

text \<open>Every field of the container reads back, before and after the digest is stored.\<close>

lemma sign_emit_exhibits:
  assumes ok: "sign_state_ok options elf program_count selected version"
    and lay: "lay = sign_layout (opt_magic options) program_count selected"
    and out: "sign_emit options elf selected lay version = Inr out" and "length digest = 0x20"
  shows "length out = sign_total lay version"
    and "exhibits out (front_ops options elf selected lay @ back_ops options elf selected lay version)"
    and "exhibits (put out (lay_extended_at lay + 0x20) digest)
           (front_ops options elf selected lay @ back_ops options elf selected lay version)"
proof -
  let ?ops = "front_ops options elf selected lay @ back_ops options elf selected lay version"
  note front = front_ops_ascending [OF ok lay] and rear = back_ops_ascending [OF ok lay]
  have asc: "ascending 0 ?ops (sign_total lay version)"
    using front rear by (intro ascending_append) (auto intro: ascending_weaken)
  have out': "out = puts ?ops (replicate (sign_total lay version) 0)"
    using out sign_emit_puts [OF ok lay] by simp
  then show len: "length out = sign_total lay version" using length_puts [OF asc] by simp
  show shown: "exhibits out ?ops" using exhibits_puts [OF asc] out' by simp
  have "lay_extended_at lay + 0x40 \<le> length out"
    using rear ascending_le len by fastforce
  with exhibits_put_gap [OF shown front rear, of "lay_extended_at lay + 0x20" digest] assms(4)
  show "exhibits (put out (lay_extended_at lay + 0x20) digest) ?ops" by simp
qed

end
