(* ===== verification/Self_Roundtrip.thy ===== *)
theory Self_Roundtrip
  imports Self_Layout
begin

text \<open>
  What a signed container gives back. \<open>parse\<close> finds every field \<open>sign\<close> wrote; \<open>extract\<close>
  rebuilds the module byte for byte where a stored program header, the header table or the
  version records cover it, and zeroes elsewhere; the stored digest is that of the rebuilt
  module.
\<close>

section \<open>Program headers of a module\<close>

definition ph_at :: "nat \<Rightarrow> nat" where "ph_at i = 0x40 + i * 0x38"

definition ph_type :: "bytes \<Rightarrow> nat \<Rightarrow> u32" where
  "ph_type elf i = le_decode (chunk elf (ph_at i) 4)"

definition ph_offset :: "bytes \<Rightarrow> nat \<Rightarrow> nat" where
  "ph_offset elf i = unat (le_decode (chunk elf (ph_at i + 0x08) 8) :: u64)"

definition ph_size :: "bytes \<Rightarrow> nat \<Rightarrow> nat" where
  "ph_size elf i = unat (le_decode (chunk elf (ph_at i + 0x20) 8) :: u64)"

definition stored_type :: "bool \<Rightarrow> u32 \<Rightarrow> bool" where
  "stored_type include_proc_param type \<longleftrightarrow>
     type = kPtLoad \<or> type = kPtDynlibData \<or> type = kPtRelro \<or> type = kPtComment \<or>
     type = kPtProcParam \<and> include_proc_param"

definition stored_header :: "bytes \<Rightarrow> bool \<Rightarrow> nat \<Rightarrow> bool" where
  "stored_header elf include_proc_param i \<longleftrightarrow>
     ph_size elf i \<noteq> 0 \<and> stored_type include_proc_param (ph_type elf i)"

definition selection :: "bytes \<Rightarrow> bool \<Rightarrow> nat \<Rightarrow> selected_segment list" where
  "selection elf include_proc_param program_count =
     map (\<lambda>i. \<lparr>sel_header_index = i, sel_file_offset = ph_offset elf i, sel_file_size = ph_size elf i\<rparr>)
       (filter (stored_header elf include_proc_param) [0..<program_count])"

lemma ph_reads:
  assumes "ph_at (Suc i) \<le> length data" and "ph_at (Suc i) < 2 ^ 63"
  shows "self_read_u32 data (0x40 + i * 0x38) = Inr (ph_type data i)"
    and "\<exists>flags. self_read_u32 data (0x40 + i * 0x38 + 4) = Inr flags"
    and "self_read_u64 data (0x40 + i * 0x38 + 0x08) = Inr (of_nat (ph_offset data i))"
    and "self_read_u64 data (0x40 + i * 0x38 + 0x20) = Inr (of_nat (ph_size data i))"
  using assms by (simp_all add: ph_at_def ph_type_def ph_offset_def ph_size_def s32.rd_in s64.rd_in)

lemma ph_at_mono: "i \<le> j \<Longrightarrow> ph_at i \<le> ph_at j"
  by (simp add: ph_at_def)

lemma ph_values_small: "ph_offset data i < 2 ^ 64" "ph_size data i < 2 ^ 64"
  by (simp_all only: ph_offset_def ph_size_def unat_u64_bound)

lemma ph_size_zero: "(of_nat (ph_size data i) :: u64) = 0 \<longleftrightarrow> ph_size data i = 0"
  by (simp add: ph_size_def unat_eq_0)

lemma ph_unat [simp]:
  "unat (of_nat (ph_offset data i) :: u64) = ph_offset data i"
  "unat (of_nat (ph_size data i) :: u64) = ph_size data i"
  by (simp_all add: ph_offset_def ph_size_def)

lemma select_segment_result:
  assumes "select_segment elf 0x40 include_proc_param i acc = Inr acc'"
    and "ph_at (Suc i) \<le> length elf" and "ph_at (Suc i) < 2 ^ 63"
  shows "acc' = acc @ (if stored_header elf include_proc_param i
      then [\<lparr>sel_header_index = i, sel_file_offset = ph_offset elf i, sel_file_size = ph_size elf i\<rparr>]
      else []) \<and>
    (stored_header elf include_proc_param i \<longrightarrow> ph_offset elf i + ph_size elf i \<le> length elf)"
proof -
  note r = ph_reads [OF assms(2,3)]
  obtain flags where flags: "self_read_u32 elf (0x40 + i * 0x38 + 4) = Inr flags" using r(2) by auto
  show ?thesis
    using assms(1) unfolding select_segment_def Let_def r(1,3,4) flags rbind_simps
    by (auto simp: ph_size_zero stored_header_def stored_type_def res_simps
        split: if_splits)
qed

lemma select_segments_result:
  assumes "self_select_segments elf 0x40 program_count include_proc_param = Inr selected"
    and "ph_at program_count \<le> length elf" and "ph_at program_count < 2 ^ 63"
  shows "selected = selection elf include_proc_param program_count \<and>
    (\<forall>s \<in> set selected. selection_ok elf s \<and> sel_header_index s < program_count)"
  using assms
proof (induction program_count arbitrary: selected)
  case 0
  then show ?case by (simp add: self_select_segments_def selection_def)
next
  case (Suc n)
  obtain acc where acc: "self_select_segments elf 0x40 n include_proc_param = Inr acc"
    and step: "select_segment elf 0x40 include_proc_param n acc = Inr selected"
    using Suc.prems(1) unfolding self_select_segments_def
    by (auto simp: rfold_append res_simps)
  have le: "ph_at n \<le> ph_at (Suc n)" by (simp add: ph_at_mono)
  have IH: "acc = selection elf include_proc_param n \<and>
      (\<forall>s \<in> set acc. selection_ok elf s \<and> sel_header_index s < n)"
    using acc le Suc.prems(2,3) by (intro Suc.IH) simp_all
  show ?case
    using IH select_segment_result [OF step Suc.prems(2,3)]
    by (auto simp: selection_def selection_ok_def less_Suc_eq)
qed

section \<open>The module header\<close>

lemma read_u16_put_other:
  assumes "b + length src \<le> length data" and "at + 2 \<le> length data" and "at + 2 < 2 ^ 64"
    and "at + 2 \<le> b \<or> b + length src \<le> at"
  shows "self_read_u16 (put data b src) at = self_read_u16 data at"
  using assms by (intro s16.rd_put_disjoint) auto

text \<open>Normalisation writes bytes 7 and 16 to 19 only.\<close>

lemma normalize_header_result:
  assumes "self_normalize_header elf = Inr elf'" and "0x40 \<le> length elf"
  shows "length elf' = length elf \<and>
    (\<forall>b n. b + n \<le> 7 \<or> 8 \<le> b \<and> b + n \<le> 0x10 \<or> 0x14 \<le> b \<longrightarrow> chunk elf' b n = chunk elf b n)"
proof -
  let ?a = "put elf 0x12 (le_encode 2 (0x3e :: u16))"
  obtain e2 where e2: "e2 = ?a \<or> e2 = put ?a 0x07 [9]"
    and e3: "elf' = e2 \<or> elf' = put e2 0x10 (le_encode 2 (2 :: u16))"
    using assms unfolding self_normalize_header_def
    by (auto simp: s16.wr_in s16.rd_in set_byte_put simp del: set_byte_in split: if_splits)
  have "length ?a = length elf" and "length e2 = length elf" using e2 assms(2) by auto
  with e2 e3 assms(2) show ?thesis by (auto simp: chunk_put_disjoint)
qed

section \<open>Parsing what was signed\<close>

definition module_ok :: "bytes \<Rightarrow> nat \<Rightarrow> bool" where
  "module_ok elf program_count \<longleftrightarrow>
     le_decode (chunk elf 0 4) = (0x464c457f :: u32) \<and>
     unat (le_decode (chunk elf 0x38 2) :: u16) = program_count"

definition signed_segments :: "selected_segment list \<Rightarrow> self_layout \<Rightarrow> self_segment list" where
  "signed_segments selected lay =
     concat (map (\<lambda>i. [digest_entry i (lay_placements lay ! i),
                       data_entry (selected ! i) (lay_placements lay ! i)]) [0..<length selected])"

definition signed_image ::
    "sign_options \<Rightarrow> bytes \<Rightarrow> selected_segment list \<Rightarrow> self_layout \<Rightarrow> bytes \<Rightarrow> self_image" where
  "signed_image options elf selected lay digest =
     \<lparr>im_program_type = 0x101, im_header_size = of_nat (lay_header_size lay),
      im_metadata_size = of_nat (lay_meta_size lay),
      im_file_size = of_nat (lay_declared_file_size lay),
      im_segments = signed_segments selected lay,
      im_elf_headers = chunk elf 0 (lay_elf_headers_size lay), im_has_extended_info = True,
      im_authority = opt_authority options, im_extended_program_type = 1,
      im_app_version = opt_app_version options,
      im_firmware_version = opt_firmware_version options, im_digest = digest\<rparr>"

lemma header_fields_read:
  assumes "exhibits data (header_ops magic lay)"
  shows "self_read_u32 data 0 = Inr magic"
    and "self_read_u32 data 0x08 = Inr 0x101"
    and "self_read_u16 data 0x0c = Inr (of_nat (lay_header_size lay))"
    and "self_read_u16 data 0x0e = Inr (of_nat (lay_meta_size lay))"
    and "self_read_u64 data 0x10 = Inr (of_nat (lay_declared_file_size lay))"
    and "self_read_u16 data 0x18 = Inr (of_nat (lay_segment_count lay))"
  by (rule s32.exhibits_rd [OF assms] s16.exhibits_rd [OF assms] s64.exhibits_rd [OF assms];
      simp add: header_ops_def)+

lemma entry_read:
  assumes "exhibits data (entry_ops (0x20 + j * 0x20) g)" and "0x40 + j * 0x20 < 2 ^ 64"
  shows "read_segment data j = Inr g"
proof -
  have "self_read_u64 data (0x20 + j * 0x20) = Inr (seg_flags g)"
    "self_read_u64 data (0x20 + j * 0x20 + 0x08) = Inr (seg_file_offset g)"
    "self_read_u64 data (0x20 + j * 0x20 + 0x10) = Inr (seg_file_size g)"
    "self_read_u64 data (0x20 + j * 0x20 + 0x18) = Inr (seg_memory_size g)"
    by (rule s64.exhibits_rd [OF assms(1)]; use assms(2) in \<open>simp add: entry_ops_def\<close>)+
  then show ?thesis by (simp only: read_segment_def Let_def rbind_simps) simp
qed

lemma table_read:
  assumes "exhibits data (table_ops selected placements)"
    and "length placements = length selected" and "length selected < 2 ^ 10"
  shows "rmap (read_segment data) [0..<2 * length selected] =
    Inr (concat (map (\<lambda>i. [digest_entry i (placements ! i), data_entry (selected ! i) (placements ! i)])
      [0..<length selected]))"
proof (rule rmap_pairs)
  fix i assume i: "i < length selected"
  have "(i, selected ! i, placements ! i) \<in> set (zip [0..<length selected] (zip selected placements))"
    using i assms(2) by (auto simp: set_zip intro!: exI [where x = i])
  then have "set (pair_ops (i, selected ! i, placements ! i)) \<subseteq> set (table_ops selected placements)"
    by (auto simp: table_ops_def)
  then have pair: "exhibits data (pair_ops (i, selected ! i, placements ! i))"
    using assms(1) exhibits_subset by blast
  have "exhibits data (entry_ops (0x20 + (2 * i) * 0x20) (digest_entry i (placements ! i)))"
    "exhibits data (entry_ops (0x20 + (2 * i + 1) * 0x20) (data_entry (selected ! i) (placements ! i)))"
    using pair by (simp_all add: pair_ops_def algebra_simps)
  with i assms(3) show "read_segment data (2 * i) = Inr (digest_entry i (placements ! i)) \<and>
      read_segment data (2 * i + 1) = Inr (data_entry (selected ! i) (placements ! i))"
    by (intro conjI entry_read) simp_all
qed

lemma chunk_drop: "chunk (drop t data) b n = chunk data (t + b) n"
  by (simp add: chunk_def add.commute)

text \<open>The container shows the module's header table, so fields of it are the module's.\<close>

lemma embedded_table_reads:
  assumes "chunk data t h = chunk elf 0 h" and "t + h \<le> length data" and "h \<le> length elf"
    and "t + h < 2 ^ 63" and "0x40 \<le> h" and "module_ok elf program_count"
  shows "self_is_elf (drop t data) = Inr True"
    and "\<exists>c. self_read_u16 data (t + 0x38) = Inr c \<and> unat c = program_count"
proof -
  have sub: "chunk data (t + b) n = chunk elf b n" if "b + n \<le> h" for b n
    using chunk_of_chunk [OF that, where data = data and at = t]
      chunk_of_chunk [OF that, where data = elf and at = 0] assms(1) by simp
  have "chunk (drop t data) 0 4 = chunk elf 0 4" using sub [of 0 4] assms(5) by (simp add: chunk_drop)
  then show "self_is_elf (drop t data) = Inr True"
    using assms(2,5,6) by (simp add: self_is_elf_def s32.rd_in module_ok_def)
  have "chunk data (t + 0x38) 2 = chunk elf 0x38 2" using sub [of "0x38" 2] assms(5) by simp
  then show "\<exists>c. self_read_u16 data (t + 0x38) = Inr c \<and> unat c = program_count"
    using assms(2,4,5,6) by (simp add: s16.rd_in module_ok_def)
qed

lemma parse_signed:
  assumes ok: "sign_state_ok options elf program_count selected version"
    and lay: "lay = sign_layout (opt_magic options) program_count selected"
    and magic: "opt_magic options = kMagic \<or> opt_magic options = kAlternateMagic"
    and elf: "module_ok elf program_count"
    and len: "length data = sign_total lay version"
    and shown: "exhibits data (front_ops options elf selected lay)"
  shows "self_parse data =
    Inr (signed_image options elf selected lay (chunk data (lay_extended_at lay + 0x20) 32))"
proof -
  note f = sign_layout_facts [OF ok lay] and v = version_start_facts [OF ok lay]
  let ?t = "lay_after_segments lay" and ?h = "lay_elf_headers_size lay" and ?x = "lay_extended_at lay"
  have parts: "exhibits data (header_ops (opt_magic options) lay)"
    "exhibits data (table_ops selected (lay_placements lay))"
    "exhibits data [(?t, chunk elf 0 ?h)]" "exhibits data (identity_ops options lay)"
    using shown by (auto simp: front_ops_def exhibits_def)
  note h = header_fields_read [OF parts(1)]
  have table: "0x40 + program_count * 0x38 \<le> length elf" using ok by (simp add: sign_state_ok_def)
  have room: "?x + 0x70 \<le> length data" using v(3,4,8) f(6) len by simp
  have "unat (of_nat (lay_segment_count lay) :: u16) = lay_segment_count lay"
    using f(1,10) by (intro unat_u16_small) simp
  then have counts: "unat (of_nat (lay_segment_count lay) :: u16) = 2 * length selected"
    "unat (of_nat (lay_header_size lay) :: u16) = lay_header_size lay"
    using f(1,7) by simp_all
  have "chunk data ?t ?h = chunk elf 0 ?h" using exhibitsD [OF parts(3)] table f(3) by simp
  note e = this embedded_table_reads [OF this _ _ _ _ elf]
  obtain c where c: "self_read_u16 data (?t + 0x38) = Inr c" "unat c = program_count"
    using e(3) room f(3,4) table len v(9) by force
  have is_elf: "self_is_elf (drop ?t data) = Inr True"
    using e(2) room f(3,4) table len v(9) by force
  have ids: "self_read_u64 data ?x = Inr (opt_authority options)"
    "self_read_u64 data (?x + 0x08) = Inr 1"
    "self_read_u64 data (?x + 0x10) = Inr (opt_app_version options)"
    "self_read_u64 data (?x + 0x18) = Inr (opt_firmware_version options)"
    using f(6,7) by (auto intro!: s64.exhibits_rd [OF parts(4)] simp: identity_ops_def)
  have t: "0x20 + 2 * length selected * 0x20 = ?t" using f(2) by simp
  have h': "0x40 + program_count * 0x38 = ?h" using f(3) by simp
  have is_self: "self_is_self data = Inr True"
    using h(1) magic room by (auto simp: self_is_self_def)
  have segs: "rmap (read_segment data) [0..<2 * length selected] = Inr (signed_segments selected lay)"
    unfolding signed_segments_def using parts(2) v(1) f(10) by (rule table_read)
  have le: "?t \<le> length data" "lay_header_size lay \<le> length data" "?t + 0x40 \<le> length data"
    "?t + ?h \<le> length data" "?x + 0x40 \<le> lay_header_size lay" "?x + 0x40 \<le> length data"
    "?x + 0x20 + 0x20 \<le> length data"
    using room f(3,4,6) by simp_all
  have digest: "subspan data (?x + 0x20) 32 = Inr (chunk data (?x + 0x20) 32)"
    "subspan data ?t ?h = Inr (chunk elf 0 ?h)" using le e(1) by simp_all
  show ?thesis
    unfolding self_parse_def Let_def read_extended_info_def
    by (simp only: is_self h is_elf c counts t h' f(5) [symmetric] ids segs le digest rbind_simps
        require_True if_True simp_thms) (simp add: signed_image_def)
qed

section \<open>Rebuilding the module\<close>

text \<open>Copying regions of a module to the same places of an output.\<close>

definition overlay :: "bytes \<Rightarrow> (nat \<times> nat) list \<Rightarrow> bytes \<Rightarrow> bytes" where
  "overlay elf regions out = fold (\<lambda>(o', n) out. put out o' (chunk elf o' n)) regions out"

definition in_regions :: "(nat \<times> nat) list \<Rightarrow> nat \<Rightarrow> bool" where
  "in_regions regions p \<longleftrightarrow> (\<exists>(o', n) \<in> set regions. o' \<le> p \<and> p < o' + n)"

lemma overlay_simps [simp]:
  "overlay elf [] out = out"
  "overlay elf ((o', n) # regions) out = overlay elf regions (put out o' (chunk elf o' n))"
  "overlay elf (xs @ ys) out = overlay elf ys (overlay elf xs out)"
  by (simp_all add: overlay_def)

lemma overlay_result:
  assumes "\<forall>(o', n) \<in> set regions. o' + n \<le> length elf \<and> o' + n \<le> length out"
  shows "length (overlay elf regions out) = length out \<and>
    (\<forall>p < length out. overlay elf regions out ! p = (if in_regions regions p then elf ! p else out ! p))"
  using assms
proof (induction regions arbitrary: out)
  case Nil
  then show ?case by (simp add: in_regions_def)
next
  case (Cons r regions)
  obtain o' n where r: "r = (o', n)" by (cases r)
  have here: "o' + n \<le> length elf" "o' + n \<le> length out" using Cons.prems r by auto
  have len: "length (put out o' (chunk elf o' n)) = length out" using here by simp
  have IH: "length (overlay elf regions (put out o' (chunk elf o' n))) = length out \<and>
      (\<forall>p < length out. overlay elf regions (put out o' (chunk elf o' n)) ! p =
         (if in_regions regions p then elf ! p else put out o' (chunk elf o' n) ! p))"
    using Cons.IH [of "put out o' (chunk elf o' n)"] Cons.prems len by simp
  have "put out o' (chunk elf o' n) ! p = (if o' \<le> p \<and> p < o' + n then elf ! p else out ! p)"
    if "p < length out" for p
    using that here by (auto simp: nth_put)
  with IH r show ?case by (auto simp: in_regions_def)
qed

definition region_of :: "selected_segment \<Rightarrow> nat \<times> nat" where
  "region_of s = (sel_file_offset s, sel_file_size s)"

lemma ph_of_headers:
  assumes "i < program_count"
  shows "ph_type (chunk elf 0 (ph_at program_count)) i = ph_type elf i"
    and "ph_offset (chunk elf 0 (ph_at program_count)) i = ph_offset elf i"
    and "ph_size (chunk elf 0 (ph_at program_count)) i = ph_size elf i"
proof -
  have "ph_at (Suc i) \<le> ph_at program_count" using assms by (simp add: ph_at_mono)
  then have "ph_at i + 0x38 \<le> ph_at program_count" by (simp add: ph_at_def)
  then show "ph_type (chunk elf 0 (ph_at program_count)) i = ph_type elf i"
    and "ph_offset (chunk elf 0 (ph_at program_count)) i = ph_offset elf i"
    and "ph_size (chunk elf 0 (ph_at program_count)) i = ph_size elf i"
    by (simp_all add: ph_type_def ph_offset_def ph_size_def chunk_of_chunk)
qed

definition module_extent :: "bytes \<Rightarrow> nat \<Rightarrow> nat" where
  "module_extent elf program_count =
     fold (\<lambda>i m. max m (ph_offset elf i + ph_size elf i)) [0..<program_count] (ph_at program_count)"

lemma fold_max_ge:
  fixes e :: nat
  shows "e \<le> fold (\<lambda>i m. max m (g i)) xs e" and "i \<in> set xs \<Longrightarrow> g i \<le> fold (\<lambda>i m. max m (g i)) xs e"
proof (induction xs arbitrary: e)
  case (Cons x xs)
  { case 1 then show ?case using Cons.IH(1) [of "max e (g x)"] by simp }
  { case 2 then show ?case using Cons.IH [of "max e (g x)"] by auto }
qed simp_all

lemma module_extent_ge:
  "ph_at program_count \<le> module_extent elf program_count"
  "i < program_count \<Longrightarrow> ph_offset elf i + ph_size elf i \<le> module_extent elf program_count"
  unfolding module_extent_def
  using fold_max_ge(2) [of i "[0..<program_count]" "\<lambda>i. ph_offset elf i + ph_size elf i"]
  by (simp_all add: fold_max_ge)

lemma ph_reads_headers:
  assumes "ph_at program_count \<le> length elf" and "ph_at program_count < 2 ^ 63" and "i < program_count"
  shows "self_read_u32 (chunk elf 0 (ph_at program_count)) (0x40 + i * 0x38) = Inr (ph_type elf i)"
    and "self_read_u64 (chunk elf 0 (ph_at program_count)) (0x40 + i * 0x38 + 0x08) =
           Inr (of_nat (ph_offset elf i))"
    and "self_read_u64 (chunk elf 0 (ph_at program_count)) (0x40 + i * 0x38 + 0x20) =
           Inr (of_nat (ph_size elf i))"
proof -
  have "ph_at (Suc i) \<le> ph_at program_count" using assms(3) by (simp add: ph_at_mono)
  then have "ph_at (Suc i) \<le> length (chunk elf 0 (ph_at program_count))" "ph_at (Suc i) < 2 ^ 63"
    using assms(1,2) by simp_all
  note ph_reads [OF this] ph_of_headers [OF assms(3), of elf]
  then show "self_read_u32 (chunk elf 0 (ph_at program_count)) (0x40 + i * 0x38) = Inr (ph_type elf i)"
    and "self_read_u64 (chunk elf 0 (ph_at program_count)) (0x40 + i * 0x38 + 0x08) =
           Inr (of_nat (ph_offset elf i))"
    and "self_read_u64 (chunk elf 0 (ph_at program_count)) (0x40 + i * 0x38 + 0x20) =
           Inr (of_nat (ph_size elf i))" by simp_all
qed

lemma grow_output_headers:
  assumes "rfold (grow_output (chunk elf 0 (ph_at program_count))) is e = Inr result"
    and "ph_at program_count \<le> length elf" and "ph_at program_count < 2 ^ 63"
    and "set is \<subseteq> {..<program_count}"
  shows "result = fold (\<lambda>i m. max m (ph_offset elf i + ph_size elf i)) is e"
  using assms(1,4)
proof (induction "is" arbitrary: e)
  case (Cons i "is")
  have "i < program_count" using Cons.prems(2) by simp
  note r = ph_reads_headers [OF assms(2,3) this]
  have "grow_output (chunk elf 0 (ph_at program_count)) i e =
      (if ph_size elf i \<le> 2 ^ 64 - 1 - ph_offset elf i
       then Inr (max e (ph_offset elf i + ph_size elf i))
       else Inl (Runtime ''ELF program header is too large for this host''))"
    unfolding grow_output_def Let_def r rbind_simps by (simp add: require_def)
  with Cons show ?case by (auto simp: res_simps split: if_splits)
qed simp

section \<open>Restoring the segments\<close>

lemma table_flags:
  "k < 20 \<Longrightarrow> bit (push_bit 20 w OR c :: u64) k = bit c k"
  by (simp add: bit_simps)

lemma digest_entry_flags: "\<not> self_blocked (digest_entry i p)"
proof -
  have "bit (push_bit 20 (of_nat (i * 2 + 1)) OR 0x10004 :: u64) 11 = bit (0x10004 :: u64) 11"
    by (rule table_flags) simp
  then have "\<not> bit (push_bit 20 (of_nat (i * 2 + 1)) OR 0x10004 :: u64) 11" by simp
  then show ?thesis
    using and_exp_eq_0_iff_not_bit [of "push_bit 20 (of_nat (i * 2 + 1)) OR 0x10004 :: u64" 11]
    by (simp add: self_blocked_def digest_entry_def)
qed

lemma data_entry_flags:
  "self_blocked (data_entry s p)" "\<not> self_encrypted (data_entry s p)" "\<not> self_compressed (data_entry s p)"
proof -
  let ?w = "push_bit 20 (of_nat (sel_header_index s)) OR 0x2804 :: u64"
  have "bit ?w k = bit (0x2804 :: u64) k" if "k < 20" for k using that by (rule table_flags)
  from this [of 1] this [of 3] this [of 11] have "\<not> bit ?w 1" "\<not> bit ?w 3" "bit ?w 11" by simp_all
  then show "self_blocked (data_entry s p)" "\<not> self_encrypted (data_entry s p)"
    "\<not> self_compressed (data_entry s p)"
    using and_exp_eq_0_iff_not_bit [of ?w 1] and_exp_eq_0_iff_not_bit [of ?w 3]
      and_exp_eq_0_iff_not_bit [of ?w 11]
    by (simp_all add: self_blocked_def self_encrypted_def self_compressed_def data_entry_def)
qed

lemma data_entry_id:
  assumes "sel_header_index s < 2 ^ 16"
  shows "self_id (data_entry s p) = sel_header_index s"
proof -
  let ?w = "of_nat (sel_header_index s) :: u64"
  have "(0xffff :: u64) = mask 16" by (simp add: mask_eq_exp_minus_1)
  moreover have "drop_bit 20 (push_bit 20 ?w OR 0x2804) AND mask 16 = ?w"
  proof (rule bit_word_eqI)
    fix k :: nat assume "k < LENGTH(64)"
    have high: "\<not> bit (0x2804 :: u64) (k + 20)"
      using bit_take_bit_iff [of 20 "0x2804 :: u64" "k + 20"] by simp
    have "take_bit 16 (sel_header_index s) = sel_header_index s"
      using assms by (simp add: take_bit_eq_mod)
    then have "bit (sel_header_index s) k \<Longrightarrow> k < 16"
      by (metis bit_take_bit_iff)
    then show "bit (drop_bit 20 (push_bit 20 ?w OR 0x2804) AND mask 16) k = bit ?w k"
      using high by (auto simp: bit_simps)
  qed
  ultimately show ?thesis using assms by (simp add: self_id_def data_entry_def)
qed

lemma restore_digest_entry: "restore_segment zlib data headers program_count (digest_entry i p) out = Inr out"
  by (simp add: restore_segment_def digest_entry_flags)

lemma restore_data_entry:
  assumes table: "ph_at program_count \<le> length elf" "ph_at program_count < 2 ^ 63"
    and s: "sel_header_index s < program_count" "program_count < 2 ^ 16"
      "sel_file_offset s = ph_offset elf (sel_header_index s)"
      "sel_file_size s = ph_size elf (sel_header_index s)" "selection_ok elf s"
    and shown: "pl_data_offset p + sel_file_size s \<le> length data" "length data < 2 ^ 63"
      "chunk data (pl_data_offset p) (sel_file_size s) = chunk elf (sel_file_offset s) (sel_file_size s)"
    and out: "sel_file_offset s + sel_file_size s \<le> length out"
  shows "restore_segment zlib data (chunk elf 0 (ph_at program_count)) program_count (data_entry s p) out =
    Inr (put out (sel_file_offset s) (chunk elf (sel_file_offset s) (sel_file_size s)))"
proof -
  let ?i = "sel_header_index s"
  have id: "self_id (data_entry s p) = ?i" using s by (intro data_entry_id) simp
  note r = ph_reads_headers [OF table s(1)]
  have place: "unat (seg_file_offset (data_entry s p)) = pl_data_offset p"
    "unat (seg_file_size (data_entry s p)) = sel_file_size s"
    using shown by (simp_all add: data_entry_def)
  have fits: "\<not> program_count \<le> ?i" "selection_ok elf s" using s by simp_all
  show ?thesis
    unfolding restore_segment_def Let_def id r place
    using fits shown out s(3,4)
    by (simp add: data_entry_flags selection_ok_def r [simplified])
qed

text \<open>All segments of the table, in its order.\<close>

lemma restore_all:
  assumes "n \<le> length selected"
    and "\<And>i out. i < n \<Longrightarrow> length out = len \<Longrightarrow> restore (g i) out =
           Inr (put out (sel_file_offset (selected ! i))
             (chunk elf (sel_file_offset (selected ! i)) (sel_file_size (selected ! i))))"
    and "\<And>i out. restore (d i) out = Inr out"
    and "\<And>s. s \<in> set selected \<Longrightarrow> selection_ok elf s \<and> sel_file_offset s + sel_file_size s \<le> len"
    and "length out = len"
  shows "rfold restore (concat (map (\<lambda>i. [d i, g i]) [0..<n])) out =
    Inr (overlay elf (map region_of (take n selected)) out)"
  using assms(1,2)
proof (induction n)
  case 0
  then show ?case by simp
next
  case (Suc n)
  have IH: "rfold restore (concat (map (\<lambda>i. [d i, g i]) [0..<n])) out =
      Inr (overlay elf (map region_of (take n selected)) out)"
    using Suc.prems by (intro Suc.IH) simp_all
  have "length (overlay elf (map region_of (take n selected)) out) = len"
    using overlay_result [of "map region_of (take n selected)" elf out] assms(4,5)
    by (auto simp: region_of_def selection_ok_def dest: in_set_takeD)
  then show ?case
    using IH Suc.prems assms(3)
    by (simp add: rfold_append take_Suc_conv_app_nth region_of_def [of "selected ! n"])
qed

section \<open>The version records\<close>

definition version_header :: "bytes \<Rightarrow> nat \<Rightarrow> nat option" where
  "version_header elf program_count =
     find (\<lambda>i. ph_type elf i = kPtVersionRecords) [0..<program_count]"

definition version_region :: "bytes \<Rightarrow> nat \<Rightarrow> nat \<Rightarrow> file_region" where
  "version_region elf program_count limit =
     (case version_header elf program_count of
        None \<Rightarrow> \<lparr>reg_offset = 0, reg_size = 0\<rparr>
      | Some i \<Rightarrow> if ph_offset elf i + ph_size elf i \<le> limit \<and> ph_size elf i \<noteq> 0
                 then \<lparr>reg_offset = ph_offset elf i, reg_size = ph_size elf i\<rparr>
                 else \<lparr>reg_offset = 0, reg_size = 0\<rparr>)"

text \<open>The version header, if there is one, describes bytes of the file.\<close>

definition version_in_file :: "bytes \<Rightarrow> nat \<Rightarrow> bool" where
  "version_in_file elf program_count \<longleftrightarrow>
     (\<forall>i. version_header elf program_count = Some i \<longrightarrow> ph_offset elf i + ph_size elf i \<le> length elf)"

lemma find_version_loop_result:
  assumes "\<And>i. i \<in> set is \<Longrightarrow> self_read_u32 data (0x40 + i * 0x38) = Inr (ph_type elf i) \<and>
      self_read_u64 data (0x40 + i * 0x38 + 0x08) = Inr (of_nat (ph_offset elf i)) \<and>
      self_read_u64 data (0x40 + i * 0x38 + 0x20) = Inr (of_nat (ph_size elf i))"
  shows "find_version_loop data limit is =
    Inr (case find (\<lambda>i. ph_type elf i = kPtVersionRecords) is of
        None \<Rightarrow> \<lparr>reg_offset = 0, reg_size = 0\<rparr>
      | Some i \<Rightarrow> if ph_offset elf i + ph_size elf i \<le> limit \<and> ph_size elf i \<noteq> 0
                 then \<lparr>reg_offset = ph_offset elf i, reg_size = ph_size elf i\<rparr>
                 else \<lparr>reg_offset = 0, reg_size = 0\<rparr>)"
  using assms
proof (induction "is")
  case (Cons i "is")
  have r: "self_read_u32 data (0x40 + i * 0x38) = Inr (ph_type elf i)"
    "self_read_u64 data (0x40 + i * 0x38 + 0x08) = Inr (of_nat (ph_offset elf i))"
    "self_read_u64 data (0x40 + i * 0x38 + 0x20) = Inr (of_nat (ph_size elf i))"
    using Cons.prems by simp_all
  have "find_version_loop data limit is = Inr (case find (\<lambda>i. ph_type elf i = kPtVersionRecords) is of
        None \<Rightarrow> \<lparr>reg_offset = 0, reg_size = 0\<rparr>
      | Some i \<Rightarrow> if ph_offset elf i + ph_size elf i \<le> limit \<and> ph_size elf i \<noteq> 0
                 then \<lparr>reg_offset = ph_offset elf i, reg_size = ph_size elf i\<rparr>
                 else \<lparr>reg_offset = 0, reg_size = 0\<rparr>)"
    using Cons by simp
  then show ?case unfolding find_version_loop.simps Let_def r rbind_simps by (simp add: ph_size_zero)
qed simp

lemma find_version_result:
  assumes "ph_at program_count \<le> length elf" and "ph_at program_count < 2 ^ 63"
  shows "self_find_version_records elf program_count limit = Inr (version_region elf program_count limit)"
    and "self_find_version_records (chunk elf 0 (ph_at program_count)) program_count limit =
           Inr (version_region elf program_count limit)"
proof -
  have "ph_at (Suc i) \<le> length elf \<and> ph_at (Suc i) < 2 ^ 63" if "i < program_count" for i
    using that assms ph_at_mono [of "Suc i" program_count] by simp
  then show "self_find_version_records elf program_count limit = Inr (version_region elf program_count limit)"
    unfolding self_find_version_records_def version_region_def version_header_def
    by (intro find_version_loop_result) (simp add: ph_reads [simplified])
  show "self_find_version_records (chunk elf 0 (ph_at program_count)) program_count limit =
      Inr (version_region elf program_count limit)"
    unfolding self_find_version_records_def version_region_def version_header_def
    by (intro find_version_loop_result) (simp add: ph_reads_headers [OF assms, simplified])
qed

lemma version_header_Some:
  "version_header elf program_count = Some i \<Longrightarrow> i < program_count"
  by (auto simp: version_header_def find_Some_iff)

lemma version_region_limits:
  assumes "version_in_file elf program_count"
  shows "version_region elf program_count (module_extent elf program_count) =
         version_region elf program_count (length elf)"
  using assms module_extent_ge(2)
  by (fastforce simp: version_region_def version_in_file_def dest: version_header_Some
      split: option.splits)

lemma version_region_bounds:
  "reg_offset (version_region elf program_count limit) + reg_size (version_region elf program_count limit)
     \<le> max limit 0"
  "reg_size (version_region elf program_count (length elf)) \<noteq> 0 \<Longrightarrow>
     reg_offset (version_region elf program_count (length elf)) +
     reg_size (version_region elf program_count (length elf)) \<le> module_extent elf program_count"
  using module_extent_ge(2)
  by (auto simp: version_region_def dest: version_header_Some split: option.splits)

lemma segments_tail_max:
  assumes "\<And>g. g \<in> set gs \<Longrightarrow> unat (seg_file_offset g) + unat (seg_file_size g) \<le> m"
    and "m \<le> length data"
    and "\<exists>g \<in> set gs. unat (seg_file_offset g) + unat (seg_file_size g) = m"
  shows "segments_tail data gs = m"
proof -
  define e :: "self_segment \<Rightarrow> nat" where "e = (\<lambda>g. unat (seg_file_offset g) + unat (seg_file_size g))"
  have "segments_tail data gs = fold (\<lambda>g t. max t (e g)) gs 0"
    unfolding segments_tail_def e_def using assms(1,2) by (intro fold_cong) fastforce+
  also have "\<dots> = m"
  proof (rule antisym)
    have "fold (\<lambda>g t. max t (e g)) gs t \<le> m" if "t \<le> m" for t
      using that assms(1) unfolding e_def by (induction gs arbitrary: t) auto
    then show "fold (\<lambda>g t. max t (e g)) gs 0 \<le> m" by simp
    show "m \<le> fold (\<lambda>g t. max t (e g)) gs 0"
      using assms(3) fold_max_ge(2) unfolding e_def by fastforce
  qed
  finally show ?thesis .
qed

section \<open>Extraction of a signed container\<close>

definition version_regions :: "file_region \<Rightarrow> (nat \<times> nat) list" where
  "version_regions version =
     (if reg_size version = 0 then [] else [(reg_offset version, reg_size version)])"

definition kept_regions :: "bytes \<Rightarrow> bool \<Rightarrow> nat \<Rightarrow> (nat \<times> nat) list" where
  "kept_regions elf include_proc_param program_count =
     map region_of (selection elf include_proc_param program_count) @
     version_regions (version_region elf program_count (length elf)) @ [(0, ph_at program_count)]"

definition rebuilt :: "bytes \<Rightarrow> bool \<Rightarrow> nat \<Rightarrow> bytes" where
  "rebuilt elf include_proc_param program_count =
     overlay elf (kept_regions elf include_proc_param program_count)
       (replicate (module_extent elf program_count) 0)"

lemma signed_tail:
  assumes ok: "sign_state_ok options elf program_count selected version"
    and lay: "lay = sign_layout (opt_magic options) program_count selected"
    and len: "length data = sign_total lay version"
  shows "segments_tail data (signed_segments selected lay) = lay_version_start lay"
proof (rule segments_tail_max)
  note f = sign_layout_facts [OF ok lay] and v = version_start_facts [OF ok lay]
  let ?ps = "lay_placements lay"
  have rows: "pl_digest_offset (?ps ! i) + pl_digest_size (?ps ! i) = pl_data_offset (?ps ! i) \<and>
      pl_data_offset (?ps ! i) + sel_file_size (selected ! i) \<le> lay_version_start lay"
    if "i < length selected" for i
  proof -
    have "(selected ! i, ?ps ! i) \<in> set (zip selected ?ps)"
      using that v(1) by (auto simp: set_zip)
    then show ?thesis using v(5) by auto
  qed
  have vs: "lay_version_start lay < 2 ^ 62" using v(2,4) by simp
  have data_end: "unat (seg_file_offset (data_entry (selected ! i) (?ps ! i))) +
      unat (seg_file_size (data_entry (selected ! i) (?ps ! i))) =
      pl_data_offset (?ps ! i) + sel_file_size (selected ! i)"
    and digest_end: "unat (seg_file_offset (digest_entry i (?ps ! i))) +
      unat (seg_file_size (digest_entry i (?ps ! i))) = pl_data_offset (?ps ! i)"
    if "i < length selected" for i
    using rows [OF that] vs by (simp_all add: data_entry_def digest_entry_def)
  show "unat (seg_file_offset g) + unat (seg_file_size g) \<le> lay_version_start lay"
    if "g \<in> set (signed_segments selected lay)" for g
    using that data_end digest_end rows by (fastforce simp: signed_segments_def)
  show "lay_version_start lay \<le> length data" using v(4,8) len by simp
  obtain i where "i < length selected"
    "pl_data_offset (?ps ! i) + sel_file_size (selected ! i) = lay_version_start lay"
    using v(6) by (auto simp: set_zip)
  then show "\<exists>g \<in> set (signed_segments selected lay).
      unat (seg_file_offset g) + unat (seg_file_size g) = lay_version_start lay"
    using data_end by (fastforce simp: signed_segments_def)
qed

lemma restore_signed_segments:
  assumes ok: "sign_state_ok options elf program_count selected version"
    and lay: "lay = sign_layout (opt_magic options) program_count selected"
    and sel: "selected = selection elf include_proc_param program_count"
    and len: "length data = sign_total lay version"
    and shown: "exhibits data (payload_ops elf selected (lay_placements lay))"
    and out: "length out = module_extent elf program_count"
  shows "rfold (restore_segment zlib data (chunk elf 0 (ph_at program_count)) program_count)
      (signed_segments selected lay) out = Inr (overlay elf (map region_of selected) out)"
proof -
  note v = version_start_facts [OF ok lay]
  let ?ps = "lay_placements lay"
  have table: "ph_at program_count \<le> length elf" "ph_at program_count < 2 ^ 63" "program_count < 2 ^ 16"
    using ok by (auto simp: sign_state_ok_def ph_at_def)
  have s: "selection_ok elf s \<and> sel_header_index s < program_count \<and>
      sel_file_offset s = ph_offset elf (sel_header_index s) \<and>
      sel_file_size s = ph_size elf (sel_header_index s)" if "s \<in> set selected" for s
    using that ok by (auto simp: sign_state_ok_def sel selection_def)
  then have fits: "sel_file_offset s + sel_file_size s \<le> module_extent elf program_count"
    if "s \<in> set selected" for s
    using that module_extent_ge(2) [of "sel_header_index s" program_count elf] by force
  have "restore_segment zlib data (chunk elf 0 (ph_at program_count)) program_count
      (data_entry (selected ! i) (?ps ! i)) o' = Inr (put o' (sel_file_offset (selected ! i))
        (chunk elf (sel_file_offset (selected ! i)) (sel_file_size (selected ! i))))"
    if i: "i < length selected" and o': "length o' = module_extent elf program_count" for i o'
  proof -
    let ?s = "selected ! i"
    have mem: "?s \<in> set selected" using i by simp
    have "(pl_data_offset (?ps ! i), chunk elf (sel_file_offset ?s) (sel_file_size ?s))
        \<in> set (payload_ops elf selected ?ps)"
      using i v(1) by (force simp: payload_ops_def set_zip)
    from exhibitsD [OF shown this] s [OF mem] fits [OF mem] table v(9) len o' show ?thesis
      by (intro restore_data_entry) (auto simp: selection_ok_def)
  qed
  then show ?thesis
    using restore_all [of "length selected" selected "module_extent elf program_count"
        "restore_segment zlib data (chunk elf 0 (ph_at program_count)) program_count"
        "\<lambda>i. data_entry (selected ! i) (?ps ! i)" elf "\<lambda>i. digest_entry i (?ps ! i)" out]
      s fits out by (simp add: signed_segments_def restore_digest_entry)
qed

text \<open>The rebuilt module as a function of the container's bytes from the end of its segments on.\<close>

definition reassembled :: "bytes \<Rightarrow> bool \<Rightarrow> nat \<Rightarrow> nat \<Rightarrow> bytes \<Rightarrow> bytes" where
  "reassembled elf include_proc_param program_count tail data =
     (let version = version_region elf program_count (module_extent elf program_count);
          base = overlay elf (map region_of (selection elf include_proc_param program_count))
                   (replicate (module_extent elf program_count) 0);
          n = reg_size version
      in put (if n \<noteq> 0 \<and> tail + n \<le> length data
              then put base (reg_offset version) (chunk data tail n) else base)
           0 (chunk elf 0 (ph_at program_count)))"

lemma restore_version_result:
  assumes "segments_tail data gs = tail" and "reg_offset version + reg_size version \<le> length out"
  shows "restore_version data gs version out =
    Inr (if reg_size version \<noteq> 0 \<and> tail + reg_size version \<le> length data
         then put out (reg_offset version) (chunk data tail (reg_size version)) else out)"
  using assms by (simp add: restore_version_def Let_def)

lemma rebuild_signed:
  assumes ok: "sign_state_ok options elf program_count selected version"
    and lay: "lay = sign_layout (opt_magic options) program_count selected"
    and sel: "selected = selection elf include_proc_param program_count"
    and len: "length data = sign_total lay version"
    and shown: "exhibits data (payload_ops elf selected (lay_placements lay))"
    and headers: "headers = chunk elf 0 (ph_at program_count)"
  shows "rbind (rfold (restore_segment zlib data headers program_count) (signed_segments selected lay)
        (replicate (module_extent elf program_count) 0)) (\<lambda>output.
      rbind (self_find_version_records headers program_count (length output)) (\<lambda>version.
      rbind (restore_version data (signed_segments selected lay) version output) (\<lambda>output.
      rbind (subspan headers 0 (ph_at program_count)) (\<lambda>first. copy_bytes output 0 first)))) =
    Inr (reassembled elf include_proc_param program_count (lay_version_start lay) data)"
proof -
  let ?pc = program_count and ?N = "module_extent elf program_count"
  let ?v = "version_region elf ?pc ?N" and ?base = "overlay elf (map region_of selected) (replicate ?N 0)"
  let ?vs = "lay_version_start lay"
  let ?out = "if reg_size ?v \<noteq> 0 \<and> ?vs + reg_size ?v \<le> length data
      then put ?base (reg_offset ?v) (chunk data ?vs (reg_size ?v)) else ?base"
  have table: "ph_at ?pc \<le> length elf" "ph_at ?pc < 2 ^ 63"
    using ok by (auto simp: sign_state_ok_def ph_at_def)
  have "rfold (restore_segment zlib data headers ?pc) (signed_segments selected lay) (replicate ?N 0) =
      Inr ?base"
    using restore_signed_segments [OF ok lay sel len shown] headers by simp
  moreover have "\<forall>(o', n) \<in> set (map region_of selected). o' + n \<le> length elf \<and> o' + n \<le> ?N"
    using ok module_extent_ge(2)
    by (fastforce simp: sel selection_def region_of_def sign_state_ok_def selection_ok_def)
  then have lenb: "length ?base = ?N"
    using overlay_result [of "map region_of selected" elf "replicate ?N 0"] by auto
  moreover have vb: "reg_offset ?v + reg_size ?v \<le> length ?base"
    using version_region_bounds(1) [of elf ?pc ?N] lenb by simp
  then have "restore_version data (signed_segments selected lay) ?v ?base = Inr ?out"
    by (rule restore_version_result [OF signed_tail [OF ok lay len]])
  moreover have "subspan headers 0 (ph_at ?pc) = Inr headers" using table headers by (simp add: chunk_of_chunk)
  moreover have "copy_bytes ?out 0 headers = Inr (put ?out 0 headers)"
    using vb lenb table headers module_extent_ge(1) [of ?pc elf] by (intro copy_bytes_in) auto
  ultimately show ?thesis
    using find_version_result(2) [OF table] headers
    by (simp only: rbind_simps reassembled_def Let_def sel)
qed

lemma extract_signed:
  assumes ok: "sign_state_ok options elf program_count selected version"
    and lay: "lay = sign_layout (opt_magic options) program_count selected"
    and sel: "selected = selection elf include_proc_param program_count"
    and magic: "opt_magic options = kMagic \<or> opt_magic options = kAlternateMagic"
    and elf: "module_ok elf program_count"
    and len: "length data = sign_total lay version"
    and shown: "exhibits data (front_ops options elf selected lay @ back_ops options elf selected lay version)"
    and headers: "headers = chunk elf 0 (ph_at program_count)"
  shows "self_extract zlib data =
    rbind (rfold (grow_output headers) [0..<program_count] (ph_at program_count))
      (\<lambda>_. Inr (reassembled elf include_proc_param program_count (lay_version_start lay) data))"
proof -
  let ?pc = program_count
  note f = sign_layout_facts [OF ok lay]
  have table: "ph_at ?pc \<le> length elf" "ph_at ?pc < 2 ^ 63" "0x40 \<le> ph_at ?pc"
    using ok by (auto simp: sign_state_ok_def ph_at_def)
  have lenH: "length headers = ph_at ?pc" using table headers by simp
  obtain digest where parse: "self_parse data = Inr (signed_image options elf selected lay digest)"
    using parse_signed [OF ok lay magic elf len] shown by auto
  obtain c where count: "self_read_u16 headers 0x38 = Inr c" "unat c = ?pc"
    using elf table headers by (simp add: s16.rd_in chunk_of_chunk module_ok_def)
  have pay: "exhibits data (payload_ops elf selected (lay_placements lay))"
    using shown by (auto simp: back_ops_def)
  have im: "im_elf_headers (signed_image options elf selected lay digest) = headers"
    "im_segments (signed_image options elf selected lay digest) = signed_segments selected lay"
    using f(3) headers by (simp_all add: signed_image_def ph_at_def)
  have pt: "0x40 + ?pc * 0x38 = ph_at ?pc" by (simp add: ph_at_def)
  show ?thesis
  proof (cases "rfold (grow_output headers) [0..<?pc] (ph_at ?pc)")
    case (Inl e)
    then show ?thesis unfolding self_extract_def parse Let_def rbind_simps im count pt lenH by simp
  next
    case (Inr n)
    then have "n = module_extent elf ?pc"
      unfolding module_extent_def headers by (intro grow_output_headers [OF _ table(1,2)]) auto
    with Inr rebuild_signed [OF ok lay sel len pay headers] show ?thesis
      unfolding self_extract_def parse Let_def rbind_simps im count pt lenH by simp
  qed
qed

section \<open>What \<open>sign\<close> computes\<close>

definition sign_elf :: "sign_options \<Rightarrow> bytes \<Rightarrow> bytes res" where
  "sign_elf options input =
     (if opt_normalize_header options then self_normalize_header input else Inr input)"

lemma sign_check_input_Inr:
  assumes "sign_check_input options input = Inr u"
  shows "0x40 \<le> length input" and "le_decode (chunk input 0 4) = (0x464c457f :: u32)"
    and "opt_magic options = kMagic \<or> opt_magic options = kAlternateMagic"
    and "opt_auth_info options = [] \<or> length (opt_auth_info options) = 0x88"
  using assms unfolding sign_check_input_def self_is_elf_def
  by (auto simp: res_simps s32.rd_in split: if_splits)

lemma sign_elf_Inr:
  assumes "sign_elf options input = Inr elf" and "0x40 \<le> length input"
  shows "length elf = length input" and "chunk elf 0 4 = chunk input 0 4"
  using assms normalize_header_result [of input elf] by (auto simp: sign_elf_def split: if_splits)

lemma sign_program_count_Inr:
  assumes "sign_program_count elf = Inr program_count" and "0x40 \<le> length elf"
  shows "unat (le_decode (chunk elf 0x38 2) :: u16) = program_count"
    and "ph_at program_count \<le> length elf" and "program_count < 2 ^ 16"
proof -
  from assms show count: "unat (le_decode (chunk elf 0x38 2) :: u16) = program_count"
    unfolding sign_program_count_def by (auto simp: res_simps s16.rd_in s64.rd_in)
  have "program_count \<le> (length elf - 0x40) div 0x38"
    using assms unfolding sign_program_count_def by (auto simp: res_simps s16.rd_in s64.rd_in)
  then have "program_count * 0x38 \<le> length elf - 0x40"
    by (simp add: less_eq_div_iff_mult_less_eq)
  then show "ph_at program_count \<le> length elf" using assms(2) by (simp add: ph_at_def)
  show "program_count < 2 ^ 16" using count unat_u16_bound by metis
qed

text \<open>Everything \<open>sign\<close> has computed when it returns.\<close>

definition signed_as ::
    "zlib \<Rightarrow> sign_options \<Rightarrow> bytes \<Rightarrow> nat \<Rightarrow> selected_segment list \<Rightarrow> self_layout \<Rightarrow> bytes \<Rightarrow> bytes \<Rightarrow>
     bytes \<Rightarrow> bool" where
  "signed_as zlib options elf program_count selected lay unsealed module out \<longleftrightarrow>
     sign_state_ok options elf program_count selected (version_region elf program_count (length elf)) \<and>
     lay = sign_layout (opt_magic options) program_count selected \<and>
     selected = selection elf (opt_include_proc_param options) program_count \<and>
     (opt_magic options = kMagic \<or> opt_magic options = kAlternateMagic) \<and>
     module_ok elf program_count \<and>
     sign_emit options elf selected lay (version_region elf program_count (length elf)) = Inr unsealed \<and>
     self_extract zlib unsealed = Inr module \<and>
     out = put unsealed (lay_extended_at lay + 0x20) (sha256 module)"

lemma sign_prepared:
  assumes "length input < 2 ^ 47" and "sign_check_input options input = Inr u"
    and "sign_elf options input = Inr elf" and "sign_program_count elf = Inr program_count"
  shows "0x40 \<le> length elf" and "length elf < 2 ^ 47" and "ph_at program_count \<le> length elf"
    and "ph_at program_count < 2 ^ 63" and "program_count < 2 ^ 16" and "module_ok elf program_count"
proof -
  note c = sign_check_input_Inr [OF assms(2)]
  note e = sign_elf_Inr [OF assms(3) c(1)]
  show len: "0x40 \<le> length elf" and "length elf < 2 ^ 47" using e(1) c(1) assms(1) by simp_all
  note n = sign_program_count_Inr [OF assms(4) len]
  show "ph_at program_count \<le> length elf" "program_count < 2 ^ 16" by (fact n)+
  then show "ph_at program_count < 2 ^ 63" using e(1) assms(1) by simp
  show "module_ok elf program_count" using n(1) e(2) c(2) by (simp add: module_ok_def)
qed

lemma sign_state_okI:
  assumes "length input < 2 ^ 47" and "sign_check_input options input = Inr u"
    and "sign_elf options input = Inr elf" and "sign_program_count elf = Inr program_count"
    and "self_select_segments elf 0x40 program_count (opt_include_proc_param options) = Inr selected"
    and "selected \<noteq> []"
    and "lay_header_size (sign_layout (opt_magic options) program_count selected) \<le> 65535"
    and "lay_meta_size (sign_layout (opt_magic options) program_count selected) \<le> 65535"
  shows "sign_state_ok options elf program_count selected (version_region elf program_count (length elf))"
proof -
  note p = sign_prepared [OF assms(1-4)] and c = sign_check_input_Inr [OF assms(2)]
  note s = select_segments_result [OF assms(5) p(3,4)]
  show ?thesis
    using p c(4) s assms(6-8) version_region_bounds(1) [of elf program_count "length elf"]
    by (simp add: sign_state_ok_def ph_at_def)
qed

lemma sign_resultE:
  assumes "self_sign zlib options input = Inr out" and "length input < 2 ^ 47"
    and "sign_elf options input = Inr elf" and "sign_program_count elf = Inr program_count"
  obtains selected lay unsealed module
  where "signed_as zlib options elf program_count selected lay unsealed module out"
proof -
  from assms(1,3,4) obtain selected version unsealed module where
    check: "sign_check_input options input = Inr ()"
    and select: "self_select_segments elf 0x40 program_count (opt_include_proc_param options) = Inr selected"
    and ne: "selected \<noteq> []"
    and size: "lay_header_size (sign_layout (opt_magic options) program_count selected) \<le> 65535"
      "lay_meta_size (sign_layout (opt_magic options) program_count selected) \<le> 65535"
    and version: "self_find_version_records elf program_count (length elf) = Inr version"
    and emit: "sign_emit options elf selected (sign_layout (opt_magic options) program_count selected) version
        = Inr unsealed"
    and ext: "self_extract zlib unsealed = Inr module"
    and out: "copy_bytes unsealed (lay_extended_at (sign_layout (opt_magic options) program_count selected) + 0x20)
        (sha256 module) = Inr out"
    unfolding self_sign_def Let_def sign_elf_def [symmetric]
    by (auto simp: rbind_Inr_iff require_Inr_iff)
  note p = sign_prepared [OF assms(2) check assms(3,4)]
  have "version = version_region elf program_count (length elf)"
    using version find_version_result(1) [OF p(3,4)] by simp
  moreover have "selected = selection elf (opt_include_proc_param options) program_count"
    using select_segments_result [OF select p(3,4)] by simp
  ultimately show ?thesis
    using that sign_state_okI [OF assms(2) check assms(3,4) select ne size]
      sign_check_input_Inr(3) [OF check] p(6) emit ext out
    unfolding signed_as_def by (auto simp: copy_bytes_Inr_iff)
qed

lemma signed_extract:
  assumes "signed_as zlib options elf program_count selected lay unsealed module out"
  shows "self_extract zlib out = Inr module"
    and "module = reassembled elf (opt_include_proc_param options) program_count (lay_version_start lay) out"
    and "self_parse out = Inr (signed_image options elf selected lay (sha256 module))"
    and "length out = sign_total lay (version_region elf program_count (length elf))"
    and "exhibits out (front_ops options elf selected lay @
           back_ops options elf selected lay (version_region elf program_count (length elf)))"
proof -
  let ?version = "version_region elf program_count (length elf)"
  let ?headers = "chunk elf 0 (ph_at program_count)"
  have ok: "sign_state_ok options elf program_count selected ?version"
    and lay: "lay = sign_layout (opt_magic options) program_count selected"
    and sel: "selected = selection elf (opt_include_proc_param options) program_count"
    and magic: "opt_magic options = kMagic \<or> opt_magic options = kAlternateMagic"
    and elf: "module_ok elf program_count"
    and emit: "sign_emit options elf selected lay ?version = Inr unsealed"
    and ext: "self_extract zlib unsealed = Inr module"
    and out: "out = put unsealed (lay_extended_at lay + 0x20) (sha256 module)"
    using assms by (auto simp: signed_as_def)
  note f = sign_layout_facts [OF ok lay] and v = version_start_facts [OF ok lay]
  note x = sign_emit_exhibits [OF ok lay emit, of "sha256 module", simplified]
  have room: "lay_extended_at lay + 0x20 + length (sha256 module) \<le> length unsealed"
    and below: "lay_extended_at lay + 0x20 + length (sha256 module) \<le> lay_version_start lay"
    using x(1) v(3,4,8) f(6) by simp_all
  show len: "length out = sign_total lay ?version" using x(1) room by (simp add: out)
  have shown: "exhibits out (front_ops options elf selected lay @ back_ops options elf selected lay ?version)"
    using x(3) by (simp add: out)
  then show "exhibits out (front_ops options elf selected lay @ back_ops options elf selected lay ?version)" .
  have "chunk out (lay_version_start lay) n = chunk unsealed (lay_version_start lay) n" for n
    using room below by (simp add: out chunk_put_disjoint)
  then have same: "reassembled elf b program_count (lay_version_start lay) out =
      reassembled elf b program_count (lay_version_start lay) unsealed" for b
    by (simp add: reassembled_def Let_def len x(1))
  note eo = extract_signed [OF ok lay sel magic elf x(1) _ refl, of zlib]
    and es = extract_signed [OF ok lay sel magic elf len shown refl, of zlib]
  have un: "exhibits unsealed (front_ops options elf selected lay @ back_ops options elf selected lay ?version)"
    using x(2) by simp
  show "self_extract zlib out = Inr module"
    using ext eo [OF un] es same by simp
  show "module = reassembled elf (opt_include_proc_param options) program_count (lay_version_start lay) out"
    using ext eo [OF un] same by (auto simp: rbind_Inr_iff)
  have "chunk out (lay_extended_at lay + 0x20) 32 = sha256 module"
    using room by (simp add: out chunk_put_same)
  with parse_signed [OF ok lay magic elf len] shown
  show "self_parse out = Inr (signed_image options elf selected lay (sha256 module))" by simp
qed

text \<open>The bytes of a module that a container keeps.\<close>

definition kept :: "bytes \<Rightarrow> bool \<Rightarrow> nat \<Rightarrow> nat \<Rightarrow> bool" where
  "kept elf include_proc_param program_count p \<longleftrightarrow>
     p < ph_at program_count \<or>
     (\<exists>i < program_count. stored_header elf include_proc_param i \<and>
        ph_offset elf i \<le> p \<and> p < ph_offset elf i + ph_size elf i) \<or>
     (\<exists>i. version_header elf program_count = Some i \<and>
        ph_offset elf i \<le> p \<and> p < ph_offset elf i + ph_size elf i)"

lemma in_kept_regions:
  assumes "version_in_file elf program_count"
  shows "in_regions (kept_regions elf include_proc_param program_count) p \<longleftrightarrow>
    kept elf include_proc_param program_count p"
  using assms
  by (auto simp: in_regions_def kept_regions_def kept_def version_regions_def version_region_def
      version_in_file_def selection_def region_of_def split: option.splits)

lemma reassembled_rebuilt:
  assumes "signed_as zlib options elf program_count selected lay unsealed module out"
    and "version_in_file elf program_count"
  shows "module = rebuilt elf (opt_include_proc_param options) program_count"
proof -
  let ?v = "version_region elf program_count (length elf)"
  note s = signed_extract [OF assms(1)]
  have ok: "sign_state_ok options elf program_count selected ?v"
    and lay: "lay = sign_layout (opt_magic options) program_count selected"
    using assms by (auto simp: signed_as_def)
  note v = version_start_facts [OF ok lay]
  have "chunk out (lay_version_start lay) (reg_size ?v) = chunk elf (reg_offset ?v) (reg_size ?v)"
    and "lay_version_start lay + reg_size ?v \<le> length out" if "reg_size ?v \<noteq> 0"
  proof -
    have "(lay_version_start lay, chunk elf (reg_offset ?v) (reg_size ?v)) \<in> set (version_ops elf lay ?v)"
      using that by (simp add: version_ops_def)
    moreover have "exhibits out (version_ops elf lay ?v)" using s(5) by (simp add: back_ops_def)
    ultimately show "chunk out (lay_version_start lay) (reg_size ?v) = chunk elf (reg_offset ?v) (reg_size ?v)"
      and "lay_version_start lay + reg_size ?v \<le> length out"
      using exhibitsD version_region_bounds(1) [of elf program_count "length elf"] v(8) s(4) by fastforce+
  qed
  then show ?thesis
    using s(2) version_region_limits [OF assms(2)]
    by (auto simp: reassembled_def rebuilt_def kept_regions_def version_regions_def Let_def)
qed

lemma rebuilt_bytes:
  assumes "signed_as zlib options elf program_count selected lay unsealed module out"
    and "version_in_file elf program_count" and "b = opt_include_proc_param options"
  shows "length (rebuilt elf b program_count) = module_extent elf program_count"
    and "p < module_extent elf program_count \<Longrightarrow>
      rebuilt elf b program_count ! p = (if kept elf b program_count p then elf ! p else 0)"
proof -
  let ?N = "module_extent elf program_count"
  have ok: "sign_state_ok options elf program_count selected (version_region elf program_count (length elf))"
    and sel: "selected = selection elf b program_count"
    using assms by (auto simp: signed_as_def)
  have sel_ok: "ph_offset elf i + ph_size elf i \<le> length elf"
    if "i < program_count" "stored_header elf b i" for i
    using ok that by (auto simp: sign_state_ok_def sel selection_def selection_ok_def)
  have "\<forall>(o', n) \<in> set (kept_regions elf b program_count).
      o' + n \<le> length elf \<and> o' + n \<le> length (replicate ?N (0 :: u8))"
    using ok sel_ok module_extent_ge version_region_bounds [of elf program_count]
    by (auto simp: kept_regions_def version_regions_def selection_def region_of_def sign_state_ok_def ph_at_def
        simp flip: ph_at_def)
  from overlay_result [OF this] in_kept_regions [OF assms(2)]
  show "length (rebuilt elf b program_count) = ?N"
    and "p < ?N \<Longrightarrow> rebuilt elf b program_count ! p = (if kept elf b program_count p then elf ! p else 0)"
    by (simp_all add: rebuilt_def)
qed

end
