(* ===== verification/Self_Properties.thy ===== *)
theory Self_Properties
  imports Self_Roundtrip
begin

text \<open>
  The promises of the signed-executable container: memory safety of its four operations on
  every input, the round trip through \<open>sign\<close> and \<open>extract\<close>, the digest, the refusal of
  encrypted segments, and what \<open>strip_sections\<close> keeps.
\<close>

section \<open>Memory safety\<close>

lemma safe_is_elf [intro]: "safe (self_is_elf data)"
  unfolding self_is_elf_def by (auto intro!: safe_rbind s32.rd_safe)

lemma safe_is_self [intro]: "safe (self_is_self data)"
  unfolding self_is_self_def by (auto intro!: safe_rbind s32.rd_safe)

lemma safe_read_segment:
  "i < 2 ^ 16 \<Longrightarrow> safe (read_segment data i)"
  unfolding read_segment_def Let_def by (auto intro!: safe_rbind s64.rd_safe)

lemma safe_read_extended_info:
  "holds data \<Longrightarrow> extended_at + 0x40 \<le> length data \<Longrightarrow> safe (read_extended_info data extended_at img)"
  unfolding read_extended_info_def by (auto intro!: safe_rbind s64.rd_safe simp: holds_def)

lemma safe_self_parse:
  assumes "holds data"
  shows "safe (self_parse data)"
proof -
  have count: "unat (c :: u16) < 65536" for c using unat_u16_bound [of c] by simp
  have small: "32 + unat (c :: u16) * 32 + 58 < 2 ^ 64" for c using count [of c] by simp
  show ?thesis
    unfolding self_parse_def Let_def
  proof (intro safe_rbind safe_require safe_is_self s16.rd_safe s32.rd_safe s64.rd_safe safe_rmap
      safe_read_segment)
  qed (use assms count small in \<open>auto simp: res_simps intro!: safe_read_extended_info
        intro: less_trans split: if_splits\<close>)
qed

lemma safe_inflate_segment [intro]: "safe (self_inflate_segment zlib input expected)"
  unfolding self_inflate_segment_def Let_def by (auto intro!: safe_rbind)

lemma safe_find_version_loop:
  assumes "\<And>i. i \<in> set is \<Longrightarrow> i < 2 ^ 16"
  shows "safe (find_version_loop data limit is)"
  using assms
proof (induction "is")
  case (Cons i "is")
  then have "i < 2 ^ 16" and "safe (find_version_loop data limit is)" by simp_all
  then show ?case by (auto intro!: safe_rbind s32.rd_safe s64.rd_safe simp: Let_def)
qed simp

lemma safe_grow_output: "i < 2 ^ 16 \<Longrightarrow> safe (grow_output headers i n)"
  unfolding grow_output_def Let_def by (auto intro!: safe_rbind s64.rd_safe)

lemma self_id_bound: "self_id g < 2 ^ 16"
proof -
  have "drop_bit 20 (seg_flags g) AND 0xffff = take_bit 16 (drop_bit 20 (seg_flags g))"
    by (simp add: take_bit_eq_mask mask_eq_exp_minus_1)
  then have "self_id g = take_bit 16 (unat (drop_bit 20 (seg_flags g)))"
    by (simp only: self_id_def unsigned_take_bit_eq)
  then show ?thesis by (simp only: take_bit_nat_less_exp)
qed

lemma safe_restore_segment: "safe (restore_segment zlib data headers program_count g out)"
  unfolding restore_segment_def Let_def using self_id_bound [of g]
  by (auto intro!: safe_rbind s64.rd_safe simp: res_simps)

lemma safe_restore_version: "safe (restore_version data segments version out)"
  unfolding restore_version_def Let_def by (auto intro!: safe_rbind)

lemma safe_self_extract:
  assumes "holds data"
  shows "safe (self_extract zlib data)"
proof -
  have count: "i < 2 ^ 16" if "i \<in> set [0..<unat (c :: u16)]" for i c
    using that unat_u16_bound [of c] by simp
  show ?thesis
    unfolding self_extract_def Let_def self_find_version_records_def
    by (intro safe_rbind safe_self_parse s16.rd_safe safe_require safe_rfold safe_grow_output
        safe_restore_segment safe_find_version_loop safe_restore_version safe_copy_bytes)
      (use assms count in \<open>auto simp: res_simps\<close>)
qed

lemma safe_normalize_header:
  "0x40 \<le> length elf \<Longrightarrow> safe (self_normalize_header elf)"
  unfolding self_normalize_header_def
  by (auto intro!: safe_rbind s16.wr_safe s16.rd_safe simp: s16.wr_in)

lemma safe_sign_program_count: "safe (sign_program_count elf)"
  unfolding sign_program_count_def by (auto intro!: safe_rbind s16.rd_safe s64.rd_safe)

lemma safe_sign_check_input: "safe (sign_check_input options input)"
  unfolding sign_check_input_def self_is_elf_def
  by (auto intro!: safe_rbind s32.rd_safe simp: res_simps split: if_splits)

lemma safe_select_segments:
  "header_count < 2 ^ 16 \<Longrightarrow> safe (self_select_segments elf 0x40 header_count include_proc_param)"
  unfolding self_select_segments_def select_segment_def Let_def
  by (auto intro!: safe_rfold safe_rbind s32.rd_safe s64.rd_safe)

lemma safe_self_sign:
  assumes "length input < 2 ^ 47"
  shows "safe (self_sign zlib options input)"
  unfolding self_sign_def sign_elf_def [symmetric] Let_def
proof (intro safe_rbind safe_sign_check_input safe_sign_program_count safe_require safe_copy_bytes)
  fix u elf program_count
  assume check: "sign_check_input options input = Inr u"
  note c = sign_check_input_Inr [OF check]
  show "safe (sign_elf options input)" using c(1) by (auto simp: sign_elf_def intro: safe_normalize_header)
  assume elf: "sign_elf options input = Inr elf" and count: "sign_program_count elf = Inr program_count"
  note p = sign_prepared [OF assms check elf count]
  show "safe (self_select_segments elf 0x40 program_count (opt_include_proc_param options))"
    using p(5) by (rule safe_select_segments)
  show "safe (self_find_version_records elf program_count (length elf))"
    using find_version_result(1) [OF p(3,4)] by simp
  fix selected version unit unit'
  assume select: "self_select_segments elf 0x40 program_count (opt_include_proc_param options) = Inr selected"
    and ne: "require (selected \<noteq> []) ''ELF has no loadable segment content'' = Inr unit"
    and size: "require (lay_header_size (sign_layout (opt_magic options) program_count selected) \<le> 65535 \<and>
        lay_meta_size (sign_layout (opt_magic options) program_count selected) \<le> 65535)
        ''container header or metadata exceeds its 16-bit field'' = Inr unit'"
    and version: "self_find_version_records elf program_count (length elf) = Inr version"
  have v: "version = version_region elf program_count (length elf)"
    using version find_version_result(1) [OF p(3,4)] by simp
  have ok: "sign_state_ok options elf program_count selected version"
    unfolding v using ne size
    by (intro sign_state_okI [OF assms check elf count select]) (auto simp: require_Inr_iff)
  show "safe (sign_emit options elf selected (sign_layout (opt_magic options) program_count selected) version)"
    using sign_emit_puts [OF ok refl] by simp
  fix unsealed
  assume "sign_emit options elf selected (sign_layout (opt_magic options) program_count selected) version
      = Inr unsealed"
  from sign_emit_exhibits(1) [OF ok refl this, of "replicate 32 0"] version_start_facts(9) [OF ok refl]
  show "safe (self_extract zlib unsealed)" by (intro safe_self_extract) (simp add: holds_def)
qed

lemma safe_strip_extent:
  assumes "holds elf"
  shows "safe (strip_extent elf program_offset entry_size is acc)"
proof (induction "is" arbitrary: acc)
  case (Cons i "is")
  let ?at = "unat (program_offset + of_nat (i * entry_size))"
  show ?case
  proof (cases "?at + 0x38 \<le> length elf")
    case True
    then have "?at + 0x38 < 2 ^ 64" using assms by (simp add: holds_def)
    then show ?thesis
      using Cons.IH by (auto intro!: safe_rbind s32.rd_safe s64.rd_safe simp: Let_def simp del: of_nat_mult)
  qed (simp add: Let_def)
qed simp

lemma safe_self_strip_sections:
  assumes "holds elf"
  shows "safe (self_strip_sections elf)"
  unfolding self_strip_sections_def Let_def
  by (intro safe_rbind safe_is_elf safe_require s64.rd_safe s16.rd_safe safe_strip_extent s64.wr_safe
      s16.wr_safe) (use assms in simp_all)

section \<open>When \<open>sign\<close> returns a container\<close>

definition ph_flags :: "bytes \<Rightarrow> nat \<Rightarrow> u32" where
  "ph_flags elf i = le_decode (chunk elf (ph_at i + 4) 4)"

text \<open>What \<open>sign\<close> demands of program header \<open>i\<close>.\<close>

definition header_acceptable :: "bytes \<Rightarrow> bool \<Rightarrow> nat \<Rightarrow> bool" where
  "header_acceptable elf include_proc_param i \<longleftrightarrow>
     (ph_size elf i = 0 \<and> ph_type elf i = kPtLoad \<longrightarrow> ph_flags elf i = 0) \<and>
     (stored_header elf include_proc_param i \<longrightarrow> ph_offset elf i + ph_size elf i \<le> length elf)"

lemma select_segment_total:
  assumes "ph_at (Suc i) \<le> length elf" and "ph_at (Suc i) < 2 ^ 63"
  shows "(\<exists>acc'. select_segment elf 0x40 include_proc_param i acc = Inr acc') \<longleftrightarrow>
    header_acceptable elf include_proc_param i"
proof -
  note r = ph_reads [OF assms]
  have flags: "self_read_u32 elf (0x40 + i * 0x38 + 4) = Inr (ph_flags elf i)"
    using assms by (simp add: s32.rd_in ph_flags_def ph_at_def)
  show ?thesis
    unfolding select_segment_def Let_def r(1,3,4) flags rbind_simps
    by (auto simp: ph_size_zero header_acceptable_def stored_header_def stored_type_def res_simps)
qed

lemma select_segments_total:
  assumes "ph_at program_count \<le> length elf" and "ph_at program_count < 2 ^ 63"
  shows "(\<exists>selected. self_select_segments elf 0x40 program_count include_proc_param = Inr selected) \<longleftrightarrow>
    (\<forall>i < program_count. header_acceptable elf include_proc_param i)"
  using assms
proof (induction program_count)
  case (Suc n)
  have "ph_at n \<le> ph_at (Suc n)" by (rule ph_at_mono) simp
  then have IH: "(\<exists>selected. self_select_segments elf 0x40 n include_proc_param = Inr selected) \<longleftrightarrow>
      (\<forall>i < n. header_acceptable elf include_proc_param i)"
    using Suc.prems by (intro Suc.IH) simp_all
  show ?case
    using IH select_segment_total [OF Suc.prems, of include_proc_param]
    unfolding self_select_segments_def by (auto simp: rfold_append res_simps less_Suc_eq)
qed (simp add: self_select_segments_def)

lemma grow_output_total:
  assumes "ph_at program_count \<le> length elf" and "ph_at program_count < 2 ^ 63"
    and "set is \<subseteq> {..<program_count}"
  shows "(\<exists>n. rfold (grow_output (chunk elf 0 (ph_at program_count))) is e = Inr n) \<longleftrightarrow>
    (\<forall>i \<in> set is. ph_offset elf i + ph_size elf i < 2 ^ 64)"
  using assms(3)
proof (induction "is" arbitrary: e)
  case (Cons i "is")
  have "i < program_count" using Cons.prems by simp
  note r = ph_reads_headers [OF assms(1,2) this]
  have "ph_size elf i \<le> 2 ^ 64 - 1 - ph_offset elf i \<longleftrightarrow> ph_offset elf i + ph_size elf i < 2 ^ 64"
    using ph_values_small(1) [of elf i] by auto
  then have "grow_output (chunk elf 0 (ph_at program_count)) i e =
      (if ph_offset elf i + ph_size elf i < 2 ^ 64 then Inr (max e (ph_offset elf i + ph_size elf i))
       else Inl (Runtime ''ELF program header is too large for this host''))"
    unfolding grow_output_def Let_def r rbind_simps by (simp add: require_def)
  with Cons show ?case by simp
qed simp

lemma selection_empty_iff:
  "selection elf include_proc_param program_count = [] \<longleftrightarrow>
     \<not> (\<exists>i < program_count. stored_header elf include_proc_param i)"
  by (auto simp: selection_def filter_empty_conv)

text \<open>The conditions of \<open>sign\<close> on a prepared module, over its program headers.\<close>

definition signable :: "sign_options \<Rightarrow> bytes \<Rightarrow> nat \<Rightarrow> bool" where
  "signable options elf program_count \<longleftrightarrow>
     (let selected = selection elf (opt_include_proc_param options) program_count;
          lay = sign_layout (opt_magic options) program_count selected
      in (\<forall>i < program_count. header_acceptable elf (opt_include_proc_param options) i \<and>
            ph_offset elf i + ph_size elf i < 2 ^ 64) \<and>
         (\<exists>i < program_count. stored_header elf (opt_include_proc_param options) i) \<and>
         lay_header_size lay \<le> 65535 \<and> lay_meta_size lay \<le> 65535)"

lemma sign_total_ok:
  assumes "length input < 2 ^ 47" and "sign_check_input options input = Inr ()"
    and "sign_elf options input = Inr elf" and "sign_program_count elf = Inr program_count"
    and "signable options elf program_count"
  shows "\<exists>out. self_sign zlib options input = Inr out"
proof -
  let ?b = "opt_include_proc_param options" and ?pc = program_count
  let ?sel = "selection elf ?b ?pc"
  let ?lay = "sign_layout (opt_magic options) ?pc ?sel" and ?v = "version_region elf ?pc (length elf)"
  note p = sign_prepared [OF assms(1-4)] and c = sign_check_input_Inr [OF assms(2)]
  have fits: "lay_header_size ?lay \<le> 65535" "lay_meta_size ?lay \<le> 65535" and ne: "?sel \<noteq> []"
    using assms(5) by (auto simp: signable_def Let_def selection_empty_iff)
  have select: "self_select_segments elf 0x40 ?pc ?b = Inr ?sel"
    using select_segments_total [OF p(3,4), of ?b] select_segments_result [OF _ p(3,4), of ?b] assms(5)
    by (auto simp: signable_def Let_def)
  have ok: "sign_state_ok options elf ?pc ?sel ?v"
    using sign_state_okI [OF assms(1-4) select ne fits] .
  obtain unsealed where emit: "sign_emit options elf ?sel ?lay ?v = Inr unsealed"
    using sign_emit_puts [OF ok refl] by simp
  note x = sign_emit_exhibits [OF ok refl emit, of "replicate 32 0", simplified]
  have "\<exists>n. rfold (grow_output (chunk elf 0 (ph_at ?pc))) [0..<?pc] (ph_at ?pc) = Inr n"
    using assms(5) by (subst grow_output_total [OF p(3,4)]) (auto simp: signable_def Let_def)
  then have "\<exists>module. self_extract zlib unsealed = Inr module"
    using extract_signed [OF ok refl refl c(3) p(6) x(1) _ refl, of zlib] x(2) by auto
  then obtain module where ext: "self_extract zlib unsealed = Inr module" ..
  have "lay_extended_at ?lay + 0x40 \<le> length unsealed"
    using version_start_facts(3,4,8) [OF ok refl] sign_layout_facts(6) [OF ok refl] x(1) by simp
  then have "copy_bytes unsealed (lay_extended_at ?lay + 0x20) (sha256 module) =
      Inr (put unsealed (lay_extended_at ?lay + 0x20) (sha256 module))" by simp
  then show ?thesis
    using assms(2-4) select ne fits find_version_result(1) [OF p(3,4)] emit ext
    unfolding self_sign_def sign_elf_def [symmetric] Let_def by simp
qed

lemma sign_ok_signable:
  assumes "length input < 2 ^ 47" and "sign_elf options input = Inr elf"
    and "sign_program_count elf = Inr program_count" and "self_sign zlib options input = Inr out"
  shows "sign_check_input options input = Inr ()" and "signable options elf program_count"
proof -
  let ?b = "opt_include_proc_param options" and ?pc = program_count
  show check: "sign_check_input options input = Inr ()"
    using assms(4) unfolding self_sign_def by (auto simp: rbind_Inr_iff)
  note p = sign_prepared [OF assms(1) check assms(2,3)]
  obtain selected lay unsealed module
    where s: "signed_as zlib options elf ?pc selected lay unsealed module out"
    using sign_resultE [OF assms(4,1,2,3)] .
  have sel: "selected = selection elf ?b ?pc" and lay: "lay = sign_layout (opt_magic options) ?pc selected"
    and ok: "sign_state_ok options elf ?pc selected (version_region elf ?pc (length elf))"
    and magic: "opt_magic options = kMagic \<or> opt_magic options = kAlternateMagic"
    using s by (auto simp: signed_as_def)
  note x = signed_extract [OF s]
  have "\<forall>i < ?pc. ph_offset elf i + ph_size elf i < 2 ^ 64"
    using extract_signed [OF ok lay sel magic p(6) x(4,5) refl, of zlib] x(1)
      grow_output_total [OF p(3,4), of "[0..<?pc]" "ph_at ?pc"]
    by (auto simp: rbind_Inr_iff eq_commute [of "Inr module"] atLeast0LessThan)
  moreover have "\<exists>sel. self_select_segments elf 0x40 ?pc ?b = Inr sel"
    using assms(2-4) unfolding self_sign_def sign_elf_def [symmetric] by (auto simp: rbind_Inr_iff)
  then have "\<forall>i < ?pc. header_acceptable elf ?b i" by (simp add: select_segments_total [OF p(3,4)])
  moreover have "\<exists>i < ?pc. stored_header elf ?b i"
    using ok sel selection_empty_iff [of elf ?b ?pc] by (auto simp: sign_state_ok_def)
  ultimately show "signable options elf ?pc"
    using ok sel by (auto simp: signable_def Let_def sign_state_ok_def)
qed

section \<open>A concrete module\<close>

text \<open>A module of 124 bytes with one loadable segment of four, for the concrete instances below.\<close>

definition sample_elf :: bytes where
  "sample_elf =
     [0x7f, 0x45, 0x4c, 0x46, 2, 1, 1, 0] @ replicate 8 0 @
     [2, 0, 0x3e, 0, 1, 0, 0, 0] @ replicate 8 0 @
     [0x40, 0, 0, 0, 0, 0, 0, 0] @ replicate 8 0 @
     [0, 0, 0, 0, 0x40, 0, 0x38, 0, 1, 0, 0, 0, 0, 0, 0, 0] @
     [1, 0, 0, 0, 5, 0, 0, 0] @ [0x78, 0, 0, 0, 0, 0, 0, 0] @ replicate 16 0 @
     [4, 0, 0, 0, 0, 0, 0, 0] @ [4, 0, 0, 0, 0, 0, 0, 0] @ [16, 0, 0, 0, 0, 0, 0, 0] @
     [1, 2, 3, 4]"

definition no_zlib :: zlib where
  "no_zlib = (\<lambda>_ _ _. \<lparr>z_init_ok = False, z_stream_end = False, z_total_out = 0, z_written = []\<rparr>)"

definition sample_normalized :: bytes where
  "sample_normalized = sample_elf[7 := 9]"

lemma sample_bytes:
  "length sample_elf = 124" "length sample_normalized = 124"
  by (simp_all add: sample_elf_def sample_normalized_def)

lemma sample_checks:
  "length sample_elf < 2 ^ 47"
  "sign_check_input default_options sample_elf = Inr ()"
  "sign_elf default_options sample_elf = Inr sample_normalized"
  "sign_program_count sample_normalized = Inr 1"
proof -
  show "length sample_elf < 2 ^ 47" by (simp add: sample_bytes)
  have "chunk sample_elf 0 4 = [0x7f, 0x45, 0x4c, 0x46]" "sample_elf ! 4 = 2"
    by (simp_all add: sample_elf_def chunk_def)
  then show "sign_check_input default_options sample_elf = Inr ()"
    by (simp add: sign_check_input_def self_is_elf_def s32.rd_in sample_bytes default_options_def)
  have same: "put sample_elf 0x12 (le_encode 2 (0x3e :: u16)) = sample_elf"
    by (simp add: sample_elf_def put_def le_encode_def upt_rec)
  have "sample_elf ! 7 = 0" "chunk sample_normalized 0x10 2 = [2, 0]"
    by (simp_all add: sample_elf_def sample_normalized_def chunk_def)
  then show "sign_elf default_options sample_elf = Inr sample_normalized"
    by (simp add: sign_elf_def default_options_def self_normalize_header_def s16.wr_in s16.rd_in
        sample_bytes same sample_normalized_def [symmetric])
  have "chunk sample_normalized 0x20 8 = [0x40, 0, 0, 0, 0, 0, 0, 0]"
    "chunk sample_normalized 0x36 2 = [0x38, 0]" "chunk sample_normalized 0x38 2 = [1, 0]"
    by (simp_all add: sample_elf_def sample_normalized_def chunk_def)
  then show "sign_program_count sample_normalized = Inr 1"
    by (simp add: sign_program_count_def s16.rd_in s64.rd_in sample_bytes)
qed

lemma sample_header:
  "ph_type sample_normalized 0 = kPtLoad" "ph_offset sample_normalized 0 = 0x78"
  "ph_size sample_normalized 0 = 4"
  by (simp_all add: ph_type_def ph_offset_def ph_size_def ph_at_def sample_elf_def sample_normalized_def
      chunk_def)

lemma sample_selection: "selection sample_normalized False (Suc 0) =
    [\<lparr>sel_header_index = 0, sel_file_offset = 0x78, sel_file_size = 4\<rparr>]"
  by (simp add: selection_def stored_header_def stored_type_def sample_header)

lemma sample_signable: "signable default_options sample_normalized 1"
  by (simp add: signable_def header_acceptable_def stored_header_def stored_type_def sample_header
      sample_selection sample_bytes default_options_def sign_layout_def self_align_up_16
      self_metadata_size_def split: prod.splits)

lemma sample_signed: "\<exists>out. self_sign no_zlib default_options sample_elf = Inr out"
  using sample_checks sample_signable by (rule sign_total_ok)

lemma sample_version: "version_in_file sample_normalized 1"
  by (simp add: version_in_file_def version_header_def sample_header)

section \<open>The segment table\<close>

definition seg_start :: "self_segment \<Rightarrow> nat" where "seg_start g = unat (seg_file_offset g)"

definition seg_end :: "self_segment \<Rightarrow> nat" where
  "seg_end g = unat (seg_file_offset g) + unat (seg_file_size g)"

lemma placed_entries:
  assumes "pl_data_offset p + sel_file_size s < 2 ^ 63"
    and "pl_digest_offset p + pl_digest_size p = pl_data_offset p"
  shows "seg_start (digest_entry i p) = pl_digest_offset p" "seg_end (digest_entry i p) = pl_data_offset p"
    and "seg_start (data_entry s p) = pl_data_offset p"
    and "seg_end (data_entry s p) = pl_data_offset p + sel_file_size s"
  using assms by (simp_all add: seg_start_def seg_end_def digest_entry_def data_entry_def)

text \<open>Consecutive pairs of entries do not overlap.\<close>

lemma place_segments_pairs:
  assumes "\<And>s. s \<in> set ss \<Longrightarrow> sel_file_size s < 2 ^ 47"
    and "c + length ss * step_room < 2 ^ 63"
    and "place_segments c ss = (ps, e)" and "i < j" and "j < length ss"
  shows "pl_data_offset (ps ! i) + sel_file_size (ss ! i) \<le> pl_digest_offset (ps ! j)"
  using assms
proof (induction ss arbitrary: c ps e i j)
  case Nil
  then show ?case by simp
next
  case (Cons s ss)
  let ?d = "self_digest_size (sel_file_size s)"
  let ?c = "self_align_up (c + ?d + sel_file_size s) 16"
  have small: "sel_file_size s < 2 ^ 47" and room: "c + step_room < 2 ^ 63"
    using Cons.prems(1,2) by simp_all
  note step = place_step [OF small room]
  obtain ps' where tail: "place_segments ?c ss = (ps', e)"
    and ps: "ps = \<lparr>pl_digest_offset = c, pl_digest_size = ?d, pl_data_offset = c + ?d\<rparr> # ps'"
    using Cons.prems(3) step by (auto simp: Let_def split: prod.splits)
  have next_room: "?c + length ss * step_room < 2 ^ 63" using step(4) Cons.prems(2) by simp
  have sizes: "\<And>s. s \<in> set ss \<Longrightarrow> sel_file_size s < 2 ^ 47" using Cons.prems(1) by simp
  obtain j' where j: "j = Suc j'" "j' < length ss" using Cons.prems(4,5) by (cases j) auto
  show ?case
  proof (cases i)
    case 0
    have "length ps' = length ss" using place_segments_ok [OF sizes next_room tail] by simp
    then have "(ss ! j', ps' ! j') \<in> set (zip ss ps')" using j(2) by (auto simp: set_zip)
    then have "?c \<le> pl_digest_offset (ps' ! j')"
      using place_segments_ok [OF sizes next_room tail] by auto
    with 0 j ps step(3) show ?thesis by simp
  next
    case (Suc i')
    then have "pl_data_offset (ps' ! i') + sel_file_size (ss ! i') \<le> pl_digest_offset (ps' ! j')"
      using Cons.IH [OF sizes next_room tail] j Cons.prems(4) by simp
    with Suc j ps show ?thesis by simp
  qed
qed

lemma sorted_wrt_pairs:
  assumes "\<And>i. i < n \<Longrightarrow> R (a i) (b i)"
    and "\<And>i j. i < j \<Longrightarrow> j < n \<Longrightarrow> R (a i) (a j) \<and> R (a i) (b j) \<and> R (b i) (a j) \<and> R (b i) (b j)"
  shows "sorted_wrt R (concat (map (\<lambda>i. [a i, b i]) [0..<n]))"
  using assms by (induction n) (auto simp: sorted_wrt_append less_Suc_eq)

lemma signed_table_sorted:
  assumes ok: "sign_state_ok options elf program_count selected version"
    and lay: "lay = sign_layout (opt_magic options) program_count selected"
  shows "sorted_wrt (\<lambda>g g'. seg_end g \<le> seg_start g') (signed_segments selected lay)"
    and "\<forall>g \<in> set (signed_segments selected lay).
      lay_header_size lay + lay_meta_size lay \<le> seg_start g \<and> seg_end g \<le> lay_declared_file_size lay"
proof -
  note f = sign_layout_facts [OF ok lay] and v = version_start_facts [OF ok lay]
  let ?ps = "lay_placements lay"
  have rows: "lay_header_size lay + lay_meta_size lay \<le> pl_digest_offset (?ps ! i) \<and>
      pl_digest_offset (?ps ! i) + pl_digest_size (?ps ! i) = pl_data_offset (?ps ! i) \<and>
      pl_data_offset (?ps ! i) + sel_file_size (selected ! i) \<le> lay_declared_file_size lay"
    if "i < length selected" for i
  proof -
    have "(selected ! i, ?ps ! i) \<in> set (zip selected ?ps)" using that v(1) by (auto simp: set_zip)
    then show ?thesis using v(4,5) by fastforce
  qed
  have e: "seg_start (digest_entry i (?ps ! i)) = pl_digest_offset (?ps ! i)"
    "seg_end (digest_entry i (?ps ! i)) = pl_data_offset (?ps ! i)"
    "seg_start (data_entry (selected ! i) (?ps ! i)) = pl_data_offset (?ps ! i)"
    "seg_end (data_entry (selected ! i) (?ps ! i)) = pl_data_offset (?ps ! i) + sel_file_size (selected ! i)"
    if "i < length selected" for i
    using placed_entries [of "?ps ! i" "selected ! i"] rows [OF that] v(2) by simp_all
  have small: "\<And>s. s \<in> set selected \<Longrightarrow> sel_file_size s < 2 ^ 47" using selection_small [OF ok] by simp
  have pairs: "pl_data_offset (?ps ! i) + sel_file_size (selected ! i) \<le> pl_digest_offset (?ps ! j)"
    if "i < j" "j < length selected" for i j
    by (rule place_segments_pairs [OF small payload_room' [OF ok lay] f(11) that])
  show "sorted_wrt (\<lambda>g g'. seg_end g \<le> seg_start g') (signed_segments selected lay)"
    unfolding signed_segments_def
  proof (rule sorted_wrt_pairs)
    fix i j assume ij: "i < j" "j < length selected"
    then have "i < length selected" by simp
    with ij pairs [OF ij] rows [of i] rows [of j]
    show "seg_end (digest_entry i (?ps ! i)) \<le> seg_start (digest_entry j (?ps ! j)) \<and>
        seg_end (digest_entry i (?ps ! i)) \<le> seg_start (data_entry (selected ! j) (?ps ! j)) \<and>
        seg_end (data_entry (selected ! i) (?ps ! i)) \<le> seg_start (digest_entry j (?ps ! j)) \<and>
        seg_end (data_entry (selected ! i) (?ps ! i)) \<le> seg_start (data_entry (selected ! j) (?ps ! j))"
      by (simp add: e)
  qed (simp add: e)
  show "\<forall>g \<in> set (signed_segments selected lay).
      lay_header_size lay + lay_meta_size lay \<le> seg_start g \<and> seg_end g \<le> lay_declared_file_size lay"
    using rows by (fastforce simp: signed_segments_def e)
qed

section \<open>Encrypted segments\<close>

lemma rfold_member_fails:
  assumes "x \<in> set xs" and "\<And>s t. f x s \<noteq> Inr t"
  shows "rfold f xs s \<noteq> Inr t"
  using assms by (induction xs arbitrary: s) (auto simp: res_simps)

lemma restore_encrypted:
  assumes "self_blocked g" and "self_encrypted g"
  shows "restore_segment zlib data headers program_count g out \<noteq> Inr r"
  using assms by (simp add: restore_segment_def require_def)

section \<open>Stripping\<close>

definition strip_header_at :: "u64 \<Rightarrow> nat \<Rightarrow> nat \<Rightarrow> nat" where
  "strip_header_at program_offset entry_size i = unat (program_offset + of_nat (i * entry_size))"

definition file_end_at :: "bytes \<Rightarrow> nat \<Rightarrow> nat" where
  "file_end_at elf at = unat (le_decode (chunk elf (at + 0x08) 8) :: u64) +
     unat (le_decode (chunk elf (at + 0x20) 8) :: u64)"

lemma strip_extent_result:
  assumes "holds elf" and "strip_extent elf program_offset entry_size is acc = Inr (extent, dynamic)"
  shows "fst acc \<le> extent \<and>
    (\<forall>k < length is. (\<forall>j \<le> k. strip_header_at program_offset entry_size (is ! j) + 0x38 \<le> length elf) \<longrightarrow>
       file_end_at elf (strip_header_at program_offset entry_size (is ! k)) < 2 ^ 64 \<longrightarrow>
       file_end_at elf (strip_header_at program_offset entry_size (is ! k)) \<le> extent)"
  using assms(2)
proof (induction "is" arbitrary: acc)
  case (Cons i "is")
  let ?at = "strip_header_at program_offset entry_size"
  show ?case
  proof (cases "?at i + 0x38 \<le> length elf")
    case True
    then have "?at i + 0x38 < 2 ^ 64" using assms(1) by (simp add: holds_def)
    moreover have "unat a \<le> 2 ^ 64 - 1 - unat b \<longleftrightarrow> unat a + unat b < 2 ^ 64" for a b :: u64
      using unat_u64_bound [of b] by auto
    ultimately obtain acc' where rest: "strip_extent elf program_offset entry_size is acc' = Inr (extent, dynamic)"
      and up: "fst acc \<le> fst acc'" "file_end_at elf (?at i) < 2 ^ 64 \<longrightarrow> file_end_at elf (?at i) \<le> fst acc'"
      using Cons.prems True unfolding strip_extent.simps Let_def strip_header_at_def [symmetric]
      by (auto simp: s32.rd_in s64.rd_in file_end_at_def simp del: of_nat_mult split: if_splits)
    note IH = Cons.IH [OF rest]
    show ?thesis
    proof (intro conjI allI impI)
      fix k assume k: "k < length (i # is)" "\<forall>j \<le> k. ?at ((i # is) ! j) + 0x38 \<le> length elf"
        and wrap: "file_end_at elf (?at ((i # is) ! k)) < 2 ^ 64"
      show "file_end_at elf (?at ((i # is) ! k)) \<le> extent"
      proof (cases k)
        case 0
        then show ?thesis using up IH wrap by simp
      next
        case (Suc k')
        then have "\<forall>j \<le> k'. ?at (is ! j) + 0x38 \<le> length elf" using k(2) by fastforce
        with Suc IH k(1) wrap show ?thesis by simp
      qed
    qed (use up IH in simp)
  next
    case False
    then have "extent = fst acc"
      using Cons.prems by (auto simp: Let_def strip_header_at_def)
    moreover have "\<not> (\<forall>j \<le> k. ?at ((i # is) ! j) + 0x38 \<le> length elf)" for k
      using False by (intro notI) force
    ultimately show ?thesis by blast
  qed
qed simp

lemma strip_writes:
  assumes "0x40 \<le> length d"
  shows "rbind (self_write_u64 d 0x28 0) (\<lambda>output. rbind (self_write_u16 output 0x3a 0) (\<lambda>output.
      rbind (self_write_u16 output 0x3c 0) (\<lambda>output. self_write_u16 output 0x3e 0))) =
    Inr (put (put d 0x28 (replicate 8 0)) 0x3a (replicate 6 0))"
proof -
  have z: "le_encode n (0 :: 'a::len word) = replicate n 0" for n
    by (rule nth_equalityI) simp_all
  let ?a = "put d 0x28 (replicate 8 0)"
  have len: "length ?a = length d" using assms by simp
  have "put (put (put ?a 0x3a (replicate 2 0)) 0x3c (replicate 2 0)) 0x3e (replicate 2 0) =
      put ?a 0x3a (replicate 6 0)"
    using assms by (intro nth_equalityI) (auto simp: nth_put len)
  then show ?thesis using assms by (simp add: s64.wr_in s16.wr_in z len)
qed

section \<open>Properties\<close>



text \<open>C2. The digest a container stores is the SHA-256 of the module that \<open>extract\<close> rebuilds
  from that same container, although it is computed before the digest is stored.\<close>

theorem sign_digest_matches:
  assumes "length input < 2 ^ 47" and "self_sign zlib options input = Inr out"
    and "sign_elf options input = Inr elf" and "sign_program_count elf = Inr program_count"
  shows "\<exists>img module. self_parse out = Inr img \<and> self_extract zlib out = Inr module \<and>
    im_has_extended_info img \<and> im_digest img = sha256 module"
proof -
  obtain selected lay unsealed module
    where s: "signed_as zlib options elf program_count selected lay unsealed module out"
    using sign_resultE [OF assms(2,1,3,4)] .
  show ?thesis using signed_extract(1,3) [OF s] by (simp add: signed_image_def)
qed

theorem sign_digest_matches_witness:
  "\<exists>out img module. self_sign no_zlib default_options sample_elf = Inr out \<and>
     self_parse out = Inr img \<and> self_extract no_zlib out = Inr module \<and> im_digest img = sha256 module"
proof -
  obtain out where out: "self_sign no_zlib default_options sample_elf = Inr out"
    using sample_signed by blast
  show ?thesis using sign_digest_matches [OF sample_checks(1) out sample_checks(3,4)] out by blast
qed

text \<open>C3. On an ELF module that passes its header checks, \<open>sign\<close> returns a container exactly
  when every mapped header stores bytes, every stored header lies in the file, there is one,
  no header's end wraps around, and the container's header and metadata sizes fit their
  16-bit fields.\<close>

theorem sign_returns_iff:
  assumes "length input < 2 ^ 47" and "sign_check_input options input = Inr ()"
    and "sign_elf options input = Inr elf" and "sign_program_count elf = Inr program_count"
  shows "(\<exists>out. self_sign zlib options input = Inr out) \<longleftrightarrow> signable options elf program_count"
  using sign_total_ok [OF assms] sign_ok_signable(2) [OF assms(1,3,4)] by blast

theorem sign_returns_iff_witness:
  "\<exists>out. self_sign no_zlib default_options sample_elf = Inr out"
  using sign_returns_iff [OF sample_checks, of no_zlib] sample_signable by simp

text \<open>\<open>parse\<close> reads back what \<open>sign\<close> was asked to write: the authority and the versions, the
  module's own header table, the sizes, and two table entries for each stored header.\<close>

lemma sign_parse_fields:
  assumes "length input < 2 ^ 47" and "self_sign zlib options input = Inr out"
    and "sign_elf options input = Inr elf" and "sign_program_count elf = Inr program_count"
  shows "\<exists>img. self_parse out = Inr img \<and> im_authority img = opt_authority options \<and>
    im_app_version img = opt_app_version options \<and>
    im_firmware_version img = opt_firmware_version options \<and>
    im_elf_headers img = take (ph_at program_count) elf \<and> im_program_type img = 0x101 \<and>
    unat (im_file_size img) \<le> length out \<and>
    unat (im_header_size img) + unat (im_metadata_size img) \<le> unat (im_file_size img) \<and>
    length (im_segments img) =
      2 * length (filter (stored_header elf (opt_include_proc_param options)) [0..<program_count])"
proof -
  obtain selected lay unsealed module
    where s: "signed_as zlib options elf program_count selected lay unsealed module out"
    using sign_resultE [OF assms(2,1,3,4)] .
  then have ok: "sign_state_ok options elf program_count selected (version_region elf program_count (length elf))"
    and lay: "lay = sign_layout (opt_magic options) program_count selected"
    and sel: "selected = selection elf (opt_include_proc_param options) program_count"
    by (auto simp: signed_as_def)
  note f = sign_layout_facts [OF ok lay] and v = version_start_facts [OF ok lay]
  have "length (signed_segments selected lay) = 2 * length selected"
    by (simp add: signed_segments_def length_concat comp_def sum_list_triv)
  moreover have "chunk elf 0 (lay_elf_headers_size lay) = take (ph_at program_count) elf"
    using f(3) by (simp add: chunk_def ph_at_def)
  ultimately show ?thesis
    using signed_extract(3,4) [OF s] f(7,8) v(2,3,4,8) sel
    by (simp add: signed_image_def selection_def)
qed

text \<open>C4. The regions of a container's segment table follow one another without overlap, after
  the header and the metadata and inside the declared file size.\<close>

theorem sign_table_disjoint:
  assumes "length input < 2 ^ 47" and "self_sign zlib options input = Inr out"
    and "sign_elf options input = Inr elf" and "sign_program_count elf = Inr program_count"
  shows "\<exists>img. self_parse out = Inr img \<and>
    sorted_wrt (\<lambda>g g'. seg_end g \<le> seg_start g') (im_segments img) \<and>
    (\<forall>g \<in> set (im_segments img). unat (im_header_size img) + unat (im_metadata_size img) \<le> seg_start g \<and>
       seg_end g \<le> unat (im_file_size img))"
proof -
  obtain selected lay unsealed module
    where s: "signed_as zlib options elf program_count selected lay unsealed module out"
    using sign_resultE [OF assms(2,1,3,4)] .
  then have ok: "sign_state_ok options elf program_count selected (version_region elf program_count (length elf))"
    and lay: "lay = sign_layout (opt_magic options) program_count selected"
    by (auto simp: signed_as_def)
  show ?thesis
    using signed_extract(3) [OF s] signed_table_sorted [OF ok lay] sign_layout_facts(7,8) [OF ok lay]
      version_start_facts(2) [OF ok lay]
    by (simp add: signed_image_def)
qed

theorem sign_table_disjoint_witness:
  "\<exists>out img. self_sign no_zlib default_options sample_elf = Inr out \<and> self_parse out = Inr img \<and>
     sorted_wrt (\<lambda>g g'. seg_end g \<le> seg_start g') (im_segments img)"
proof -
  obtain out where out: "self_sign no_zlib default_options sample_elf = Inr out"
    using sample_signed by blast
  show ?thesis using sign_table_disjoint [OF sample_checks(1) out sample_checks(3,4)] out by blast
qed

text \<open>A container with an encrypted stored segment is refused: \<open>extract\<close> throws, and never
  returns bytes it could not decrypt.\<close>

lemma extract_refuses_encrypted:
  assumes "holds data" and "self_parse data = Inr img"
    and "g \<in> set (im_segments img)" and "self_blocked g" and "self_encrypted g"
  shows "\<exists>message. self_extract zlib data = Inl (Runtime message)"
proof -
  have "rfold (restore_segment zlib data headers n) (im_segments img) out \<noteq> Inr r" for headers n out r
    by (rule rfold_member_fails [OF assms(3)]) (rule restore_encrypted [OF assms(4,5)])
  then have "self_extract zlib data \<noteq> Inr r" for r
    unfolding self_extract_def Let_def using assms(2) by (auto simp: res_simps)
  moreover have "self_extract zlib data \<noteq> Inl Undefined"
    using safe_self_extract [OF assms(1)] by (simp add: safe_def)
  ultimately show ?thesis by (metis error.exhaust sum.exhaust)
qed

text \<open>A container of one encrypted segment and an ELF header without program headers.\<close>

definition sample_encrypted :: bytes where
  "sample_encrypted =
     [0x54, 0x14, 0xF5, 0xEE] @ replicate 20 0 @ [1, 0] @ replicate 6 0 @
     [2, 8, 0, 0, 0, 0, 0, 0] @ replicate 24 0 @ [0x7f, 0x45, 0x4c, 0x46] @ replicate 60 0"



text \<open>No module makes \<open>sign\<close> touch memory outside its buffers.\<close>

lemma sign_safe:
  assumes "length input < 2 ^ 47"
  shows "safe (self_sign zlib options input)"
  using assms by (rule safe_self_sign)

text \<open>\<open>strip_sections\<close> returns a prefix of the module whose section-table fields are zero
  and nothing else changed, long enough to hold the bytes of every program header that lies
  in the file, as long as the headers before it do too.\<close>

lemma strip_sections_keeps:
  assumes "holds elf" and "self_strip_sections elf = Inr out"
  shows "\<exists>program_offset entry_size count. self_read_u64 elf 0x20 = Inr program_offset \<and>
    self_read_u16 elf 0x36 = Inr entry_size \<and> self_read_u16 elf 0x38 = Inr count \<and>
    0x40 \<le> length out \<and> length out \<le> length elf \<and>
    (\<forall>p < length out. out ! p = (if 0x28 \<le> p \<and> p < 0x30 \<or> 0x3a \<le> p \<and> p < 0x40 then 0 else elf ! p)) \<and>
    (\<forall>i < unat count.
       (\<forall>j \<le> i. strip_header_at program_offset (unat entry_size) j + 0x38 \<le> length elf) \<longrightarrow>
       file_end_at elf (strip_header_at program_offset (unat entry_size) i) \<le> length elf \<longrightarrow>
       file_end_at elf (strip_header_at program_offset (unat entry_size) i) \<le> length out)"
proof -
  from assms(2) obtain po es c extent dynamic where
    elf: "self_is_elf elf = Inr True"
    and reads: "self_read_u64 elf 0x20 = Inr po" "self_read_u16 elf 0x36 = Inr es" "self_read_u16 elf 0x38 = Inr c"
    and loop: "strip_extent elf po (unat es) [0..<unat c]
        (max 0x40 (unat (po + of_nat (unat c * unat es))), False) = Inr (extent, dynamic)"
    and tail: "rbind (self_write_u64 (take (min extent (length elf)) elf) 0x28 0) (\<lambda>output.
        rbind (self_write_u16 output 0x3a 0) (\<lambda>output.
        rbind (self_write_u16 output 0x3c 0) (\<lambda>output. self_write_u16 output 0x3e 0))) = Inr out"
    unfolding self_strip_sections_def Let_def
    by (auto simp: rbind_Inr_iff require_Inr_iff simp del: of_nat_mult)
  have len: "0x40 \<le> length elf" using elf by (auto simp: self_is_elf_def res_simps split: if_splits)
  note ext = strip_extent_result [OF assms(1) loop]
  let ?d = "take (min extent (length elf)) elf"
  have d: "0x40 \<le> length ?d" "length ?d = min extent (length elf)" using ext len by auto
  have out: "out = put (put ?d 0x28 (replicate 8 0)) 0x3a (replicate 6 0)"
    using tail strip_writes [OF d(1)] by simp
  have lo: "length out = min extent (length elf)" using out d by simp
  have "out ! p = (if 0x28 \<le> p \<and> p < 0x30 \<or> 0x3a \<le> p \<and> p < 0x40 then 0 else elf ! p)"
    if "p < length out" for p
    using that d lo unfolding out by (auto simp: nth_put)
  moreover have "file_end_at elf (strip_header_at po (unat es) i) \<le> length out"
    if "i < unat c" "\<forall>j \<le> i. strip_header_at po (unat es) j + 0x38 \<le> length elf"
      "file_end_at elf (strip_header_at po (unat es) i) \<le> length elf" for i
    using ext that lo assms(1) by (auto simp: holds_def)
  ultimately show ?thesis using reads lo d by auto
qed

text \<open>A module whose one program header is a dynamic segment.\<close>

definition sample_dynamic :: bytes where "sample_dynamic = take 0x40 sample_elf @ [2] @ drop 0x41 sample_elf"

end
