(* ===== verification/Elf_Object.thy ===== *)
theory Elf_Object
  imports Byte_Codec
begin

text \<open>
  \<open>tooling/native/elf_object.hpp\<close> and \<open>elf_object.cpp\<close>: the data model of ELF64 objects and
  the three readers the native linker uses, of relocatable objects, of linked shared images
  and of SDK stubs. The names of namespace \<open>ps5::elf\<close> carry the prefix \<open>elf_\<close>. A sum of
  offsets that a range check before it bounds by the buffer's size is written as a plain
  addition; it cannot wrap there. \<open>read_file\<close> is file I/O and is not modelled: the readers
  start from the bytes it returns.
\<close>

section \<open>Data model\<close>

record elf_section =
  sec_name :: string
  sec_type :: u32
  sec_flags :: u64
  sec_address :: u64
  sec_file_offset :: u64
  sec_size :: u64
  sec_link :: u32
  sec_info :: u32
  sec_alignment :: u64
  sec_entry_size :: u64
  sec_data :: bytes

definition elf_allocated :: "elf_section \<Rightarrow> bool" where
  "elf_allocated s \<longleftrightarrow> sec_flags s AND 0x2 \<noteq> 0"

definition elf_executable :: "elf_section \<Rightarrow> bool" where
  "elf_executable s \<longleftrightarrow> sec_flags s AND 0x4 \<noteq> 0"

definition elf_writable :: "elf_section \<Rightarrow> bool" where
  "elf_writable s \<longleftrightarrow> sec_flags s AND 0x1 \<noteq> 0"

definition elf_tls :: "elf_section \<Rightarrow> bool" where
  "elf_tls s \<longleftrightarrow> sec_flags s AND 0x400 \<noteq> 0"

definition elf_no_bits :: "elf_section \<Rightarrow> bool" where
  "elf_no_bits s \<longleftrightarrow> sec_type s = 8"

record elf_symbol =
  sym_name :: string
  sym_info :: u8
  sym_other :: u8
  sym_section :: u16
  sym_value :: u64
  sym_size :: u64

definition elf_binding :: "elf_symbol \<Rightarrow> nat" where
  "elf_binding s = unat (drop_bit 4 (sym_info s))"

definition elf_symbol_type :: "elf_symbol \<Rightarrow> nat" where
  "elf_symbol_type s = unat (sym_info s AND 0xf)"

definition elf_undefined :: "elf_symbol \<Rightarrow> bool" where
  "elf_undefined s \<longleftrightarrow> sym_section s = 0"

definition elf_weak :: "elf_symbol \<Rightarrow> bool" where
  "elf_weak s \<longleftrightarrow> elf_binding s = 2"

definition elf_global_or_weak :: "elf_symbol \<Rightarrow> bool" where
  "elf_global_or_weak s \<longleftrightarrow> elf_binding s = 1 \<or> elf_binding s = 2"

record elf_relocation =
  rel_offset :: u64
  rel_symbol :: u32
  rel_type :: u32
  rel_addend :: int

record elf_object =
  obj_origin :: string
  obj_sections :: "elf_section list"
  obj_symbols :: "elf_symbol list"
  obj_relocations :: "nat \<rightharpoonup> elf_relocation list"

record elf_image =
  img_origin :: string
  img_entry :: u64
  img_sections :: "elf_section list"
  img_dynamic_symbols :: "elf_symbol list"
  img_needed :: "string list"

record elf_stub =
  stub_soname :: string
  stub_module_name :: string
  stub_library_name :: string
  stub_exports :: "string list"

section \<open>Field access\<close>

definition elf_u16 :: "bytes \<Rightarrow> nat \<Rightarrow> u16 res" where
  "elf_u16 = read_pair ''ELF u16 read outside input''"

definition elf_u32 :: "bytes \<Rightarrow> nat \<Rightarrow> u32 res" where
  "elf_u32 = read_le 4 ''ELF u32 read outside input''"

definition elf_u64 :: "bytes \<Rightarrow> nat \<Rightarrow> u64 res" where
  "elf_u64 = read_le 8 ''ELF u64 read outside input''"

interpretation e16: field_read 2 "le_decode :: bytes \<Rightarrow> u16" elf_u16
  by unfold_locales (simp_all add: elf_u16_def read_pair_in read_pair_out)

interpretation e32: field_read 4 "le_decode :: bytes \<Rightarrow> u32" elf_u32
  by unfold_locales (simp_all add: elf_u32_def read_le_in read_le_out)

interpretation e64: field_read 8 "le_decode :: bytes \<Rightarrow> u64" elf_u64
  by unfold_locales (simp_all add: elf_u64_def read_le_in read_le_out)

function string_end :: "bytes \<Rightarrow> nat \<Rightarrow> nat" where
  "string_end table end_at =
     (if end_at < length table \<and> table ! end_at \<noteq> 0 then string_end table (Suc end_at) else end_at)"
  by pat_completeness auto
termination
  by (relation "measure (\<lambda>(table, end_at). length table - end_at)") auto

declare string_end.simps [simp del]

definition elf_string_at :: "bytes \<Rightarrow> nat \<Rightarrow> string res" where
  "elf_string_at table at =
     rbind (require (at < length table \<or> (at = 0 \<and> table = [])) ''ELF string offset outside table'')
       (\<lambda>_. let end_at = string_end table at
            in rbind (require (end_at < length table) ''unterminated ELF string'')
                 (\<lambda>_. Inr (of_bytes (chunk table at (end_at - at)))))"

section \<open>Section headers and symbols\<close>

record raw_section =
  raw_name :: u32
  raw_type :: u32
  raw_flags :: u64
  raw_address :: u64
  raw_offset :: u64
  raw_size :: u64
  raw_link :: u32
  raw_info :: u32
  raw_alignment :: u64
  raw_entry_size :: u64

type_synonym parsed_sections = "raw_section list \<times> string list"

definition read_raw_section :: "bytes \<Rightarrow> nat \<Rightarrow> raw_section res" where
  "read_raw_section data at =
     rbind (elf_u32 data at) (\<lambda>name.
     rbind (elf_u32 data (at + 4)) (\<lambda>type.
     rbind (elf_u64 data (at + 8)) (\<lambda>flags.
     rbind (elf_u64 data (at + 16)) (\<lambda>address.
     rbind (elf_u64 data (at + 24)) (\<lambda>offset.
     rbind (elf_u64 data (at + 32)) (\<lambda>sz.
     rbind (elf_u32 data (at + 40)) (\<lambda>link.
     rbind (elf_u32 data (at + 44)) (\<lambda>info.
     rbind (elf_u64 data (at + 48)) (\<lambda>alignment.
     rbind (elf_u64 data (at + 56)) (\<lambda>entry_size.
     Inr \<lparr>raw_name = name, raw_type = type, raw_flags = flags, raw_address = address,
       raw_offset = offset, raw_size = sz, raw_link = link, raw_info = info,
       raw_alignment = alignment, raw_entry_size = entry_size\<rparr>))))))))))"

definition elf_sections :: "bytes \<Rightarrow> parsed_sections res" where
  "elf_sections data =
     rbind (if 0x40 \<le> length data then rbind (elf_u32 data 0) (\<lambda>m. Inr (m = 0x464c457f)) else Inr False)
       (\<lambda>is_elf.
     rbind (require is_elf ''input is not an ELF file'') (\<lambda>_.
     rbind (elem_at data 4) (\<lambda>cls.
     rbind (elem_at data 5) (\<lambda>order.
     rbind (require (cls = 2 \<and> order = 1) ''only little-endian ELF64 is supported'') (\<lambda>_.
     rbind (elf_u64 data 0x28) (\<lambda>offset.
     rbind (elf_u16 data 0x3a) (\<lambda>entry_size.
     rbind (elf_u16 data 0x3c) (\<lambda>count.
     rbind (elf_u16 data 0x3e) (\<lambda>names_index.
     rbind (require (unat entry_size = 0x40) ''unexpected ELF64 section-header size'') (\<lambda>_.
     rbind (require (count \<noteq> 0 \<and>
              range_ok (unat offset) (unat count * unat entry_size) (length data))
              ''ELF section table overruns input'') (\<lambda>_.
     rbind (require (unat names_index < unat count) ''ELF section-name table index is invalid'') (\<lambda>_.
     rbind (rmap (\<lambda>i. read_raw_section data (unat offset + i * unat entry_size)) [0..<unat count])
       (\<lambda>raw.
     rbind (elem_at raw (unat names_index)) (\<lambda>names.
     rbind (require (range_ok (unat (raw_offset names)) (unat (raw_size names)) (length data))
              ''ELF section-name table overruns input'') (\<lambda>_.
     rbind (subspan data (unat (raw_offset names)) (unat (raw_size names))) (\<lambda>table.
     rbind (rmap (\<lambda>s. elf_string_at table (unat (raw_name s))) raw) (\<lambda>strings.
     Inr (raw, strings))))))))))))))))))"

definition elf_section_data :: "bytes \<Rightarrow> raw_section \<Rightarrow> bytes res" where
  "elf_section_data data s =
     (if raw_type s = 8 then Inr []
      else rbind (require (range_ok (unat (raw_offset s)) (unat (raw_size s)) (length data))
                    ''ELF section overruns input'')
             (\<lambda>_. subspan data (unat (raw_offset s)) (unat (raw_size s))))"

definition read_symbol :: "bytes \<Rightarrow> bytes \<Rightarrow> nat \<Rightarrow> elf_symbol res" where
  "read_symbol strings data at =
     rbind (elf_u32 data at) (\<lambda>name_at.
     rbind (elf_string_at strings (unat name_at)) (\<lambda>name.
     rbind (elem_at data (at + 4)) (\<lambda>info.
     rbind (elem_at data (at + 5)) (\<lambda>other.
     rbind (elf_u16 data (at + 6)) (\<lambda>sect.
     rbind (elf_u64 data (at + 8)) (\<lambda>value.
     rbind (elf_u64 data (at + 16)) (\<lambda>sz.
     Inr \<lparr>sym_name = name, sym_info = info, sym_other = other, sym_section = sect,
       sym_value = value, sym_size = sz\<rparr>)))))))"

definition elf_read_symbols :: "bytes \<Rightarrow> parsed_sections \<Rightarrow> nat \<Rightarrow> elf_symbol list res" where
  "elf_read_symbols data parsed symbol_index =
     rbind (elem_at (fst parsed) symbol_index) (\<lambda>symbols.
     rbind (require (unat (raw_entry_size symbols) = 24 \<and> unat (raw_link symbols) < length (fst parsed))
              ''unsupported ELF symbol table'') (\<lambda>_.
     rbind (elf_section_data data symbols) (\<lambda>table.
     rbind (elem_at (fst parsed) (unat (raw_link symbols))) (\<lambda>link.
     rbind (elf_section_data data link) (\<lambda>strings.
     rmap (read_symbol strings table) (strides 24 (length table)))))))"

text \<open>\<open>std::string::ends_with\<close> and \<open>replace\<close>, \<open>find_last_of\<close> and \<open>substr\<close>.\<close>

definition ends_with :: "string \<Rightarrow> string \<Rightarrow> bool" where
  "ends_with s suffix \<longleftrightarrow> length suffix \<le> length s \<and> drop (length s - length suffix) s = suffix"

definition elf_normalized_soname :: "string \<Rightarrow> string" where
  "elf_normalized_soname name =
     (if ends_with name ''.sprx'' then take (length name - 5) name @ ''.prx'' else name)"

definition elf_module_from_soname :: "string \<Rightarrow> string" where
  "elf_module_from_soname soname =
     (let base = rev (takeWhile (\<lambda>c. c \<noteq> CHR ''/'' \<and> c \<noteq> CHR 0x5C) (rev soname))
      in takeWhile (\<lambda>c. c \<noteq> CHR ''.'') base)"

section \<open>The readers\<close>

definition section_of_raw :: "string \<Rightarrow> raw_section \<Rightarrow> bytes \<Rightarrow> elf_section" where
  "section_of_raw name raw content =
     \<lparr>sec_name = name, sec_type = raw_type raw, sec_flags = raw_flags raw,
      sec_address = raw_address raw, sec_file_offset = raw_offset raw, sec_size = raw_size raw,
      sec_link = raw_link raw, sec_info = raw_info raw,
      sec_alignment = max (raw_alignment raw) 1, sec_entry_size = raw_entry_size raw,
      sec_data = content\<rparr>"

definition read_relocation :: "bytes \<Rightarrow> nat \<Rightarrow> elf_relocation res" where
  "read_relocation table at =
     rbind (elf_u64 table (at + 8)) (\<lambda>info.
     rbind (elf_u64 table at) (\<lambda>offset.
     rbind (elf_u64 table (at + 16)) (\<lambda>addend.
     Inr \<lparr>rel_offset = offset, rel_symbol = ucast (drop_bit 32 info), rel_type = ucast info,
       rel_addend = sint addend\<rparr>)))"

definition first_of_type :: "u32 \<Rightarrow> raw_section list \<Rightarrow> nat" where
  "first_of_type type raw = length (takeWhile (\<lambda>s. raw_type s \<noteq> type) raw)"

definition read_relocation_section ::
    "bytes \<Rightarrow> raw_section list \<Rightarrow> nat \<Rightarrow> raw_section \<Rightarrow>
     (nat \<rightharpoonup> elf_relocation list) \<Rightarrow> (nat \<rightharpoonup> elf_relocation list) res" where
  "read_relocation_section data raws symbol_index raw table =
     (if raw_type raw \<noteq> 4 then Inr table
      else rbind (require (unat (raw_entry_size raw) = 24 \<and> unat (raw_link raw) = symbol_index \<and>
                     unat (raw_info raw) < length raws) ''unsupported ELF relocation section'') (\<lambda>_.
           rbind (elf_section_data data raw) (\<lambda>content.
           rbind (rmap (read_relocation content) (strides 24 (length content))) (\<lambda>entries.
           let old = (case table (unat (raw_info raw)) of None \<Rightarrow> [] | Some rs \<Rightarrow> rs)
           in Inr (table(unat (raw_info raw) \<mapsto> old @ entries))))))"

definition elf_read_object :: "bytes \<Rightarrow> string \<Rightarrow> elf_object res" where
  "elf_read_object data origin =
     rbind (elf_u16 data 0x10) (\<lambda>kind.
     rbind (require (kind = 1) (''link input is not a relocatable ELF: '' @ origin)) (\<lambda>_.
     rbind (elf_sections data) (\<lambda>parsed.
     rbind (rmap (\<lambda>(raw, name). rbind (elf_section_data data raw) (\<lambda>content.
              Inr (section_of_raw name raw content))) (zip (fst parsed) (snd parsed))) (\<lambda>sections.
     let symbol_index = first_of_type 2 (fst parsed)
     in rbind (require (symbol_index < length (fst parsed)) ''relocatable ELF has no symbol table'') (\<lambda>_.
        rbind (elf_read_symbols data parsed symbol_index) (\<lambda>symbols.
        rbind (rfold (read_relocation_section data (fst parsed) symbol_index) (fst parsed) Map.empty)
          (\<lambda>relocations.
        Inr \<lparr>obj_origin = origin, obj_sections = sections, obj_symbols = symbols,
          obj_relocations = relocations\<rparr>)))))))"

fun scan_needed :: "bytes \<Rightarrow> bytes \<Rightarrow> nat list \<Rightarrow> string list \<Rightarrow> string list res" where
  "scan_needed entries strings [] needed = Inr needed"
| "scan_needed entries strings (at # ats) needed =
     rbind (elf_u64 entries at) (\<lambda>tag.
     if tag = 0 then Inr needed
     else if tag = 1 then
       rbind (elf_u64 entries (at + 8)) (\<lambda>value.
       rbind (elf_string_at strings (unat value)) (\<lambda>name.
       scan_needed entries strings ats (needed @ [elf_normalized_soname name])))
     else scan_needed entries strings ats needed)"

definition read_image_section ::
    "bytes \<Rightarrow> parsed_sections \<Rightarrow> nat \<Rightarrow> elf_section list \<times> elf_symbol list \<Rightarrow>
     (elf_section list \<times> elf_symbol list) res" where
  "read_image_section data parsed i acc =
     rbind (elem_at (fst parsed) i) (\<lambda>raw.
     rbind (elem_at (snd parsed) i) (\<lambda>name.
     rbind (elf_section_data data raw) (\<lambda>content.
     let sections = fst acc @ [section_of_raw name raw content]
     in if raw_type raw = 11
        then rbind (elf_read_symbols data parsed i) (\<lambda>symbols. Inr (sections, symbols))
        else Inr (sections, snd acc))))"

definition read_needed ::
    "bytes \<Rightarrow> raw_section list \<Rightarrow> raw_section \<Rightarrow> string list \<Rightarrow> string list res" where
  "read_needed data raws dyn needed =
     (if raw_type dyn \<noteq> 6 then Inr needed
      else rbind (require (unat (raw_link dyn) < length raws \<and> unat (raw_entry_size dyn) = 16)
                    ''linked ELF has an unsupported dynamic table'') (\<lambda>_.
           rbind (elf_section_data data dyn) (\<lambda>entries.
           rbind (elem_at raws (unat (raw_link dyn))) (\<lambda>link.
           rbind (elf_section_data data link) (\<lambda>strings.
           scan_needed entries strings (strides 16 (length entries)) needed)))))"

definition elf_read_image :: "bytes \<Rightarrow> string \<Rightarrow> elf_image res" where
  "elf_read_image data origin =
     rbind (elf_u16 data 0x10) (\<lambda>kind.
     rbind (require (kind = 3) (''link output is not an ELF shared image: '' @ origin)) (\<lambda>_.
     rbind (elf_sections data) (\<lambda>parsed.
     rbind (elf_u64 data 0x18) (\<lambda>entry.
     rbind (rfold (read_image_section data parsed) [0..<length (fst parsed)] ([], [])) (\<lambda>acc.
     rbind (rfold (read_needed data (fst parsed)) (fst parsed) []) (\<lambda>needed.
     rbind (require (snd acc \<noteq> []) (''linked ELF has no dynamic symbol table: '' @ origin)) (\<lambda>_.
     Inr \<lparr>img_origin = origin, img_entry = entry, img_sections = fst acc,
       img_dynamic_symbols = snd acc, img_needed = needed\<rparr>)))))))"

text \<open>The last section of a type, or the section count when there is none.\<close>

definition last_of_type :: "u32 \<Rightarrow> raw_section list \<Rightarrow> nat" where
  "last_of_type type raw =
     fold (\<lambda>i found. if raw_type (raw ! i) = type then i else found) [0..<length raw] (length raw)"

fun scan_soname :: "bytes \<Rightarrow> bytes \<Rightarrow> nat list \<Rightarrow> string \<Rightarrow> string res" where
  "scan_soname entries strings [] soname = Inr soname"
| "scan_soname entries strings (at # ats) soname =
     rbind (elf_u64 entries at) (\<lambda>tag.
     if tag = 0 then Inr soname
     else if tag = 14 then
       rbind (elf_u64 entries (at + 8)) (\<lambda>value.
       rbind (elf_string_at strings (unat value)) (\<lambda>name.
       scan_soname entries strings ats name))
     else scan_soname entries strings ats soname)"

definition elf_read_stub :: "bytes \<Rightarrow> string \<Rightarrow> elf_stub res" where
  "elf_read_stub data origin =
     rbind (elf_sections data) (\<lambda>parsed.
     let raws = fst parsed; symbols_index = last_of_type 11 raws; dynamic_index = last_of_type 6 raws
     in rbind (require (symbols_index < length raws \<and> dynamic_index < length raws)
                 (''SDK stub lacks dynamic metadata: '' @ origin)) (\<lambda>_.
        rbind (elf_read_symbols data parsed symbols_index) (\<lambda>symbols.
        rbind (elem_at raws dynamic_index) (\<lambda>dyn.
        rbind (require (unat (raw_link dyn) < length raws \<and> unat (raw_entry_size dyn) = 16)
                 (''SDK stub has unsupported dynamic table: '' @ origin)) (\<lambda>_.
        rbind (elem_at raws (unat (raw_link dyn))) (\<lambda>link.
        rbind (elf_section_data data link) (\<lambda>strings.
        rbind (elf_section_data data dyn) (\<lambda>entries.
        rbind (scan_soname entries strings (strides 16 (length entries)) '''') (\<lambda>soname.
        rbind (require (soname \<noteq> '''') (''SDK stub has no SONAME: '' @ origin)) (\<lambda>_.
        let name = elf_normalized_soname soname
        in Inr \<lparr>stub_soname = name, stub_module_name = elf_module_from_soname name,
             stub_library_name = elf_module_from_soname name,
             stub_exports = map sym_name (filter (\<lambda>s. \<not> elf_undefined s \<and> elf_global_or_weak s \<and>
               sym_name s \<noteq> '''') symbols)\<rparr>))))))))))"

section \<open>Memory safety\<close>

text \<open>
  No input leads a reader outside its buffers: every read either lies in the buffer or is
  refused with the reader's own exception.
\<close>

lemma safe_subspan: "at + n \<le> length data \<Longrightarrow> safe (subspan data at n)"
  by simp

lemma safe_elem_at: "i < length xs \<Longrightarrow> safe (elem_at xs i)"
  by simp

lemma safe_string_at [intro]: "safe (elf_string_at table at)"
  unfolding elf_string_at_def Let_def by (intro safe_rbind safe_require safe_simps)

lemma safe_read_raw_section:
  "at + 64 < 2 ^ 64 \<Longrightarrow> safe (read_raw_section data at)"
  unfolding read_raw_section_def
  by (intro safe_rbind e32.rd_safe e64.rd_safe safe_simps) simp_all

lemma safe_elf_sections:
  assumes "holds data"
  shows "safe (elf_sections data)"
  unfolding elf_sections_def
proof (intro safe_rbind)
  show "safe (if 0x40 \<le> length data then rbind (elf_u32 data 0) (\<lambda>m. Inr (m = 0x464c457f)) else Inr False)"
    using assms by (auto simp: e32.rd_holds)
qed (use assms in \<open>auto simp: res_simps e32.rd_Inr_iff e64.rd_Inr_iff e16.rd_Inr_iff holds_def
    intro!: safe_rmap safe_read_raw_section e16.rd_safe e64.rd_safe dest!: rmap_length split: if_splits\<close>)

lemma elf_sections_lengths:
  "elf_sections data = Inr (raws, names) \<Longrightarrow> length names = length raws"
  unfolding elf_sections_def by (auto elim!: rbind_InrE dest!: rmap_length)

lemma safe_section_data [intro]: "safe (elf_section_data data s)"
  unfolding elf_section_data_def by (auto intro!: safe_rbind simp: res_simps)

lemma section_data_Inr_iff:
  "elf_section_data data s = Inr content \<longleftrightarrow>
     (if raw_type s = 8 then content = []
      else unat (raw_offset s) + unat (raw_size s) \<le> length data \<and>
           content = chunk data (unat (raw_offset s)) (unat (raw_size s)))"
  by (auto simp: elf_section_data_def res_simps)

lemma section_data_holds:
  "holds data \<Longrightarrow> elf_section_data data s = Inr content \<Longrightarrow> holds content"
  by (auto simp: section_data_Inr_iff holds_def split: if_splits)

lemma safe_read_symbol:
  assumes "holds table" and "at + 24 \<le> length table"
  shows "safe (read_symbol strings table at)"
  unfolding read_symbol_def
  by (intro safe_rbind e16.rd_safe e32.rd_safe e64.rd_safe safe_string_at safe_elem_at safe_simps)
    (use assms in \<open>auto simp: holds_def\<close>)

lemma safe_read_symbols:
  assumes "holds data" and "symbol_index < length (fst parsed)"
  shows "safe (elf_read_symbols data parsed symbol_index)"
  unfolding elf_read_symbols_def
proof (intro safe_rbind safe_rmap safe_read_symbol)
  fix content x at
  assume "elf_section_data data x = Inr content" "at \<in> set (strides 24 (length content))"
  then show "holds content" and "at + 24 \<le> length content"
    using assms(1) section_data_holds strides_bound by auto
qed (use assms in \<open>auto simp: res_simps\<close>)

lemma safe_read_relocation:
  assumes "holds table" and "at + 24 \<le> length table"
  shows "safe (read_relocation table at)"
  unfolding read_relocation_def
  by (intro safe_rbind e64.rd_safe safe_simps) (use assms in \<open>auto simp: holds_def\<close>)

lemma safe_read_relocation_section:
  assumes "holds data"
  shows "safe (read_relocation_section data raws symbol_index raw table)"
  unfolding read_relocation_section_def
  using assms
  by (auto intro!: safe_rbind safe_rmap safe_read_relocation simp: Let_def section_data_holds strides_bound)

lemma first_of_type_bound: "first_of_type type raws \<le> length raws"
  by (simp add: first_of_type_def length_takeWhile_le)

lemma safe_elf_read_object:
  assumes "holds data"
  shows "safe (elf_read_object data origin)"
  unfolding elf_read_object_def Let_def
proof (intro safe_rbind safe_rmap safe_rfold safe_read_relocation_section safe_elf_sections
    safe_read_symbols e16.rd_safe safe_require)
qed (use assms in \<open>auto simp: res_simps intro!: safe_rbind\<close>)

lemma safe_scan_needed:
  assumes "holds entries" and "\<And>at. at \<in> set ats \<Longrightarrow> at + 16 \<le> length entries"
  shows "safe (scan_needed entries strings ats needed)"
  using assms(2)
proof (induction ats arbitrary: needed)
  case (Cons at ats)
  have IH: "safe (scan_needed entries strings ats n)" for n using Cons by simp
  have "at + 16 \<le> length entries" using Cons.prems by simp
  then have "at + 16 < 2 ^ 64" using assms(1) by (simp add: holds_def)
  then show ?case by (auto intro!: safe_rbind e64.rd_safe safe_string_at IH)
qed simp

lemma safe_scan_soname:
  assumes "holds entries" and "\<And>at. at \<in> set ats \<Longrightarrow> at + 16 \<le> length entries"
  shows "safe (scan_soname entries strings ats soname)"
  using assms(2)
proof (induction ats arbitrary: soname)
  case (Cons at ats)
  have IH: "safe (scan_soname entries strings ats n)" for n using Cons by simp
  have "at + 16 \<le> length entries" using Cons.prems by simp
  then have "at + 16 < 2 ^ 64" using assms(1) by (simp add: holds_def)
  then show ?case by (auto intro!: safe_rbind e64.rd_safe safe_string_at IH)
qed simp

lemma safe_read_image_section:
  assumes "holds data" and "i < length (fst parsed)" and "length (snd parsed) = length (fst parsed)"
  shows "safe (read_image_section data parsed i acc)"
  unfolding read_image_section_def Let_def
  using assms by (auto intro!: safe_rbind safe_read_symbols)

lemma safe_read_needed:
  assumes "holds data"
  shows "safe (read_needed data raws dyn needed)"
  unfolding read_needed_def
  using assms by (auto intro!: safe_rbind safe_scan_needed
      simp: res_simps section_data_holds strides_bound)

lemma safe_elf_read_image:
  assumes "holds data"
  shows "safe (elf_read_image data origin)"
  unfolding elf_read_image_def
proof (intro safe_rbind safe_rfold safe_read_needed safe_elf_sections e16.rd_safe safe_require)
  fix parsed i and acc :: "elf_section list \<times> elf_symbol list"
  assume "elf_sections data = Inr parsed" and "i \<in> set [0..<length (fst parsed)]"
  then show "safe (read_image_section data parsed i acc)"
    using assms elf_sections_lengths [of data "fst parsed" "snd parsed"]
    by (intro safe_read_image_section) auto
qed (use assms in \<open>auto intro!: e64.rd_safe\<close>)

lemma last_of_type_bound: "last_of_type type raws \<le> length raws"
proof -
  have "fold (\<lambda>i found. if P i then i else found) xs n \<le> m"
    if "\<forall>i \<in> set xs. i \<le> m" "n \<le> m" for P xs n and m :: nat
    using that by (induction xs arbitrary: n) auto
  then show ?thesis by (simp add: last_of_type_def)
qed

lemma safe_elf_read_stub:
  assumes "holds data"
  shows "safe (elf_read_stub data origin)"
  unfolding elf_read_stub_def Let_def
  by (intro safe_rbind safe_elf_sections safe_read_symbols safe_require safe_elem_at safe_section_data
      safe_scan_soname safe_simps)
    (use assms in \<open>auto simp: res_simps section_data_holds strides_bound\<close>)

section \<open>What the readers return\<close>

lemma string_end_spec:
  "at \<le> string_end table at \<and>
   (\<forall>k. at \<le> k \<and> k < string_end table at \<longrightarrow> k < length table \<and> table ! k \<noteq> 0) \<and>
   (string_end table at < length table \<longrightarrow> table ! string_end table at = 0)"
proof (induction table at rule: string_end.induct)
  case (1 table at)
  show ?case
  proof (cases "at < length table \<and> table ! at \<noteq> 0")
    case True
    with "1.IH" show ?thesis
      by (simp add: string_end.simps [of table at]) (metis Suc_leD le_antisym not_less_eq_eq)
  next
    case False
    then show ?thesis by (auto simp: string_end.simps [of table at])
  qed
qed

lemma string_end_unique:
  assumes "at + n < length table" and "table ! (at + n) = 0" and "\<forall>k < n. table ! (at + k) \<noteq> 0"
  shows "string_end table at = at + n"
proof (rule antisym)
  note spec = string_end_spec [of at table]
  show "string_end table at \<le> at + n"
    using spec assms(2) by (metis le_add1 not_le)
  show "at + n \<le> string_end table at"
  proof (rule ccontr)
    assume "\<not> at + n \<le> string_end table at"
    then have less: "string_end table at < at + n" by simp
    then obtain k where "string_end table at = at + k" "k < n"
      using spec by (metis le_Suc_ex nat_add_left_cancel_less)
    with less spec assms show False by auto
  qed
qed

lemma elf_string_at_iff:
  "elf_string_at table at = Inr s \<longleftrightarrow>
     (\<exists>n. at + n < length table \<and> table ! (at + n) = 0 \<and> (\<forall>k < n. table ! (at + k) \<noteq> 0) \<and>
        s = of_bytes (chunk table at n))"
proof
  assume "elf_string_at table at = Inr s"
  then have "string_end table at < length table"
    and s: "s = of_bytes (chunk table at (string_end table at - at))"
    by (auto simp: elf_string_at_def res_simps Let_def)
  with string_end_spec [of at table]
  show "\<exists>n. at + n < length table \<and> table ! (at + n) = 0 \<and> (\<forall>k < n. table ! (at + k) \<noteq> 0) \<and>
      s = of_bytes (chunk table at n)"
    by (intro exI [of _ "string_end table at - at"]) auto
next
  assume "\<exists>n. at + n < length table \<and> table ! (at + n) = 0 \<and> (\<forall>k < n. table ! (at + k) \<noteq> 0) \<and>
      s = of_bytes (chunk table at n)"
  then obtain n where n: "at + n < length table" "table ! (at + n) = 0"
    "\<forall>k < n. table ! (at + k) \<noteq> 0" "s = of_bytes (chunk table at n)" by blast
  then have "string_end table at = at + n" by (intro string_end_unique) auto
  with n show "elf_string_at table at = Inr s"
    by (simp add: elf_string_at_def)
qed

text \<open>Whether a section of the result holds the bytes of the file that its header names.\<close>

definition section_faithful :: "bytes \<Rightarrow> elf_section \<Rightarrow> bool" where
  "section_faithful data s \<longleftrightarrow>
     1 \<le> unat (sec_alignment s) \<and>
     (if elf_no_bits s then sec_data s = []
      else unat (sec_file_offset s) + unat (sec_size s) \<le> length data \<and>
           sec_data s = chunk data (unat (sec_file_offset s)) (unat (sec_size s)))"

lemma section_of_raw_faithful:
  "elf_section_data data raw = Inr content \<Longrightarrow> section_faithful data (section_of_raw name raw content)"
proof -
  assume "elf_section_data data raw = Inr content"
  moreover have "1 \<le> unat (max (raw_alignment raw) 1)"
    by (metis max.cobounded2 unat_1 word_le_nat_alt)
  ultimately show ?thesis
    by (auto simp: section_faithful_def section_of_raw_def section_data_Inr_iff elf_no_bits_def)
qed

lemma relocation_keys:
  assumes "rfold (read_relocation_section data raws k) xs table = Inr table'"
    and "dom table \<subseteq> {..<length raws}"
  shows "dom table' \<subseteq> {..<length raws}"
  using assms
proof (rule rfold_invariant [where P = "\<lambda>t. dom t \<subseteq> {..<length raws}"])
  fix raw t t' assume t: "dom t \<subseteq> {..<length raws}"
    and step: "read_relocation_section data raws k raw t = Inr t'"
  have "dom t' \<subseteq> dom t \<union> {..<length raws}"
    using step by (auto simp: read_relocation_section_def res_simps Let_def split: if_splits)
  with t show "dom t' \<subseteq> {..<length raws}" by blast
qed

lemma sections_of_object:
  assumes "rmap (\<lambda>(raw, name). rbind (elf_section_data data raw) (\<lambda>content.
      Inr (section_of_raw name raw content))) rows = Inr sections"
  shows "list_all (section_faithful data) sections"
proof -
  have "list_all2 (\<lambda>_ s. section_faithful data s) rows sections"
    using assms unfolding rmap_Inr_iff
    by (rule list_all2_mono) (auto simp: res_simps section_of_raw_faithful split: prod.splits)
  then show ?thesis by (auto simp: list_all2_conv_all_nth list_all_length)
qed

lemma elf_read_object_sections:
  assumes "elf_read_object data origin = Inr obj"
  shows "list_all (section_faithful data) (obj_sections obj)"
    and "dom (obj_relocations obj) \<subseteq> {..<length (obj_sections obj)}"
proof -
  obtain parsed sections index relocations where
    parsed: "elf_sections data = Inr parsed" and
    sections: "rmap (\<lambda>(raw, name). rbind (elf_section_data data raw) (\<lambda>content.
      Inr (section_of_raw name raw content))) (zip (fst parsed) (snd parsed)) = Inr sections" and
    rel: "rfold (read_relocation_section data (fst parsed) index) (fst parsed) Map.empty = Inr relocations" and
    obj: "obj_sections obj = sections" "obj_relocations obj = relocations"
    using assms unfolding elf_read_object_def Let_def by (auto elim!: rbind_InrE)
  show "list_all (section_faithful data) (obj_sections obj)"
    using sections_of_object [OF sections] obj by simp
  have "length sections = length (fst parsed)"
    using rmap_length [OF sections] elf_sections_lengths [of data "fst parsed" "snd parsed"] parsed by simp
  then show "dom (obj_relocations obj) \<subseteq> {..<length (obj_sections obj)}"
    using relocation_keys [OF rel] obj by simp
qed

lemma normalized_soname_suffix: "\<not> ends_with (elf_normalized_soname name) ''.sprx''"
proof (cases "ends_with name ''.sprx''")
  case True
  let ?n = "take (length name - 5) name @ ''.prx''"
  have "\<not> ends_with ?n ''.sprx''"
  proof
    assume "ends_with ?n ''.sprx''"
    then have d: "drop (length ?n - 5) ?n = ''.sprx''" and l: "5 \<le> length ?n"
      by (simp_all add: ends_with_def)
    have "drop (length ?n - 4) ?n = drop 1 (drop (length ?n - 5) ?n)" using l by simp
    also have "\<dots> = ''sprx''" unfolding d by simp
    finally have "drop (length ?n - 4) ?n = ''sprx''" .
    moreover have "drop (length ?n - 4) ?n = ''.prx''" by simp
    ultimately show False by simp
  qed
  with True show ?thesis by (simp add: elf_normalized_soname_def)
qed (simp add: elf_normalized_soname_def)

lemma module_from_soname_plain:
  "set (elf_module_from_soname soname) \<inter> {CHR ''/'', CHR 0x5C, CHR ''.''} = {}"
  by (auto simp: elf_module_from_soname_def Let_def dest!: set_takeWhileD)

section \<open>Properties\<close>



end
