(* ===== verification/Module_Writer.thy ===== *)
theory Module_Writer
  imports Elf_Object Hash
begin

text \<open>
  \<open>tooling/native/sce_module_writer.cpp\<close>: turns the image that the linker produced into the
  loader-visible executable. Addresses and file offsets are 64-bit words and wrap as the
  code's do; a \<open>const Stub *\<close> is the index of the stub in the span the caller passes, so two
  pointers are equal exactly when the indices are. Helpers that another file of the tooling
  also defines carry the prefix \<open>mod_\<close>.
\<close>

section \<open>Alignment\<close>

abbreviation (input) kPage :: u64 where "kPage \<equiv> 0x4000"

definition mod_align_up :: "u64 \<Rightarrow> u64 \<Rightarrow> u64" where
  "mod_align_up value alignment =
     (if alignment \<le> 1 then value else (value + alignment - 1) div alignment * alignment)"

definition congruent_offset :: "u64 \<Rightarrow> u64 \<Rightarrow> u64" where
  "congruent_offset minimum address =
     (let residue = address mod kPage
      in if minimum \<le> residue then residue
         else mod_align_up (minimum - residue) kPage + residue)"

section \<open>Fields\<close>

definition mod_write_u16 :: "bytes \<Rightarrow> nat \<Rightarrow> u16 \<Rightarrow> bytes res" where
  "mod_write_u16 = write_pair ''u16 write outside output''"

definition mod_write_u32 :: "bytes \<Rightarrow> nat \<Rightarrow> u32 \<Rightarrow> bytes res" where
  "mod_write_u32 = write_le 4 ''u32 write outside output''"

definition mod_write_u64 :: "bytes \<Rightarrow> nat \<Rightarrow> u64 \<Rightarrow> bytes res" where
  "mod_write_u64 = write_le 8 ''u64 write outside output''"

definition mod_read_u32 :: "bytes \<Rightarrow> nat \<Rightarrow> u32 res" where
  "mod_read_u32 = read_le 4 ''u32 read outside input''"

definition mod_read_u64 :: "bytes \<Rightarrow> nat \<Rightarrow> u64 res" where
  "mod_read_u64 = read_le 8 ''u64 read outside input''"

text \<open>The file has no \<open>read_u16\<close>; the ELF reader's decodes what \<open>write_u16\<close> writes.\<close>

interpretation m16: field_access 2 "le_decode :: bytes \<Rightarrow> u16" elf_u16 "le_encode 2" mod_write_u16
  by unfold_locales
    (simp_all add: elf_u16_def mod_write_u16_def read_pair_in read_pair_out write_pair_in
      write_pair_out le_decode_encode)

interpretation m32: field_access 4 "le_decode :: bytes \<Rightarrow> u32" mod_read_u32 "le_encode 4" mod_write_u32
  by unfold_locales
    (simp_all add: mod_read_u32_def mod_write_u32_def read_le_in read_le_out write_le_in
      write_le_out le_decode_encode)

interpretation m64: field_access 8 "le_decode :: bytes \<Rightarrow> u64" mod_read_u64 "le_encode 8" mod_write_u64
  by unfold_locales
    (simp_all add: mod_read_u64_def mod_write_u64_def read_le_in read_le_out write_le_in
      write_le_out le_decode_encode)

section \<open>Sections by name\<close>

definition mod_section :: "elf_image \<Rightarrow> string \<Rightarrow> elf_section res" where
  "mod_section img name =
     (case find (\<lambda>s. sec_name s = name) (img_sections img) of
        None \<Rightarrow> Inl (Runtime (''LLVM-linked image lacks required section '' @ name))
      | Some s \<Rightarrow> Inr s)"

definition optional_section :: "elf_image \<Rightarrow> string \<Rightarrow> elf_section option" where
  "optional_section img name = find (\<lambda>s. sec_name s = name) (img_sections img)"

definition starts_with :: "string \<Rightarrow> string \<Rightarrow> bool" where
  "starts_with name prefix \<longleftrightarrow> take (length prefix) name = prefix"

definition metadata_section :: "string \<Rightarrow> bool" where
  "metadata_section name \<longleftrightarrow>
     name = ''.dynstr'' \<or> name = ''.dynsym'' \<or> name = ''.dynamic'' \<or> name = ''.hash'' \<or>
     name = ''.gnu.hash'' \<or> starts_with name ''.rela.''"

definition relro_section :: "string \<Rightarrow> bool" where
  "relro_section name \<longleftrightarrow>
     name = ''.got'' \<or> name = ''.got.plt'' \<or> starts_with name ''.data.rel.ro'' \<or>
     starts_with name ''.preinit_array'' \<or> starts_with name ''.init_array'' \<or>
     starts_with name ''.fini_array''"

section \<open>Names\<close>

definition id_alphabet :: string where
  "id_alphabet = ''ABCDEFGHIJKLMNOPQRSTUVWXYZabcdefghijklmnopqrstuvwxyz0123456789+-''"

function encode_id_loop :: "int \<Rightarrow> string \<Rightarrow> string" where
  "encode_id_loop ident output =
     (if 0 < ident then encode_id_loop (ident div 64) (id_alphabet ! nat (ident mod 64) # output) else output)"
  by auto
termination by (relation "measure (\<lambda>(ident, _). nat ident)") auto

declare encode_id_loop.simps [simp del]

definition encode_id :: "int \<Rightarrow> string" where
  "encode_id ident = (if ident = 0 then ''A'' else encode_id_loop ident [])"

definition nid_suffix :: bytes where
  "nid_suffix = [0x51, 0x8d, 0x64, 0xa6, 0x35, 0xde, 0xd8, 0xc1, 0xe6, 0xb0, 0x39, 0xb1, 0xc3, 0xe5,
     0x52, 0x30]"

definition base64 :: string where
  "base64 = ''ABCDEFGHIJKLMNOPQRSTUVWXYZabcdefghijklmnopqrstuvwxyz0123456789+/''"

text \<open>The inner loop: six bits a turn while there are six and the name is short.\<close>

function nid_emit :: "u32 \<Rightarrow> nat \<Rightarrow> string \<Rightarrow> nat \<times> string" where
  "nid_emit bits bit_count result =
     (if 6 \<le> bit_count \<and> length result < 11
      then nid_emit bits (bit_count - 6)
             (result @ [base64 ! unat (drop_bit (bit_count - 6) bits AND 0x3f)])
      else (bit_count, result))"
  by auto
termination by (relation "measure (\<lambda>(_, n, _). n)") auto

declare nid_emit.simps [simp del]

definition nid_byte :: "u8 \<Rightarrow> u32 \<times> nat \<times> string \<Rightarrow> u32 \<times> nat \<times> string" where
  "nid_byte byte state =
     (case state of (bits, bit_count, result) \<Rightarrow>
        let bits = push_bit 8 bits OR ucast byte;
            (bit_count, result) = nid_emit bits (bit_count + 8) result
        in (bits, bit_count, result))"

text \<open>\<open>resize(11)\<close>: cut, or filled with NUL characters.\<close>

definition resize :: "nat \<Rightarrow> 'a \<Rightarrow> 'a list \<Rightarrow> 'a list" where
  "resize n x xs = take n xs @ replicate (n - length xs) x"

definition nid :: "string \<Rightarrow> string" where
  "nid name =
     (let digest = sha1 (to_bytes name @ nid_suffix);
          value = rev (take 8 digest);
          (bits, bit_count, result) = fold nid_byte value (0, 0, []);
          result = (if length result < 11 \<and> 0 < bit_count \<and> bit_count < 6
                    then result @ [base64 ! unat (push_bit (6 - bit_count) bits AND 0x3f)] else result)
      in map (\<lambda>c. if c = CHR ''/'' then CHR ''-'' else c) (resize 11 (CHR 0x00) result))"

text \<open>The string table: its bytes, and where each string of it starts.\<close>

record string_table =
  st_data :: bytes
  st_offsets :: "string \<rightharpoonup> u32"

definition st_new :: string_table where
  "st_new = \<lparr>st_data = [0], st_offsets = Map.empty\<rparr>"

definition st_add :: "string_table \<Rightarrow> string \<Rightarrow> u32 \<times> string_table" where
  "st_add table value =
     (case st_offsets table value of
        Some offset \<Rightarrow> (offset, table)
      | None \<Rightarrow> let offset = of_nat (length (st_data table))
                in (offset, \<lparr>st_data = st_data table @ to_bytes value @ [0],
                             st_offsets = (st_offsets table)(value \<mapsto> offset)\<rparr>))"

definition elf_hash_step :: "u32 \<Rightarrow> u8 \<Rightarrow> u32" where
  "elf_hash_step hash character =
     (let hash = push_bit 4 hash + ucast character;
          carry = hash AND 0xf0000000;
          hash = (if carry \<noteq> 0 then hash XOR drop_bit 24 carry else hash)
      in hash AND NOT carry)"

definition elf_hash :: "string \<Rightarrow> u32" where
  "elf_hash name = foldl elf_hash_step 0 (to_bytes name)"

definition hash_insert :: "string list \<Rightarrow> nat \<Rightarrow> bytes \<Rightarrow> bytes res" where
  "hash_insert names i output =
     (let count = length names; chains = 8 + count * 4;
          bucket = unat (elf_hash (names ! i)) mod count
      in rbind (mod_read_u32 output (8 + bucket * 4)) (\<lambda>previous.
         rbind (mod_write_u32 output (chains + i * 4) previous) (\<lambda>output.
         mod_write_u32 output (8 + bucket * 4) (of_nat i))))"

definition build_sysv_hash :: "string list \<Rightarrow> bytes res" where
  "build_sysv_hash names =
     rbind (require (names \<noteq> []) ''dynamic symbol table cannot be empty'') (\<lambda>_.
     let count = length names; output = replicate (8 + count * 8) 0
     in rbind (mod_write_u32 output 0 (of_nat count)) (\<lambda>output.
        rbind (mod_write_u32 output 4 (of_nat count)) (\<lambda>output.
        rfold (hash_insert names) (rev [1..<count]) output)))"

section \<open>Fixed blocks\<close>

text \<open>\<open>std::copy\<close> to an output position, which the code does not check.\<close>

definition copy_raw :: "bytes \<Rightarrow> nat \<Rightarrow> bytes \<Rightarrow> bytes res" where
  "copy_raw target at source =
     (if at + length source \<le> length target then Inr (put target at source) else Inl Undefined)"

definition build_process_parameters :: "u32 \<Rightarrow> u32 \<Rightarrow> bytes res" where
  "build_process_parameters module_sdk companion_sdk =
     rbind (mod_write_u64 (replicate 0x60 0) 0 0x60) (\<lambda>output.
     rbind (set_byte output 8 0x4f) (\<lambda>output.
     rbind (set_byte output 9 0x52) (\<lambda>output.
     rbind (set_byte output 10 0x42) (\<lambda>output.
     rbind (set_byte output 11 0x49) (\<lambda>output.
     rbind (mod_write_u32 output 0x0c 5) (\<lambda>output.
     rbind (mod_write_u32 output 0x10 companion_sdk) (\<lambda>output.
     rbind (mod_write_u32 output 0x14 module_sdk) (\<lambda>output.
     mod_write_u32 output 0x58 1))))))))"

record parameter_blocks =
  pb_data :: bytes
  pb_offsets :: "nat list"
  pb_heap_size :: nat
  pb_heap_extended :: nat

definition block_sizes :: "nat list" where
  "block_sizes = [0xa8, 0x38, 0x10, 0x78, 0xc0, 0x38]"

definition block_counts :: "u64 list" where
  "block_counts = [0x000000010000000e, 0, 0, 2, 3, 1]"

fun block_offsets_from :: "nat \<Rightarrow> nat list \<Rightarrow> nat list \<times> nat" where
  "block_offsets_from cursor [] = ([], cursor)"
| "block_offsets_from cursor (n # ns) =
     (let (rest, end_at) = block_offsets_from (cursor + n) ns in (cursor # rest, end_at))"

definition write_block :: "nat \<times> nat \<times> u64 \<Rightarrow> bytes \<Rightarrow> bytes res" where
  "write_block row output =
     (case row of (offset, sz, count) \<Rightarrow>
        rbind (mod_write_u64 output offset (of_nat sz)) (\<lambda>output.
        if count \<noteq> 0 then mod_write_u64 output (offset + 8) count else Inr output))"

definition build_parameter_blocks :: "parameter_blocks res" where
  "build_parameter_blocks =
     (let (offsets, cursor) = block_offsets_from 0 block_sizes
      in rbind (rfold write_block (zip offsets (zip block_sizes block_counts))
                  (replicate (cursor + 16) 0)) (\<lambda>output.
         rbind (mod_write_u64 output cursor 0xffffffffffffffff) (\<lambda>output.
         rbind (mod_write_u32 output (cursor + 8) 1) (\<lambda>output.
         Inr \<lparr>pb_data = output, pb_offsets = offsets, pb_heap_size = cursor,
              pb_heap_extended = cursor + 8\<rparr>))))"

definition build_note :: "bytes res" where
  "build_note =
     rbind (mod_write_u32 (replicate 0x24 0) 0 4) (\<lambda>output.
     rbind (mod_write_u32 output 4 0x14) (\<lambda>output.
     rbind (mod_write_u32 output 8 3) (\<lambda>output.
     rbind (set_byte output 12 0x47) (\<lambda>output.
     rbind (set_byte output 13 0x4e) (\<lambda>output.
     set_byte output 14 0x55)))))"

definition build_tail_note :: "bytes res" where
  "build_tail_note =
     rbind (mod_write_u32 (replicate 0x18 0) 0 4) (\<lambda>output.
     rbind (mod_write_u32 output 4 8) (\<lambda>output.
     rbind (mod_write_u32 output 8 3) (\<lambda>output.
     rbind (set_byte output 12 0x53) (\<lambda>output.
     rbind (set_byte output 13 0x49) (\<lambda>output.
     set_byte output 14 0x45)))))"

definition build_comment :: "string \<Rightarrow> bytes res" where
  "build_comment file_name =
     (let text = to_bytes file_name @ [0];
          sz = unat (mod_align_up (of_nat (12 + length text)) 4);
          output = replicate sz 0
      in rbind (set_byte output 0 0x50) (\<lambda>output.
         rbind (set_byte output 1 0x41) (\<lambda>output.
         rbind (set_byte output 2 0x54) (\<lambda>output.
         rbind (set_byte output 3 0x48) (\<lambda>output.
         rbind (mod_write_u32 output 4 (of_nat sz - 8)) (\<lambda>output.
         rbind (mod_write_u32 output 8 (of_nat (length text))) (\<lambda>output.
         copy_bytes output 12 text)))))))"

definition write_u32_be :: "bytes \<Rightarrow> nat \<Rightarrow> u32 \<Rightarrow> bytes res" where
  "write_u32_be data at value =
     rbind (require (sz_add at 4 \<le> length data) ''big-endian write outside output'') (\<lambda>_.
     rbind (set_byte data at (ucast (drop_bit 24 value))) (\<lambda>data.
     rbind (set_byte data (sz_add at 1) (ucast (drop_bit 16 value))) (\<lambda>data.
     rbind (set_byte data (sz_add at 2) (ucast (drop_bit 8 value))) (\<lambda>data.
     set_byte data (sz_add at 3) (ucast value)))))"

definition write_version_words :: "u32 \<Rightarrow> nat \<Rightarrow> nat \<Rightarrow> bytes \<Rightarrow> bytes res" where
  "write_version_words module_sdk first i output =
     (let at = first + i * 8
      in rbind (write_u32_be output at module_sdk) (\<lambda>output.
         write_u32_be output (at + 4) 1))"

definition append_version :: "u32 \<Rightarrow> string \<Rightarrow> bytes \<Rightarrow> bytes res" where
  "append_version module_sdk component output =
     (let name = to_bytes (component @ '':'');
          body = 1 + length name + 16;
          start = length output;
          output = output @ replicate (4 + body) 0
      in rbind (mod_write_u16 output (start + 2) (of_nat body)) (\<lambda>output.
         rbind (set_byte output (start + 4) 8) (\<lambda>output.
         rbind (copy_raw output (start + 5) name) (\<lambda>output.
         rfold (write_version_words module_sdk (start + 5 + length name)) [0..<2] output))))"

definition build_version :: "string list \<Rightarrow> u32 \<Rightarrow> bytes res" where
  "build_version components module_sdk = rfold (append_version module_sdk) components []"

section \<open>Dynamic metadata\<close>

record import_entry =
  imp_plain :: string
  imp_provider :: nat
  imp_module_id :: int
  imp_library_id :: int
  imp_dynamic_symbol :: u32
  imp_mangled :: string

record module_record =
  mr_id :: int
  mr_soname :: u32
  mr_module_name :: u32

record library_record =
  lr_id :: int
  lr_module_id :: int
  lr_name :: u32

record dynamic_relocation =
  dr_offset :: u64
  dr_info :: u64
  dr_addend :: u64

definition read_dynamic_relocation :: "bytes \<Rightarrow> nat \<Rightarrow> dynamic_relocation res" where
  "read_dynamic_relocation data at =
     rbind (mod_read_u64 data at) (\<lambda>offset.
     rbind (mod_read_u64 data (at + 8)) (\<lambda>info.
     rbind (mod_read_u64 data (at + 16)) (\<lambda>addend.
     Inr \<lparr>dr_offset = offset, dr_info = info, dr_addend = addend\<rparr>)))"

definition read_relocations :: "elf_section option \<Rightarrow> dynamic_relocation list res" where
  "read_relocations input =
     (case input of
        None \<Rightarrow> Inr []
      | Some s \<Rightarrow>
          rbind (require (sec_entry_size s = 24 \<and> length (sec_data s) mod 24 = 0)
                   ''LLVM relocation table has an unsupported layout'') (\<lambda>_.
          rmap (read_dynamic_relocation (sec_data s)) (strides 24 (length (sec_data s)))))"

definition write_relocation :: "nat \<times> dynamic_relocation \<Rightarrow> bytes \<Rightarrow> bytes res" where
  "write_relocation row output =
     (case row of (i, r) \<Rightarrow>
        rbind (mod_write_u64 output (i * 24) (dr_offset r)) (\<lambda>output.
        rbind (mod_write_u64 output (i * 24 + 8) (dr_info r)) (\<lambda>output.
        mod_write_u64 output (i * 24 + 16) (dr_addend r))))"

definition write_relocations :: "dynamic_relocation list \<Rightarrow> bytes res" where
  "write_relocations relocations =
     rfold write_relocation (zip [0..<length relocations] relocations)
       (replicate (length relocations * 24) 0)"

fun dynamic_scan :: "bytes \<Rightarrow> u64 \<Rightarrow> nat list \<Rightarrow> u64 res" where
  "dynamic_scan data wanted [] = Inr 0"
| "dynamic_scan data wanted (at # ats) =
     rbind (mod_read_u64 data at) (\<lambda>tag.
     if tag = wanted then mod_read_u64 data (at + 8)
     else if tag = 0 then Inr 0
     else dynamic_scan data wanted ats)"

definition dynamic_value :: "elf_section \<Rightarrow> u64 \<Rightarrow> u64 res" where
  "dynamic_value dyn wanted =
     rbind (require (sec_entry_size dyn = 16 \<and> length (sec_data dyn) mod 16 = 0)
              ''LLVM dynamic table has an unsupported layout'') (\<lambda>_.
     dynamic_scan (sec_data dyn) wanted (strides 16 (length (sec_data dyn))))"

text \<open>The scalar arguments of \<open>build_dynamic\<close>.\<close>

record dynamic_args =
  da_module_info_name :: u32
  da_original_file_name :: u32
  da_symbol_table :: u64
  da_string_table :: u64
  da_string_size :: u64
  da_hash_table :: u64
  da_hash_size :: u64
  da_jump_relocations :: u64
  da_jump_relocations_size :: u64
  da_got :: u64
  da_symbol_table_size :: u64
  da_relocations :: u64
  da_relocations_size :: u64
  da_relative_count :: u64
  da_preinit :: u64
  da_preinit_size :: u64
  da_init_array :: u64
  da_init_array_size :: u64
  da_fini_array :: u64
  da_fini_array_size :: u64
  da_init :: u64
  da_fini :: u64

definition library_entries :: "module_record \<Rightarrow> library_record list \<Rightarrow> (u64 \<times> u64) list" where
  "library_entries m libraries =
     concat (map (\<lambda>library.
       if lr_module_id library \<noteq> mr_id m then []
       else [(0x61000049, ucast (lr_name library) OR push_bit 32 1 OR
                push_bit 48 (of_int (lr_id library))),
             (0x61000019, push_bit 48 (of_int (lr_id library)) OR 9)]) libraries)"

definition module_entries :: "library_record list \<Rightarrow> module_record \<Rightarrow> (u64 \<times> u64) list" where
  "module_entries libraries m =
     [(1, ucast (mr_soname m)),
      (0x61000045, ucast (mr_module_name m) OR push_bit 32 1 OR push_bit 48 (of_int (mr_id m)))] @
     library_entries m libraries"

definition fixed_entries :: "dynamic_args \<Rightarrow> (u64 \<times> u64) list" where
  "fixed_entries a =
     [(0x61000043, ucast (da_module_info_name a) OR push_bit 32 1),
      (0x61000011, 0),
      (0x61000041, ucast (da_original_file_name a)),
      (21, 0),
      (7, da_relocations a),
      (8, da_relocations_size a),
      (9, 24),
      (0x6ffffff9, da_relative_count a),
      (23, da_jump_relocations a),
      (2, da_jump_relocations_size a),
      (3, da_got a),
      (20, 7),
      (6, da_symbol_table a),
      (11, 24),
      (5, da_string_table a),
      (10, da_string_size a),
      (4, da_hash_table a),
      (32, da_preinit a),
      (33, da_preinit_size a),
      (25, da_init_array a),
      (27, da_init_array_size a),
      (26, da_fini_array a),
      (28, da_fini_array_size a),
      (12, da_init a),
      (13, da_fini a),
      (0x6100003f, da_symbol_table_size a),
      (0x6100003d, da_hash_size a),
      (0, 0)]"

definition write_dynamic_entry :: "nat \<times> u64 \<times> u64 \<Rightarrow> bytes \<Rightarrow> bytes res" where
  "write_dynamic_entry row output =
     (case row of (i, tag, value) \<Rightarrow>
        rbind (mod_write_u64 output (i * 16) tag) (\<lambda>output.
        mod_write_u64 output (i * 16 + 8) value))"

definition build_dynamic ::
    "module_record list \<Rightarrow> library_record list \<Rightarrow> dynamic_args \<Rightarrow> bytes res" where
  "build_dynamic modules libraries a =
     (let entries = concat (map (module_entries libraries) modules) @ fixed_entries a
      in rfold write_dynamic_entry (zip [0..<length entries] entries)
           (replicate (length entries * 16) 0))"

section \<open>Headers\<close>

record program_header =
  prg_type :: u32
  prg_flags :: u32
  prg_offset :: u64
  prg_address :: u64
  prg_file_size :: u64
  prg_memory_size :: u64
  prg_alignment :: u64

definition write_program_header :: "nat \<times> program_header \<Rightarrow> bytes \<Rightarrow> bytes res" where
  "write_program_header row output =
     (case row of (index, header) \<Rightarrow>
        let at = 0x40 + index * 0x38
        in rbind (mod_write_u32 output at (prg_type header)) (\<lambda>output.
           rbind (mod_write_u32 output (at + 4) (prg_flags header)) (\<lambda>output.
           rbind (mod_write_u64 output (at + 8) (prg_offset header)) (\<lambda>output.
           rbind (mod_write_u64 output (at + 16) (prg_address header)) (\<lambda>output.
           rbind (mod_write_u64 output (at + 24) (prg_address header)) (\<lambda>output.
           rbind (mod_write_u64 output (at + 32) (prg_file_size header)) (\<lambda>output.
           rbind (mod_write_u64 output (at + 40) (prg_memory_size header)) (\<lambda>output.
           mod_write_u64 output (at + 48) (prg_alignment header)))))))))"

definition write_elf_header :: "u64 \<Rightarrow> bytes \<Rightarrow> bytes res" where
  "write_elf_header entry output =
     rbind (require (unat kPage \<le> length output) ''output cannot hold ELF header'') (\<lambda>_.
     rbind (set_byte output 0 0x7f) (\<lambda>output.
     rbind (set_byte output 1 0x45) (\<lambda>output.
     rbind (set_byte output 2 0x4c) (\<lambda>output.
     rbind (set_byte output 3 0x46) (\<lambda>output.
     rbind (set_byte output 4 2) (\<lambda>output.
     rbind (set_byte output 5 1) (\<lambda>output.
     rbind (set_byte output 6 1) (\<lambda>output.
     rbind (set_byte output 7 9) (\<lambda>output.
     rbind (set_byte output 8 2) (\<lambda>output.
     rbind (mod_write_u16 output 0x10 0xfe10) (\<lambda>output.
     rbind (mod_write_u16 output 0x12 0x3e) (\<lambda>output.
     rbind (mod_write_u32 output 0x14 1) (\<lambda>output.
     rbind (mod_write_u64 output 0x18 entry) (\<lambda>output.
     rbind (mod_write_u64 output 0x20 0x40) (\<lambda>output.
     rbind (mod_write_u64 output 0x28 0) (\<lambda>output.
     rbind (mod_write_u32 output 0x30 0) (\<lambda>output.
     rbind (mod_write_u16 output 0x34 0x40) (\<lambda>output.
     rbind (mod_write_u16 output 0x36 0x38) (\<lambda>output.
     rbind (mod_write_u16 output 0x38 14) (\<lambda>output.
     rbind (mod_write_u16 output 0x3a 0x40) (\<lambda>output.
     rbind (mod_write_u16 output 0x3c 0) (\<lambda>output.
     mod_write_u16 output 0x3e 0))))))))))))))))))))))"

section \<open>The stages of \<open>write_executable\<close>\<close>

record module_options =
  mo_entry :: string
  mo_file_name :: string
  mo_module_sdk :: u32
  mo_companion_sdk :: u32
  mo_version_components :: "string list"

definition default_module_options :: module_options where
  "default_module_options = \<lparr>mo_entry = ''_start'', mo_file_name = ''eboot.elf'', mo_module_sdk = 0x02000009,
     mo_companion_sdk = 0x08050001, mo_version_components = []\<rparr>"

definition copied_file_end :: "elf_section list \<Rightarrow> u64" where
  "copied_file_end sections =
     fold (\<lambda>s e. if \<not> elf_allocated s \<or> elf_no_bits s then e
                 else max e (sec_file_offset s + of_nat (length (sec_data s)))) sections kPage"

text \<open>The ranges of addresses that the section scan collects.\<close>

record regions =
  rg_text_end :: u64
  rg_ro_start :: u64
  rg_ro_end :: u64
  rg_relro_start :: u64
  rg_relro_content_end :: u64
  rg_data_start :: u64
  rg_data_end :: u64
  rg_data_stored_end :: u64
  rg_tls_start :: u64
  rg_tls_file_end :: u64
  rg_tls_memory_end :: u64
  rg_tls_alignment :: u64

definition initial_regions :: "elf_section \<Rightarrow> elf_section \<Rightarrow> regions" where
  "initial_regions text dynamic_source =
     \<lparr>rg_text_end = sec_address text + sec_size text,
      rg_ro_start = 0xffffffffffffffff, rg_ro_end = 0,
      rg_relro_start = 0xffffffffffffffff, rg_relro_content_end = 0,
      rg_data_start = sec_address dynamic_source, rg_data_end = sec_address dynamic_source + 8,
      rg_data_stored_end = sec_address dynamic_source + 8,
      rg_tls_start = 0, rg_tls_file_end = 0, rg_tls_memory_end = 0, rg_tls_alignment = 0x20\<rparr>"

definition scan_section :: "elf_section \<Rightarrow> regions \<Rightarrow> regions" where
  "scan_section s r =
     (if \<not> elf_allocated s \<or> sec_name s = ''.dynamic'' then r
      else let end_at = sec_address s + sec_size s
      in if elf_executable s then r\<lparr>rg_text_end := max (rg_text_end r) end_at\<rparr>
         else if elf_tls s then
           let start = (if rg_tls_start r = 0 then sec_address s else rg_tls_start r)
           in r\<lparr>rg_tls_start := min start (sec_address s),
                rg_tls_memory_end := max (rg_tls_memory_end r) end_at,
                rg_tls_file_end := (if elf_no_bits s then rg_tls_file_end r
                                    else max (rg_tls_file_end r) end_at),
                rg_tls_alignment := max (rg_tls_alignment r) (sec_alignment s)\<rparr>
         else if relro_section (sec_name s) then
           r\<lparr>rg_relro_start := min (rg_relro_start r) (sec_address s),
             rg_relro_content_end := max (rg_relro_content_end r) end_at\<rparr>
         else if elf_writable s \<or> elf_no_bits s then
           r\<lparr>rg_data_start := min (rg_data_start r) (sec_address s),
             rg_data_end := max (rg_data_end r) end_at,
             rg_data_stored_end := (if elf_no_bits s then rg_data_stored_end r
                                    else max (rg_data_stored_end r) end_at)\<rparr>
         else if \<not> metadata_section (sec_name s) then
           r\<lparr>rg_ro_start := min (rg_ro_start r) (sec_address s),
             rg_ro_end := max (rg_ro_end r) end_at\<rparr>
         else r)"

definition settle_ro :: "regions \<Rightarrow> regions" where
  "settle_ro r =
     (if rg_ro_start r = 0xffffffffffffffff
      then r\<lparr>rg_ro_start := mod_align_up (rg_text_end r) kPage,
             rg_ro_end := mod_align_up (rg_text_end r) kPage\<rparr> else r)"

text \<open>Which stub provides each needed module, and each undefined symbol.\<close>

definition index_where :: "('a \<Rightarrow> bool) \<Rightarrow> 'a list \<Rightarrow> nat option" where
  "index_where P xs = (let n = length (takeWhile (\<lambda>x. \<not> P x) xs) in if n < length xs then Some n else None)"

definition resolve_needed :: "elf_stub list \<Rightarrow> string \<Rightarrow> nat res" where
  "resolve_needed stubs needed =
     (case index_where (\<lambda>s. stub_soname s = needed) stubs of
        None \<Rightarrow> Inl (Runtime (''public SDK stub directory lacks needed module '' @ needed))
      | Some i \<Rightarrow> Inr i)"

definition resolve_import ::
    "elf_stub list \<Rightarrow> nat list \<Rightarrow> elf_symbol list \<Rightarrow> nat \<Rightarrow> import_entry res" where
  "resolve_import stubs module_order symbols i =
     rbind (elem_at symbols i) (\<lambda>symbol.
     rbind (require (elf_undefined symbol) ''native converter does not yet publish application exports'') (\<lambda>_.
     case find (\<lambda>m. sym_name symbol \<in> set (stub_exports (stubs ! m))) module_order of
       None \<Rightarrow> Inl (Runtime (''no public SDK stub exports required symbol '' @ sym_name symbol))
     | Some provider \<Rightarrow>
         Inr \<lparr>imp_plain = sym_name symbol, imp_provider = provider, imp_module_id = 0,
              imp_library_id = 0, imp_dynamic_symbol = of_nat i, imp_mangled = []\<rparr>))"

definition add_module ::
    "elf_stub list \<Rightarrow> nat \<times> nat \<Rightarrow> module_record list \<times> library_record list \<times> string_table \<Rightarrow>
     module_record list \<times> library_record list \<times> string_table" where
  "add_module stubs row state =
     (case row of (i, m) \<Rightarrow> case state of (modules, libraries, strings) \<Rightarrow>
        let provider = stubs ! m;
            (soname, strings) = st_add strings (stub_soname provider);
            (module_name, strings) = st_add strings (stub_module_name provider);
            (library_name, strings) = st_add strings (stub_library_name provider)
        in (modules @ [\<lparr>mr_id = int i + 1, mr_soname = soname, mr_module_name = module_name\<rparr>],
            libraries @ [\<lparr>lr_id = int i, lr_module_id = int i + 1, lr_name = library_name\<rparr>],
            strings))"

definition number_import :: "nat list \<Rightarrow> import_entry \<Rightarrow> import_entry res" where
  "number_import module_order imp =
     (case index_where (\<lambda>m. m = imp_provider imp) module_order of
        None \<Rightarrow> Inl (Runtime ''internal import provider error'')
      | Some index \<Rightarrow>
          Inr (imp\<lparr>imp_module_id := int index + 1, imp_library_id := int index,
            imp_mangled := nid (imp_plain imp) @ ''#'' @ encode_id (int index) @ ''#'' @
              encode_id (int index + 1)\<rparr>))"

definition drop_extension :: "string \<Rightarrow> string" where
  "drop_extension file_name =
     (if CHR ''.'' \<in> set file_name
      then rev (drop 1 (dropWhile (\<lambda>c. c \<noteq> CHR ''.'') (rev file_name))) else file_name)"

definition write_import ::
    "elf_stub list \<Rightarrow> elf_symbol list \<Rightarrow> import_entry \<Rightarrow> bytes \<times> string list \<times> string_table \<Rightarrow>
     (bytes \<times> string list \<times> string_table) res" where
  "write_import stubs symbols imp state =
     (case state of (table, names, strings) \<Rightarrow>
        let index = unat (imp_dynamic_symbol imp);
            at = index * 24;
            (offset, strings) = st_add strings (imp_mangled imp);
            provider = stubs ! imp_provider imp
        in rbind (elem_at symbols index) (\<lambda>source.
           rbind (mod_write_u32 table at offset) (\<lambda>table.
           rbind (set_byte table (at + 4) (sym_info source)) (\<lambda>table.
           rbind (set_byte table (at + 5) (sym_other source)) (\<lambda>table.
           rbind (mod_write_u16 table (at + 6) (sym_section source)) (\<lambda>table.
           rbind (mod_write_u64 table (at + 8) (sym_value source)) (\<lambda>table.
           rbind (mod_write_u64 table (at + 16) (sym_size source)) (\<lambda>table.
           if index < length names
           then Inr (table, names[index := nid (imp_plain imp) @ ''#'' @ stub_library_name provider @
                      ''#'' @ stub_module_name provider], strings)
           else Inl Undefined))))))))"

text \<open>The import tables: lines 687 to 759.\<close>

record import_tables =
  it_module_order :: "nat list"
  it_modules :: "module_record list"
  it_libraries :: "library_record list"
  it_file_name :: u32
  it_module_name :: u32
  it_symbols :: bytes
  it_strings :: bytes
  it_hash :: bytes

definition build_imports :: "elf_image \<Rightarrow> elf_stub list \<Rightarrow> module_options \<Rightarrow> import_tables res" where
  "build_imports img stubs options =
     (let symbols = img_dynamic_symbols img
      in rbind (rmap (resolve_needed stubs) (img_needed img)) (\<lambda>module_order.
         rbind (rmap (resolve_import stubs module_order symbols) [1..<length symbols]) (\<lambda>imports.
         let (modules, libraries, strings) =
               fold (add_module stubs) (zip [0..<length module_order] module_order) ([], [], st_new)
         in rbind (rmap (number_import module_order) imports) (\<lambda>imports.
            let (file_name, strings) = st_add strings (mo_file_name options);
                (module_name, strings) = st_add strings (drop_extension (mo_file_name options))
            in rbind (rfold (write_import stubs symbols) imports
                        (replicate (length symbols * 24) 0, replicate (length symbols) [], strings))
                 (\<lambda>(table, names, strings).
               rbind (build_sysv_hash names) (\<lambda>hash.
               Inr \<lparr>it_module_order = module_order, it_modules = modules, it_libraries = libraries,
                    it_file_name = file_name, it_module_name = module_name, it_symbols = table,
                    it_strings = st_data strings, it_hash = hash\<rparr>))))))"

definition parameter_pointers :: "u64 \<Rightarrow> u64 \<Rightarrow> parameter_blocks \<Rightarrow> (u64 \<times> u64) list" where
  "parameter_pointers process_address blocks_address blocks =
     [(process_address + 0x38, blocks_address + of_nat (pb_offsets blocks ! 0)),
      (process_address + 0x40, blocks_address + of_nat (pb_offsets blocks ! 1)),
      (process_address + 0x48, blocks_address + of_nat (pb_offsets blocks ! 2)),
      (blocks_address + 0x30, blocks_address + of_nat (pb_offsets blocks ! 3)),
      (blocks_address + 0x38, blocks_address + of_nat (pb_offsets blocks ! 4)),
      (blocks_address + 0x60, blocks_address + of_nat (pb_offsets blocks ! 5)),
      (blocks_address + 0x10, blocks_address + of_nat (pb_heap_size blocks)),
      (blocks_address + 0x20, blocks_address + of_nat (pb_heap_extended blocks))]"

definition is_relative :: "dynamic_relocation \<Rightarrow> bool" where
  "is_relative r \<longleftrightarrow> (ucast (dr_info r) :: u32) = 8"

text \<open>The pointers of the parameter blocks and the relative relocations come first.\<close>

definition order_relocations :: "(u64 \<times> u64) list \<Rightarrow> dynamic_relocation list \<Rightarrow> dynamic_relocation list \<times> nat" where
  "order_relocations pointers source =
     (let first = map (\<lambda>(offset, addend). \<lparr>dr_offset = offset, dr_info = 8, dr_addend = addend\<rparr>) pointers @
                  filter is_relative source
      in (first @ filter (\<lambda>r. \<not> is_relative r) source, length first))"

record table_addresses =
  ta_base :: u64
  ta_symbol :: u64
  ta_jump :: u64
  ta_relocation :: u64
  ta_hash :: u64
  ta_note :: u64
  ta_dynamic :: u64

definition place_tables :: "u64 \<Rightarrow> bytes \<Rightarrow> bytes \<Rightarrow> bytes \<Rightarrow> bytes \<Rightarrow> bytes \<Rightarrow> bytes \<Rightarrow> table_addresses" where
  "place_tables data_end strings symbols plt rela hash note =
     (let base = mod_align_up data_end 16;
          symbol = mod_align_up (base + of_nat (length strings)) 8;
          jump = mod_align_up (symbol + of_nat (length symbols)) 8;
          relocation = mod_align_up (jump + of_nat (length plt)) 8;
          hash_at = mod_align_up (relocation + of_nat (length rela)) 8;
          note_at = mod_align_up (hash_at + of_nat (length hash)) 4
      in \<lparr>ta_base = base, ta_symbol = symbol, ta_jump = jump, ta_relocation = relocation,
          ta_hash = hash_at, ta_note = note_at,
          ta_dynamic = mod_align_up (note_at + of_nat (length note)) 8\<rparr>)"

definition dynamic_arguments ::
    "import_tables \<Rightarrow> table_addresses \<Rightarrow> elf_section \<Rightarrow> elf_section \<Rightarrow> bytes \<Rightarrow> bytes \<Rightarrow> nat \<Rightarrow> dynamic_args res" where
  "dynamic_arguments it ta dynamic_source got plt rela relative_count =
     rbind (dynamic_value dynamic_source 32) (\<lambda>preinit.
     rbind (dynamic_value dynamic_source 33) (\<lambda>preinit_size.
     rbind (dynamic_value dynamic_source 25) (\<lambda>init_array.
     rbind (dynamic_value dynamic_source 27) (\<lambda>init_array_size.
     rbind (dynamic_value dynamic_source 26) (\<lambda>fini_array.
     rbind (dynamic_value dynamic_source 28) (\<lambda>fini_array_size.
     rbind (dynamic_value dynamic_source 12) (\<lambda>init.
     rbind (dynamic_value dynamic_source 13) (\<lambda>fini.
     Inr \<lparr>da_module_info_name = it_module_name it, da_original_file_name = it_file_name it,
       da_symbol_table = ta_symbol ta, da_string_table = ta_base ta,
       da_string_size = of_nat (length (it_strings it)), da_hash_table = ta_hash ta,
       da_hash_size = of_nat (length (it_hash it)), da_jump_relocations = ta_jump ta,
       da_jump_relocations_size = of_nat (length plt), da_got = sec_address got,
       da_symbol_table_size = of_nat (length (it_symbols it)), da_relocations = ta_relocation ta,
       da_relocations_size = of_nat (length rela), da_relative_count = of_nat relative_count,
       da_preinit = preinit, da_preinit_size = preinit_size, da_init_array = init_array,
       da_init_array_size = init_array_size, da_fini_array = fini_array,
       da_fini_array_size = fini_array_size, da_init = init, da_fini = fini\<rparr>))))))))"

definition copy_section :: "elf_section \<Rightarrow> bytes \<Rightarrow> bytes res" where
  "copy_section s output =
     (if \<not> elf_allocated s \<or> elf_no_bits s \<or> metadata_section (sec_name s) \<or> sec_name s = ''.dynamic''
      then Inr output
      else copy_bytes output (unat (sec_file_offset s)) (sec_data s))"

definition relro_first :: "elf_section list \<Rightarrow> elf_section option" where
  "relro_first sections =
     fold (\<lambda>s best.
       if elf_allocated s \<and> relro_section (sec_name s) \<and>
          (case best of None \<Rightarrow> True | Some b \<Rightarrow> sec_address s < sec_address b)
       then Some s else best) sections None"

text \<open>Everything the program headers are made of.\<close>

record exec_layout =
  xl_regions :: regions
  xl_text_file :: u64
  xl_ro_file :: u64
  xl_relro_file :: u64
  xl_relro_end :: u64
  xl_data_file :: u64
  xl_process_address :: u64
  xl_process_size :: u64
  xl_tables :: table_addresses
  xl_dynamic_file :: u64
  xl_dynamic_size :: u64
  xl_note_size :: u64
  xl_comment_file :: u64
  xl_comment_size :: u64
  xl_version_file :: u64
  xl_version_size :: u64
  xl_tail_file :: u64
  xl_tail_size :: u64
  xl_eh :: "elf_section option"

definition dynamic_file_at :: "u64 \<Rightarrow> u64 \<Rightarrow> u64 \<Rightarrow> u64" where
  "dynamic_file_at dynamic_file dynamic_base address = dynamic_file + (address - dynamic_base)"

definition program_headers :: "exec_layout \<Rightarrow> program_header list" where
  "program_headers x =
     (let r = xl_regions x; ta = xl_tables x;
          relro_file = xl_relro_file x; relro_size = xl_relro_end x - rg_relro_start r;
          file_at = dynamic_file_at (xl_dynamic_file x) (ta_base ta);
          dynamic_end = ta_dynamic ta + xl_dynamic_size x;
          data_file_size = max 8 (rg_data_stored_end r - rg_data_start r);
          no_tls = (rg_tls_start r = 0);
          tls_file = (if no_tls then relro_file + relro_size
                      else relro_file + (rg_tls_start r - rg_relro_start r));
          eh_address = (case xl_eh x of None \<Rightarrow> rg_ro_start r | Some s \<Rightarrow> sec_address s);
          eh_file = (case xl_eh x of None \<Rightarrow> xl_ro_file x | Some s \<Rightarrow> sec_file_offset s);
          eh_size = (case xl_eh x of None \<Rightarrow> 0 | Some s \<Rightarrow> sec_size s);
          h = (\<lambda>type flags offset address file_size memory_size alignment.
                 \<lparr>prg_type = type, prg_flags = flags, prg_offset = offset, prg_address = address,
                  prg_file_size = file_size, prg_memory_size = memory_size,
                  prg_alignment = alignment\<rparr>)
      in [h 1 1 (xl_text_file x) 0 (rg_text_end r) (rg_text_end r) kPage,
          h 1 4 (xl_ro_file x) (rg_ro_start r) (rg_ro_end r - rg_ro_start r)
            (rg_ro_end r - rg_ro_start r) kPage,
          h 1 6 relro_file (rg_relro_start r) relro_size relro_size kPage,
          h 0x6474e552 4 relro_file (rg_relro_start r) relro_size (mod_align_up relro_size kPage) 1,
          h 1 6 (xl_data_file x) (rg_data_start r) data_file_size (rg_data_end r - rg_data_start r) kPage,
          h 0x61000001 4 (relro_file + xl_process_address x - rg_relro_start r) (xl_process_address x)
            (xl_process_size x) (xl_process_size x) 8,
          h 2 6 (file_at (ta_dynamic ta)) (ta_dynamic ta) (xl_dynamic_size x) (xl_dynamic_size x) 8,
          h 7 4 (if no_tls then relro_file else tls_file)
            (if no_tls then rg_relro_start r else rg_tls_start r)
            (if no_tls then 0 else rg_tls_file_end r - rg_tls_start r)
            (if no_tls then 0 else rg_tls_memory_end r - rg_tls_start r)
            (if no_tls then 1 else rg_tls_alignment r),
          h 0x6474e550 4 eh_file eh_address eh_size eh_size 4,
          h 1 0 (xl_dynamic_file x) (ta_base ta) (dynamic_end - ta_base ta) (dynamic_end - ta_base ta) kPage,
          h 0x6fffff00 0 (xl_comment_file x) 0 (xl_comment_size x) 0 0x10,
          h 0x6fffff01 0 (xl_version_file x) 0 (xl_version_size x) (xl_version_size x) 1,
          h 4 0 (file_at (ta_note ta)) (ta_note ta) (xl_note_size x) (xl_note_size x) 4,
          h 4 0 (xl_tail_file x) 0 (xl_tail_size x) 0 4])"

definition check_header :: "program_header \<Rightarrow> unit \<Rightarrow> unit res" where
  "check_header header u =
     (if prg_type header = 1 \<and> 1 < prg_alignment header
      then require (prg_offset header mod prg_alignment header = prg_address header mod prg_alignment header)
             (''PT_LOAD at address '' @ decimal (unat (prg_address header)) @
              '' is not page aligned with file offset '' @ decimal (unat (prg_offset header)))
      else Inr ())"

text \<open>The addresses of the process parameters and their blocks: lines 605 to 685.\<close>

record exec_front =
  xf_text :: elf_section
  xf_dynamic_source :: elf_section
  xf_got :: elf_section
  xf_regions :: regions
  xf_process :: bytes
  xf_blocks :: parameter_blocks
  xf_process_address :: u64
  xf_blocks_address :: u64
  xf_relro_end :: u64

definition scan_image :: "elf_image \<Rightarrow> module_options \<Rightarrow> exec_front res" where
  "scan_image img options =
     rbind (mod_section img ''.text'') (\<lambda>text.
     rbind (mod_section img ''.dynamic'') (\<lambda>dynamic_source.
     rbind (mod_section img ''.got'') (\<lambda>got.
     rbind (require (elf_executable text \<and> sec_address text = 0 \<and> kPage \<le> sec_file_offset text)
              ''LLVM text layout is incompatible with the PS5 converter'') (\<lambda>_.
     let r = fold scan_section (img_sections img) (initial_regions text dynamic_source)
     in rbind (require (rg_relro_start r \<noteq> 0xffffffffffffffff)
                 ''LLVM-linked image has no GOT/RELRO region'') (\<lambda>_.
        let r = settle_ro r
        in rbind (build_process_parameters (mo_module_sdk options) (mo_companion_sdk options)) (\<lambda>process.
           rbind build_parameter_blocks (\<lambda>blocks.
           let process_address = mod_align_up (max (rg_relro_content_end r)
                 (if rg_relro_start r < rg_ro_end r then rg_ro_end r else 0)) 8;
               blocks_address = mod_align_up (process_address + of_nat (length process)) 8;
               relro_end = blocks_address + of_nat (length (pb_data blocks))
           in rbind (require (relro_end \<le> rg_data_start r)
                       ''LLVM layout leaves no room for PS5 process parameters'') (\<lambda>_.
              Inr \<lparr>xf_text = text, xf_dynamic_source = dynamic_source, xf_got = got, xf_regions = r,
                   xf_process = process, xf_blocks = blocks, xf_process_address = process_address,
                   xf_blocks_address = blocks_address, xf_relro_end = relro_end\<rparr>))))))))"

text \<open>The bytes that go into the file, and where the tables among them live.\<close>

record exec_content =
  xc_imports :: import_tables
  xc_plt :: bytes
  xc_rela :: bytes
  xc_note :: bytes
  xc_dynamic :: bytes
  xc_comment :: bytes
  xc_version :: bytes
  xc_tail_note :: bytes
  xc_tables :: table_addresses
  xc_data_end :: u64

definition build_content ::
    "elf_image \<Rightarrow> elf_stub list \<Rightarrow> module_options \<Rightarrow> exec_front \<Rightarrow> exec_content res" where
  "build_content img stubs options f =
     rbind (build_imports img stubs options) (\<lambda>it.
     rbind (read_relocations (optional_section img ''.rela.dyn'')) (\<lambda>source_relocations.
     let (relocations, relative_count) = order_relocations
           (parameter_pointers (xf_process_address f) (xf_blocks_address f) (xf_blocks f))
           source_relocations
     in rbind (write_relocations relocations) (\<lambda>rela.
        let plt = (case optional_section img ''.rela.plt'' of None \<Rightarrow> [] | Some s \<Rightarrow> sec_data s)
        in rbind build_note (\<lambda>note.
           let r = xf_regions f;
               data_end = max (rg_data_end r) (rg_data_start r + 8);
               ta = place_tables data_end (it_strings it) (it_symbols it) plt rela (it_hash it) note
           in rbind (dynamic_arguments it ta (xf_dynamic_source f) (xf_got f) plt rela relative_count) (\<lambda>da.
              rbind (build_dynamic (it_modules it) (it_libraries it) da) (\<lambda>dyn.
              let components = (if mo_version_components options = []
                    then ''app_crt.o'' # map (\<lambda>m. stub_soname (stubs ! m)) (it_module_order it)
                    else mo_version_components options)
              in rbind (build_comment (mo_file_name options)) (\<lambda>comment.
                 rbind (build_version components (mo_module_sdk options)) (\<lambda>version.
                 rbind build_tail_note (\<lambda>tail_note.
                 Inr \<lparr>xc_imports = it, xc_plt = plt, xc_rela = rela, xc_note = note, xc_dynamic = dyn,
                      xc_comment = comment, xc_version = version, xc_tail_note = tail_note,
                      xc_tables = ta, xc_data_end = data_end\<rparr>)))))))))"

record file_places =
  fp_dynamic :: u64
  fp_comment :: u64
  fp_version :: u64
  fp_tail :: u64

definition place_content :: "elf_image \<Rightarrow> exec_content \<Rightarrow> file_places" where
  "place_content img c =
     (let ta = xc_tables c;
          dynamic_file = congruent_offset (copied_file_end (img_sections img)) (ta_base ta);
          dynamic_end = ta_dynamic ta + of_nat (length (xc_dynamic c));
          comment_file = mod_align_up (dynamic_file_at dynamic_file (ta_base ta) dynamic_end) 8;
          version_file = mod_align_up (comment_file + of_nat (length (xc_comment c))) 4;
          tail_file = mod_align_up (version_file + of_nat (length (xc_version c))) 4
      in \<lparr>fp_dynamic = dynamic_file, fp_comment = comment_file, fp_version = version_file,
          fp_tail = tail_file\<rparr>)"

text \<open>The copies into the output, in the order the code makes them.\<close>

definition content_copies :: "exec_front \<Rightarrow> exec_content \<Rightarrow> file_places \<Rightarrow> u64 \<Rightarrow> (u64 \<times> bytes) list" where
  "content_copies f c p relro_file =
     (let ta = xc_tables c; it = xc_imports c; relro_start = rg_relro_start (xf_regions f);
          file_at = dynamic_file_at (fp_dynamic p) (ta_base ta)
      in [(relro_file + xf_process_address f - relro_start, xf_process f),
          (relro_file + xf_blocks_address f - relro_start, pb_data (xf_blocks f)),
          (file_at (ta_base ta), it_strings it),
          (file_at (ta_symbol ta), it_symbols it),
          (file_at (ta_jump ta), xc_plt c),
          (file_at (ta_relocation ta), xc_rela c),
          (file_at (ta_hash ta), it_hash it),
          (file_at (ta_note ta), xc_note c),
          (file_at (ta_dynamic ta), xc_dynamic c),
          (fp_comment p, xc_comment c),
          (fp_version p, xc_version c),
          (fp_tail p, xc_tail_note c)])"

definition exec_layout_of ::
    "exec_front \<Rightarrow> exec_content \<Rightarrow> file_places \<Rightarrow> u64 \<Rightarrow> u64 \<Rightarrow> elf_section option \<Rightarrow> exec_layout" where
  "exec_layout_of f c p relro_file ro_file eh =
     \<lparr>xl_regions = (xf_regions f)\<lparr>rg_data_end := xc_data_end c\<rparr>,
      xl_text_file = sec_file_offset (xf_text f), xl_ro_file = ro_file, xl_relro_file = relro_file,
      xl_relro_end = xf_relro_end f, xl_data_file = sec_file_offset (xf_dynamic_source f),
      xl_process_address = xf_process_address f, xl_process_size = of_nat (length (xf_process f)),
      xl_tables = xc_tables c, xl_dynamic_file = fp_dynamic p,
      xl_dynamic_size = of_nat (length (xc_dynamic c)), xl_note_size = of_nat (length (xc_note c)),
      xl_comment_file = fp_comment p, xl_comment_size = of_nat (length (xc_comment c)),
      xl_version_file = fp_version p, xl_version_size = of_nat (length (xc_version c)),
      xl_tail_file = fp_tail p, xl_tail_size = of_nat (length (xc_tail_note c)), xl_eh = eh\<rparr>"

definition seal_build_id :: "exec_content \<Rightarrow> file_places \<Rightarrow> bytes \<Rightarrow> bytes res" where
  "seal_build_id c p output =
     (let build_id = sha1 output; ta = xc_tables c;
          note_file = dynamic_file_at (fp_dynamic p) (ta_base ta) (ta_note ta)
      in rbind (copy_raw output (unat (note_file + 16)) (take 16 build_id)) (\<lambda>output.
         copy_raw output (unat (fp_tail p + 16)) (take 8 build_id)))"

definition write_executable ::
    "elf_image \<Rightarrow> elf_stub list \<Rightarrow> module_options \<Rightarrow> bytes res" where
  "write_executable img stubs options =
     rbind (scan_image img options) (\<lambda>f.
     rbind (build_content img stubs options f) (\<lambda>c.
     let p = place_content img c;
         output = replicate (unat (fp_tail p + of_nat (length (xc_tail_note c)))) 0
     in rbind (rfold copy_section (img_sections img) output) (\<lambda>output.
        rbind (case relro_first (img_sections img) of
                 None \<Rightarrow> Inl (Runtime ''RELRO start section does not match the RELRO region'')
               | Some s \<Rightarrow> rbind (require (sec_address s = rg_relro_start (xf_regions f))
                     ''RELRO start section does not match the RELRO region'') (\<lambda>_. Inr s)) (\<lambda>first.
        let relro_file = sec_file_offset first
        in rbind (rfold (\<lambda>(at, source) output. copy_bytes output (unat at) source)
                    (content_copies f c p relro_file) output) (\<lambda>output.
           rbind (write_elf_header (img_entry img) output) (\<lambda>output.
           rbind (case optional_section img ''.eh_frame_hdr'' of
                    Some s \<Rightarrow> Inr (sec_file_offset s)
                  | None \<Rightarrow> rbind (mod_section img ''.eh_frame'') (\<lambda>s. Inr (sec_file_offset s))) (\<lambda>ro_file.
           let headers = program_headers (exec_layout_of f c p relro_file ro_file
                 (optional_section img ''.eh_frame_hdr''))
           in rbind (rfold check_header headers ()) (\<lambda>_.
              rbind (rfold write_program_header (zip [0..<length headers] headers) output) (\<lambda>output.
              seal_build_id c p output)))))))))"

end
