(* ===== verification/Sysv_Hash.thy ===== *)
theory Sysv_Hash
  imports Byte_Codec
begin

text \<open>
  The symbol hash table both writers of dynamic modules build: a bucket and a chain array of
  32-bit slots behind two counts. The locale states what their insertion loops need of the
  files' own \<open>read_u32\<close> and \<open>write_u32\<close>, and shows once that a lookup that starts at a bucket
  and follows the chain visits exactly the symbols of that bucket, in ascending order.
\<close>

definition slot :: "bytes \<Rightarrow> nat \<Rightarrow> nat" where
  "slot table at = unat (le_decode (chunk table at 4) :: u32)"

definition bucket_at :: "nat \<Rightarrow> nat" where "bucket_at b = 8 + b * 4"

definition chain_at :: "nat \<Rightarrow> nat \<Rightarrow> nat" where "chain_at count i = 8 + count * 4 + i * 4"

text \<open>The loader's walk: from a symbol to the next in its chain, until index zero.\<close>

fun walk :: "(nat \<Rightarrow> nat) \<Rightarrow> nat \<Rightarrow> nat \<Rightarrow> nat list" where
  "walk follow 0 s = []"
| "walk follow (Suc fuel) s = (if s = 0 then [] else s # walk follow fuel (follow s))"

definition bucket_symbols :: "bytes \<Rightarrow> nat \<Rightarrow> nat \<Rightarrow> nat list" where
  "bucket_symbols table count b =
     walk (\<lambda>i. slot table (chain_at count i)) count (slot table (bucket_at b))"

fun linked :: "(nat \<Rightarrow> nat) \<Rightarrow> nat \<Rightarrow> nat list \<Rightarrow> bool" where
  "linked follow s [] \<longleftrightarrow> s = 0"
| "linked follow s (x # xs) \<longleftrightarrow> s = x \<and> x \<noteq> 0 \<and> linked follow (follow x) xs"

lemma linked_cong: "(\<And>x. x \<in> set xs \<Longrightarrow> follow x = follow' x) \<Longrightarrow> linked follow s xs \<longleftrightarrow> linked follow' s xs"
  by (induction xs arbitrary: s) auto

lemma linked_walk: "linked follow s xs \<Longrightarrow> length xs \<le> fuel \<Longrightarrow> walk follow fuel s = xs"
proof (induction xs arbitrary: s fuel)
  case Nil
  then show ?case by (cases fuel) auto
next
  case (Cons x xs)
  then show ?case by (cases fuel) auto
qed

definition hash_table_ok :: "(nat \<Rightarrow> nat) \<Rightarrow> nat \<Rightarrow> nat \<Rightarrow> bytes \<Rightarrow> bool" where
  "hash_table_ok bucket_of count from table \<longleftrightarrow>
     length table = 8 + count * 8 \<and> slot table 0 = count \<and> slot table 4 = count \<and>
     (\<forall>b < count. linked (\<lambda>i. slot table (chain_at count i)) (slot table (bucket_at b))
        (filter (\<lambda>i. bucket_of i = b) [from..<count]))"

lemma slot_put:
  assumes "at + 4 \<le> length table" and "b = at \<or> b + 4 \<le> at \<or> at + 4 \<le> b"
  shows "slot (put table at (le_encode 4 (v :: u32))) b = (if b = at then unat v else slot table b)"
  using assms by (auto simp: slot_def chunk_put_same chunk_put_disjoint le_decode_encode)

lemma hash_table_ok_bucket_symbols:
  assumes "hash_table_ok bucket_of count 1 table" and "b < count"
  shows "bucket_symbols table count b = filter (\<lambda>i. bucket_of i = b) [1..<count]"
proof -
  have "length (filter (\<lambda>i. bucket_of i = b) [1..<count]) \<le> length [1..<count]"
    by (rule length_filter_le)
  then have "length (filter (\<lambda>i. bucket_of i = b) [1..<count]) \<le> count" by simp
  with assms show ?thesis
    unfolding bucket_symbols_def hash_table_ok_def by (intro linked_walk) auto
qed

locale word_table = field_access 4 "le_decode :: bytes \<Rightarrow> u32" rd "le_encode 4" wr
  for rd :: "bytes \<Rightarrow> nat \<Rightarrow> u32 res" and wr :: "bytes \<Rightarrow> nat \<Rightarrow> u32 \<Rightarrow> bytes res"
begin

lemma insert_step:
  assumes ok: "hash_table_ok bucket_of count (Suc i) table"
    and i: "0 < i" "i < count" and count: "count < 2 ^ 32" and b: "bucket_of i < count"
  shows "\<exists>table'. rbind (rd table (bucket_at (bucket_of i))) (\<lambda>previous.
      rbind (wr table (chain_at count i) previous) (\<lambda>t.
      wr t (bucket_at (bucket_of i)) (of_nat i))) = Inr table' \<and> hash_table_ok bucket_of count i table'"
proof -
  let ?b = "bucket_of i"
  have len: "length table = 8 + count * 8" using ok by (simp add: hash_table_ok_def)
  have room: "bucket_at ?b + 4 \<le> length table" "chain_at count i + 4 \<le> length table"
    "bucket_at ?b + 4 < 2 ^ 64" "chain_at count i + 4 < 2 ^ 64"
    using len i b count by (simp_all add: bucket_at_def chain_at_def)
  define prev where "prev = (le_decode (chunk table (bucket_at ?b) 4) :: u32)"
  define t1 where "t1 = put table (chain_at count i) (le_encode 4 prev)"
  define t2 where "t2 = put t1 (bucket_at ?b) (le_encode 4 (of_nat i :: u32))"
  have len1: "length t1 = length table" and len2: "length t2 = length table"
    using room by (simp_all add: t1_def t2_def)
  have run: "rbind (rd table (bucket_at ?b)) (\<lambda>previous. rbind (wr table (chain_at count i) previous)
      (\<lambda>t. wr t (bucket_at ?b) (of_nat i))) = Inr t2"
    using room by (simp add: rd_in wr_in prev_def t1_def t2_def)
  have small: "unat (of_nat i :: u32) = i" using i count by (intro unat_of_nat_small) simp
  have buckets: "slot t2 (bucket_at b) = (if b = ?b then i else slot table (bucket_at b))" if "b < count" for b
    using that room len1 small i b unfolding t2_def t1_def
    by (subst slot_put) (auto simp: slot_put bucket_at_def chain_at_def)
  have chains: "slot t2 (chain_at count j) = (if j = i then slot table (bucket_at ?b) else slot table (chain_at count j))"
    if "j < count" for j
  proof -
    have "slot t2 (chain_at count j) = slot t1 (chain_at count j)"
      using room len1 b unfolding t2_def by (subst slot_put) (auto simp: bucket_at_def chain_at_def)
    also have "chain_at count j = chain_at count i \<or> chain_at count j + 4 \<le> chain_at count i \<or>
        chain_at count i + 4 \<le> chain_at count j"
      by (cases j i rule: linorder_cases) (auto simp: chain_at_def)
    then have "slot t1 (chain_at count j) =
        (if chain_at count j = chain_at count i then unat prev else slot table (chain_at count j))"
      using room unfolding t1_def by (intro slot_put) auto
    finally show ?thesis by (simp add: chain_at_def prev_def slot_def)
  qed
  have "linked (\<lambda>j. slot t2 (chain_at count j)) (slot t2 (bucket_at b)) (filter (\<lambda>j. bucket_of j = b) [i..<count])"
    if "b < count" for b
  proof -
    let ?later = "filter (\<lambda>j. bucket_of j = b) [Suc i..<count]"
    have old: "linked (\<lambda>j. slot table (chain_at count j)) (slot table (bucket_at b)) ?later"
      using ok that by (simp add: hash_table_ok_def)
    have same: "linked (\<lambda>j. slot t2 (chain_at count j)) s ?later \<longleftrightarrow>
        linked (\<lambda>j. slot table (chain_at count j)) s ?later" for s
      by (rule linked_cong) (auto simp: chains)
    show ?thesis
      using old same buckets [OF that] chains [OF i(2)] i
      by (cases "b = ?b") (simp_all add: upt_conv_Cons)
  qed
  moreover have "slot t2 0 = slot table 0" "slot t2 4 = slot table 4"
    using room len1 unfolding t2_def t1_def
    by (subst slot_put; simp add: slot_put bucket_at_def chain_at_def)+
  ultimately show ?thesis using run len2 len ok by (auto simp: hash_table_ok_def)
qed

lemma insert_all:
  assumes "\<And>i t. 0 < i \<Longrightarrow> i < count \<Longrightarrow> ins i t = rbind (rd t (bucket_at (bucket_of i))) (\<lambda>previous.
      rbind (wr t (chain_at count i) previous) (\<lambda>t. wr t (bucket_at (bucket_of i)) (of_nat i)))"
    and "\<And>i. bucket_of i < count" and "count < 2 ^ 32"
    and "hash_table_ok bucket_of count count table"
  shows "\<exists>table'. rfold ins (rev [1..<count]) table = Inr table' \<and> hash_table_ok bucket_of count 1 table'"
proof -
  have "\<exists>table'. rfold ins (rev [k..<count]) table = Inr table' \<and> hash_table_ok bucket_of count k table'"
    if "0 < k" "k \<le> count" for k
    using that(2,1)
  proof (induction k rule: inc_induct)
    case base
    then show ?case using assms(4) by simp
  next
    case (step k)
    obtain t where t: "rfold ins (rev [Suc k..<count]) table = Inr t" "hash_table_ok bucket_of count (Suc k) t"
      using step by auto
    have "rev [k..<count] = rev [Suc k..<count] @ [k]" using step.hyps by (simp add: upt_conv_Cons)
    with t insert_step [OF t(2)] assms(1,2,3) step show ?case by (auto simp: rfold_append)
  qed
  moreover have "0 < count" using assms(2) [of 0] by simp
  ultimately show ?thesis by (metis One_nat_def Suc_leI lessI)
qed

lemma empty_table:
  assumes "0 < count" and "count < 2 ^ 32"
  shows "\<exists>t. rbind (wr (replicate (8 + count * 8) 0) 0 (of_nat count)) (\<lambda>t. wr t 4 (of_nat count)) = Inr t \<and>
    hash_table_ok bucket_of count count t"
proof -
  let ?z = "replicate (8 + count * 8) 0 :: bytes"
  let ?t = "put (put ?z 0 (le_encode 4 (of_nat count :: u32))) 4 (le_encode 4 (of_nat count :: u32))"
  have "slot ?t at = 0" if "8 \<le> at" "at + 4 \<le> 8 + count * 8" for at
    using that by (simp add: slot_put) (simp add: slot_def chunk_replicate le_decode_zeros)
  then have "\<forall>b < count. slot ?t (bucket_at b) = 0" by (simp add: bucket_at_def)
  moreover have "unat (of_nat count :: u32) = count" using assms(2) by (intro unat_of_nat_small) simp
  then have "slot ?t 0 = count" "slot ?t 4 = count" by (simp_all add: slot_put)
  ultimately show ?thesis using assms by (simp add: wr_in hash_table_ok_def)
qed

end

end
