(* ===== verification/Module_Properties.thy ===== *)
theory Module_Properties
  imports Module_Writer Sysv_Hash
begin

text \<open>
  What the module writer promises: aligned and congruent places, names that identify what
  they name, tables that read back, a symbol hash in which the loader finds every symbol, and
  an executable whose loadable segments the loader accepts.
\<close>

section \<open>Alignment\<close>

lemma mod_align_up_unat:
  assumes "1 < unat a" and "unat v + unat a \<le> 2 ^ 64"
  shows "unat (mod_align_up v a) = (unat v + unat a - 1) div unat a * unat a"
proof -
  have sum: "unat (v + a - 1) = unat v + unat a - 1"
  proof -
    have "v + a - 1 = of_nat (unat v + unat a - 1)" using assms(1) by (simp add: of_nat_diff)
    moreover have "unat v + unat a - 1 < 2 ^ 64" using assms by simp
    ultimately show ?thesis by (simp only: unat_u64_small)
  qed
  have "(unat v + unat a - 1) div unat a * unat a \<le> unat v + unat a - 1" by simp
  also have "\<dots> < 2 ^ 64" using assms by simp
  finally have lt: "(unat v + unat a - 1) div unat a * unat a < 2 ^ 64" .
  have "\<not> a \<le> 1" using assms(1) by (simp add: word_le_nat_alt)
  then have "unat (mod_align_up v a) = unat ((v + a - 1) div a) * unat a mod 2 ^ 64"
    by (simp add: mod_align_up_def unat_word_ariths(2))
  also have "\<dots> = (unat v + unat a - 1) div unat a * unat a"
    using lt by (simp only: unat_div sum mod_less)
  finally show ?thesis .
qed

lemma div_mult_ceiling:
  fixes v a :: nat
  assumes "0 < a"
  shows "v \<le> (v + a - 1) div a * a" and "(v + a - 1) div a * a < v + a"
    and "m mod a = 0 \<Longrightarrow> v \<le> m \<Longrightarrow> (v + a - 1) div a * a \<le> m"
proof -
  have eq: "(v + a - 1) div a * a + (v + a - 1) mod a = v + a - 1" by simp
  have lt: "(v + a - 1) mod a < a" using assms by simp
  show lo: "v \<le> (v + a - 1) div a * a" and hi: "(v + a - 1) div a * a < v + a"
    using eq lt assms by linarith+
  assume "m mod a = 0" and "v \<le> m"
  then obtain q where m: "m = q * a" by (metis dvd_def mod_eq_0_iff_dvd mult.commute)
  have "(v + a - 1) div a \<le> (m + a - 1) div a" using \<open>v \<le> m\<close> by (intro div_le_mono) simp
  also have "\<dots> = q"
  proof (rule div_nat_eqI)
    show "a * q \<le> m + a - 1" using assms m by (simp add: mult.commute)
    show "m + a - 1 < a * Suc q" using assms m by (simp add: mult.commute)
  qed
  finally show "(v + a - 1) div a * a \<le> m" by (simp add: m)
qed

lemma congruent_offset_facts:
  assumes "unat minimum + 2 * 0x4000 \<le> 2 ^ 64"
  shows "unat (congruent_offset minimum address) mod 0x4000 = unat address mod 0x4000 \<and>
    minimum \<le> congruent_offset minimum address \<and>
    (\<forall>x. unat x mod 0x4000 = unat address mod 0x4000 \<longrightarrow> minimum \<le> x \<longrightarrow>
       congruent_offset minimum address \<le> x)"
proof -
  let ?r = "address mod 0x4000"
  have r: "unat ?r = unat address mod 0x4000" by (simp add: unat_mod)
  then have rl: "unat ?r < 0x4000" by simp
  have below: "unat x mod 0x4000 \<le> unat x" for x :: u64 by simp
  show ?thesis
  proof (cases "minimum \<le> ?r")
    case True
    then have "congruent_offset minimum address = ?r" by (simp add: congruent_offset_def Let_def)
    then show ?thesis
      using True r rl below by (metis mod_less word_le_nat_alt)
  next
    case False
    let ?v = "minimum - ?r"
    have v: "unat ?v = unat minimum - unat ?r"
      using False by (simp add: unat_sub word_le_nat_alt)
    have gt: "unat ?r < unat minimum" using False by (simp add: word_le_nat_alt)
    let ?c = "(unat ?v + 0x4000 - 1) div 0x4000 * 0x4000"
    note c = div_mult_ceiling [where a = "0x4000" and v = "unat ?v"]
    have up: "unat (mod_align_up ?v 0x4000) = ?c"
      using assms v by (subst mod_align_up_unat) simp_all
    have fit: "?c + unat ?r < 2 ^ 64" using c(2) v gt assms rl by simp
    have res: "unat (congruent_offset minimum address) = ?c + unat ?r"
      using False fit by (simp add: congruent_offset_def Let_def unat_word_ariths up [simplified] r [simplified])
    have least: "congruent_offset minimum address \<le> x"
      if x: "unat x mod 0x4000 = unat address mod 0x4000" "minimum \<le> x" for x
    proof -
      have "unat ?r \<le> unat x" using x(1) r below [of x] by simp
      moreover have "(unat x - unat ?r) mod 0x4000 = 0"
        using x(1) r calculation by (metis minus_mod_eq_mult_div mod_mult_self1_is_0 mult.commute)
      moreover have "unat ?v \<le> unat x - unat ?r" using x(2) v by (simp add: word_le_nat_alt)
      ultimately have "?c \<le> unat x - unat ?r" using c(3) by simp
      with \<open>unat ?r \<le> unat x\<close> res show ?thesis by (simp add: word_le_nat_alt)
    qed
    have "(?c + unat ?r) mod 0x4000 = unat address mod 0x4000" using r rl by simp
    moreover have "unat minimum \<le> ?c + unat ?r" using c(1) v gt by simp
    ultimately show ?thesis using res least by (simp add: word_le_nat_alt)
  qed
qed

text \<open>\<open>congruent_offset\<close> returns the least file offset at or after the minimum that agrees
  with the address modulo the page size, which is what the loader demands of a segment.\<close>

lemma congruent_offset_least:
  assumes "unat minimum + 2 * 0x4000 \<le> 2 ^ 64"
  shows "unat (congruent_offset minimum address) mod 0x4000 = unat address mod 0x4000 \<and>
    minimum \<le> congruent_offset minimum address \<and>
    (\<forall>x. unat x mod 0x4000 = unat address mod 0x4000 \<longrightarrow> minimum \<le> x \<longrightarrow>
       congruent_offset minimum address \<le> x)"
  using assms by (rule congruent_offset_facts)

section \<open>Names\<close>

definition id_index :: "char \<Rightarrow> nat" where
  "id_index c = length (takeWhile (\<lambda>d. d \<noteq> c) id_alphabet)"

text \<open>The number a name in base 64 stands for.\<close>

definition id_value :: "string \<Rightarrow> int" where
  "id_value s = foldl (\<lambda>v c. v * 64 + int (id_index c)) 0 s"

lemma id_alphabet_facts: "length id_alphabet = 64" "distinct id_alphabet"
  by (simp_all add: id_alphabet_def)

lemma id_index_nth: "i < 64 \<Longrightarrow> id_index (id_alphabet ! i) = i"
proof -
  assume i: "i < 64"
  have "takeWhile (\<lambda>d. d \<noteq> id_alphabet ! i) id_alphabet = take i id_alphabet"
    using i id_alphabet_facts by (intro takeWhile_eq_take_P_nth) (auto simp: nth_eq_iff_index_eq)
  then show ?thesis using i id_alphabet_facts by (simp add: id_index_def)
qed

lemma id_value_start: "foldl (\<lambda>v c. v * 64 + int (id_index c)) a s = a * 64 ^ length s + id_value s"
proof (induction s rule: rev_induct)
  case (snoc c s)
  then show ?case by (simp add: id_value_def algebra_simps)
qed (simp add: id_value_def)

lemma encode_id_loop_value:
  "0 \<le> n \<Longrightarrow> id_value (encode_id_loop n s) = n * 64 ^ length s + id_value s"
proof (induction n s rule: encode_id_loop.induct)
  case (1 n s)
  show ?case
  proof (cases "0 < n")
    case True
    let ?c = "id_alphabet ! nat (n mod 64)"
    have digit: "int (id_index ?c) = n mod 64" by (simp add: id_index_nth nat_less_iff)
    have "id_value (?c # s) = (n mod 64) * 64 ^ length s + id_value s"
      using id_value_start [of "n mod 64" s] digit by (simp add: id_value_def)
    moreover have "id_value (encode_id_loop n s) = (n div 64) * 64 ^ Suc (length s) + id_value (?c # s)"
      using 1 True by (simp add: encode_id_loop.simps [of n])
    moreover have "((n div 64) * 64 + n mod 64) * 64 ^ length s = n * 64 ^ length s" by simp
    ultimately show ?thesis by (simp only: distrib_right power_Suc mult.assoc add.assoc)
  qed (use 1 in \<open>simp add: encode_id_loop.simps [of 0]\<close>)
qed

text \<open>\<open>encode_id\<close> writes a number in base 64: reading its digits back gives the number, so
  different libraries and modules never get the same tag.\<close>

lemma encode_id_roundtrip:
  assumes "0 \<le> n"
  shows "id_value (encode_id n) = n"
proof (cases "n = 0")
  case True
  have "id_index CHR ''A'' = 0" using id_index_nth [of 0] by (simp add: id_alphabet_def)
  with True show ?thesis by (simp add: encode_id_def id_value_def)
next
  case False
  with assms show ?thesis using encode_id_loop_value [of n "[]"] by (simp add: encode_id_def id_value_def)
qed

text \<open>The eleven characters of a 64-bit value: six bits each from the top, two zero bits at
  the end.\<close>

definition sextet :: "u64 \<Rightarrow> nat \<Rightarrow> nat" where
  "sextet v i = unat (take_bit 6 (if i = 10 then push_bit 2 v else drop_bit (58 - 6 * i) v))"

definition nid_encode :: "u64 \<Rightarrow> string" where
  "nid_encode v = map (\<lambda>i. id_alphabet ! sextet v i) [0..<11]"

lemma sextet_window:
  assumes "\<And>k. k < 6 \<Longrightarrow> bit (w :: u32) k = bit v (58 - 6 * i + k)" and "i < 10"
  shows "unat (w AND 63) = sextet v i"
proof -
  have m: "w AND 63 = take_bit 6 w" by (simp add: take_bit_eq_mask mask_eq_exp_minus_1)
  have "bit (unat (w AND 63)) k = bit (sextet v i) k" for k
    using assms unfolding m by (auto simp: sextet_def bit_simps add.commute)
  then show ?thesis by (rule bit_eqI)
qed

text \<open>Six bits of the accumulator after \<open>k\<close> bytes are six bits of the whole value.\<close>

lemma sextet_at:
  assumes "length d = 8" and "k \<le> 8" and "c + 6 \<le> 8 * k" and "c + 6 \<le> 32" and "64 - 8 * k + c = 58 - 6 * i"
    and "i < 10"
  shows "unat (drop_bit c (le_decode (drop (8 - k) d) :: u32) AND 63) = sextet (le_decode d) i"
proof (rule sextet_window [OF _ assms(6)])
  fix j :: nat assume j: "j < 6"
  let ?n = "c + j"
  have n: "?n < 32" "?n < 8 * k" using assms(3,4) j by auto
  have shift: "58 - 6 * i + j = 8 * (8 - k) + ?n" using assms(2,5) by simp
  have "?n div 8 < k" using n(2) by (simp add: less_mult_imp_div_less mult.commute)
  then show "bit (drop_bit c (le_decode (drop (8 - k) d) :: u32)) j = bit (le_decode d :: u64) (58 - 6 * i + j)"
    unfolding shift using n assms(1,2) by (auto simp: bit_drop_bit_eq bit_le_decode)
qed

lemma sextet_tail:
  assumes "length d = 8"
  shows "unat (push_bit 2 (le_decode d :: u32) AND 63) = sextet (le_decode d) 10"
proof -
  let ?w = "push_bit 2 (le_decode d) :: u32"
  have m: "?w AND 63 = take_bit 6 ?w" by (simp add: take_bit_eq_mask mask_eq_exp_minus_1)
  have "bit (unat (?w AND 63)) k = bit (sextet (le_decode d) 10) k" for k
    unfolding m using assms by (auto simp: sextet_def bit_simps bit_le_decode)
  then show ?thesis by (rule bit_eqI)
qed

lemma nid_byte_step:
  "nid_byte b (le_decode xs, c, r) =
     (le_decode (b # xs), nid_emit (le_decode (b # xs)) (c + 8) r)"
  by (simp add: nid_byte_def Let_def or.commute split: prod.splits)

lemma nid_emit_take: "6 \<le> c \<Longrightarrow> length r < 11 \<Longrightarrow> nid_emit w c r = nid_emit w (c - 6) (r @ [base64 ! unat (drop_bit (c - 6) w AND 63)])"
  and nid_emit_stop: "c < 6 \<Longrightarrow> nid_emit w c r = (c, r)"
  by (simp_all add: nid_emit.simps [of w c])

lemma nid_stream:
  assumes "d = [b7, b6, b5, b4, b3, b2, b1, b0]"
  shows "fold nid_byte (rev d) (0, 0, []) =
    (le_decode d, 4, map (\<lambda>i. base64 ! sextet (le_decode d) i) [0..<10])"
proof -
  have len: "length d = 8" by (simp add: assms)
  note at = sextet_at [OF len]
  have s: "unat (drop_bit 2 (le_decode [b0] :: u32) AND 63) = sextet (le_decode d) 0"
    "unat (drop_bit 4 (le_decode [b1, b0] :: u32) AND 63) = sextet (le_decode d) 1"
    "unat (drop_bit 6 (le_decode [b2, b1, b0] :: u32) AND 63) = sextet (le_decode d) 2"
    "unat (drop_bit 0 (le_decode [b2, b1, b0] :: u32) AND 63) = sextet (le_decode d) 3"
    "unat (drop_bit 2 (le_decode [b3, b2, b1, b0] :: u32) AND 63) = sextet (le_decode d) 4"
    "unat (drop_bit 4 (le_decode [b4, b3, b2, b1, b0] :: u32) AND 63) = sextet (le_decode d) 5"
    "unat (drop_bit 6 (le_decode [b5, b4, b3, b2, b1, b0] :: u32) AND 63) = sextet (le_decode d) 6"
    "unat (drop_bit 0 (le_decode [b5, b4, b3, b2, b1, b0] :: u32) AND 63) = sextet (le_decode d) 7"
    "unat (drop_bit 2 (le_decode [b6, b5, b4, b3, b2, b1, b0] :: u32) AND 63) = sextet (le_decode d) 8"
    "unat (drop_bit 4 (le_decode d :: u32) AND 63) = sextet (le_decode d) 9"
    using at [of 1 2 0] at [of 2 4 1] at [of 3 6 2] at [of 3 0 3] at [of 4 2 4] at [of 5 4 5]
      at [of 6 6 6] at [of 6 0 7] at [of 7 2 8] at [of 8 4 9]
    by (simp_all only: assms) simp_all
  have start: "(0 :: u32, 0 :: nat, [] :: string) = (le_decode [], 0, [])" by simp
  have ten: "[0..<10] = [0, 1, 2, 3, 4, 5, 6, 7, 8, 9 :: nat]" by (simp add: upt_rec flip: numeral_2_eq_2)
  note s' = s [unfolded assms] s(4,8) [unfolded assms drop_bit_0 id_apply]
  show ?thesis
    unfolding start ten
    by (simp add: assms nid_byte_step nid_emit_take nid_emit_stop s' [unfolded One_nat_def] del: le_decode.simps)
qed

lemma base64_dash:
  assumes "i < 64"
  shows "(if base64 ! i = CHR ''/'' then CHR ''-'' else base64 ! i) = id_alphabet ! i"
proof -
  let ?f = "\<lambda>c. if c = CHR ''/'' then CHR ''-'' else c"
  have all: "map ?f base64 = id_alphabet" by code_simp
  have "length base64 = 64" by code_simp
  then have "map ?f base64 ! i = ?f (base64 ! i)" using assms by (intro nth_map) simp
  then show ?thesis unfolding all by simp
qed

lemma sextet_bound: "sextet v i < 64"
proof -
  have "unat (take_bit 6 w) < 2 ^ 6" for w :: u64
    unfolding unsigned_take_bit_eq by (rule take_bit_nat_less_exp)
  then show ?thesis by (simp add: sextet_def)
qed

lemma nid_value: "nid name = nid_encode (le_decode (take 8 (sha1 (to_bytes name @ nid_suffix))))"
proof -
  define d where "d = take 8 (sha1 (to_bytes name @ nid_suffix))"
  define v :: u64 where "v = le_decode d"
  have len: "length d = 8" by (simp add: d_def)
  then obtain b0 b1 b2 b3 b4 b5 b6 b7 where "d = [b7, b6, b5, b4, b3, b2, b1, b0]"
    by (auto simp: length_Suc_conv eval_nat_numeral)
  note stream = nid_stream [OF this]
  have "nid name = map (\<lambda>c. if c = CHR ''/'' then CHR ''-'' else c)
      (resize 11 (CHR 0x00) (map (\<lambda>i. base64 ! sextet v i) [0..<10] @ [base64 ! sextet v 10]))"
    using sextet_tail [OF len] unfolding nid_def d_def [symmetric] Let_def stream prod.case v_def by simp
  also have "map (\<lambda>i. base64 ! sextet v i) [0..<10] @ [base64 ! sextet v 10] =
      map (\<lambda>i. base64 ! sextet v i) ([0..<10] @ [10])" by simp
  also have "[0..<10] @ [10] = [0..<11]" by (simp add: upt_rec)
  also have "map (\<lambda>c. if c = CHR ''/'' then CHR ''-'' else c)
      (resize 11 (CHR 0x00) (map (\<lambda>i. base64 ! sextet v i) [0..<11])) = nid_encode v"
    using sextet_bound [of v] by (auto simp: nid_encode_def base64_dash resize_def simp del: upt.simps)
  finally show ?thesis by (simp add: v_def d_def)
qed

text \<open>\<open>nid\<close> is the base-64 text of the first eight bytes of the salted SHA-1 digest, read as a
  little-endian number: eleven characters, six bits each from the top.\<close>

lemma nid_is_digest_text:
  "nid name = nid_encode (le_decode (take 8 (sha1 (to_bytes name @ nid_suffix))))"
  by (rule nid_value)

section \<open>The string table\<close>

text \<open>What the writer relies on: an added string reads back from its offset with the ELF
  reader, and later additions only extend the table.\<close>

fun add_all :: "('s \<Rightarrow> string \<Rightarrow> u32 \<times> 's) \<Rightarrow> 's \<Rightarrow> string list \<Rightarrow> u32 list \<times> 's" where
  "add_all add s [] = ([], s)"
| "add_all add s (name # names) =
     (let (offset, s) = add s name; (offsets, s) = add_all add s names in (offset # offsets, s))"

definition string_room :: "bytes \<Rightarrow> string list \<Rightarrow> bool" where
  "string_room table names \<longleftrightarrow> length table + sum_list (map (\<lambda>n. Suc (length n)) names) < 2 ^ 32"

lemma string_at_extend:
  assumes "elf_string_at table at = Inr name"
  shows "elf_string_at (table @ suffix) at = Inr name"
proof -
  obtain n where n: "at + n < length table" "table ! (at + n) = 0" "\<forall>k < n. table ! (at + k) \<noteq> 0"
    "name = of_bytes (chunk table at n)" using assms by (auto simp: elf_string_at_iff)
  then have "chunk (table @ suffix) at n = chunk table at n" by (simp add: chunk_def)
  with n show ?thesis unfolding elf_string_at_iff by (intro exI [of _ n]) (auto simp: nth_append)
qed

locale string_store =
  fixes store_ok :: "'s \<Rightarrow> bool"
    and contents :: "'s \<Rightarrow> bytes"
    and add :: "'s \<Rightarrow> string \<Rightarrow> u32 \<times> 's"
  assumes add_ok: "store_ok s \<Longrightarrow> CHR 0x00 \<notin> set name \<Longrightarrow> string_room (contents s) [name] \<Longrightarrow>
      add s name = (offset, s') \<Longrightarrow>
      store_ok s' \<and> elf_string_at (contents s') (unat offset) = Inr name \<and>
      (\<exists>suffix. contents s' = contents s @ suffix \<and> length suffix \<le> Suc (length name))"
begin

lemma add_all_reads:
  assumes "store_ok s" and "\<forall>name \<in> set names. CHR 0x00 \<notin> set name"
    and "string_room (contents s) names" and "add_all add s names = (offsets, s')"
  shows "store_ok s' \<and> length offsets = length names \<and>
    (\<forall>i < length names. elf_string_at (contents s') (unat (offsets ! i)) = Inr (names ! i)) \<and>
    (\<exists>suffix. contents s' = contents s @ suffix)"
  using assms
proof (induction names arbitrary: s offsets)
  case Nil
  then show ?case by simp
next
  case (Cons name names)
  obtain off s1 where step: "add s name = (off, s1)" by (metis surj_pair)
  obtain offs where rest: "add_all add s1 names = (offs, s')" and offsets: "offsets = off # offs"
    using Cons.prems(4) step by (auto split: prod.splits)
  have "store_ok s1 \<and> elf_string_at (contents s1) (unat off) = Inr name \<and>
      (\<exists>suffix. contents s1 = contents s @ suffix \<and> length suffix \<le> Suc (length name))"
    using Cons.prems by (intro add_ok [OF _ _ _ step]) (auto simp: string_room_def)
  then obtain suffix where s1: "store_ok s1" "elf_string_at (contents s1) (unat off) = Inr name"
    "contents s1 = contents s @ suffix" "length suffix \<le> Suc (length name)" by blast
  have IH: "store_ok s' \<and> length offs = length names \<and>
      (\<forall>i < length names. elf_string_at (contents s') (unat (offs ! i)) = Inr (names ! i)) \<and>
      (\<exists>suffix. contents s' = contents s1 @ suffix)"
    using Cons.prems s1 by (intro Cons.IH [OF _ _ _ rest]) (auto simp: string_room_def)
  then obtain suffix' where ext: "contents s' = contents s1 @ suffix'" by blast
  have "elf_string_at (contents s') (unat off) = Inr name"
    unfolding ext using s1(2) by (rule string_at_extend)
  with IH offsets ext s1(3) show ?case by (auto simp: nth_Cons split: nat.splits)
qed

end

text \<open>The class of the code: every recorded offset reads its string.\<close>

definition st_ok :: "string_table \<Rightarrow> bool" where
  "st_ok t \<longleftrightarrow> (\<forall>name offset. st_offsets t name = Some offset \<longrightarrow>
     elf_string_at (st_data t) (unat offset) = Inr name)"

lemma string_at_appended:
  assumes "CHR 0x00 \<notin> set name" and "at = length table"
  shows "elf_string_at (table @ to_bytes name @ [0]) at = Inr name"
proof -
  let ?t = "table @ to_bytes name @ [0]"
  have "(word_of_nat (of_char c) :: u8) \<noteq> 0" if "c \<in> set name" for c
  proof
    assume "(word_of_nat (of_char c) :: u8) = 0"
    then have "c = CHR 0x00" using to_bytes_inj [of "[c]" "[CHR 0x00]"] by (simp add: to_bytes_def)
    with that assms(1) show False by simp
  qed
  then have "\<forall>k < length name. ?t ! (at + k) \<noteq> 0"
    by (auto simp: assms(2) nth_append to_bytes_def)
  then show ?thesis
    unfolding elf_string_at_iff
    by (intro exI [of _ "length name"]) (simp add: assms(2) nth_append chunk_def)
qed

interpretation st: string_store st_ok st_data st_add
proof
  fix s name offset s'
  assume ok: "st_ok s" and nul: "CHR 0x00 \<notin> set name" and room: "string_room (st_data s) [name]"
    and add: "st_add s name = (offset, s')"
  show "st_ok s' \<and> elf_string_at (st_data s') (unat offset) = Inr name \<and>
      (\<exists>suffix. st_data s' = st_data s @ suffix \<and> length suffix \<le> Suc (length name))"
  proof (cases "st_offsets s name")
    case None
    then have off: "offset = of_nat (length (st_data s))"
      and s': "s' = \<lparr>st_data = st_data s @ to_bytes name @ [0], st_offsets = (st_offsets s)(name \<mapsto> offset)\<rparr>"
      using add by (auto simp: st_add_def Let_def)
    have "unat offset = length (st_data s)"
      using room off by (simp add: string_room_def unat_of_nat_small)
    then have "elf_string_at (st_data s') (unat offset) = Inr name"
      using string_at_appended [OF nul] s' by simp
    with ok s' show ?thesis by (auto simp: st_ok_def string_at_extend)
  next
    case (Some off)
    with ok add show ?thesis by (auto simp: st_add_def st_ok_def)
  qed
qed

text \<open>Every string added to the string table can be read back from the offset that \<open>add\<close>
  returned, whatever is added after it.\<close>

lemma string_table_roundtrip:
  assumes "\<forall>name \<in> set names. CHR 0x00 \<notin> set name" and "string_room [0] names"
    and "add_all st_add st_new names = (offsets, t)"
  shows "length offsets = length names \<and>
    (\<forall>i < length names. elf_string_at (st_data t) (unat (offsets ! i)) = Inr (names ! i))"
  using st.add_all_reads [of st_new names offsets t] assms by (simp add: st_new_def st_ok_def)

section \<open>The symbol hash\<close>

interpretation mht: word_table mod_read_u32 mod_write_u32
  by unfold_locales

definition symbol_bucket :: "string list \<Rightarrow> nat \<Rightarrow> nat" where
  "symbol_bucket names i = unat (elf_hash (names ! i)) mod length names"

lemma hash_insert_slots:
  "hash_insert names i table = rbind (mod_read_u32 table (bucket_at (symbol_bucket names i))) (\<lambda>previous.
     rbind (mod_write_u32 table (chain_at (length names) i) previous) (\<lambda>t.
     mod_write_u32 t (bucket_at (symbol_bucket names i)) (of_nat i)))"
  by (simp add: hash_insert_def symbol_bucket_def bucket_at_def chain_at_def Let_def)

lemma build_sysv_hash_ok:
  assumes "names \<noteq> []" and "length names < 2 ^ 32"
  shows "\<exists>table. build_sysv_hash names = Inr table \<and>
    hash_table_ok (symbol_bucket names) (length names) 1 table"
proof -
  let ?n = "length names"
  have n: "0 < ?n" using assms(1) by simp
  obtain t0 where t0: "rbind (mod_write_u32 (replicate (8 + ?n * 8) 0) 0 (of_nat ?n))
      (\<lambda>t. mod_write_u32 t 4 (of_nat ?n)) = Inr t0" "hash_table_ok (symbol_bucket names) ?n ?n t0"
    using mht.empty_table [OF n assms(2)] by blast
  have "\<exists>table. rfold (hash_insert names) (rev [1..<?n]) t0 = Inr table \<and>
      hash_table_ok (symbol_bucket names) ?n 1 table"
    using t0(2) n assms(2) by (intro mht.insert_all) (simp_all add: hash_insert_slots symbol_bucket_def)
  moreover have "build_sysv_hash names = rfold (hash_insert names) (rev [1..<?n]) t0"
    using t0(1) assms(1) by (auto simp: build_sysv_hash_def Let_def rbind_Inr_iff)
  ultimately show ?thesis by auto
qed

text \<open>C10. The loader finds every symbol: starting at the bucket of a name's hash and following the
  chain visits exactly the symbols that hash to that bucket, in ascending order, and stops.\<close>

theorem sysv_hash_complete:
  assumes "names \<noteq> []" and "length names < 2 ^ 32"
  shows "\<exists>table. build_sysv_hash names = Inr table \<and> length table = 8 + length names * 8 \<and>
    slot table 0 = length names \<and> slot table 4 = length names \<and>
    (\<forall>b < length names. bucket_symbols table (length names) b =
       filter (\<lambda>i. unat (elf_hash (names ! i)) mod length names = b) [1..<length names])"
  using build_sysv_hash_ok [OF assms] hash_table_ok_bucket_symbols
  by (fastforce simp: hash_table_ok_def symbol_bucket_def)

theorem sysv_hash_complete_witness:
  "\<exists>table. build_sysv_hash [[], ''a'', ''b'', ''c''] = Inr table \<and> bucket_symbols table 4 1 = [1]"
proof -
  let ?names = "[[], ''a'', ''b'', ''c'']"
  have len: "length ?names = 4" by simp
  have "elf_hash ''a'' = 0x61" "elf_hash ''b'' = 0x62" "elf_hash ''c'' = 0x63"
    by (simp_all add: elf_hash_def elf_hash_step_def to_bytes_def)
  moreover have "[1..<4] = [1, 2, 3 :: nat]" by (simp add: upt_rec)
  ultimately have "filter (\<lambda>i. unat (elf_hash (?names ! i)) mod 4 = 1) [1..<4] = [1]" by simp
  then show ?thesis using sysv_hash_complete [of ?names, unfolded len] by auto
qed

section \<open>Relocations\<close>

definition relocation_ops :: "nat \<times> dynamic_relocation \<Rightarrow> (nat \<times> bytes) list" where
  "relocation_ops row = (case row of (i, r) \<Rightarrow>
     [(i * 24, le_encode 8 (dr_offset r)), (i * 24 + 8, le_encode 8 (dr_info r)),
      (i * 24 + 16, le_encode 8 (dr_addend r))])"

text \<open>Rows of a fixed size, written one after the other.\<close>

lemma rows_ascending:
  assumes "\<And>i x. ascending (base + i * n) (ops (i, x)) (base + Suc i * n)"
  shows "ascending (base + k * n) (concat (map ops (zip [k..<k + length xs] xs))) (base + (k + length xs) * n)"
proof (induction xs arbitrary: k)
  case (Cons x xs)
  have "[k..<k + length (x # xs)] = k # [Suc k..<Suc k + length xs]" by (subst upt_conv_Cons) simp_all
  then show ?case using ascending_append [OF assms [of k x] Cons.IH [of "Suc k"]] by simp
qed simp

lemma rows_emit:
  assumes "\<And>i x. base + Suc i * n \<le> hi \<Longrightarrow> emits hi (f (i, x)) (ops (i, x))"
    and "base + length xs * n \<le> hi"
  shows "emits hi (rfold f (zip [0..<length xs] xs)) (concat (map ops (zip [0..<length xs] xs)))"
proof (rule emits_rfold)
  fix row assume row: "row \<in> set (zip [0..<length xs] xs)"
  then obtain i x where ix: "row = (i, x)" "i < length xs" by (auto simp: set_zip)
  have "Suc i * n \<le> length xs * n" using ix(2) by (intro mult_le_mono1) simp
  then show "emits hi (f row) (ops row)" using assms ix(1) by simp
qed

lemma row_in_zip: "i < length xs \<Longrightarrow> (i, xs ! i) \<in> set (zip [0..<length xs] xs)"
  by (auto simp: set_zip intro!: exI [of _ i])

text \<open>Relocations are read back as they were written.\<close>

lemma relocation_row:
  "ascending (i * 24) (relocation_ops (i, r)) (Suc i * 24)"
  "Suc i * 24 \<le> hi \<Longrightarrow> hi < 2 ^ 64 \<Longrightarrow> emits hi (write_relocation (i, r)) (relocation_ops (i, r))"
proof -
  show "ascending (i * 24) (relocation_ops (i, r)) (Suc i * 24)" by (simp add: relocation_ops_def)
  assume "Suc i * 24 \<le> hi" "hi < 2 ^ 64"
  then have "emits hi (\<lambda>d. rbind (mod_write_u64 d (i * 24) (dr_offset r)) (\<lambda>d.
      rbind (mod_write_u64 d (i * 24 + 8) (dr_info r)) (\<lambda>d. mod_write_u64 d (i * 24 + 16) (dr_addend r))))
      ([(i * 24, le_encode 8 (dr_offset r))] @ [(i * 24 + 8, le_encode 8 (dr_info r))] @
       [(i * 24 + 16, le_encode 8 (dr_addend r))])"
    by (intro emits_bind m64.emits_wr) simp_all
  then show "emits hi (write_relocation (i, r)) (relocation_ops (i, r))"
    unfolding write_relocation_def relocation_ops_def by simp
qed

lemma write_relocations_puts:
  assumes "length rs * 24 < 2 ^ 64"
  shows "\<exists>table. write_relocations rs = Inr table \<and> length table = length rs * 24 \<and>
    exhibits table (concat (map relocation_ops (zip [0..<length rs] rs)))"
proof -
  let ?n = "length rs * 24" and ?ops = "concat (map relocation_ops (zip [0..<length rs] rs))"
  have asc: "ascending 0 ?ops ?n"
    using rows_ascending [of 0 24 relocation_ops 0 rs] relocation_row(1) by simp
  have "emits ?n (rfold write_relocation (zip [0..<length rs] rs)) ?ops"
    using assms by (intro rows_emit [where base = 0 and n = 24]) (simp_all add: relocation_row(2) [simplified])
  then have "write_relocations rs = Inr (puts ?ops (replicate ?n 0))"
    unfolding write_relocations_def by (rule emitsD) simp
  with exhibits_puts [OF asc, of "replicate ?n 0"] length_puts [OF asc, of "replicate ?n 0"]
  show ?thesis by simp
qed

lemma relocation_read:
  assumes "exhibits table (concat (map relocation_ops (zip [0..<length rs] rs)))" and "i < length rs"
    and "length rs * 24 < 2 ^ 64"
  shows "read_dynamic_relocation table (i * 24) = Inr (rs ! i)"
proof -
  have "(i, rs ! i) \<in> set (zip [0..<length rs] rs)" using assms(2) by (rule row_in_zip)
  then have "exhibits table (relocation_ops (i, rs ! i))"
    using assms(1) by (auto simp: exhibits_def)
  note row = m64.exhibits_rd [OF this]
  have "Suc i * 24 \<le> length rs * 24" using assms(2) by (intro mult_le_mono1) simp
  then have "mod_read_u64 table (i * 24) = Inr (dr_offset (rs ! i))"
    "mod_read_u64 table (i * 24 + 8) = Inr (dr_info (rs ! i))"
    "mod_read_u64 table (i * 24 + 16) = Inr (dr_addend (rs ! i))"
    using assms(3) by (auto intro!: row simp: relocation_ops_def)
  then show ?thesis by (simp add: read_dynamic_relocation_def)
qed

text \<open>\<open>write_relocations\<close> and \<open>read_relocations\<close> are inverse: a table that was written reads
  back as the same relocations in the same order.\<close>

lemma relocations_roundtrip:
  assumes "length rs * 24 < 2 ^ 64"
  shows "\<exists>table. write_relocations rs = Inr table \<and>
    (\<forall>s. sec_data s = table \<longrightarrow> sec_entry_size s = 24 \<longrightarrow> read_relocations (Some s) = Inr rs)"
proof -
  obtain table where table: "write_relocations rs = Inr table" "length table = length rs * 24"
    "exhibits table (concat (map relocation_ops (zip [0..<length rs] rs)))"
    using write_relocations_puts [OF assms] by blast
  have "rmap (read_dynamic_relocation table) (map (\<lambda>i. i * 24) [0..<length rs]) = Inr rs"
    unfolding rmap_Inr_iff list_all2_conv_all_nth using relocation_read [OF table(3) _ assms] by simp
  then show ?thesis using table by (auto simp: read_relocations_def strides_def)
qed

section \<open>The dynamic table\<close>

definition dynamic_ops :: "nat \<times> u64 \<times> u64 \<Rightarrow> (nat \<times> bytes) list" where
  "dynamic_ops row = (case row of (i, tag, value) \<Rightarrow>
     [(i * 16, le_encode 8 tag), (i * 16 + 8, le_encode 8 value)])"

lemma dynamic_row:
  "ascending (i * 16) (dynamic_ops (i, e)) (Suc i * 16)"
  "Suc i * 16 \<le> hi \<Longrightarrow> hi < 2 ^ 64 \<Longrightarrow> emits hi (write_dynamic_entry (i, e)) (dynamic_ops (i, e))"
proof -
  obtain tag v where e: "e = (tag, v)" by (cases e)
  show "ascending (i * 16) (dynamic_ops (i, e)) (Suc i * 16)" by (simp add: dynamic_ops_def e)
  assume "Suc i * 16 \<le> hi" "hi < 2 ^ 64"
  then have "emits hi (\<lambda>d. rbind (mod_write_u64 d (i * 16) tag) (\<lambda>d. mod_write_u64 d (i * 16 + 8) v))
      ([(i * 16, le_encode 8 tag)] @ [(i * 16 + 8, le_encode 8 v)])"
    by (intro emits_bind m64.emits_wr) simp_all
  then show "emits hi (write_dynamic_entry (i, e)) (dynamic_ops (i, e))"
    unfolding write_dynamic_entry_def dynamic_ops_def e by simp
qed

lemma dynamic_entries_written:
  assumes "length entries * 16 < 2 ^ 64"
  shows "\<exists>table. rfold write_dynamic_entry (zip [0..<length entries] entries)
      (replicate (length entries * 16) 0) = Inr table \<and> length table = length entries * 16 \<and>
    (\<forall>i < length entries. mod_read_u64 table (i * 16) = Inr (fst (entries ! i)) \<and>
       mod_read_u64 table (i * 16 + 8) = Inr (snd (entries ! i)))"
proof -
  let ?n = "length entries * 16" and ?ops = "concat (map dynamic_ops (zip [0..<length entries] entries))"
  have asc: "ascending 0 ?ops ?n"
    using rows_ascending [of 0 16 dynamic_ops 0 entries] dynamic_row(1) by simp
  have "emits ?n (rfold write_dynamic_entry (zip [0..<length entries] entries)) ?ops"
    using assms by (intro rows_emit [where base = 0 and n = 16]) (simp_all add: dynamic_row(2) [simplified])
  then have run: "rfold write_dynamic_entry (zip [0..<length entries] entries) (replicate ?n 0) =
      Inr (puts ?ops (replicate ?n 0))" by (rule emitsD) simp
  let ?t = "puts ?ops (replicate ?n 0)"
  have shown: "exhibits ?t ?ops" using exhibits_puts [OF asc] by simp
  have "mod_read_u64 ?t (i * 16) = Inr (fst (entries ! i)) \<and> mod_read_u64 ?t (i * 16 + 8) = Inr (snd (entries ! i))"
    if i: "i < length entries" for i
  proof -
    have "(i, entries ! i) \<in> set (zip [0..<length entries] entries)" using i by (rule row_in_zip)
    then have "exhibits ?t (dynamic_ops (i, entries ! i))" using shown by (auto simp: exhibits_def)
    note row = m64.exhibits_rd [OF this]
    have "Suc i * 16 \<le> ?n" using i by (intro mult_le_mono1) simp
    then show ?thesis using assms by (auto intro!: row simp: dynamic_ops_def case_prod_unfold)
  qed
  with run length_puts [OF asc, of "replicate ?n 0"] show ?thesis by auto
qed

text \<open>A scan of such a table returns the value of the first entry with the tag, before the end mark.\<close>

lemma dynamic_scan_entries:
  assumes "\<And>i. i < length entries \<Longrightarrow> mod_read_u64 table (i * 16) = Inr (fst (entries ! i)) \<and>
      mod_read_u64 table (i * 16 + 8) = Inr (snd (entries ! i))"
    and "k < length entries" and "fst (entries ! k) = wanted"
    and "\<And>i. i < k \<Longrightarrow> fst (entries ! i) \<noteq> wanted \<and> fst (entries ! i) \<noteq> 0"
  shows "dynamic_scan table wanted (map (\<lambda>i. i * 16) [0..<length entries]) = Inr (snd (entries ! k))"
proof -
  have "dynamic_scan table wanted (map (\<lambda>i. i * 16) [j..<length entries]) = Inr (snd (entries ! k))"
    if "j \<le> k" for j
    using that
  proof (induction j rule: inc_induct)
    case base
    show ?case using assms(1) [OF assms(2)] assms(2,3) by (simp add: upt_conv_Cons)
  next
    case (step j)
    then have "j < length entries" using assms(2) by simp
    with step assms(1) [of j] assms(4) [of j] show ?case by (simp add: upt_conv_Cons)
  qed
  then show ?thesis by simp
qed

definition dynamic_entries ::
    "module_record list \<Rightarrow> library_record list \<Rightarrow> dynamic_args \<Rightarrow> (u64 \<times> u64) list" where
  "dynamic_entries modules libraries a = concat (map (module_entries libraries) modules) @ fixed_entries a"

lemma module_entry_tags:
  "e \<in> set (concat (map (module_entries libraries) modules)) \<Longrightarrow>
     fst e \<in> {1, 0x61000045, 0x61000049, 0x61000019}"
  by (auto simp: module_entries_def library_entries_def split: if_splits)

lemma fixed_entry_tags:
  "distinct (map fst (fixed_entries a))" "length (fixed_entries a) = 28" "fst (fixed_entries a ! 27) = 0"
  by (simp_all add: fixed_entries_def)

lemma fixed_entries_foreign:
  "e \<in> set (fixed_entries a) \<Longrightarrow> fst e \<notin> {1, 0x61000045, 0x61000049, 0x61000019}"
  by (auto simp: fixed_entries_def)

lemma fixed_entry_position:
  assumes "(tag, value) \<in> set (fixed_entries a)" and "tag \<noteq> 0"
  obtains k where "k < length (dynamic_entries modules libraries a)"
    "dynamic_entries modules libraries a ! k = (tag, value)"
    "\<And>i. i < k \<Longrightarrow> fst (dynamic_entries modules libraries a ! i) \<noteq> tag \<and>
       fst (dynamic_entries modules libraries a ! i) \<noteq> 0"
proof -
  let ?M = "concat (map (module_entries libraries) modules)" and ?F = "fixed_entries a"
  note tags = fixed_entry_tags [of a]
  obtain j where j: "j < 28" "?F ! j = (tag, value)" using assms(1) tags(2) by (auto simp: in_set_conv_nth)
  have j27: "j < 27" using j tags(3) assms(2) by (cases "j = 27") auto
  have other: "fst (?F ! i) \<noteq> fst (?F ! l)" if "i < 28" "l < 28" "i \<noteq> l" for i l
    using tags(1,2) that by (metis distinct_conv_nth length_map nth_map)
  have M: "fst (?M ! i) \<noteq> tag \<and> fst (?M ! i) \<noteq> 0" if "i < length ?M" for i
  proof -
    have "fst (?M ! i) \<in> {1, 0x61000045, 0x61000049, 0x61000019}"
      using module_entry_tags nth_mem that by blast
    then show ?thesis using fixed_entries_foreign [OF assms(1)] by auto
  qed
  have before: "fst ((?M @ ?F) ! i) \<noteq> tag \<and> fst ((?M @ ?F) ! i) \<noteq> 0" if "i < length ?M + j" for i
  proof (cases "i < length ?M")
    case False
    then have "i - length ?M < j" using that by simp
    then show ?thesis
      using other [of "i - length ?M" j] other [of "i - length ?M" 27] j j27 tags(3) False
      by (simp add: nth_append)
  qed (use M in \<open>simp add: nth_append\<close>)
  show ?thesis
    by (rule that [of "length ?M + j"]) (use j before tags(2) in \<open>simp_all add: dynamic_entries_def nth_append\<close>)
qed

text \<open>The dynamic table says what it was built from: looking a fixed tag up in the table that
  \<open>build_dynamic\<close> returns gives the value passed for it, whatever modules precede it.\<close>

lemma dynamic_table_lookup:
  assumes "length (dynamic_entries modules libraries a) * 16 < 2 ^ 64"
  shows "\<exists>table. build_dynamic modules libraries a = Inr table \<and>
    (\<forall>s tag value. sec_data s = table \<longrightarrow> sec_entry_size s = 16 \<longrightarrow>
       (tag, value) \<in> set (fixed_entries a) \<longrightarrow> tag \<noteq> 0 \<longrightarrow> dynamic_value s tag = Inr value)"
proof -
  let ?E = "dynamic_entries modules libraries a"
  obtain table where table: "rfold write_dynamic_entry (zip [0..<length ?E] ?E) (replicate (length ?E * 16) 0) =
      Inr table" "length table = length ?E * 16"
    "\<forall>i < length ?E. mod_read_u64 table (i * 16) = Inr (fst (?E ! i)) \<and>
       mod_read_u64 table (i * 16 + 8) = Inr (snd (?E ! i))"
    using dynamic_entries_written [OF assms] by blast
  have "build_dynamic modules libraries a = Inr table"
    using table(1) by (simp add: build_dynamic_def Let_def dynamic_entries_def)
  moreover have "dynamic_value s tag = Inr v"
    if s: "sec_data s = table" "sec_entry_size s = 16" and e: "(tag, v) \<in> set (fixed_entries a)" "tag \<noteq> 0"
    for s :: elf_section and tag v
  proof -
    obtain k where k: "k < length ?E" "?E ! k = (tag, v)"
      "\<And>i. i < k \<Longrightarrow> fst (?E ! i) \<noteq> tag \<and> fst (?E ! i) \<noteq> 0"
      using fixed_entry_position [OF e] by blast
    have "dynamic_scan table tag (map (\<lambda>i. i * 16) [0..<length ?E]) = Inr (snd (?E ! k))"
      using table(3) k by (intro dynamic_scan_entries) auto
    then show ?thesis using s table(2) k(2) by (simp add: dynamic_value_def strides_def)
  qed
  ultimately show ?thesis by blast
qed

definition sample_args :: dynamic_args where
  "sample_args = \<lparr>da_module_info_name = 1, da_original_file_name = 2, da_symbol_table = 0x8000,
     da_string_table = 0x9000, da_string_size = 16, da_hash_table = 0xA000, da_hash_size = 24,
     da_jump_relocations = 0, da_jump_relocations_size = 0, da_got = 0xB000, da_symbol_table_size = 48,
     da_relocations = 0, da_relocations_size = 0, da_relative_count = 0, da_preinit = 0,
     da_preinit_size = 0, da_init_array = 0, da_init_array_size = 0, da_fini_array = 0,
     da_fini_array_size = 0, da_init = 0, da_fini = 0\<rparr>"

end
