(* ===== verification/Module_Executable.thy ===== *)
theory Module_Executable
  imports Module_Properties
begin

text \<open>
  The file that \<open>write_executable\<close> returns: its ELF header and its fourteen program headers can
  be read back from it, the build identity does not overwrite them, and every loadable
  segment is congruent with its address modulo the page size.
\<close>

section \<open>Headers as writes\<close>

definition elf_header_ops :: "u64 \<Rightarrow> (nat \<times> bytes) list" where
  "elf_header_ops entry =
     [(0, [0x7f]), (1, [0x45]), (2, [0x4c]), (3, [0x46]), (4, [2]), (5, [1]), (6, [1]), (7, [9]), (8, [2]),
      (0x10, le_encode 2 (0xfe10 :: u16)), (0x12, le_encode 2 (0x3e :: u16)),
      (0x14, le_encode 4 (1 :: u32)), (0x18, le_encode 8 entry), (0x20, le_encode 8 (0x40 :: u64)),
      (0x28, le_encode 8 (0 :: u64)), (0x30, le_encode 4 (0 :: u32)),
      (0x34, le_encode 2 (0x40 :: u16)), (0x36, le_encode 2 (0x38 :: u16)),
      (0x38, le_encode 2 (14 :: u16)), (0x3a, le_encode 2 (0x40 :: u16)),
      (0x3c, le_encode 2 (0 :: u16)), (0x3e, le_encode 2 (0 :: u16))]"

definition header_row_ops :: "nat \<times> program_header \<Rightarrow> (nat \<times> bytes) list" where
  "header_row_ops row = (case row of (i, h) \<Rightarrow>
     [(0x40 + i * 0x38, le_encode 4 (prg_type h)), (0x40 + i * 0x38 + 4, le_encode 4 (prg_flags h)),
      (0x40 + i * 0x38 + 8, le_encode 8 (prg_offset h)), (0x40 + i * 0x38 + 16, le_encode 8 (prg_address h)),
      (0x40 + i * 0x38 + 24, le_encode 8 (prg_address h)), (0x40 + i * 0x38 + 32, le_encode 8 (prg_file_size h)),
      (0x40 + i * 0x38 + 40, le_encode 8 (prg_memory_size h)),
      (0x40 + i * 0x38 + 48, le_encode 8 (prg_alignment h))])"

lemma emits_cons:
  assumes "emits hi m [op]" and "emits hi k ops"
  shows "emits hi (\<lambda>d. rbind (m d) (\<lambda>d. k d)) (op # ops)"
  using emits_bind [OF assms] by simp

lemmas module_writes = m16.emits_wr m32.emits_wr m64.emits_wr emits_set_byte

lemma elf_header_ascending: "ascending 0 (elf_header_ops entry) 0x40"
  by (simp add: elf_header_ops_def)

lemma elf_header_emits:
  assumes "0x4000 \<le> hi" and "hi < 2 ^ 64"
  shows "emits hi (write_elf_header entry) (elf_header_ops entry)"
proof -
  have "emits hi (\<lambda>d. rbind (set_byte d 0 0x7f) (\<lambda>output.
     rbind (set_byte output 1 0x45) (\<lambda>output.
     rbind (set_byte output 2 0x4c) (\<lambda>output.
     rbind (set_byte output 3 0x46) (\<lambda>output.
     rbind (set_byte output 4 2) (\<lambda>output.
     rbind (set_byte output 5 1) (\<lambda>output.
     rbind (set_byte output 6 1) (\<lambda>output.
     rbind (set_byte output 7 9) (\<lambda>output.
     rbind (set_byte output 8 2) (\<lambda>output.
     rbind (mod_write_u16 output 0x10 0xfe10) (\<lambda>output.
     rbind (mod_write_u16 output 0x12 0x3e) (\<lambda>output.
     rbind (mod_write_u32 output 0x14 1) (\<lambda>output.
     rbind (mod_write_u64 output 0x18 entry) (\<lambda>output.
     rbind (mod_write_u64 output 0x20 0x40) (\<lambda>output.
     rbind (mod_write_u64 output 0x28 0) (\<lambda>output.
     rbind (mod_write_u32 output 0x30 0) (\<lambda>output.
     rbind (mod_write_u16 output 0x34 0x40) (\<lambda>output.
     rbind (mod_write_u16 output 0x36 0x38) (\<lambda>output.
     rbind (mod_write_u16 output 0x38 14) (\<lambda>output.
     rbind (mod_write_u16 output 0x3a 0x40) (\<lambda>output.
     rbind (mod_write_u16 output 0x3c 0) (\<lambda>output.
     mod_write_u16 output 0x3e 0)))))))))))))))))))))) (elf_header_ops entry)"
    unfolding elf_header_ops_def using assms by (intro emits_cons module_writes) simp_all
  then show ?thesis using assms unfolding emits_def write_elf_header_def by simp
qed

lemma header_row:
  "ascending (0x40 + i * 0x38) (header_row_ops (i, h)) (0x40 + Suc i * 0x38)"
  "0x40 + Suc i * 0x38 \<le> hi \<Longrightarrow> hi < 2 ^ 64 \<Longrightarrow> emits hi (write_program_header (i, h)) (header_row_ops (i, h))"
proof -
  show "ascending (0x40 + i * 0x38) (header_row_ops (i, h)) (0x40 + Suc i * 0x38)"
    by (simp add: header_row_ops_def)
  assume "0x40 + Suc i * 0x38 \<le> hi" "hi < 2 ^ 64"
  then show "emits hi (write_program_header (i, h)) (header_row_ops (i, h))"
    unfolding write_program_header_def header_row_ops_def Let_def prod.case
    by (intro emits_cons module_writes) simp_all
qed

definition exec_header_ops :: "u64 \<Rightarrow> program_header list \<Rightarrow> (nat \<times> bytes) list" where
  "exec_header_ops entry hs = elf_header_ops entry @ concat (map header_row_ops (zip [0..<length hs] hs))"

lemma exec_headers_ascending:
  "ascending 0 (exec_header_ops entry hs) (0x40 + length hs * 0x38)"
  unfolding exec_header_ops_def
  using ascending_append [OF elf_header_ascending] rows_ascending [of "0x40" "0x38" header_row_ops 0 hs] header_row(1)
  by simp

lemma exec_headers_emits:
  assumes "0x4000 \<le> hi" and "hi < 2 ^ 64" and "0x40 + length hs * 0x38 \<le> hi"
  shows "emits hi (\<lambda>d. rbind (write_elf_header entry d)
      (\<lambda>d. rfold write_program_header (zip [0..<length hs] hs) d)) (exec_header_ops entry hs)"
  unfolding exec_header_ops_def
  using assms by (intro emits_bind elf_header_emits rows_emit [where base = "0x40" and n = "0x38"] header_row(2))

text \<open>A program header as the loader reads it.\<close>

definition read_program_header :: "bytes \<Rightarrow> nat \<Rightarrow> program_header res" where
  "read_program_header data i =
     (let at = 0x40 + i * 0x38
      in rbind (mod_read_u32 data at) (\<lambda>type.
         rbind (mod_read_u32 data (at + 4)) (\<lambda>flags.
         rbind (mod_read_u64 data (at + 8)) (\<lambda>offset.
         rbind (mod_read_u64 data (at + 16)) (\<lambda>address.
         rbind (mod_read_u64 data (at + 32)) (\<lambda>file_size.
         rbind (mod_read_u64 data (at + 40)) (\<lambda>memory_size.
         rbind (mod_read_u64 data (at + 48)) (\<lambda>alignment.
         Inr \<lparr>prg_type = type, prg_flags = flags, prg_offset = offset, prg_address = address,
              prg_file_size = file_size, prg_memory_size = memory_size, prg_alignment = alignment\<rparr>))))))))"

lemma exhibited_header:
  assumes "exhibits data (exec_header_ops entry hs)" and "i < length hs" and "length hs < 2 ^ 16"
  shows "read_program_header data i = Inr (hs ! i)"
proof -
  have "exhibits data (header_row_ops (i, hs ! i))"
    using assms(1) row_in_zip [OF assms(2)] by (auto simp: exec_header_ops_def exhibits_def)
  note row32 = m32.exhibits_rd [OF this] and row64 = m64.exhibits_rd [OF this]
  have i: "i < 2 ^ 16" using assms(2,3) by simp
  let ?at = "0x40 + i * 0x38" and ?h = "hs ! i"
  have "mod_read_u32 data ?at = Inr (prg_type ?h)" "mod_read_u32 data (?at + 4) = Inr (prg_flags ?h)"
    "mod_read_u64 data (?at + 8) = Inr (prg_offset ?h)" "mod_read_u64 data (?at + 16) = Inr (prg_address ?h)"
    "mod_read_u64 data (?at + 32) = Inr (prg_file_size ?h)"
    "mod_read_u64 data (?at + 40) = Inr (prg_memory_size ?h)"
    "mod_read_u64 data (?at + 48) = Inr (prg_alignment ?h)"
    using i by (auto intro!: row32 row64 simp: header_row_ops_def)
  then show ?thesis unfolding read_program_header_def Let_def by (simp only: rbind_simps) simp
qed

section \<open>Where the tables land\<close>

definition executable_content :: "elf_image \<Rightarrow> elf_stub list \<Rightarrow> module_options \<Rightarrow> (exec_front \<times> exec_content) res" where
  "executable_content img stubs options =
     rbind (scan_image img options) (\<lambda>f. rbind (build_content img stubs options f) (\<lambda>c. Inr (f, c)))"

definition content_fits :: "elf_image \<Rightarrow> exec_content \<Rightarrow> bool" where
  "content_fits img c \<longleftrightarrow>
     copied_file_end (img_sections img) < 2 ^ 56 \<and> xc_data_end c < 2 ^ 56 \<and>
     (\<forall>b \<in> set [it_strings (xc_imports c), it_symbols (xc_imports c), xc_plt c, xc_rela c,
        it_hash (xc_imports c), xc_note c, xc_dynamic c, xc_comment c, xc_version c, xc_tail_note c].
        length b < 2 ^ 56)"

lemma align_up_bounds:
  assumes "unat v < 2 ^ 62" and "a = 4 \<or> a = 8 \<or> a = (16 :: u64)"
  shows "unat v \<le> unat (mod_align_up v a) \<and> unat (mod_align_up v a) < unat v + 16"
proof -
  have a: "1 < unat a" "unat a \<le> 16" using assms(2) by auto
  have u: "unat (mod_align_up v a) = (unat v + unat a - 1) div unat a * unat a"
    using a assms(1) by (intro mod_align_up_unat) simp_all
  have "unat v \<le> (unat v + unat a - 1) div unat a * unat a"
    using assms(2) by (elim disjE) simp_all
  moreover have "(unat v + unat a - 1) div unat a * unat a \<le> unat v + unat a - 1" by simp
  ultimately show ?thesis using u a by linarith
qed

text \<open>Advancing past \<open>n\<close> bytes and aligning.\<close>

lemma align_past:
  assumes "unat v < B" and "n < 2 ^ 56" and "a = 4 \<or> a = 8 \<or> a = (16 :: u64)" and "B \<le> 2 ^ 61"
  shows "unat v + n \<le> unat (mod_align_up (v + of_nat n) a)"
    and "unat (mod_align_up (v + of_nat n) a) < B + (2 ^ 56 + 16)"
proof -
  have "unat (v + of_nat n) = unat v + n"
    using assms by (simp add: unat_word_ariths unat_of_nat)
  then show "unat v + n \<le> unat (mod_align_up (v + of_nat n) a)"
    and "unat (mod_align_up (v + of_nat n) a) < B + (2 ^ 56 + 16)"
    using align_up_bounds [of "v + of_nat n" a] assms by simp_all
qed

text \<open>A sequence of address and content pairs, each starting after the one before it.\<close>

definition table_rows :: "exec_content \<Rightarrow> (u64 \<times> bytes) list" where
  "table_rows c =
     (let ta = xc_tables c; it = xc_imports c
      in [(ta_base ta, it_strings it), (ta_symbol ta, it_symbols it), (ta_jump ta, xc_plt c),
          (ta_relocation ta, xc_rela c), (ta_hash ta, it_hash it), (ta_note ta, xc_note c),
          (ta_dynamic ta, xc_dynamic c)])"

definition tables_placed :: "exec_content \<Rightarrow> bool" where
  "tables_placed c \<longleftrightarrow>
     xc_tables c = place_tables (xc_data_end c) (it_strings (xc_imports c)) (it_symbols (xc_imports c))
       (xc_plt c) (xc_rela c) (it_hash (xc_imports c)) (xc_note c)"

lemma table_rows_ascending:
  assumes "content_fits img c" and "tables_placed c"
  shows "ascending (unat (ta_base (xc_tables c))) (map (apfst unat) (table_rows c))
      (unat (ta_dynamic (xc_tables c)) + length (xc_dynamic c)) \<and>
    unat (ta_dynamic (xc_tables c)) < 2 ^ 60"
proof -
  let ?it = "xc_imports c" and ?ta = "xc_tables c"
  have len: "length (it_strings ?it) < 2 ^ 56" "length (it_symbols ?it) < 2 ^ 56" "length (xc_plt c) < 2 ^ 56"
    "length (xc_rela c) < 2 ^ 56" "length (it_hash ?it) < 2 ^ 56" "length (xc_note c) < 2 ^ 56"
    using assms(1) by (auto simp: content_fits_def)
  have "unat (xc_data_end c) < 2 ^ 56" using assms(1) by (simp add: content_fits_def word_less_nat_alt)
  then have base: "unat (ta_base ?ta) < 2 ^ 57"
    using assms(2) align_up_bounds [of "xc_data_end c" 16]
    by (simp add: tables_placed_def place_tables_def Let_def)
  have eqs: "ta_symbol ?ta = mod_align_up (ta_base ?ta + of_nat (length (it_strings ?it))) 8"
    "ta_jump ?ta = mod_align_up (ta_symbol ?ta + of_nat (length (it_symbols ?it))) 8"
    "ta_relocation ?ta = mod_align_up (ta_jump ?ta + of_nat (length (xc_plt c))) 8"
    "ta_hash ?ta = mod_align_up (ta_relocation ?ta + of_nat (length (xc_rela c))) 8"
    "ta_note ?ta = mod_align_up (ta_hash ?ta + of_nat (length (it_hash ?it))) 4"
    "ta_dynamic ?ta = mod_align_up (ta_note ?ta + of_nat (length (xc_note c))) 8"
    using assms(2) by (simp_all add: tables_placed_def place_tables_def Let_def)
  note s = align_past [OF base len(1), of 8, folded eqs(1), simplified]
  note j = align_past [OF s(2) len(2), of 8, folded eqs(2), simplified]
  note r = align_past [OF j(2) len(3), of 8, folded eqs(3), simplified]
  note h = align_past [OF r(2) len(4), of 8, folded eqs(4), simplified]
  note n = align_past [OF h(2) len(5), of 4, folded eqs(5), simplified]
  note d = align_past [OF n(2) len(6), of 8, folded eqs(6), simplified]
  show ?thesis using s(1) j(1) r(1) h(1) n(1) d by (simp add: table_rows_def Let_def)
qed

text \<open>The same rows in the file, followed by the three unloaded blocks.\<close>

definition file_rows :: "exec_content \<Rightarrow> file_places \<Rightarrow> (u64 \<times> bytes) list" where
  "file_rows c p =
     map (apfst (dynamic_file_at (fp_dynamic p) (ta_base (xc_tables c)))) (table_rows c) @
     [(fp_comment p, xc_comment c), (fp_version p, xc_version c), (fp_tail p, xc_tail_note c)]"

lemma ascending_rebase:
  assumes "ascending lo ops hi" and "b \<le> (lo :: nat)"
  shows "ascending (lo - b + d) (map (apfst (\<lambda>x. x - b + d)) ops) (hi - b + d)"
  using assms
proof (induction ops arbitrary: lo)
  case (Cons op ops)
  obtain a s where op: "op = (a, s)" by (cases op)
  then have "ascending (a + length s - b + d) (map (apfst (\<lambda>x. x - b + d)) ops) (hi - b + d)"
    using Cons by simp
  moreover have "a + length s - b + d = a - b + d + length s" using Cons.prems op by simp
  moreover have "lo - b + d \<le> a - b + d" using Cons.prems op by (simp add: diff_le_mono)
  ultimately show ?case using op by simp
qed simp

lemma file_at_unat:
  assumes "unat b \<le> unat x" and "unat x < 2 ^ 61" and "unat d < 2 ^ 61"
  shows "unat (dynamic_file_at d b x) = unat x - unat b + unat d"
proof -
  have "unat (x - b) = unat x - unat b" using assms(1) by (simp add: unat_sub word_le_nat_alt)
  then show ?thesis using assms by (simp add: dynamic_file_at_def unat_word_ariths)
qed

lemma copied_file_end_page: "kPage \<le> copied_file_end sections"
proof -
  have "kPage \<le> e \<Longrightarrow> kPage \<le> fold (\<lambda>s e. if \<not> elf_allocated s \<or> elf_no_bits s then e
      else max e (sec_file_offset s + of_nat (length (sec_data s)))) sections e" for e
    by (induction sections arbitrary: e) (auto simp: max_def)
  then show ?thesis unfolding copied_file_end_def by blast
qed

lemma congruent_offset_upper:
  assumes "unat minimum < 2 ^ 60"
  shows "unat (congruent_offset minimum address) < unat minimum + 2 * 0x4000"
proof -
  let ?r = "address mod kPage"
  have r: "unat ?r < 0x4000" by (simp add: unat_mod)
  show ?thesis
  proof (cases "minimum \<le> ?r")
    case True
    then show ?thesis using r by (simp add: congruent_offset_def Let_def)
  next
    case False
    then have v: "unat (minimum - ?r) = unat minimum - unat ?r" by (simp add: unat_sub word_le_nat_alt)
    then have "unat (mod_align_up (minimum - ?r) kPage) = (unat minimum - unat ?r + 0x3fff) div 0x4000 * 0x4000"
      using assms by (subst mod_align_up_unat) simp_all
    moreover have "\<dots> \<le> unat minimum - unat ?r + 0x3fff" by simp
    ultimately have "unat (mod_align_up (minimum - ?r) kPage) \<le> unat minimum - unat ?r + 0x3fff" by linarith
    moreover from False have "congruent_offset minimum address = mod_align_up (minimum - ?r) kPage + ?r"
      by (simp add: congruent_offset_def Let_def)
    ultimately show ?thesis using r assms by (simp add: unat_word_ariths)
  qed
qed

lemma file_rows_ascending:
  assumes fits: "content_fits img c" and placed: "tables_placed c" and p: "p = place_content img c"
  shows "ascending (unat (fp_dynamic p)) (map (apfst unat) (file_rows c p))
      (unat (fp_tail p) + length (xc_tail_note c)) \<and>
    0x4000 \<le> unat (fp_dynamic p) \<and> unat (fp_tail p) < 2 ^ 62"
proof -
  let ?ta = "xc_tables c"
  let ?b = "ta_base ?ta" and ?d = "fp_dynamic p"
  let ?fe = "copied_file_end (img_sections img)"
  have len: "length (xc_dynamic c) < 2 ^ 56" "length (xc_comment c) < 2 ^ 56" "length (xc_version c) < 2 ^ 56"
    using fits by (auto simp: content_fits_def)
  have e: "unat ?fe < 2 ^ 56" using fits by (simp add: content_fits_def word_less_nat_alt)
  have dyn: "?d = congruent_offset ?fe ?b" by (simp add: p place_content_def Let_def)
  have d: "0x4000 \<le> unat ?d" "unat ?d < 2 ^ 57"
    using congruent_offset_facts [of ?fe ?b] congruent_offset_upper [of ?fe ?b]
      copied_file_end_page [of "img_sections img"] e
    by (simp_all add: dyn word_le_nat_alt)
  note rows = table_rows_ascending [OF fits placed]
  then have asc: "ascending (unat ?b) (map (apfst unat) (table_rows c)) (unat (ta_dynamic ?ta) + length (xc_dynamic c))"
    and dt: "unat (ta_dynamic ?ta) < 2 ^ 60" by simp_all
  let ?hi = "unat (ta_dynamic ?ta) + length (xc_dynamic c)"
  have at: "unat ?b \<le> unat x \<and> unat x < 2 ^ 61" if "(x, s) \<in> set (table_rows c)" for x s
  proof -
    have "(unat x, s) \<in> set (map (apfst unat) (table_rows c))" using that by force
    then show ?thesis using ascending_mem [OF asc, of "unat x" s] dt len(1) by simp
  qed
  have eq: "map (apfst unat) (map (apfst (dynamic_file_at ?d ?b)) (table_rows c)) =
      map (apfst (\<lambda>x. x - unat ?b + unat ?d)) (map (apfst unat) (table_rows c))"
    using at d(2) by (auto simp: file_at_unat)
  have tables: "ascending (unat ?d) (map (apfst unat) (map (apfst (dynamic_file_at ?d ?b)) (table_rows c)))
      (?hi - unat ?b + unat ?d)"
    unfolding eq using ascending_rebase [OF asc order_refl, of "unat ?d"]
    by (simp only: diff_self_eq_0 add_0)
  let ?de = "ta_dynamic ?ta + of_nat (length (xc_dynamic c))"
  have de: "unat ?de = ?hi" using dt len(1) by (simp add: unat_word_ariths unat_of_nat)
  have "unat ?b \<le> ?hi" using ascending_le [OF asc] .
  then have file_end: "unat (dynamic_file_at ?d ?b ?de) = ?hi - unat ?b + unat ?d"
    using de dt len(1) d(2) by (subst file_at_unat) simp_all
  have cm: "fp_comment p = mod_align_up (dynamic_file_at ?d ?b ?de) 8"
    "fp_version p = mod_align_up (fp_comment p + of_nat (length (xc_comment c))) 4"
    "fp_tail p = mod_align_up (fp_version p + of_nat (length (xc_version c))) 4"
    by (simp_all add: p place_content_def Let_def)
  have top: "?hi - unat ?b + unat ?d < 2 ^ 61 - 16" using dt len(1) d(2) by simp
  have c: "?hi - unat ?b + unat ?d \<le> unat (fp_comment p)" "unat (fp_comment p) < 2 ^ 61"
    using align_up_bounds [of "dynamic_file_at ?d ?b ?de" 8] file_end cm(1) top by simp_all
  note v = align_past [OF c(2) len(2), of 4, folded cm(2), simplified]
  have v2: "unat (fp_version p) < 2 ^ 61 + 2 ^ 57" using v(2) by simp
  have t: "unat (fp_version p) + length (xc_version c) \<le> unat (fp_tail p)" "unat (fp_tail p) < 2 ^ 62"
    using align_up_bounds [of "fp_version p + of_nat (length (xc_version c))" 4] cm(3) v2 len(3)
    by (simp_all add: unat_word_ariths unat_of_nat)
  have rest: "ascending (?hi - unat ?b + unat ?d)
      (map (apfst unat) [(fp_comment p, xc_comment c), (fp_version p, xc_version c), (fp_tail p, xc_tail_note c)])
      (unat (fp_tail p) + length (xc_tail_note c))"
    using c(1) v(1) t(1) by simp
  show ?thesis unfolding file_rows_def map_append
    using ascending_append [OF tables rest] d(1) t(2) by simp
qed

section \<open>The file as a sequence of writes\<close>

lemma length_note:
  "build_note = Inr note \<Longrightarrow> length note = 0x24"
  "build_tail_note = Inr tail \<Longrightarrow> length tail = 0x18"
  by (auto simp: build_note_def build_tail_note_def m32.wr_in m32.enc_width)

lemma build_content_facts:
  assumes "build_content img stubs options f = Inr c"
  shows "tables_placed c" and "length (xc_note c) = 0x24" and "length (xc_tail_note c) = 0x18"
  using assms unfolding build_content_def Let_def case_prod_beta
  by (auto simp: tables_placed_def length_note res_simps)

lemma copies_Inr:
  assumes "rfold (\<lambda>(at, source) output. copy_bytes output (unat at) source) rows d = Inr d'"
  shows "d' = puts (map (apfst unat) rows) d \<and> length d' = length d"
  using assms
proof (induction rows arbitrary: d)
  case (Cons row rows)
  obtain a s where "row = (a, s)" by (cases row)
  then show ?case using Cons by (auto simp: res_simps)
qed simp

lemma content_copies_rows:
  "content_copies f c p relro =
     [(relro + xf_process_address f - rg_relro_start (xf_regions f), xf_process f),
      (relro + xf_blocks_address f - rg_relro_start (xf_regions f), pb_data (xf_blocks f))] @ file_rows c p"
  by (simp add: content_copies_def file_rows_def table_rows_def Let_def dynamic_file_at_def)

lemma copy_sections_length:
  "rfold copy_section sections d = Inr d' \<Longrightarrow> length d' = length d"
  by (induction sections arbitrary: d) (auto simp: copy_section_def res_simps split: if_splits)

text \<open>What a successful run did: the layout it chose and the file it made.\<close>

definition executable_headers :: "elf_image \<Rightarrow> exec_front \<Rightarrow> exec_content \<Rightarrow> u64 \<Rightarrow> u64 \<Rightarrow> program_header list" where
  "executable_headers img f c relro_file ro_file =
     program_headers (exec_layout_of f c (place_content img c) relro_file ro_file
       (optional_section img ''.eh_frame_hdr''))"

lemma length_executable_headers [simp]: "length (executable_headers img f c relro ro) = 14"
  by (simp add: executable_headers_def program_headers_def Let_def)

lemma write_executableE:
  assumes "write_executable img stubs options = Inr out" and "executable_content img stubs options = Inr (f, c)"
  obtains relro ro d1 d2 d3 d4 where
    "length d1 = unat (fp_tail (place_content img c) + of_nat (length (xc_tail_note c)))"
    "rfold (\<lambda>(at, source) output. copy_bytes output (unat at) source)
       (content_copies f c (place_content img c) relro) d1 = Inr d2"
    "write_elf_header (img_entry img) d2 = Inr d3"
    "rfold check_header (executable_headers img f c relro ro) () = Inr ()"
    "rfold write_program_header (zip [0..<14] (executable_headers img f c relro ro)) d3 = Inr d4"
    "seal_build_id c (place_content img c) d4 = Inr out"
proof -
  have fc: "scan_image img options = Inr f" "build_content img stubs options f = Inr c"
    using assms(2) by (auto simp: executable_content_def res_simps)
  let ?p = "place_content img c"
  from assms(1) obtain o1 and first :: elf_section and o2 o3 ro u o4 where run:
      "rfold copy_section (img_sections img)
         (replicate (unat (fp_tail ?p + of_nat (length (xc_tail_note c)))) 0) = Inr o1"
      "rfold (\<lambda>(at, source) output. copy_bytes output (unat at) source)
         (content_copies f c ?p (sec_file_offset first)) o1 = Inr o2"
      "write_elf_header (img_entry img) o2 = Inr o3"
      "rfold check_header (executable_headers img f c (sec_file_offset first) ro) () = Inr u"
      "rfold write_program_header (zip [0..<14] (executable_headers img f c (sec_file_offset first) ro)) o3 = Inr o4"
      "seal_build_id c ?p o4 = Inr out"
    unfolding write_executable_def fc rbind_simps Let_def executable_headers_def [symmetric]
      length_executable_headers
    by (elim rbind_InrE) (rule that)
  show thesis
    using that [of o1 "sec_file_offset first" o2 o3 ro o4] run copy_sections_length [OF run(1)] by simp
qed


text \<open>The two places the build identity goes to.\<close>

definition note_id_at :: "exec_content \<Rightarrow> file_places \<Rightarrow> nat" where
  "note_id_at c p = unat (dynamic_file_at (fp_dynamic p) (ta_base (xc_tables c)) (ta_note (xc_tables c)) + 16)"

lemma sealed:
  assumes "seal_build_id c p d = Inr out"
  shows "out = put (put d (note_id_at c p) (take 16 (sha1 d))) (unat (fp_tail p + 16)) (take 8 (sha1 d))"
    and "note_id_at c p + 16 \<le> length d" and "unat (fp_tail p + 16) + 8 \<le> length d"
  using assms by (auto simp: seal_build_id_def Let_def copy_raw_def note_id_at_def res_simps split: if_splits)

text \<open>The rows that the build identity leaves alone: all but the two notes.\<close>

definition kept_rows :: "exec_content \<Rightarrow> file_places \<Rightarrow> (nat \<times> bytes) list \<times> (nat \<times> bytes) list" where
  "kept_rows c p = (let rows = map (apfst unat) (file_rows c p) in (take 5 rows, take 3 (drop 6 rows)))"

lemma exhibits_below:
  assumes "exhibits d rows" and "ascending lo rows hi" and "ascending lo' ops hi'" and "hi' \<le> lo" and "hi' \<le> length d"
  shows "exhibits (puts ops d) rows"
proof -
  have "chunk (puts ops d) at (length src) = chunk d at (length src) \<and> at + length src \<le> length (puts ops d)"
    if "(at, src) \<in> set rows" for at src
    using ascending_mem [OF assms(2) that] exhibitsD [OF assms(1) that] assms(4,5)
      chunk_puts_outside [OF assms(3,5), of at "length src"] length_puts [OF assms(3,5)] by simp
  then show ?thesis using assms(1) by (fastforce simp: exhibits_def)
qed

lemma executable_unsealed:
  assumes "write_executable img stubs options = Inr out" and ec: "executable_content img stubs options = Inr (f, c)"
    and fits: "content_fits img c"
  obtains relro ro d where "rfold check_header (executable_headers img f c relro ro) () = Inr ()"
    and "exhibits d (exec_header_ops (img_entry img) (executable_headers img f c relro ro))"
    and "exhibits d (map (apfst unat) (file_rows c (place_content img c)))"
    and "length d = unat (fp_tail (place_content img c)) + 0x18"
    and "seal_build_id c (place_content img c) d = Inr out"
proof -
  let ?p = "place_content img c"
  have bc: "build_content img stubs options f = Inr c" using ec by (auto simp: executable_content_def res_simps)
  note facts = build_content_facts [OF bc]
  note rows = file_rows_ascending [OF fits facts(1) refl]
  obtain relro ro d1 d2 d3 d4 where run:
    "length d1 = unat (fp_tail ?p + of_nat (length (xc_tail_note c)))"
    "rfold (\<lambda>(at, source) output. copy_bytes output (unat at) source) (content_copies f c ?p relro) d1 = Inr d2"
    "write_elf_header (img_entry img) d2 = Inr d3"
    "rfold check_header (executable_headers img f c relro ro) () = Inr ()"
    "rfold write_program_header (zip [0..<14] (executable_headers img f c relro ro)) d3 = Inr d4"
    "seal_build_id c ?p d4 = Inr out"
    by (rule write_executableE [OF assms(1) ec])
  let ?rows = "map (apfst unat) (file_rows c ?p)" and ?hs = "executable_headers img f c relro ro"
  let ?ops = "exec_header_ops (img_entry img) ?hs"
  have len1: "length d1 = unat (fp_tail ?p) + 0x18"
    using run(1) rows facts(3) by (simp add: unat_word_ariths)
  then have top: "unat (fp_tail ?p) + length (xc_tail_note c) \<le> length d1" using facts(3) by simp
  obtain d0 where pre: "length d0 = length d1"
    and tables: "rfold (\<lambda>(at, source) output. copy_bytes output (unat at) source) (file_rows c ?p) d0 = Inr d2"
    using run(2) copies_Inr unfolding content_copies_rows rfold_append by (elim rbind_InrE) blast
  have d2: "d2 = puts ?rows d0" "length d2 = length d1" using copies_Inr [OF tables] pre by metis+
  have ex2: "exhibits d2 ?rows" using exhibits_puts rows top d2(1) pre by metis
  have asc: "ascending 0 ?ops 0x350" using exec_headers_ascending [of "img_entry img" ?hs] by simp
  have big: "0x4000 \<le> length d2" "length d2 < 2 ^ 64" using rows ascending_le top d2(2) len1 by fastforce+
  have "rbind (write_elf_header (img_entry img) d2) (\<lambda>d. rfold write_program_header (zip [0..<length ?hs] ?hs) d) =
      Inr (puts ?ops d2)"
    using exec_headers_emits [of "length d2" ?hs "img_entry img"] big by (intro emitsD [where hi = "length d2"]) simp_all
  then have d4: "d4 = puts ?ops d2" using run(3,5) by simp
  show thesis
  proof (rule that [OF run(4)])
    show "exhibits d4 ?ops" unfolding d4 using big by (intro exhibits_puts [OF asc]) simp
    show "exhibits d4 ?rows" unfolding d4
      using rows big by (intro exhibits_below [OF ex2 _ asc]) auto
    show "length d4 = unat (fp_tail ?p) + 0x18" using length_puts [OF asc] d4 d2(2) len1 big by simp
  qed (rule run(6))
qed


lemma ascending_split:
  "ascending lo (xs @ (at, src) # ys) hi \<Longrightarrow> ascending lo xs at \<and> ascending (at + length src) ys hi"
proof (induction xs arbitrary: lo)
  case (Cons x xs)
  then show ?case by (cases x) auto
qed simp

lemma executable_file:
  assumes "write_executable img stubs options = Inr out" and ec: "executable_content img stubs options = Inr (f, c)"
    and fits: "content_fits img c" and p: "p = place_content img c"
  obtains relro ro where "rfold check_header (executable_headers img f c relro ro) () = Inr ()"
    and "exhibits out (exec_header_ops (img_entry img) (executable_headers img f c relro ro))"
    and "exhibits out (fst (kept_rows c p) @ snd (kept_rows c p))"
    and "length out = unat (fp_tail p) + 0x18"
proof -
  have bc: "build_content img stubs options f = Inr c" using ec by (auto simp: executable_content_def res_simps)
  note facts = build_content_facts [OF bc]
  note rows = file_rows_ascending [OF fits facts(1) p]
  obtain relro ro d where d: "rfold check_header (executable_headers img f c relro ro) () = Inr ()"
    "exhibits d (exec_header_ops (img_entry img) (executable_headers img f c relro ro))"
    "exhibits d (map (apfst unat) (file_rows c p))" "length d = unat (fp_tail p) + 0x18"
    "seal_build_id c p d = Inr out"
    unfolding p by (rule executable_unsealed [OF assms(1) ec fits])
  let ?n = "unat (dynamic_file_at (fp_dynamic p) (ta_base (xc_tables c)) (ta_note (xc_tables c)))"
  let ?ops = "exec_header_ops (img_entry img) (executable_headers img f c relro ro)"
  let ?front = "?ops @ fst (kept_rows c p)" and ?mid = "snd (kept_rows c p)"
  have eq: "map (apfst unat) (file_rows c p) =
      fst (kept_rows c p) @ (?n, xc_note c) # ?mid @ (unat (fp_tail p), xc_tail_note c) # []"
    by (simp add: kept_rows_def file_rows_def table_rows_def Let_def eval_nat_numeral)
  have a1: "ascending (unat (fp_dynamic p)) (fst (kept_rows c p)) ?n"
    and a2: "ascending (?n + 0x24) ?mid (unat (fp_tail p))"
    using rows ascending_split [of _ "fst (kept_rows c p)"] ascending_split [of _ ?mid] facts(2)
    unfolding eq by fastforce+
  have "ascending 0 ?ops 0x350" using exec_headers_ascending [of _ "executable_headers img f c relro ro"] by simp
  then have "ascending 0 ?ops (unat (fp_dynamic p))" using rows ascending_weaken by fastforce
  then have a0: "ascending 0 ?front ?n" using a1 ascending_append by blast
  have "exhibits d (fst (kept_rows c p) @ ?mid)" by (rule exhibits_subset [OF d(3)]) (auto simp: eq)
  then have ex: "exhibits d (?front @ ?mid)" using d(2) by simp
  let ?d' = "put d (note_id_at c p) (take 16 (sha1 d))"
  have nid: "note_id_at c p = ?n + 16" using ascending_le [OF a2] rows by (simp add: note_id_at_def unat_word_ariths)
  have "exhibits ?d' (?front @ ?mid)"
    using nid ascending_le [OF a2] d(4) by (intro exhibits_put_gap [OF ex a0 a2]) simp_all
  then have kept: "exhibits ?d' ((?front @ ?mid) @ [])" by simp
  have a3: "ascending 0 (?front @ ?mid) (unat (fp_tail p))"
    using ascending_append [OF a0 ascending_weaken [OF a2]] by simp
  have "unat (fp_tail p + 16) = unat (fp_tail p) + 16" using rows by (simp add: unat_word_ariths)
  then have "exhibits out ((?front @ ?mid) @ [])"
    unfolding sealed(1) [OF d(5)] using sealed(2) [OF d(5)] d(4)
    by (intro exhibits_put_gap [OF kept a3, of "length d" "length d"]) simp_all
  then show thesis using that [OF d(1)] sealed [OF d(5)] d(4) by simp
qed

section \<open>The properties of the file\<close>

lemma checked_headers_iff:
  "rfold check_header hs () = Inr () \<longleftrightarrow> (\<forall>h \<in> set hs. check_header h () = Inr ())"
  by (induction hs) (auto simp: res_simps)



section \<open>When a file comes back\<close>

lemma copied_end_covers:
  assumes "s \<in> set sections" and "elf_allocated s" and "\<not> elf_no_bits s"
  shows "sec_file_offset s + of_nat (length (sec_data s)) \<le> copied_file_end sections"
proof -
  let ?f = "\<lambda>s e. if \<not> elf_allocated s \<or> elf_no_bits s then e
      else max e (sec_file_offset s + of_nat (length (sec_data s)))"
  have mono: "e \<le> fold ?f xs e" for xs :: "elf_section list" and e
    by (induction xs arbitrary: e) (auto intro: order_trans [OF max.cobounded1] order_trans)
  have "sec_file_offset s + of_nat (length (sec_data s)) \<le> fold ?f sections e" for e
    using assms
  proof (induction sections arbitrary: e)
    case (Cons x xs)
    show ?case
    proof (cases "x = s")
      case True
      then show ?thesis using Cons.prems mono [of "?f s e" xs] by (auto intro: order_trans [OF max.cobounded2])
    next
      case False
      then show ?thesis using Cons by simp
    qed
  qed simp
  then show ?thesis by (simp add: copied_file_end_def)
qed

lemma copy_sections_return:
  assumes "\<forall>s \<in> set sections. elf_allocated s \<longrightarrow> \<not> elf_no_bits s \<longrightarrow>
      unat (sec_file_offset s) + length (sec_data s) \<le> length d"
  shows "\<exists>d'. rfold copy_section sections d = Inr d' \<and> length d' = length d"
  using assms by (intro rfold_total [where I = "\<lambda>x. length x = length d"]) (auto simp: copy_section_def)

lemma copies_return:
  assumes "\<forall>(at, src) \<in> set rows. unat at + length src \<le> length d"
  shows "\<exists>d'. rfold (\<lambda>(at, source) output. copy_bytes output (unat at) source) rows d = Inr d' \<and> length d' = length d"
  using assms by (intro rfold_total [where I = "\<lambda>x. length x = length d"]) fastforce+

text \<open>The conditions the code checks on its way, over the layout it computes.\<close>

definition executable_ready :: "elf_image \<Rightarrow> exec_front \<Rightarrow> exec_content \<Rightarrow> elf_section \<Rightarrow> u64 \<Rightarrow> bool" where
  "executable_ready img f c first ro \<longleftrightarrow>
     relro_first (img_sections img) = Some first \<and>
     sec_address first = rg_relro_start (xf_regions f) \<and>
     (case optional_section img ''.eh_frame_hdr'' of
        Some s \<Rightarrow> ro = sec_file_offset s
      | None \<Rightarrow> \<exists>s. optional_section img ''.eh_frame'' = Some s \<and> ro = sec_file_offset s) \<and>
     (\<forall>(at, src) \<in> set (take 2 (content_copies f c (place_content img c) (sec_file_offset first))).
        unat at + length src \<le> unat (fp_tail (place_content img c)) + 0x18) \<and>
     (\<forall>h \<in> set (executable_headers img f c (sec_file_offset first) ro). check_header h () = Inr ())"

lemma headers_written:
  assumes "0x4000 \<le> length d" and "length d < 2 ^ 64" and "length hs = 14"
  shows "\<exists>d'. write_elf_header entry d = Inr d' \<and>
      rfold write_program_header (zip [0..<length hs] hs) d' = Inr (puts (exec_header_ops entry hs) d) \<and>
      length (puts (exec_header_ops entry hs) d) = length d"
proof -
  have asc: "ascending 0 (exec_header_ops entry hs) 0x350"
    using exec_headers_ascending [of entry hs] assms(3) by simp
  have "rbind (write_elf_header entry d) (\<lambda>d. rfold write_program_header (zip [0..<length hs] hs) d) =
      Inr (puts (exec_header_ops entry hs) d)"
    using exec_headers_emits [of "length d" hs entry] assms by (intro emitsD [where hi = "length d"]) simp_all
  then show ?thesis using length_puts [OF asc] assms(1) by (auto elim!: rbind_InrE)
qed

lemma seal_returns:
  assumes fits: "content_fits img c" and placed: "tables_placed c" and p: "p = place_content img c"
    and lens: "length (xc_note c) = 0x24" "length (xc_tail_note c) = 0x18"
    and d: "length d = unat (fp_tail p) + 0x18"
  shows "\<exists>out. seal_build_id c p d = Inr out \<and> length out = length d"
proof -
  note rows = file_rows_ascending [OF fits placed p]
  let ?n = "dynamic_file_at (fp_dynamic p) (ta_base (xc_tables c)) (ta_note (xc_tables c))"
  have "(unat ?n, xc_note c) \<in> set (map (apfst unat) (file_rows c p))"
    by (simp add: file_rows_def table_rows_def Let_def)
  then have "unat ?n + 0x24 \<le> unat (fp_tail p) + 0x18"
    using rows ascending_mem [of _ _ _ "unat ?n" "xc_note c"] lens by fastforce
  then have "unat (?n + 16) + 16 \<le> unat (fp_tail p) + 0x18" "unat (fp_tail p + 16) + 8 = unat (fp_tail p) + 0x18"
    using rows by (simp_all add: unat_word_ariths)
  then show ?thesis using d by (auto simp: seal_build_id_def Let_def copy_raw_def)
qed

lemma sections_fit:
  assumes "content_fits img c" and "s \<in> set (img_sections img)" "elf_allocated s" "\<not> elf_no_bits s"
    and "unat (sec_file_offset s) + length (sec_data s) < 2 ^ 64"
  shows "unat (sec_file_offset s) + length (sec_data s) \<le> unat (fp_dynamic (place_content img c))"
proof -
  have "copied_file_end (img_sections img) \<le> fp_dynamic (place_content img c)"
    using congruent_offset_facts [of "copied_file_end (img_sections img)" "ta_base (xc_tables c)"] assms(1)
    by (simp add: place_content_def Let_def content_fits_def word_less_nat_alt)
  moreover have "unat (sec_file_offset s + of_nat (length (sec_data s))) = unat (sec_file_offset s) + length (sec_data s)"
    using assms(5) by (simp add: unat_word_ariths unat_of_nat)
  ultimately show ?thesis using copied_end_covers [OF assms(2-4)] unfolding word_le_nat_alt by linarith
qed

lemma copies_fit:
  assumes "content_fits img c" and "tables_placed c" and "length (xc_tail_note c) = 0x18"
    and "executable_ready img f c first ro"
  shows "\<forall>(at, src) \<in> set (content_copies f c (place_content img c) (sec_file_offset first)).
      unat at + length src \<le> unat (fp_tail (place_content img c)) + 0x18"
proof -
  let ?p = "place_content img c"
  note rows = file_rows_ascending [OF assms(1,2) refl]
  have "unat at + length src \<le> unat (fp_tail ?p) + 0x18" if "(at, src) \<in> set (file_rows c ?p)" for at src
  proof -
    have "(unat at, src) \<in> set (map (apfst unat) (file_rows c ?p))" using that by force
    then show ?thesis using rows ascending_mem [of _ _ _ "unat at" src] assms(3) by fastforce
  qed
  then show ?thesis using assms(4) by (auto simp: executable_ready_def content_copies_rows eval_nat_numeral)
qed

lemma write_executable_total:
  assumes ec: "executable_content img stubs options = Inr (f, c)" and fits: "content_fits img c"
    and sections: "\<forall>s \<in> set (img_sections img). elf_allocated s \<and> \<not> elf_no_bits s \<longrightarrow>
      unat (sec_file_offset s) + length (sec_data s) < 2 ^ 64"
    and ready: "executable_ready img f c first ro"
  shows "\<exists>out. write_executable img stubs options = Inr out \<and>
    length out = unat (fp_tail (place_content img c)) + 0x18"
proof -
  let ?p = "place_content img c" and ?hs = "executable_headers img f c (sec_file_offset first) ro"
  have fc: "scan_image img options = Inr f" "build_content img stubs options f = Inr c"
    using ec by (auto simp: executable_content_def res_simps)
  note facts = build_content_facts [OF fc(2)]
  note rows = file_rows_ascending [OF fits facts(1) refl]
  let ?d = "replicate (unat (fp_tail ?p + of_nat (length (xc_tail_note c)))) (0 :: u8)"
  have len: "length ?d = unat (fp_tail ?p) + 0x18" using rows facts(3) by (simp add: unat_word_ariths)
  have file_end: "unat (fp_dynamic ?p) \<le> length ?d" using ascending_le rows facts(3) len by fastforce
  obtain d1 where d1: "rfold copy_section (img_sections img) ?d = Inr d1" "length d1 = length ?d"
    using copy_sections_return [of "img_sections img" ?d] sections_fit [OF fits] sections file_end
    by (meson order_trans)
  obtain d2 where d2: "rfold (\<lambda>(at, source) output. copy_bytes output (unat at) source)
      (content_copies f c ?p (sec_file_offset first)) d1 = Inr d2" "length d2 = length d1"
    using copies_return [of "content_copies f c ?p (sec_file_offset first)" d1]
      copies_fit [OF fits facts(1,3) ready] d1(2) len by auto
  have d2len: "length d2 = unat (fp_tail ?p) + 0x18" using d2(2) d1(2) len by simp
  have big: "0x4000 \<le> length d2" using file_end rows d2(2) d1(2) by linarith
  have small: "length d2 < 2 ^ 64" using rows d2len by simp
  obtain d3 d4 where d3: "write_elf_header (img_entry img) d2 = Inr d3"
    "rfold write_program_header (zip [0..<length ?hs] ?hs) d3 = Inr d4" "length d4 = length d2"
    using headers_written [OF big small, of ?hs "img_entry img"] by auto
  obtain out where out: "seal_build_id c ?p d4 = Inr out" "length out = unat (fp_tail ?p) + 0x18"
    using seal_returns [OF fits facts(1) refl facts(2,3), of d4] d3(3) d2len by auto
  have ro: "(case optional_section img ''.eh_frame_hdr'' of Some s \<Rightarrow> Inr (sec_file_offset s)
      | None \<Rightarrow> rbind (mod_section img ''.eh_frame'') (\<lambda>s. Inr (sec_file_offset s))) = Inr ro"
    using ready by (auto simp: executable_ready_def mod_section_def optional_section_def split: option.splits)
  have checks: "rfold check_header ?hs () = Inr ()" "relro_first (img_sections img) = Some first"
    "sec_address first = rg_relro_start (xf_regions f)"
    using ready by (simp_all add: executable_ready_def checked_headers_iff)
  show ?thesis
    unfolding write_executable_def fc rbind_simps Let_def d1(1)
    using checks d2(1) d3 out by (simp add: ro executable_headers_def)
qed

text \<open>C9. \<open>write_executable\<close> returns a file whenever its two scans succeed, no section's file range
  wraps around, the process parameters lie inside the file, a RELRO section starts the RELRO
  region, there is an exception-frame section and the loadable headers are page aligned:
  no later step can fail. The file ends with the tail note.\<close>

theorem write_executable_returns:
  assumes "executable_content img stubs options = Inr (f, c)" and "content_fits img c"
    and "\<forall>s \<in> set (img_sections img). elf_allocated s \<and> \<not> elf_no_bits s \<longrightarrow>
      unat (sec_file_offset s) + length (sec_data s) < 2 ^ 64"
    and "executable_ready img f c first ro"
  shows "\<exists>out. write_executable img stubs options = Inr out \<and>
    length out = unat (fp_tail (place_content img c)) + 0x18"
  using assms by (rule write_executable_total)

section \<open>A small image\<close>

definition plain_section :: "string \<Rightarrow> u64 \<Rightarrow> u64 \<Rightarrow> u64 \<Rightarrow> bytes \<Rightarrow> elf_section" where
  "plain_section name flags address offset data =
     \<lparr>sec_name = name, sec_type = 1, sec_flags = flags, sec_address = address, sec_file_offset = offset,
      sec_size = of_nat (length data), sec_link = 0, sec_info = 0, sec_alignment = 8, sec_entry_size = 0,
      sec_data = data\<rparr>"

definition small_text :: elf_section where
  "small_text = plain_section ''.text'' 6 0 0x4000 [0x0f, 0x0b, 0xc3, 0x90]"

definition small_eh :: elf_section where
  "small_eh = plain_section ''.eh_frame'' 2 0x4000 0x8000 [0, 0, 0, 0]"

definition small_got :: elf_section where
  "small_got = plain_section ''.got'' 3 0x8000 0xc000 (replicate 8 0)"

definition small_dynamic :: elf_section where
  "small_dynamic = (plain_section ''.dynamic'' 3 0xc000 0x10000 (replicate 16 0))\<lparr>sec_entry_size := 16\<rparr>"

definition small_image :: elf_image where
  "small_image =
     \<lparr>img_origin = ''small'', img_entry = 0, img_sections = [small_text, small_eh, small_got, small_dynamic],
      img_dynamic_symbols = [\<lparr>sym_name = [], sym_info = 0, sym_other = 0, sym_section = 0, sym_value = 0, sym_size = 0\<rparr>],
      img_needed = []\<rparr>"

lemma small_fields:
  "sec_address small_text = 0" "sec_address small_eh = 0x4000" "sec_address small_got = 0x8000"
  "sec_address small_dynamic = 0xc000" "sec_file_offset small_text = 0x4000" "sec_file_offset small_eh = 0x8000"
  "sec_file_offset small_got = 0xc000" "sec_file_offset small_dynamic = 0x10000"
  "sec_size small_text = 4" "sec_size small_eh = 4" "sec_size small_got = 8" "sec_size small_dynamic = 16"
  "length (sec_data small_text) = 4" "length (sec_data small_eh) = 4" "length (sec_data small_got) = 8"
  "sec_data small_dynamic = replicate 16 0" "sec_entry_size small_dynamic = 16"
  by (simp_all add: small_text_def small_eh_def small_got_def small_dynamic_def plain_section_def)

lemma small_names:
  "sec_name small_text = ''.text''" "sec_name small_eh = ''.eh_frame''"
  "sec_name small_got = ''.got''" "sec_name small_dynamic = ''.dynamic''"
  by (simp_all add: small_text_def small_eh_def small_got_def small_dynamic_def plain_section_def)

lemma small_kinds:
  "elf_allocated small_text" "elf_allocated small_eh" "elf_allocated small_got" "elf_allocated small_dynamic"
  "elf_executable small_text" "\<not> elf_executable small_eh" "\<not> elf_executable small_got"
  "\<not> elf_no_bits small_text" "\<not> elf_no_bits small_eh" "\<not> elf_no_bits small_got" "\<not> elf_no_bits small_dynamic"
  "\<not> elf_tls small_eh" "\<not> elf_tls small_got" "\<not> elf_writable small_eh"
  by (simp_all add: small_text_def small_eh_def small_got_def small_dynamic_def plain_section_def
      elf_allocated_def elf_executable_def elf_writable_def elf_tls_def elf_no_bits_def)

lemma small_roles:
  "\<not> relro_section ''.eh_frame''" "relro_section ''.got''" "\<not> relro_section ''.dynamic''" "\<not> relro_section ''.text''"
  "\<not> metadata_section ''.eh_frame''"
  by (simp_all add: relro_section_def metadata_section_def starts_with_def)

lemma small_lookup:
  "mod_section small_image ''.text'' = Inr small_text" "mod_section small_image ''.dynamic'' = Inr small_dynamic"
  "mod_section small_image ''.got'' = Inr small_got" "optional_section small_image ''.eh_frame'' = Some small_eh"
  "optional_section small_image ''.eh_frame_hdr'' = None" "optional_section small_image ''.rela.dyn'' = None"
  "optional_section small_image ''.rela.plt'' = None"
  by (simp_all add: mod_section_def optional_section_def small_image_def small_names)

lemmas small_facts = small_fields small_names small_kinds small_roles small_lookup

lemma build_process_parameters_length:
  "\<exists>process. build_process_parameters a b = Inr process \<and> length process = 0x60"
  by (simp add: build_process_parameters_def m32.wr_in m64.wr_in m32.enc_width m64.enc_width)

lemma build_parameter_blocks_length:
  "\<exists>blocks. build_parameter_blocks = Inr blocks \<and> length (pb_data blocks) = 0x270"
  by (simp add: build_parameter_blocks_def block_sizes_def block_counts_def write_block_def m32.wr_in m64.wr_in m32.enc_width m64.enc_width)


lemma small_scan:
  "\<exists>f. scan_image small_image default_module_options = Inr f \<and>
     xf_text f = small_text \<and>
     xf_dynamic_source f = small_dynamic \<and> xf_got f = small_got \<and>
     length (xf_process f) = 0x60 \<and> length (pb_data (xf_blocks f)) = 0x270 \<and>
     xf_process_address f = 0x8008 \<and> xf_blocks_address f = 0x8068 \<and> xf_relro_end f = 0x82d8 \<and>
     xf_regions f = \<lparr>rg_text_end = 4, rg_ro_start = 0x4000, rg_ro_end = 0x4004, rg_relro_start = 0x8000,
       rg_relro_content_end = 0x8008, rg_data_start = 0xc000, rg_data_end = 0xc008,
       rg_data_stored_end = 0xc008, rg_tls_start = 0, rg_tls_file_end = 0, rg_tls_memory_end = 0,
       rg_tls_alignment = 0x20\<rparr>"
proof -
  obtain process blocks where pb: "build_process_parameters 0x02000009 0x08050001 = Inr process" "length process = 0x60"
    "build_parameter_blocks = Inr blocks" "length (pb_data blocks) = 0x270"
    using build_process_parameters_length build_parameter_blocks_length by metis
  have "img_sections small_image = [small_text, small_eh, small_got, small_dynamic]" by (simp add: small_image_def)
  then have r: "fold scan_section (img_sections small_image) (initial_regions small_text small_dynamic) =
      \<lparr>rg_text_end = 4, rg_ro_start = 0x4000, rg_ro_end = 0x4004, rg_relro_start = 0x8000,
       rg_relro_content_end = 0x8008, rg_data_start = 0xc000, rg_data_end = 0xc008,
       rg_data_stored_end = 0xc008, rg_tls_start = 0, rg_tls_file_end = 0, rg_tls_memory_end = 0,
       rg_tls_alignment = 0x20\<rparr>"
    by (simp add: scan_section_def small_facts initial_regions_def)
  show ?thesis
    by (simp add: scan_image_def default_module_options_def pb small_facts r settle_ro_def mod_align_up_def Let_def)
qed


lemma small_imports:
  "\<exists>it. build_imports small_image [] default_module_options = Inr it \<and> length (it_strings it) = 17 \<and>
     length (it_symbols it) = 24 \<and> length (it_hash it) = 16 \<and> it_modules it = [] \<and> it_libraries it = [] \<and>
     it_module_order it = []"
proof -
  have "\<exists>h. build_sysv_hash [[]] = Inr h \<and> length h = 16"
    by (simp add: build_sysv_hash_def m32.wr_in m32.enc_width)
  then obtain h where h: "build_sysv_hash [[]] = Inr h" "length h = 16" by blast
  show ?thesis
    by (simp add: build_imports_def small_image_def default_module_options_def st_add_def st_new_def
       drop_extension_def h)
qed

lemma note_blocks:
  "\<exists>note. build_note = Inr note \<and> length note = 0x24"
  "\<exists>tail. build_tail_note = Inr tail \<and> length tail = 0x18"
  by (simp_all add: build_note_def build_tail_note_def m32.wr_in m32.enc_width)

lemma small_comment: "\<exists>comment. build_comment ''eboot.elf'' = Inr comment \<and> length comment = 24"
proof -
  have "mod_align_up 22 4 = 24" by (simp add: mod_align_up_def word_le_nat_alt)
  then show ?thesis by (simp add: build_comment_def Let_def m32.wr_in m32.enc_width)
qed

lemma small_version: "\<exists>version. build_version [''app_crt.o''] sdk = Inr version \<and> length version = 31"
proof -
  have "[0..<2] = [0, Suc 0]" by (simp add: upt_rec)
  then show ?thesis
    by (simp add: build_version_def append_version_def Let_def write_version_words_def write_u32_be_def
      copy_raw_def m16.wr_in m16.enc_width)
qed

text \<open>The tables of the small image, and their sizes.\<close>

definition small_content_shape :: "exec_content \<Rightarrow> bool" where
  "small_content_shape c \<longleftrightarrow>
     length (it_strings (xc_imports c)) = 17 \<and> length (it_symbols (xc_imports c)) = 24 \<and>
     length (it_hash (xc_imports c)) = 16 \<and> xc_plt c = [] \<and> length (xc_rela c) = 192 \<and>
     length (xc_note c) = 36 \<and> length (xc_dynamic c) = 448 \<and> length (xc_comment c) = 24 \<and>
     length (xc_version c) = 31 \<and> length (xc_tail_note c) = 24 \<and> xc_data_end c = 0xc008 \<and>
     xc_tables c = \<lparr>ta_base = 0xc010, ta_symbol = 0xc028, ta_jump = 0xc040, ta_relocation = 0xc040,
       ta_hash = 0xc100, ta_note = 0xc110, ta_dynamic = 0xc138\<rparr>"

lemma small_build:
  assumes "rg_data_start (xf_regions f) = 0xc000" and "rg_data_end (xf_regions f) = 0xc008"
    and "xf_dynamic_source f = small_dynamic" and "xf_got f = small_got"
  shows "\<exists>c. build_content small_image [] default_module_options f = Inr c \<and> small_content_shape c"
proof -
  obtain it where it: "build_imports small_image [] default_module_options = Inr it" "length (it_strings it) = 17"
    "length (it_symbols it) = 24" "length (it_hash it) = 16" "it_modules it = []" "it_libraries it = []" "it_module_order it = []"
    using small_imports by blast
  let ?rs = "fst (order_relocations (parameter_pointers (xf_process_address f) (xf_blocks_address f) (xf_blocks f)) [])"
  have rs: "length ?rs = 8" by (simp add: order_relocations_def parameter_pointers_def Let_def)
  then obtain rela where rela: "write_relocations ?rs = Inr rela" "length rela = 192"
    using write_relocations_puts [of ?rs] by auto
  obtain nb tail where nt: "build_note = Inr nb" "length nb = 36" "build_tail_note = Inr tail" "length tail = 24"
    using note_blocks by auto
  obtain comment version where cv: "build_comment ''eboot.elf'' = Inr comment" "length comment = 24"
    "build_version [''app_crt.o''] 0x02000009 = Inr version" "length version = 31"
    using small_comment small_version by metis
  have ta: "place_tables 0xc008 (it_strings it) (it_symbols it) [] rela (it_hash it) nb =
     \<lparr>ta_base = 0xc010, ta_symbol = 0xc028, ta_jump = 0xc040, ta_relocation = 0xc040,
       ta_hash = 0xc100, ta_note = 0xc110, ta_dynamic = 0xc138\<rparr>"
    by (simp add: place_tables_def Let_def it rela(2) nt(2) mod_align_up_def word_le_nat_alt)
  have dv: "dynamic_value small_dynamic tag = Inr 0" if "tag \<noteq> 0" for tag
  proof -
    have "strides 16 16 = [0]" by (simp add: strides_def)
    then show ?thesis using that by (simp add: dynamic_value_def small_fields m64.rd_in chunk_replicate)
  qed
  have "\<exists>d. build_dynamic [] [] da = Inr d \<and> length d = 448" for da
    using dynamic_entries_written [of "fixed_entries da"]
    by (auto simp: build_dynamic_def fixed_entries_def Let_def)
  then obtain da d where d: "dynamic_arguments it (place_tables 0xc008 (it_strings it) (it_symbols it) [] rela (it_hash it) nb)
       small_dynamic small_got [] rela
       (snd (order_relocations (parameter_pointers (xf_process_address f) (xf_blocks_address f) (xf_blocks f)) [])) = Inr da"
      "build_dynamic [] [] da = Inr d" "length d = 448"
    by (simp add: dynamic_arguments_def dv) metis
  then show ?thesis
    by (simp add: build_content_def assms small_lookup read_relocations_def case_prod_beta Let_def ta
       small_content_shape_def default_module_options_def it [unfolded default_module_options_def] nt cv rela)
qed

lemma small_runs:
  "\<exists>f c. executable_content small_image [] default_module_options = Inr (f, c) \<and> content_fits small_image c \<and>
     executable_ready small_image f c small_got 0x8000 \<and> xc_tables c = \<lparr>ta_base = 0xc010, ta_symbol = 0xc028,
       ta_jump = 0xc040, ta_relocation = 0xc040, ta_hash = 0xc100, ta_note = 0xc110, ta_dynamic = 0xc138\<rparr>"
proof -
  obtain f where f: "scan_image small_image default_module_options = Inr f"
     "xf_text f = small_text" "xf_dynamic_source f = small_dynamic" "xf_got f = small_got"
     "length (xf_process f) = 0x60" "length (pb_data (xf_blocks f)) = 0x270"
     "xf_process_address f = 0x8008" "xf_blocks_address f = 0x8068" "xf_relro_end f = 0x82d8"
     "xf_regions f = \<lparr>rg_text_end = 4, rg_ro_start = 0x4000, rg_ro_end = 0x4004, rg_relro_start = 0x8000,
       rg_relro_content_end = 0x8008, rg_data_start = 0xc000, rg_data_end = 0xc008,
       rg_data_stored_end = 0xc008, rg_tls_start = 0, rg_tls_file_end = 0, rg_tls_memory_end = 0,
       rg_tls_alignment = 0x20\<rparr>"
    using small_scan by blast
  obtain c where c: "build_content small_image [] default_module_options f = Inr c" and shape: "small_content_shape c"
    using small_build [of f] f by auto
  note shapes = shape [unfolded small_content_shape_def]
  have secs: "img_sections small_image = [small_text, small_eh, small_got, small_dynamic]" by (simp add: small_image_def)
  have e: "copied_file_end (img_sections small_image) = 0x10010"
    by (simp add: copied_file_end_def secs small_facts max_def)
  have fits: "content_fits small_image c"
    using shapes by (simp add: content_fits_def e)
  have al: "congruent_offset 0x10010 0xc010 = 0x10010" by (simp add: congruent_offset_def Let_def mod_align_up_def)
  have p: "place_content small_image c = \<lparr>fp_dynamic = 0x10010, fp_comment = 0x102f8, fp_version = 0x10310, fp_tail = 0x10330\<rparr>"
    using shapes by (simp add: place_content_def e al Let_def dynamic_file_at_def mod_align_up_def word_le_nat_alt)
  have two: "take 2 ([x, y] @ rows) = [x, y]" for x y :: "u64 \<times> bytes" and rows by (simp add: eval_nat_numeral)
  have first: "relro_first (img_sections small_image) = Some small_got"
    by (simp add: relro_first_def secs small_facts)
  have "\<forall>h \<in> set (executable_headers small_image f c 0xc000 0x8000). check_header h () = Inr ()"
    unfolding executable_headers_def p program_headers_def exec_layout_of_def Let_def
    using shapes by (simp add: f small_facts check_header_def)
  then have ready: "executable_ready small_image f c small_got 0x8000"
    unfolding executable_ready_def content_copies_rows two by (simp add: f first small_facts p)
  show ?thesis using f(1) c fits ready shapes by (auto simp: executable_content_def)
qed

lemma small_sections:
  "\<forall>s \<in> set (img_sections small_image). elf_allocated s \<and> \<not> elf_no_bits s \<longrightarrow>
     unat (sec_file_offset s) + length (sec_data s) < 2 ^ 64"
  by (simp add: small_image_def small_facts)

theorem write_executable_returns_witness:
  "\<exists>out. write_executable small_image [] default_module_options = Inr out"
proof -
  obtain f c where "executable_content small_image [] default_module_options = Inr (f, c)"
    "content_fits small_image c" "executable_ready small_image f c small_got 0x8000"
    using small_runs by blast
  then show ?thesis using write_executable_returns [OF _ _ small_sections] by blast
qed


end
