(* ===== verification/Libc_Builder.thy ===== *)
theory Libc_Builder
  imports Module_Writer
begin

text \<open>
  \<open>tooling/native/libc_builder.cpp\<close>: builds the clean-room \<open>libc.prx\<close> from two manifests, the
  exported symbols and the imports of the runtime. A \<open>std::span\<close> over a part of the file is the
  part itself, written back by \<open>on_span\<close>. Names another file of the tooling also uses carry
  the prefix \<open>lc_\<close>; \<open>build_runtime\<close> and \<open>verify_runtime\<close> are the two calls of \<open>main\<close>.
\<close>

section \<open>Records and constants\<close>

record api_symbol =
  api_nid :: string
  api_binding :: u8
  api_type :: u8
  api_size :: u64

record runtime_import =
  ri_name :: string
  ri_suffix :: string
  ri_plt :: bool
  ri_glob_dat :: bool

abbreviation (input) kGotAddress :: u64 where "kGotAddress \<equiv> 0x10F870"
abbreviation (input) kMetadataAddress :: u64 where "kMetadataAddress \<equiv> 0x117810"
abbreviation (input) kMetadataFileOffset :: nat where "kMetadataFileOffset \<equiv> 0x11B810"
abbreviation (input) kMetadataSize :: nat where "kMetadataSize \<equiv> 0x2A9F8"
abbreviation (input) kMarkerFileOffset :: nat where "kMarkerFileOffset \<equiv> 0xD0000"
abbreviation (input) kTextFileOffset :: nat where "kTextFileOffset \<equiv> 0x4000"
abbreviation (input) kHeapApiAddress :: u64 where "kHeapApiAddress \<equiv> 0x110100"
abbreviation (input) kRuntimeFileSize :: nat where "kRuntimeFileSize \<equiv> 0x14629A"

definition lc_require :: "bool \<Rightarrow> string \<Rightarrow> unit res" where
  "lc_require condition message = require condition (''self-check failed: '' @ message)"

section \<open>Fields\<close>

text \<open>The readers shift from the last byte down.\<close>

definition read_down :: "nat \<Rightarrow> string \<Rightarrow> bytes \<Rightarrow> nat \<Rightarrow> 'a::len word res" where
  "read_down n message data at =
     rbind (lc_require (sz_add at n \<le> length data) message) (\<lambda>_.
     rfold (\<lambda>i v. rbind (elem_at data (sz_add at i)) (\<lambda>b. Inr (push_bit 8 v OR ucast b)))
       (rev [0..<n]) 0)"

definition lc_read_u16 :: "bytes \<Rightarrow> nat \<Rightarrow> u16 res" where
  "lc_read_u16 = read_pair ''self-check failed: read_u16 bounds''"

definition lc_read_u32 :: "bytes \<Rightarrow> nat \<Rightarrow> u32 res" where
  "lc_read_u32 = read_down 4 ''read_u32 bounds''"

definition lc_read_u64 :: "bytes \<Rightarrow> nat \<Rightarrow> u64 res" where
  "lc_read_u64 = read_down 8 ''read_u64 bounds''"

definition lc_write_u16 :: "bytes \<Rightarrow> nat \<Rightarrow> u16 \<Rightarrow> bytes res" where
  "lc_write_u16 = write_pair ''self-check failed: write_u16 bounds''"

definition lc_write_u32 :: "bytes \<Rightarrow> nat \<Rightarrow> u32 \<Rightarrow> bytes res" where
  "lc_write_u32 = write_le 4 ''self-check failed: write_u32 bounds''"

definition lc_write_u64 :: "bytes \<Rightarrow> nat \<Rightarrow> u64 \<Rightarrow> bytes res" where
  "lc_write_u64 = write_le 8 ''self-check failed: write_u64 bounds''"

definition lc_write_i32 :: "bytes \<Rightarrow> nat \<Rightarrow> int \<Rightarrow> bytes res" where
  "lc_write_i32 data at value = lc_write_u32 data at (word_of_int value)"

definition lc_copy_bytes :: "bytes \<Rightarrow> nat \<Rightarrow> bytes \<Rightarrow> bytes res" where
  "lc_copy_bytes target at source =
     rbind (lc_require (sz_add at (length source) \<le> length target) ''copy bounds'') (\<lambda>_.
     copy_raw target at source)"

definition copy_ascii :: "bytes \<Rightarrow> nat \<Rightarrow> string \<Rightarrow> bytes res" where
  "copy_ascii target at source = lc_copy_bytes target at (to_bytes source)"

text \<open>\<open>std::span(file).subspan(at, n)\<close>, and \<open>std::fill\<close> with zero; neither is checked.\<close>

definition on_span :: "nat \<Rightarrow> nat \<Rightarrow> (bytes \<Rightarrow> bytes res) \<Rightarrow> bytes \<Rightarrow> bytes res" where
  "on_span at n f file =
     rbind (subspan file at n) (\<lambda>s. rbind (f s) (\<lambda>s'. Inr (put file at s')))"

definition fill_zero :: "nat \<Rightarrow> nat \<Rightarrow> bytes \<Rightarrow> bytes res" where
  "fill_zero at n file = copy_raw file at (replicate n 0)"

section \<open>Manifests\<close>

definition is_space :: "char \<Rightarrow> bool" where
  "is_space c \<longleftrightarrow> c \<in> set [CHR '' '', CHR 0x09, CHR 0x0A, CHR 0x0B, CHR 0x0C, CHR 0x0D]"

definition trim :: "string \<Rightarrow> string" where
  "trim value = dropWhile is_space (rev (dropWhile is_space (rev value)))"

function split :: "char \<Rightarrow> string \<Rightarrow> string list" where
  "split separator value =
     (let rest = dropWhile (\<lambda>c. c \<noteq> separator) value
      in case rest of
           [] \<Rightarrow> [value]
         | _ # tail \<Rightarrow> takeWhile (\<lambda>c. c \<noteq> separator) value # split separator tail)"
  by auto
termination
proof (relation "measure (\<lambda>(_, value). length value)")
  fix separator :: char and s :: string and rest c tail
  assume "rest = dropWhile (\<lambda>c. c \<noteq> separator) s" "rest = c # tail"
  then have "length (c # tail) \<le> length s" by (metis length_dropWhile_le)
  then show "((separator, tail), separator, s) \<in> measure (\<lambda>(_, value). length value)" by simp
qed simp

declare split.simps [simp del]

definition is_alnum :: "char \<Rightarrow> bool" where
  "is_alnum c \<longleftrightarrow> (let n = of_char c :: nat in
     (48 \<le> n \<and> n \<le> 57) \<or> (65 \<le> n \<and> n \<le> 90) \<or> (97 \<le> n \<and> n \<le> 122))"

definition digit_value :: "char \<Rightarrow> nat" where
  "digit_value c = (let n = of_char c :: nat in
     if 48 \<le> n \<and> n \<le> 57 then n - 48
     else if 97 \<le> n \<and> n \<le> 122 then n - 87
     else if 65 \<le> n \<and> n \<le> 90 then n - 55 else 36)"

text \<open>\<open>std::from_chars\<close> of an unsigned type that must consume the whole text.\<close>

definition parse_integer :: "nat \<Rightarrow> nat \<Rightarrow> string \<Rightarrow> nat res" where
  "parse_integer bits base text =
     (let value = foldl (\<lambda>v c. v * base + digit_value c) 0 text
      in if text \<noteq> [] \<and> list_all (\<lambda>c. digit_value c < base) text \<and> value < 2 ^ bits
         then Inr value else Inl (Runtime (''invalid integer: '' @ text)))"

definition valid_nid :: "string \<Rightarrow> bool" where
  "valid_nid value \<longleftrightarrow> list_all (\<lambda>c. is_alnum c \<or> c = CHR ''+'' \<or> c = CHR ''-'') value"

text \<open>The lines that \<open>std::getline\<close> reads from a file's text.\<close>

definition getlines :: "string \<Rightarrow> string list" where
  "getlines text = (let parts = split (CHR 0x0A) text in if last parts = [] then butlast parts else parts)"

definition read_api_line :: "string \<Rightarrow> api_symbol list \<Rightarrow> api_symbol list res" where
  "read_api_line source symbols =
     (let line = trim source
      in if line = [] \<or> hd line = CHR ''#'' then Inr symbols
         else let parts = split (CHR ''|'') line
         in rbind (require (length parts = 4 \<and> length (parts ! 0) = 11 \<and> valid_nid (parts ! 0) \<and>
                      3 \<le> length (parts ! 3) \<and> take 2 (parts ! 3) = ''0x'')
                     (''invalid API-surface line: '' @ source)) (\<lambda>_.
            rbind (parse_integer 32 10 (parts ! 1)) (\<lambda>binding.
            rbind (parse_integer 32 10 (parts ! 2)) (\<lambda>type.
            rbind (parse_integer 64 16 (drop 2 (parts ! 3))) (\<lambda>sz.
            rbind (require ((binding = 1 \<or> binding = 2) \<and> (type = 1 \<or> type = 2 \<or> type = 6))
                     (''unsupported binding/type: '' @ source)) (\<lambda>_.
            Inr (symbols @ [\<lparr>api_nid = parts ! 0, api_binding = of_nat binding,
                   api_type = of_nat type, api_size = of_nat sz\<rparr>])))))))"

definition read_api_surface :: "string \<Rightarrow> api_symbol list res" where
  "read_api_surface text =
     rbind (rfold read_api_line (getlines text) []) (\<lambda>symbols.
     let count = (\<lambda>t. length (filter (\<lambda>s. api_type s = t) symbols))
     in rbind (lc_require (length symbols = 2566)
                 (''API export count ('' @ decimal (length symbols) @ '')'')) (\<lambda>_.
        rbind (lc_require (distinct (map api_nid symbols)) ''unique API NIDs'') (\<lambda>_.
        rbind (lc_require (count 1 = 688) ''API object count'') (\<lambda>_.
        rbind (lc_require (count 2 = 1874) ''API function count'') (\<lambda>_.
        rbind (lc_require (count 6 = 4) ''API TLS count'') (\<lambda>_.
        rbind (lc_require (list_ex (\<lambda>s. api_nid s = ''P330P3dFF68'' \<and> api_binding s = 1 \<and>
                  api_type s = 1 \<and> api_size s = 4) symbols) ''Need_sceLibc API record'') (\<lambda>_.
        rbind (lc_require (list_ex (\<lambda>s. api_nid s = ''+F+9hhi6k9Q'' \<and> api_binding s = 2 \<and>
                  api_type s = 2) symbols) ''_longjmp API record'') (\<lambda>_.
        rbind (lc_require (list_ex (\<lambda>s. api_nid s = ''sjpkrhugvVI'' \<and> api_binding s = 1 \<and>
                  api_type s = 2) symbols) ''_setjmp API record'') (\<lambda>_.
        Inr symbols)))))))))"

definition read_import_line :: "string \<Rightarrow> runtime_import list \<Rightarrow> runtime_import list res" where
  "read_import_line source imports =
     (let line = trim source
      in if line = [] \<or> hd line = CHR ''#'' then Inr imports
         else let parts = split (CHR ''|'') line
         in rbind (require (length parts = 4 \<and>
                      (parts ! 1 = ''#A#B'' \<or> parts ! 1 = ''#B#C'' \<or> parts ! 1 = ''#C#D'') \<and>
                      (parts ! 2 = ''0'' \<or> parts ! 2 = ''1'') \<and> (parts ! 3 = ''0'' \<or> parts ! 3 = ''1''))
                     (''invalid import line: '' @ source)) (\<lambda>_.
            Inr (imports @ [\<lparr>ri_name = parts ! 0, ri_suffix = parts ! 1, ri_plt = (parts ! 2 = ''1''),
                   ri_glob_dat = (parts ! 3 = ''1'')\<rparr>])))"

definition required_imports :: "string list" where
  "required_imports = [''_sceKernelSetThreadDtors'', ''_sceKernelSetThreadAtexitCount'',
     ''_sceKernelSetThreadAtexitReport'', ''_sceKernelRtldSetApplicationHeapAPI'', ''malloc'',
     ''free'', ''posix_memalign'', ''__progname'', ''__stack_chk_guard'', ''__pthread_cxa_finalize'']"

definition read_imports :: "string \<Rightarrow> runtime_import list res" where
  "read_imports text =
     rbind (rfold read_import_line (getlines text) []) (\<lambda>imports.
     rbind (lc_require (length imports = 102)
              (''runtime import count ('' @ decimal (length imports) @ '')'')) (\<lambda>_.
     rbind (lc_require (distinct (map ri_name imports)) ''unique import names'') (\<lambda>_.
     rbind (lc_require (length (filter ri_plt imports) = 100) ''runtime PLT import count'') (\<lambda>_.
     rbind (lc_require (length (filter ri_glob_dat imports) = 3) ''runtime GLOB_DAT import count'') (\<lambda>_.
     rbind (rfold (\<lambda>required u. lc_require (list_ex (\<lambda>e. ri_name e = required) imports)
              (''runtime required import '' @ required)) required_imports ()) (\<lambda>_.
     Inr imports))))))"

section \<open>Names and hashes\<close>

definition base64_group :: "bytes \<Rightarrow> nat \<Rightarrow> string" where
  "base64_group input i =
     (let byte = (\<lambda>k. if k < length input then ucast (input ! k) else (0 :: u32));
          value = push_bit 16 (byte i) OR push_bit 8 (byte (i + 1)) OR byte (i + 2);
          digit = (\<lambda>n. base64 ! unat (drop_bit n value AND 63))
      in [digit 18, digit 12, if i + 1 < length input then digit 6 else CHR ''='',
          if i + 2 < length input then digit 0 else CHR ''=''])"

definition lc_base64 :: "bytes \<Rightarrow> string" where
  "lc_base64 input = concat (map (\<lambda>k. base64_group input (k * 3)) [0..<(length input + 2) div 3])"

definition compute_nid :: "string \<Rightarrow> string" where
  "compute_nid name =
     (let digest = sha1 (to_bytes name @ nid_suffix);
          result = take 11 (lc_base64 (rev (take 8 digest)))
      in map (\<lambda>c. if c = CHR ''/'' then CHR ''-'' else c) result)"

definition hex_digit :: "nat \<Rightarrow> char" where
  "hex_digit n = ''0123456789abcdef'' ! n"

definition hex :: "bytes \<Rightarrow> string" where
  "hex value = concat (map (\<lambda>b. [hex_digit (unat b div 16), hex_digit (unat b mod 16)]) value)"

definition lc_elf_hash :: "string \<Rightarrow> u32" where
  "lc_elf_hash name =
     foldl (\<lambda>hash c.
       let hash = push_bit 4 hash + ucast c;
           carry = hash AND 0xF0000000;
           hash = (if carry \<noteq> 0 then hash XOR drop_bit 24 carry else hash)
       in hash AND NOT carry) 0 (to_bytes name)"

definition lc_hash_insert :: "string list \<Rightarrow> nat \<Rightarrow> bytes \<Rightarrow> bytes res" where
  "lc_hash_insert names i table =
     (let count = length names; chain = 8 + count * 4;
          bucket = unat (lc_elf_hash (names ! i)) mod count
      in rbind (lc_read_u32 table (8 + bucket * 4)) (\<lambda>previous.
         rbind (lc_write_u32 table (chain + i * 4) previous) (\<lambda>table.
         lc_write_u32 table (8 + bucket * 4) (of_nat i))))"

text \<open>With no names the loop would start at the largest index; the caller always has one.\<close>

definition lc_build_sysv_hash :: "string list \<Rightarrow> bytes res" where
  "lc_build_sysv_hash names =
     (let count = length names; table = replicate (8 + count * 8) 0
      in rbind (lc_write_u32 table 0 (of_nat count)) (\<lambda>table.
         rbind (lc_write_u32 table 4 (of_nat count)) (\<lambda>table.
         if names = [] then Inl Undefined
         else rfold (lc_hash_insert names) (rev [1..<count]) table)))"

definition lc_align_up :: "u64 \<Rightarrow> u64 \<Rightarrow> u64" where
  "lc_align_up value alignment = (value + alignment - 1) AND NOT (alignment - 1)"

section \<open>Strings, symbols and headers\<close>

definition put_string :: "bytes \<Rightarrow> nat \<Rightarrow> string \<Rightarrow> bytes res" where
  "put_string target at value =
     rbind (lc_require (sz_add at (length value) < length target)
              (''dynamic string '' @ [CHR 0x27] @ value @ [CHR 0x27] @ '' fits table'')) (\<lambda>_.
     rbind (copy_ascii target at value) (\<lambda>target.
     set_byte target (sz_add at (length value)) 0))"

definition append_string :: "string \<Rightarrow> bytes \<times> nat \<Rightarrow> (bytes \<times> nat) res" where
  "append_string value state =
     (case state of (target, at) \<Rightarrow>
        rbind (put_string target at value) (\<lambda>target. Inr (target, at + length value + 1)))"

record symbol_row =
  row_name :: u32
  row_info :: u8
  row_other :: u8
  row_section :: u16
  row_value :: u64
  row_size :: u64

definition write_symbol :: "nat \<Rightarrow> symbol_row \<Rightarrow> bytes \<Rightarrow> bytes res" where
  "write_symbol index row symbols =
     (let at = index * 24
      in rbind (lc_require (sz_add at 24 \<le> length symbols) ''symbol bounds'') (\<lambda>_.
         rbind (lc_write_u32 symbols at (row_name row)) (\<lambda>symbols.
         rbind (set_byte symbols (at + 4) (row_info row)) (\<lambda>symbols.
         rbind (set_byte symbols (at + 5) (row_other row)) (\<lambda>symbols.
         rbind (lc_write_u16 symbols (at + 6) (row_section row)) (\<lambda>symbols.
         rbind (lc_write_u64 symbols (at + 8) (row_value row)) (\<lambda>symbols.
         lc_write_u64 symbols (at + 16) (row_size row))))))))"

definition lc_write_program_header :: "nat \<times> program_header \<Rightarrow> bytes \<Rightarrow> bytes res" where
  "lc_write_program_header row file =
     (case row of (index, h) \<Rightarrow>
        let at = 0x40 + index * 0x38
        in rbind (lc_write_u32 file at (prg_type h)) (\<lambda>file.
           rbind (lc_write_u32 file (at + 4) (prg_flags h)) (\<lambda>file.
           rbind (lc_write_u64 file (at + 8) (prg_offset h)) (\<lambda>file.
           rbind (lc_write_u64 file (at + 16) (prg_address h)) (\<lambda>file.
           rbind (lc_write_u64 file (at + 24) (prg_address h)) (\<lambda>file.
           rbind (lc_write_u64 file (at + 32) (prg_file_size h)) (\<lambda>file.
           rbind (lc_write_u64 file (at + 40) (prg_memory_size h)) (\<lambda>file.
           lc_write_u64 file (at + 48) (prg_alignment h)))))))))"

definition lc_build_elf_header :: "bytes \<Rightarrow> bytes res" where
  "lc_build_elf_header file =
     rbind (lc_copy_bytes file 0 [0x7f, 0x45, 0x4c, 0x46]) (\<lambda>file.
     rbind (set_byte file 4 2) (\<lambda>file.
     rbind (set_byte file 5 1) (\<lambda>file.
     rbind (set_byte file 6 1) (\<lambda>file.
     rbind (set_byte file 7 9) (\<lambda>file.
     rbind (set_byte file 8 2) (\<lambda>file.
     rbind (lc_write_u16 file 0x10 0xFE18) (\<lambda>file.
     rbind (lc_write_u16 file 0x12 62) (\<lambda>file.
     rbind (lc_write_u32 file 0x14 1) (\<lambda>file.
     rbind (lc_write_u64 file 0x20 0x40) (\<lambda>file.
     rbind (lc_write_u16 file 0x34 0x40) (\<lambda>file.
     rbind (lc_write_u16 file 0x36 0x38) (\<lambda>file.
     lc_write_u16 file 0x38 14))))))))))))"

definition runtime_headers :: "program_header list" where
  "runtime_headers =
     map (\<lambda>(type, flags, offset, address, file_size, memory_size, alignment).
        \<lparr>prg_type = type, prg_flags = flags, prg_offset = offset, prg_address = address,
         prg_file_size = file_size, prg_memory_size = memory_size, prg_alignment = alignment\<rparr>)
       [(0x00000001, 0x1, 0x004000, 0x000000, 0xC8092, 0xC8092, 0x4000),
        (0x00000001, 0x4, 0x0D0000, 0x0CC000, 0x3DF80, 0x3DF80, 0x4000),
        (0x00000001, 0x6, 0x110000, 0x10C000, 0x3EA0, 0x3EA0, 0x4000),
        (0x6474E552, 0x4, 0x110000, 0x10C000, 0x3EA0, 0x4000, 1),
        (0x00000001, 0x6, 0x114000, 0x110000, 0x3B78, 0x7808, 0x4000),
        (0x61000002, 0x4, 0x113CE8, 0x10FCE8, 0x20, 0x20, 8),
        (0x00000002, 0x6, 0x11B810 + 0x2A738, 0x117810 + 0x2A738, 0x2C0, 0x2C0, 8),
        (0x00000007, 0x4, 0x113D20, 0x10FD20, 0x180, 0x468, 0x10),
        (0x6474E550, 0x4, 0x108164, 0x104164, 0x5E1C, 0x5E1C, 4),
        (0x00000001, 0, 0x11B810, 0x117810, 0x2A9F8, 0x2A9F8, 0x4000),
        (0x6FFFFF00, 0, 0x146210, 0, 0x58, 0, 0x10),
        (0x6FFFFF01, 0, 0x146280, 0, 0x1A, 0x20, 0x10),
        (0x00000004, 0, 0x11B810 + 0x2A710, 0x117810 + 0x2A710, 0x24, 0x24, 4),
        (0x00000004, 0, 0x146268, 0, 0x18, 0, 4)]"

definition build_program_headers :: "bytes \<Rightarrow> bytes res" where
  "build_program_headers file = rfold lc_write_program_header (zip [0..<14] runtime_headers) file"

definition build_unwind_header :: "bytes \<Rightarrow> bytes res" where
  "build_unwind_header =
     on_span 0x108164 0x5E1C (\<lambda>header.
       rbind (set_byte (replicate (length header) 0) 0 1) (\<lambda>header.
       rbind (set_byte header 1 0x1B) (\<lambda>header.
       rbind (set_byte header 2 0x03) (\<lambda>header.
       rbind (set_byte header 3 0x3B) (\<lambda>header.
       rbind (lc_write_u32 header 4 8) (\<lambda>header.
       lc_write_u32 header 8 0))))))"

definition build_module_param :: "bytes \<Rightarrow> bytes res" where
  "build_module_param file =
     (let at = 0x113CE8
      in rbind (lc_write_u64 file at 0x20) (\<lambda>file.
         rbind (lc_write_u32 file (at + 8) 0x3C13F4BF) (\<lambda>file.
         rbind (lc_write_u32 file (at + 0x0C) 3) (\<lambda>file.
         rbind (lc_write_u32 file (at + 0x10) 0x08050001) (\<lambda>file.
         rbind (lc_write_u32 file (at + 0x14) 0x02000009) (\<lambda>file.
         lc_write_u32 file (at + 0x18) 1))))))"

section \<open>Code\<close>

fun import_slot_from :: "nat \<Rightarrow> runtime_import list \<Rightarrow> string \<Rightarrow> u64 res" where
  "import_slot_from slot [] name = Inl (Runtime (''missing PLT import '' @ name))"
| "import_slot_from slot (entry # imports) name =
     (if ri_name entry = name
      then rbind (lc_require (ri_plt entry) (''runtime import '' @ name @ '' has a PLT slot'')) (\<lambda>_.
           Inr (kGotAddress + of_nat ((3 + slot) * 8)))
      else import_slot_from (if ri_plt entry then slot + 1 else slot) imports name)"

definition import_slot :: "runtime_import list \<Rightarrow> string \<Rightarrow> u64 res" where
  "import_slot imports name = import_slot_from 0 imports name"

definition write_code :: "bytes \<Rightarrow> bytes \<times> u64 \<Rightarrow> (bytes \<times> u64) res" where
  "write_code code state =
     (case state of (file, address) \<Rightarrow>
        let at = unat (0x4000 + address)
        in rbind (lc_require (kTextFileOffset \<le> at \<and> sz_add at (length code) \<le> kTextFileOffset + 0xC8092)
                    ''runtime code lies inside executable load'') (\<lambda>_.
           rbind (lc_copy_bytes file at code) (\<lambda>file.
           Inr (file, address + of_nat (length code)))))"

text \<open>The displacement is a difference of signed 64-bit values, which must not overflow.\<close>

definition write_rip_relative_code :: "bytes \<Rightarrow> u64 \<Rightarrow> bytes \<times> u64 \<Rightarrow> (bytes \<times> u64) res" where
  "write_rip_relative_code opcode target state =
     (case state of (file, address) \<Rightarrow>
        let at = unat (0x4000 + address);
            following = sint (address + of_nat (length opcode) + 4);
            displacement = sint target - following
        in if displacement < - (2 ^ 63) \<or> 2 ^ 63 \<le> displacement then Inl Undefined
           else rbind (lc_require (- (2 ^ 31) \<le> displacement \<and> displacement \<le> 2 ^ 31 - 1)
                         ''runtime RIP-relative displacement'') (\<lambda>_.
                rbind (lc_copy_bytes file at opcode) (\<lambda>file.
                rbind (lc_write_i32 file (sz_add at (length opcode)) displacement) (\<lambda>file.
                Inr (file, address + of_nat (length opcode) + 4)))))"

text \<open>The three kinds of call that \<open>build_code\<close> makes.\<close>

datatype code_step =
    Code bytes
  | Rip bytes u64
  | Rip_Import bytes string

definition run_step :: "runtime_import list \<Rightarrow> code_step \<Rightarrow> bytes \<times> u64 \<Rightarrow> (bytes \<times> u64) res" where
  "run_step imports step state =
     (case step of
        Code code \<Rightarrow> write_code code state
      | Rip opcode target \<Rightarrow> write_rip_relative_code opcode target state
      | Rip_Import opcode name \<Rightarrow>
          rbind (import_slot imports name) (\<lambda>target. write_rip_relative_code opcode target state))"

definition start_steps :: "code_step list" where
  "start_steps =
     [Code [0x48, 0x83, 0xEC, 0x08], Rip [0x48, 0x8B, 0x05] 0x10FCE0,
      Code [0x48, 0x85, 0xC0, 0x74, 0x02, 0xFF, 0xD0, 0x48, 0x83, 0xC4, 0x08, 0xC3]]"

definition init_steps :: "code_step list" where
  "init_steps =
     [Code [0x48, 0x83, 0xEC, 0x08],
      Rip [0x48, 0x8D, 0x3D] 0x200, Rip_Import [0xFF, 0x15] ''_sceKernelSetThreadDtors'',
      Rip [0x48, 0x8D, 0x3D] 0x210, Rip_Import [0xFF, 0x15] ''_sceKernelSetThreadAtexitCount'',
      Rip [0x48, 0x8D, 0x3D] 0x220, Rip_Import [0xFF, 0x15] ''_sceKernelSetThreadAtexitReport'',
      Rip_Import [0x48, 0x8B, 0x05] ''malloc'', Rip [0x48, 0x89, 0x05] kHeapApiAddress,
      Rip_Import [0x48, 0x8B, 0x05] ''free'', Rip [0x48, 0x89, 0x05] (kHeapApiAddress + 8),
      Rip_Import [0x48, 0x8B, 0x05] ''posix_memalign'', Rip [0x48, 0x89, 0x05] (kHeapApiAddress + 0x30),
      Rip [0x48, 0x8D, 0x3D] kHeapApiAddress,
      Rip_Import [0xFF, 0x15] ''_sceKernelRtldSetApplicationHeapAPI'',
      Code [0x48, 0x83, 0xC4, 0x08, 0x31, 0xC0, 0xC3]]"

definition build_code :: "runtime_import list \<Rightarrow> bytes \<Rightarrow> bytes res" where
  "build_code imports file =
     rbind (rfold (run_step imports) start_steps (file, 0x10)) (\<lambda>(file, _).
     rbind (rfold (run_step imports) init_steps (file, 0x100)) (\<lambda>(file, cursor).
     rbind (lc_require (cursor < 0x200) ''runtime initializer fits before callbacks'') (\<lambda>_.
     rbind (set_byte file (kTextFileOffset + 0x200) 0xC3) (\<lambda>file.
     rbind (lc_copy_bytes file (kTextFileOffset + 0x210) [0x31, 0xC0, 0xC3]) (\<lambda>file.
     rbind (set_byte file (kTextFileOffset + 0x220) 0xC3) (\<lambda>file.
     rbind (set_byte file (kTextFileOffset + 0x230) 0xC3) (\<lambda>file.
     rbind (lc_copy_bytes file (kTextFileOffset + 0x50) [0x66, 0x0F, 0xEF, 0xC0, 0x31, 0xC0, 0xC3]) (\<lambda>file.
     rbind (lc_copy_bytes file (kTextFileOffset + 0x30) [0x31, 0xC0, 0xC3]) (\<lambda>file.
     rbind (lc_copy_bytes file (kTextFileOffset + 0x40) [0x31, 0xC0, 0xC3]) (\<lambda>file.
     set_byte file (kTextFileOffset + 0xC8010) 0xC3))))))))))"

section \<open>Dynamic metadata of the runtime\<close>

text \<open>Where one exported symbol goes, and the two cursors after it.\<close>

definition place_export :: "api_symbol \<Rightarrow> u64 \<times> u64 \<Rightarrow> (u64 \<times> u16 \<times> u8 \<times> u64 \<times> u64) res" where
  "place_export symbol cursors =
     (case cursors of (object_cursor, tls_cursor) \<Rightarrow>
        if api_type symbol = 2
        then Inr (if api_nid symbol = ''+F+9hhi6k9Q'' then 0x30
                  else if api_nid symbol = ''sjpkrhugvVI'' then 0x40 else 0x50, 3, 0,
                  object_cursor, tls_cursor)
        else if api_type symbol = 1 \<and> api_nid symbol = ''P330P3dFF68''
        then Inr (0xCC000, 6, 3, object_cursor, tls_cursor)
        else if api_type symbol = 1
        then let object_cursor = lc_align_up object_cursor 8
             in Inr (0x110000 + object_cursor, 6, 0, object_cursor + max (api_size symbol) 1, tls_cursor)
        else if api_type symbol = 6
        then let tls_cursor = (tls_cursor + 7) AND NOT 7
             in Inr (tls_cursor, 17, 0, object_cursor, tls_cursor + max (api_size symbol) 1)
        else Inl (Runtime ''unsupported API symbol type''))"

definition export_step :: "nat list \<Rightarrow> nat \<times> api_symbol \<Rightarrow> bytes \<times> u64 \<times> u64 \<Rightarrow> (bytes \<times> u64 \<times> u64) res" where
  "export_step name_offsets row state =
     (case row of (i, symbol) \<Rightarrow> case state of (symbols, cursors) \<Rightarrow>
        rbind (place_export symbol cursors) (\<lambda>(value, section, other, cursors).
        rbind (elem_at name_offsets i) (\<lambda>name_offset.
        rbind (write_symbol (i + 1) \<lparr>row_name = of_nat name_offset,
                 row_info = push_bit 4 (api_binding symbol) OR api_type symbol, row_other = other,
                 row_section = section, row_value = value, row_size = api_size symbol\<rparr> symbols) (\<lambda>symbols.
        Inr (symbols, cursors)))))"

definition build_export_symbols :: "api_symbol list \<Rightarrow> nat list \<Rightarrow> bytes \<Rightarrow> bytes res" where
  "build_export_symbols api name_offsets symbols =
     rbind (rfold (export_step name_offsets) (zip [0..<length api] api) (symbols, 0x180, 0))
       (\<lambda>(symbols, object_cursor, tls_cursor).
     rbind (lc_require (object_cursor \<le> 0x7808) ''API object storage fits mapped data/BSS'') (\<lambda>_.
     rbind (lc_require (tls_cursor \<le> 0x468) ''API TLS storage fits PT_TLS'') (\<lambda>_.
     Inr symbols)))"

definition pack_name_version_id :: "u32 \<Rightarrow> u16 \<Rightarrow> u16 \<Rightarrow> u64" where
  "pack_name_version_id name version ident =
     ucast name OR push_bit 32 (ucast version) OR push_bit 48 (ucast ident)"

definition pack_attribute :: "u16 \<Rightarrow> u8 \<Rightarrow> u64" where
  "pack_attribute ident attribute = push_bit 48 (ucast ident) OR ucast attribute"

definition runtime_dynamic :: "nat \<Rightarrow> (u64 \<times> u64) list" where
  "runtime_dynamic symbol_count =
     [(1, 0xA6C1),
      (0x61000045, pack_name_version_id 0xA6CF 0x0101 1),
      (0x61000049, pack_name_version_id 0xA6CF 0x0001 0),
      (0x61000019, pack_attribute 0 0x09),
      (1, 0xA6D9),
      (0x61000045, pack_name_version_id 0xA6F0 0x0101 2),
      (0x61000049, pack_name_version_id 0xA703 0x0001 1),
      (0x61000019, pack_attribute 1 0x09),
      (1, 0xA719),
      (0x61000045, pack_name_version_id 0xA72D 0x0101 3),
      (0x61000049, pack_name_version_id 0xA72D 0x0001 2),
      (0x61000019, pack_attribute 2 0x09),
      (14, 0xA73D),
      (0x61000043, pack_name_version_id 0xA746 0x0101 0),
      (0x61000011, 0),
      (0x61000041, 0xA74B),
      (0x61000047, pack_name_version_id 0xA746 0x0001 3),
      (0x61000017, pack_attribute 3 0x01),
      (0x61000047, pack_name_version_id 0xA797 0x0001 4),
      (0x61000017, pack_attribute 4 0x01),
      (7, kMetadataAddress + 0x1AB40),
      (8, (1790 + 3 + 3) * 24),
      (9, 24),
      (0x6FFFFFF9, 1790),
      (23, kMetadataAddress + 0x1A1E0),
      (2, 100 * 24),
      (3, kGotAddress),
      (20, 7),
      (6, kMetadataAddress + 0xA7A8),
      (11, 24),
      (5, kMetadataAddress),
      (10, 0xA7A3),
      (4, kMetadataAddress + 0x253A0),
      (32, 0x10FCE0),
      (33, 8),
      (25, 0),
      (27, 0),
      (26, 0),
      (28, 0),
      (12, 0x10),
      (13, 0xC8010),
      (0x6100003F, of_nat (symbol_count * 24)),
      (0x6100003D, 0x5370),
      (0, 0)]"

definition lc_write_dynamic_entry :: "nat \<times> u64 \<times> u64 \<Rightarrow> bytes \<Rightarrow> bytes res" where
  "lc_write_dynamic_entry row dyn =
     (case row of (i, tag, value) \<Rightarrow>
        rbind (lc_write_u64 dyn (i * 16) tag) (\<lambda>dyn.
        lc_write_u64 dyn (i * 16 + 8) value))"

definition lc_build_dynamic :: "nat \<Rightarrow> bytes \<Rightarrow> bytes res" where
  "lc_build_dynamic symbol_count dyn =
     (let entries = runtime_dynamic symbol_count
      in rbind (lc_require (length entries = 44) ''runtime dynamic entry count'') (\<lambda>_.
         rfold lc_write_dynamic_entry (zip [0..<length entries] entries) dyn))"

definition build_gnu_note :: "bytes \<Rightarrow> bytes res" where
  "build_gnu_note note =
     rbind (lc_write_u32 note 0 4) (\<lambda>note.
     rbind (lc_write_u32 note 4 0x14) (\<lambda>note.
     rbind (lc_write_u32 note 8 3) (\<lambda>note.
     rbind (copy_ascii note 12 ''GNU'') (\<lambda>note.
     lc_copy_bytes note 16 (take 20
       (sha256 (to_bytes ''ps5-native-app-boilerplate clean-room runtime'')))))))"

text \<open>The two loops that append a symbol's name and note where it starts.\<close>

definition append_name :: "string \<Rightarrow> bytes \<times> nat \<times> nat list \<Rightarrow> (bytes \<times> nat \<times> nat list) res" where
  "append_name name state =
     (case state of (metadata, cursor, offsets) \<Rightarrow>
        rbind (append_string name (metadata, cursor)) (\<lambda>(metadata, cursor').
        Inr (metadata, cursor', offsets @ [cursor])))"

definition export_name :: "api_symbol \<Rightarrow> string" where
  "export_name symbol =
     api_nid symbol @
     (if api_nid symbol = ''+F+9hhi6k9Q'' \<or> api_nid symbol = ''sjpkrhugvVI'' then ''#E#A'' else ''#D#A'')"

definition import_name :: "runtime_import \<Rightarrow> string" where
  "import_name entry = compute_nid (ri_name entry) @ ri_suffix entry"

definition module_strings :: "(nat \<times> string) list" where
  "module_strings =
     [(0xA6C1, ''libkernel.prx''), (0xA6CF, ''libkernel''), (0xA6D9, ''libSceLibcInternal.prx''),
      (0xA6F0, ''libSceLibcInternal''), (0xA703, ''libSceLibcInternalExt''),
      (0xA719, ''libSceSysmodule.prx''), (0xA72D, ''libSceSysmodule''), (0xA73D, ''libc.prx''),
      (0xA746, ''libc''), (0xA74B, ''libc.prx by BlackBearReloaded''), (0xA797, ''libc_setjmp'')]"

definition import_symbol_step ::
    "nat \<Rightarrow> nat list \<Rightarrow> nat \<times> runtime_import \<Rightarrow> bytes \<Rightarrow> bytes res" where
  "import_symbol_step exports name_offsets row symbols =
     (case row of (i, entry) \<Rightarrow>
        rbind (elem_at name_offsets i) (\<lambda>name_offset.
        write_symbol (exports + 1 + i) \<lparr>row_name = of_nat name_offset,
          row_info = 0x10 OR (if ri_plt entry then 2 else 1), row_other = 0, row_section = 0,
          row_value = 0, row_size = 0\<rparr> symbols))"

definition jump_step :: "nat \<Rightarrow> nat \<times> runtime_import \<Rightarrow> bytes \<times> nat \<Rightarrow> (bytes \<times> nat) res" where
  "jump_step exports row state =
     (case row of (i, entry) \<Rightarrow> case state of (jumps, jump) \<Rightarrow>
        if \<not> ri_plt entry then Inr (jumps, jump)
        else let at = jump * 24
             in rbind (lc_write_u64 jumps at (kGotAddress + of_nat ((3 + jump) * 8))) (\<lambda>jumps.
                rbind (lc_write_u64 jumps (at + 8) (push_bit 32 (of_nat (exports + 1 + i)) OR 7)) (\<lambda>jumps.
                Inr (jumps, jump + 1))))"

definition build_jumps :: "nat \<Rightarrow> runtime_import list \<Rightarrow> bytes \<Rightarrow> bytes res" where
  "build_jumps exports imports jumps =
     rbind (rfold (jump_step exports) (zip [0..<length imports] imports) (jumps, 0)) (\<lambda>(jumps, jump).
     rbind (lc_require (jump = 100) ''runtime emitted PLT relocations'') (\<lambda>_.
     Inr jumps))"

text \<open>Relocation records, in the order they are emitted; a missing addend is left zero.\<close>

definition relative_rows :: "(u64 \<times> u64 \<times> u64 option) list" where
  "relative_rows =
     map (\<lambda>i. (0x10C008 + of_nat (i * 8), 8, Some (if i = 0 then 0x230 else 0x50))) [0..<1789] @
     [(0x10FCE0, 8, Some 0x100)]"

definition tls_rows :: "(u64 \<times> u64 \<times> u64 option) list" where
  "tls_rows = map (\<lambda>target. (target, 16, None)) [0x10F818, 0x10F828, 0x10F838]"

definition glob_dat_targets :: "(string \<times> u64) list" where
  "glob_dat_targets =
     [(''__stack_chk_guard'', 0x10F800), (''__pthread_cxa_finalize'', 0x10F848), (''__progname'', 0x10F850)]"

definition glob_dat_index :: "runtime_import list \<Rightarrow> string \<Rightarrow> nat" where
  "glob_dat_index imports name =
     foldl (\<lambda>found i. if ri_name (imports ! i) = name \<and> ri_glob_dat (imports ! i) then i else found)
       (length imports) [0..<length imports]"

definition write_rela :: "u64 \<times> u64 \<times> u64 option \<Rightarrow> bytes \<times> nat \<Rightarrow> (bytes \<times> nat) res" where
  "write_rela row state =
     (case row of (target, info, addend) \<Rightarrow> case state of (rela, relocation) \<Rightarrow>
        let at = relocation * 24
        in rbind (lc_write_u64 rela at target) (\<lambda>rela.
           rbind (lc_write_u64 rela (at + 8) info) (\<lambda>rela.
           rbind (case addend of None \<Rightarrow> Inr rela | Some a \<Rightarrow> lc_write_u64 rela (at + 16) a) (\<lambda>rela.
           Inr (rela, relocation + 1)))))"

definition write_glob_dat ::
    "nat \<Rightarrow> runtime_import list \<Rightarrow> string \<times> u64 \<Rightarrow> bytes \<times> nat \<Rightarrow> (bytes \<times> nat) res" where
  "write_glob_dat exports imports row state =
     (case row of (name, target) \<Rightarrow>
        let symbol_index = glob_dat_index imports name
        in rbind (lc_require (symbol_index < length imports) (''runtime GLOB_DAT import '' @ name)) (\<lambda>_.
           write_rela (target, push_bit 32 (of_nat (exports + 1 + symbol_index)) OR 6, None) state))"

definition build_rela :: "nat \<Rightarrow> runtime_import list \<Rightarrow> bytes \<Rightarrow> bytes res" where
  "build_rela exports imports rela =
     rbind (rfold write_rela (relative_rows @ tls_rows) (rela, 0)) (\<lambda>state.
     rbind (rfold (write_glob_dat exports imports) glob_dat_targets state) (\<lambda>(rela, relocation).
     rbind (lc_require (relocation = 1796) ''runtime emitted dynamic relocations'') (\<lambda>_.
     Inr rela)))"

text \<open>Everything that \<open>build_metadata\<close> writes through the span \<open>metadata\<close>.\<close>

definition fill_metadata :: "api_symbol list \<Rightarrow> runtime_import list \<Rightarrow> bytes \<Rightarrow> bytes res" where
  "fill_metadata api imports metadata =
     rbind (rfold append_name (map export_name api) (metadata, 1, []))
       (\<lambda>(metadata, cursor, export_offsets).
     rbind (rfold append_name (map import_name imports) (metadata, cursor, []))
       (\<lambda>(metadata, cursor, import_offsets).
     rbind (lc_require (cursor = 0xA6C1) ''runtime symbol-name string extent'') (\<lambda>_.
     rbind (rfold (\<lambda>(at, value) metadata. put_string metadata at value) module_strings metadata) (\<lambda>metadata.
     let names = [] # map export_name api @ map import_name imports;
         symbol_count = length names; exports = length api
     in rbind (lc_require (symbol_count * 24 = 0xFA38) ''runtime symbol-table size'') (\<lambda>_.
        rbind (on_span 0xA7A8 0xFA38 (\<lambda>symbols.
                 rbind (build_export_symbols api export_offsets symbols) (\<lambda>symbols.
                 rfold (import_symbol_step exports import_offsets) (zip [0..<length imports] imports) symbols))
                 metadata) (\<lambda>metadata.
        rbind (on_span 0x1A1E0 (100 * 24) (build_jumps exports imports) metadata) (\<lambda>metadata.
        rbind (on_span 0x1AB40 (1796 * 24) (build_rela exports imports) metadata) (\<lambda>metadata.
        rbind (lc_build_sysv_hash names) (\<lambda>hash.
        rbind (lc_require (length hash = 0x5370) ''runtime SysV hash size'') (\<lambda>_.
        rbind (lc_copy_bytes metadata 0x253A0 hash) (\<lambda>metadata.
        rbind (lc_require (0x253A0 + length hash = 0x2A710) ''runtime tables end at build note'') (\<lambda>_.
        rbind (on_span 0x2A710 0x24 build_gnu_note metadata) (\<lambda>metadata.
        on_span 0x2A738 (44 * 16) (lc_build_dynamic symbol_count) metadata)))))))))))))"

definition build_metadata :: "api_symbol list \<Rightarrow> runtime_import list \<Rightarrow> bytes \<Rightarrow> bytes res" where
  "build_metadata api imports file =
     rbind (on_span kMetadataFileOffset kMetadataSize (fill_metadata api imports) file) (\<lambda>file.
     rbind (lc_write_u64 file 0x113870 (kMetadataAddress + 0x2A738)) (\<lambda>file.
     rbind (fill_zero (0x113870 + 8) ((3 - 1 + 100) * 8) file) (\<lambda>file.
     rbind (fill_zero 0x113CE0 8 file) (\<lambda>file.
     fill_zero 0x114100 0x48 file))))"

section \<open>The runtime file\<close>

definition lc_build_comment :: "bytes \<Rightarrow> bytes res" where
  "lc_build_comment =
     on_span 0x146210 0x58 (\<lambda>comment.
       rbind (copy_ascii comment 0 ''PATH'') (\<lambda>comment.
       rbind (lc_write_u32 comment 4 0x50) (\<lambda>comment.
       rbind (lc_write_u32 comment 8 (of_nat (length ''libc.prx by BlackBearReloaded'' + 1))) (\<lambda>comment.
       copy_ascii comment 12 ''libc.prx by BlackBearReloaded''))))"

definition lc_build_version :: "bytes \<Rightarrow> bytes res" where
  "lc_build_version file =
     lc_copy_bytes file 0x146280
       ([0x00, 0x00, 0x16, 0x00, 0x08] @ to_bytes ''libc:'' @
        [0x02, 0x00, 0x00, 0x09, 0x00, 0x00, 0x00, 0x01, 0x02, 0x00, 0x00, 0x09, 0x00, 0x00, 0x00, 0x01])"

definition build_runtime :: "api_symbol list \<Rightarrow> runtime_import list \<Rightarrow> bytes res" where
  "build_runtime api imports =
     rbind (lc_build_elf_header (replicate kRuntimeFileSize 0)) (\<lambda>file.
     rbind (lc_write_u64 file 0x28 0x194F18) (\<lambda>file.
     rbind (lc_write_u16 file 0x3A 0x40) (\<lambda>file.
     rbind (lc_write_u16 file 0x3C 0x26) (\<lambda>file.
     rbind (lc_write_u16 file 0x3E 0x23) (\<lambda>file.
     rbind (build_program_headers file) (\<lambda>file.
     rbind (build_code imports file) (\<lambda>file.
     rbind (lc_write_u32 file kMarkerFileOffset 1) (\<lambda>file.
     rbind (build_unwind_header file) (\<lambda>file.
     rbind (build_module_param file) (\<lambda>file.
     rbind (build_metadata api imports file) (\<lambda>file.
     rbind (lc_build_comment file) (\<lambda>file.
     rbind (lc_build_version file) (\<lambda>file.
     copy_ascii file (kMarkerFileOffset + 0x100)
       ''ps5-native-app-boilerplate clean-room libc by BlackBearReloaded'')))))))))))))"

definition read_ascii_z :: "bytes \<Rightarrow> nat \<Rightarrow> string" where
  "read_ascii_z data at = of_bytes (takeWhile (\<lambda>b. b \<noteq> 0) (drop at data))"

fun contains :: "string \<Rightarrow> string \<Rightarrow> bool" where
  "contains needle [] \<longleftrightarrow> needle = []"
| "contains needle (c # cs) \<longleftrightarrow> take (length needle) (c # cs) = needle \<or> contains needle cs"

definition forbidden_text :: "string list" where
  "forbidden_text =
     [''W:/Build'', ''W:'' @ [CHR 0x5C] @ ''Build'', ''J013'', ''Prospero_Release'', ''sys/internal'']"

definition verify_runtime :: "bytes \<Rightarrow> api_symbol list \<Rightarrow> runtime_import list \<Rightarrow> unit res" where
  "verify_runtime file api imports =
     rbind (lc_require (length file = kRuntimeFileSize) ''runtime raw file size'') (\<lambda>_.
     rbind (lc_read_u32 file 0) (\<lambda>magic.
     rbind (lc_require (magic = 0x464C457F) ''runtime ELF magic'') (\<lambda>_.
     rbind (lc_read_u16 file 0x10) (\<lambda>type.
     rbind (lc_require (type = 0xFE18) ''runtime module type'') (\<lambda>_.
     rbind (lc_read_u16 file 0x38) (\<lambda>count.
     rbind (lc_require (count = 14) ''runtime program-header count'') (\<lambda>_.
     rbind (lc_read_u32 file kMarkerFileOffset) (\<lambda>marker.
     rbind (lc_require (marker = 1) ''runtime Need_sceLibc marker'') (\<lambda>_.
     rbind (lc_read_u64 file 0x113870) (\<lambda>got.
     rbind (lc_require (got = kMetadataAddress + 0x2A738) ''runtime GOT dynamic pointer'') (\<lambda>_.
     rbind (lc_require (read_ascii_z file (kMetadataFileOffset + 0xA74B) = ''libc.prx by BlackBearReloaded'')
              ''runtime clean original filename'') (\<lambda>_.
     rbind (lc_require (length api + length imports + 1 = 2669) ''runtime dynamic symbol count'') (\<lambda>_.
     let ascii = of_bytes file
     in rbind (lc_require (contains ''BlackBearReloaded'' ascii) ''runtime attribution marker'') (\<lambda>_.
        rfold (\<lambda>forbidden u. lc_require (\<not> contains forbidden ascii)
          (''runtime forbidden reference text: '' @ forbidden)) forbidden_text ()))))))))))))))"

text \<open>\<open>main\<close> between its file accesses: from the two manifests to the image and its printed hash.\<close>

definition libc_builder :: "string \<Rightarrow> string \<Rightarrow> (bytes \<times> string) res" where
  "libc_builder api_text import_text =
     rbind (read_api_surface api_text) (\<lambda>api.
     rbind (read_imports import_text) (\<lambda>imports.
     rbind (build_runtime api imports) (\<lambda>img.
     rbind (verify_runtime img api imports) (\<lambda>_.
     Inr (img, hex (sha256 img))))))"

end
