(* ===== verification/Libc_Properties.thy ===== *)
theory Libc_Properties
  imports Libc_Builder Module_Properties
begin

text \<open>
  The runtime builder agrees with the module writer where both compute the same thing (symbol
  names and hash tables), its code reaches the import slots its relocations fill, and the
  storage it gives to exported objects never overlaps.
\<close>

section \<open>Fields\<close>

lemma read_down_loop:
  assumes "at + n \<le> length data" and "at + n < 2 ^ 64" and "k \<le> n"
  shows "rfold (\<lambda>i v. rbind (elem_at data (sz_add at i)) (\<lambda>b. Inr (push_bit 8 v OR ucast b)))
      (rev [k..<n]) 0 = Inr (le_decode (drop k (chunk data at n)))"
  using assms(3)
proof (induction k rule: inc_induct)
  case base
  then show ?case by (simp add: assms)
next
  case (step k)
  have "drop k (chunk data at n) = data ! (at + k) # drop (Suc k) (chunk data at n)"
    using assms step.hyps by (subst Cons_nth_drop_Suc [symmetric]) simp_all
  then show ?case
    using step assms by (simp add: upt_conv_Cons rfold_append or.commute)
qed

lemma read_down_in:
  assumes "at + n \<le> length data" and "at + n < 2 ^ 64"
  shows "read_down n message data at = Inr (le_decode (chunk data at n))"
  using assms read_down_loop [OF assms, of 0] by (simp add: read_down_def lc_require_def)

lemma read_down_out:
  assumes "length data < at + n" and "at + n < 2 ^ 64"
  shows "read_down n message data at = Inl (Runtime (''self-check failed: '' @ message))"
  using assms by (simp add: read_down_def lc_require_def require_def)

interpretation lc16: field_access 2 "le_decode :: bytes \<Rightarrow> u16" lc_read_u16 "le_encode 2" lc_write_u16
  by unfold_locales
    (simp_all add: lc_read_u16_def lc_write_u16_def read_pair_in read_pair_out write_pair_in
      write_pair_out le_decode_encode)

interpretation lc32: word_table lc_read_u32 lc_write_u32
  by unfold_locales
    (simp_all add: lc_read_u32_def lc_write_u32_def read_down_in read_down_out write_le_in
      write_le_out le_decode_encode)

interpretation lc64: field_access 8 "le_decode :: bytes \<Rightarrow> u64" lc_read_u64 "le_encode 8" lc_write_u64
  by unfold_locales
    (simp_all add: lc_read_u64_def lc_write_u64_def read_down_in read_down_out write_le_in
      write_le_out le_decode_encode)

section \<open>Symbol names\<close>

lemma group_value:
  "push_bit 16 (ucast a) OR push_bit 8 (ucast b) OR ucast c = (le_decode [c, b, a] :: u32)"
  by (simp add: or.assoc or.commute or.left_commute push_bit_or)

lemma group_sextet:
  assumes "length d = 8" and "g < 2" and "q < 4"
  shows "unat (drop_bit (18 - 6 * q) (le_decode [d ! (5 - 3 * g), d ! (6 - 3 * g), d ! (7 - 3 * g)] :: u32) AND 63) =
    sextet (le_decode d) (4 * g + q)"
proof (rule sextet_window)
  let ?xs = "[d ! (5 - 3 * g), d ! (6 - 3 * g), d ! (7 - 3 * g)]"
  fix k :: nat assume k: "k < 6"
  define n where "n = 18 - 6 * q + k"
  have n: "n < 24" using k assms(3) by (simp add: n_def)
  then have m: "n div 8 < 3" by (simp add: less_mult_imp_div_less)
  have nth: "?xs ! m = d ! (5 - 3 * g + m)" if "m < 3" for m
    using that assms(2) by (auto simp: less_Suc_eq eval_nat_numeral)
  have at: "58 - 6 * (4 * g + q) + k = 8 * (5 - 3 * g) + n" using assms(2,3) by (auto simp: n_def)
  have "bit (le_decode ?xs :: u32) n = bit (d ! (5 - 3 * g + n div 8)) (n mod 8)"
    unfolding bit_le_decode using n m nth [OF m] by simp
  also have "\<dots> = bit (le_decode d :: u64) (8 * (5 - 3 * g) + n)"
  proof -
    have "8 * (5 - 3 * g) + n < 64" "5 - 3 * g + n div 8 < 8" using n m by linarith+
    then show ?thesis unfolding bit_le_decode using assms(1) by simp
  qed
  finally show "bit (drop_bit (18 - 6 * q) (le_decode ?xs :: u32)) k = bit (le_decode d :: u64) (58 - 6 * (4 * g + q) + k)"
    by (simp only: bit_drop_bit_eq o_apply at n_def [symmetric])
qed (use assms in auto)

lemma low_bits:
  assumes "length d = 8" and "8 \<le> n" and "n < 24" and "n - 8 < LENGTH('a)"
  shows "bit (le_decode [0, d ! 0, d ! 1] :: u32) n = bit (le_decode d :: 'a::len word) (n - 8)"
proof -
  obtain j where j: "n = 8 + j" using assms(2) le_Suc_ex by blast
  then have "j div 8 < 2" using assms(3) by (simp add: less_mult_imp_div_less)
  then have "j div 8 = 0 \<or> j div 8 = 1" by linarith
  moreover have "(8 + j) div 8 = Suc (j div 8)" "(8 + j) mod 8 = j mod 8" by simp_all
  ultimately show ?thesis unfolding bit_le_decode j using assms j by auto
qed

lemma last_group_sextet:
  assumes "length d = 8" and "q < 2"
  shows "unat (drop_bit (18 - 6 * q) (le_decode [0, d ! 0, d ! 1] :: u32) AND 63) = sextet (le_decode d) (8 + q)"
proof (rule sextet_window)
  fix k :: nat assume k: "k < 6"
  define n where "n = 18 - 6 * q + k"
  have n: "8 \<le> n" "n < 24" using k assms(2) by (auto simp: n_def)
  have at: "58 - 6 * (8 + q) + k = n - 8" using assms(2) by (auto simp: n_def)
  have "bit (le_decode [0, d ! 0, d ! 1] :: u32) n = bit (le_decode d :: u64) (n - 8)"
    using n assms(1) by (intro low_bits) simp_all
  then show "bit (drop_bit (18 - 6 * q) (le_decode [0, d ! 0, d ! 1] :: u32)) k = bit (le_decode d :: u64) (58 - 6 * (8 + q) + k)"
    by (simp only: bit_drop_bit_eq o_apply at n_def [symmetric])
qed (use assms in auto)

lemma last_sextet:
  assumes "length d = 8"
  shows "unat (drop_bit 6 (le_decode [0, d ! 0, d ! 1] :: u32) AND 63) = sextet (le_decode d) 10"
proof -
  have "bit (drop_bit 6 (le_decode [0, d ! 0, d ! 1]) :: u32) k = bit (push_bit 2 (le_decode d) :: u32) k" if "k < 6" for k
  proof (cases "k < 2")
    case True
    then have "(6 + k) div 8 = 0" by simp
    then have "\<not> bit (le_decode [0, d ! 0, d ! 1] :: u32) (6 + k)" unfolding bit_le_decode by simp
    then show ?thesis using True by (simp add: bit_drop_bit_eq bit_push_bit_iff del: le_decode.simps)
  next
    case False
    then have "bit (le_decode [0, d ! 0, d ! 1] :: u32) (6 + k) = bit (le_decode d :: u32) (6 + k - 8)"
      using that assms by (intro low_bits) simp_all
    then show ?thesis using False that by (simp add: bit_drop_bit_eq bit_push_bit_iff del: le_decode.simps)
  qed
  then have "take_bit 6 (drop_bit 6 (le_decode [0, d ! 0, d ! 1] :: u32)) = take_bit 6 (push_bit 2 (le_decode d))"
    by (intro bit_word_eqI) (auto simp: bit_take_bit_iff simp del: le_decode.simps)
  moreover have "w AND 63 = take_bit 6 w" for w :: u32 by (simp add: take_bit_eq_mask mask_eq_exp_minus_1)
  ultimately have "drop_bit 6 (le_decode [0, d ! 0, d ! 1] :: u32) AND 63 = push_bit 2 (le_decode d) AND 63"
    by (simp del: le_decode.simps)
  then show ?thesis using sextet_tail [OF assms] by simp
qed


lemma compute_nid_value: "compute_nid name = nid_encode (le_decode (take 8 (sha1 (to_bytes name @ nid_suffix))))"
proof -
  define d where "d = take 8 (sha1 (to_bytes name @ nid_suffix))"
  define v :: u64 where "v = le_decode d"
  have len: "length d = 8" by (simp add: d_def)
  then obtain b0 b1 b2 b3 b4 b5 b6 b7 where d: "d = [b7, b6, b5, b4, b3, b2, b1, b0]"
    by (auto simp: length_Suc_conv eval_nat_numeral)
  have eleven: "[0..<11] = [0, 1, 2, 3, 4, 5, 6, 7, 8, 9, 10 :: nat]" by (simp add: upt_rec)
  have three: "[0..<3] = [0, 1, 2 :: nat]" by (simp add: upt_rec)
  let ?g = "\<lambda>w :: u32. map (\<lambda>n. base64 ! unat (drop_bit n w AND 63)) [18, 12, 6, 0]"
  have groups: "base64_group (rev d) 0 = ?g (le_decode [d ! 5, d ! 6, d ! 7])"
    "base64_group (rev d) 3 = ?g (le_decode [d ! 2, d ! 3, d ! 4])"
    "take 3 (base64_group (rev d) 6) = butlast (?g (le_decode [0, d ! 0, d ! 1]))"
    unfolding base64_group_def Let_def d group_value [symmetric] by simp_all
  have "?g (le_decode [d ! 5, d ! 6, d ! 7]) = map (\<lambda>i. base64 ! sextet v i) [0, 1, 2, 3]"
    using group_sextet [OF len, of 0 0] group_sextet [OF len, of 0 1] group_sextet [OF len, of 0 2]
      group_sextet [OF len, of 0 3] by (simp add: v_def numeral_2_eq_2 del: le_decode.simps)
  moreover have "?g (le_decode [d ! 2, d ! 3, d ! 4]) = map (\<lambda>i. base64 ! sextet v i) [4, 5, 6, 7]"
    using group_sextet [OF len, of 1 0] group_sextet [OF len, of 1 1] group_sextet [OF len, of 1 2]
      group_sextet [OF len, of 1 3] by (simp add: v_def del: le_decode.simps)
  moreover have "butlast (?g (le_decode [0, d ! 0, d ! 1])) = map (\<lambda>i. base64 ! sextet v i) [8, 9, 10]"
    using last_group_sextet [OF len, of 0] last_group_sextet [OF len, of 1] last_sextet [OF len]
    by (simp add: v_def del: le_decode.simps)
  ultimately have "base64_group (rev d) 0 @ base64_group (rev d) 3 @ take 3 (base64_group (rev d) 6) =
      map (\<lambda>i. base64 ! sextet v i) [0, 1, 2, 3, 4, 5, 6, 7, 8, 9, 10]"
    unfolding groups by simp
  moreover have "length (base64_group x i) = 4" for x i by (simp add: base64_group_def Let_def)
  ultimately have digits: "take 11 (lc_base64 (rev d)) = map (\<lambda>i. base64 ! sextet v i) [0..<11]"
    unfolding eleven by (simp add: lc_base64_def len three)
  then show ?thesis
    using sextet_bound [of v]
    by (auto simp: compute_nid_def d_def [symmetric] v_def [symmetric] Let_def nid_encode_def base64_dash simp del: upt.simps)
qed

text \<open>Both builders give a symbol the same name: the runtime builder, which runs the digest
  through its base-64 encoder and cuts, and the module writer, which takes six bits at a
  time, compute the same eleven characters. An import of one resolves to an export of the other.\<close>

lemma compute_nid_is_nid: "compute_nid name = nid name"
  by (simp add: compute_nid_value nid_value)


section \<open>The runtime's symbol hash\<close>

lemma lc_elf_hash_eq: "lc_elf_hash name = elf_hash name"
  unfolding lc_elf_hash_def elf_hash_def elf_hash_step_def Let_def ..

lemma lc_hash_insert_slots:
  "lc_hash_insert names i table = rbind (lc_read_u32 table (bucket_at (symbol_bucket names i))) (\<lambda>previous.
     rbind (lc_write_u32 table (chain_at (length names) i) previous) (\<lambda>t.
     lc_write_u32 t (bucket_at (symbol_bucket names i)) (of_nat i)))"
  by (simp add: lc_hash_insert_def symbol_bucket_def bucket_at_def chain_at_def Let_def lc_elf_hash_eq)

lemma lc_build_sysv_hash_ok:
  assumes "names \<noteq> []" and "length names < 2 ^ 32"
  shows "\<exists>table. lc_build_sysv_hash names = Inr table \<and>
    hash_table_ok (symbol_bucket names) (length names) 1 table"
proof -
  let ?n = "length names"
  have n: "0 < ?n" using assms(1) by simp
  obtain t0 where t0: "rbind (lc_write_u32 (replicate (8 + ?n * 8) 0) 0 (of_nat ?n))
      (\<lambda>t. lc_write_u32 t 4 (of_nat ?n)) = Inr t0" "hash_table_ok (symbol_bucket names) ?n ?n t0"
    using lc32.empty_table [OF n assms(2)] by blast
  have "\<exists>table. rfold (lc_hash_insert names) (rev [1..<?n]) t0 = Inr table \<and>
      hash_table_ok (symbol_bucket names) ?n 1 table"
    using t0(2) n assms(2) by (intro lc32.insert_all) (simp_all add: lc_hash_insert_slots symbol_bucket_def)
  moreover have "lc_build_sysv_hash names = rfold (lc_hash_insert names) (rev [1..<?n]) t0"
    using t0(1) assms(1) by (auto simp: lc_build_sysv_hash_def Let_def rbind_Inr_iff)
  ultimately show ?thesis by auto
qed

section \<open>Import slots\<close>

text \<open>The slot of an import counts the PLT imports before it.\<close>

definition plt_rank :: "runtime_import list \<Rightarrow> nat \<Rightarrow> nat" where
  "plt_rank entries i = length (filter ri_plt (take i entries))"

lemma import_slot_from_rank:
  assumes "distinct (map ri_name entries)" and "i < length entries" and "ri_plt (entries ! i)"
  shows "import_slot_from k entries (ri_name (entries ! i)) =
    Inr (kGotAddress + of_nat ((3 + (k + plt_rank entries i)) * 8))"
  using assms
proof (induction entries arbitrary: i k)
  case (Cons e es)
  show ?case
  proof (cases i)
    case 0
    then show ?thesis using Cons.prems by (simp add: lc_require_def plt_rank_def)
  next
    case (Suc j)
    then have "ri_name (es ! j) \<in> ri_name ` set es" using Cons.prems by simp
    then have "ri_name e \<noteq> ri_name (es ! j)" using Cons.prems(1) by auto
    then show ?thesis
      using Suc Cons.prems Cons.IH [of j "if ri_plt e then k + 1 else k"] by (simp add: plt_rank_def)
  qed
qed simp

lemma plt_rank_Suc: "i < length entries \<Longrightarrow> plt_rank entries (Suc i) = plt_rank entries i + (if ri_plt (entries ! i) then 1 else 0)"
  by (simp add: plt_rank_def take_Suc_conv_app_nth)

lemma plt_rank_mono: "i \<le> j \<Longrightarrow> plt_rank entries i \<le> plt_rank entries j"
proof -
  assume "i \<le> j"
  then have "take j entries = take i entries @ take (j - i) (drop i entries)" by (metis le_add_diff_inverse take_add)
  then show ?thesis by (simp add: plt_rank_def)
qed


definition jump_ok :: "nat \<Rightarrow> runtime_import list \<Rightarrow> bytes \<Rightarrow> nat \<Rightarrow> bool" where
  "jump_ok exports entries table i \<longleftrightarrow>
     plt_rank entries i * 24 + 16 \<le> length table \<and>
     chunk table (plt_rank entries i * 24) 16 =
       le_encode 8 (kGotAddress + of_nat ((3 + plt_rank entries i) * 8)) @
       le_encode 8 (push_bit 32 (of_nat (exports + 1 + i)) OR (7 :: u64))"

lemma plt_rank_le: "plt_rank entries i \<le> i"
  using length_filter_le [of ri_plt "take i entries"] by (simp add: plt_rank_def)

lemma chunk_two_puts:
  assumes "at + 16 \<le> length d" and "length a = 8" and "length b = 8"
  shows "chunk (put (put d at a) (at + 8) b) at 16 = a @ b"
  using assms by (intro nth_equalityI) (auto simp: nth_put nth_append)

lemma jumps_written:
  assumes "length entries < 2 ^ 32" and "m \<le> length entries"
    and "rfold (jump_step exports) (take m (zip [0..<length entries] entries)) (table, 0) = Inr (out, n)"
  shows "n = plt_rank entries m \<and> length out = length table \<and>
    (\<forall>i < m. ri_plt (entries ! i) \<longrightarrow> jump_ok exports entries out i)"
  using assms(2,3)
proof (induction m arbitrary: out n)
  case 0
  then show ?case by (simp add: plt_rank_def)
next
  case (Suc m)
  let ?rows = "zip [0..<length entries] entries"
  have m: "m < length entries" using Suc.prems by simp
  have "take (Suc m) ?rows = take m ?rows @ [(m, entries ! m)]" using m by (simp add: take_Suc_conv_app_nth)
  with Suc.prems(2) obtain d k where dk: "rfold (jump_step exports) (take m ?rows) (table, 0) = Inr (d, k)"
    and step: "jump_step exports (m, entries ! m) (d, k) = Inr (out, n)"
    by (auto simp: rfold_append res_simps)
  have IH: "k = plt_rank entries m" "length d = length table"
    "\<And>i. i < m \<Longrightarrow> ri_plt (entries ! i) \<Longrightarrow> jump_ok exports entries d i"
    using Suc.IH [OF _ dk] m by auto
  show ?case
  proof (cases "ri_plt (entries ! m)")
    case False
    then show ?thesis using step IH m by (auto simp: jump_step_def plt_rank_Suc less_Suc_eq)
  next
    case True
    let ?at = "plt_rank entries m * 24"
    have small: "?at + 16 < 2 ^ 64" using plt_rank_le [of entries m] m assms(1) by simp
    have out: "out = put (put d ?at (le_encode 8 (kGotAddress + of_nat ((3 + plt_rank entries m) * 8))))
        (?at + 8) (le_encode 8 (push_bit 32 (of_nat (exports + 1 + m)) OR (7 :: u64)))"
      and room: "?at + 16 \<le> length d" and n: "n = plt_rank entries m + 1"
      using step True small IH(1) by (auto simp: jump_step_def Let_def res_simps lc64.wr_Inr_iff)
    have "jump_ok exports entries out i" if "i < m" "ri_plt (entries ! i)" for i
    proof -
      have "plt_rank entries i + 1 \<le> plt_rank entries m"
        using that m plt_rank_Suc [of i entries] plt_rank_mono [of "Suc i" m entries] by simp
      then have "plt_rank entries i * 24 + 16 \<le> ?at" by simp
      then show ?thesis
        using IH(3) [OF that] room unfolding out jump_ok_def by (simp add: chunk_put_disjoint)
    qed
    moreover have "jump_ok exports entries out m"
      unfolding jump_ok_def out using room by (simp add: chunk_two_puts)
    ultimately show ?thesis using n True m room IH(2) by (auto simp: plt_rank_Suc less_Suc_eq out)
  qed
qed

lemma import_slot_in_jumps:
  assumes "build_jumps exports entries table = Inr out" and "distinct (map ri_name entries)"
    and "length entries < 2 ^ 32" and "i < length entries" and "ri_plt (entries ! i)"
  shows "\<exists>slot. import_slot entries (ri_name (entries ! i)) = Inr slot \<and>
    lc_read_u64 out (plt_rank entries i * 24) = Inr slot \<and>
    lc_read_u64 out (plt_rank entries i * 24 + 8) = Inr (push_bit 32 (of_nat (exports + 1 + i)) OR 7)"
proof -
  have all: "take (length entries) (zip [0..<length entries] entries) = zip [0..<length entries] entries" by simp
  obtain k where "rfold (jump_step exports) (take (length entries) (zip [0..<length entries] entries)) (table, 0) = Inr (out, k)"
    using assms(1) unfolding all by (auto simp: build_jumps_def res_simps)
  then have ok: "jump_ok exports entries out i" using jumps_written [OF assms(3) order_refl] assms(4,5) by blast
  let ?at = "plt_rank entries i * 24"
  let ?a = "le_encode 8 (kGotAddress + of_nat ((3 + plt_rank entries i) * 8))"
  let ?b = "le_encode 8 (push_bit 32 (of_nat (exports + 1 + i)) OR (7 :: u64))"
  have room: "?at + 16 \<le> length out" and row: "chunk out ?at 16 = ?a @ ?b" using ok by (simp_all add: jump_ok_def)
  have small: "?at + 16 < 2 ^ 64" using plt_rank_le [of entries i] assms(3,4) by simp
  have halves: "chunk out ?at 8 = ?a" "chunk out (?at + 8) 8 = ?b"
    using arg_cong [OF row, of "take 8"] arg_cong [OF row, of "drop 8"] room
    by (simp_all add: chunk_def drop_take add.commute)
  have "lc_read_u64 out ?at = Inr (kGotAddress + of_nat ((3 + plt_rank entries i) * 8))"
    "lc_read_u64 out (?at + 8) = Inr (push_bit 32 (of_nat (exports + 1 + i)) OR 7)"
    using room small halves by (simp_all add: lc64.rd_in lc64.dec_enc)
  then show ?thesis
    using import_slot_from_rank [OF assms(2,4,5), of 0] by (simp add: import_slot_def)
qed

lemma jumps_return:
  assumes "length entries < 2 ^ 32" and "m \<le> length entries" and "plt_rank entries m * 24 \<le> length table"
  shows "\<exists>s. rfold (jump_step exports) (take m (zip [0..<length entries] entries)) (table, 0) = Inr s"
  using assms(2,3)
proof (induction m)
  case (Suc m)
  let ?rows = "zip [0..<length entries] entries"
  have m: "m < length entries" using Suc.prems by simp
  have le: "plt_rank entries m \<le> plt_rank entries (Suc m)" by (rule plt_rank_mono) simp
  then obtain d k where dk: "rfold (jump_step exports) (take m ?rows) (table, 0) = Inr (d, k)"
    using Suc m by fastforce
  have k: "k = plt_rank entries m" "length d = length table"
    using jumps_written [OF assms(1) _ dk] m by auto
  have "k * 24 + 16 < 2 ^ 64" using k(1) plt_rank_le [of entries m] m assms(1) by simp
  moreover have "ri_plt (entries ! m) \<longrightarrow> k * 24 + 24 \<le> length d"
    using Suc.prems k plt_rank_Suc [OF m] by auto
  ultimately have "\<exists>s. jump_step exports (m, entries ! m) (d, k) = Inr s"
    by (auto simp: jump_step_def Let_def lc64.wr_in lc64.enc_width)
  moreover have "take (Suc m) ?rows = take m ?rows @ [(m, entries ! m)]" using m by (simp add: take_Suc_conv_app_nth)
  ultimately show ?case using dk by (auto simp: rfold_append)
qed simp

lemma build_jumps_return:
  assumes "length entries < 2 ^ 32" and "length (filter ri_plt entries) = 100" and "length table = 100 * 24"
  shows "\<exists>out. build_jumps exports entries table = Inr out"
proof -
  let ?rows = "take (length entries) (zip [0..<length entries] entries)"
  have rank: "plt_rank entries (length entries) = 100" using assms(2) by (simp add: plt_rank_def)
  obtain out k where run: "rfold (jump_step exports) ?rows (table, 0) = Inr (out, k)"
    using jumps_return [OF assms(1) order_refl, of table] rank assms(3) by fastforce
  then have "k = 100" using jumps_written [OF assms(1) order_refl run] rank by simp
  with run show ?thesis by (simp add: build_jumps_def lc_require_def)
qed

text \<open>The code the runtime runs at start calls through the slots its relocations fill: with the
  hundred PLT imports the manifest reader insists on \<open>build_jumps\<close> succeeds, and for every one of them the address \<open>import_slot\<close> gives \<open>build_code\<close> is the target of the
  jump relocation written for it, and that relocation names the import's own
  symbol.\<close>

lemma import_slot_relocated:
  assumes "distinct (map ri_name entries)" and "length entries < 2 ^ 32"
    and "length (filter ri_plt entries) = 100" and "length table = 100 * 24"
  shows "\<exists>out. build_jumps exports entries table = Inr out \<and>
    (\<forall>i < length entries. ri_plt (entries ! i) \<longrightarrow>
       (\<exists>slot. import_slot entries (ri_name (entries ! i)) = Inr slot \<and>
          lc_read_u64 out (plt_rank entries i * 24) = Inr slot \<and>
          lc_read_u64 out (plt_rank entries i * 24 + 8) = Inr (push_bit 32 (of_nat (exports + 1 + i)) OR 7)))"
  using build_jumps_return [OF assms(2-4)] import_slot_in_jumps [OF _ assms(1,2)] by blast

definition sample_imports :: "runtime_import list" where
  "sample_imports = map (\<lambda>i. \<lparr>ri_name = replicate i (CHR ''x''), ri_suffix = ''#A#B'', ri_plt = True,
     ri_glob_dat = False\<rparr>) [0..<100]"

section \<open>Storage of exported objects\<close>

lemma round_to_eight:
  assumes "unat (v :: u64) < 2 ^ 63"
  shows "unat ((v + 7) AND NOT 7) = (unat v + 7) div 8 * 8"
proof -
  have "unat (v + 7) = unat v + 7" using assms by (simp add: unat_word_ariths)
  then show ?thesis using unat_and_not_mask [of "v + 7" 3] by (simp add: mask_eq_exp_minus_1)
qed

text \<open>The value field of a symbol.\<close>

definition symbol_value :: "bytes \<Rightarrow> nat \<Rightarrow> u64" where
  "symbol_value table index = le_decode (chunk table (index * 24 + 8) 8)"

lemma write_symbol_Inr:
  assumes "write_symbol index row table = Inr out" and "index < 2 ^ 32"
  shows "length out = length table" and "index * 24 + 24 \<le> length table" and "symbol_value out index = row_value row"
    and "\<And>k. k \<noteq> index \<Longrightarrow> symbol_value out k = symbol_value table k"
proof -
  have small: "index * 24 + 24 < 2 ^ 64" using assms(2) by simp
  show room: "index * 24 + 24 \<le> length table"
    using assms(1) small by (auto simp: write_symbol_def Let_def lc_require_def res_simps)
  have out: "out = put (put (put (put (put (put table (index * 24) (le_encode 4 (row_name row)))
      (index * 24 + 4) [row_info row]) (index * 24 + 5) [row_other row])
      (index * 24 + 6) (le_encode 2 (row_section row))) (index * 24 + 8) (le_encode 8 (row_value row)))
      (index * 24 + 16) (le_encode 8 (row_size row))"
    using assms(1) small room
    by (simp add: write_symbol_def Let_def lc_require_def lc32.wr_in lc16.wr_in lc64.wr_in set_byte_put del: set_byte_in)
  show "length out = length table" using room by (simp add: out)
  show "symbol_value out index = row_value row"
    using room by (simp add: out symbol_value_def chunk_put_disjoint chunk_put_same le_decode_encode)
  fix k assume "k \<noteq> index"
  then have "k * 24 + 24 \<le> index * 24 \<or> index * 24 + 24 \<le> k * 24" by (cases k index rule: linorder_cases) auto
  then show "symbol_value out k = symbol_value table k"
    using room by (elim disjE) (simp_all add: out symbol_value_def chunk_put_disjoint)
qed


definition stored_object :: "api_symbol \<Rightarrow> bool" where
  "stored_object s \<longleftrightarrow> api_type s = 1 \<and> api_nid s \<noteq> ''P330P3dFF68''"

definition object_room :: "api_symbol \<Rightarrow> nat" where
  "object_room s = max (unat (api_size s)) 1"

text \<open>After \<open>m\<close> symbols: the objects among them lie in order between the start of the storage and
  the cursor.\<close>

definition exports_placed :: "api_symbol list \<Rightarrow> bytes \<Rightarrow> nat \<Rightarrow> nat \<Rightarrow> bool" where
  "exports_placed api table m cursor \<longleftrightarrow>
     (\<forall>i < m. stored_object (api ! i) \<longrightarrow>
        0x110180 \<le> unat (symbol_value table (i + 1)) \<and> unat (symbol_value table (i + 1)) mod 8 = 0 \<and>
        unat (symbol_value table (i + 1)) + object_room (api ! i) \<le> 0x110000 + cursor) \<and>
     (\<forall>j < m. \<forall>i < j. stored_object (api ! i) \<longrightarrow> stored_object (api ! j) \<longrightarrow>
        unat (symbol_value table (i + 1)) + object_room (api ! i) \<le> unat (symbol_value table (j + 1)))"

lemma place_export_cursor:
  assumes "place_export s (oc, tc) = Inr (v, sec, other, oc', tc')" and "unat oc < 2 ^ 52" and "unat (api_size s) < 2 ^ 32"
  shows "if stored_object s
    then unat v = 0x110000 + (unat oc + 7) div 8 * 8 \<and> unat oc' = (unat oc + 7) div 8 * 8 + object_room s
    else oc' = oc"
proof (cases "stored_object s")
  case False
  then show ?thesis using assms(1)
    by (auto simp: place_export_def stored_object_def Let_def split: if_splits)
next
  case True
  let ?c = "lc_align_up oc 8"
  have c: "unat ?c = (unat oc + 7) div 8 * 8"
    using round_to_eight [of oc] assms(2) by (simp add: lc_align_up_def add.commute)
  have small: "(unat oc + 7) div 8 * 8 \<le> unat oc + 7" by simp
  have eq: "v = 0x110000 + ?c" "oc' = ?c + max (api_size s) 1"
    using True assms(1) by (auto simp: place_export_def stored_object_def Let_def)
  have room: "unat (max (api_size s) 1) = object_room s" by (simp add: object_room_def max_def word_le_nat_alt)
  have "object_room s < 2 ^ 33" using assms(3) by (simp add: object_room_def)
  then have "unat v = 0x110000 + unat ?c" "unat oc' = unat ?c + object_room s"
    using assms(2) small unfolding eq by (simp_all add: unat_word_ariths room c)
  then show ?thesis using True c by simp
qed

lemma exports_placed_step:
  assumes "exports_placed api table m cursor" and "0x180 \<le> cursor"
    and "\<And>k. k \<noteq> m + 1 \<Longrightarrow> symbol_value out k = symbol_value table k"
    and "if stored_object (api ! m)
      then unat (symbol_value out (m + 1)) = 0x110000 + (cursor + 7) div 8 * 8 \<and>
        cursor' = (cursor + 7) div 8 * 8 + object_room (api ! m)
      else cursor' = cursor"
  shows "exports_placed api out (Suc m) cursor' \<and> cursor \<le> cursor'"
proof -
  have up: "cursor \<le> (cursor + 7) div 8 * 8" by simp
  have old: "symbol_value out (Suc i) = symbol_value table (Suc i)" if "i < m" for i using assms(3) that by simp
  have grow: "cursor \<le> cursor'" using assms(4) up by (auto split: if_splits)
  have new: "unat (symbol_value out (Suc m)) = 0x110000 + (cursor + 7) div 8 * 8"
    "cursor' = (cursor + 7) div 8 * 8 + object_room (api ! m)" if "stored_object (api ! m)"
    using assms(4) that by simp_all
  have eight: "(0x110000 + (cursor + 7) div 8 * 8) mod 8 = 0" by presburger
  have in_range: "0x110180 \<le> unat (symbol_value out (Suc i)) \<and> unat (symbol_value out (Suc i)) mod 8 = 0 \<and>
      unat (symbol_value out (Suc i)) + object_room (api ! i) \<le> 0x110000 + cursor'"
    if "i < Suc m" "stored_object (api ! i)" for i
  proof (cases "i = m")
    case True
    then show ?thesis using new that(2) up assms(2) eight by simp
  next
    case False
    then have "i < m" using that by simp
    then show ?thesis using assms(1) old that(2) grow unfolding exports_placed_def by fastforce
  qed
  have "unat (symbol_value out (Suc i)) + object_room (api ! i) \<le> unat (symbol_value out (Suc j))"
    if "j < Suc m" "i < j" "stored_object (api ! i)" "stored_object (api ! j)" for i j
  proof (cases "j = m")
    case True
    then have "i < m" using that by simp
    then have "unat (symbol_value out (Suc i)) + object_room (api ! i) \<le> 0x110000 + cursor"
      using assms(1) old that(3) unfolding exports_placed_def by simp
    then show ?thesis using new True that(4) up by simp
  next
    case False
    then have "j < m" using that by simp
    then show ?thesis using assms(1) old that unfolding exports_placed_def by simp
  qed
  then show ?thesis using in_range grow by (simp add: exports_placed_def)
qed


lemma exports_written:
  assumes "length api < 2 ^ 16" and "\<forall>s \<in> set api. unat (api_size s) < 2 ^ 32" and "m \<le> length api"
    and "rfold (export_step offsets) (take m (zip [0..<length api] api)) (table, 0x180, 0) = Inr (out, oc, tc)"
  shows "length out = length table \<and> exports_placed api out m (unat oc) \<and> 0x180 \<le> unat oc \<and>
    unat oc \<le> 0x180 + m * (2 ^ 33)"
  using assms(3,4)
proof (induction m arbitrary: out oc tc)
  case 0
  then show ?case by (simp add: exports_placed_def)
next
  case (Suc m)
  let ?rows = "zip [0..<length api] api"
  have m: "m < length api" using Suc.prems by simp
  have "take (Suc m) ?rows = take m ?rows @ [(m, api ! m)]" using m by (simp add: take_Suc_conv_app_nth)
  with Suc.prems(2) obtain d oc0 tc0 where pre: "rfold (export_step offsets) (take m ?rows) (table, 0x180, 0) = Inr (d, oc0, tc0)"
    and step: "export_step offsets (m, api ! m) (d, oc0, tc0) = Inr (out, oc, tc)"
    by (auto simp: rfold_append res_simps)
  have IH: "length d = length table" "exports_placed api d m (unat oc0)" "0x180 \<le> unat oc0"
    "unat oc0 \<le> 0x180 + m * 2 ^ 33"
    using Suc.IH [OF _ pre] m by auto
  have sz: "unat (api_size (api ! m)) < 2 ^ 32" using assms(2) m by simp
  have oc0: "unat oc0 < 2 ^ 52" using IH(4) m assms(1) by simp
  obtain v sec other offset where place: "place_export (api ! m) (oc0, tc0) = Inr (v, sec, other, oc, tc)"
    and written: "write_symbol (m + 1) \<lparr>row_name = of_nat offset,
        row_info = push_bit 4 (api_binding (api ! m)) OR api_type (api ! m), row_other = other,
        row_section = sec, row_value = v, row_size = api_size (api ! m)\<rparr> d = Inr out"
    using step by (auto simp: export_step_def res_simps simp del: elem_at_in)
  have idx: "m + 1 < 2 ^ 32" using m assms(1) by simp
  note w = write_symbol_Inr [OF written idx]
  note c = place_export_cursor [OF place oc0 sz]
  have up: "(unat oc0 + 7) div 8 * 8 \<le> unat oc0 + 7" by simp
  have "unat oc \<le> unat oc0 + 2 ^ 33"
    using c sz up by (auto simp: object_room_def split: if_splits)
  moreover have "exports_placed api out (Suc m) (unat oc) \<and> unat oc0 \<le> unat oc"
    using c w(3,4) by (intro exports_placed_step [OF IH(2,3)]) auto
  ultimately show ?case using IH w(1) by simp
qed


definition sample_api :: "api_symbol list" where
  "sample_api = [\<lparr>api_nid = ''AAAAAAAAAAA'', api_binding = 1, api_type = 1, api_size = 5\<rparr>,
     \<lparr>api_nid = ''BBBBBBBBBBB'', api_binding = 1, api_type = 2, api_size = 0\<rparr>,
     \<lparr>api_nid = ''CCCCCCCCCCC'', api_binding = 2, api_type = 1, api_size = 8\<rparr>]"


section \<open>Generated code\<close>

lemma lc_copy_Inr:
  assumes "lc_copy_bytes file at src = Inr d"
  shows "d = put file at src \<and> at + length src \<le> length file"
  using assms by (auto simp: lc_copy_bytes_def copy_raw_def res_simps split: if_splits)

lemma displacement_word:
  assumes "- (2 ^ 31) \<le> k" and "k \<le> 2 ^ 31 - 1"
  shows "(scast (word_of_int k :: u32) :: u64) = word_of_int k"
proof -
  have "sint (word_of_int k :: u32) = k"
    using assms by (simp add: sint_sbintrunc' signed_take_bit_int_eq_self)
  then show ?thesis by (metis scast_eq)
qed

text \<open>A RIP-relative instruction reaches its target: the opcode stands at the cursor, the
  sign-extended displacement stored after it, added to the address of the next instruction
  (where the cursor ends up), is the address it was generated for.\<close>

lemma rip_relative_reaches:
  assumes "write_rip_relative_code opcode target (file, address) = Inr (file', address')"
    and "0x4000 + unat address + length opcode + 4 < 2 ^ 64"
  shows "unat address' = unat address + length opcode + 4 \<and>
    chunk file' (0x4000 + unat address) (length opcode) = opcode \<and>
    (\<exists>d. lc_read_u32 file' (0x4000 + unat address + length opcode) = Inr d \<and> address' + scast d = target)"
proof -
  let ?at = "unat (0x4000 + address)" and ?k = "sint target - sint (address + of_nat (length opcode) + 4)"
  have at: "?at = 0x4000 + unat address" using assms(2) by (simp add: unat_word_ariths)
  have wide: "sz_add ?at (length opcode) = ?at + length opcode" using assms(2) at by simp
  obtain d where run: "- (2 ^ 31) \<le> ?k" "?k \<le> 2 ^ 31 - 1" "lc_copy_bytes file ?at opcode = Inr d"
    "lc_write_u32 d (?at + length opcode) (word_of_int ?k) = Inr file'"
    and next_at: "address' = address + of_nat (length opcode) + 4"
    using assms(1) wide
    by (auto simp: write_rip_relative_code_def Let_def lc_write_i32_def lc_require_def res_simps split: if_splits)
  have d: "d = put file ?at opcode" "?at + length opcode \<le> length file" using lc_copy_Inr [OF run(3)] by auto
  have room: "?at + length opcode + 4 \<le> length d" and file': "file' = put d (?at + length opcode) (le_encode 4 (word_of_int ?k :: u32))"
    using run(4) assms(2) at by (auto simp: lc32.wr_Inr_iff)
  have "unat address' = unat address + length opcode + 4"
    unfolding next_at using assms(2) by (simp add: unat_word_ariths unat_of_nat)
  moreover have "chunk file' ?at (length opcode) = opcode"
    using room d by (simp add: file' chunk_put_disjoint chunk_put_same)
  moreover have "lc_read_u32 file' (?at + length opcode) = Inr (word_of_int ?k)"
    using lc32.rd_after_wr [OF _ run(4)] assms(2) at by simp
  moreover have "address' + scast (word_of_int ?k :: u32) = target"
    unfolding displacement_word [OF run(1,2)] next_at by simp
  ultimately show ?thesis unfolding at by blast
qed

end
