(* ===== verification/Gpu_Protocol.thy ===== *)
theory Gpu_Protocol
  imports Prelude
begin

text \<open>
  \<open>tooling/gpu-broker/protocol.h\<close> and \<open>completion.h\<close>: the message a client and the GPU broker
  exchange, the checks its fields pass before they are used, the two address ranges host-visible
  buffers come from, and the packet by which the GPU says a submission is done. The kernel's
  reservation of a client's ranges is a function of the range asked for.
\<close>

section \<open>Constants\<close>

definition PW_GPU_MAGIC :: u32 where "PW_GPU_MAGIC = 0x47505233"
definition PW_GPU_LIMIT :: u64 where "PW_GPU_LIMIT = push_bit 20 128"
definition PW_GPU_HOST_LIMIT_MAX :: u64 where "PW_GPU_HOST_LIMIT_MAX = push_bit 30 4"
definition PW_GPU_LOCAL_MAX :: u64 where "PW_GPU_LOCAL_MAX = push_bit 30 16"
definition PW_GPU_ALIGNMENT_MAX :: u64 where "PW_GPU_ALIGNMENT_MAX = push_bit 20 2"
definition PW_GPU_ALLOC_LOCAL :: u64 where "PW_GPU_ALLOC_LOCAL = 1"
definition PW_GPU_ALLOC_ZERO :: u64 where "PW_GPU_ALLOC_ZERO = 2"
definition PW_GPU_HOST_WINDOW_BASE :: u64 where "PW_GPU_HOST_WINDOW_BASE = 0x240000000"
definition PW_GPU_HOST_WINDOW_BYTES :: u64 where "PW_GPU_HOST_WINDOW_BYTES = push_bit 20 512"
definition PW_GPU_HOST_HIGH_BASE :: u64 where "PW_GPU_HOST_HIGH_BASE = 0x3000000000"
definition PW_GPU_HOST_HIGH_BYTES :: u64 where "PW_GPU_HOST_HIGH_BYTES = push_bit 30 16"
definition PW_GPU_PRESENT_SHOWN :: u64 where "PW_GPU_PRESENT_SHOWN = 2"

lemmas gpu_constants [simp] =
  PW_GPU_MAGIC_def PW_GPU_LIMIT_def PW_GPU_HOST_LIMIT_MAX_def PW_GPU_LOCAL_MAX_def
  PW_GPU_ALIGNMENT_MAX_def PW_GPU_ALLOC_LOCAL_def PW_GPU_ALLOC_ZERO_def
  PW_GPU_HOST_WINDOW_BASE_def PW_GPU_HOST_WINDOW_BYTES_def PW_GPU_HOST_HIGH_BASE_def
  PW_GPU_HOST_HIGH_BYTES_def PW_GPU_PRESENT_SHOWN_def

datatype gpu_operation =
  PW_GPU_INIT | PW_GPU_ALLOC | PW_GPU_FREE | PW_GPU_SUBMIT | PW_GPU_TESS | PW_GPU_OFFCHIP |
  PW_GPU_DONE | PW_GPU_IMAGE | PW_GPU_PRESENT | PW_GPU_SWAPCHAIN | PW_GPU_WINDOW_SWAPCHAIN |
  PW_GPU_TIMING | PW_GPU_PRESENT_LINK | PW_GPU_VRANGE_RESERVE | PW_GPU_VRANGE_RELEASE |
  PW_GPU_VRANGE_BIND | PW_GPU_VRANGE_UNBIND

text \<open>The numbers the \<open>enum\<close> gives them, from 1 on.\<close>

definition gpu_operations :: "gpu_operation list" where
  "gpu_operations = [PW_GPU_INIT, PW_GPU_ALLOC, PW_GPU_FREE, PW_GPU_SUBMIT, PW_GPU_TESS, PW_GPU_OFFCHIP,
     PW_GPU_DONE, PW_GPU_IMAGE, PW_GPU_PRESENT, PW_GPU_SWAPCHAIN, PW_GPU_WINDOW_SWAPCHAIN,
     PW_GPU_TIMING, PW_GPU_PRESENT_LINK, PW_GPU_VRANGE_RESERVE, PW_GPU_VRANGE_RELEASE,
     PW_GPU_VRANGE_BIND, PW_GPU_VRANGE_UNBIND]"

definition operation_of :: "u32 \<Rightarrow> gpu_operation option" where
  "operation_of n = (if 1 \<le> n \<and> unat n \<le> length gpu_operations then Some (gpu_operations ! (unat n - 1)) else None)"

record pw_gpu_message =
  gm_magic :: u32
  gm_operation :: u32
  gm_sequence :: u32
  gm_status :: int
  gm_address :: u64
  gm_bytes :: u64
  gm_argument0 :: u64
  gm_argument1 :: u64
  gm_argument2 :: u64
  gm_argument3 :: u64

section \<open>The checks\<close>

text \<open>Processes are C ints. A requested id is compared as an unsigned 64-bit number.\<close>

definition pw_gpu_client_pid :: "int \<Rightarrow> u64 \<Rightarrow> int \<Rightarrow> bool" where
  "pw_gpu_client_pid expected requested owner \<longleftrightarrow>
     0 \<le> expected \<and> 0 < requested \<and> requested \<le> 0x7FFFFFFF \<and>
     (requested \<noteq> word_of_int owner \<or> expected = owner) \<and>
     (expected = 0 \<or> requested = word_of_int expected)"

definition pw_gpu_window_image :: "pw_gpu_message \<Rightarrow> bool" where
  "pw_gpu_window_image m =
     (let width = ucast (gm_argument0 m) :: u32; height = ucast (drop_bit 32 (gm_argument0 m)) :: u32;
          stride = ucast (gm_argument1 m) :: u32; hwnd = ucast (drop_bit 32 (gm_argument1 m)) :: u32
      in width \<noteq> 0 \<and> width \<le> 2176 \<and> height \<noteq> 0 \<and> height \<le> 1408 \<and> width * 4 \<le> stride \<and> stride \<le> 2176 * 4 \<and>
         stride AND 3 = 0 \<and> hwnd \<noteq> 0 \<and> gm_argument2 m \<noteq> 0 \<and>
         gm_argument3 m AND NOT PW_GPU_PRESENT_SHOWN \<le> 1 \<and>
         gm_bytes m = ucast height * ucast stride \<and> gm_address m \<noteq> 0 \<and> gm_address m AND 3 = 0)"

definition pw_gpu_display_image :: "pw_gpu_message \<Rightarrow> bool" where
  "pw_gpu_display_image m =
     (let width = gm_argument0 m; height = gm_argument1 m; pitch = gm_argument2 m
      in width \<noteq> 0 \<and> width \<le> 2176 \<and> height \<noteq> 0 \<and> height \<le> 1408 \<and> width * 4 \<le> pitch \<and> pitch \<le> 2176 * 4 \<and>
         pitch AND 3 = 0 \<and> gm_argument3 m AND NOT PW_GPU_PRESENT_SHOWN \<le> 1 \<and>
         gm_bytes m = height * pitch \<and> gm_address m \<noteq> 0 \<and> gm_address m AND 3 = 0)"

definition pw_gpu_display_shown :: "pw_gpu_message \<Rightarrow> u32 \<times> u32" where
  "pw_gpu_display_shown m =
     ((if 1920 < gm_argument0 m then 1920 else ucast (gm_argument0 m)),
      (if 1080 < gm_argument1 m then 1080 else ucast (gm_argument1 m)))"

definition pw_gpu_contains :: "u64 \<Rightarrow> u64 \<Rightarrow> u64 \<Rightarrow> u64 \<Rightarrow> bool" where
  "pw_gpu_contains base len address sz \<longleftrightarrow>
     len \<noteq> 0 \<and> len \<le> (- 1) - base \<and> sz \<noteq> 0 \<and> base \<le> address \<and> address - base \<le> len \<and> sz \<le> len - (address - base)"

definition pw_gpu_host_range :: "u64 \<Rightarrow> u64 \<Rightarrow> int" where
  "pw_gpu_host_range address sz =
     (if pw_gpu_contains PW_GPU_HOST_WINDOW_BASE PW_GPU_HOST_WINDOW_BYTES address sz then 0
      else if pw_gpu_contains PW_GPU_HOST_HIGH_BASE PW_GPU_HOST_HIGH_BYTES address sz then 1
      else - 1)"

text \<open>
  A client's reservation of both ranges. \<open>reserve base size\<close> is the outcome of
  \<open>sceKernelReserveVirtualRange\<close>: its error (0 when there is none) and the address it left in
  \<open>*at\<close>. The result is the returned flag and the ranges the calls of \<open>unmap\<close> named, in order.
\<close>

fun reserve_loop :: "(u64 \<Rightarrow> u64 \<Rightarrow> int \<times> u64) \<Rightarrow> (u64 \<times> u64) list \<Rightarrow> nat \<times> (u64 \<times> u64) list" where
  "reserve_loop reserve [] = (0, [])"
| "reserve_loop reserve ((base, sz) # rest) =
     (let (err, at) = reserve base sz
      in if err \<noteq> 0 \<or> at \<noteq> base then (0, if at \<noteq> 0 \<and> at \<noteq> base then [(at, sz)] else [])
         else apfst Suc (reserve_loop reserve rest))"

definition host_bases :: "(u64 \<times> u64) list" where
  "host_bases = [(PW_GPU_HOST_WINDOW_BASE, PW_GPU_HOST_WINDOW_BYTES), (PW_GPU_HOST_HIGH_BASE, PW_GPU_HOST_HIGH_BYTES)]"

definition pw_gpu_reserve_host_ranges :: "(u64 \<Rightarrow> u64 \<Rightarrow> int \<times> u64) \<Rightarrow> bool \<times> (u64 \<times> u64) list" where
  "pw_gpu_reserve_host_ranges reserve =
     (let (kept, unmapped) = reserve_loop reserve host_bases
      in if kept = 2 then (True, unmapped) else (False, unmapped @ rev (take kept host_bases)))"

section \<open>The completion packet\<close>

definition ps5_gpu_completion_packet :: "u64 \<Rightarrow> u32 \<Rightarrow> u32 list" where
  "ps5_gpu_completion_packet marker val =
     [0xc0064900, 0x0030c514, 0x20000000, ucast marker, ucast (drop_bit 32 marker), val, 0, 0]"

section \<open>What the checks mean\<close>

lemma contains_iff:
  "pw_gpu_contains base len address sz \<longleftrightarrow>
     0 < unat len \<and> 0 < unat sz \<and> unat base + unat len < 2 ^ 64 \<and>
     unat base \<le> unat address \<and> unat address + unat sz \<le> unat base + unat len"
proof -
  have lim: "unat base < 2 ^ 64" "unat address < 2 ^ 64" by (rule unat_u64_bound)+
  have top: "unat (- 1 - base) = 2 ^ 64 - 1 - unat base"
    using lim(1) by (subst unat_sub) (simp_all add: unsigned_minus_1_eq_mask word_le_nat_alt mask_eq_exp_minus_1)
  show ?thesis
  proof (cases "base \<le> address")
    case True
    then have sub: "unat (address - base) = unat address - unat base" by (rule unat_sub)
    show ?thesis
    proof (cases "address - base \<le> len")
      case le: True
      then have "unat (len - (address - base)) = unat len - (unat address - unat base)" using sub by (simp add: unat_sub)
      then show ?thesis using True le sub top lim
        by (auto simp: pw_gpu_contains_def word_le_nat_alt unat_gt_0)
    next
      case False
      then show ?thesis using True sub by (auto simp: pw_gpu_contains_def word_le_nat_alt unat_gt_0)
    qed
  qed (auto simp: pw_gpu_contains_def word_le_nat_alt)
qed

text \<open>A range is accepted as lying in a resource exactly when both are non-empty, the resource
  does not run past the last address, and the range lies in it as numbers: the check's
  subtractions never wrap into an acceptance.\<close>

lemma pw_gpu_contains_iff:
  "pw_gpu_contains base len address sz \<longleftrightarrow>
     0 < unat len \<and> 0 < unat sz \<and> unat base + unat len < 2 ^ 64 \<and>
     unat base \<le> unat address \<and> unat address + unat sz \<le> unat base + unat len"
  by (rule contains_iff)

lemma unat_ucast_small: "unat (w :: u64) < 2 ^ 32 \<Longrightarrow> unat (ucast w :: u32) = unat w"
  by (simp add: unsigned_ucast_eq take_bit_eq_mod)

text \<open>A frame that passes the display's check lies whole in the bytes the message names: they are exactly
  its rows, and the pixels of every row that is shown end inside them. No product of the check wraps.\<close>

lemma display_image_fits:
  assumes "pw_gpu_display_image m" and "row < unat (snd (pw_gpu_display_shown m))"
  shows "unat (gm_bytes m) = unat (gm_argument1 m) * unat (gm_argument2 m) \<and>
     row * unat (gm_argument2 m) + 4 * unat (fst (pw_gpu_display_shown m)) \<le> unat (gm_bytes m) \<and>
     unat (fst (pw_gpu_display_shown m)) \<le> 1920 \<and> unat (snd (pw_gpu_display_shown m)) \<le> 1080"
proof -
  let ?w = "unat (gm_argument0 m)" and ?h = "unat (gm_argument1 m)" and ?p = "unat (gm_argument2 m)"
  let ?sw = "unat (fst (pw_gpu_display_shown m))" and ?sh = "unat (snd (pw_gpu_display_shown m))"
  have b: "?w \<le> 2176" "?h \<le> 1408" "?p \<le> 8704" "gm_argument0 m * 4 \<le> gm_argument2 m" "gm_bytes m = gm_argument1 m * gm_argument2 m"
    using assms(1) by (simp_all add: pw_gpu_display_image_def Let_def word_le_nat_alt)
  have "unat (gm_argument0 m * 4) = ?w * 4" using b(1) by (simp add: unat_word_ariths(2))
  then have wp: "4 * ?w \<le> ?p" using b(4) by (simp add: word_le_nat_alt)
  have hp: "?h * ?p \<le> 1408 * 8704" using b(2,3) by (rule mult_le_mono)
  then have bytes: "unat (gm_bytes m) = ?h * ?p" unfolding b(5) by (simp add: unat_word_ariths(2))
  have sw: "?sw \<le> ?w" "?sw \<le> 1920"
    using b(1) by (auto simp: pw_gpu_display_shown_def word_less_nat_alt unat_ucast_small)
  have sh: "?sh \<le> ?h" "?sh \<le> 1080"
    using b(2) by (auto simp: pw_gpu_display_shown_def word_less_nat_alt unat_ucast_small)
  have "(row + 1) * ?p \<le> ?h * ?p" using assms(2) sh(1) by (intro mult_le_mono1) simp
  then have "row * ?p + 4 * ?sw \<le> ?h * ?p" using wp sw(1) by simp
  then show ?thesis using bytes sw(2) sh(2) by simp
qed

end
