(* ===== verification/Host_Range.thy ===== *)
theory Host_Range
  imports Gpu_Protocol
begin

text \<open>
  \<open>HostRange\<close> of \<open>tooling/gpu-broker/server.cpp\<close>: the free list of the address ranges that the
  broker hands to its clients, first fit, given back coalesced. The array \<open>free\<close> and its
  \<open>count\<close> are the list of the extents in use; its capacity of 512 stays a limit of the model.
  Addresses are 64-bit words. The kernel's reservation of the whole range is an argument of
  \<open>reserve\<close>, its outcome.
\<close>

section \<open>The free list\<close>

record extent =
  ext_at :: u64
  ext_bytes :: u64

record host_range =
  hr_base :: u64
  hr_bytes :: u64
  hr_reserved :: bool
  hr_free :: "extent list"
  hr_high_water :: u64
  hr_taken :: u64
  hr_given :: u64

abbreviation (input) free_capacity :: nat where "free_capacity \<equiv> 512"

definition host_range_new :: "u64 \<Rightarrow> u64 \<Rightarrow> host_range" where
  "host_range_new at sz = \<lparr>hr_base = at, hr_bytes = sz, hr_reserved = False, hr_free = [],
     hr_high_water = 0, hr_taken = 0, hr_given = 0\<rparr>"

text \<open>\<open>granted\<close>: the kernel reserved the range exactly at its base.\<close>

definition hr_reserve :: "bool \<Rightarrow> host_range \<Rightarrow> host_range" where
  "hr_reserve granted r =
     r\<lparr>hr_reserved := granted, hr_high_water := 0, hr_taken := 0, hr_given := 0,
       hr_free := (if granted then [\<lparr>ext_at = hr_base r, ext_bytes = hr_bytes r\<rparr>] else [])\<rparr>"

definition hr_release :: "host_range \<Rightarrow> host_range" where
  "hr_release r = r\<lparr>hr_reserved := False, hr_free := []\<rparr>"

text \<open>The broker's two ranges, and what its start and its end do with them.\<close>

definition host_ranges :: "host_range list" where
  "host_ranges = [host_range_new PW_GPU_HOST_WINDOW_BASE PW_GPU_HOST_WINDOW_BYTES,
     host_range_new PW_GPU_HOST_HIGH_BASE PW_GPU_HOST_HIGH_BYTES]"

definition host_ranges_reserve :: "bool list \<Rightarrow> host_range list \<Rightarrow> host_range list" where
  "host_ranges_reserve granted rs = map2 hr_reserve granted rs"

definition host_ranges_release :: "host_range list \<Rightarrow> host_range list" where
  "host_ranges_release rs = map hr_release rs"

definition align_to :: "u64 \<Rightarrow> u64 \<Rightarrow> u64" where
  "align_to at alignment = (at + alignment - 1) AND NOT (alignment - 1)"

text \<open>The loop over the extents; \<open>full\<close> is that the array has no slot left for a split.\<close>

fun take_scan :: "bool \<Rightarrow> u64 \<Rightarrow> u64 \<Rightarrow> extent list \<Rightarrow> (u64 \<times> extent list) option" where
  "take_scan full sz alignment [] = None"
| "take_scan full sz alignment (e # es) =
     (let at = align_to (ext_at e) alignment;
          end_at = ext_at e + ext_bytes e;
          later = map_option (apsnd ((#) e)) (take_scan full sz alignment es)
      in if at < ext_at e \<or> end_at < at \<or> end_at - at < sz then later
         else let before = \<lparr>ext_at = ext_at e, ext_bytes = at - ext_at e\<rparr>;
                  after = \<lparr>ext_at = at + sz, ext_bytes = end_at - at - sz\<rparr>
              in if ext_bytes before \<noteq> 0 \<and> ext_bytes after \<noteq> 0
                 then if full then later else Some (at, before # after # es)
                 else if ext_bytes before \<noteq> 0 then Some (at, before # es)
                 else if ext_bytes after \<noteq> 0 then Some (at, after # es)
                 else Some (at, es))"

definition hr_take :: "u64 \<Rightarrow> u64 \<Rightarrow> host_range \<Rightarrow> u64 \<times> host_range" where
  "hr_take sz alignment r =
     (case take_scan (length (hr_free r) = free_capacity) sz alignment (hr_free r) of
        None \<Rightarrow> (0, r)
      | Some (at, extents) \<Rightarrow>
          (at, r\<lparr>hr_free := extents, hr_taken := hr_taken r + 1,
                 hr_high_water := max (hr_high_water r) (at + sz - hr_base r)\<rparr>))"

text \<open>The extents before the address, and from it on; then the four ways of putting a range back.\<close>

definition give_extents :: "u64 \<Rightarrow> u64 \<Rightarrow> extent list \<Rightarrow> extent list" where
  "give_extents at sz extents =
     (let front = takeWhile (\<lambda>e. ext_at e < at) extents;
          back = dropWhile (\<lambda>e. ext_at e < at) extents;
          join_before = front \<noteq> [] \<and> ext_at (last front) + ext_bytes (last front) = at;
          join_after = back \<noteq> [] \<and> at + sz = ext_at (hd back)
      in if join_before \<and> join_after
         then butlast front @ (last front)\<lparr>ext_bytes := ext_bytes (last front) + (sz + ext_bytes (hd back))\<rparr> # tl back
         else if join_before
         then butlast front @ (last front)\<lparr>ext_bytes := ext_bytes (last front) + sz\<rparr> # back
         else if join_after
         then front @ \<lparr>ext_at = at, ext_bytes = ext_bytes (hd back) + sz\<rparr> # tl back
         else if length extents < free_capacity then front @ \<lparr>ext_at = at, ext_bytes = sz\<rparr> # back
         else extents)"

definition hr_give :: "u64 \<Rightarrow> u64 \<Rightarrow> host_range \<Rightarrow> host_range" where
  "hr_give at sz r =
     r\<lparr>hr_given := hr_given r + 1, hr_free := give_extents at sz (hr_free r)\<rparr>"

section \<open>Spaced extents\<close>

text \<open>
  As pairs of numbers: extents in order, none empty, none touching the next, all between two
  bounds. \<open>cover\<close> is the set of addresses they stand for, the allocator's abstract state.
\<close>

definition ext :: "extent \<Rightarrow> nat \<times> nat" where
  "ext e = (unat (ext_at e), unat (ext_bytes e))"

fun spaced :: "nat \<Rightarrow> nat \<Rightarrow> (nat \<times> nat) list \<Rightarrow> bool" where
  "spaced lo hi [] \<longleftrightarrow> True"
| "spaced lo hi ((a, n) # es) \<longleftrightarrow> lo \<le> a \<and> 0 < n \<and> a + n \<le> hi \<and> spaced (Suc (a + n)) hi es"

fun past :: "nat \<Rightarrow> (nat \<times> nat) list \<Rightarrow> nat" where
  "past lo [] = lo"
| "past lo ((a, n) # es) = past (Suc (a + n)) es"

definition cover :: "(nat \<times> nat) list \<Rightarrow> nat set" where
  "cover es = (\<Union>(a, n) \<in> set es. {a..<a + n})"

lemma cover_simps [simp]:
  "cover [] = {}"
  "cover ((a, n) # es) = {a..<a + n} \<union> cover es"
  "cover (xs @ ys) = cover xs \<union> cover ys"
  by (auto simp: cover_def)

lemma spaced_append [simp]: "spaced lo hi (xs @ ys) \<longleftrightarrow> spaced lo hi xs \<and> spaced (past lo xs) hi ys"
  by (induction lo hi xs rule: spaced.induct) auto

lemma past_append [simp]: "past lo (xs @ ys) = past (past lo xs) ys"
  by (induction lo xs rule: past.induct) auto

lemma past_ge: "spaced lo hi xs \<Longrightarrow> lo \<le> past lo xs"
  by (induction lo hi xs rule: spaced.induct) auto

lemma spaced_mono: "spaced lo hi es \<Longrightarrow> lo' \<le> lo \<Longrightarrow> spaced lo' hi es"
  by (cases es) auto

lemma cover_bounds: "spaced lo hi es \<Longrightarrow> x \<in> cover es \<Longrightarrow> lo \<le> x \<and> x < hi \<and> Suc x < past lo es"
proof (induction lo hi es rule: spaced.induct)
  case (2 lo hi a n es)
  then show ?case using past_ge [of "Suc (a + n)" hi es] by fastforce
qed simp

text \<open>A run of free addresses lies in one extent: two extents never touch.\<close>

lemma interval_in_one:
  assumes "spaced lo hi es" and "{x..<x + s} \<subseteq> cover es" and "0 < s"
  shows "\<exists>(a, n) \<in> set es. a \<le> x \<and> x + s \<le> a + n"
  using assms
proof (induction lo hi es rule: spaced.induct)
  case (2 lo hi a n es)
  have rest: "y \<in> cover es \<Longrightarrow> Suc (a + n) \<le> y" for y using 2 cover_bounds by fastforce
  show ?case
  proof (cases "x < a + n")
    case True
    have "x \<in> {x..<x + s}" using "2.prems"(3) by simp
    then have "x \<in> cover ((a, n) # es)" using "2.prems"(2) by blast
    then have x: "a \<le> x" using True rest [of x] by auto
    have "x + s \<le> a + n"
    proof (rule ccontr)
      assume "\<not> x + s \<le> a + n"
      then have "a + n \<in> {x..<x + s}" using True by auto
      then have "a + n \<in> cover es" using 2 by auto
      then show False using rest [of "a + n"] by simp
    qed
    with x show ?thesis by auto
  next
    case False
    then have "{x..<x + s} \<subseteq> cover es" using 2 by auto
    then show ?thesis using 2 by auto
  qed
qed (use assms in auto)


section \<open>What the allocator keeps\<close>

definition host_range_ok :: "host_range \<Rightarrow> bool" where
  "host_range_ok r \<longleftrightarrow> 0 < unat (hr_base r) \<and>
     unat (hr_base r) + unat (hr_bytes r) < 2 ^ 63 \<and> length (hr_free r) \<le> free_capacity \<and>
     spaced (unat (hr_base r)) (unat (hr_base r) + unat (hr_bytes r)) (map ext (hr_free r))"

definition free_set :: "host_range \<Rightarrow> nat set" where
  "free_set r = cover (map ext (hr_free r))"

lemma align_to_unat:
  assumes "alignment = 2 ^ k" and "k < 63" and "unat at < 2 ^ 63"
  shows "unat (align_to at alignment) = (unat at + 2 ^ k - 1) div 2 ^ k * 2 ^ k"
proof -
  have pow: "(2 :: nat) ^ k < 2 ^ 63" using assms(2) by (rule power_strict_increasing) simp
  have al: "unat alignment = 2 ^ k"
    using pow unat_u64_small [of "2 ^ k"] by (simp add: assms(1))
  have "at + alignment - 1 = of_nat (unat at + 2 ^ k - 1)"
    using add_le_mono [of 0 "unat at" 1 "2 ^ k"] by (subst of_nat_diff) (simp_all add: assms(1))
  moreover have "unat at + 2 ^ k - 1 < 2 ^ 64" using pow assms(3) by simp
  ultimately have "unat (at + alignment - 1) = unat at + 2 ^ k - 1" by (simp only: unat_u64_small)
  moreover have "alignment - 1 = mask k" by (simp add: assms(1) mask_eq_exp_minus_1)
  ultimately show ?thesis unfolding align_to_def by (simp only: unat_and_not_mask)
qed

lemma align_to_bounds:
  assumes "alignment = 2 ^ k" and "k < 63" and "unat at < 2 ^ 63"
  shows "unat at \<le> unat (align_to at alignment)" and "unat (align_to at alignment) mod 2 ^ k = 0"
    and "\<And>x. unat at \<le> x \<Longrightarrow> x mod 2 ^ k = 0 \<Longrightarrow> unat (align_to at alignment) \<le> x"
proof -
  let ?a = "unat at" and ?m = "2 ^ k :: nat"
  note u = align_to_unat [OF assms]
  have m: "0 < ?m" by simp
  have split: "(?a + ?m - 1) div ?m * ?m + (?a + ?m - 1) mod ?m = ?a + ?m - 1"
    by (rule div_mult_mod_eq)
  have "(?a + ?m - 1) mod ?m < ?m" using m by (rule mod_less_divisor)
  then show "?a \<le> unat (align_to at alignment)" unfolding u using split by linarith
  show "unat (align_to at alignment) mod ?m = 0" unfolding u by simp
  fix x assume x: "?a \<le> x" "x mod ?m = 0"
  then obtain q where q: "x = q * ?m" by (metis dvd_def mod_0_imp_dvd mult.commute)
  have "(?a + ?m - 1) div ?m \<le> q"
  proof -
    have "?a + ?m - 1 < Suc q * ?m" unfolding mult_Suc using x(1) q m by linarith
    then have "(?a + ?m - 1) div ?m < Suc q" by (rule less_mult_imp_div_less)
    then show ?thesis by simp
  qed
  then show "unat (align_to at alignment) \<le> x" unfolding u q by (rule mult_le_mono1)
qed

text \<open>One extent's part of the scan, in numbers.\<close>

definition fits :: "nat \<Rightarrow> u64 \<Rightarrow> extent \<Rightarrow> bool" where
  "fits k sz e \<longleftrightarrow> unat (align_to (ext_at e) (2 ^ k)) + unat sz \<le> unat (ext_at e) + unat (ext_bytes e)"

lemma end_unat: "unat (at :: u64) + unat n < 2 ^ 63 \<Longrightarrow> unat (at + n) = unat at + unat n"
  by (simp add: unat_word_ariths(1))

lemma scan_guard:
  assumes "unat (ext_at e) + unat (ext_bytes e) < 2 ^ 63" and "k < 63" and "0 < unat sz"
  shows "(align_to (ext_at e) (2 ^ k) < ext_at e \<or> ext_at e + ext_bytes e < align_to (ext_at e) (2 ^ k) \<or>
      ext_at e + ext_bytes e - align_to (ext_at e) (2 ^ k) < sz) \<longleftrightarrow> \<not> fits k sz e"
proof -
  have at: "unat (ext_at e) < 2 ^ 63" using assms(1) by linarith
  note b = align_to_bounds(1) [OF refl assms(2) at]
  note u = end_unat [OF assms(1)]
  show ?thesis
  proof (cases "ext_at e + ext_bytes e < align_to (ext_at e) (2 ^ k)")
    case True
    then show ?thesis using u by (auto simp: fits_def word_less_nat_alt)
  next
    case False
    then have "unat (ext_at e + ext_bytes e - align_to (ext_at e) (2 ^ k)) =
        unat (ext_at e) + unat (ext_bytes e) - unat (align_to (ext_at e) (2 ^ k))"
      using u by (simp add: unat_sub not_less)
    then show ?thesis using False b u by (auto simp: fits_def word_less_nat_alt)
  qed
qed

text \<open>What is left of an extent around the taken part.\<close>

definition remnant :: "u64 \<Rightarrow> u64 \<Rightarrow> extent \<Rightarrow> extent list" where
  "remnant at sz e = filter (\<lambda>x. ext_bytes x \<noteq> 0)
     [\<lparr>ext_at = ext_at e, ext_bytes = at - ext_at e\<rparr>,
      \<lparr>ext_at = at + sz, ext_bytes = ext_at e + ext_bytes e - at - sz\<rparr>]"

lemma take_scan_step:
  assumes "unat (ext_at e) + unat (ext_bytes e) < 2 ^ 63" and "k < 63" and "0 < unat sz"
  shows "take_scan full sz (2 ^ k) (e # es) =
     (let at = align_to (ext_at e) (2 ^ k); rem = remnant at sz e
      in if fits k sz e \<and> \<not> (full \<and> length rem = 2) then Some (at, rem @ es)
         else map_option (apsnd ((#) e)) (take_scan full sz (2 ^ k) es))"
  using scan_guard [OF assms] by (auto simp: Let_def remnant_def)

lemma remnant_cover:
  assumes "unat (ext_at e) + unat (ext_bytes e) < 2 ^ 63" and "0 < unat sz"
    and "unat (ext_at e) \<le> unat at" and "unat at + unat sz \<le> unat (ext_at e) + unat (ext_bytes e)"
  shows "cover (map ext (remnant at sz e)) = cover [ext e] - {unat at..<unat at + unat sz}"
    and "spaced lo hi [ext e] \<Longrightarrow> spaced lo hi (map ext (remnant at sz e))"
    and "spaced lo hi [ext e] \<Longrightarrow> past lo (map ext (remnant at sz e)) \<le> past lo [ext e]"
proof -
  have at: "unat (at - ext_at e) = unat at - unat (ext_at e)" using assms(3) by (simp add: unat_sub word_le_nat_alt)
  have atz: "unat (at + sz) = unat at + unat sz" using assms by (intro end_unat) linarith
  have "ext_at e + ext_bytes e - at - sz = (ext_at e + ext_bytes e) - (at + sz)" by simp
  then have aft: "unat (ext_at e + ext_bytes e - at - sz) = unat (ext_at e) + unat (ext_bytes e) - (unat at + unat sz)"
    using assms atz end_unat [OF assms(1)] by (simp only: unat_sub word_le_nat_alt)
  have nz: "x \<noteq> 0 \<longleftrightarrow> 0 < unat x" for x :: u64 by (simp add: unat_gt_0)
  note facts = remnant_def ext_def nz at atz aft
  show "cover (map ext (remnant at sz e)) = cover [ext e] - {unat at..<unat at + unat sz}"
    using assms by (auto simp: facts)
  show "spaced lo hi [ext e] \<Longrightarrow> spaced lo hi (map ext (remnant at sz e))"
    using assms by (auto simp: facts)
  show "spaced lo hi [ext e] \<Longrightarrow> past lo (map ext (remnant at sz e)) \<le> past lo [ext e]"
    using assms by (auto simp: facts)
qed

lemma remnant_length: "length (remnant at sz e) \<le> 2"
  by (simp add: remnant_def)

text \<open>What a scan that finds an address leaves: the same addresses without the taken ones.\<close>

lemma take_scan_ok:
  assumes "spaced lo hi (map ext es)" and "hi < 2 ^ 63" and "k < 63" and "0 < unat sz"
    and "take_scan full sz (2 ^ k) es = Some (at, es')"
  shows "spaced lo hi (map ext es') \<and> {unat at..<unat at + unat sz} \<subseteq> cover (map ext es) \<and>
      cover (map ext es') = cover (map ext es) - {unat at..<unat at + unat sz} \<and>
      unat at mod 2 ^ k = 0 \<and> length es' \<le> length es + (if full then 0 else 1)"
  using assms(1,5)
proof (induction es arbitrary: lo es')
  case (Cons e es)
  obtain a n where e: "ext e = (a, n)" and a: "a = unat (ext_at e)" and n: "n = unat (ext_bytes e)"
    by (simp add: ext_def)
  have sp: "lo \<le> a" "0 < n" "a + n \<le> hi" "spaced (Suc (a + n)) hi (map ext es)" using Cons.prems(1) e by auto
  have small: "unat (ext_at e) + unat (ext_bytes e) < 2 ^ 63" using sp(3) assms(2) a n by linarith
  have rest: "y \<in> cover (map ext es) \<Longrightarrow> Suc (a + n) \<le> y" for y using sp(4) cover_bounds by fastforce
  let ?at = "align_to (ext_at e) (2 ^ k)"
  have b: "a \<le> unat ?at" "unat ?at mod 2 ^ k = 0"
    using align_to_bounds(1,2) [OF refl assms(3), of "ext_at e"] small a by auto
  note step = take_scan_step [OF small assms(3,4), of full es, unfolded Let_def]
  show ?case
  proof (cases "fits k sz e \<and> \<not> (full \<and> length (remnant ?at sz e) = 2)")
    case True
    then have res: "at = ?at" "es' = remnant ?at sz e @ es" using Cons.prems(2) step by (simp_all split: if_splits)
    have f: "unat ?at + unat sz \<le> a + n" using True a n by (simp add: fits_def)
    note r = remnant_cover [OF small assms(4), of ?at, folded a n, OF b(1) f]
    have one: "spaced lo hi [ext e]" using sp e by simp
    have cov: "cover (map ext (remnant ?at sz e)) = {a..<a + n} - {unat ?at..<unat ?at + unat sz}"
      using r(1) e by simp
    have "spaced (past lo (map ext (remnant ?at sz e))) hi (map ext es)"
      by (rule spaced_mono [OF sp(4)]) (use r(3) [OF one] e in simp)
    then have "spaced lo hi (map ext es')" using r(2) [OF one] res by simp
    moreover have "{unat ?at..<unat ?at + unat sz} \<subseteq> {a..<a + n}" using b f by auto
    moreover have "cover (map ext es) \<inter> {unat ?at..<unat ?at + unat sz} = {}" using rest f by fastforce
    moreover have "length (remnant ?at sz e) \<le> 1 + (if full then 0 else 1)"
      using True remnant_length [of ?at sz e] by auto
    ultimately show ?thesis using res b(2) cov e by auto
  next
    case False
    then obtain es2 where t: "take_scan full sz (2 ^ k) es = Some (at, es2)" and es': "es' = e # es2"
      using Cons.prems(2) unfolding step if_not_P [OF False] by auto
    note ih = Cons.IH [OF sp(4) t]
    have "{unat at..<unat at + unat sz} \<inter> {a..<a + n} = {}" using ih rest by fastforce
    then show ?thesis using ih e es' sp by auto
  qed
qed simp

text \<open>Which addresses would do: the scan finds the lowest of them, and none only when there is none.\<close>

definition eligible :: "nat \<Rightarrow> nat \<Rightarrow> nat set \<Rightarrow> nat \<Rightarrow> bool" where
  "eligible k s free x \<longleftrightarrow> x mod 2 ^ k = 0 \<and> {x..<x + s} \<subseteq> free"

lemma take_scan_least:
  assumes "spaced lo hi (map ext es)" and "hi < 2 ^ 63" and "k < 63" and "0 < unat sz"
    and "eligible k (unat sz) (cover (map ext es)) x"
  shows "\<exists>at es'. take_scan False sz (2 ^ k) es = Some (at, es') \<and> unat at \<le> x"
  using assms(1,5)
proof (induction es arbitrary: lo)
  case Nil
  then show ?case using assms(4) by (auto simp: eligible_def)
next
  case (Cons e es)
  obtain a n where e: "ext e = (a, n)" and a: "a = unat (ext_at e)" and n: "n = unat (ext_bytes e)"
    by (simp add: ext_def)
  have sp: "lo \<le> a" "0 < n" "a + n \<le> hi" "spaced (Suc (a + n)) hi (map ext es)" using Cons.prems(1) e by auto
  have small: "unat (ext_at e) + unat (ext_bytes e) < 2 ^ 63" using sp(3) assms(2) a n by linarith
  let ?at = "align_to (ext_at e) (2 ^ k)"
  have least: "a \<le> x \<Longrightarrow> unat ?at \<le> x"
    using align_to_bounds(3) [OF refl assms(3), of "ext_at e" x] small a Cons.prems(2) by (auto simp: eligible_def)
  note step = take_scan_step [OF small assms(3,4), of False es, unfolded Let_def]
  have x0: "x \<in> cover (map ext (e # es))" using Cons.prems(2) assms(4) by (auto simp: eligible_def)
  have after: "y \<in> cover (map ext es) \<Longrightarrow> Suc (a + n) \<le> y" for y using sp(4) cover_bounds by fastforce
  have ax: "a \<le> x" using x0 after [of x] e by auto
  show ?case
  proof (cases "fits k sz e")
    case True
    then show ?thesis using step least [OF ax] by simp
  next
    case False
    then have "\<not> x + unat sz \<le> a + n" using least [OF ax] a n by (simp add: fits_def)
    then have "{x..<x + unat sz} \<subseteq> cover (map ext es)"
      using interval_in_one [OF Cons.prems(1), of x "unat sz"] Cons.prems(2) assms(4) sp(4) e ax after
      by (auto simp: eligible_def cover_def)
    then show ?thesis using False step Cons.IH [OF sp(4)] Cons.prems(2) by (auto simp: eligible_def)
  qed
qed

text \<open>
  Giving back: \<open>front\<close> and \<open>rear\<close> are the extents on the two sides of the address, with room for
  the range between them; the four ways of putting it there all add exactly its addresses.
\<close>

definition parted :: "nat \<Rightarrow> nat \<Rightarrow> nat \<Rightarrow> nat \<Rightarrow> (nat \<times> nat) list \<Rightarrow> (nat \<times> nat) list \<Rightarrow> bool" where
  "parted lo hi a s front rear \<longleftrightarrow> spaced lo hi (front @ rear) \<and> 0 < s \<and> lo \<le> a \<and> a + s \<le> hi \<and>
     past lo front \<le> Suc a \<and> (\<forall>b n rear'. rear = (b, n) # rear' \<longrightarrow> a + s \<le> b)"

lemma past_last: "front \<noteq> [] \<Longrightarrow> past lo front = Suc (fst (last front) + snd (last front))"
  by (induction lo front rule: past.induct) auto

lemma parted_split:
  assumes "spaced lo hi (map ext es)" and "{unat at..<unat at + s} \<inter> cover (map ext es) = {}" and "0 < s"
    and "lo \<le> unat at" and "unat at + s \<le> hi"
  shows "parted lo hi (unat at) s (map ext (takeWhile (\<lambda>e. ext_at e < at) es))
      (map ext (dropWhile (\<lambda>e. ext_at e < at) es))"
proof -
  let ?f = "takeWhile (\<lambda>e. ext_at e < at) es" and ?b = "dropWhile (\<lambda>e. ext_at e < at) es"
  have es: "map ext ?f @ map ext ?b = map ext es" by (simp flip: map_append)
  have free: "\<not> (unat (ext_at e) \<le> x \<and> x < unat (ext_at e) + unat (ext_bytes e))"
    if "e \<in> set es" "unat at \<le> x" "x < unat at + s" for e x
  proof
    assume "unat (ext_at e) \<le> x \<and> x < unat (ext_at e) + unat (ext_bytes e)"
    then have "x \<in> cover (map ext es)" using that(1) by (force simp: cover_def ext_def)
    then show False using assms(2) that by auto
  qed
  have front: "past lo (map ext ?f) \<le> Suc (unat at)"
  proof (cases "?f = []")
    case False
    then have l: "last ?f \<in> set es" "ext_at (last ?f) < at"
      using set_takeWhileD [OF last_in_set [OF False]] by simp_all
    then have "unat (ext_at (last ?f)) + unat (ext_bytes (last ?f)) \<le> unat at"
      using free [OF l(1), of "unat at"] assms(3) by (auto simp: word_less_nat_alt)
    then show ?thesis using False past_last [of "map ext ?f" lo] by (simp add: last_map ext_def)
  qed (use assms in simp)
  have "unat at + s \<le> b" if h: "map ext ?b = (b, n) # r" for b n r
  proof -
    obtain e es' where e: "?b = e # es'" "ext e = (b, n)"
      using h unfolding map_eq_Cons_conv by blast
    then have "\<not> ext_at e < at" using dropWhile_eq_Cons_conv by metis
    moreover have "e \<in> set es" using e(1) set_dropWhileD [of e] by (metis list.set_intros(1))
    moreover have "0 < n" using assms(1) h unfolding es [symmetric] by simp
    ultimately show ?thesis using free [of e b] e(2) by (force simp: ext_def word_less_nat_alt)
  qed
  then show ?thesis using front assms unfolding parted_def es by blast
qed

lemma parted_insert:
  assumes "parted lo hi a s front rear"
  shows "front \<noteq> [] \<Longrightarrow> last front = (p, m) \<Longrightarrow> p + m = a \<Longrightarrow> rear = (a + s, n) # rear' \<Longrightarrow>
      spaced lo hi (butlast front @ (p, m + (s + n)) # rear') \<and>
      cover (butlast front @ (p, m + (s + n)) # rear') = cover (front @ rear) \<union> {a..<a + s}"
    and "front \<noteq> [] \<Longrightarrow> last front = (p, m) \<Longrightarrow> p + m = a \<Longrightarrow> (\<forall>n rear'. rear \<noteq> (a + s, n) # rear') \<Longrightarrow>
      spaced lo hi (butlast front @ (p, m + s) # rear) \<and>
      cover (butlast front @ (p, m + s) # rear) = cover (front @ rear) \<union> {a..<a + s}"
    and "front = [] \<or> fst (last front) + snd (last front) \<noteq> a \<Longrightarrow> rear = (a + s, n) # rear' \<Longrightarrow>
      spaced lo hi (front @ (a, n + s) # rear') \<and>
      cover (front @ (a, n + s) # rear') = cover (front @ rear) \<union> {a..<a + s}"
    and "front = [] \<or> fst (last front) + snd (last front) \<noteq> a \<Longrightarrow> (\<forall>n rear'. rear \<noteq> (a + s, n) # rear') \<Longrightarrow>
      spaced lo hi (front @ (a, s) # rear) \<and>
      cover (front @ (a, s) # rear) = cover (front @ rear) \<union> {a..<a + s}"
proof -
  have sp: "spaced lo hi front" "spaced (past lo front) hi rear" and s: "0 < s" "lo \<le> a" "a + s \<le> hi"
    and pf: "past lo front \<le> Suc a" and b: "\<And>b n rear'. rear = (b, n) # rear' \<Longrightarrow> a + s \<le> b"
    using assms by (auto simp: parted_def)
  have lastf: "\<exists>f. front = f @ [(p, m)]" if "front \<noteq> []" "last front = (p, m)"
    using append_butlast_last_id [OF that(1)] that(2) by metis
  have gap: "spaced (Suc (a + s)) hi rear" if "\<forall>n rear'. rear \<noteq> (a + s, n) # rear'"
  proof (cases rear)
    case (Cons r rs)
    obtain b' n where r: "r = (b', n)" by (cases r)
    then have "a + s \<le> b'" "b' \<noteq> a + s" using b [of b' n rs] that Cons by auto
    then show ?thesis using sp(2) Cons r by simp
  qed simp
  have low: "past lo front \<le> a" if "front = [] \<or> fst (last front) + snd (last front) \<noteq> a"
  proof (cases "front = []")
    case False
    then show ?thesis using that pf past_last [of front lo] by simp
  qed (use s in simp)
  show "spaced lo hi (butlast front @ (p, m + (s + n)) # rear') \<and>
      cover (butlast front @ (p, m + (s + n)) # rear') = cover (front @ rear) \<union> {a..<a + s}"
    if h: "front \<noteq> []" "last front = (p, m)" "p + m = a" "rear = (a + s, n) # rear'"
  proof -
    obtain f where f: "front = f @ [(p, m)]" using lastf h(1,2) by blast
    have eq: "p + (m + (s + n)) = a + s + n" using h(3) by simp
    have "cover (f @ (p, m + (s + n)) # rear') = cover (front @ rear) \<union> {a..<a + s}"
      unfolding f h(4) using h(3) eq by auto
    moreover have "spaced lo hi (f @ (p, m + (s + n)) # rear')" using sp h(4) f by (simp add: eq)
    moreover have "butlast front = f" using f by simp
    ultimately show ?thesis by simp
  qed
  show "spaced lo hi (butlast front @ (p, m + s) # rear) \<and>
      cover (butlast front @ (p, m + s) # rear) = cover (front @ rear) \<union> {a..<a + s}"
    if h: "front \<noteq> []" "last front = (p, m)" "p + m = a" "\<forall>n rear'. rear \<noteq> (a + s, n) # rear'"
  proof -
    obtain f where f: "front = f @ [(p, m)]" using lastf h(1,2) by blast
    have eq: "p + (m + s) = a + s" using h(3) by simp
    have "cover (f @ (p, m + s) # rear) = cover (front @ rear) \<union> {a..<a + s}"
      unfolding f using h(3) eq by auto
    moreover have "spaced lo hi (f @ (p, m + s) # rear)" using sp s gap [OF h(4)] f by (simp add: eq)
    moreover have "butlast front = f" using f by simp
    ultimately show ?thesis by simp
  qed
  show "spaced lo hi (front @ (a, n + s) # rear') \<and>
      cover (front @ (a, n + s) # rear') = cover (front @ rear) \<union> {a..<a + s}"
    if "front = [] \<or> fst (last front) + snd (last front) \<noteq> a" "rear = (a + s, n) # rear'"
    using sp s low [OF that(1)] that(2) by (auto simp: algebra_simps)
  show "spaced lo hi (front @ (a, s) # rear) \<and>
      cover (front @ (a, s) # rear) = cover (front @ rear) \<union> {a..<a + s}"
    if "front = [] \<or> fst (last front) + snd (last front) \<noteq> a" "\<forall>n rear'. rear \<noteq> (a + s, n) # rear'"
    using sp s low [OF that(1)] gap [OF that(2)] by auto
qed

lemma spaced_member:
  "spaced lo hi es \<Longrightarrow> (a, n) \<in> set es \<Longrightarrow> lo \<le> a \<and> 0 < n \<and> a + n \<le> hi"
  by (induction lo hi es rule: spaced.induct) fastforce+

lemma spaced_ext_small:
  "spaced lo hi (map ext es) \<Longrightarrow> hi < 2 ^ 63 \<Longrightarrow> e \<in> set es \<Longrightarrow> unat (ext_at e) + unat (ext_bytes e) < 2 ^ 63"
  using spaced_member [of lo hi "map ext es" "unat (ext_at e)" "unat (ext_bytes e)"]
  by (force simp: ext_def image_iff)

lemma give_extents_ok:
  assumes "spaced lo hi (map ext es)" and "hi < 2 ^ 63" and "0 < unat sz"
    and "{unat at..<unat at + unat sz} \<inter> cover (map ext es) = {}"
    and "lo \<le> unat at" and "unat at + unat sz \<le> hi"
  shows "spaced lo hi (map ext (give_extents at sz es)) \<and>
      cover (map ext (give_extents at sz es)) = cover (map ext es) \<union> {unat at..<unat at + unat sz} \<or>
      free_capacity \<le> length es \<and> give_extents at sz es = es"
proof -
  define F where "F = takeWhile (\<lambda>e. ext_at e < at) es"
  define R where "R = dropWhile (\<lambda>e. ext_at e < at) es"
  have FR: "F @ R = es" by (simp add: F_def R_def)
  then have cov: "cover (map ext F @ map ext R) = cover (map ext es)" by (metis map_append)
  have small: "e \<in> set es \<Longrightarrow> unat (ext_at e) + unat (ext_bytes e) < 2 ^ 63" for e
    using spaced_ext_small [OF assms(1,2)] .
  have sz: "unat at + unat sz < 2 ^ 63" using assms(2,6) by linarith
  note pins = parted_insert [OF parted_split [OF assms(1,4,3,5,6), folded F_def R_def], unfolded cov]
  have ends: "e \<in> set es \<Longrightarrow> ext_at e + ext_bytes e = at \<longleftrightarrow> unat (ext_at e) + unat (ext_bytes e) = unat at" for e
    using end_unat [OF small [of e]] by (metis unsigned_word_eqI)
  have starts: "at + sz = ext_at e \<longleftrightarrow> unat (ext_at e) = unat at + unat sz" for e
    using end_unat [OF sz] by (metis unsigned_word_eqI)
  note give = give_extents_def [of at sz es, unfolded Let_def, folded F_def R_def]
  have R1: "\<exists>h T. R = h # T \<and> map ext R = (unat at + unat sz, unat (ext_bytes h)) # map ext T \<and> h \<in> set es"
    if "R \<noteq> []" "at + sz = ext_at (hd R)"
    using that FR starts [of "hd R"] by (cases R) (auto simp: ext_def)
  have R0: "\<forall>n r. map ext R \<noteq> (unat at + unat sz, n) # r" if "\<not> (R \<noteq> [] \<and> at + sz = ext_at (hd R))"
    using that starts [of "hd R"] by (cases R) (auto simp: ext_def)
  show ?thesis
  proof (cases "F \<noteq> [] \<and> ext_at (last F) + ext_bytes (last F) = at")
    case True
    then have l: "last F \<in> set es" using FR last_in_set by fastforce
    have lF: "map ext F \<noteq> []" "last (map ext F) = (unat (ext_at (last F)), unat (ext_bytes (last F)))"
      using True by (simp_all add: last_map ext_def)
    have lend: "unat (ext_at (last F)) + unat (ext_bytes (last F)) = unat at" using ends [OF l] True by blast
    show ?thesis
    proof (cases "R \<noteq> [] \<and> at + sz = ext_at (hd R)")
      case ja: True
      obtain h T where h: "R = h # T" "map ext R = (unat at + unat sz, unat (ext_bytes h)) # map ext T" "h \<in> set es"
        using R1 [OF conjunct1 [OF ja] conjunct2 [OF ja]] by metis
      have "unat (ext_at h) = unat at + unat sz" using h(1,2) by (simp add: ext_def)
      then have "unat (ext_bytes (last F) + (sz + ext_bytes h)) = unat (ext_bytes (last F)) + (unat sz + unat (ext_bytes h))"
        using small [OF h(3)] lend end_unat [of sz "ext_bytes h"] end_unat [of "ext_bytes (last F)" "sz + ext_bytes h"]
        by linarith
      then have "map ext (give_extents at sz es) =
          butlast (map ext F) @ (unat (ext_at (last F)), unat (ext_bytes (last F)) + (unat sz + unat (ext_bytes h))) # map ext T"
        unfolding give using True ja h(1) by (simp add: ext_def map_butlast)
      then show ?thesis using pins(1) [OF lF lend h(2)] by (simp only: simp_thms)
    next
      case False
      have "unat (ext_bytes (last F) + sz) = unat (ext_bytes (last F)) + unat sz"
        using sz lend end_unat [of "ext_bytes (last F)" sz] by linarith
      then have "map ext (give_extents at sz es) =
          butlast (map ext F) @ (unat (ext_at (last F)), unat (ext_bytes (last F)) + unat sz) # map ext R"
        unfolding give using True False by (auto simp: ext_def map_butlast)
      then show ?thesis using pins(2) [OF lF lend R0 [OF False]] by (simp only: simp_thms)
    qed
  next
    case jb: False
    then have apart: "map ext F = [] \<or> fst (last (map ext F)) + snd (last (map ext F)) \<noteq> unat at"
      using FR last_in_set ends [of "last F"] by (fastforce simp: last_map ext_def)
    show ?thesis
    proof (cases "R \<noteq> [] \<and> at + sz = ext_at (hd R)")
      case ja: True
      obtain h T where h: "R = h # T" "map ext R = (unat at + unat sz, unat (ext_bytes h)) # map ext T" "h \<in> set es"
        using R1 [OF conjunct1 [OF ja] conjunct2 [OF ja]] by metis
      have "unat (ext_at h) = unat at + unat sz" using h(1,2) by (simp add: ext_def)
      then have "unat (ext_bytes h + sz) = unat (ext_bytes h) + unat sz"
        using small [OF h(3)] end_unat [of "ext_bytes h" sz] by linarith
      then have "map ext (give_extents at sz es) = map ext F @ (unat at, unat (ext_bytes h) + unat sz) # map ext T"
        unfolding give using jb ja h(1) by (auto simp: ext_def)
      then show ?thesis using pins(3) [OF apart h(2)] by (simp only: simp_thms)
    next
      case False
      show ?thesis
      proof (cases "length es < free_capacity")
        case True
        then have "map ext (give_extents at sz es) = map ext F @ (unat at, unat sz) # map ext R"
          unfolding give using jb False by (auto simp: ext_def)
        then show ?thesis using pins(4) [OF apart R0 [OF False]] by (simp only: simp_thms)
      next
        case full: False
        then have "give_extents at sz es = es" unfolding give using jb False by auto
        then show ?thesis using full by simp
      qed
    qed
  qed
qed

lemma give_extents_length:
  "length es \<le> free_capacity \<Longrightarrow> length (give_extents at sz es) \<le> free_capacity"
proof -
  assume le: "length es \<le> free_capacity"
  define F where "F = takeWhile (\<lambda>e. ext_at e < at) es"
  define R where "R = dropWhile (\<lambda>e. ext_at e < at) es"
  have "length es = length F + length R" by (simp add: F_def R_def flip: length_append)
  moreover note give_extents_def [of at sz es, unfolded Let_def, folded F_def R_def]
  ultimately show ?thesis using le by (cases F; cases R) auto
qed

section \<open>A take followed by a give\<close>

lemma take_scan_shape:
  assumes "spaced lo hi (map ext es)" and "hi < 2 ^ 63" and "k < 63" and "0 < unat sz"
    and "take_scan full sz (2 ^ k) es = Some (at, es')"
  shows "\<exists>pre e post. es = pre @ e # post \<and> es' = pre @ remnant at sz e @ post \<and>
      unat (ext_at e) \<le> unat at \<and> unat at + unat sz \<le> unat (ext_at e) + unat (ext_bytes e)"
  using assms(1,5)
proof (induction es arbitrary: lo es')
  case (Cons e es)
  have small: "unat (ext_at e) + unat (ext_bytes e) < 2 ^ 63"
    by (rule spaced_ext_small [OF Cons.prems(1) assms(2)]) simp
  have sp: "\<exists>lo'. spaced lo' hi (map ext es)" using Cons.prems(1) by (cases "ext e") auto
  let ?at = "align_to (ext_at e) (2 ^ k)"
  have b: "unat (ext_at e) \<le> unat ?at"
    using align_to_bounds(1) [OF refl assms(3), of "ext_at e"] small by linarith
  note step = take_scan_step [OF small assms(3,4), of full es, unfolded Let_def]
  show ?case
  proof (cases "fits k sz e \<and> \<not> (full \<and> length (remnant ?at sz e) = 2)")
    case True
    then have "at = ?at" "es' = remnant ?at sz e @ es" using Cons.prems(2) step by (simp_all split: if_splits)
    then have "e # es = [] @ e # es \<and> es' = [] @ remnant at sz e @ es \<and> unat (ext_at e) \<le> unat at \<and>
        unat at + unat sz \<le> unat (ext_at e) + unat (ext_bytes e)" using True b by (simp add: fits_def)
    then show ?thesis by blast
  next
    case False
    then obtain es2 where t: "take_scan full sz (2 ^ k) es = Some (at, es2)" and es': "es' = e # es2"
      using Cons.prems(2) unfolding step if_not_P [OF False] by auto
    then show ?thesis using Cons.IH sp by (metis append_Cons)
  qed
qed simp

lemma spaced_before:
  "spaced lo hi (map ext (pre @ e # post)) \<Longrightarrow> x \<in> set pre \<Longrightarrow>
     unat (ext_at x) + unat (ext_bytes x) < unat (ext_at e)"
proof (induction pre arbitrary: lo)
  case (Cons p pre)
  show ?case
  proof (cases "x = p")
    case True
    have sp: "spaced (Suc (unat (ext_at p) + unat (ext_bytes p))) hi (map ext (pre @ e # post))"
      using Cons.prems(1) ext_def [of p] by simp
    have "(unat (ext_at e), unat (ext_bytes e)) \<in> set (map ext (pre @ e # post))" by (simp add: ext_def)
    then show ?thesis using spaced_member [OF sp] True by fastforce
  next
    case False
    then show ?thesis using Cons by (auto simp: ext_def)
  qed
qed simp

lemma give_between:
  assumes "\<forall>x \<in> set pre. ext_at x < at" and "\<forall>y \<in> set (take 1 post). at \<le> ext_at y"
  shows "takeWhile (\<lambda>x. ext_at x < at) (pre @ post) = pre" and "dropWhile (\<lambda>x. ext_at x < at) (pre @ post) = post"
  using assms by (cases post; simp add: takeWhile_append2 dropWhile_append2 not_less)+

lemma extent_eqI: "ext_at e = a \<Longrightarrow> ext_bytes e = n \<Longrightarrow> \<lparr>ext_at = a, ext_bytes = n\<rparr> = (e :: extent)"
  by (cases e) simp

lemma give_remnant:
  assumes sp: "spaced lo hi (map ext (pre @ e # post))" and hi: "hi < 2 ^ 63" and sz: "0 < unat sz"
    and at: "unat (ext_at e) \<le> unat at" and fit: "unat at + unat sz \<le> unat (ext_at e) + unat (ext_bytes e)"
    and len: "length (pre @ e # post) \<le> free_capacity"
  shows "give_extents at sz (pre @ remnant at sz e @ post) = pre @ e # post"
proof -
  let ?before = "\<lparr>ext_at = ext_at e, ext_bytes = at - ext_at e\<rparr>"
  let ?after = "\<lparr>ext_at = at + sz, ext_bytes = ext_at e + ext_bytes e - at - sz\<rparr>"
  have small: "unat (ext_at e) + unat (ext_bytes e) < 2 ^ 63" by (rule spaced_ext_small [OF sp hi]) simp
  have atz: "unat (at + sz) = unat at + unat sz" using fit small by (intro end_unat) linarith
  have pre: "\<forall>x \<in> set pre. ext_at x < at" using spaced_before [OF sp] at by (force simp: word_less_nat_alt)
  have prel: "ext_at (last pre) + ext_bytes (last pre) \<noteq> at" if "pre \<noteq> []"
  proof -
    have "unat (ext_at (last pre)) + unat (ext_bytes (last pre)) < unat at"
      using spaced_before [OF sp last_in_set [OF that]] at by linarith
    then show ?thesis using end_unat [of "ext_at (last pre)" "ext_bytes (last pre)"] fit small by fastforce
  qed
  have "spaced (Suc (unat (ext_at e) + unat (ext_bytes e))) hi (map ext post)" using sp ext_def [of e] by simp
  then have post: "unat (at + sz) < unat (ext_at y)" if "y \<in> set (take 1 post)" for y
    using that fit atz by (cases post) (auto simp: ext_def)
  then have rear: "\<forall>y \<in> set (take 1 post). at \<le> ext_at y" using atz by (force simp: word_le_nat_alt)
  have posth: "at + sz \<noteq> ext_at (hd post)" if "post \<noteq> []" using post [of "hd post"] that by (cases post) auto
  consider (both) "at - ext_at e \<noteq> 0" "ext_at e + ext_bytes e - at - sz \<noteq> 0"
    | (before) "at - ext_at e \<noteq> 0" "ext_at e + ext_bytes e - at - sz = 0"
    | (after) "at - ext_at e = 0" "ext_at e + ext_bytes e - at - sz \<noteq> 0"
    | (none) "at - ext_at e = 0" "ext_at e + ext_bytes e - at - sz = 0" by blast
  then show ?thesis
  proof cases
    case both
    then have "remnant at sz e = [?before, ?after]" by (simp add: remnant_def)
    moreover have "ext_at e < at" using both(1) at by (metis diff_self le_neq_trans word_le_nat_alt)
    moreover have "at \<le> at + sz" using atz by (simp add: word_le_nat_alt)
    ultimately show ?thesis
      using give_between [of "pre @ [?before]" at "?after # post"] pre
      by (simp add: give_extents_def Let_def algebra_simps)
  next
    case before
    then have "remnant at sz e = [?before]" by (simp add: remnant_def)
    moreover have "ext_at e < at" using before(1) at by (metis diff_self le_neq_trans word_le_nat_alt)
    moreover have "at - ext_at e + sz = ext_bytes e" using before(2) by (simp add: algebra_simps)
    ultimately show ?thesis
      using give_between [of "pre @ [?before]" at post] pre rear posth
      by (auto simp: give_extents_def Let_def)
  next
    case after
    then have eq: "ext_at e = at" and "remnant at sz e = [?after]" by (simp_all add: remnant_def)
    moreover have "at \<le> at + sz" using atz by (simp add: word_le_nat_alt)
    ultimately show ?thesis
      using give_between [of pre at "?after # post"] pre prel by (auto simp: give_extents_def Let_def)
  next
    case none
    then have eq: "ext_at e = at" and "remnant at sz e = []" by (simp_all add: remnant_def)
    moreover have "ext_bytes e = sz" using none(2) eq by simp
    ultimately show ?thesis
      using give_between [of pre at post] pre prel posth rear len by (auto simp: give_extents_def Let_def)
  qed
qed

section \<open>The allocator's interface\<close>

text \<open>
  What the broker relies on: a state whose abstraction is the set of the free addresses of a
  region; \<open>take\<close> removes an aligned range of them or answers 0 and changes nothing, \<open>give\<close> puts a
  range back, or leaves it out when its bookkeeping is full.
\<close>

abbreviation (input) span :: "u64 \<Rightarrow> u64 \<Rightarrow> nat set" where
  "span at sz \<equiv> {unat at..<unat at + unat sz}"

locale range_allocator =
  fixes grab :: "u64 \<Rightarrow> u64 \<Rightarrow> 's \<Rightarrow> u64 \<times> 's"
    and put_back :: "u64 \<Rightarrow> u64 \<Rightarrow> 's \<Rightarrow> 's"
    and ok :: "'s \<Rightarrow> bool" and free :: "'s \<Rightarrow> nat set" and region :: "'s \<Rightarrow> nat set"
  assumes free_region: "ok r \<Longrightarrow> free r \<subseteq> region r"
    and grab_law: "ok r \<Longrightarrow> 0 < unat sz \<Longrightarrow> k < 63 \<Longrightarrow> grab sz (2 ^ k) r = (at, r') \<Longrightarrow> at \<noteq> 0 \<Longrightarrow>
      ok r' \<and> region r' = region r \<and> span at sz \<subseteq> free r \<and> free r' = free r - span at sz"
    and grab_refuses: "ok r \<Longrightarrow> 0 < unat sz \<Longrightarrow> k < 63 \<Longrightarrow> grab sz (2 ^ k) r = (0, r') \<Longrightarrow> r' = r"
    and put_back_law: "ok r \<Longrightarrow> 0 < unat sz \<Longrightarrow> span at sz \<subseteq> region r - free r \<Longrightarrow>
      ok (put_back at sz r) \<and> region (put_back at sz r) = region r \<and>
      free r \<subseteq> free (put_back at sz r) \<and> free (put_back at sz r) \<subseteq> free r \<union> span at sz"
begin

text \<open>The ranges handed out and not yet given back, against the state.\<close>

definition apart :: "'s \<Rightarrow> (u64 \<times> u64) list \<Rightarrow> bool" where
  "apart r held \<longleftrightarrow> ok r \<and> (\<forall>(at, sz) \<in> set held. 0 < unat sz \<and> span at sz \<subseteq> region r - free r) \<and>
     sorted_wrt (\<lambda>(a, n) (b, m). span a n \<inter> span b m = {}) held"

lemma apart_grab:
  assumes "apart r held" and "0 < unat sz" and "k < 63" and "grab sz (2 ^ k) r = (at, r')" and "at \<noteq> 0"
  shows "apart r' ((at, sz) # held)"
proof -
  have okr: "ok r" using assms(1) by (simp add: apart_def)
  note law = grab_law [OF okr assms(2-5)]
  have "span at sz \<inter> span b m = {}" if "(b, m) \<in> set held" for b m
    using assms(1) law that unfolding apart_def by blast
  moreover have "span b m \<subseteq> region r' - free r'" "0 < unat m" if "(b, m) \<in> set held" for b m
    using assms(1) law that unfolding apart_def by blast+
  moreover have "span at sz \<subseteq> region r' - free r'" using law free_region [OF okr] by auto
  ultimately show ?thesis using assms(1,2) law unfolding apart_def by auto
qed

lemma apart_put_back:
  assumes "apart r held" and "(at, sz) \<in> set held"
  shows "apart (put_back at sz r) (remove1 (at, sz) held)"
proof -
  obtain xs ys where h: "held = xs @ (at, sz) # ys" "(at, sz) \<notin> set xs" using split_list_first [OF assms(2)] by blast
  have rm: "remove1 (at, sz) held = xs @ ys" using h by (simp add: remove1_append)
  have okr: "ok r" "0 < unat sz" "span at sz \<subseteq> region r - free r" using assms unfolding apart_def by blast+
  note law = put_back_law [OF okr]
  have clear: "span b m \<inter> span at sz = {}" if "(b, m) \<in> set (xs @ ys)" for b m
    using assms(1) that unfolding apart_def h(1) by (fastforce simp: sorted_wrt_append)
  have held: "span b m \<subseteq> region r - free r" "0 < unat m" if "(b, m) \<in> set (xs @ ys)" for b m
  proof -
    have "(b, m) \<in> set held" using that h(1) by auto
    then show "span b m \<subseteq> region r - free r" "0 < unat m" using assms(1) unfolding apart_def by blast+
  qed
  have "span b m \<subseteq> region (put_back at sz r) - free (put_back at sz r)" if "(b, m) \<in> set (xs @ ys)" for b m
    using clear [OF that] held(1) [OF that] law by blast
  moreover have "sorted_wrt (\<lambda>(a, n) (b, m). span a n \<inter> span b m = {}) (xs @ ys)"
    using assms(1) unfolding apart_def h(1) by (simp add: sorted_wrt_append)
  ultimately show ?thesis using held(2) law unfolding apart_def rm by blast
qed

end

definition hr_region :: "host_range \<Rightarrow> nat set" where
  "hr_region r = {unat (hr_base r)..<unat (hr_base r) + unat (hr_bytes r)}"

lemma hr_take_cases:
  assumes "host_range_ok r" and "0 < unat sz" and "k < 63" and "hr_take sz (2 ^ k) r = (at, r')"
  obtains (refused) "take_scan (length (hr_free r) = free_capacity) sz (2 ^ k) (hr_free r) = None" "at = 0" "r' = r"
    | (taken) es' where "take_scan (length (hr_free r) = free_capacity) sz (2 ^ k) (hr_free r) = Some (at, es')"
      "hr_free r' = es'" "hr_base r' = hr_base r" "hr_bytes r' = hr_bytes r" "at \<noteq> 0"
proof (cases "take_scan (length (hr_free r) = free_capacity) sz (2 ^ k) (hr_free r)")
  case None
  have "at = 0" "r' = r" using assms(4) None by (simp_all add: hr_take_def)
  with None show thesis by (rule refused)
next
  case (Some p)
  obtain a es' where p: "p = (a, es')" by (cases p)
  have eq: "a = at" "r' = r\<lparr>hr_free := es', hr_taken := hr_taken r + 1,
      hr_high_water := max (hr_high_water r) (at + sz - hr_base r)\<rparr>"
    using assms(4) Some p by (auto simp: hr_take_def)
  have sp: "spaced (unat (hr_base r)) (unat (hr_base r) + unat (hr_bytes r)) (map ext (hr_free r))"
    and lt: "unat (hr_base r) + unat (hr_bytes r) < 2 ^ 63" and pos: "0 < unat (hr_base r)"
    using assms(1) by (simp_all add: host_range_ok_def)
  have "unat at \<in> cover (map ext (hr_free r))"
    using take_scan_ok [OF sp lt assms(3,2) Some [unfolded p]] eq(1) assms(2) by auto
  then have "at \<noteq> 0" using cover_bounds [OF sp] pos by fastforce
  then show thesis using Some p eq(2) unfolding eq(1) by (intro taken [of es']) simp_all
qed

lemma hr_take_law:
  assumes "host_range_ok r" and "0 < unat sz" and "k < 63" and "hr_take sz (2 ^ k) r = (at, r')" and "at \<noteq> 0"
  shows "host_range_ok r' \<and> hr_region r' = hr_region r \<and> span at sz \<subseteq> free_set r \<and>
      free_set r' = free_set r - span at sz \<and> unat at mod 2 ^ k = 0"
  using assms(1-4)
proof (cases rule: hr_take_cases)
  case refused
  then show ?thesis using assms(5) by simp
next
  case (taken es')
  have ok: "spaced (unat (hr_base r)) (unat (hr_base r) + unat (hr_bytes r)) (map ext (hr_free r))"
    "unat (hr_base r) + unat (hr_bytes r) < 2 ^ 63" "length (hr_free r) \<le> free_capacity" "0 < unat (hr_base r)"
    using assms(1) by (simp_all add: host_range_ok_def)
  show ?thesis using take_scan_ok [OF ok(1,2) assms(3,2) taken(1)] ok taken
    by (auto simp: host_range_ok_def hr_region_def free_set_def split: if_splits)
qed

lemma hr_give_law:
  assumes "host_range_ok r" and "0 < unat sz" and "span at sz \<subseteq> hr_region r - free_set r"
  shows "host_range_ok (hr_give at sz r) \<and> hr_region (hr_give at sz r) = hr_region r \<and>
      (free_set (hr_give at sz r) = free_set r \<union> span at sz \<or>
       length (hr_free r) = free_capacity \<and> free_set (hr_give at sz r) = free_set r)"
proof -
  have ok: "spaced (unat (hr_base r)) (unat (hr_base r) + unat (hr_bytes r)) (map ext (hr_free r))"
    "unat (hr_base r) + unat (hr_bytes r) < 2 ^ 63" "length (hr_free r) \<le> free_capacity" "0 < unat (hr_base r)"
    using assms(1) by (simp_all add: host_range_ok_def)
  have "unat at \<in> span at sz" "unat at + unat sz - 1 \<in> span at sz" using assms(2) by auto
  then have "unat at \<in> hr_region r" "unat at + unat sz - 1 \<in> hr_region r" using assms(3) by blast+
  then have "unat (hr_base r) \<le> unat at" "unat at + unat sz \<le> unat (hr_base r) + unat (hr_bytes r)"
    by (auto simp: hr_region_def)
  moreover have "span at sz \<inter> cover (map ext (hr_free r)) = {}" using assms(3) by (auto simp: free_set_def)
  ultimately have "spaced (unat (hr_base r)) (unat (hr_base r) + unat (hr_bytes r)) (map ext (give_extents at sz (hr_free r))) \<and>
      cover (map ext (give_extents at sz (hr_free r))) = cover (map ext (hr_free r)) \<union> span at sz \<or>
      free_capacity \<le> length (hr_free r) \<and> give_extents at sz (hr_free r) = hr_free r"
    by (intro give_extents_ok [OF ok(1,2) assms(2)])
  then show ?thesis using ok give_extents_length [OF ok(3), of at sz]
    by (auto simp: host_range_ok_def hr_region_def free_set_def hr_give_def)
qed

interpretation hr: range_allocator hr_take hr_give host_range_ok free_set hr_region
proof unfold_locales
  fix r assume "host_range_ok r"
  then show "free_set r \<subseteq> hr_region r"
    unfolding host_range_ok_def free_set_def hr_region_def using cover_bounds by fastforce
next
  fix r :: host_range and sz k at r'
  assume "host_range_ok r" "0 < unat sz" "k < 63" "hr_take sz (2 ^ k) r = (at, r')" "at \<noteq> 0"
  then show "host_range_ok r' \<and> hr_region r' = hr_region r \<and> span at sz \<subseteq> free_set r \<and> free_set r' = free_set r - span at sz"
    using hr_take_law by blast
next
  fix r :: host_range and sz k r'
  assume "host_range_ok r" "0 < unat sz" "k < 63" "hr_take sz (2 ^ k) r = (0, r')"
  then show "r' = r" by (cases rule: hr_take_cases) simp_all
next
  fix r sz at assume "host_range_ok r" "0 < unat sz" "span at sz \<subseteq> hr_region r - free_set r"
  then show "host_range_ok (hr_give at sz r) \<and> hr_region (hr_give at sz r) = hr_region r \<and>
      free_set r \<subseteq> free_set (hr_give at sz r) \<and> free_set (hr_give at sz r) \<subseteq> free_set r \<union> span at sz"
    using hr_give_law by blast
qed

section \<open>What the ranges promise\<close>

definition first_fit :: "nat \<Rightarrow> nat \<Rightarrow> nat set \<Rightarrow> nat option" where
  "first_fit k s free = (if \<exists>x. eligible k s free x then Some (LEAST x. eligible k s free x) else None)"

text \<open>C12. While the free list has a slot left, \<open>take\<close> is first fit on the set of free addresses: it
  answers the lowest aligned address that begins a run of free addresses of the size, and takes
  exactly that run out of the free ones; it answers 0, and changes nothing, only when no aligned
  run of that size is free.\<close>

theorem hr_take_refines:
  assumes "host_range_ok r" and "length (hr_free r) < free_capacity" and "0 < unat sz" and "k < 63"
    and "hr_take sz (2 ^ k) r = (at, r')"
  shows "case first_fit k (unat sz) (free_set r) of
      None \<Rightarrow> at = 0 \<and> r' = r
    | Some x \<Rightarrow> unat at = x \<and> at \<noteq> 0 \<and> host_range_ok r' \<and> free_set r' = free_set r - {x..<x + unat sz}"
proof -
  have ok: "spaced (unat (hr_base r)) (unat (hr_base r) + unat (hr_bytes r)) (map ext (hr_free r))"
    "unat (hr_base r) + unat (hr_bytes r) < 2 ^ 63" using assms(1) by (simp_all add: host_range_ok_def)
  note least = take_scan_least [OF ok assms(4,3), folded free_set_def]
  show ?thesis using assms(1,3,4,5)
  proof (cases rule: hr_take_cases)
    case refused
    then have "\<not> eligible k (unat sz) (free_set r) x" for x using least [of x] assms(2) by auto
    then show ?thesis using refused by (simp add: first_fit_def)
  next
    case (taken es')
    note law = hr_take_law [OF assms(1,3,4,5) taken(5)]
    then have el: "eligible k (unat sz) (free_set r) (unat at)" by (simp add: eligible_def)
    have "unat at \<le> x" if "eligible k (unat sz) (free_set r) x" for x
      using least [OF that] taken(1) assms(2) by auto
    then have "(LEAST x. eligible k (unat sz) (free_set r) x) = unat at" using el by (intro Least_equality)
    then show ?thesis using el law taken(5) by (auto simp: first_fit_def)
  qed
qed

theorem hr_take_refines_witness:
  "case first_fit 14 65536 (free_set (hr_reserve True (host_range_new 0x240000000 0x20000000))) of
      None \<Rightarrow> False | Some x \<Rightarrow> x = 0x240000000"
proof -
  let ?r = "hr_reserve True (host_range_new 0x240000000 0x20000000)"
  have t: "hr_take 65536 (2 ^ 14) ?r = (0x240000000, snd (hr_take 65536 (2 ^ 14) ?r))" by code_simp
  have ok: "host_range_ok ?r" by (simp add: host_range_ok_def hr_reserve_def host_range_new_def ext_def)
  have "length (hr_free ?r) < free_capacity" by (simp add: hr_reserve_def)
  from hr_take_refines [OF ok this _ _ t] show ?thesis by (simp split: option.splits)
qed

lemma hr_take_give_free:
  assumes "host_range_ok r" and "0 < unat sz" and "k < 63" and "hr_take sz (2 ^ k) r = (at, r')" and "at \<noteq> 0"
  shows "hr_free (hr_give at sz r') = hr_free r"
proof -
  have ok: "spaced (unat (hr_base r)) (unat (hr_base r) + unat (hr_bytes r)) (map ext (hr_free r))"
    "unat (hr_base r) + unat (hr_bytes r) < 2 ^ 63" "length (hr_free r) \<le> free_capacity"
    using assms(1) by (simp_all add: host_range_ok_def)
  show ?thesis using assms(1-4)
  proof (cases rule: hr_take_cases)
    case (taken es')
    from take_scan_shape [OF ok(1,2) assms(3,2) taken(1)] obtain pre e post where
      es: "hr_free r = pre @ e # post" "es' = pre @ remnant at sz e @ post"
      and fit: "unat (ext_at e) \<le> unat at" "unat at + unat sz \<le> unat (ext_at e) + unat (ext_bytes e)" by blast
    show ?thesis
      using give_remnant [OF ok(1) [unfolded es(1)] ok(2) assms(2) fit ok(3) [unfolded es(1)]] es taken(2)
      by (simp add: hr_give_def)
  qed (use assms(5) in simp)
qed

text \<open>C13. A range given straight back restores the free list exactly, whatever it looked like and
  however full it was: the remnants of the split extent are joined again.\<close>

theorem hr_take_give:
  assumes "host_range_ok r" and "0 < unat sz" and "k < 63" and "hr_take sz (2 ^ k) r = (at, r')" and "at \<noteq> 0"
  shows "hr_free (hr_give at sz r') = hr_free r"
  using assms by (rule hr_take_give_free)

theorem hr_take_give_witness:
  "let r = hr_reserve True (host_range_new 0x240000000 0x20000000)
   in hr_free (hr_give 0x240000000 65536 (snd (hr_take 65536 (2 ^ 14) r))) = hr_free r"
proof -
  let ?r = "hr_reserve True (host_range_new 0x240000000 0x20000000)"
  have t: "hr_take 65536 (2 ^ 14) ?r = (0x240000000, snd (hr_take 65536 (2 ^ 14) ?r))" by code_simp
  have ok: "host_range_ok ?r" by (simp add: host_range_ok_def hr_reserve_def host_range_new_def ext_def)
  from hr_take_give [OF ok _ _ t] show ?thesis by simp
qed

text \<open>The broker's use of a range: takes, refused or not, and gives of what is held.\<close>

inductive hr_step :: "host_range \<times> (u64 \<times> u64) list \<Rightarrow> host_range \<times> (u64 \<times> u64) list \<Rightarrow> bool" where
  take: "hr_take sz (2 ^ k) r = (at, r') \<Longrightarrow> at \<noteq> 0 \<Longrightarrow> 0 < unat sz \<Longrightarrow> k < 63 \<Longrightarrow>
    hr_step (r, held) (r', (at, sz) # held)"
| refuse: "hr_take sz (2 ^ k) r = (0, r') \<Longrightarrow> 0 < unat sz \<Longrightarrow> k < 63 \<Longrightarrow> hr_step (r, held) (r', held)"
| give: "(at, sz) \<in> set held \<Longrightarrow> hr_step (r, held) (hr_give at sz r, remove1 (at, sz) held)"

lemma hr_step_apart:
  assumes "hr_step s s'" and "hr.apart (fst s) (snd s)"
  shows "hr.apart (fst s') (snd s') \<and> hr_region (fst s') = hr_region (fst s)"
  using assms
proof cases
  case (take sz k r at r' held)
  then show ?thesis using assms(2) hr.apart_grab [of r held sz k at r'] hr.grab_law [of r sz k at r']
    by (simp add: hr.apart_def)
next
  case (refuse sz k r r' held)
  then show ?thesis using assms(2) hr.grab_refuses [of r sz k r'] by (simp add: hr.apart_def)
next
  case (give at sz held r)
  have "hr_region (hr_give at sz r) = hr_region r" by (simp add: hr_region_def hr_give_def)
  then show ?thesis using assms(2) give hr.apart_put_back [of r held at sz] by simp
qed

lemma hr_steps_apart:
  assumes "hr_step\<^sup>*\<^sup>* s s'" and "hr.apart (fst s) (snd s)"
  shows "hr.apart (fst s') (snd s') \<and> hr_region (fst s') = hr_region (fst s)"
  using assms
proof (induction rule: rtranclp_induct)
  case (step s' s'')
  then show ?case using hr_step_apart [of s' s''] by simp
qed simp

text \<open>C14. From a fresh reservation, whatever is taken and given in whatever order: the ranges held
  lie inside the reserved one, no two overlap, and none overlaps an address still free.\<close>

theorem hr_held_apart:
  assumes "hr_step\<^sup>*\<^sup>* (hr_reserve True (host_range_new base sz), []) (r, held)"
    and "0 < unat base" and "0 < unat sz" and "unat base + unat sz < 2 ^ 63"
  shows "host_range_ok r \<and> (\<forall>(a, n) \<in> set held. span a n \<subseteq> span base sz - free_set r) \<and>
    sorted_wrt (\<lambda>(a, n) (b, m). span a n \<inter> span b m = {}) held"
proof -
  let ?r0 = "hr_reserve True (host_range_new base sz)"
  have "hr.apart ?r0 []" using assms(2-4)
    by (simp add: hr.apart_def host_range_ok_def hr_reserve_def host_range_new_def ext_def)
  then have "hr.apart r held \<and> hr_region r = hr_region ?r0" using hr_steps_apart [OF assms(1)] by simp
  moreover have "hr_region ?r0 = span base sz" by (simp add: hr_region_def hr_reserve_def host_range_new_def)
  ultimately show ?thesis unfolding hr.apart_def by blast
qed

theorem hr_held_apart_witness:
  "\<exists>r. hr_step\<^sup>*\<^sup>* (hr_reserve True (host_range_new 0x240000000 0x20000000), [])
      (r, [(0x240010000, 4096), (0x240000000, 65536)]) \<and> host_range_ok r"
proof -
  let ?r = "hr_reserve True (host_range_new 0x240000000 0x20000000)"
  let ?r1 = "snd (hr_take 65536 (2 ^ 14) ?r)"
  let ?r2 = "snd (hr_take 4096 (2 ^ 14) ?r1)"
  have t1: "hr_take 65536 (2 ^ 14) ?r = (0x240000000, ?r1)" by code_simp
  have t2: "hr_take 4096 (2 ^ 14) ?r1 = (0x240010000, ?r2)" by code_simp
  have s1: "hr_step (?r, []) (?r1, [(0x240000000, 65536)])" by (rule hr_step.take [OF t1]) simp_all
  have s2: "hr_step (?r1, [(0x240000000, 65536)]) (?r2, [(0x240010000, 4096), (0x240000000, 65536)])"
    by (rule hr_step.take [OF t2]) simp_all
  have s: "hr_step\<^sup>*\<^sup>* (?r, []) (?r2, [(0x240010000, 4096), (0x240000000, 65536)])"
    using s1 s2 by (rule converse_rtranclp_into_rtranclp [OF _ r_into_rtranclp])
  show ?thesis using hr_held_apart [OF s] s by auto
qed

end
