(* ===== verification/Gpu_Staging.thy ===== *)
theory Gpu_Staging
  imports Gpu_Protocol "HOL-Library.Multiset"
begin

text \<open>
  \<open>tooling/gpu-broker/staging.h\<close>: the broker's spare staging buffers, taken by exact size class and
  given back up to a budget. A memory object is the fields of \<open>radv_ps5_memory\<close> that the broker
  reads; the structure itself belongs to the platform layer. The doubling loop of
  \<open>ps5_gpu_staging_round\<close> is a partial function: that it ends is a theorem.
\<close>

section \<open>The pool\<close>

record radv_memory =
  mem_cpu :: u64
  mem_bytes :: u64
  mem_physical :: int

definition no_memory :: radv_memory where
  "no_memory = \<lparr>mem_cpu = 0, mem_bytes = 0, mem_physical = 0\<rparr>"

definition PS5_GPU_STAGING_SPARES :: nat where "PS5_GPU_STAGING_SPARES = 512"
definition PS5_GPU_STAGING_MIN :: u64 where "PS5_GPU_STAGING_MIN = 0x10000"
definition PS5_GPU_STAGING_LARGE :: u64 where "PS5_GPU_STAGING_LARGE = 0x200000"
definition PS5_GPU_STAGING_BUDGET :: u64 where
  "PS5_GPU_STAGING_BUDGET = of_nat PS5_GPU_STAGING_SPARES * PS5_GPU_STAGING_MIN"

lemmas staging_constants [simp] =
  PS5_GPU_STAGING_SPARES_def PS5_GPU_STAGING_MIN_def PS5_GPU_STAGING_LARGE_def PS5_GPU_STAGING_BUDGET_def

text \<open>The slots from \<open>count\<close> on are zero and never read, so the spares are the first \<open>count\<close> of them.\<close>

record staging_pool =
  sp_spare :: "radv_memory list"
  sp_bytes :: u64

definition empty_pool :: staging_pool where
  "empty_pool = \<lparr>sp_spare = [], sp_bytes = 0\<rparr>"

partial_function (option) round_loop :: "u64 \<Rightarrow> u64 \<Rightarrow> u64 option" where
  "round_loop need sz = (if sz < need then round_loop need (push_bit 1 sz) else Some sz)"

declare round_loop.simps [code]

definition ps5_gpu_staging_round :: "u64 \<Rightarrow> u64 option" where
  "ps5_gpu_staging_round need =
     (if PS5_GPU_STAGING_LARGE < need
      then Some ((need + PS5_GPU_STAGING_LARGE - 1) AND NOT (PS5_GPU_STAGING_LARGE - 1))
      else round_loop need PS5_GPU_STAGING_MIN)"

text \<open>The first spare of the size leaves its slot to the last one.\<close>

fun spare_index :: "u64 \<Rightarrow> radv_memory list \<Rightarrow> nat option" where
  "spare_index sz [] = None"
| "spare_index sz (m # ms) = (if mem_bytes m = sz then Some 0 else map_option Suc (spare_index sz ms))"

definition ps5_gpu_staging_take :: "staging_pool \<Rightarrow> u64 \<Rightarrow> (staging_pool \<times> radv_memory option) option" where
  "ps5_gpu_staging_take pool need =
     (case ps5_gpu_staging_round need of None \<Rightarrow> None
      | Some sz \<Rightarrow>
          (case spare_index sz (sp_spare pool) of None \<Rightarrow> Some (pool, None)
           | Some i \<Rightarrow>
               Some (pool\<lparr>sp_bytes := sp_bytes pool - sz,
                          sp_spare := butlast ((sp_spare pool)[i := last (sp_spare pool)])\<rparr>,
                     Some (sp_spare pool ! i))))"

definition ps5_gpu_staging_give :: "staging_pool \<Rightarrow> radv_memory \<Rightarrow> staging_pool \<times> bool" where
  "ps5_gpu_staging_give pool memory =
     (if length (sp_spare pool) = PS5_GPU_STAGING_SPARES \<or>
         PS5_GPU_STAGING_BUDGET < sp_bytes pool + mem_bytes memory
      then (pool, False)
      else (pool\<lparr>sp_spare := sp_spare pool @ [memory], sp_bytes := sp_bytes pool + mem_bytes memory\<rparr>, True))"

section \<open>Size classes\<close>

definition size_class :: "nat \<Rightarrow> bool" where
  "size_class n \<longleftrightarrow> (\<exists>j. 16 \<le> j \<and> j \<le> 21 \<and> n = 2 ^ j) \<or> 2 ^ 21 < n \<and> n mod 2 ^ 21 = 0"

lemma round_loop_ends:
  assumes "16 \<le> j" and "j \<le> 21" and "unat need \<le> 2 ^ 21" and "j = 16 \<or> 2 ^ (j - 1) < unat need"
  shows "\<exists>i. round_loop need (2 ^ j) = Some (2 ^ i) \<and> j \<le> i \<and> i \<le> 21 \<and> unat need \<le> 2 ^ i \<and>
      (i = 16 \<or> 2 ^ (i - 1) < unat need)"
  using assms
proof (induction "21 - j" arbitrary: j)
  case 0
  then have j: "j = 21" by simp
  then have "\<not> (2 ^ j :: u64) < need" using 0 by (simp add: word_less_nat_alt)
  then show ?case using 0 j by (subst round_loop.simps) (auto intro!: exI [of _ 21])
next
  case (Suc d)
  have u: "unat (2 ^ j :: u64) = 2 ^ j"
    using unat_u64_small [of "2 ^ j"] power_strict_increasing [of j 64 "2 :: nat"] Suc.prems(2) by simp
  show ?case
  proof (cases "(2 ^ j :: u64) < need")
    case True
    then have lt: "2 ^ j < unat need" using u by (simp add: word_less_nat_alt)
    have "push_bit 1 (2 ^ j :: u64) = 2 ^ Suc j" by (simp add: push_bit_eq_mult mult.commute)
    then have "round_loop need (2 ^ j) = round_loop need (2 ^ Suc j)"
      using True by (subst round_loop.simps) (simp only: if_True)
    moreover have "d = 21 - Suc j" "16 \<le> Suc j" "Suc j \<le> 21" using Suc by auto
    ultimately show ?thesis using Suc.hyps(1) [of "Suc j"] lt Suc.prems(3) by auto
  next
    case False
    then show ?thesis using u Suc.prems by (subst round_loop.simps) (auto simp: word_less_nat_alt not_less)
  qed
qed

lemma size_class_large:
  assumes "2 ^ 21 < unat need" and "unat need \<le> 2 ^ 64 - 2 ^ 21"
  defines "y \<equiv> (need + PS5_GPU_STAGING_LARGE - 1) AND NOT (PS5_GPU_STAGING_LARGE - 1)"
  shows "unat need \<le> unat y" and "unat y mod 2 ^ 21 = 0"
    and "\<And>x. unat need \<le> x \<Longrightarrow> x mod 2 ^ 21 = 0 \<Longrightarrow> unat y \<le> x"
proof -
  have "need + PS5_GPU_STAGING_LARGE - 1 = of_nat (unat need + 2 ^ 21 - 1)"
    by (subst of_nat_diff) (simp_all add: algebra_simps)
  moreover have "unat need + 2 ^ 21 - 1 < 2 ^ 64" using assms(2) by simp
  ultimately have "unat (need + PS5_GPU_STAGING_LARGE - 1) = unat need + 2 ^ 21 - 1" by (simp only: unat_u64_small)
  moreover have "PS5_GPU_STAGING_LARGE - 1 = mask 21" by (simp add: mask_eq_exp_minus_1)
  ultimately have y: "unat y = (unat need + 2 ^ 21 - 1) div 2 ^ 21 * 2 ^ 21"
    unfolding y_def by (simp only: unat_and_not_mask)
  show "unat need \<le> unat y" unfolding y using assms(1) by simp
  show "unat y mod 2 ^ 21 = 0" unfolding y by simp
  show "unat y \<le> x" if x: "unat need \<le> x" "x mod 2 ^ 21 = 0" for x
  proof -
    obtain q where "x = 2 ^ 21 * q" using x(2) by (auto simp: mod_eq_0_iff_dvd elim: dvdE)
    then show ?thesis unfolding y using x(1) by simp
  qed
qed

text \<open>Rounding a need ends, its doubling loop included, and gives the least size class that
  holds it: a power of two from 64 KiB to 2 MiB, or a larger multiple of 2 MiB. The bound on the
  need is that rounding up to 2 MiB does not pass the last 64-bit number.\<close>

lemma staging_round_least:
  assumes "unat need \<le> 2 ^ 64 - 2 ^ 21 - 1"
  shows "\<exists>y. ps5_gpu_staging_round need = Some y \<and> size_class (unat y) \<and> unat need \<le> unat y \<and>
      (\<forall>c. size_class c \<longrightarrow> unat need \<le> c \<longrightarrow> unat y \<le> c)"
proof (cases "2 ^ 21 < unat need")
  case True
  have b: "unat need \<le> 2 ^ 64 - 2 ^ 21" using assms by simp
  note l = size_class_large [OF True b]
  have "PS5_GPU_STAGING_LARGE < need" using True by (simp add: word_less_nat_alt)
  moreover have "c mod 2 ^ 21 = 0" if "size_class c" "unat need \<le> c" for c
  proof -
    have "(2 :: nat) ^ j \<le> 2 ^ 21" if "j \<le> 21" for j using that by (intro power_increasing) auto
    then have "\<not> (\<exists>j. 16 \<le> j \<and> j \<le> 21 \<and> c = 2 ^ j)" using that(2) True by (metis leD le_less_trans)
    then show ?thesis using that(1) unfolding size_class_def by blast
  qed
  ultimately show ?thesis using l True by (auto simp: ps5_gpu_staging_round_def size_class_def)
next
  case False
  then have "\<not> PS5_GPU_STAGING_LARGE < need" by (simp add: word_less_nat_alt)
  moreover have "(PS5_GPU_STAGING_MIN :: u64) = 2 ^ 16" by simp
  ultimately have r: "ps5_gpu_staging_round need = round_loop need (2 ^ 16)"
    by (simp only: ps5_gpu_staging_round_def if_False)
  from False have "unat need \<le> 2 ^ 21" by simp
  with round_loop_ends [of 16 need] obtain i where i: "round_loop need (2 ^ 16) = Some (2 ^ i)" "16 \<le> i" "i \<le> 21"
    "unat need \<le> 2 ^ i" "i = 16 \<or> 2 ^ (i - 1) < unat need" by auto
  have u: "unat (2 ^ i :: u64) = 2 ^ i"
    using unat_u64_small [of "2 ^ i"] power_strict_increasing [of i 64 "2 :: nat"] i(3) by simp
  have "(2 :: nat) ^ i \<le> c" if "size_class c" "unat need \<le> c" for c
    using that(1) unfolding size_class_def
  proof (elim disjE exE conjE)
    fix j assume j: "16 \<le> j" "j \<le> 21" "c = 2 ^ j"
    have "i \<le> j"
    proof (rule ccontr)
      assume "\<not> i \<le> j"
      then have "(2 :: nat) ^ j \<le> 2 ^ (i - 1)" by (intro power_increasing) auto
      with that(2) j(3) have "unat need \<le> 2 ^ (i - 1)" by linarith
      then show False using i(5) j(1) \<open>\<not> i \<le> j\<close> by auto
    qed
    then show ?thesis using j by simp
  next
    assume "2 ^ 21 < c"
    moreover have "(2 :: nat) ^ i \<le> 2 ^ 21" using i(3) by (rule power_increasing) simp
    ultimately show ?thesis by linarith
  qed
  then show ?thesis using r i u by (auto simp: size_class_def intro!: exI [of _ "2 ^ i"])
qed

section \<open>The pool as a multiset\<close>

definition pool_total :: "staging_pool \<Rightarrow> nat" where
  "pool_total pool = sum_list (map (unat \<circ> mem_bytes) (sp_spare pool))"

text \<open>Every buffer was made a size class, so none is smaller than 64 KiB.\<close>

definition pool_ok :: "staging_pool \<Rightarrow> bool" where
  "pool_ok pool \<longleftrightarrow> unat (sp_bytes pool) = pool_total pool \<and> pool_total pool \<le> 512 * 65536 \<and>
     (\<forall>m \<in> set (sp_spare pool). 65536 \<le> unat (mem_bytes m))"

lemma spare_index_Some:
  "spare_index sz ms = Some i \<Longrightarrow> i < length ms \<and> mem_bytes (ms ! i) = sz"
  by (induction ms arbitrary: i) (auto split: if_splits)

lemma spare_index_None: "spare_index sz ms = None \<longleftrightarrow> (\<forall>m \<in> set ms. mem_bytes m \<noteq> sz)"
  by (induction ms) auto

lemma swap_out:
  assumes "i < length xs"
  shows "mset xs = add_mset (xs ! i) (mset (butlast (xs[i := last xs])))"
proof -
  obtain ys y where xs: "xs = ys @ [y]" using assms by (cases xs rule: rev_cases) auto
  show ?thesis
  proof (cases "i < length ys")
    case True
    then have "mset (ys[i := y]) = add_mset y (mset ys - {#ys ! i#})" by (rule mset_update)
    moreover have "butlast (xs[i := last xs]) = ys[i := y]" "xs ! i = ys ! i"
      using True xs by (simp_all add: nth_append list_update_append)
    moreover have "ys ! i \<in># mset ys" using nth_mem [OF True] by simp
    ultimately show ?thesis using xs by (simp add: insert_DiffM)
  next
    case False
    then have "i = length ys" using assms xs by simp
    then show ?thesis using xs by (simp add: list_update_append)
  qed
qed

lemma pool_total_mset: "pool_total pool = sum_mset (image_mset (unat \<circ> mem_bytes) (mset (sp_spare pool)))"
  by (simp add: pool_total_def sum_mset_sum_list flip: mset_map)

lemma sum_list_at_least: "\<forall>m \<in> set ms. c \<le> f m \<Longrightarrow> length ms * c \<le> sum_list (map f ms)"
  for c :: nat
  by (induction ms) (simp_all add: add_mono)

lemma pool_length: "pool_ok pool \<Longrightarrow> length (sp_spare pool) * 65536 \<le> pool_total pool"
  unfolding pool_ok_def pool_total_def by (intro sum_list_at_least) simp

text \<open>Taking a spare for a need that fits a size class: some spare of exactly that class leaves the
  pool and everything else stays, its slots reordered, when there is one; when there is none the
  pool is unchanged. The byte count stays the sum of the spares.\<close>

lemma staging_take_exact:
  assumes "pool_ok pool" and "ps5_gpu_staging_round need = Some sz"
    and "ps5_gpu_staging_take pool need = Some (pool', out)"
  shows "pool_ok pool' \<and>
     (case out of
        Some m \<Rightarrow> mem_bytes m = sz \<and> mset (sp_spare pool) = add_mset m (mset (sp_spare pool'))
      | None \<Rightarrow> pool' = pool \<and> (\<forall>m \<in> set (sp_spare pool). mem_bytes m \<noteq> sz))"
proof (cases "spare_index sz (sp_spare pool)")
  case None
  then have "pool' = pool" "out = None" using assms(2,3) by (auto simp: ps5_gpu_staging_take_def)
  then show ?thesis using assms(1) None [unfolded spare_index_None] by simp
next
  case (Some i)
  let ?m = "sp_spare pool ! i"
  have p': "out = Some ?m" "sp_spare pool' = butlast ((sp_spare pool)[i := last (sp_spare pool)])"
    "sp_bytes pool' = sp_bytes pool - sz"
    using assms(2,3) Some by (auto simp: ps5_gpu_staging_take_def)
  note i = spare_index_Some [OF Some]
  have ms: "mset (sp_spare pool) = add_mset ?m (mset (sp_spare pool'))" using swap_out i p'(2) by metis
  then have total: "pool_total pool = unat sz + pool_total pool'" using i by (simp add: pool_total_mset)
  then have "sz \<le> sp_bytes pool" using assms(1) by (simp add: pool_ok_def word_le_nat_alt)
  then have "unat (sp_bytes pool') = pool_total pool'"
    using assms(1) p'(3) total by (simp add: pool_ok_def unat_sub)
  moreover have "set (sp_spare pool') \<subseteq> set (sp_spare pool)"
    using ms by (metis set_mset_add_mset_insert set_mset_mset subset_insertI)
  ultimately have "pool_ok pool'" using assms(1) total by (auto simp: pool_ok_def)
  then show ?thesis using ms p'(1) i by simp
qed

text \<open>The budget alone refuses a buffer of a size class: a full array of spares is never the
  reason, because every spare is at least the smallest class. A buffer that is kept is added, and
  the pool never holds more than its budget.\<close>

lemma staging_give_budget:
  assumes "pool_ok pool" and "size_class (unat (mem_bytes m))" and "unat (mem_bytes m) < 2 ^ 63"
    and "ps5_gpu_staging_give pool m = (pool', kept)"
  shows "pool_ok pool' \<and> kept = (pool_total pool + unat (mem_bytes m) \<le> 512 * 65536) \<and>
     sp_spare pool' = sp_spare pool @ (if kept then [m] else [])"
proof -
  have sz: "65536 \<le> unat (mem_bytes m)"
  proof -
    have "(2 :: nat) ^ 16 \<le> 2 ^ j" if "16 \<le> j" for j using that by (intro power_increasing) auto
    then show ?thesis using assms(2) by (auto simp: size_class_def)
  qed
  have ok: "unat (sp_bytes pool) = pool_total pool" "pool_total pool \<le> 512 * 65536"
    using assms(1) by (simp_all add: pool_ok_def)
  have sum: "unat (sp_bytes pool + mem_bytes m) = pool_total pool + unat (mem_bytes m)"
    using ok assms(3) by (simp add: unat_word_ariths(1))
  then have over: "PS5_GPU_STAGING_BUDGET < sp_bytes pool + mem_bytes m \<longleftrightarrow> 512 * 65536 < pool_total pool + unat (mem_bytes m)"
    by (simp add: word_less_nat_alt)
  have "512 * 65536 < pool_total pool + unat (mem_bytes m)" if "length (sp_spare pool) = 512"
    using pool_length [OF assms(1)] that sz by simp
  then have refuse: "(length (sp_spare pool) = PS5_GPU_STAGING_SPARES \<or> PS5_GPU_STAGING_BUDGET < sp_bytes pool + mem_bytes m) \<longleftrightarrow>
      512 * 65536 < pool_total pool + unat (mem_bytes m)" unfolding over by auto
  have res: "(pool', kept) = (if 512 * 65536 < pool_total pool + unat (mem_bytes m) then (pool, False)
      else (pool\<lparr>sp_spare := sp_spare pool @ [m], sp_bytes := sp_bytes pool + mem_bytes m\<rparr>, True))"
    using assms(4) unfolding ps5_gpu_staging_give_def refuse by simp
  show ?thesis
  proof (cases "512 * 65536 < pool_total pool + unat (mem_bytes m)")
    case True
    then show ?thesis using res assms(1) by simp
  next
    case False
    then have "sp_spare pool' = sp_spare pool @ [m]" "sp_bytes pool' = sp_bytes pool + mem_bytes m" "kept" using res by auto
    moreover from this have "pool_total pool' = pool_total pool + unat (mem_bytes m)" by (simp add: pool_total_def)
    ultimately show ?thesis using False assms(1) sz sum by (auto simp: pool_ok_def)
  qed
qed

end
