(* ===== verification/Gpu_Fences.thy ===== *)
theory Gpu_Fences
  imports Host_Range Gpu_Staging
begin

text \<open>
  The shared state of \<open>tooling/gpu-broker/server.cpp\<close> and what it does with work in flight: the ring
  of submissions, the buffers whose release waits for it, the order of fence values, \<open>release\<close>,
  \<open>reap\<close>, \<open>drain\<close> and \<open>free_buffer\<close>. The circular array keeps its head and count. Outcomes of
  kernel calls are arguments, and the calls made are recorded in the state; log lines, timing
  statistics and the phase a watchdog reads are left out.
\<close>

section \<open>State\<close>

record gpu_buffer =
  buf_address :: u64
  buf_bytes :: u64
  buf_token :: u32
  buf_fd :: int
  buf_local :: bool
  buf_ranged :: bool
  buf_memory :: radv_memory
  buf_dmem :: int
  buf_pid :: int

definition no_buffer :: gpu_buffer where
  "no_buffer = \<lparr>buf_address = 0, buf_bytes = 0, buf_token = 0, buf_fd = - 1, buf_local = False,
     buf_ranged = False, buf_memory = no_memory, buf_dmem = - 1, buf_pid = - 1\<rparr>"

text \<open>\<open>inf_client\<close>: the slot of the client that submitted, \<open>None\<close> the null pointer.\<close>

record inflight =
  inf_seq :: u32
  inf_staging :: radv_memory
  inf_client :: "nat option"

record deferred =
  def_buffer :: gpu_buffer
  def_seq :: u32

definition no_inflight :: inflight where
  "no_inflight = \<lparr>inf_seq = 0, inf_staging = no_memory, inf_client = None\<rparr>"

definition kRing :: nat where "kRing = 512"
definition kDeferred :: nat where "kDeferred = 1024"

record fence_state =
  fe_page :: radv_memory
  fe_issued :: u32
  fe_ring :: "inflight list"
  fe_head :: nat
  fe_count :: nat
  fe_deferred :: "deferred list"
  fe_staging :: staging_pool
  fe_tess :: u64
  fe_tess_bytes :: u32
  fe_granularity :: u32
  fe_buffering :: u32
  fe_offchip :: bool
  fe_drains :: u64
  fe_state_drains :: u64
  fe_kick :: bool
  fe_kicks :: u64
  fe_stamps :: radv_memory

definition fences_new :: fence_state where
  "fences_new = \<lparr>fe_page = no_memory, fe_issued = 0, fe_ring = replicate kRing no_inflight, fe_head = 0,
     fe_count = 0, fe_deferred = [], fe_staging = empty_pool, fe_tess = 0, fe_tess_bytes = 0,
     fe_granularity = 0, fe_buffering = 0, fe_offchip = False, fe_drains = 0, fe_state_drains = 0,
     fe_kick = False, fe_kicks = 0, fe_stamps = no_memory\<rparr>"

text \<open>The calls that give something back or start work, as the broker makes them.\<close>

datatype gpu_call =
  Memory_free radv_memory
  | Munmap u64 u64
  | Reserve_over u64 u64
  | Close_fd int
  | Dmem_release int u64
  | Vrange_release radv_memory
  | Submit_dcb "u64 \<times> u32 list"
  | Suspend_point

record gpu_shared =
  gs_ranges :: "host_range list"
  gs_fences :: fence_state
  gs_wedged :: bool
  gs_retain :: bool
  gs_window :: u64
  gs_high :: u64
  gs_dmem_made :: u64
  gs_dmem_freed :: u64
  gs_dmem_refused :: u64
  gs_dmem_free_failed :: u64
  gs_dmem_bytes_made :: u64
  gs_staging_allocs :: u64
  gs_staging_frees :: u64
  gs_staging_reuses :: u64
  gs_staging_refused :: u64
  gs_staging_held :: u64
  gs_staging_peak :: u64
  gs_calls :: "gpu_call list"

text \<open>
  What the kernel and the memory helper answer during one operation. \<open>ke_reserve_over\<close>: laying a
  reservation over a mapping succeeded there. \<open>ke_dmem_release\<close>: the helper's answer, \<open>None\<close> when
  the application set no helper.
\<close>

record kernel_answers =
  ke_reserve_over :: "u64 \<Rightarrow> u64 \<Rightarrow> bool"
  ke_dmem_release :: "(int \<Rightarrow> u64 \<Rightarrow> bool) option"

definition call :: "gpu_call \<Rightarrow> gpu_shared \<Rightarrow> gpu_shared" where
  "call c s = s\<lparr>gs_calls := gs_calls s @ [c]\<rparr>"

lemma call_simps [simp]:
  "gs_fences (call c s) = gs_fences s" "gs_wedged (call c s) = gs_wedged s" "gs_retain (call c s) = gs_retain s"
  "gs_ranges (call c s) = gs_ranges s" "gs_calls (call c s) = gs_calls s @ [c]"
  by (simp_all add: call_def)

section \<open>Releasing\<close>

definition dmem_give_back :: "kernel_answers \<Rightarrow> int \<Rightarrow> u64 \<Rightarrow> gpu_shared \<Rightarrow> gpu_shared" where
  "dmem_give_back ke offset sz s =
     (case ke_dmem_release ke of
        None \<Rightarrow> s\<lparr>gs_dmem_free_failed := gs_dmem_free_failed s + 1\<rparr>
      | Some answer \<Rightarrow>
          (let s' = call (Dmem_release offset sz) s
           in if answer offset sz then s'\<lparr>gs_dmem_freed := gs_dmem_freed s' + 1\<rparr>
              else s'\<lparr>gs_dmem_free_failed := gs_dmem_free_failed s' + 1\<rparr>))"

text \<open>The range a ranged buffer lies in: the index is 0 or 1 for one that was handed out.\<close>

definition give_range :: "u64 \<Rightarrow> u64 \<Rightarrow> gpu_shared \<Rightarrow> gpu_shared" where
  "give_range at sz s =
     (let i = nat (pw_gpu_host_range at sz)
      in s\<lparr>gs_ranges := (gs_ranges s)[i := hr_give at sz (gs_ranges s ! i)]\<rparr>)"

definition release :: "kernel_answers \<Rightarrow> gpu_buffer \<Rightarrow> gpu_shared \<Rightarrow> gpu_shared" where
  "release ke b s =
     (let s1 = (if buf_local b then call (Memory_free (buf_memory b)) s
                else if buf_ranged b
                then (let s' = call (Reserve_over (buf_address b) (buf_bytes b)) s
                      in if ke_reserve_over ke (buf_address b) (buf_bytes b)
                         then give_range (buf_address b) (buf_bytes b) s'
                         else call (Munmap (buf_address b) (buf_bytes b)) s')
                else if buf_address b \<noteq> 0 then call (Munmap (buf_address b) (buf_bytes b)) s
                else s);
          s2 = (if 0 \<le> buf_fd b then call (Close_fd (buf_fd b)) s1 else s1)
      in if 0 \<le> buf_dmem b then dmem_give_back ke (buf_dmem b) (buf_bytes b) s2 else s2)"

definition staging_free :: "radv_memory \<Rightarrow> gpu_shared \<Rightarrow> gpu_shared" where
  "staging_free m s =
     call (Memory_free m)
       (s\<lparr>gs_staging_held := gs_staging_held s - mem_bytes m, gs_staging_frees := gs_staging_frees s + 1\<rparr>)"

section \<open>The fence\<close>

text \<open>\<open>int32_t (seq - completed) <= 0\<close>.\<close>

definition fence_done :: "u32 \<Rightarrow> u32 \<Rightarrow> bool" where
  "fence_done seq completed \<longleftrightarrow> sint (seq - completed) \<le> 0"

definition put_fences :: "(fence_state \<Rightarrow> fence_state) \<Rightarrow> gpu_shared \<Rightarrow> gpu_shared" where
  "put_fences f s = s\<lparr>gs_fences := f (gs_fences s)\<rparr>"

definition keep_staging :: "radv_memory \<Rightarrow> gpu_shared \<Rightarrow> gpu_shared" where
  "keep_staging m s =
     (case ps5_gpu_staging_give (fe_staging (gs_fences s)) m of
        (pool, kept) \<Rightarrow>
          if kept then put_fences (fe_staging_update (\<lambda>_. pool)) s
          else (let s' = staging_free m s in s'\<lparr>gs_staging_refused := gs_staging_refused s' + 1\<rparr>))"

text \<open>The oldest submission leaves the ring.\<close>

definition ring_pop :: "fence_state \<Rightarrow> fence_state" where
  "ring_pop f = f\<lparr>fe_ring := (fe_ring f)[fe_head f := no_inflight],
     fe_head := (fe_head f + 1) mod kRing, fe_count := fe_count f - 1\<rparr>"

definition ring_push :: "inflight \<Rightarrow> fence_state \<Rightarrow> fence_state" where
  "ring_push e f = f\<lparr>fe_ring := (fe_ring f)[(fe_head f + fe_count f) mod kRing := e], fe_count := fe_count f + 1\<rparr>"

function reap_ring :: "u32 \<Rightarrow> gpu_shared \<Rightarrow> gpu_shared" where
  "reap_ring now s =
     (let f = gs_fences s; e = fe_ring f ! fe_head f
      in if 0 < fe_count f \<and> fence_done (inf_seq e) now
         then reap_ring now (put_fences ring_pop (keep_staging (inf_staging e) s))
         else s)"
  by auto

lemma keep_staging_fences [simp]:
  "fe_count (gs_fences (keep_staging m s)) = fe_count (gs_fences s)"
  "fe_ring (gs_fences (keep_staging m s)) = fe_ring (gs_fences s)"
  "fe_head (gs_fences (keep_staging m s)) = fe_head (gs_fences s)"
  "fe_deferred (gs_fences (keep_staging m s)) = fe_deferred (gs_fences s)"
  "fe_issued (gs_fences (keep_staging m s)) = fe_issued (gs_fences s)"
  "fe_page (gs_fences (keep_staging m s)) = fe_page (gs_fences s)"
  "gs_wedged (keep_staging m s) = gs_wedged s" "gs_ranges (keep_staging m s) = gs_ranges s"
  by (cases "snd (ps5_gpu_staging_give (fe_staging (gs_fences s)) m)";
      simp add: keep_staging_def put_fences_def staging_free_def Let_def case_prod_beta)+

termination reap_ring
  by (relation "measure (\<lambda>(now, s). fe_count (gs_fences s))") (simp_all add: put_fences_def ring_pop_def)

text \<open>A released entry's slot takes the last one, which is looked at next.\<close>

lemma dmem_give_back_simps [simp]:
  "gs_fences (dmem_give_back ke offset sz s) = gs_fences s" "gs_wedged (dmem_give_back ke offset sz s) = gs_wedged s"
  "gs_retain (dmem_give_back ke offset sz s) = gs_retain s" "gs_ranges (dmem_give_back ke offset sz s) = gs_ranges s"
  by (simp_all add: dmem_give_back_def Let_def split: option.split)

lemma give_range_simps [simp]:
  "gs_fences (give_range at sz s) = gs_fences s" "gs_wedged (give_range at sz s) = gs_wedged s"
  "gs_retain (give_range at sz s) = gs_retain s" "gs_calls (give_range at sz s) = gs_calls s"
  by (simp_all add: give_range_def Let_def)

lemma release_fences [simp]:
  "gs_fences (release ke b s) = gs_fences s" "gs_wedged (release ke b s) = gs_wedged s"
  "gs_retain (release ke b s) = gs_retain s"
  by (simp_all add: release_def Let_def if_distrib [of gs_fences] if_distrib [of gs_wedged] if_distrib [of gs_retain])

function reap_deferred :: "kernel_answers \<Rightarrow> u32 \<Rightarrow> nat \<Rightarrow> gpu_shared \<Rightarrow> gpu_shared" where
  "reap_deferred ke now i s =
     (let ds = fe_deferred (gs_fences s)
      in if i < length ds
         then if fence_done (def_seq (ds ! i)) now
              then reap_deferred ke now i
                     (put_fences (fe_deferred_update (\<lambda>ds. butlast (ds[i := last ds]))) (release ke (def_buffer (ds ! i)) s))
              else reap_deferred ke now (i + 1) s
         else s)"
  by auto
termination reap_deferred
  by (relation "measure (\<lambda>(ke, now, i, s). length (fe_deferred (gs_fences s)) - i)")
    (auto simp: put_fences_def Let_def)

declare reap_ring.simps [simp del] reap_deferred.simps [simp del]

text \<open>\<open>now\<close> is what the fence page holds.\<close>

definition reap :: "kernel_answers \<Rightarrow> u32 \<Rightarrow> gpu_shared \<Rightarrow> gpu_shared" where
  "reap ke now s =
     (if mem_cpu (fe_page (gs_fences s)) = 0 then s else reap_deferred ke now 0 (reap_ring now s))"

definition idle :: "gpu_shared \<Rightarrow> bool" where
  "idle s \<longleftrightarrow> fe_count (gs_fences s) = 0 \<and> fe_deferred (gs_fences s) = []"

text \<open>The fence's values at the looks a drain makes before its time is over, the first one at once.\<close>

fun drain_loop :: "kernel_answers \<Rightarrow> u32 list \<Rightarrow> gpu_shared \<Rightarrow> gpu_shared" where
  "drain_loop ke [] s = s"
| "drain_loop ke (now # later) s = (if idle s then s else drain_loop ke later (reap ke now s))"

definition drain :: "kernel_answers \<Rightarrow> u32 \<Rightarrow> u32 list \<Rightarrow> gpu_shared \<Rightarrow> bool \<times> gpu_shared" where
  "drain ke now later s =
     (let s1 = reap ke now s
      in if idle s1 then (True, s1)
         else let s2 = drain_loop ke later (put_fences (\<lambda>f. f\<lparr>fe_drains := fe_drains f + 1\<rparr>) s1)
              in (idle s2, s2))"

text \<open>The probes' broker stops for good; the other marks the GPU wedged.\<close>

definition give_up :: "gpu_shared \<Rightarrow> gpu_shared option" where
  "give_up s = (if gs_retain s then None else Some (s\<lparr>gs_wedged := True\<rparr>))"

section \<open>The order of fence values\<close>

text \<open>How long ago a value was issued; values wrap, ages do not while they stay below half the range.\<close>

definition age :: "u32 \<Rightarrow> u32 \<Rightarrow> nat" where
  "age issued seq = unat (issued - seq)"

lemma sint_small: "- (2 ^ 31) \<le> k \<Longrightarrow> k < 2 ^ 31 \<Longrightarrow> sint (word_of_int k :: u32) = k"
  by (simp add: sint_sbintrunc' signed_take_bit_int_eq_self)

lemma fence_done_age:
  assumes "age issued seq < 2 ^ 31" and "age issued completed < 2 ^ 31"
  shows "fence_done seq completed \<longleftrightarrow> age issued completed \<le> age issued seq"
proof -
  have "seq - completed = (issued - completed) - (issued - seq)" by simp
  also have "\<dots> = word_of_int (int (age issued completed) - int (age issued seq))"
    unfolding age_def by (simp add: of_int_diff)
  finally have eq: "seq - completed = word_of_int (int (age issued completed) - int (age issued seq))" .
  have "sint (seq - completed) = int (age issued completed) - int (age issued seq)"
    unfolding eq by (rule sint_small) (use assms in auto)
  then show ?thesis by (simp add: fence_done_def)
qed

text \<open>C21. The fence comparison is the order in which values were issued, across the wrap of the 32-bit
  counter: of two values issued at most \<open>2\<^sup>3\<^sup>1 - 1\<close> apart, counted without wrapping, the first is
  done at the second exactly when it was issued no later.\<close>

theorem fence_done_is_order:
  assumes "n \<le> c + (2 ^ 31 - 1)" and "c \<le> n + 2 ^ 31"
  shows "fence_done (of_nat n) (of_nat c) \<longleftrightarrow> n \<le> c"
proof -
  have "(of_nat n - of_nat c :: u32) = word_of_int (int n - int c)" by simp
  moreover have "- (2 ^ 31) \<le> int n - int c" "int n - int c < 2 ^ 31" using assms by auto
  ultimately have "sint (of_nat n - of_nat c :: u32) = int n - int c" by (simp only: sint_small)
  then show ?thesis by (simp add: fence_done_def)
qed

theorem fence_done_is_order_witness:
  "fence_done (of_nat 4294967290) (of_nat 4294967300) \<and> \<not> fence_done (of_nat 4294967300) (of_nat 4294967290)"
  using fence_done_is_order [of 4294967290 4294967300] fence_done_is_order [of 4294967300 4294967290]
  by simp

section \<open>The ring as a queue\<close>

text \<open>A bounded queue: what a client of the ring relies on, and its consequences.\<close>

locale bounded_queue =
  fixes push :: "'e \<Rightarrow> 'q \<Rightarrow> 'q" and pop :: "'q \<Rightarrow> 'q" and front :: "'q \<Rightarrow> 'e"
    and ok :: "'q \<Rightarrow> bool" and items :: "'q \<Rightarrow> 'e list" and capacity :: nat
  assumes bounded: "ok q \<Longrightarrow> length (items q) \<le> capacity"
    and push_law: "ok q \<Longrightarrow> length (items q) < capacity \<Longrightarrow> ok (push e q) \<and> items (push e q) = items q @ [e]"
    and pop_law: "ok q \<Longrightarrow> items q \<noteq> [] \<Longrightarrow> ok (pop q) \<and> items q = front q # items (pop q)"
begin

lemma push_all:
  "ok q \<Longrightarrow> length (items q) + length es \<le> capacity \<Longrightarrow> ok (fold push es q) \<and> items (fold push es q) = items q @ es"
proof (induction es arbitrary: q)
  case (Cons e es)
  then show ?case using push_law [of q e] Cons.IH [of "push e q"] by simp
qed simp

lemma pop_many: "ok q \<Longrightarrow> n \<le> length (items q) \<Longrightarrow> ok ((pop ^^ n) q) \<and> items ((pop ^^ n) q) = drop n (items q)"
proof (induction n)
  case (Suc n)
  then have q: "ok ((pop ^^ n) q)" "items ((pop ^^ n) q) = drop n (items q)" by auto
  then have "items ((pop ^^ n) q) \<noteq> []" using Suc.prems by simp
  then show ?case using pop_law [OF q(1)] q(2) by (metis drop_Suc funpow.simps(2) comp_apply list.sel(3) drop_tl tl_drop)
qed simp

lemma fifo: "ok q \<Longrightarrow> items q = [] \<Longrightarrow> length es \<le> capacity \<Longrightarrow> n < length es \<Longrightarrow>
    front ((pop ^^ n) (fold push es q)) = es ! n"
proof -
  assume a: "ok q" "items q = []" "length es \<le> capacity" "n < length es"
  then have p: "ok (fold push es q)" "items (fold push es q) = es" using push_all [of q es] by simp_all
  then have "ok ((pop ^^ n) (fold push es q))" "items ((pop ^^ n) (fold push es q)) = drop n es"
    using pop_many [of "fold push es q" n] a by simp_all
  then show ?thesis using pop_law a(4) by (metis Cons_nth_drop_Suc drop_eq_Nil leD list.inject)
qed

end

definition ring_items :: "fence_state \<Rightarrow> inflight list" where
  "ring_items f = map (\<lambda>i. fe_ring f ! ((fe_head f + i) mod kRing)) [0..<fe_count f]"

definition ring_ok :: "fence_state \<Rightarrow> bool" where
  "ring_ok f \<longleftrightarrow> length (fe_ring f) = kRing \<and> fe_head f < kRing \<and> fe_count f \<le> kRing"

definition ring_front :: "fence_state \<Rightarrow> inflight" where
  "ring_front f = fe_ring f ! fe_head f"

lemma ring_slots: "i < j \<Longrightarrow> j < kRing \<Longrightarrow> (h + i) mod kRing \<noteq> (h + j) mod kRing"
proof
  assume ij: "i < j" "j < kRing" and eq: "(h + i) mod kRing = (h + j) mod kRing"
  then have "kRing dvd (h + j) - (h + i)" by (intro mod_eq_dvd_iff_nat [THEN iffD1]) auto
  then show False using ij by (auto dest: dvd_imp_le)
qed

lemma ring_push_law:
  assumes "ring_ok f" and "length (ring_items f) < kRing"
  shows "ring_ok (ring_push e f) \<and> ring_items (ring_push e f) = ring_items f @ [e]"
proof -
  have "(fe_head f + fe_count f) mod kRing \<noteq> (fe_head f + i) mod kRing" if "i < fe_count f" for i
    using ring_slots [of i "fe_count f" "fe_head f"] that assms(2) by (simp add: ring_items_def)
  then show ?thesis using assms by (auto simp: ring_ok_def ring_items_def ring_push_def kRing_def)
qed

lemma ring_pop_law:
  assumes "ring_ok f" and "ring_items f \<noteq> []"
  shows "ring_ok (ring_pop f) \<and> ring_items f = ring_front f # ring_items (ring_pop f)"
proof -
  have c: "0 < fe_count f" using assms(2) by (simp add: ring_items_def)
  have ne: "(fe_head f + Suc i) mod kRing \<noteq> fe_head f" if "Suc i < fe_count f" for i
    using ring_slots [of 0 "Suc i" "fe_head f"] that assms(1) by (simp add: ring_ok_def)
  have "[0..<fe_count f] = 0 # map Suc [0..<fe_count f - 1]" using c by (simp add: map_Suc_upt upt_conv_Cons)
  then have "ring_items f = ring_front f # map (\<lambda>i. fe_ring f ! ((fe_head f + Suc i) mod kRing)) [0..<fe_count f - 1]"
    using assms(1) by (simp add: ring_items_def ring_front_def ring_ok_def)
  moreover have "ring_items (ring_pop f) = map (\<lambda>i. fe_ring f ! ((fe_head f + Suc i) mod kRing)) [0..<fe_count f - 1]"
  proof -
    have pop: "fe_ring (ring_pop f) = (fe_ring f)[fe_head f := no_inflight]"
      "fe_head (ring_pop f) = (fe_head f + 1) mod kRing" "fe_count (ring_pop f) = fe_count f - 1"
      by (simp_all add: ring_pop_def)
    have idx: "((fe_head f + 1) mod kRing + i) mod kRing = (fe_head f + Suc i) mod kRing" for i
      using mod_add_left_eq [of "fe_head f + 1" kRing i] by simp
    have "ring_items (ring_pop f) =
        map (\<lambda>i. (fe_ring f)[fe_head f := no_inflight] ! ((fe_head f + Suc i) mod kRing)) [0..<fe_count f - 1]"
      by (simp only: ring_items_def pop idx)
    also have "\<dots> = map (\<lambda>i. fe_ring f ! ((fe_head f + Suc i) mod kRing)) [0..<fe_count f - 1]"
    proof (rule map_cong [OF refl])
      fix i assume "i \<in> set [0..<fe_count f - 1]"
      then have "Suc i < fe_count f" by auto
      from ne [OF this] show "(fe_ring f)[fe_head f := no_inflight] ! ((fe_head f + Suc i) mod kRing) =
          fe_ring f ! ((fe_head f + Suc i) mod kRing)" by (intro nth_list_update_neq) (rule not_sym)
    qed
    finally show ?thesis .
  qed
  moreover have "ring_ok (ring_pop f)" using assms(1) c by (auto simp: ring_ok_def ring_pop_def kRing_def)
  ultimately show ?thesis by simp
qed

interpretation ring: bounded_queue ring_push ring_pop ring_front ring_ok ring_items kRing
  by unfold_locales (use ring_push_law ring_pop_law in \<open>auto simp: ring_ok_def ring_items_def\<close>)

text \<open>The circular array of submissions is a queue of 512: pushed into a fresh one, entries are at its
  front in the order they were pushed, however far the head has moved.\<close>

lemma ring_is_fifo:
  assumes "ring_ok f" and "fe_count f = 0" and "length es \<le> 512" and "n < length es"
  shows "ring_front ((ring_pop ^^ n) (fold ring_push es f)) = es ! n"
  using ring.fifo [of f es n] assms by (simp add: ring_items_def kRing_def)

section \<open>What a reap releases\<close>

lemma put_fences_simps [simp]:
  "gs_fences (put_fences g s) = g (gs_fences s)" "gs_wedged (put_fences g s) = gs_wedged s"
  "gs_retain (put_fences g s) = gs_retain s" "gs_ranges (put_fences g s) = gs_ranges s"
  "gs_calls (put_fences g s) = gs_calls s" "put_fences g (put_fences h s) = put_fences (g \<circ> h) s"
  by (simp_all add: put_fences_def)

lemma put_fences_commute:
  "call c (put_fences g s) = put_fences g (call c s)"
  "give_range at sz (put_fences g s) = put_fences g (give_range at sz s)"
  "dmem_give_back ke offset sz (put_fences g s) = put_fences g (dmem_give_back ke offset sz s)"
  by (simp_all add: put_fences_def call_def give_range_def dmem_give_back_def Let_def split: option.split)

lemma release_put_fences: "release ke b (put_fences g s) = put_fences g (release ke b s)"
  by (cases "buf_local b"; cases "buf_ranged b"; cases "ke_reserve_over ke (buf_address b) (buf_bytes b)";
      cases "buf_address b = 0"; cases "0 \<le> buf_fd b"; cases "0 \<le> buf_dmem b")
    (simp_all add: release_def Let_def put_fences_commute)

lemma reap_ring_spec:
  "ring_ok (gs_fences s) \<Longrightarrow>
     ring_ok (gs_fences (reap_ring now s)) \<and>
     ring_items (gs_fences (reap_ring now s)) = dropWhile (\<lambda>e. fence_done (inf_seq e) now) (ring_items (gs_fences s)) \<and>
     fe_deferred (gs_fences (reap_ring now s)) = fe_deferred (gs_fences s) \<and>
     fe_issued (gs_fences (reap_ring now s)) = fe_issued (gs_fences s) \<and>
     fe_page (gs_fences (reap_ring now s)) = fe_page (gs_fences s) \<and>
     gs_wedged (reap_ring now s) = gs_wedged s \<and> gs_ranges (reap_ring now s) = gs_ranges s"
proof (induction now s rule: reap_ring.induct)
  case (1 now s)
  let ?f = "gs_fences s" and ?e = "fe_ring (gs_fences s) ! fe_head (gs_fences s)"
  let ?s = "put_fences ring_pop (keep_staging (inf_staging ?e) s)"
  show ?case
  proof (cases "0 < fe_count ?f \<and> fence_done (inf_seq ?e) now")
    case True
    have same: "ring_items (gs_fences (keep_staging (inf_staging ?e) s)) = ring_items ?f"
      "ring_ok (gs_fences (keep_staging (inf_staging ?e) s)) = ring_ok ?f"
      "ring_front (gs_fences (keep_staging (inf_staging ?e) s)) = ?e"
      by (simp_all add: ring_items_def ring_ok_def ring_front_def)
    have "ring_items ?f \<noteq> []" using True by (simp add: ring_items_def)
    then have p: "ring_ok (gs_fences ?s)" "ring_items ?f = ?e # ring_items (gs_fences ?s)"
      using ring_pop_law [of "gs_fences (keep_staging (inf_staging ?e) s)"] 1(2) same by simp_all
    have eq: "reap_ring now s = reap_ring now ?s" using True by (subst reap_ring.simps) (simp add: Let_def)
    have rest: "fe_deferred (gs_fences ?s) = fe_deferred ?f" "fe_issued (gs_fences ?s) = fe_issued ?f"
      "fe_page (gs_fences ?s) = fe_page ?f" by (simp_all add: ring_pop_def)
    show ?thesis using 1(1) [OF refl refl True p(1)] rest p(2) True unfolding eq by simp
  next
    case False
    then have eq: "reap_ring now s = s" by (subst reap_ring.simps) (auto simp: Let_def)
    have "ring_items ?f = [] \<or> ring_items ?f = ?e # tl (ring_items ?f)"
      using ring_pop_law [OF 1(2)] by (cases "ring_items ?f = []") (auto simp: ring_front_def)
    moreover have "ring_items ?f = [] \<longleftrightarrow> fe_count ?f = 0" by (simp add: ring_items_def)
    ultimately have "dropWhile (\<lambda>e. fence_done (inf_seq e) now) (ring_items ?f) = ring_items ?f"
      using False by (metis dropWhile.simps(1) dropWhile.simps(2) gr0I)
    then show ?thesis using 1(2) eq by simp
  qed
qed

text \<open>The deferred buffers that are released, in some order, and those that stay.\<close>

lemma reap_deferred_spec:
  assumes "\<forall>j < i. \<not> fence_done (def_seq (fe_deferred (gs_fences s) ! j)) now" and "i \<le> length (fe_deferred (gs_fences s))"
  shows "\<exists>gone ds. mset gone = filter_mset (\<lambda>d. fence_done (def_seq d) now) (mset (fe_deferred (gs_fences s))) \<and>
      mset ds = filter_mset (\<lambda>d. \<not> fence_done (def_seq d) now) (mset (fe_deferred (gs_fences s))) \<and>
      reap_deferred ke now i s = put_fences (fe_deferred_update (\<lambda>_. ds)) (fold (release ke) (map def_buffer gone) s)"
  using assms
proof (induction ke now i s rule: reap_deferred.induct)
  case (1 ke now i s)
  let ?ds = "fe_deferred (gs_fences s)"
  show ?case
  proof (cases "i < length ?ds")
    case False
    then have "\<forall>d \<in> set ?ds. \<not> fence_done (def_seq d) now" using 1(3,4) by (metis in_set_conv_nth le_antisym not_less)
    then have "filter (\<lambda>d. fence_done (def_seq d) now) ?ds = []" "filter (\<lambda>d. \<not> fence_done (def_seq d) now) ?ds = ?ds"
      by (simp_all add: filter_empty_conv filter_id_conv)
    then have "filter_mset (\<lambda>d. fence_done (def_seq d) now) (mset ?ds) = {#}"
      "filter_mset (\<lambda>d. \<not> fence_done (def_seq d) now) (mset ?ds) = mset ?ds"
      by (metis mset_filter mset.simps(1))+
    moreover have "reap_deferred ke now i s = s" using False by (subst reap_deferred.simps) (simp add: Let_def)
    ultimately show ?thesis by (intro exI [of _ "[]"] exI [of _ ?ds]) (simp add: put_fences_def)
  next
    case True
    show ?thesis
    proof (cases "fence_done (def_seq (?ds ! i)) now")
      case dn: True
      let ?s = "put_fences (fe_deferred_update (\<lambda>ds. butlast (ds[i := last ds]))) (release ke (def_buffer (?ds ! i)) s)"
      let ?ds' = "butlast (?ds[i := last ?ds])"
      have eq: "reap_deferred ke now i s = reap_deferred ke now i ?s"
        using True dn by (subst reap_deferred.simps) (simp add: Let_def)
      have ds': "fe_deferred (gs_fences ?s) = ?ds'" by simp
      have ms: "mset ?ds = add_mset (?ds ! i) (mset ?ds')" by (rule swap_out [OF True])
      have pre: "\<forall>j < i. \<not> fence_done (def_seq (?ds' ! j)) now" using 1(3) True by (auto simp: nth_butlast)
      have len: "i \<le> length ?ds'" using True by simp
      obtain gone ds where ih: "mset gone = filter_mset (\<lambda>d. fence_done (def_seq d) now) (mset ?ds')"
        "mset ds = filter_mset (\<lambda>d. \<not> fence_done (def_seq d) now) (mset ?ds')"
        "reap_deferred ke now i ?s = put_fences (fe_deferred_update (\<lambda>_. ds)) (fold (release ke) (map def_buffer gone) ?s)"
        using 1(1) [OF refl True dn, unfolded ds', OF pre len] by blast
      have "fold (release ke) bs (put_fences g s) = put_fences g (fold (release ke) bs s)" for bs g s
        by (induction bs arbitrary: s) (simp_all add: release_put_fences)
      then have "reap_deferred ke now i s =
          put_fences (fe_deferred_update (\<lambda>_. ds)) (fold (release ke) (map def_buffer (?ds ! i # gone)) s)"
        unfolding eq ih(3) by (simp add: comp_def)
      moreover have "mset (?ds ! i # gone) = filter_mset (\<lambda>d. fence_done (def_seq d) now) (mset ?ds)"
        "mset ds = filter_mset (\<lambda>d. \<not> fence_done (def_seq d) now) (mset ?ds)"
        using ih(1,2) dn by (simp_all add: ms)
      ultimately show ?thesis by blast
    next
      case False
      then have "reap_deferred ke now i s = reap_deferred ke now (i + 1) s"
        using True by (subst reap_deferred.simps) (simp add: Let_def)
      moreover have "\<forall>j < i + 1. \<not> fence_done (def_seq (?ds ! j)) now" using 1(3) False by (auto simp: less_Suc_eq)
      ultimately show ?thesis using 1(2) [OF refl True False] True by simp
    qed
  qed
qed

lemma fold_release_simps [simp]:
  "gs_fences (fold (release ke) bs s) = gs_fences s" "gs_wedged (fold (release ke) bs s) = gs_wedged s"
  by (induction bs arbitrary: s) simp_all

lemma reap_form:
  assumes "ring_ok (gs_fences s)" and "mem_cpu (fe_page (gs_fences s)) \<noteq> 0"
  obtains gone ds where "mset gone = filter_mset (\<lambda>d. fence_done (def_seq d) now) (mset (fe_deferred (gs_fences s)))"
    "mset ds = filter_mset (\<lambda>d. \<not> fence_done (def_seq d) now) (mset (fe_deferred (gs_fences s)))"
    "reap ke now s = put_fences (fe_deferred_update (\<lambda>_. ds)) (fold (release ke) (map def_buffer gone) (reap_ring now s))"
proof -
  note ring = reap_ring_spec [OF assms(1), of now]
  obtain gone ds where d: "mset gone = filter_mset (\<lambda>d. fence_done (def_seq d) now) (mset (fe_deferred (gs_fences s)))"
    "mset ds = filter_mset (\<lambda>d. \<not> fence_done (def_seq d) now) (mset (fe_deferred (gs_fences s)))"
    "reap_deferred ke now 0 (reap_ring now s) =
       put_fences (fe_deferred_update (\<lambda>_. ds)) (fold (release ke) (map def_buffer gone) (reap_ring now s))"
    using reap_deferred_spec [of 0 "reap_ring now s" now ke] ring by auto
  have "reap ke now s = reap_deferred ke now 0 (reap_ring now s)" using assms(2) by (simp add: reap_def)
  then show thesis using that [OF d(1,2)] d(3) by simp
qed

lemma reap_spec:
  assumes "ring_ok (gs_fences s)" and "mem_cpu (fe_page (gs_fences s)) \<noteq> 0"
  shows "ring_items (gs_fences (reap ke now s)) = dropWhile (\<lambda>e. fence_done (inf_seq e) now) (ring_items (gs_fences s)) \<and>
     mset (fe_deferred (gs_fences (reap ke now s))) =
       filter_mset (\<lambda>d. \<not> fence_done (def_seq d) now) (mset (fe_deferred (gs_fences s))) \<and>
     (\<exists>gone. mset gone = filter_mset (\<lambda>d. fence_done (def_seq d) now) (mset (fe_deferred (gs_fences s))) \<and>
        gs_calls (reap ke now s) = gs_calls (fold (release ke) (map def_buffer gone) (reap_ring now s)) \<and>
        gs_ranges (reap ke now s) = gs_ranges (fold (release ke) (map def_buffer gone) (reap_ring now s)))"
proof (rule reap_form [OF assms, of now ke])
  fix gone ds
  assume d: "mset gone = filter_mset (\<lambda>d. fence_done (def_seq d) now) (mset (fe_deferred (gs_fences s)))"
    "mset ds = filter_mset (\<lambda>d. \<not> fence_done (def_seq d) now) (mset (fe_deferred (gs_fences s)))"
    "reap ke now s = put_fences (fe_deferred_update (\<lambda>_. ds)) (fold (release ke) (map def_buffer gone) (reap_ring now s))"
  then show ?thesis using reap_ring_spec [OF assms(1), of now] by (auto simp: ring_items_def)
qed

lemma reap_keeps:
  assumes "ring_ok (gs_fences s)"
  shows "ring_ok (gs_fences (reap ke now s))" "fe_issued (gs_fences (reap ke now s)) = fe_issued (gs_fences s)"
    "fe_page (gs_fences (reap ke now s)) = fe_page (gs_fences s)" "gs_wedged (reap ke now s) = gs_wedged s"
proof -
  note ring = reap_ring_spec [OF assms(1), of now]
  have "ring_ok (gs_fences (reap ke now s)) \<and> fe_issued (gs_fences (reap ke now s)) = fe_issued (gs_fences s) \<and>
      fe_page (gs_fences (reap ke now s)) = fe_page (gs_fences s) \<and> gs_wedged (reap ke now s) = gs_wedged s"
  proof (cases "mem_cpu (fe_page (gs_fences s)) = 0")
    case False
    then show ?thesis using ring by (elim reap_form [OF assms, of now ke]) (simp_all add: ring_ok_def)
  qed (simp add: reap_def assms)
  then show "ring_ok (gs_fences (reap ke now s))" "fe_issued (gs_fences (reap ke now s)) = fe_issued (gs_fences s)"
    "fe_page (gs_fences (reap ke now s)) = fe_page (gs_fences s)" "gs_wedged (reap ke now s) = gs_wedged s" by simp_all
qed

section \<open>What is in flight\<close>

definition ages :: "fence_state \<Rightarrow> nat list" where
  "ages f = map (age (fe_issued f) \<circ> inf_seq) (ring_items f)"

text \<open>
  The submissions are in the order they were issued, close together (a value is skipped at the
  wrap, and one more is issued, and never again, when a submission fails), and every deferred
  buffer waits for one of them.
\<close>

definition flight_ok :: "gpu_shared \<Rightarrow> bool" where
  "flight_ok s \<longleftrightarrow>
     (let f = gs_fences s; n = length (ages f)
      in ring_ok f \<and> sorted_wrt (>) (ages f) \<and>
         (\<forall>i < n. ages f ! i \<le> 2 * (n - 1 - i) + (if gs_wedged s then 2 else 0)) \<and>
         (\<forall>d \<in> set (fe_deferred f). def_seq d \<in> inf_seq ` set (ring_items f)))"

lemma flight_ages: "flight_ok s \<Longrightarrow> e \<in> set (ring_items (gs_fences s)) \<Longrightarrow> age (fe_issued (gs_fences s)) (inf_seq e) < 2 ^ 31"
proof -
  assume ok: "flight_ok s" and e: "e \<in> set (ring_items (gs_fences s))"
  let ?f = "gs_fences s"
  have "age (fe_issued ?f) (inf_seq e) \<in> set (ages ?f)" using e by (simp add: ages_def)
  then obtain i where i: "i < length (ages ?f)" "ages ?f ! i = age (fe_issued ?f) (inf_seq e)" by (metis in_set_conv_nth)
  have "ages ?f ! i \<le> 2 * (length (ages ?f) - 1 - i) + (if gs_wedged s then 2 else 0)"
    using ok i(1) unfolding flight_ok_def Let_def by blast
  also have "\<dots> \<le> 2 * length (ages ?f) + 2" by auto
  also have "\<dots> \<le> 2 * 512 + 2" using ok by (simp add: flight_ok_def Let_def ages_def ring_items_def ring_ok_def kRing_def)
  finally show ?thesis using i(2) by simp
qed

lemma dropWhile_sorted:
  assumes "sorted_wrt (>) (map g xs)" and "\<forall>x \<in> set xs. P x \<longleftrightarrow> (c :: nat) \<le> g x"
  shows "dropWhile P xs = filter (\<lambda>x. \<not> P x) xs"
  using assms
proof (induction xs)
  case (Cons x xs)
  show ?case
  proof (cases "P x")
    case False
    then have "\<forall>y \<in> set xs. \<not> P y" using Cons.prems by fastforce
    then show ?thesis using False by (simp add: filter_id_conv)
  qed (use Cons in simp)
qed simp

lemma reap_flight:
  assumes "flight_ok s" and "mem_cpu (fe_page (gs_fences s)) \<noteq> 0" and "age (fe_issued (gs_fences s)) now < 2 ^ 31"
  shows "flight_ok (reap ke now s) \<and>
     ring_items (gs_fences (reap ke now s)) = filter (\<lambda>e. \<not> fence_done (inf_seq e) now) (ring_items (gs_fences s)) \<and>
     (\<forall>d \<in> set (fe_deferred (gs_fences s)). d \<in> set (fe_deferred (gs_fences (reap ke now s))) \<or>
        (\<forall>e \<in> set (ring_items (gs_fences s)).
           age (fe_issued (gs_fences s)) (def_seq d) \<le> age (fe_issued (gs_fences s)) (inf_seq e) \<longrightarrow> fence_done (inf_seq e) now))"
proof -
  let ?f = "gs_fences s" and ?s = "reap ke now s" and ?a = "age (fe_issued (gs_fences s))"
  have ok: "ring_ok ?f" using assms(1) by (simp add: flight_ok_def Let_def)
  note ex = reap_spec [OF ok assms(2), of ke now] and keep = reap_keeps [OF ok, of ke now]
  have dn: "fence_done (inf_seq e) now \<longleftrightarrow> ?a now \<le> ?a (inf_seq e)" if "e \<in> set (ring_items ?f)" for e
    using fence_done_age [OF flight_ages [OF assms(1) that] assms(3)] .
  have sorted: "sorted_wrt (>) (map (?a \<circ> inf_seq) (ring_items ?f))" using assms(1) by (simp add: flight_ok_def Let_def ages_def)
  have ring: "ring_items (gs_fences ?s) = filter (\<lambda>e. \<not> fence_done (inf_seq e) now) (ring_items ?f)"
    using ex dropWhile_sorted [OF sorted, of "\<lambda>e. fence_done (inf_seq e) now" "?a now"] dn by simp
  obtain k where k: "ring_items (gs_fences ?s) = drop k (ring_items ?f)"
    using ex dropWhile_eq_drop by metis
  have ages: "ages (gs_fences ?s) = drop k (ages ?f)" using k keep(2) by (simp add: ages_def drop_map)
  have "\<forall>i < length (ages (gs_fences ?s)). ages (gs_fences ?s) ! i \<le>
      2 * (length (ages (gs_fences ?s)) - 1 - i) + (if gs_wedged ?s then 2 else 0)"
  proof (intro allI impI)
    fix i assume i: "i < length (ages (gs_fences ?s))"
    then have "ages ?f ! (k + i) \<le> 2 * (length (ages ?f) - 1 - (k + i)) + (if gs_wedged s then 2 else 0)"
      using assms(1) ages unfolding flight_ok_def Let_def by simp
    then show "ages (gs_fences ?s) ! i \<le> 2 * (length (ages (gs_fences ?s)) - 1 - i) + (if gs_wedged ?s then 2 else 0)"
      using ages i keep(4) by simp
  qed
  moreover have "def_seq d \<in> inf_seq ` set (ring_items (gs_fences ?s))" if d: "d \<in> set (fe_deferred (gs_fences ?s))" for d
  proof -
    have "d \<in># filter_mset (\<lambda>d. \<not> fence_done (def_seq d) now) (mset (fe_deferred ?f))" using d ex by (metis set_mset_mset)
    then have "d \<in> set (fe_deferred ?f)" "\<not> fence_done (def_seq d) now" by auto
    then show ?thesis using assms(1) ring unfolding flight_ok_def Let_def by auto
  qed
  moreover have "sorted_wrt (>) (ages (gs_fences ?s))" using assms(1) ages by (simp add: flight_ok_def Let_def sorted_wrt_drop)
  ultimately have "flight_ok ?s" using keep(1) unfolding flight_ok_def Let_def by blast
  moreover have "fence_done (inf_seq e) now"
    if d: "d \<in> set (fe_deferred ?f)" "d \<notin> set (fe_deferred (gs_fences ?s))" and e: "e \<in> set (ring_items ?f)" "?a (def_seq d) \<le> ?a (inf_seq e)" for d e
  proof -
    have "d \<notin># filter_mset (\<lambda>d. \<not> fence_done (def_seq d) now) (mset (fe_deferred ?f))" using d(2) ex by (metis set_mset_mset)
    then have "fence_done (def_seq d) now" using d(1) by auto
    moreover obtain e' where "e' \<in> set (ring_items ?f)" "def_seq d = inf_seq e'"
      using assms(1) d(1) unfolding flight_ok_def Let_def by blast
    ultimately show ?thesis using dn e by fastforce
  qed
  ultimately show ?thesis using ring by blast
qed


lemma reap_shrinks:
  assumes "ring_ok (gs_fences s)" and "mem_cpu (fe_page (gs_fences s)) \<noteq> 0"
  shows "set (ring_items (gs_fences (reap ke now s))) \<subseteq> set (ring_items (gs_fences s))"
    "set (fe_deferred (gs_fences (reap ke now s))) \<subseteq> set (fe_deferred (gs_fences s))"
proof -
  note ex = reap_spec [OF assms, of ke now]
  show "set (ring_items (gs_fences (reap ke now s))) \<subseteq> set (ring_items (gs_fences s))"
    using ex set_dropWhileD by (metis subsetI)
  have "set_mset (mset (fe_deferred (gs_fences (reap ke now s)))) \<subseteq> set_mset (mset (fe_deferred (gs_fences s)))"
    using ex by simp
  then show "set (fe_deferred (gs_fences (reap ke now s))) \<subseteq> set (fe_deferred (gs_fences s))" by simp
qed

lemma reap_all_done:
  assumes "ring_ok (gs_fences s)" and "mem_cpu (fe_page (gs_fences s)) \<noteq> 0"
    and "\<forall>e \<in> set (ring_items (gs_fences s)). fence_done (inf_seq e) now"
    and "\<forall>d \<in> set (fe_deferred (gs_fences s)). fence_done (def_seq d) now"
  shows "idle (reap ke now s)"
proof -
  note ex = reap_spec [OF assms(1,2), of ke now]
  have "ring_items (gs_fences (reap ke now s)) = []" using ex assms(3) by (simp add: dropWhile_eq_Nil_conv)
  moreover have "filter_mset (\<lambda>d. \<not> fence_done (def_seq d) now) (mset (fe_deferred (gs_fences s))) = {#}"
    using assms(4) by (auto simp: filter_mset_eq_conv multiset_eq_iff)
  then have "fe_deferred (gs_fences (reap ke now s)) = []" using ex by (metis mset_zero_iff)
  ultimately show ?thesis by (simp add: idle_def ring_items_def)
qed

lemma drain_loop_idles:
  assumes "ring_ok (gs_fences s)" and "mem_cpu (fe_page (gs_fences s)) \<noteq> 0" and "c \<in> set later"
    and "\<forall>e \<in> set (ring_items (gs_fences s)). fence_done (inf_seq e) c"
    and "\<forall>d \<in> set (fe_deferred (gs_fences s)). fence_done (def_seq d) c"
  shows "idle (drain_loop ke later s)"
  using assms
proof (induction later arbitrary: s)
  case (Cons now later)
  have idle_stays: "idle s' \<Longrightarrow> drain_loop ke later s' = s'" for s' by (cases later) simp_all
  show ?case
  proof (cases "idle s \<or> now = c")
    case True
    then show ?thesis using reap_all_done [OF Cons.prems(1,2)] Cons.prems(4,5) idle_stays by auto
  next
    case False
    then show ?thesis
      using Cons.IH [of "reap ke now s"] Cons.prems reap_keeps(1,3) [OF Cons.prems(1), of ke now] reap_shrinks [OF Cons.prems(1,2), of ke now]
      by auto
  qed
qed simp

lemma reap_no_page: "mem_cpu (fe_page (gs_fences s)) = 0 \<Longrightarrow> reap ke now s = s"
  by (simp add: reap_def)

text \<open>What every look at the fence keeps.\<close>

definition recent :: "gpu_shared \<Rightarrow> u32 \<Rightarrow> bool" where
  "recent s now \<longleftrightarrow> age (fe_issued (gs_fences s)) now < 2 ^ 31"

lemma reap_kept:
  assumes "flight_ok s" and "recent s now"
  shows "flight_ok (reap ke now s) \<and> fe_issued (gs_fences (reap ke now s)) = fe_issued (gs_fences s) \<and>
      gs_wedged (reap ke now s) = gs_wedged s \<and> fe_page (gs_fences (reap ke now s)) = fe_page (gs_fences s)"
proof (cases "mem_cpu (fe_page (gs_fences s)) = 0")
  case False
  have "ring_ok (gs_fences s)" using assms(1) by (simp add: flight_ok_def Let_def)
  then show ?thesis using reap_flight [OF assms(1) False assms(2) [unfolded recent_def]] reap_keeps [of s ke now] by simp
qed (simp add: reap_no_page assms)

lemma drain_loop_kept:
  assumes "flight_ok s" and "\<forall>now \<in> set later. recent s now"
  shows "flight_ok (drain_loop ke later s) \<and> fe_issued (gs_fences (drain_loop ke later s)) = fe_issued (gs_fences s) \<and>
      gs_wedged (drain_loop ke later s) = gs_wedged s \<and> fe_page (gs_fences (drain_loop ke later s)) = fe_page (gs_fences s)"
  using assms
proof (induction later arbitrary: s)
  case (Cons now later)
  then show ?case using reap_kept [OF Cons.prems(1), of now ke] Cons.IH [of "reap ke now s"] by (simp add: recent_def)
qed simp

lemma flight_ok_put:
  "(\<And>f. ring_items (g f) = ring_items f \<and> ring_ok (g f) = ring_ok f \<and> fe_issued (g f) = fe_issued f \<and> fe_deferred (g f) = fe_deferred f) \<Longrightarrow>
     flight_ok (put_fences g s) = flight_ok s"
  by (simp add: flight_ok_def Let_def ages_def)

lemma drain_kept:
  assumes "flight_ok s" and "\<forall>v \<in> set (now # later). recent s v" and "drain ke now later s = (answer, s')"
  shows "flight_ok s' \<and> fe_issued (gs_fences s') = fe_issued (gs_fences s) \<and> gs_wedged s' = gs_wedged s \<and>
      fe_page (gs_fences s') = fe_page (gs_fences s) \<and> answer = idle s'"
proof -
  let ?s = "reap ke now s" let ?t = "put_fences (\<lambda>f. f\<lparr>fe_drains := fe_drains f + 1\<rparr>) ?s"
  have r: "flight_ok ?s" "fe_issued (gs_fences ?s) = fe_issued (gs_fences s)" "gs_wedged ?s = gs_wedged s"
    "fe_page (gs_fences ?s) = fe_page (gs_fences s)" using reap_kept [OF assms(1), of now ke] assms(2) by simp_all
  have "flight_ok ?t = flight_ok ?s" by (rule flight_ok_put) (simp add: ring_items_def ring_ok_def)
  then have "flight_ok ?t" using r(1) by simp
  then have "flight_ok (drain_loop ke later ?t)" "fe_issued (gs_fences (drain_loop ke later ?t)) = fe_issued (gs_fences s)"
    "gs_wedged (drain_loop ke later ?t) = gs_wedged s" "fe_page (gs_fences (drain_loop ke later ?t)) = fe_page (gs_fences s)"
    using drain_loop_kept [of ?t later ke] assms(2) r by (simp_all add: recent_def)
  then show ?thesis using assms(3) r by (auto simp: drain_def Let_def split: if_splits)
qed

text \<open>C19. A drain ends with nothing in flight and nothing deferred as soon as one of the fence values it
  sees, first or later, is past every submission that was in flight: it then answers true.\<close>

theorem drain_returns:
  assumes "flight_ok s" and "mem_cpu (fe_page (gs_fences s)) \<noteq> 0" and "c \<in> set (now # later)"
    and "\<forall>e \<in> set (ring_items (gs_fences s)). fence_done (inf_seq e) c"
  shows "\<exists>s'. drain ke now later s = (True, s') \<and> idle s'"
proof -
  have ok: "ring_ok (gs_fences s)" using assms(1) by (simp add: flight_ok_def Let_def)
  have def: "\<forall>d \<in> set (fe_deferred (gs_fences s)). fence_done (def_seq d) c"
    using assms(1,4) unfolding flight_ok_def Let_def by auto
  let ?s = "reap ke now s" let ?t = "put_fences (\<lambda>f. f\<lparr>fe_drains := fe_drains f + 1\<rparr>) ?s"
  show ?thesis
  proof (cases "idle ?s")
    case True
    then show ?thesis by (simp add: drain_def)
  next
    case False
    then have "c \<in> set later" using assms(3) reap_all_done [OF ok assms(2,4) def] by auto
    moreover have "ring_ok (gs_fences ?t)" "mem_cpu (fe_page (gs_fences ?t)) \<noteq> 0" "ring_items (gs_fences ?t) = ring_items (gs_fences ?s)"
      using reap_keeps(1,3) [OF ok, of ke now] assms(2) by (simp_all add: ring_ok_def ring_items_def)
    ultimately have "idle (drain_loop ke later ?t)"
      using reap_shrinks [OF ok assms(2), of ke now] assms(4) def by (intro drain_loop_idles [of _ c]) auto
    then show ?thesis using False by (simp add: drain_def Let_def)
  qed
qed

text \<open>The state of a broker that has just been started, and one with two submissions in flight.\<close>

definition gpu_shared_new :: gpu_shared where
  "gpu_shared_new = \<lparr>gs_ranges = host_ranges, gs_fences = fences_new, gs_wedged = False, gs_retain = False,
     gs_window = 0x240000000, gs_high = 0x5100000000, gs_dmem_made = 0, gs_dmem_freed = 0, gs_dmem_refused = 0,
     gs_dmem_free_failed = 0, gs_dmem_bytes_made = 0, gs_staging_allocs = 0, gs_staging_frees = 0,
     gs_staging_reuses = 0, gs_staging_refused = 0, gs_staging_held = 0, gs_staging_peak = 0, gs_calls = []\<rparr>"

definition sample_entry :: "u32 \<Rightarrow> inflight" where
  "sample_entry n = \<lparr>inf_seq = n, inf_staging = no_memory\<lparr>mem_bytes := 65536\<rparr>, inf_client = Some 0\<rparr>"

definition sample_flight :: gpu_shared where
  "sample_flight = put_fences (\<lambda>f. fold ring_push [sample_entry 1, sample_entry 2]
      (f\<lparr>fe_page := no_memory\<lparr>mem_cpu := 0x5000000000\<rparr>, fe_issued := 2,
         fe_deferred := [\<lparr>def_buffer = no_buffer, def_seq = 1\<rparr>]\<rparr>)) gpu_shared_new"

lemma sample_flight_facts:
  "ring_items (gs_fences sample_flight) = [sample_entry 1, sample_entry 2]"
  "mem_cpu (fe_page (gs_fences sample_flight)) \<noteq> 0" "fe_issued (gs_fences sample_flight) = 2"
  "ring_ok (gs_fences sample_flight)" "fe_deferred (gs_fences sample_flight) = [\<lparr>def_buffer = no_buffer, def_seq = 1\<rparr>]"
  "flight_ok sample_flight"
proof -
  let ?f = "fences_new\<lparr>fe_page := no_memory\<lparr>mem_cpu := 0x5000000000\<rparr>, fe_issued := 2,
         fe_deferred := [\<lparr>def_buffer = no_buffer, def_seq = 1\<rparr>]\<rparr>"
  have f: "gs_fences sample_flight = fold ring_push [sample_entry 1, sample_entry 2] ?f"
    by (simp add: sample_flight_def gpu_shared_new_def)
  have "ring_ok ?f" "ring_items ?f = []" by (simp_all add: ring_ok_def ring_items_def fences_new_def kRing_def)
  then show r: "ring_items (gs_fences sample_flight) = [sample_entry 1, sample_entry 2]" "ring_ok (gs_fences sample_flight)"
    unfolding f using ring.push_all [of ?f "[sample_entry 1, sample_entry 2]"] by (simp_all add: kRing_def)
  show g: "mem_cpu (fe_page (gs_fences sample_flight)) \<noteq> 0" "fe_issued (gs_fences sample_flight) = 2"
    "fe_deferred (gs_fences sample_flight) = [\<lparr>def_buffer = no_buffer, def_seq = 1\<rparr>]"
    unfolding f by (simp_all add: ring_push_def)
  have "gs_wedged sample_flight = False" by (simp add: sample_flight_def gpu_shared_new_def)
  then show "flight_ok sample_flight"
    using r g by (auto simp: flight_ok_def Let_def ages_def age_def sample_entry_def less_Suc_eq)
qed


theorem drain_returns_witness:
  "\<exists>s'. drain \<lparr>ke_reserve_over = (\<lambda>_ _. True), ke_dmem_release = None\<rparr> 0 [1, 2] sample_flight = (True, s') \<and> idle s'"
  using drain_returns [OF sample_flight_facts(6,2), of 2 0 "[1, 2]" "\<lparr>ke_reserve_over = (\<lambda>_ _. True), ke_dmem_release = None\<rparr>"]
  by (simp add: sample_flight_facts sample_entry_def fence_done_def)

end
