(* ===== verification/Gpu_Client.thy ===== *)
theory Gpu_Client
  imports Gpu_Fences
begin

text \<open>
  What \<open>tooling/gpu-broker/server.cpp\<close> does for one client: its buffers and budgets
  (\<open>allocate\<close>, \<open>allocate_local\<close>, \<open>map_host\<close>, \<open>shared_object\<close>, \<open>free_buffer\<close>), its submissions
  (\<open>submit\<close>) and its sparse ranges (\<open>vrange_*\<close>). A status is a value of \<open>gpu_errno\<close>. An operation
  whose result is \<open>None\<close> does not return: the probes' broker stops for good, or a loop does not end.
  What the kernel, the platform layer and the memory helper answer comes as arguments.
\<close>

section \<open>Clients\<close>

datatype gpu_errno = E_OK | EINVAL | ENOMEM | ENOSPC | EIO | EADDRINUSE | EBUSY | EAGAIN | ENOTSUP | EPROTO | EOTHER int

record vrange =
  vr_address :: u64
  vr_bytes :: u64
  vr_memory :: radv_memory

definition no_vrange :: vrange where
  "no_vrange = \<lparr>vr_address = 0, vr_bytes = 0, vr_memory = no_memory\<rparr>"

text \<open>\<open>cl_range_index\<close>: the ordered map, its keys ascending.\<close>

record gpu_client =
  cl_socket :: int
  cl_pid :: int
  cl_expected_pid :: int
  cl_sequence :: u32
  cl_next_token :: u32
  cl_buffers :: "gpu_buffer list"
  cl_submissions :: u32
  cl_ranges :: "vrange list"
  cl_range_count :: nat
  cl_range_peak :: nat
  cl_range_index :: "(u64 \<times> nat) list"
  cl_allocated :: u64
  cl_local :: u64
  cl_local_peak :: u64
  cl_tess :: u64
  cl_tess_bytes :: u32
  cl_granularity :: u32
  cl_buffering :: u32
  cl_offchip :: bool
  cl_stage :: string
  cl_ended :: bool
  cl_cookie :: int
  cl_present_socket :: int
  cl_present_sequence :: u32

definition kClientBuffers :: nat where "kClientBuffers = 1024"
definition kClientRanges :: nat where "kClientRanges = 32768"
definition kRangeTableFloor :: int where "kRangeTableFloor = 1024"
definition kLocalOffer :: u64 where "kLocalOffer = push_bit 30 8"
definition kLocalFloor :: u64 where "kLocalFloor = push_bit 30 1"

definition client_new :: gpu_client where
  "client_new = \<lparr>cl_socket = - 1, cl_pid = - 1, cl_expected_pid = 0, cl_sequence = 0, cl_next_token = 0,
     cl_buffers = replicate kClientBuffers no_buffer, cl_submissions = 0, cl_ranges = [], cl_range_count = 0,
     cl_range_peak = 0, cl_range_index = [], cl_allocated = 0, cl_local = 0, cl_local_peak = 0, cl_tess = 0,
     cl_tess_bytes = 0, cl_granularity = 0, cl_buffering = 0, cl_offchip = False, cl_stage = ''none'',
     cl_ended = False, cl_cookie = 0, cl_present_socket = - 1, cl_present_sequence = 0\<rparr>"

definition owned :: "gpu_client \<Rightarrow> u64 \<Rightarrow> u64 \<Rightarrow> bool" where
  "owned c address sz \<longleftrightarrow>
     (\<exists>b \<in> set (cl_buffers c). buf_token b \<noteq> 0 \<and> pw_gpu_contains (buf_address b) (buf_bytes b) address sz)"

section \<open>Mapping host-visible memory\<close>

text \<open>
  \<open>shared_object\<close>: the maker the application set, if any, with its descriptor, whether touching
  the object failed, and the error it left; and the object made here otherwise. The object's
  descriptor, or -1.
\<close>

record shared_answers =
  sa_maker :: "(int \<times> bool \<times> gpu_errno) option"
  sa_gone :: "gpu_errno \<Rightarrow> bool"
  sa_anon :: int
  sa_truncate_failed :: bool

definition shared_object :: "shared_answers \<Rightarrow> gpu_shared \<Rightarrow> int \<times> gpu_shared" where
  "shared_object sa s =
     (let made_here = (\<lambda>s. if 0 \<le> sa_anon sa \<and> sa_truncate_failed sa then (- 1, call (Close_fd (sa_anon sa)) s)
                            else (sa_anon sa, s))
      in case sa_maker sa of
           None \<Rightarrow> made_here s
         | Some (fd, touch_failed, err) \<Rightarrow>
             if 0 \<le> fd \<and> \<not> touch_failed then (fd, s)
             else let s' = (if 0 \<le> fd then call (Close_fd fd) s else s)
                  in if sa_gone sa err then (- 1, s') else made_here s')"

text \<open>
  \<open>map_host\<close>: \<open>ma_dmem\<close> is the helper's answer (\<open>None\<close> no helper, \<open>Some None\<close> refused, an offset
  otherwise), \<open>ma_direct\<close> that its memory was mapped at the address, \<open>ma_mapped\<close> the address a
  mapping of the shared object gives (\<open>None\<close> for a failure). The result: the address, the
  descriptor, the offset.
\<close>

record map_answers =
  ma_dmem :: "int option option"
  ma_direct :: bool
  ma_shared :: shared_answers
  ma_mapped :: "u64 option"

definition map_host :: "kernel_answers \<Rightarrow> map_answers \<Rightarrow> u64 \<Rightarrow> u64 \<Rightarrow> gpu_shared \<Rightarrow> u64 option \<times> int \<times> int \<times> gpu_shared" where
  "map_host ke ma at sz s =
     (let by_descriptor = (\<lambda>s. case shared_object (ma_shared ma) s of
            (fd, s') \<Rightarrow> if fd < 0 then (None, fd, - 1, s') else (ma_mapped ma, fd, - 1, s'))
      in case ma_dmem ma of
           None \<Rightarrow> by_descriptor s
         | Some None \<Rightarrow> by_descriptor (s\<lparr>gs_dmem_refused := gs_dmem_refused s + 1\<rparr>)
         | Some (Some offset) \<Rightarrow>
             (let s' = s\<lparr>gs_dmem_made := gs_dmem_made s + 1, gs_dmem_bytes_made := gs_dmem_bytes_made s + sz\<rparr>
              in if ma_direct ma then (Some at, - 1, offset, s')
                 else by_descriptor (dmem_give_back ke offset sz s')))"

section \<open>Device-local room\<close>

definition local_room :: "u64 \<Rightarrow> u64" where
  "local_room available = (if kLocalFloor < available then (available - kLocalFloor) AND NOT 16383 else 0)"

definition local_offer :: "u64 \<Rightarrow> u64" where
  "local_offer available =
     (let share = (local_room available div 3 * 2) AND NOT 16383 in if share < kLocalOffer then share else kLocalOffer)"

section \<open>Allocation\<close>

text \<open>
  \<open>al_reserve\<close>: what reserving at an address of the cursor gives, the error and the address;
  \<open>al_memory\<close>: the platform's device-local memory; \<open>al_grant\<close>: the GPU was granted the mapping.
\<close>

record alloc_answers =
  al_available :: u64
  al_memory :: "radv_memory option"
  al_map :: map_answers
  al_grant :: bool
  al_reserve :: "u64 \<Rightarrow> u64 \<Rightarrow> int \<times> u64"

text \<open>The results of an allocation: its status, the client, the shared state, the reply, the descriptor.\<close>

type_synonym alloc_result = "gpu_errno \<times> gpu_client \<times> gpu_shared \<times> pw_gpu_message \<times> int"

definition at_stage :: "string \<Rightarrow> gpu_client \<Rightarrow> gpu_client" where
  "at_stage name c = c\<lparr>cl_stage := name\<rparr>"

definition set_buffer :: "nat \<Rightarrow> gpu_buffer \<Rightarrow> gpu_client \<Rightarrow> gpu_client" where
  "set_buffer i b c = c\<lparr>cl_buffers := (cl_buffers c)[i := b]\<rparr>"

definition allocate_local :: "alloc_answers \<Rightarrow> gpu_client \<Rightarrow> gpu_shared \<Rightarrow> pw_gpu_message \<Rightarrow> nat \<Rightarrow> u64 \<Rightarrow> alloc_result" where
  "allocate_local al c s m i sz =
     (if kLocalOffer - cl_local c < sz then (ENOMEM, at_stage ''local_budget'' c, s, m, - 1)
      else if al_available al < kLocalFloor + sz then (ENOMEM, at_stage ''local_floor'' c, s, m, - 1)
      else case al_memory al of
             None \<Rightarrow> (ENOMEM, at_stage ''local_direct'' c, s, m, - 1)
           | Some memory \<Rightarrow>
               (let token = cl_next_token c + 1;
                    b = no_buffer\<lparr>buf_address := mem_cpu memory, buf_bytes := mem_bytes memory, buf_token := token,
                          buf_local := True, buf_memory := memory\<rparr>;
                    used = cl_local c + mem_bytes memory;
                    c' = set_buffer i b (c\<lparr>cl_next_token := token, cl_local := used,
                           cl_local_peak := max (cl_local_peak c) used\<rparr>)
                in (E_OK, at_stage ''complete'' c', s,
                    m\<lparr>gm_address := mem_cpu memory, gm_bytes := mem_bytes memory, gm_argument0 := ucast token\<rparr>, - 1)))"

text \<open>A mapped buffer in its slot, and the reply that names it.\<close>

definition settle :: "gpu_client \<Rightarrow> gpu_shared \<Rightarrow> pw_gpu_message \<Rightarrow> nat \<Rightarrow> bool \<Rightarrow> u64 \<Rightarrow> u64 \<Rightarrow> int \<Rightarrow> int \<Rightarrow> alloc_result" where
  "settle c s m i ranged at sz fd dmem =
     (let token = cl_next_token c + 1;
          b = no_buffer\<lparr>buf_address := at, buf_bytes := sz, buf_token := token, buf_fd := fd, buf_ranged := ranged,
                buf_dmem := dmem, buf_pid := cl_pid c\<rparr>
      in (E_OK, at_stage ''complete'' (set_buffer i b (c\<lparr>cl_next_token := token, cl_allocated := cl_allocated c + sz\<rparr>)), s,
          m\<lparr>gm_address := at, gm_bytes := sz, gm_argument0 := ucast token,
            gm_argument2 := (if 0 \<le> dmem then word_of_int dmem + 1 else 0)\<rparr>, fd))"

definition undo_map :: "kernel_answers \<Rightarrow> int \<Rightarrow> int \<Rightarrow> u64 \<Rightarrow> gpu_shared \<Rightarrow> gpu_shared" where
  "undo_map ke fd dmem sz s =
     (let s' = (if 0 \<le> fd then call (Close_fd fd) s else s)
      in if 0 \<le> dmem then dmem_give_back ke dmem sz s' else s')"

text \<open>The bounded search for a free address at a cursor: its stage, and the address found.\<close>

fun cursor_search :: "alloc_answers \<Rightarrow> bool \<Rightarrow> (u64 \<times> u64) \<Rightarrow> u64 \<Rightarrow> u64 \<Rightarrow> nat \<Rightarrow> u64 \<Rightarrow> gpu_shared \<Rightarrow>
    (gpu_errno + u64) \<times> string \<times> u64 \<times> gpu_shared" where
  "cursor_search al window region sz alignment left cursor s =
     (let address = align_to cursor alignment
      in if window \<and> \<not> pw_gpu_contains (fst region) (snd region) address sz then (Inl ENOMEM, ''window'', cursor, s)
         else case al_reserve al address sz of
           (err, got) \<Rightarrow>
             if err = 0 \<and> got = address then (Inr address, ''reserve'', cursor, s)
             else let s' = (if got \<noteq> 0 \<and> got \<noteq> address then call (Munmap got sz) s else s)
                  in case left of
                       0 \<Rightarrow> (Inl EADDRINUSE, ''reserve'', cursor, s')
                     | Suc n \<Rightarrow> cursor_search al window region sz alignment n
                         (address + (if push_bit 20 2 < sz then sz else push_bit 20 2)) s')"

declare cursor_search.simps [simp del]

definition put_cursor :: "bool \<Rightarrow> u64 \<Rightarrow> gpu_shared \<Rightarrow> gpu_shared" where
  "put_cursor window cursor s = (if window then s\<lparr>gs_window := cursor\<rparr> else s\<lparr>gs_high := cursor\<rparr>)"

definition free_slot :: "gpu_client \<Rightarrow> nat option" where
  "free_slot c = map_option fst (find (\<lambda>(i, b). buf_token b = 0) (enumerate 0 (cl_buffers c)))"

definition alloc_valid :: "u64 \<Rightarrow> pw_gpu_message \<Rightarrow> bool" where
  "alloc_valid host_limit m \<longleftrightarrow>
     (let loc = gm_argument2 m AND PW_GPU_ALLOC_LOCAL \<noteq> 0; al = gm_argument0 m
      in gm_bytes m \<noteq> 0 \<and> gm_bytes m \<le> (if loc then kLocalOffer else host_limit) \<and> al \<le> PW_GPU_ALIGNMENT_MAX \<and>
         (al = 0 \<or> al AND (al - 1) = 0) \<and> gm_argument1 m \<le> 1 \<and>
         gm_argument2 m AND NOT (PW_GPU_ALLOC_LOCAL OR PW_GPU_ALLOC_ZERO) = 0)"

definition in_range :: "kernel_answers \<Rightarrow> alloc_answers \<Rightarrow> gpu_client \<Rightarrow> gpu_shared \<Rightarrow> pw_gpu_message \<Rightarrow> nat \<Rightarrow> nat \<Rightarrow> u64 \<Rightarrow> u64 \<Rightarrow> alloc_result" where
  "in_range ke al c s m i r sz alignment =
     (case hr_take sz alignment (gs_ranges s ! r) of
        (address, rng) \<Rightarrow>
          if address = 0 then (ENOMEM, at_stage ''range'' c, s, m, - 1)
          else case map_host ke (al_map al) address sz (s\<lparr>gs_ranges := (gs_ranges s)[r := rng]\<rparr>) of
            (mapped, fd, dmem, s1) \<Rightarrow>
              if mapped = Some address \<and> al_grant al then settle c s1 m i True address sz fd dmem
              else let s2 = call (Reserve_over address sz) s1;
                       s3 = (if ke_reserve_over ke address sz
                             then s2\<lparr>gs_ranges := (gs_ranges s2)[r := hr_give address sz (gs_ranges s2 ! r)]\<rparr> else s2)
                   in (ENOMEM, at_stage (if mapped = Some address then ''gpu_permissions'' else ''map'') c,
                       undo_map ke fd dmem sz s3, m, - 1))"

definition at_cursor :: "kernel_answers \<Rightarrow> alloc_answers \<Rightarrow> (u64 \<times> u64) \<Rightarrow> gpu_client \<Rightarrow> gpu_shared \<Rightarrow> pw_gpu_message \<Rightarrow> nat \<Rightarrow> u64 \<Rightarrow> u64 \<Rightarrow> alloc_result" where
  "at_cursor ke al region c s m i sz alignment =
     (let window = gm_argument1 m \<noteq> 0
      in case cursor_search al window region sz alignment 63 (if window then gs_window s else gs_high s) s of
        (found, stage, cursor, s1) \<Rightarrow>
          (case found of
             Inl err \<Rightarrow> (err, at_stage stage c, put_cursor window cursor s1, m, - 1)
           | Inr address \<Rightarrow>
               (case map_host ke (al_map al) address sz (put_cursor window cursor s1) of
                  (mapped, fd, dmem, s2) \<Rightarrow>
                    if mapped = Some address \<and> al_grant al
                    then settle c (put_cursor window (address + sz) s2) m i False address sz fd dmem
                    else (ENOMEM, at_stage (if mapped = Some address then ''gpu_permissions'' else ''map'') c,
                          undo_map ke fd dmem sz (call (Munmap address sz) s2), m, - 1))))"

definition allocate :: "kernel_answers \<Rightarrow> alloc_answers \<Rightarrow> u64 \<Rightarrow> (u64 \<times> u64) \<Rightarrow> gpu_client \<Rightarrow> gpu_shared \<Rightarrow> pw_gpu_message \<Rightarrow> alloc_result" where
  "allocate ke al host_limit region c s m =
     (if \<not> alloc_valid host_limit m then (EINVAL, at_stage ''validation'' c, s, m, - 1)
      else let sz = (gm_bytes m + 16383) AND NOT 16383;
               alignment = (if 16384 < gm_argument0 m then gm_argument0 m else 16384)
           in case free_slot c of
                None \<Rightarrow> (ENOSPC, at_stage ''slot'' c, s, m, - 1)
              | Some i \<Rightarrow>
                  if gm_argument2 m AND PW_GPU_ALLOC_LOCAL \<noteq> 0 then allocate_local al c s m i sz
                  else if host_limit - cl_allocated c < sz then (ENOMEM, at_stage ''client_budget'' c, s, m, - 1)
                  else let r = (if gm_argument1 m \<noteq> 0 then 0 else 1)
                       in if hr_reserved (gs_ranges s ! r) then in_range ke al c s m i r sz alignment
                          else at_cursor ke al region c s m i sz alignment)"

section \<open>Budgets\<close>

definition held :: "(gpu_buffer \<Rightarrow> bool) \<Rightarrow> gpu_buffer list \<Rightarrow> nat" where
  "held P bs = sum_list (map (\<lambda>b. if buf_token b \<noteq> 0 \<and> P b then unat (buf_bytes b) else 0) bs)"

text \<open>The two accounts of a client are the bytes of its live buffers of each kind, within the limits.\<close>

definition client_ok :: "u64 \<Rightarrow> gpu_client \<Rightarrow> bool" where
  "client_ok host_limit c \<longleftrightarrow>
     unat (cl_allocated c) = held (\<lambda>b. \<not> buf_local b) (cl_buffers c) \<and> cl_allocated c \<le> host_limit \<and>
     unat (cl_local c) = held buf_local (cl_buffers c) \<and> cl_local c \<le> kLocalOffer"

lemma free_slot_Some: "free_slot c = Some i \<Longrightarrow> i < length (cl_buffers c) \<and> buf_token (cl_buffers c ! i) = 0"
  by (auto simp: free_slot_def find_Some_iff nth_enumerate_eq)

lemma held_set:
  assumes "i < length bs" and "buf_token (bs ! i) = 0" and "buf_token b \<noteq> 0"
  shows "held P (bs[i := b]) = held P bs + (if P b then unat (buf_bytes b) else 0)"
  using assms by (simp add: held_def map_update sum_list_update)

lemma held_clear:
  assumes "i < length bs" and "buf_token (bs ! i) \<noteq> 0"
  shows "held P bs = held P (bs[i := no_buffer]) + (if P (bs ! i) then unat (buf_bytes (bs ! i)) else 0)"
proof -
  let ?f = "\<lambda>b. if buf_token b \<noteq> 0 \<and> P b then unat (buf_bytes b) else 0"
  have "?f (bs ! i) \<le> sum_list (map ?f bs)" using elem_le_sum_list [of i "map ?f bs"] assms(1) by simp
  then show ?thesis using assms by (simp add: held_def map_update sum_list_update no_buffer_def)
qed

text \<open>Adding within a budget does not wrap.\<close>

lemma budget_add:
  assumes "used \<le> (limit :: u64)" and "\<not> limit - used < sz"
  shows "unat (used + sz) = unat used + unat sz" and "used + sz \<le> limit"
proof -
  have "unat (limit - used) = unat limit - unat used" using assms(1) by (rule unat_sub)
  then have le: "unat used + unat sz \<le> unat limit" using assms by (simp add: word_less_nat_alt word_le_nat_alt)
  then have "unat used + unat sz < 2 ^ 64" using unat_u64_bound [of limit] by linarith
  then show eq: "unat (used + sz) = unat used + unat sz" by (simp add: unat_word_ariths(1))
  show "used + sz \<le> limit" using le eq by (simp add: word_le_nat_alt)
qed

lemma settle_ok:
  assumes "client_ok hl c" and "free_slot c = Some i" and "cl_next_token c + 1 \<noteq> 0"
    and "\<not> hl - cl_allocated c < sz" and "settle c s m i ranged at sz fd dmem = (st, c', s', m', fd')"
  shows "client_ok hl c' \<and> st = E_OK \<and> s' = s \<and> gm_address m' = at \<and> gm_bytes m' = sz \<and>
      (\<exists>b \<in> set (cl_buffers c'). buf_token b = cl_next_token c' \<and> buf_token b \<noteq> 0 \<and> buf_address b = at \<and> buf_bytes b = sz)"
proof -
  note slot = free_slot_Some [OF assms(2)]
  have ok: "cl_allocated c \<le> hl" "unat (cl_allocated c) = held (\<lambda>b. \<not> buf_local b) (cl_buffers c)"
    "unat (cl_local c) = held buf_local (cl_buffers c)" "cl_local c \<le> kLocalOffer"
    using assms(1) by (simp_all add: client_ok_def)
  define b where "b = no_buffer\<lparr>buf_address := at, buf_bytes := sz, buf_token := cl_next_token c + 1, buf_fd := fd,
      buf_ranged := ranged, buf_dmem := dmem, buf_pid := cl_pid c\<rparr>"
  have c': "cl_buffers c' = (cl_buffers c)[i := b]" "cl_allocated c' = cl_allocated c + sz" "cl_local c' = cl_local c"
    "cl_next_token c' = cl_next_token c + 1" and rest: "st = E_OK" "s' = s" "gm_address m' = at" "gm_bytes m' = sz"
    using assms(5) by (auto simp: settle_def Let_def at_stage_def set_buffer_def b_def)
  have b: "buf_token b \<noteq> 0" "\<not> buf_local b" "buf_bytes b = sz" "buf_address b = at" "buf_token b = cl_next_token c + 1"
    using assms(3) by (simp_all add: b_def no_buffer_def)
  have "client_ok hl c'"
    unfolding client_ok_def c' using held_set [OF conjunct1 [OF slot] conjunct2 [OF slot] b(1)] b ok
      budget_add [OF ok(1) assms(4)] by simp
  moreover have "b \<in> set (cl_buffers c')" using c'(1) slot by (simp add: set_update_memI)
  ultimately show ?thesis using rest b c'(4) by (intro conjI bexI [of _ b]) simp_all
qed

lemma allocate_local_ok:
  assumes "client_ok hl c" and "free_slot c = Some i" and "cl_next_token c + 1 \<noteq> 0"
    and "\<And>memory. al_memory al = Some memory \<Longrightarrow> mem_bytes memory = sz"
    and "allocate_local al c s m i sz = (st, c', s', m', fd)"
  shows "client_ok hl c' \<and> s' = s \<and>
      (if st = E_OK
       then gm_bytes m' = sz \<and> (\<exists>b \<in> set (cl_buffers c'). buf_token b = cl_next_token c' \<and> buf_token b \<noteq> 0 \<and>
              buf_address b = gm_address m' \<and> buf_bytes b = sz)
       else m' = m \<and> (\<exists>stage. c' = at_stage stage c))"
proof (cases "kLocalOffer - cl_local c < sz \<or> al_available al < kLocalFloor + sz \<or> al_memory al = None")
  case True
  then have "s' = s" "m' = m" "st = ENOMEM" "\<exists>stage. c' = at_stage stage c"
    using assms(5) by (auto simp: allocate_local_def split: if_splits)
  then show ?thesis using assms(1) by (auto simp: client_ok_def at_stage_def)
next
  case False
  then obtain memory where mem: "al_memory al = Some memory" by auto
  note sz = assms(4) [OF mem] and slot = free_slot_Some [OF assms(2)]
  have ok: "cl_allocated c \<le> hl" "unat (cl_allocated c) = held (\<lambda>b. \<not> buf_local b) (cl_buffers c)"
    "unat (cl_local c) = held buf_local (cl_buffers c)" "cl_local c \<le> kLocalOffer"
    using assms(1) by (simp_all add: client_ok_def)
  define b where "b = no_buffer\<lparr>buf_address := mem_cpu memory, buf_bytes := mem_bytes memory,
      buf_token := cl_next_token c + 1, buf_local := True, buf_memory := memory\<rparr>"
  have c': "cl_buffers c' = (cl_buffers c)[i := b]" "cl_local c' = cl_local c + sz" "cl_allocated c' = cl_allocated c"
    "cl_next_token c' = cl_next_token c + 1" and rest: "st = E_OK" "s' = s" "gm_address m' = mem_cpu memory" "gm_bytes m' = sz"
    using assms(5) False mem sz by (auto simp: allocate_local_def Let_def at_stage_def set_buffer_def b_def)
  have b: "buf_token b \<noteq> 0" "buf_local b" "buf_bytes b = sz" "buf_address b = mem_cpu memory" "buf_token b = cl_next_token c + 1"
    using assms(3) sz by (simp_all add: b_def no_buffer_def)
  have "client_ok hl c'"
    unfolding client_ok_def c' using held_set [OF conjunct1 [OF slot] conjunct2 [OF slot] b(1)] b ok False
      budget_add [OF ok(4)] by simp
  moreover have "b \<in> set (cl_buffers c')" using c'(1) slot by (simp add: set_update_memI)
  ultimately show ?thesis using rest b c'(4) by auto
qed

lemma round_up_page: "unat n + 16383 < 2 ^ 64 \<Longrightarrow> n \<le> (n + 16383) AND NOT (16383 :: u64)"
proof -
  assume "unat n + 16383 < 2 ^ 64"
  then have u: "unat (n + 16383) = unat n + 16383" by (simp add: unat_word_ariths(1))
  have m: "NOT (16383 :: u64) = NOT (mask 14)" by (simp add: mask_eq_exp_minus_1)
  have "unat ((n + 16383) AND NOT 16383) = (unat n + 16383) div 2 ^ 14 * 2 ^ 14"
    unfolding m unat_and_not_mask u ..
  then show ?thesis by (simp add: word_le_nat_alt)
qed

lemma at_stage_simps [simp]:
  "client_ok hl (at_stage name c) = client_ok hl c" "cl_buffers (at_stage name c) = cl_buffers c"
  by (simp_all add: at_stage_def client_ok_def)

lemma valid_size: "alloc_valid hl m \<Longrightarrow> hl \<le> PW_GPU_HOST_LIMIT_MAX \<Longrightarrow> unat (gm_bytes m) + 16383 < 2 ^ 64"
  by (auto simp: alloc_valid_def Let_def kLocalOffer_def word_le_nat_alt split: if_splits)

text \<open>The three ways a buffer is made, behind the checks they share.\<close>

lemma in_range_ok:
  assumes "client_ok hl c" and "free_slot c = Some i" and "cl_next_token c + 1 \<noteq> 0" and "\<not> hl - cl_allocated c < sz"
    and "in_range ke al c s m i r sz alignment = (st, c', s', m', fd)"
  shows "client_ok hl c' \<and>
      (if st = E_OK
       then gm_bytes m' = sz \<and> (\<exists>b \<in> set (cl_buffers c'). buf_token b = cl_next_token c' \<and> buf_token b \<noteq> 0 \<and>
              buf_address b = gm_address m' \<and> buf_bytes b = sz)
       else m' = m \<and> (\<exists>stage. c' = at_stage stage c))"
proof -
  obtain address rng where t: "hr_take sz alignment (gs_ranges s ! r) = (address, rng)" by (cases "hr_take sz alignment (gs_ranges s ! r)")
  obtain mapped fd1 dmem s1 where mh: "map_host ke (al_map al) address sz (s\<lparr>gs_ranges := (gs_ranges s)[r := rng]\<rparr>) = (mapped, fd1, dmem, s1)"
    by (rule prod_cases4)
  show ?thesis
  proof (cases "address \<noteq> 0 \<and> mapped = Some address \<and> al_grant al")
    case True
    then have "settle c s1 m i True address sz fd1 dmem = (st, c', s', m', fd)"
      using assms(5) t mh by (simp add: in_range_def)
    from settle_ok [OF assms(1-4) this] show ?thesis by auto
  next
    case False
    then have "st = ENOMEM" "m' = m" "\<exists>stage. c' = at_stage stage c"
      using assms(5) t mh by (auto simp: in_range_def Let_def split: if_splits)
    then show ?thesis using assms(1) by auto
  qed
qed

lemma cursor_search_stages:
  "cursor_search al window region sz alignment left cursor s = (found, stage, cursor', s') \<Longrightarrow> found \<noteq> Inl E_OK"
proof (induction left arbitrary: cursor s)
  case 0
  then show ?case by (subst (asm) cursor_search.simps) (auto simp: Let_def split: if_splits prod.splits)
next
  case (Suc left)
  then show ?case by (subst (asm) cursor_search.simps) (auto simp: Let_def split: if_splits prod.splits)
qed

lemma at_cursor_ok:
  assumes "client_ok hl c" and "free_slot c = Some i" and "cl_next_token c + 1 \<noteq> 0" and "\<not> hl - cl_allocated c < sz"
    and "at_cursor ke al region c s m i sz alignment = (st, c', s', m', fd)"
  shows "client_ok hl c' \<and>
      (if st = E_OK
       then gm_bytes m' = sz \<and> (\<exists>b \<in> set (cl_buffers c'). buf_token b = cl_next_token c' \<and> buf_token b \<noteq> 0 \<and>
              buf_address b = gm_address m' \<and> buf_bytes b = sz)
       else m' = m \<and> (\<exists>stage. c' = at_stage stage c))"
proof -
  let ?w = "gm_argument1 m \<noteq> 0"
  obtain found stage cursor s1 where cs: "cursor_search al ?w region sz alignment 63 (if ?w then gs_window s else gs_high s) s = (found, stage, cursor, s1)"
    by (rule prod_cases4)
  show ?thesis
  proof (cases found)
    case (Inl err)
    then have "st = err" "m' = m" "c' = at_stage stage c" using assms(5) cs by (auto simp: at_cursor_def Let_def)
    then show ?thesis using assms(1) cursor_search_stages [OF cs] Inl by auto
  next
    case (Inr address)
    obtain mapped fd1 dmem s2 where mh: "map_host ke (al_map al) address sz (put_cursor ?w cursor s1) = (mapped, fd1, dmem, s2)"
      by (rule prod_cases4)
    show ?thesis
    proof (cases "mapped = Some address \<and> al_grant al")
      case True
      then have "settle c (put_cursor ?w (address + sz) s2) m i False address sz fd1 dmem = (st, c', s', m', fd)"
        using assms(5) cs Inr mh by (simp add: at_cursor_def Let_def)
      from settle_ok [OF assms(1-4) this] show ?thesis by auto
    next
      case False
      then have "st = ENOMEM" "m' = m" "\<exists>stage. c' = at_stage stage c"
        using assms(5) cs Inr mh by (auto simp: at_cursor_def Let_def split: if_splits)
      then show ?thesis using assms(1) by auto
    qed
  qed
qed

lemma allocate_kept:
  assumes "client_ok host_limit c" and "host_limit \<le> PW_GPU_HOST_LIMIT_MAX" and "cl_next_token c + 1 \<noteq> 0"
    and "\<And>memory. al_memory al = Some memory \<Longrightarrow> mem_bytes memory = (gm_bytes m + 16383) AND NOT 16383"
    and "allocate ke al host_limit region c s m = (st, c', s', m', fd)"
  shows "client_ok host_limit c' \<and>
      (if st = E_OK
       then gm_bytes m \<le> gm_bytes m' \<and>
            (\<exists>b \<in> set (cl_buffers c'). buf_token b = cl_next_token c' \<and> buf_token b \<noteq> 0 \<and>
              buf_address b = gm_address m' \<and> buf_bytes b = gm_bytes m')
       else m' = m \<and> (\<exists>stage. c' = at_stage stage c))"
proof -
  let ?sz = "(gm_bytes m + 16383) AND NOT 16383"
  consider (early) "st \<noteq> E_OK" "m' = m" "\<exists>stage. c' = at_stage stage c"
    | (loc) i where "alloc_valid host_limit m" "free_slot c = Some i" "allocate_local al c s m i ?sz = (st, c', s', m', fd)"
    | (rng) i r a where "alloc_valid host_limit m" "free_slot c = Some i" "\<not> host_limit - cl_allocated c < ?sz"
        "in_range ke al c s m i r ?sz a = (st, c', s', m', fd)"
    | (cursor) i a where "alloc_valid host_limit m" "free_slot c = Some i" "\<not> host_limit - cl_allocated c < ?sz"
        "at_cursor ke al region c s m i ?sz a = (st, c', s', m', fd)"
    using assms(5) unfolding allocate_def Let_def by (auto split: if_splits option.splits)
  then show ?thesis
  proof cases
    case early
    then show ?thesis using assms(1) by auto
  next
    case loc
    then have sz: "gm_bytes m \<le> ?sz" using round_up_page valid_size [OF loc(1) assms(2)] by simp
    show ?thesis using allocate_local_ok [OF assms(1) loc(2) assms(3,4) loc(3)] sz by auto
  next
    case rng
    then have sz: "gm_bytes m \<le> ?sz" using round_up_page valid_size [OF rng(1) assms(2)] by simp
    show ?thesis using in_range_ok [OF assms(1) rng(2) assms(3) rng(3,4)] sz by auto
  next
    case cursor
    then have sz: "gm_bytes m \<le> ?sz" using round_up_page valid_size [OF cursor(1) assms(2)] by simp
    show ?thesis using at_cursor_ok [OF assms(1) cursor(2) assms(3) cursor(3,4)] sz by auto
  qed
qed


definition no_sharing :: map_answers where
  "no_sharing = \<lparr>ma_dmem = None, ma_direct = False,
     ma_shared = \<lparr>sa_maker = None, sa_gone = (\<lambda>_. False), sa_anon = - 1, sa_truncate_failed = False\<rparr>, ma_mapped = None\<rparr>"

definition sample_request :: pw_gpu_message where
  "sample_request = \<lparr>gm_magic = PW_GPU_MAGIC, gm_operation = 2, gm_sequence = 1, gm_status = 0, gm_address = 0,
     gm_bytes = 100000, gm_argument0 = 0, gm_argument1 = 0, gm_argument2 = 1, gm_argument3 = 0\<rparr>"

definition sample_memory :: alloc_answers where
  "sample_memory = \<lparr>al_available = 0x200000000,
     al_memory = Some \<lparr>mem_cpu = 0x4000000000, mem_bytes = 114688, mem_physical = 0\<rparr>,
     al_map = no_sharing, al_grant = True, al_reserve = (\<lambda>_ _. (1, 0))\<rparr>"

definition quiet_kernel :: kernel_answers where
  "quiet_kernel = \<lparr>ke_reserve_over = (\<lambda>_ _. True), ke_dmem_release = None\<rparr>"

lemma client_new_facts:
  "client_ok PW_GPU_LIMIT client_new" "free_slot client_new = Some 0" "cl_next_token client_new + 1 \<noteq> 0"
proof -
  have "held P (replicate n no_buffer) = 0" for P n by (induction n) (simp_all add: held_def no_buffer_def)
  then show "client_ok PW_GPU_LIMIT client_new" by (simp add: client_ok_def client_new_def kLocalOffer_def)
  have b: "cl_buffers client_new = no_buffer # replicate 1023 no_buffer"
    using replicate_Suc [of 1023 no_buffer] by (simp add: client_new_def kClientBuffers_def)
  show "free_slot client_new = Some 0"
    unfolding free_slot_def b by (simp add: no_buffer_def)
  show "cl_next_token client_new + 1 \<noteq> 0" by (simp add: client_new_def)
qed


section \<open>A failed allocation gives its range back\<close>

lemma map_host_ranges:
  "map_host ke ma at sz s = (mapped, fd, dmem, s') \<Longrightarrow> gs_ranges s' = gs_ranges s"
  by (auto simp: map_host_def shared_object_def Let_def split: option.splits prod.splits if_splits)

lemma undo_map_ranges [simp]: "gs_ranges (undo_map ke fd dmem sz s) = gs_ranges s"
  by (simp add: undo_map_def Let_def)

text \<open>When a taken range cannot be mapped or granted to the GPU, and a reservation can be laid over it
  again, the allocation fails with the free list of every range exactly as it was.\<close>

lemma in_range_undone:
  assumes "host_range_ok (gs_ranges s ! r)" and "r < length (gs_ranges s)" and "0 < unat sz" and "k < 63"
    and "ke_reserve_over ke = (\<lambda>_ _. True)"
    and "in_range ke al c s m i r sz (2 ^ k) = (st, c', s', m', fd)" and "st \<noteq> E_OK"
  shows "st = ENOMEM \<and> map hr_free (gs_ranges s') = map hr_free (gs_ranges s)"
proof -
  obtain address rng where t: "hr_take sz (2 ^ k) (gs_ranges s ! r) = (address, rng)" by (cases "hr_take sz (2 ^ k) (gs_ranges s ! r)")
  obtain mapped fd1 dmem s1 where mh: "map_host ke (al_map al) address sz (s\<lparr>gs_ranges := (gs_ranges s)[r := rng]\<rparr>) = (mapped, fd1, dmem, s1)"
    by (rule prod_cases4)
  show ?thesis
  proof (cases "address = 0")
    case True
    then show ?thesis using assms(6) t by (auto simp: in_range_def)
  next
    case False
    have r1: "gs_ranges s1 = (gs_ranges s)[r := rng]" using map_host_ranges [OF mh] by simp
    have "\<not> (mapped = Some address \<and> al_grant al)"
      using assms(6,7) False t mh by (auto simp: in_range_def settle_def Let_def)
    then have "st = ENOMEM" "gs_ranges s' = (gs_ranges s)[r := hr_give address sz rng]"
      using assms(2,5,6) False t mh r1 by (auto simp: in_range_def Let_def)
    moreover have "hr_free (hr_give address sz rng) = hr_free (gs_ranges s ! r)"
      by (rule hr_take_give_free [OF assms(1,3,4) t False])
    ultimately show ?thesis using assms(2) by (simp add: map_update) (metis list_update_id map_update nth_map)
  qed
qed

definition sample_ranges :: gpu_shared where
  "sample_ranges = gpu_shared_new\<lparr>gs_ranges := host_ranges_reserve [True, True] host_ranges\<rparr>"

end
