(* ===== verification/Gpu_Submit.thy ===== *)
theory Gpu_Submit
  imports Gpu_Client
begin

text \<open>
  \<open>free_buffer\<close>, \<open>fences_ready\<close>, \<open>fences_reset\<close>, \<open>broker_submit\<close>, \<open>kick\<close> and \<open>submit\<close> of
  \<open>tooling/gpu-broker/server.cpp\<close>: a client's command words are copied into staging with the
  packets around them, handed to the GPU under the next fence value, and a buffer it lets go of is
  released once nothing in flight can use it. The timestamp packets belong to a header that is not
  part of the repository: they are functions of the slot's address.
\<close>

section \<open>Letting go of a buffer\<close>

text \<open>\<open>now\<close>, and the fence values a drain sees if one is needed.\<close>

record fence_looks =
  fl_now :: u32
  fl_drain_now :: u32
  fl_drain_later :: "u32 list"

definition free_buffer :: "kernel_answers \<Rightarrow> fence_looks \<Rightarrow> nat \<Rightarrow> gpu_client \<Rightarrow> gpu_shared \<Rightarrow> (gpu_client \<times> gpu_shared) option" where
  "free_buffer ke fl i c s =
     (let b = cl_buffers c ! i;
          c1 = (if buf_local b then c\<lparr>cl_local := cl_local c - buf_bytes b\<rparr> else c\<lparr>cl_allocated := cl_allocated c - buf_bytes b\<rparr>);
          c2 = set_buffer i no_buffer c1
      in if gs_wedged s then Some (c2, s)
         else let s1 = reap ke (fl_now fl) s
              in if fe_count (gs_fences s1) = 0 then Some (c2, release ke b s1)
                 else let full = (length (fe_deferred (gs_fences s1)) = kDeferred);
                          (drained, s2) = (if full then drain ke (fl_drain_now fl) (fl_drain_later fl) s1 else (True, s1))
                      in if full \<and> \<not> drained then map_option (\<lambda>s3. (c2, s3)) (give_up s2)
                         else if fe_count (gs_fences s2) = 0 then Some (c2, release ke b s2)
                         else Some (c2, put_fences (\<lambda>f. f\<lparr>fe_deferred := fe_deferred f @ [\<lparr>def_buffer = b, def_seq = fe_issued f\<rparr>]\<rparr>) s2))"

section \<open>The fence page\<close>

text \<open>The page the platform gives, with the counter's value written into it; the timestamps' page is optional.\<close>

definition fences_ready :: "radv_memory option \<Rightarrow> (bool \<times> radv_memory option) \<Rightarrow> gpu_shared \<Rightarrow> bool \<times> gpu_shared" where
  "fences_ready page stamps s =
     (if mem_cpu (fe_page (gs_fences s)) \<noteq> 0 then (True, s)
      else case page of
             None \<Rightarrow> (False, s)
           | Some p \<Rightarrow>
               (True, put_fences (\<lambda>f. f\<lparr>fe_page := p,
                  fe_stamps := (if fst stamps then (case snd stamps of Some q \<Rightarrow> q | None \<Rightarrow> no_memory) else fe_stamps f)\<rparr>) s))"

definition fences_reset :: "gpu_shared \<Rightarrow> gpu_shared" where
  "fences_reset s =
     (let s1 = fold staging_free (rev (sp_spare (fe_staging (gs_fences s)))) s;
          page = fe_page (gs_fences s); stamps = fe_stamps (gs_fences s);
          s2 = put_fences (\<lambda>_. fences_new) s1;
          s3 = (if mem_cpu page \<noteq> 0 then call (Memory_free page) s2 else s2)
      in if mem_cpu stamps \<noteq> 0 then call (Memory_free stamps) s3 else s3)"

section \<open>Submission\<close>

definition next_seq :: "u32 \<Rightarrow> u32" where
  "next_seq issued = (if issued + 1 = 0 then issued + 2 else issued + 1)"

text \<open>The driver's answer to the command buffer, and what the broker thread does once its replies are out.\<close>

definition broker_submit :: "int \<Rightarrow> u64 \<Rightarrow> u32 list \<Rightarrow> gpu_shared \<Rightarrow> int \<times> gpu_shared" where
  "broker_submit status at ws s =
     (let s' = call (Submit_dcb (at, ws)) s
      in (status, if status = 0 then put_fences (\<lambda>f. f\<lparr>fe_kick := True\<rparr>) s' else s'))"

definition kick :: "gpu_shared \<Rightarrow> gpu_shared" where
  "kick s = (if fe_kick (gs_fences s)
     then put_fences (\<lambda>f. f\<lparr>fe_kicks := fe_kicks f + 1, fe_kick := False\<rparr>) (call Suspend_point s) else s)"

record submit_answers =
  su_page :: "radv_memory option"
  su_stamps :: "bool \<times> radv_memory option"
  su_now :: u32
  su_full :: fence_looks
  su_state :: fence_looks
  su_staging :: "u64 \<Rightarrow> radv_memory option"
  su_tess :: int
  su_offchip :: int
  su_refused :: bool
  su_dcb :: int

record stamp_code =
  ts_slot_bytes :: u64
  ts_start :: "u64 \<Rightarrow> u32 list"
  ts_end :: "u64 \<Rightarrow> u32 list"

definition submit_valid :: "gpu_client \<Rightarrow> pw_gpu_message \<Rightarrow> bool" where
  "submit_valid c m \<longleftrightarrow>
     gm_bytes m \<noteq> 0 \<and> gm_bytes m mod 4 = 0 \<and> gm_bytes m \<le> 16 * 1024 * 1024 \<and> gm_address m mod 4 = 0 \<and>
     owned c (gm_address m) (gm_bytes m) \<and>
     gm_argument0 m \<noteq> 0 \<and> gm_argument0 m mod 4 = 0 \<and> owned c (gm_argument0 m) 4"

definition stage_packets :: "stamp_code \<Rightarrow> fence_state \<Rightarrow> u32 list \<times> u32 list" where
  "stage_packets ts f =
     (let slot = (fe_head f + fe_count f) mod kRing; at = mem_cpu (fe_stamps f) + of_nat slot * ts_slot_bytes ts
      in if mem_cpu (fe_stamps f) \<noteq> 0 then (ts_start ts at, ts_end ts (at + 8)) else ([], []))"

definition tess_changes :: "gpu_client \<Rightarrow> fence_state \<Rightarrow> bool" where
  "tess_changes c f \<longleftrightarrow> cl_tess c \<noteq> 0 \<and> (cl_tess c \<noteq> fe_tess f \<or> cl_tess_bytes c \<noteq> fe_tess_bytes f)"

definition offchip_changes :: "gpu_client \<Rightarrow> fence_state \<Rightarrow> bool" where
  "offchip_changes c f \<longleftrightarrow>
     cl_offchip c \<and> (\<not> fe_offchip f \<or> cl_granularity c \<noteq> fe_granularity f \<or> cl_buffering c \<noteq> fe_buffering f)"

text \<open>A spare of the size class, or one made for it.\<close>

definition get_staging :: "(u64 \<Rightarrow> radv_memory option) \<Rightarrow> u64 \<Rightarrow> gpu_shared \<Rightarrow> (radv_memory option \<times> gpu_shared) option" where
  "get_staging made need s =
     (case ps5_gpu_staging_take (fe_staging (gs_fences s)) need of
        None \<Rightarrow> None
      | Some (pool, Some m) \<Rightarrow>
          Some (Some m, (put_fences (\<lambda>f. f\<lparr>fe_staging := pool\<rparr>) s)\<lparr>gs_staging_reuses := gs_staging_reuses s + 1\<rparr>)
      | Some (pool, None) \<Rightarrow>
          (case ps5_gpu_staging_round need of
             None \<Rightarrow> None
           | Some sz \<Rightarrow> (case made sz of
             None \<Rightarrow> Some (None, s)
           | Some m \<Rightarrow>
               Some (Some m, s\<lparr>gs_staging_allocs := gs_staging_allocs s + 1, gs_staging_held := gs_staging_held s + mem_bytes m,
                 gs_staging_peak := max (gs_staging_peak s) (gs_staging_held s + mem_bytes m)\<rparr>))))"

text \<open>The shared GPU state, set when the client's differs: the status of the first call that fails.\<close>

definition set_shared_state :: "submit_answers \<Rightarrow> bool \<Rightarrow> bool \<Rightarrow> gpu_client \<Rightarrow> gpu_shared \<Rightarrow> int \<times> gpu_shared" where
  "set_shared_state su tess offchip c s =
     (let status1 = (if tess then su_tess su else 0);
          s1 = (if tess \<and> status1 = 0 then put_fences (\<lambda>f. f\<lparr>fe_tess := cl_tess c, fe_tess_bytes := cl_tess_bytes c\<rparr>) s else s);
          status2 = (if status1 = 0 \<and> offchip then su_offchip su else status1)
      in (status2, if status1 = 0 \<and> offchip \<and> status2 = 0
            then put_fences (\<lambda>f. f\<lparr>fe_offchip := True, fe_granularity := cl_granularity c, fe_buffering := cl_buffering c\<rparr>) s1
            else s1))"

text \<open>\<open>words\<close>: the client's command words at \<open>m.address\<close>; \<open>slot\<close>: the client's own.\<close>

definition launch :: "stamp_code \<Rightarrow> submit_answers \<Rightarrow> u32 list \<Rightarrow> nat \<Rightarrow> bool \<Rightarrow> bool \<Rightarrow> radv_memory \<Rightarrow> gpu_client \<Rightarrow> gpu_shared \<Rightarrow>
    (gpu_errno \<times> gpu_client \<times> gpu_shared) option" where
  "launch ts su ws slot tess offchip staging c s =
     (let f = gs_fences s; seq = next_seq (fe_issued f); (before, after) = stage_packets ts f;
          stream = before @ ws @ after @ ps5_gpu_completion_packet (mem_cpu (fe_page f)) seq;
          (status, s1) = set_shared_state su tess offchip c (put_fences (\<lambda>f. f\<lparr>fe_issued := seq\<rparr>) s)
      in if status \<noteq> 0 then Some (EOTHER status, c, keep_staging staging s1)
         else let (sent, s2) = (if su_refused su then (1, s1) else broker_submit (su_dcb su) (mem_cpu staging) stream s1)
              in if sent \<noteq> 0 then map_option (\<lambda>s3. (EIO, c, s3)) (give_up s2)
                 else Some (E_OK, c\<lparr>cl_submissions := cl_submissions c + 1\<rparr>,
                        put_fences (ring_push \<lparr>inf_seq = seq, inf_staging = staging, inf_client = Some slot\<rparr>) s2))"

definition submit :: "kernel_answers \<Rightarrow> stamp_code \<Rightarrow> submit_answers \<Rightarrow> u32 list \<Rightarrow> nat \<Rightarrow> gpu_client \<Rightarrow> gpu_shared \<Rightarrow> pw_gpu_message \<Rightarrow>
    (gpu_errno \<times> gpu_client \<times> gpu_shared) option" where
  "submit ke ts su ws slot c s m =
     (if \<not> submit_valid c m then Some (EINVAL, c, s)
      else if gs_wedged s then Some (EIO, c, s)
      else case fences_ready (su_page su) (su_stamps su) s of
        (False, s0) \<Rightarrow> Some (ENOMEM, c, s0)
      | (True, s0) \<Rightarrow>
          (let s1 = reap ke (su_now su) s0;
               full = (fe_count (gs_fences s1) = kRing);
               (room, s2) = (if full then drain ke (fl_drain_now (su_full su)) (fl_drain_later (su_full su)) s1 else (True, s1))
           in if full \<and> \<not> room then map_option (\<lambda>s3. (EIO, c, s3)) (give_up s2)
              else let tess = tess_changes c (gs_fences s2); offchip = offchip_changes c (gs_fences s2);
                       s3 = (if tess \<or> offchip then put_fences (\<lambda>f. f\<lparr>fe_state_drains := fe_state_drains f + 1\<rparr>) s2 else s2);
                       (still, s4) = (if tess \<or> offchip
                          then drain ke (fl_drain_now (su_state su)) (fl_drain_later (su_state su)) s3 else (True, s3))
                   in if \<not> still then map_option (\<lambda>s5. (EIO, c, s5)) (give_up s4)
                      else let (before, after) = stage_packets ts (gs_fences s4);
                               need = of_nat (4 * length before) + gm_bytes m + of_nat (4 * length after) + 32
                           in case get_staging (su_staging su) need s4 of
                                None \<Rightarrow> None
                              | Some (None, s5) \<Rightarrow> Some (ENOMEM, c, s5)
                              | Some (Some staging, s5) \<Rightarrow> launch ts su ws slot tess offchip staging c s5))"

section \<open>The order of what is in flight is kept\<close>

text \<open>The newest submission carries the last value issued, unless the GPU is in doubt.\<close>

lemma last_issued:
  assumes "flight_ok s" and "\<not> gs_wedged s" and "ring_items (gs_fences s) \<noteq> []"
  shows "inf_seq (last (ring_items (gs_fences s))) = fe_issued (gs_fences s)"
proof -
  let ?f = "gs_fences s" let ?n = "length (ages ?f)"
  have n: "0 < ?n" using assms(3) by (simp add: ages_def)
  have "\<forall>i < ?n. ages ?f ! i \<le> 2 * (?n - 1 - i)" using assms(1,2) by (simp add: flight_ok_def Let_def)
  then have "ages ?f ! (?n - 1) \<le> 0" using n by (metis diff_less diff_self_eq_0 less_one mult_0_right)
  moreover have "ages ?f ! (?n - 1) = age (fe_issued ?f) (inf_seq (last (ring_items ?f)))"
    using assms(3) by (simp add: ages_def last_conv_nth)
  ultimately show ?thesis by (simp add: age_def unat_eq_zero)
qed

lemma flight_defer:
  assumes "flight_ok s" and "\<not> gs_wedged s" and "fe_count (gs_fences s) \<noteq> 0"
  shows "flight_ok (put_fences (\<lambda>f. f\<lparr>fe_deferred := fe_deferred f @ [\<lparr>def_buffer = b, def_seq = fe_issued f\<rparr>]\<rparr>) s)"
proof -
  let ?f = "gs_fences s"
  have ne: "ring_items ?f \<noteq> []" using assms(3) by (simp add: ring_items_def)
  have "fe_issued ?f \<in> inf_seq ` set (ring_items ?f)"
    using last_issued [OF assms(1,2) ne] last_in_set [OF ne] by (metis imageI)
  moreover have "ring_items (?f\<lparr>fe_deferred := x\<rparr>) = ring_items ?f" "ring_ok (?f\<lparr>fe_deferred := x\<rparr>) = ring_ok ?f"
    "ages (?f\<lparr>fe_deferred := x\<rparr>) = ages ?f" for x by (simp_all add: ring_items_def ring_ok_def ages_def)
  ultimately show ?thesis using assms(1) by (auto simp: flight_ok_def Let_def)
qed

lemma age_shift:
  assumes "age issued seq + unat d < 2 ^ 32"
  shows "age (issued + d) seq = age issued seq + unat d"
proof -
  have "issued + d - seq = (issued - seq) + d" by simp
  moreover have "unat ((issued - seq) + d) = unat (issued - seq) + unat d"
    using assms unat_add_lem [of "issued - seq" d] by (simp add: age_def)
  ultimately show ?thesis by (simp only: age_def)
qed

lemma next_seq_step: "\<exists>d. next_seq issued = issued + d \<and> 1 \<le> unat d \<and> unat d \<le> 2"
proof (cases "issued + 1 = 0")
  case True
  then have "next_seq issued = issued + 2" by (simp add: next_seq_def)
  then show ?thesis by (intro exI [of _ 2]) simp
next
  case False
  then have "next_seq issued = issued + 1" by (simp add: next_seq_def)
  then show ?thesis by (intro exI [of _ 1]) simp
qed

lemma next_seq_nonzero: "next_seq issued \<noteq> 0"
proof (cases "issued + 1 = 0")
  case True
  then have "issued = - 1" by (simp add: eq_neg_iff_add_eq_0)
  then show ?thesis by (simp add: next_seq_def)
qed (simp add: next_seq_def)

text \<open>Issuing a value: every age grows by one or two.\<close>

lemma flight_issue:
  assumes "flight_ok s" and "\<not> gs_wedged s"
  defines "f \<equiv> gs_fences s"
  shows "sorted_wrt (>) (map (age (next_seq (fe_issued f)) \<circ> inf_seq) (ring_items f))"
    and "\<forall>i < length (ring_items f). age (next_seq (fe_issued f)) (inf_seq (ring_items f ! i)) \<le> 2 * (length (ring_items f) - i)"
    and "\<forall>e \<in> set (ring_items f). 0 < age (next_seq (fe_issued f)) (inf_seq e)"
proof -
  have small: "age (fe_issued f) (inf_seq e) + 2 < 2 ^ 32" if "e \<in> set (ring_items f)" for e
    using flight_ages [OF assms(1) that [unfolded f_def]] by (simp add: f_def)
  obtain d where nx: "next_seq (fe_issued f) = fe_issued f + d" and d12: "1 \<le> unat d" "unat d \<le> 2" using next_seq_step by blast
  have d: "age (next_seq (fe_issued f)) (inf_seq e) = age (fe_issued f) (inf_seq e) + unat d"
    if "e \<in> set (ring_items f)" for e
    unfolding nx using small [OF that] d12 by (intro age_shift) simp
  have sorted: "sorted_wrt (>) (ages f)" "\<forall>i < length (ages f). ages f ! i \<le> 2 * (length (ages f) - 1 - i)"
    using assms(1,2) by (simp_all add: flight_ok_def Let_def f_def)
  show "sorted_wrt (>) (map (age (next_seq (fe_issued f)) \<circ> inf_seq) (ring_items f))"
    using sorted(1) d by (simp add: ages_def sorted_wrt_iff_nth_less)
  show "\<forall>i < length (ring_items f). age (next_seq (fe_issued f)) (inf_seq (ring_items f ! i)) \<le> 2 * (length (ring_items f) - i)"
  proof (intro allI impI)
    fix i assume i: "i < length (ring_items f)"
    then have "age (fe_issued f) (inf_seq (ring_items f ! i)) \<le> 2 * (length (ring_items f) - 1 - i)"
      using sorted(2) by (simp add: ages_def)
    then show "age (next_seq (fe_issued f)) (inf_seq (ring_items f ! i)) \<le> 2 * (length (ring_items f) - i)"
      using d [OF nth_mem [OF i]] d12 i by linarith
  qed
  show "\<forall>e \<in> set (ring_items f). 0 < age (next_seq (fe_issued f)) (inf_seq e)" using d d12 by simp
qed

text \<open>One more submission in the ring, under the value issued for it.\<close>

lemma flight_push:
  assumes "flight_ok s" and "\<not> gs_wedged s" and "fe_count (gs_fences s) < kRing"
    and "ring_items f' = ring_items (gs_fences s)" and "ring_ok f'" and "fe_deferred f' = fe_deferred (gs_fences s)"
    and "fe_issued f' = next_seq (fe_issued (gs_fences s))" and "gs_fences s' = ring_push e f'" and "inf_seq e = fe_issued f'"
    and "\<not> gs_wedged s'"
  shows "flight_ok s' \<and> ring_items (gs_fences s') = ring_items (gs_fences s) @ [e]"
proof -
  let ?f = "gs_fences s" let ?n = "length (ring_items ?f)"
  have "?n < kRing" using assms(3) by (simp add: ring_items_def)
  then have p: "ring_ok (gs_fences s')" "ring_items (gs_fences s') = ring_items ?f @ [e]"
    using ring_push_law [OF assms(5), of e] assms(4,8) by simp_all
  have iss: "fe_issued (gs_fences s') = next_seq (fe_issued ?f)" "fe_deferred (gs_fences s') = fe_deferred ?f"
    using assms(6,7,8) by (simp_all add: ring_push_def)
  have ag: "ages (gs_fences s') = map (age (next_seq (fe_issued ?f)) \<circ> inf_seq) (ring_items ?f) @ [0]"
    using p(2) iss(1) assms(7,9) by (simp add: ages_def age_def)
  note iss3 = flight_issue [OF assms(1,2)]
  have "sorted_wrt (>) (ages (gs_fences s'))" unfolding ag using iss3(1,3) by (auto simp: sorted_wrt_append)
  moreover have "\<forall>i < length (ages (gs_fences s')). ages (gs_fences s') ! i \<le> 2 * (length (ages (gs_fences s')) - 1 - i)"
    unfolding ag using iss3(2) by (auto simp: nth_append less_Suc_eq)
  moreover have "\<forall>d \<in> set (fe_deferred (gs_fences s')). def_seq d \<in> inf_seq ` set (ring_items (gs_fences s'))"
    using assms(1) unfolding iss p(2) flight_ok_def Let_def by auto
  ultimately show ?thesis using p assms(10) unfolding flight_ok_def Let_def by simp
qed

lemma flight_wedge:
  assumes "flight_ok s" and "\<not> gs_wedged s" and "gs_wedged s'" and "ring_items (gs_fences s') = ring_items (gs_fences s)"
    and "ring_ok (gs_fences s')" and "fe_deferred (gs_fences s') = fe_deferred (gs_fences s)"
    and "fe_issued (gs_fences s') = fe_issued (gs_fences s) \<or> fe_issued (gs_fences s') = next_seq (fe_issued (gs_fences s))"
  shows "flight_ok s'"
proof -
  let ?f = "gs_fences s" and ?f' = "gs_fences s'"
  have d: "\<forall>d \<in> set (fe_deferred ?f'). def_seq d \<in> inf_seq ` set (ring_items ?f')"
    using assms(1) unfolding assms(4,6) flight_ok_def Let_def by auto
  from assms(7) show ?thesis
  proof
    assume "fe_issued ?f' = fe_issued ?f"
    then have "ages ?f' = ages ?f" using assms(4) by (simp add: ages_def)
    then show ?thesis using assms(1-3,5) d unfolding flight_ok_def Let_def by auto
  next
    assume i: "fe_issued ?f' = next_seq (fe_issued ?f)"
    have ag: "ages ?f' = map (age (next_seq (fe_issued ?f)) \<circ> inf_seq) (ring_items ?f)" using i assms(4) by (simp add: ages_def)
    note iss = flight_issue [OF assms(1,2)]
    have "\<forall>j < length (ages ?f'). ages ?f' ! j \<le> 2 * (length (ages ?f') - 1 - j) + 2"
      unfolding ag using iss(2) by fastforce
    then show ?thesis using iss(1) ag assms(3,5) d unfolding flight_ok_def Let_def by simp
  qed
qed

lemma flight_empty:
  assumes "ring_ok (gs_fences s)" and "fe_count (gs_fences s) = 0" and "fe_deferred (gs_fences s) = []"
  shows "flight_ok s"
  using assms by (simp add: flight_ok_def Let_def ages_def ring_items_def)

section \<open>Freeing\<close>

definition looks_recent :: "gpu_shared \<Rightarrow> fence_looks \<Rightarrow> bool" where
  "looks_recent s fl \<longleftrightarrow> recent s (fl_now fl) \<and> (\<forall>v \<in> set (fl_drain_now fl # fl_drain_later fl). recent s v)"

lemma free_buffer_kept:
  assumes "client_ok hl c" and "i < length (cl_buffers c)" and "buf_token (cl_buffers c ! i) \<noteq> 0"
    and "flight_ok s" and "looks_recent s fl" and "free_buffer ke fl i c s = Some (c', s')"
  shows "client_ok hl c' \<and> cl_buffers c' = (cl_buffers c)[i := no_buffer] \<and> flight_ok s' \<and>
    (if gs_wedged s then s' = s
     else gs_wedged s' \<or>
       (\<exists>s0. s' = release ke (cl_buffers c ! i) s0 \<and> fe_count (gs_fences s0) = 0) \<or>
       fe_deferred (gs_fences s') \<noteq> [] \<and> last (fe_deferred (gs_fences s')) = \<lparr>def_buffer = cl_buffers c ! i, def_seq = fe_issued (gs_fences s')\<rparr>)"
proof -
  let ?b = "cl_buffers c ! i"
  let ?c1 = "if buf_local ?b then c\<lparr>cl_local := cl_local c - buf_bytes ?b\<rparr> else c\<lparr>cl_allocated := cl_allocated c - buf_bytes ?b\<rparr>"
  let ?c2 = "set_buffer i no_buffer ?c1"
  note hc = held_clear [OF assms(2,3)]
  have ok: "unat (cl_allocated c) = held (\<lambda>b. \<not> buf_local b) (cl_buffers c)" "cl_allocated c \<le> hl"
    "unat (cl_local c) = held buf_local (cl_buffers c)" "cl_local c \<le> kLocalOffer" using assms(1) by (simp_all add: client_ok_def)
  have sub: "unat (x - buf_bytes ?b) = unat x - unat (buf_bytes ?b) \<and> x - buf_bytes ?b \<le> x"
    if "unat (buf_bytes ?b) \<le> unat x" for x :: u64 using that by (simp add: unat_sub word_le_nat_alt)
  have cok: "client_ok hl ?c2"
  proof (cases "buf_local ?b")
    case True
    then show ?thesis using ok hc [of buf_local] hc [of "\<lambda>b. \<not> buf_local b"] sub [of "cl_local c"]
      by (simp add: client_ok_def set_buffer_def) (meson order_trans)
  next
    case False
    then show ?thesis using ok hc [of buf_local] hc [of "\<lambda>b. \<not> buf_local b"] sub [of "cl_allocated c"]
      by (simp add: client_ok_def set_buffer_def) (meson order_trans)
  qed
  have bufs: "cl_buffers ?c2 = (cl_buffers c)[i := no_buffer]" by (simp add: set_buffer_def)
  let ?s1 = "reap ke (fl_now fl) s"
  have r1: "flight_ok ?s1" "fe_issued (gs_fences ?s1) = fe_issued (gs_fences s)" "gs_wedged ?s1 = gs_wedged s"
    using reap_kept [OF assms(4)] assms(5) by (simp_all add: looks_recent_def)
  have rel: "flight_ok (release ke ?b s0) = flight_ok s0" for s0 by (simp add: flight_ok_def Let_def)
  show ?thesis
  proof (cases "gs_wedged s")
    case True
    then show ?thesis using assms(4,6) cok bufs by (auto simp: free_buffer_def Let_def)
  next
    case False
    let ?full = "length (fe_deferred (gs_fences ?s1)) = kDeferred"
    obtain drained s2 where d: "(if ?full then drain ke (fl_drain_now fl) (fl_drain_later fl) ?s1 else (True, ?s1)) = (drained, s2)"
      by (cases "if ?full then drain ke (fl_drain_now fl) (fl_drain_later fl) ?s1 else (True, ?s1)")
    have s2: "flight_ok s2" "gs_wedged s2 = gs_wedged s"
      using d r1 drain_kept [OF r1(1), of "fl_drain_now fl" "fl_drain_later fl" ke drained s2] assms(5)
      by (auto simp: looks_recent_def recent_def split: if_splits)
    consider (now) "fe_count (gs_fences ?s1) = 0" "c' = ?c2" "s' = release ke ?b ?s1"
      | (stuck) "give_up s2 = Some s'" "c' = ?c2"
      | (drained) "c' = ?c2" "s' = release ke ?b s2" "fe_count (gs_fences s2) = 0"
      | (later) "c' = ?c2" "fe_count (gs_fences s2) \<noteq> 0"
          "s' = put_fences (\<lambda>f. f\<lparr>fe_deferred := fe_deferred f @ [\<lparr>def_buffer = ?b, def_seq = fe_issued f\<rparr>]\<rparr>) s2"
      using assms(6) False d unfolding free_buffer_def Let_def by (auto split: if_splits)
    then show ?thesis
    proof cases
      case now
      then show ?thesis using False r1 rel cok bufs by auto
    next
      case stuck
      then have s': "s' = s2\<lparr>gs_wedged := True\<rparr>" by (simp add: give_up_def split: if_splits)
      then have "flight_ok s'" using s2 False by (intro flight_wedge [OF s2(1)]) (auto simp: flight_ok_def Let_def)
      then show ?thesis using stuck False s' cok bufs by simp
    next
      case drained
      then show ?thesis using False s2 rel cok bufs by auto
    next
      case later
      then have "flight_ok s'" using flight_defer [OF s2(1)] s2(2) False by simp
      then show ?thesis using later False cok bufs by simp
    qed
  qed
qed


section \<open>Submitting\<close>

text \<open>What the steps before the launch leave of the ring, the counter and the page.\<close>

definition same_flight :: "gpu_shared \<Rightarrow> gpu_shared \<Rightarrow> bool" where
  "same_flight s s' \<longleftrightarrow>
     ring_items (gs_fences s') = ring_items (gs_fences s) \<and> ring_ok (gs_fences s') = ring_ok (gs_fences s) \<and>
     fe_count (gs_fences s') = fe_count (gs_fences s) \<and> fe_deferred (gs_fences s') = fe_deferred (gs_fences s) \<and>
     fe_page (gs_fences s') = fe_page (gs_fences s) \<and> gs_wedged s' = gs_wedged s \<and> gs_calls s' = gs_calls s"

lemma same_flight_ok: "same_flight s s' \<Longrightarrow> fe_issued (gs_fences s') = fe_issued (gs_fences s) \<Longrightarrow> flight_ok s' = flight_ok s"
  by (simp add: same_flight_def flight_ok_def Let_def ages_def)

lemma get_staging_same:
  "get_staging made need s = Some (m, s') \<Longrightarrow> same_flight s s' \<and> fe_issued (gs_fences s') = fe_issued (gs_fences s)"
  by (auto simp: get_staging_def same_flight_def ring_items_def ring_ok_def split: option.splits prod.splits)

lemma set_shared_state_same:
  "set_shared_state su tess offchip c s = (status, s') \<Longrightarrow>
     same_flight s s' \<and> fe_issued (gs_fences s') = fe_issued (gs_fences s) \<and> (\<not> tess \<longrightarrow> \<not> offchip \<longrightarrow> status = 0)"
  by (auto simp: set_shared_state_def same_flight_def ring_items_def ring_ok_def Let_def split: if_splits)

lemma keep_staging_flight:
  "ring_items (gs_fences (keep_staging m s)) = ring_items (gs_fences s)" "ring_ok (gs_fences (keep_staging m s)) = ring_ok (gs_fences s)"
  by (simp_all add: ring_items_def ring_ok_def)

lemma launch_kept:
  assumes "flight_ok s" and "\<not> gs_wedged s" and "fe_count (gs_fences s) < kRing" and "tess \<or> offchip \<Longrightarrow> idle s"
    and "launch ts su ws slot tess offchip staging c s = Some (st, c', s')"
  shows "flight_ok s' \<and>
    (st = E_OK \<longrightarrow> \<not> gs_wedged s' \<and>
      (\<exists>e before after. ring_items (gs_fences s') = ring_items (gs_fences s) @ [e] \<and> inf_seq e = fe_issued (gs_fences s') \<and>
        inf_seq e \<noteq> 0 \<and> inf_staging e = staging \<and> (before, after) = stage_packets ts (gs_fences s) \<and>
        gs_calls s' = gs_calls s @ [Submit_dcb (mem_cpu staging,
          before @ ws @ after @ ps5_gpu_completion_packet (mem_cpu (fe_page (gs_fences s'))) (inf_seq e))]))"
proof -
  let ?f = "gs_fences s" let ?seq = "next_seq (fe_issued ?f)" let ?i = "put_fences (\<lambda>f. f\<lparr>fe_issued := ?seq\<rparr>) s"
  obtain before after where pk: "stage_packets ts ?f = (before, after)" by (cases "stage_packets ts ?f")
  obtain status s1 where st1: "set_shared_state su tess offchip c ?i = (status, s1)" by (cases "set_shared_state su tess offchip c ?i")
  let ?stream = "before @ ws @ after @ ps5_gpu_completion_packet (mem_cpu (fe_page ?f)) ?seq"
  have okr: "ring_ok ?f" using assms(1) by (simp add: flight_ok_def Let_def)
  have f1: "ring_items (gs_fences s1) = ring_items ?f" "ring_ok (gs_fences s1)" "fe_count (gs_fences s1) = fe_count ?f"
    "fe_deferred (gs_fences s1) = fe_deferred ?f" "fe_page (gs_fences s1) = fe_page ?f" "\<not> gs_wedged s1" "gs_calls s1 = gs_calls s"
    "fe_issued (gs_fences s1) = ?seq" "\<not> tess \<Longrightarrow> \<not> offchip \<Longrightarrow> status = 0"
    using set_shared_state_same [OF st1] okr assms(2) by (auto simp: same_flight_def ring_items_def ring_ok_def)
  show ?thesis
  proof (cases "status = 0")
    case False
    then have s': "s' = keep_staging staging s1" "st \<noteq> E_OK" using assms(5) pk st1 by (auto simp: launch_def Let_def)
    have "idle s" using False f1(9) assms(4) by blast
    then have "flight_ok s'" unfolding s'(1) using f1 by (intro flight_empty) (simp_all add: keep_staging_flight idle_def)
    then show ?thesis using s' by simp
  next
    case ok: True
    let ?sent = "if su_refused su then (1, s1) else broker_submit (su_dcb su) (mem_cpu staging) ?stream s1"
    obtain sent s2 where s2: "?sent = (sent, s2)" by (cases ?sent)
    have f2: "ring_items (gs_fences s2) = ring_items ?f" "ring_ok (gs_fences s2)" "fe_deferred (gs_fences s2) = fe_deferred ?f"
      "fe_issued (gs_fences s2) = ?seq" "fe_page (gs_fences s2) = fe_page ?f" "\<not> gs_wedged s2"
      "sent = 0 \<Longrightarrow> gs_calls s2 = gs_calls s @ [Submit_dcb (mem_cpu staging, ?stream)]"
      using s2 f1 by (auto simp: broker_submit_def Let_def ring_items_def ring_ok_def split: if_splits)
    show ?thesis
    proof (cases "sent = 0")
      case False
      then have "st = EIO" "give_up s2 = Some s'" using assms(5) pk st1 ok s2 by (auto simp: launch_def Let_def)
      then have s': "s' = s2\<lparr>gs_wedged := True\<rparr>" "st \<noteq> E_OK" by (auto simp: give_up_def split: if_splits)
      then show ?thesis using f2 assms(2) by (auto intro!: flight_wedge [OF assms(1)])
    next
      case True
      let ?e = "\<lparr>inf_seq = ?seq, inf_staging = staging, inf_client = Some slot\<rparr>"
      have s': "s' = put_fences (ring_push ?e) s2" "st = E_OK" using assms(5) pk st1 ok s2 True by (auto simp: launch_def Let_def)
      have "flight_ok s' \<and> ring_items (gs_fences s') = ring_items ?f @ [?e]"
        using f2 s'(1) by (intro flight_push [OF assms(1-3) f2(1,2)]) simp_all
      then show ?thesis using s' f2 True pk next_seq_nonzero
        by (intro conjI impI exI [of _ ?e] exI [of _ before] exI [of _ after]) (simp_all add: ring_push_def)
    qed
  qed
qed

lemma get_staging_size:
  assumes "get_staging made need s = Some (Some m, s')" and "\<And>n mm. made n = Some mm \<Longrightarrow> mem_bytes mm = n"
  shows "ps5_gpu_staging_round need = Some (mem_bytes m)"
  using assms spare_index_Some
  by (auto simp: get_staging_def ps5_gpu_staging_take_def split: option.splits prod.splits)

lemma fences_ready_same:
  "fences_ready page stamps s = (answer, s') \<Longrightarrow>
     flight_ok s' = flight_ok s \<and> fe_issued (gs_fences s') = fe_issued (gs_fences s) \<and> gs_wedged s' = gs_wedged s"
  by (auto simp: fences_ready_def flight_ok_def Let_def ages_def ring_items_def ring_ok_def split: if_splits option.splits)

definition submit_recent :: "gpu_shared \<Rightarrow> submit_answers \<Rightarrow> bool" where
  "submit_recent s su \<longleftrightarrow> recent s (su_now su) \<and> looks_recent s (su_full su) \<and> looks_recent s (su_state su)"

text \<open>A submission is refused, or stops at one of its waits, or is launched with room in the ring.\<close>

lemma submit_cases:
  assumes "flight_ok s" and "submit_recent s su" and "submit ke ts su ws slot c s m = Some (st, c', s')"
  obtains (refused) "flight_ok s'" "st \<noteq> E_OK"
    | (launched) tess offchip staging s4 s5 where "flight_ok s5" "\<not> gs_wedged s5" "fe_count (gs_fences s5) < kRing"
        "tess \<or> offchip \<Longrightarrow> idle s5" "submit_valid c m"
        "get_staging (su_staging su) (of_nat (4 * length (fst (stage_packets ts (gs_fences s4)))) + gm_bytes m +
           of_nat (4 * length (snd (stage_packets ts (gs_fences s4)))) + 32) s4 = Some (Some staging, s5)"
        "launch ts su ws slot tess offchip staging c s5 = Some (st, c', s')"
proof (cases "submit_valid c m \<and> \<not> gs_wedged s")
  case False
  then have "s' = s" "st \<noteq> E_OK" using assms(3) by (auto simp: submit_def split: if_splits)
  then show thesis using refused assms(1) by simp
next
  case valid: True
  obtain ready s0 where s0: "fences_ready (su_page su) (su_stamps su) s = (ready, s0)" by (cases "fences_ready (su_page su) (su_stamps su) s")
  have f0: "flight_ok s0" "fe_issued (gs_fences s0) = fe_issued (gs_fences s)" "\<not> gs_wedged s0"
    using fences_ready_same [OF s0] assms(1) valid by auto
  let ?s1 = "reap ke (su_now su) s0" let ?full = "fe_count (gs_fences ?s1) = kRing"
  have f1: "flight_ok ?s1" "fe_issued (gs_fences ?s1) = fe_issued (gs_fences s)" "\<not> gs_wedged ?s1"
    using reap_kept [OF f0(1), of "su_now su" ke] f0 assms(2) by (simp_all add: submit_recent_def recent_def)
  obtain room s2 where s2: "(if ?full then drain ke (fl_drain_now (su_full su)) (fl_drain_later (su_full su)) ?s1 else (True, ?s1)) = (room, s2)"
    by (cases "if ?full then drain ke (fl_drain_now (su_full su)) (fl_drain_later (su_full su)) ?s1 else (True, ?s1)")
  have f2: "flight_ok s2" "fe_issued (gs_fences s2) = fe_issued (gs_fences s)" "\<not> gs_wedged s2"
    "room \<Longrightarrow> fe_count (gs_fences s2) < kRing"
  proof -
    have lt: "fe_count (gs_fences ?s1) \<le> kRing" using f1(1) by (simp add: flight_ok_def Let_def ring_ok_def)
    show "flight_ok s2" "fe_issued (gs_fences s2) = fe_issued (gs_fences s)" "\<not> gs_wedged s2" "room \<Longrightarrow> fe_count (gs_fences s2) < kRing"
      using s2 f1 lt drain_kept [OF f1(1), of "fl_drain_now (su_full su)" "fl_drain_later (su_full su)" ke room s2] assms(2)
      by (auto simp: submit_recent_def looks_recent_def recent_def idle_def kRing_def split: if_splits)
  qed
  let ?tess = "tess_changes c (gs_fences s2)" and ?off = "offchip_changes c (gs_fences s2)"
  let ?s3 = "if ?tess \<or> ?off then put_fences (\<lambda>f. f\<lparr>fe_state_drains := fe_state_drains f + 1\<rparr>) s2 else s2"
  have f3: "flight_ok ?s3" "fe_issued (gs_fences ?s3) = fe_issued (gs_fences s)" "\<not> gs_wedged ?s3"
    "fe_count (gs_fences ?s3) = fe_count (gs_fences s2)"
    using f2 by (auto simp: flight_ok_def Let_def ages_def ring_items_def ring_ok_def)
  obtain still s4 where s4: "(if ?tess \<or> ?off then drain ke (fl_drain_now (su_state su)) (fl_drain_later (su_state su)) ?s3 else (True, ?s3)) = (still, s4)"
    by (cases "if ?tess \<or> ?off then drain ke (fl_drain_now (su_state su)) (fl_drain_later (su_state su)) ?s3 else (True, ?s3)")
  have f4: "flight_ok s4" "\<not> gs_wedged s4" "still \<Longrightarrow> ?tess \<or> ?off \<Longrightarrow> idle s4"
    "still \<Longrightarrow> room \<Longrightarrow> fe_count (gs_fences s4) < kRing"
    using s4 f2 f3 drain_kept [OF f3(1), of "fl_drain_now (su_state su)" "fl_drain_later (su_state su)" ke still s4] assms(2)
    by (auto simp: submit_recent_def looks_recent_def recent_def idle_def kRing_def split: if_splits)
  let ?pk = "stage_packets ts (gs_fences s4)"
  let ?need = "of_nat (4 * length (fst ?pk)) + gm_bytes m + of_nat (4 * length (snd ?pk)) + 32"
  have eq: "submit ke ts su ws slot c s m =
     (if \<not> ready then Some (ENOMEM, c, s0)
      else if ?full \<and> \<not> room then map_option (\<lambda>s3. (EIO, c, s3)) (give_up s2)
      else if \<not> still then map_option (\<lambda>s5. (EIO, c, s5)) (give_up s4)
      else case get_staging (su_staging su) ?need s4 of
             None \<Rightarrow> None
           | Some (None, s5) \<Rightarrow> Some (ENOMEM, c, s5)
           | Some (Some staging, s5) \<Rightarrow> launch ts su ws slot ?tess ?off staging c s5)"
    using valid unfolding submit_def s0 Let_def s2 prod.case s4 by (cases ready) (simp_all add: case_prod_beta)
  have wedge: "flight_ok t'" if "flight_ok t" "\<not> gs_wedged t" "give_up t = Some t'" for t t'
    using that by (intro flight_wedge [OF that(1,2)]) (auto simp: give_up_def flight_ok_def Let_def split: if_splits)
  show thesis
  proof (cases "ready \<and> \<not> (?full \<and> \<not> room) \<and> still")
    case False
    then have "flight_ok s' \<and> st \<noteq> E_OK"
      using assms(3) f0(1) wedge [OF f2(1,3)] wedge [OF f4(1,2)] unfolding eq by (auto split: if_splits)
    then show thesis using refused by blast
  next
    case go: True
    then have room: "room" using s2 by (auto split: if_splits)
    have res: "(case get_staging (su_staging su) ?need s4 of
             None \<Rightarrow> None
           | Some (None, s5) \<Rightarrow> Some (ENOMEM, c, s5)
           | Some (Some staging, s5) \<Rightarrow> launch ts su ws slot ?tess ?off staging c s5) = Some (st, c', s')"
      using assms(3) go unfolding eq by auto
    then obtain got s5 where g: "get_staging (su_staging su) ?need s4 = Some (got, s5)" by (auto split: option.splits)
    have f5: "flight_ok s5" "\<not> gs_wedged s5" "fe_count (gs_fences s5) < kRing" "?tess \<or> ?off \<Longrightarrow> idle s5"
      using get_staging_same [OF g] same_flight_ok [of s4 s5] f4 go room by (auto simp: same_flight_def idle_def)
    show thesis
    proof (cases got)
      case None
      then show thesis using res g f5(1) by (intro refused) auto
    next
      case (Some staging)
      then show thesis using res g valid by (intro launched [OF f5]) auto
    qed
  qed
qed

lemma get_staging_packets:
  "get_staging made need s = Some (m, s') \<Longrightarrow> stage_packets ts (gs_fences s') = stage_packets ts (gs_fences s)"
  by (auto simp: get_staging_def stage_packets_def split: option.splits prod.splits)

lemma staging_holds:
  assumes "unat need \<le> 2 ^ 32" and "ps5_gpu_staging_round need = Some y"
  shows "unat need \<le> unat y"
proof (cases "2 ^ 21 < unat need")
  case True
  then have "PS5_GPU_STAGING_LARGE < need" by (simp add: word_less_nat_alt)
  then show ?thesis using size_class_large(1) [OF True] assms by (simp add: ps5_gpu_staging_round_def)
next
  case False
  then have "\<not> PS5_GPU_STAGING_LARGE < need" by (simp add: word_less_nat_alt)
  moreover have "(PS5_GPU_STAGING_MIN :: u64) = 2 ^ 16" by simp
  ultimately have "ps5_gpu_staging_round need = round_loop need (2 ^ 16)"
    by (simp only: ps5_gpu_staging_round_def if_False)
  moreover obtain i where "round_loop need (2 ^ 16) = Some (2 ^ i)" "i \<le> 21" "unat need \<le> 2 ^ i"
    using round_loop_ends [of 16 need] False by auto
  moreover from this have "unat (2 ^ i :: u64) = 2 ^ i"
    using unat_u64_small [of "2 ^ i"] power_strict_increasing [of i 64 "2 :: nat"] by simp
  ultimately show ?thesis using assms(2) by simp
qed

lemma stream_fits:
  assumes "4 * length ws = unat (sz :: u64)" and "sz \<le> 16 * 1024 * 1024" and "length before \<le> 1024" and "length after \<le> 1024"
    and "ps5_gpu_staging_round (of_nat (4 * length before) + sz + of_nat (4 * length after) + 32) = Some y"
  shows "4 * length (before @ ws @ after @ ps5_gpu_completion_packet page seq) \<le> unat y"
proof -
  let ?need = "of_nat (4 * length before) + sz + of_nat (4 * length after) + 32 :: u64"
  let ?n = "4 * length before + unat sz + 4 * length after + 32"
  have "?need = of_nat ?n" by simp
  moreover have sz: "unat sz \<le> 16777216" using assms(2) by (simp add: word_le_nat_alt)
  ultimately have u: "unat ?need = ?n" using assms(3,4) by (simp only:) (rule unat_u64_small, simp)
  then have "unat ?need \<le> unat y" using assms(3,4) sz by (intro staging_holds [OF _ assms(5)]) (simp only:, simp)
  then show ?thesis using assms(1) u by (simp only: ps5_gpu_completion_packet_def) simp
qed


section \<open>A client with one buffer\<close>

lemma reap_idle: "idle s \<Longrightarrow> reap ke now s = s"
  by (simp add: reap_def idle_def reap_ring.simps reap_deferred.simps)

definition sample_client :: gpu_client where
  "sample_client = client_new\<lparr>cl_buffers := [no_buffer\<lparr>buf_address := 0x240000000, buf_bytes := 0x10000, buf_token := 1\<rparr>],
     cl_next_token := 1, cl_allocated := 0x10000, cl_pid := 77\<rparr>"

definition sample_submit :: pw_gpu_message where
  "sample_submit = sample_request\<lparr>gm_operation := 4, gm_address := 0x240000000, gm_bytes := 8,
     gm_argument0 := 0x240001000, gm_argument2 := 0\<rparr>"

definition sample_answers :: submit_answers where
  "sample_answers = \<lparr>su_page = Some \<lparr>mem_cpu = 0x5000000000, mem_bytes = 16384, mem_physical = 0\<rparr>, su_stamps = (False, None),
     su_now = 0, su_full = \<lparr>fl_now = 0, fl_drain_now = 0, fl_drain_later = []\<rparr>,
     su_state = \<lparr>fl_now = 0, fl_drain_now = 0, fl_drain_later = []\<rparr>,
     su_staging = (\<lambda>n. Some \<lparr>mem_cpu = 0x5100000000, mem_bytes = n, mem_physical = 0\<rparr>),
     su_tess = 0, su_offchip = 0, su_refused = False, su_dcb = 0\<rparr>"

definition no_stamps :: stamp_code where
  "no_stamps = \<lparr>ts_slot_bytes = 16, ts_start = (\<lambda>_. []), ts_end = (\<lambda>_. [])\<rparr>"

lemma sample_new_flight: "flight_ok gpu_shared_new"
  by (rule flight_empty) (simp_all add: gpu_shared_new_def fences_new_def ring_ok_def kRing_def)

lemma sample_submit_returns:
  "\<exists>c' s'. submit quiet_kernel no_stamps sample_answers [1, 2] 0 sample_client gpu_shared_new sample_submit = Some (E_OK, c', s')"
proof -
  have valid: "submit_valid sample_client sample_submit"
    by (simp add: submit_valid_def owned_def sample_client_def sample_submit_def sample_request_def pw_gpu_contains_def)
  let ?s0 = "put_fences (\<lambda>f. f\<lparr>fe_page := \<lparr>mem_cpu = 0x5000000000, mem_bytes = 16384, mem_physical = 0\<rparr>\<rparr>) gpu_shared_new"
  have s0: "fences_ready (su_page sample_answers) (su_stamps sample_answers) gpu_shared_new = (True, ?s0)"
    by (simp add: fences_ready_def sample_answers_def gpu_shared_new_def fences_new_def no_memory_def put_fences_def)
  have idle: "idle ?s0" by (simp add: idle_def gpu_shared_new_def fences_new_def)
  have facts: "fe_count (gs_fences ?s0) = 0" "\<not> tess_changes sample_client (gs_fences ?s0)" "\<not> offchip_changes sample_client (gs_fences ?s0)"
    "stage_packets no_stamps (gs_fences ?s0) = ([], [])" "\<not> gs_wedged gpu_shared_new" "fe_staging (gs_fences ?s0) = empty_pool"
    by (simp_all add: gpu_shared_new_def fences_new_def tess_changes_def offchip_changes_def sample_client_def client_new_def
        stage_packets_def no_memory_def)
  have r: "ps5_gpu_staging_round 40 = Some 65536" by (simp add: ps5_gpu_staging_round_def round_loop.simps)
  have need: "gm_bytes sample_submit = 8" by (simp add: sample_submit_def)
  have g: "\<exists>m s5. get_staging (su_staging sample_answers) 40 ?s0 = Some (Some m, s5)"
    unfolding get_staging_def facts(6) ps5_gpu_staging_take_def r by (simp add: empty_pool_def sample_answers_def)
  then obtain mm s5 where g: "get_staging (su_staging sample_answers) 40 ?s0 = Some (Some mm, s5)" by blast
  have "submit quiet_kernel no_stamps sample_answers [1, 2] 0 sample_client gpu_shared_new sample_submit =
      launch no_stamps sample_answers [1, 2] 0 False False mm sample_client s5"
    unfolding submit_def s0 Let_def using valid facts g need by (simp add: reap_idle [OF idle] kRing_def)
  moreover have "\<exists>c' s'. launch no_stamps sample_answers [1, 2] 0 False False mm sample_client s5 = Some (E_OK, c', s')"
    by (simp add: launch_def Let_def set_shared_state_def broker_submit_def sample_answers_def case_prod_beta)
  ultimately show ?thesis by simp
qed



end
