(* ===== verification/Gpu_Sparse.thy ===== *)
theory Gpu_Sparse
  imports Gpu_Submit
begin

text \<open>
  A client's sparse ranges in \<open>tooling/gpu-broker/server.cpp\<close>: \<open>vrange_reserve\<close>, \<open>vrange_of\<close>,
  \<open>vrange_release\<close> and \<open>vrange_bind\<close>. The ordered map from a live range's address to its slot is a
  list with ascending keys; the platform's reservation and bindings are arguments.
\<close>

section \<open>The index\<close>

fun index_put :: "u64 \<Rightarrow> nat \<Rightarrow> (u64 \<times> nat) list \<Rightarrow> (u64 \<times> nat) list" where
  "index_put k i [] = [(k, i)]"
| "index_put k i ((a, j) # rest) =
     (if k < a then (k, i) # (a, j) # rest else if k = a then (k, i) # rest else (a, j) # index_put k i rest)"

definition index_erase :: "u64 \<Rightarrow> (u64 \<times> nat) list \<Rightarrow> (u64 \<times> nat) list" where
  "index_erase k idx = filter (\<lambda>(a, i). a \<noteq> k) idx"

text \<open>The entry before \<open>upper_bound\<close>: the last key that is not past the address.\<close>

definition index_before :: "u64 \<Rightarrow> (u64 \<times> nat) list \<Rightarrow> nat option" where
  "index_before address idx =
     (let below = takeWhile (\<lambda>(a, i). a \<le> address) idx in if below = [] then None else Some (snd (last below)))"

section \<open>Operations\<close>

text \<open>\<open>tables\<close>: the page table counts, CPU and GPU, in total and free, when the kernel gives them.\<close>

definition tables_low :: "(int \<times> int \<times> int \<times> int) option \<Rightarrow> bool" where
  "tables_low tables = (case tables of
     None \<Rightarrow> False
   | Some (cpu_total, cpu_free, gpu_total, gpu_free) \<Rightarrow>
       0 < cpu_total \<and> 0 < gpu_total \<and> (cpu_free < kRangeTableFloor \<or> gpu_free < kRangeTableFloor))"

definition free_range :: "gpu_client \<Rightarrow> nat option" where
  "free_range c = map_option fst (find (\<lambda>(i, r). vr_address r = 0) (enumerate 0 (cl_ranges c)))"

definition vrange_reserve :: "(int \<times> int \<times> int \<times> int) option \<Rightarrow> radv_memory option \<Rightarrow> gpu_client \<Rightarrow> pw_gpu_message \<Rightarrow>
    gpu_errno \<times> gpu_client \<times> pw_gpu_message" where
  "vrange_reserve tables got c m =
     (if gm_bytes m = 0 \<or> push_bit 30 64 < gm_bytes m then (EINVAL, c, m)
      else if kClientRanges \<le> cl_range_count c then (ENOSPC, c, m)
      else if tables_low tables then (ENOSPC, c, m)
      else case got of
             None \<Rightarrow> (ENOMEM, c, m)
           | Some memory \<Rightarrow>
               (let r = \<lparr>vr_address = mem_cpu memory, vr_bytes = mem_bytes memory, vr_memory = memory\<rparr>;
                    (i, rs) = (case free_range c of
                       Some i \<Rightarrow> (i, (cl_ranges c)[i := r])
                     | None \<Rightarrow> (length (cl_ranges c), cl_ranges c @ [r]))
                in (E_OK, c\<lparr>cl_ranges := rs, cl_range_count := cl_range_count c + 1,
                       cl_range_index := index_put (vr_address r) i (cl_range_index c),
                       cl_range_peak := max (cl_range_peak c) (cl_range_count c + 1)\<rparr>,
                    m\<lparr>gm_address := vr_address r, gm_bytes := vr_bytes r\<rparr>)))"

definition vrange_of :: "gpu_client \<Rightarrow> u64 \<Rightarrow> u64 \<Rightarrow> nat option" where
  "vrange_of c address sz =
     (case index_before address (cl_range_index c) of
        None \<Rightarrow> None
      | Some i \<Rightarrow>
          (let r = cl_ranges c ! i
           in if vr_address r \<noteq> 0 \<and> pw_gpu_contains (vr_address r) (vr_bytes r) address sz then Some i else None))"

definition vrange_release :: "kernel_answers \<Rightarrow> fence_looks \<Rightarrow> gpu_client \<Rightarrow> gpu_shared \<Rightarrow> pw_gpu_message \<Rightarrow>
    gpu_errno \<times> gpu_client \<times> gpu_shared" where
  "vrange_release ke fl c s m =
     (case (if gm_address m \<noteq> 0 then map_of (cl_range_index c) (gm_address m) else None) of
        None \<Rightarrow> (EINVAL, c, s)
      | Some i \<Rightarrow>
          (case drain ke (fl_drain_now fl) (fl_drain_later fl) s of
             (False, s1) \<Rightarrow> (EBUSY, c, s1)
           | (True, s1) \<Rightarrow>
               (E_OK, c\<lparr>cl_ranges := (cl_ranges c)[i := no_vrange], cl_range_count := cl_range_count c - 1,
                  cl_range_index := index_erase (gm_address m) (cl_range_index c)\<rparr>,
                call (Vrange_release (vr_memory (cl_ranges c ! i))) s1)))"

definition bindable :: "gpu_client \<Rightarrow> u64 \<Rightarrow> gpu_buffer option" where
  "bindable c token = find (\<lambda>a. buf_token a \<noteq> 0 \<and> ucast (buf_token a) = token \<and> buf_local a \<and> 0 \<le> mem_physical (buf_memory a)) (cl_buffers c)"

definition vrange_bind :: "(radv_memory option \<Rightarrow> bool) \<Rightarrow> bool \<Rightarrow> gpu_client \<Rightarrow> pw_gpu_message \<Rightarrow> gpu_errno" where
  "vrange_bind answer bind c m =
     (if gm_bytes m = 0 \<or> (gm_address m OR gm_bytes m) AND 16383 \<noteq> 0 \<or> vrange_of c (gm_address m) (gm_bytes m) = None then EINVAL
      else if \<not> bind then (if answer None then E_OK else EIO)
      else case bindable c (gm_argument0 m) of
             None \<Rightarrow> EINVAL
           | Some a \<Rightarrow>
               if mem_bytes (buf_memory a) < gm_argument1 m \<or> mem_bytes (buf_memory a) - gm_argument1 m < gm_bytes m \<or>
                  gm_argument1 m AND 16383 \<noteq> 0 then EINVAL
               else if answer (Some (buf_memory a)) then E_OK else EIO)"

section \<open>The index is the live ranges\<close>

definition vspan :: "gpu_client \<Rightarrow> nat \<Rightarrow> nat \<times> nat" where
  "vspan c i = (unat (vr_address (cl_ranges c ! i)), unat (vr_bytes (cl_ranges c ! i)))"

text \<open>
  Every entry is a live range at its address, every live range has its entry, the ranges follow each
  other without overlapping, none is empty or runs past the last address.
\<close>

definition ranges_ok :: "gpu_client \<Rightarrow> bool" where
  "ranges_ok c \<longleftrightarrow>
     (\<forall>(a, i) \<in> set (cl_range_index c). i < length (cl_ranges c) \<and> vr_address (cl_ranges c ! i) = a \<and> a \<noteq> 0 \<and>
        vr_bytes (cl_ranges c ! i) \<noteq> 0 \<and> unat a + unat (vr_bytes (cl_ranges c ! i)) < 2 ^ 64) \<and>
     (\<forall>i < length (cl_ranges c). vr_address (cl_ranges c ! i) \<noteq> 0 \<longrightarrow> (vr_address (cl_ranges c ! i), i) \<in> set (cl_range_index c)) \<and>
     sorted_wrt (\<lambda>(a, i) (b, j). unat a + unat (vr_bytes (cl_ranges c ! i)) \<le> unat b) (cl_range_index c) \<and>
     cl_range_count c = length (cl_range_index c) \<and> cl_range_count c \<le> kClientRanges"

lemma index_before_member:
  assumes "index_before address idx = Some i"
  shows "\<exists>a. (a, i) \<in> set idx"
proof -
  let ?below = "takeWhile (\<lambda>(a, i). a \<le> address) idx"
  have ne: "?below \<noteq> []" "snd (last ?below) = i" using assms by (auto simp: index_before_def Let_def split: if_splits)
  have "last ?below \<in> set idx" using set_takeWhileD [OF last_in_set [OF ne(1)]] by blast
  then show ?thesis using ne(2) by (metis prod.collapse)
qed

lemma vrange_found:
  assumes "ranges_ok c"
  shows "vrange_of c address sz = Some i \<longleftrightarrow>
      i < length (cl_ranges c) \<and> vr_address (cl_ranges c ! i) \<noteq> 0 \<and>
      pw_gpu_contains (vr_address (cl_ranges c ! i)) (vr_bytes (cl_ranges c ! i)) address sz"
proof
  assume v: "vrange_of c address sz = Some i"
  then have b: "index_before address (cl_range_index c) = Some i" "vr_address (cl_ranges c ! i) \<noteq> 0"
    "pw_gpu_contains (vr_address (cl_ranges c ! i)) (vr_bytes (cl_ranges c ! i)) address sz"
    by (auto simp: vrange_of_def Let_def split: option.splits if_splits)
  obtain a where "(a, i) \<in> set (cl_range_index c)" using index_before_member [OF b(1)] by blast
  then show "i < length (cl_ranges c) \<and> vr_address (cl_ranges c ! i) \<noteq> 0 \<and>
      pw_gpu_contains (vr_address (cl_ranges c ! i)) (vr_bytes (cl_ranges c ! i)) address sz"
    using assms b(2,3) unfolding ranges_ok_def by blast
next
  let ?a = "vr_address (cl_ranges c ! i)" and ?n = "vr_bytes (cl_ranges c ! i)"
  assume h: "i < length (cl_ranges c) \<and> ?a \<noteq> 0 \<and> pw_gpu_contains ?a ?n address sz"
  have c: "0 < unat sz" "unat ?a \<le> unat address" "unat address + unat sz \<le> unat ?a + unat ?n"
    using h by (simp_all add: contains_iff)
  have mem: "(?a, i) \<in> set (cl_range_index c)" using assms h unfolding ranges_ok_def by blast
  let ?P = "\<lambda>(a, i). a \<le> address"
  obtain f r where idx: "cl_range_index c = f @ (?a, i) # r" using split_list [OF mem] by blast
  have order: "sorted_wrt (\<lambda>(a, i) (b, j). unat a + unat (vr_bytes (cl_ranges c ! i)) \<le> unat b) (f @ (?a, i) # r)"
    using assms unfolding ranges_ok_def idx by blast
  then have "\<forall>(b, j) \<in> set f. unat b \<le> unat ?a" "\<forall>(b, j) \<in> set r. unat ?a + unat ?n \<le> unat b"
    by (auto simp: sorted_wrt_append)
  then have front: "\<forall>x \<in> set (f @ [(?a, i)]). ?P x" and rear: "\<forall>x \<in> set r. \<not> ?P x"
    using c by (auto simp: word_le_nat_alt)
  have "takeWhile ?P (f @ (?a, i) # r) = f @ [(?a, i)]"
    using front rear by (simp add: takeWhile_append2) (cases r; simp)
  then have "index_before address (cl_range_index c) = Some i" unfolding index_before_def idx by (simp add: Let_def)
  then show "vrange_of c address sz = Some i" using h by (simp add: vrange_of_def)
qed

text \<open>Looking a range up by the entry before its address finds exactly what a search of every live
  range would: an answer is the slot of a live range that holds the asked part whole, and there is no
  answer only when no live range does.\<close>

lemma vrange_of_iff:
  assumes "ranges_ok c"
  shows "vrange_of c address sz = Some i \<longleftrightarrow>
      i < length (cl_ranges c) \<and> vr_address (cl_ranges c ! i) \<noteq> 0 \<and>
      pw_gpu_contains (vr_address (cl_ranges c ! i)) (vr_bytes (cl_ranges c ! i)) address sz"
  using assms by (rule vrange_found)

text \<open>Putting a new entry in, and taking one out.\<close>

lemma index_put_set: "k \<notin> fst ` set idx \<Longrightarrow> set (index_put k i idx) = insert (k, i) (set idx)"
  by (induction k i idx rule: index_put.induct) auto

lemma index_put_length: "k \<notin> fst ` set idx \<Longrightarrow> length (index_put k i idx) = Suc (length idx)"
  by (induction k i idx rule: index_put.induct) auto

lemma index_put_sorted:
  assumes "sorted_wrt R idx" and "k \<notin> fst ` set idx"
    and "\<And>a j. (a, j) \<in> set idx \<Longrightarrow> a < k \<Longrightarrow> R (a, j) (k, i)" and "\<And>a j. (a, j) \<in> set idx \<Longrightarrow> k < a \<Longrightarrow> R (k, i) (a, j)"
    and "\<And>x y. x \<in> set idx \<Longrightarrow> y \<in> set idx \<Longrightarrow> R x y \<Longrightarrow> fst x \<le> fst y"
  shows "sorted_wrt R (index_put k i idx)"
  using assms
proof (induction k i idx rule: index_put.induct)
  case (2 k i a j rest)
  show ?case
  proof (cases "k < a")
    case True
    have "R (k, i) (b, l)" if "(b, l) \<in> set ((a, j) # rest)" for b l
    proof (cases "(b, l) = (a, j)")
      case False
      then have "a \<le> b" using that "2.prems"(1) "2.prems"(5) [of "(a, j)" "(b, l)"] by auto
      then show ?thesis using "2.prems"(4) that True by simp
    qed (use "2.prems"(4) True in simp)
    then show ?thesis using True "2.prems"(1) by auto
  next
    case False
    then have lt: "a < k" "k \<noteq> a" using "2.prems"(2) by auto
    have "sorted_wrt R (index_put k i rest)"
      using "2.IH" [OF False] lt "2.prems" by (metis (no_types, lifting) fst_conv image_eqI list.set_intros(1,2) image_insert insertCI list.simps(15) sorted_wrt.simps(2))
    moreover have "R (a, j) x" if "x \<in> set (index_put k i rest)" for x
      using that index_put_set [of k rest i] "2.prems"(1,2) "2.prems"(3) [of a j] lt by auto
    ultimately show ?thesis using False lt by simp
  qed
qed simp

lemma free_range_Some: "free_range c = Some i \<Longrightarrow> i < length (cl_ranges c) \<and> vr_address (cl_ranges c ! i) = 0"
  by (auto simp: free_range_def find_Some_iff nth_enumerate_eq)

text \<open>A range the platform reserved: not empty, within the address space, apart from the live ones.\<close>

definition fresh_range :: "gpu_client \<Rightarrow> radv_memory \<Rightarrow> bool" where
  "fresh_range c memory \<longleftrightarrow> mem_cpu memory \<noteq> 0 \<and> mem_bytes memory \<noteq> 0 \<and> unat (mem_cpu memory) + unat (mem_bytes memory) < 2 ^ 64 \<and>
     (\<forall>r \<in> set (cl_ranges c). vr_address r \<noteq> 0 \<longrightarrow>
        unat (vr_address r) + unat (vr_bytes r) \<le> unat (mem_cpu memory) \<or>
        unat (mem_cpu memory) + unat (mem_bytes memory) \<le> unat (vr_address r))"

lemma reserve_slot:
  assumes "ranges_ok c" and "fresh_range c memory" and "cl_range_count c < kClientRanges"
    and "i < length rs" and "\<forall>j < length (cl_ranges c). j \<noteq> i \<longrightarrow> j < length rs \<and> rs ! j = cl_ranges c ! j"
    and "\<forall>j < length rs. j \<noteq> i \<longrightarrow> j < length (cl_ranges c)"
    and "i < length (cl_ranges c) \<Longrightarrow> vr_address (cl_ranges c ! i) = 0"
    and "rs ! i = \<lparr>vr_address = mem_cpu memory, vr_bytes = mem_bytes memory, vr_memory = memory\<rparr>"
  shows "ranges_ok (c\<lparr>cl_ranges := rs, cl_range_count := cl_range_count c + 1,
      cl_range_index := index_put (mem_cpu memory) i (cl_range_index c), cl_range_peak := p\<rparr>)"
proof -
  let ?k = "mem_cpu memory" and ?idx = "cl_range_index c"
  have ent: "j < length (cl_ranges c) \<and> vr_address (cl_ranges c ! j) = a \<and> a \<noteq> 0 \<and> vr_bytes (cl_ranges c ! j) \<noteq> 0 \<and>
      unat a + unat (vr_bytes (cl_ranges c ! j)) < 2 ^ 64" if "(a, j) \<in> set ?idx" for a j
    using assms(1) that unfolding ranges_ok_def by blast
  have live: "j \<noteq> i \<and> j < length rs \<and> rs ! j = cl_ranges c ! j" if "(a, j) \<in> set ?idx" for a j
    using ent [OF that] assms(5,7) by metis
  have apart: "unat a + unat (vr_bytes (cl_ranges c ! j)) \<le> unat ?k \<or> unat ?k + unat (mem_bytes memory) \<le> unat a"
    if "(a, j) \<in> set ?idx" for a j using ent [OF that] assms(2) unfolding fresh_range_def by (metis nth_mem)
  have kpos: "0 < unat (mem_bytes memory)" using assms(2) by (simp add: fresh_range_def unat_gt_0)
  have bpos: "0 < unat (vr_bytes (cl_ranges c ! j))" if "(a, j) \<in> set ?idx" for a j using ent [OF that] by (simp add: unat_gt_0)
  have new: "?k \<notin> fst ` set ?idx" using apart kpos bpos by fastforce
  have eq: "sorted_wrt (\<lambda>(a, i) (b, j). unat a + unat (vr_bytes (rs ! i)) \<le> unat b) ?idx"
    using assms(1) live unfolding ranges_ok_def
    by (elim conjE) (erule sorted_wrt_mono_rel [rotated], fastforce)
  have sorted: "sorted_wrt (\<lambda>(a, i) (b, j). unat a + unat (vr_bytes (rs ! i)) \<le> unat b) (index_put ?k i ?idx)"
  proof (rule index_put_sorted [OF eq new], goal_cases)
    case (1 a j)
    then have "\<not> unat ?k + unat (mem_bytes memory) \<le> unat a" by (simp add: word_less_nat_alt)
    then show ?case using apart [OF 1(1)] live [OF 1(1)] by simp
  next
    case (2 a j)
    then have "\<not> unat a + unat (vr_bytes (cl_ranges c ! j)) \<le> unat ?k" by (simp add: word_less_nat_alt)
    then show ?case using apart [OF 2(1)] assms(8) by simp
  next
    case (3 x y)
    then show ?case by (simp add: case_prod_beta word_le_nat_alt)
  qed
  have len: "cl_range_count c = length ?idx" using assms(1) by (simp add: ranges_ok_def)
  have entries: "j < length rs \<and> vr_address (rs ! j) = a \<and> a \<noteq> 0 \<and> vr_bytes (rs ! j) \<noteq> 0 \<and> unat a + unat (vr_bytes (rs ! j)) < 2 ^ 64"
    if "(a, j) \<in> set (index_put ?k i ?idx)" for a j
  proof (cases "(a, j) = (?k, i)")
    case True
    then show ?thesis using assms(2,4,8) by (simp add: fresh_range_def)
  next
    case False
    then have m: "(a, j) \<in> set ?idx" using that index_put_set [OF new, of i] by auto
    then show ?thesis using ent [OF m] live [OF m] by simp
  qed
  have complete: "(vr_address (rs ! j), j) \<in> set (index_put ?k i ?idx)" if j: "j < length rs" "vr_address (rs ! j) \<noteq> 0" for j
  proof (cases "j = i")
    case True
    then show ?thesis using assms(8) index_put_set [OF new, of i] by simp
  next
    case False
    then have "j < length (cl_ranges c)" "rs ! j = cl_ranges c ! j" using j(1) assms(5,6) by auto
    then have "(vr_address (rs ! j), j) \<in> set ?idx" using assms(1) j(2) unfolding ranges_ok_def by simp
    then show ?thesis using index_put_set [OF new, of i] by simp
  qed
  show ?thesis
    using entries complete sorted len assms(3) index_put_length [OF new, of i] unfolding ranges_ok_def by auto
qed

lemma vrange_reserve_kept:
  assumes "ranges_ok c" and "\<And>memory. got = Some memory \<Longrightarrow> fresh_range c memory"
    and "vrange_reserve tables got c m = (st, c', m')"
  shows "ranges_ok c' \<and> (if st = E_OK then (\<exists>i. vrange_of c' (gm_address m') (gm_bytes m') = Some i) else c' = c \<and> m' = m)"
proof (cases "st = E_OK")
  case False
  then show ?thesis using assms by (auto simp: vrange_reserve_def Let_def split: if_splits option.splits)
next
  case True
  obtain memory where got: "got = Some memory" and room: "cl_range_count c < kClientRanges"
    using assms(3) True by (auto simp: vrange_reserve_def not_le split: if_splits option.splits)
  let ?r = "\<lparr>vr_address = mem_cpu memory, vr_bytes = mem_bytes memory, vr_memory = memory\<rparr>"
  obtain i rs where irs: "(case free_range c of Some i \<Rightarrow> (i, (cl_ranges c)[i := ?r]) | None \<Rightarrow> (length (cl_ranges c), cl_ranges c @ [?r])) = (i, rs)"
    by (cases "free_range c") auto
  have c': "c' = c\<lparr>cl_ranges := rs, cl_range_count := cl_range_count c + 1, cl_range_index := index_put (mem_cpu memory) i (cl_range_index c),
      cl_range_peak := max (cl_range_peak c) (cl_range_count c + 1)\<rparr>" "gm_address m' = mem_cpu memory" "gm_bytes m' = mem_bytes memory"
    using assms(3) True got irs by (auto simp: vrange_reserve_def Let_def split: if_splits)
  note fresh = assms(2) [OF got]
  have slot: "i < length rs" "rs ! i = ?r" "i < length (cl_ranges c) \<Longrightarrow> vr_address (cl_ranges c ! i) = 0"
    "\<forall>j < length (cl_ranges c). j \<noteq> i \<longrightarrow> j < length rs \<and> rs ! j = cl_ranges c ! j"
    "\<forall>j < length rs. j \<noteq> i \<longrightarrow> j < length (cl_ranges c)"
  proof -
    have "(i, rs) = (length (cl_ranges c), cl_ranges c @ [?r]) \<or>
        (i, rs) = (i, (cl_ranges c)[i := ?r]) \<and> i < length (cl_ranges c) \<and> vr_address (cl_ranges c ! i) = 0"
      using irs free_range_Some [of c i] by (cases "free_range c") simp_all
    then show "i < length rs" "rs ! i = ?r" "i < length (cl_ranges c) \<Longrightarrow> vr_address (cl_ranges c ! i) = 0"
      "\<forall>j < length (cl_ranges c). j \<noteq> i \<longrightarrow> j < length rs \<and> rs ! j = cl_ranges c ! j"
      "\<forall>j < length rs. j \<noteq> i \<longrightarrow> j < length (cl_ranges c)"
      by (elim disjE; simp add: nth_append)+
  qed
  have ok: "ranges_ok c'" unfolding c'(1) by (rule reserve_slot [OF assms(1) fresh room slot(1,4,5,3,2)])
  have "pw_gpu_contains (mem_cpu memory) (mem_bytes memory) (mem_cpu memory) (mem_bytes memory)"
    using fresh by (simp add: contains_iff fresh_range_def unat_gt_0)
  then have "i < length (cl_ranges c') \<and> vr_address (cl_ranges c' ! i) \<noteq> 0 \<and>
      pw_gpu_contains (vr_address (cl_ranges c' ! i)) (vr_bytes (cl_ranges c' ! i)) (gm_address m') (gm_bytes m')"
    using slot(1,2) c' fresh by (simp add: fresh_range_def)
  from vrange_found [OF ok, THEN iffD2, OF this] have "\<exists>i. vrange_of c' (gm_address m') (gm_bytes m') = Some i" ..
  then show ?thesis using True ok by simp
qed

lemma index_keys_distinct:
  assumes "ranges_ok c" and "(a, i) \<in> set (cl_range_index c)" and "(a, j) \<in> set (cl_range_index c)"
  shows "i = j"
proof (rule ccontr)
  assume ne: "i \<noteq> j"
  have pos: "0 < unat (vr_bytes (cl_ranges c ! l))" if "(b, l) \<in> set (cl_range_index c)" for b l
    using assms(1) that unfolding ranges_ok_def by (force simp: unat_gt_0)
  let ?R = "\<lambda>(a, i) (b, j). unat a + unat (vr_bytes (cl_ranges c ! i)) \<le> unat b"
  have so: "sorted_wrt ?R (cl_range_index c)" using assms(1) unfolding ranges_ok_def by blast
  obtain p where p: "p < length (cl_range_index c)" "cl_range_index c ! p = (a, i)" using assms(2) by (metis in_set_conv_nth)
  obtain q where q: "q < length (cl_range_index c)" "cl_range_index c ! q = (a, j)" using assms(3) by (metis in_set_conv_nth)
  have "p \<noteq> q" using p q ne by auto
  then consider "p < q" | "q < p" by linarith
  then show False
  proof cases
    case 1
    then show False using sorted_wrt_nth_less [OF so 1 q(1)] p q pos [OF assms(2)] by simp
  next
    case 2
    then show False using sorted_wrt_nth_less [OF so 2 p(1)] p q pos [OF assms(3)] by simp
  qed
qed

lemma erase_length:
  assumes "ranges_ok c" and "(a, i) \<in> set (cl_range_index c)"
  shows "length (index_erase a (cl_range_index c)) = length (cl_range_index c) - 1"
proof -
  let ?idx = "cl_range_index c"
  obtain f r where idx: "?idx = f @ (a, i) # r" using split_list [OF assms(2)] by blast
  have pos: "0 < unat (vr_bytes (cl_ranges c ! l))" if "(b, l) \<in> set ?idx" for b l
    using assms(1) that unfolding ranges_ok_def by (force simp: unat_gt_0)
  have so: "sorted_wrt (\<lambda>(a, i) (b, j). unat a + unat (vr_bytes (cl_ranges c ! i)) \<le> unat b) (f @ (a, i) # r)"
    using assms(1) unfolding ranges_ok_def idx by blast
  have "\<forall>(b, j) \<in> set f. b \<noteq> a" using so pos idx by (fastforce simp: sorted_wrt_append)
  moreover have "\<forall>(b, j) \<in> set r. b \<noteq> a" using so pos [of a i] idx by (fastforce simp: sorted_wrt_append)
  ultimately have "index_erase a ?idx = f @ r" unfolding index_erase_def idx by (simp add: filter_id_conv)
  then show ?thesis using idx by simp
qed

lemma vrange_release_kept:
  assumes "ranges_ok c" and "flight_ok s" and "looks_recent s fl" and "vrange_release ke fl c s m = (st, c', s')"
  shows "ranges_ok c' \<and> flight_ok s' \<and>
    (if st = E_OK then idle s' \<and> gm_address m \<notin> fst ` set (cl_range_index c') \<and> gm_address m \<in> fst ` set (cl_range_index c)
     else c' = c)"
proof (cases "if gm_address m \<noteq> 0 then map_of (cl_range_index c) (gm_address m) else None")
  case None
  then show ?thesis using assms by (auto simp: vrange_release_def)
next
  case (Some i)
  let ?a = "gm_address m" and ?idx = "cl_range_index c"
  have mem: "(?a, i) \<in> set ?idx" using Some by (auto dest: map_of_SomeD split: if_splits)
  obtain answer s1 where d: "drain ke (fl_drain_now fl) (fl_drain_later fl) s = (answer, s1)"
    by (cases "drain ke (fl_drain_now fl) (fl_drain_later fl) s")
  have k: "flight_ok s1" "answer = idle s1" using drain_kept [OF assms(2) _ d] assms(3) by (auto simp: looks_recent_def)
  show ?thesis
  proof (cases answer)
    case False
    then have "st = EBUSY" "c' = c" "s' = s1" using assms(4) Some d by (auto simp: vrange_release_def)
    then show ?thesis using assms(1) k by simp
  next
    case True
    have c': "c' = c\<lparr>cl_ranges := (cl_ranges c)[i := no_vrange], cl_range_count := cl_range_count c - 1, cl_range_index := index_erase ?a ?idx\<rparr>"
      and s': "s' = call (Vrange_release (vr_memory (cl_ranges c ! i))) s1" and st: "st = E_OK"
      using assms(4) Some d True by (auto simp: vrange_release_def)
    have ent: "\<forall>(b, j) \<in> set ?idx. j < length (cl_ranges c) \<and> vr_address (cl_ranges c ! j) = b \<and> b \<noteq> 0 \<and>
        vr_bytes (cl_ranges c ! j) \<noteq> 0 \<and> unat b + unat (vr_bytes (cl_ranges c ! j)) < 2 ^ 64"
      using assms(1) unfolding ranges_ok_def by blast
    have other: "j \<noteq> i" if "(b, j) \<in> set ?idx" "b \<noteq> ?a" for b j
    proof -
      have "vr_address (cl_ranges c ! j) = b" "vr_address (cl_ranges c ! i) = ?a" using ent that(1) mem by blast+
      then show ?thesis using that(2) by auto
    qed
    have "sorted_wrt (\<lambda>(a, i) (b, j). unat a + unat (vr_bytes (cl_ranges c ! i)) \<le> unat b) (index_erase ?a ?idx)"
      using assms(1) unfolding ranges_ok_def index_erase_def by (simp add: sorted_wrt_filter)
    then have so: "sorted_wrt (\<lambda>(a, l) (b, j). unat a + unat (vr_bytes ((cl_ranges c)[i := no_vrange] ! l)) \<le> unat b) (index_erase ?a ?idx)"
      by (rule sorted_wrt_mono_rel [rotated]) (use other in \<open>fastforce simp: index_erase_def\<close>)
    have f: "cl_ranges c' = (cl_ranges c)[i := no_vrange]" "cl_range_index c' = index_erase ?a ?idx"
      "cl_range_count c' = cl_range_count c - 1" using c' by simp_all
    have e1: "\<forall>(b, j) \<in> set (cl_range_index c'). j < length (cl_ranges c') \<and> vr_address (cl_ranges c' ! j) = b \<and> b \<noteq> 0 \<and>
        vr_bytes (cl_ranges c' ! j) \<noteq> 0 \<and> unat b + unat (vr_bytes (cl_ranges c' ! j)) < 2 ^ 64"
      unfolding f using ent other by (fastforce simp: index_erase_def)
    have e2: "(vr_address (cl_ranges c' ! j), j) \<in> set (cl_range_index c')"
      if j: "j < length (cl_ranges c')" "vr_address (cl_ranges c' ! j) \<noteq> 0" for j
    proof -
      have ne: "j \<noteq> i" using j unfolding f by (auto simp: no_vrange_def)
      then have "vr_address (cl_ranges c ! j) \<noteq> 0" "j < length (cl_ranges c)" using j unfolding f by simp_all
      then have m: "(vr_address (cl_ranges c ! j), j) \<in> set ?idx" using assms(1) unfolding ranges_ok_def by blast
      then have "vr_address (cl_ranges c ! j) \<noteq> ?a" using index_keys_distinct [OF assms(1) mem, of j] ne by auto
      then show ?thesis unfolding f using m ne by (simp add: index_erase_def)
    qed
    have "cl_range_count c' = length (cl_range_index c') \<and> cl_range_count c' \<le> kClientRanges"
      unfolding f erase_length [OF assms(1) mem] using assms(1) unfolding ranges_ok_def by linarith
    then have "ranges_ok c'" using e1 e2 so unfolding ranges_ok_def f by blast
    moreover have "flight_ok s'" using k(1) s' by (simp add: flight_ok_def Let_def)
    moreover have "idle s'" using k(2) True s' by (simp add: idle_def)
    moreover have "?a \<in> fst ` set ?idx" using mem by force
    ultimately show ?thesis using st c' by (auto simp: index_erase_def)
  qed
qed

end
