(* ===== verification/Gpu_Serve.thy ===== *)
theory Gpu_Serve
  imports Gpu_Sparse
begin

text \<open>
  One message of one client in \<open>serve\<close> of \<open>tooling/gpu-broker/server.cpp\<close>, the life of a client
  (\<open>open_client\<close>, \<open>ps5_gpu_broker_close\<close>), the application's settings, and which source the screen
  shows (\<open>may_show\<close>, \<open>screen_cursor\<close>). What the display does with a frame that passed the checks is
  its answer; waiting for the app to come back to the foreground, for a present that reads a buffer,
  and for other threads is left out: a message is handled once those waits are over.
\<close>

section \<open>The screen\<close>

record screen =
  sc_holder :: int
  sc_holder_pid :: int
  sc_holder_ns :: u64
  sc_switches :: u32
  sc_hidden :: u32

definition kHoldNs :: u64 where "kHoldNs = 300000000"

definition screen_hide :: "screen \<Rightarrow> bool \<times> screen" where
  "screen_hide sc = (False, sc\<lparr>sc_hidden := sc_hidden sc + 1\<rparr>)"

text \<open>\<open>windows\<close>: the desktop composes windows; \<open>foreground\<close>: the process of the foreground window, or 0.\<close>

definition may_show :: "bool \<Rightarrow> int \<Rightarrow> int \<Rightarrow> int \<Rightarrow> u64 \<Rightarrow> screen \<Rightarrow> bool \<times> screen" where
  "may_show windows foreground source pid now sc =
     (if windows then screen_hide sc
      else if foreground \<noteq> 0 \<and> pid \<noteq> foreground then screen_hide sc
      else if sc_holder sc = source then (True, sc\<lparr>sc_holder_ns := now\<rparr>)
      else let quiet = (sc_holder sc = 0 \<or> kHoldNs < now - sc_holder_ns sc);
               focus = (foreground \<noteq> 0 \<and> pid = foreground \<and> sc_holder_pid sc \<noteq> foreground)
           in if \<not> quiet \<and> \<not> focus then screen_hide sc
              else (True, sc\<lparr>sc_holder := source, sc_holder_pid := pid, sc_holder_ns := now, sc_switches := sc_switches sc + 1\<rparr>))"

definition screen_cursor :: "(int \<times> int) option \<Rightarrow> int \<Rightarrow> int \<Rightarrow> int \<Rightarrow> int \<Rightarrow> int \<times> int" where
  "screen_cursor cursor x y width height =
     (case cursor of
        None \<Rightarrow> (- 1, - 1)
      | Some (px, py) \<Rightarrow>
          (let cx = px - x; cy = py - y
           in if cx < 0 \<or> cy < 0 \<or> width \<le> cx \<or> height \<le> cy then (- 1, - 1)
              else (cx * 1920 div width, cy * 1080 div height)))"

section \<open>The broker\<close>

record gpu_broker =
  bk_shared :: gpu_shared
  bk_clients :: "gpu_client list"
  bk_started :: bool
  bk_local_memory :: bool
  bk_host_limit :: u64
  bk_console_model :: u32
  bk_next_cookie :: int
  bk_host_peak :: u64
  bk_local_peak :: u64

definition set_host_limit :: "u64 \<Rightarrow> gpu_broker \<Rightarrow> bool \<times> gpu_broker" where
  "set_host_limit sz b =
     (if sz = 0 \<or> PW_GPU_HOST_LIMIT_MAX < sz \<or> sz AND 16383 \<noteq> 0 \<or> bk_started b then (False, b)
      else (True, b\<lparr>bk_host_limit := sz\<rparr>))"

definition set_console_model :: "u32 \<Rightarrow> gpu_broker \<Rightarrow> bool \<times> gpu_broker" where
  "set_console_model model b = (if 2 < model \<or> bk_started b then (False, b) else (True, b\<lparr>bk_console_model := model\<rparr>))"

definition note_peaks :: "gpu_broker \<Rightarrow> gpu_broker" where
  "note_peaks b =
     (let live = filter (\<lambda>c. 0 \<le> cl_socket c) (bk_clients b);
          host = sum_list (map cl_allocated live); loc = sum_list (map cl_local live)
      in b\<lparr>bk_host_peak := (if bk_host_peak b < host then host else bk_host_peak b),
           bk_local_peak := (if bk_local_peak b < loc then loc else bk_local_peak b)\<rparr>)"

section \<open>One message\<close>

record handle_answers =
  ha_kernel :: kernel_answers
  ha_alloc :: alloc_answers
  ha_window :: "u64 \<times> u64"
  ha_looks :: fence_looks
  ha_submit :: submit_answers
  ha_stamps :: stamp_code
  ha_words :: "u32 list"
  ha_tables :: "(int \<times> int \<times> int \<times> int) option"
  ha_range :: "radv_memory option"
  ha_bind :: "radv_memory option \<Rightarrow> bool"
  ha_owner :: int
  ha_windows :: bool
  ha_present :: gpu_errno
  ha_link :: "int option"

text \<open>The result of a handler: the status, the reply, the client, the shared state.\<close>

type_synonym handled = "gpu_errno \<times> pw_gpu_message \<times> gpu_client \<times> gpu_shared"

definition handle_init :: "handle_answers \<Rightarrow> gpu_broker \<Rightarrow> gpu_client \<Rightarrow> pw_gpu_message \<Rightarrow> handled" where
  "handle_init ha b c m =
     (E_OK, m\<lparr>gm_argument2 := (if bk_local_memory b then local_offer (al_available (ha_alloc ha)) else 0),
              gm_argument3 := bk_host_limit b, gm_argument1 := ucast (bk_console_model b)\<rparr>,
      c\<lparr>cl_pid := uint (gm_argument0 m)\<rparr>, bk_shared b)"

definition room_reply :: "handle_answers \<Rightarrow> gpu_broker \<Rightarrow> pw_gpu_message \<Rightarrow> pw_gpu_message" where
  "room_reply ha b m = (if bk_local_memory b then m\<lparr>gm_argument3 := local_room (al_available (ha_alloc ha)) + 1\<rparr> else m)"

definition handle_alloc :: "handle_answers \<Rightarrow> gpu_broker \<Rightarrow> gpu_client \<Rightarrow> pw_gpu_message \<Rightarrow> handled" where
  "handle_alloc ha b c m =
     (if gs_wedged (bk_shared b) then (EIO, room_reply ha b m, c, bk_shared b)
      else case allocate (ha_kernel ha) (ha_alloc ha) (bk_host_limit b) (ha_window ha) c (bk_shared b) m of
             (st, c', s', m', fd) \<Rightarrow> (st, room_reply ha b m', c', s'))"

text \<open>The first buffer with the token, address and size of the request.\<close>

definition named_buffer :: "gpu_client \<Rightarrow> pw_gpu_message \<Rightarrow> nat option" where
  "named_buffer c m = map_option fst
     (find (\<lambda>(i, a). buf_token a \<noteq> 0 \<and> ucast (buf_token a) = gm_argument0 m \<and> buf_address a = gm_address m \<and> buf_bytes a = gm_bytes m)
       (enumerate 0 (cl_buffers c)))"

definition handle_free :: "handle_answers \<Rightarrow> gpu_broker \<Rightarrow> gpu_client \<Rightarrow> pw_gpu_message \<Rightarrow> handled option" where
  "handle_free ha b c m =
     (case named_buffer c m of
        None \<Rightarrow> Some (EINVAL, room_reply ha b m, c, bk_shared b)
      | Some i \<Rightarrow>
          (let a = cl_buffers c ! i;
               c1 = (if cl_tess c \<noteq> 0 \<and> pw_gpu_contains (buf_address a) (buf_bytes a) (cl_tess c) (ucast (cl_tess_bytes c))
                     then c\<lparr>cl_tess := 0, cl_tess_bytes := 0\<rparr> else c)
           in map_option (\<lambda>(c', s'). (E_OK, room_reply ha b m, c', s'))
                (free_buffer (ha_kernel ha) (ha_looks ha) i c1 (bk_shared b))))"

definition handle_tess :: "gpu_client \<Rightarrow> pw_gpu_message \<Rightarrow> gpu_errno \<times> gpu_client" where
  "handle_tess c m =
     (if gm_bytes m \<le> 0xFFFFFFFF \<and> owned c (gm_address m) (gm_bytes m)
      then (E_OK, c\<lparr>cl_tess := gm_address m, cl_tess_bytes := ucast (gm_bytes m)\<rparr>) else (EINVAL, c))"

definition handle_offchip :: "gpu_client \<Rightarrow> pw_gpu_message \<Rightarrow> gpu_errno \<times> gpu_client" where
  "handle_offchip c m =
     (if gm_argument0 m \<le> 3 \<and> gm_argument1 m \<le> 511
      then (E_OK, c\<lparr>cl_granularity := ucast (gm_argument0 m), cl_buffering := ucast (gm_argument1 m), cl_offchip := True\<rparr>)
      else (EINVAL, c))"

text \<open>A second connection, once: the socket made for it, when it and its thread could be made.\<close>

definition handle_link :: "handle_answers \<Rightarrow> gpu_client \<Rightarrow> gpu_errno \<times> gpu_client" where
  "handle_link ha c =
     (if 0 \<le> cl_present_socket c then (EINVAL, c)
      else case ha_link ha of None \<Rightarrow> (EAGAIN, c) | Some socket \<Rightarrow> (E_OK, c\<lparr>cl_present_socket := socket\<rparr>))"

text \<open>The checks of the two presents; behind them the display answers.\<close>

definition handle_window :: "handle_answers \<Rightarrow> gpu_broker \<Rightarrow> gpu_client \<Rightarrow> pw_gpu_message \<Rightarrow> gpu_errno" where
  "handle_window ha b c m =
     (if gs_wedged (bk_shared b) then EIO
      else if \<not> ha_windows ha then ENOTSUP
      else if cl_expected_pid c = 0 \<or> cl_pid c \<noteq> cl_expected_pid c then EPROTO
      else if \<not> pw_gpu_window_image m \<or> \<not> owned c (gm_address m) (gm_bytes m) then EINVAL
      else ha_present ha)"

definition handle_swapchain :: "handle_answers \<Rightarrow> gpu_broker \<Rightarrow> gpu_client \<Rightarrow> pw_gpu_message \<Rightarrow> gpu_errno" where
  "handle_swapchain ha b c m =
     (if gs_wedged (bk_shared b) then EIO
      else if pw_gpu_display_image m \<and> owned c (gm_address m) (gm_bytes m) then ha_present ha else EINVAL)"

text \<open>\<open>present\<close>: the message came over the present link. \<open>slot\<close>: the client's own.\<close>

definition handle :: "handle_answers \<Rightarrow> bool \<Rightarrow> gpu_broker \<Rightarrow> nat \<Rightarrow> gpu_client \<Rightarrow> pw_gpu_message \<Rightarrow> handled option" where
  "handle ha present b slot c m =
     (let s = bk_shared b; op = operation_of (gm_operation m)
      in if present \<and> op \<notin> {Some PW_GPU_SWAPCHAIN, Some PW_GPU_WINDOW_SWAPCHAIN, Some PW_GPU_TIMING} then Some (EINVAL, m, c, s)
         else if op = Some PW_GPU_INIT \<and> cl_pid c < 0 \<and> pw_gpu_client_pid (cl_expected_pid c) (gm_argument0 m) (ha_owner ha)
         then Some (handle_init ha b c m)
         else if cl_pid c \<le> 0 then Some (EINVAL, m, c, s)
         else case op of
           Some PW_GPU_ALLOC \<Rightarrow> Some (handle_alloc ha b c m)
         | Some PW_GPU_VRANGE_RESERVE \<Rightarrow>
             Some (if gs_wedged s then (EIO, m, c, s)
                   else case vrange_reserve (ha_tables ha) (ha_range ha) c m of (st, c', m') \<Rightarrow> (st, m', c', s))
         | Some PW_GPU_VRANGE_RELEASE \<Rightarrow>
             Some (if gs_wedged s then (EIO, m, c, s)
                   else case vrange_release (ha_kernel ha) (ha_looks ha) c s m of (st, c', s') \<Rightarrow> (st, m, c', s'))
         | Some PW_GPU_VRANGE_BIND \<Rightarrow> Some (if gs_wedged s then EIO else vrange_bind (ha_bind ha) True c m, m, c, s)
         | Some PW_GPU_VRANGE_UNBIND \<Rightarrow> Some (if gs_wedged s then EIO else vrange_bind (ha_bind ha) False c m, m, c, s)
         | Some PW_GPU_FREE \<Rightarrow> handle_free ha b c m
         | Some PW_GPU_SUBMIT \<Rightarrow>
             map_option (\<lambda>(st, c', s'). (st, m, c', s')) (submit (ha_kernel ha) (ha_stamps ha) (ha_submit ha) (ha_words ha) slot c s m)
         | Some PW_GPU_PRESENT_LINK \<Rightarrow> (case handle_link ha c of (st, c') \<Rightarrow> Some (st, m, c', s))
         | Some PW_GPU_TESS \<Rightarrow> (case handle_tess c m of (st, c') \<Rightarrow> Some (st, m, c', s))
         | Some PW_GPU_TIMING \<Rightarrow> Some (E_OK, m, c, s)
         | Some PW_GPU_OFFCHIP \<Rightarrow> (case handle_offchip c m of (st, c') \<Rightarrow> Some (st, m, c', s))
         | Some PW_GPU_WINDOW_SWAPCHAIN \<Rightarrow> Some (handle_window ha b c m, m, c, s)
         | Some PW_GPU_SWAPCHAIN \<Rightarrow> Some (handle_swapchain ha b c m, m, c, s)
         | _ \<Rightarrow> Some (EINVAL, m, c, s))"

text \<open>
  A message as it arrives: a packet of another size, one with descriptors, or one out of sequence ends
  the client. The answer's status, \<open>None\<close> when there is none, and the broker after the reply is out.
\<close>

definition serve_message :: "handle_answers \<Rightarrow> bool \<Rightarrow> bool \<Rightarrow> gpu_broker \<Rightarrow> nat \<Rightarrow> pw_gpu_message \<Rightarrow>
    ((gpu_errno \<times> pw_gpu_message) option \<times> gpu_broker) option" where
  "serve_message ha present whole b slot m =
     (let c = bk_clients b ! slot;
          expected = (if present then cl_present_sequence c else cl_sequence c) + 1;
          counted = (if present then c\<lparr>cl_present_sequence := gm_sequence m\<rparr> else c\<lparr>cl_sequence := gm_sequence m\<rparr>)
      in if \<not> whole \<or> gm_magic m \<noteq> PW_GPU_MAGIC \<or> gm_status m \<noteq> 0 \<or> gm_sequence m \<noteq> expected
         then Some (None, b\<lparr>bk_clients := (bk_clients b)[slot := c\<lparr>cl_ended := True\<rparr>]\<rparr>)
         else case handle ha present b slot counted m of
                None \<Rightarrow> None
              | Some (st, m', c', s') \<Rightarrow>
                  Some (Some (st, m'), note_peaks (b\<lparr>bk_clients := (bk_clients b)[slot := c'], bk_shared := kick s'\<rparr>)))"

section \<open>The life of a client\<close>

text \<open>\<open>pair\<close>: the socket pair, when it could be made; \<open>thread\<close>: the client's thread was started.\<close>

definition open_client :: "(int \<times> int) option \<Rightarrow> bool \<Rightarrow> int \<Rightarrow> gpu_broker \<Rightarrow> (int \<times> int) option \<times> gpu_broker" where
  "open_client pair thread expected_pid b =
     (if \<not> bk_started b then (None, b)
      else case (find (\<lambda>(i, c). cl_socket c < 0) (enumerate 0 (bk_clients b)), pair) of
             (Some (i, _), Some (ours, theirs)) \<Rightarrow>
               if bk_next_cookie b < 2 ^ 31 - 1
               then let cookie = bk_next_cookie b + 1;
                        b' = b\<lparr>bk_next_cookie := cookie\<rparr>
                    in if thread
                       then (Some (cookie, theirs), b'\<lparr>bk_clients := (bk_clients b)[i :=
                               client_new\<lparr>cl_expected_pid := expected_pid, cl_socket := ours, cl_cookie := cookie\<rparr>]\<rparr>)
                       else (None, b'\<lparr>bk_clients := (bk_clients b)[i := client_new]\<rparr>)
               else (None, b)
           | _ \<Rightarrow> (None, b))"

definition close_client :: "kernel_answers \<Rightarrow> fence_looks \<Rightarrow> nat \<Rightarrow> gpu_broker \<Rightarrow> gpu_broker option" where
  "close_client ke fl slot b =
     (let c = bk_clients b ! slot; s = bk_shared b;
          settled = (if gs_wedged s then Some s
                     else case drain ke (fl_drain_now fl) (fl_drain_later fl) s of
                            (drained, s1) \<Rightarrow> if drained then Some s1 else give_up s1)
      in map_option (\<lambda>s1.
           let s2 = (if gs_wedged s1 then s1
                     else fold (\<lambda>r. call (Vrange_release (vr_memory r))) (filter (\<lambda>r. vr_address r \<noteq> 0) (cl_ranges c)) s1);
               s3 = (if gs_wedged s2 then s2 else fold (release ke) (filter (\<lambda>a. buf_token a \<noteq> 0) (cl_buffers c)) s2);
               s4 = call (Close_fd (cl_socket c)) s3;
               s5 = (if 0 \<le> cl_present_socket c then call (Close_fd (cl_present_socket c)) s4 else s4)
           in b\<lparr>bk_clients := (bk_clients b)[slot := client_new], bk_shared := s5\<rparr>) settled)"

section \<open>What a message keeps\<close>

lemma map_host_fences:
  "map_host ke ma at sz s = (mapped, fd, dmem, s') \<Longrightarrow> gs_fences s' = gs_fences s \<and> gs_wedged s' = gs_wedged s"
  by (auto simp: map_host_def shared_object_def Let_def split: option.splits prod.splits if_splits)

lemma undo_map_fences [simp]: "gs_fences (undo_map ke fd dmem sz s) = gs_fences s" "gs_wedged (undo_map ke fd dmem sz s) = gs_wedged s"
  by (simp_all add: undo_map_def Let_def)

lemma put_cursor_fences [simp]: "gs_fences (put_cursor w x s) = gs_fences s" "gs_wedged (put_cursor w x s) = gs_wedged s"
  by (simp_all add: put_cursor_def)

lemma cursor_search_fences:
  "cursor_search al window region sz alignment left cursor s = (found, stage, cursor', s') \<Longrightarrow>
     gs_fences s' = gs_fences s \<and> gs_wedged s' = gs_wedged s"
proof (induction left arbitrary: cursor s)
  case 0
  then show ?case by (subst (asm) cursor_search.simps) (auto simp: Let_def split: if_splits prod.splits)
next
  case (Suc left)
  let ?a = "align_to cursor alignment"
  obtain err got where r: "al_reserve al ?a sz = (err, got)" by (cases "al_reserve al ?a sz")
  let ?s1 = "if got \<noteq> 0 \<and> got \<noteq> ?a then call (Munmap got sz) s else s"
  let ?next = "?a + (if push_bit 20 2 < sz then sz else push_bit 20 2)"
  show ?case
  proof (cases "window \<and> \<not> pw_gpu_contains (fst region) (snd region) ?a sz \<or> err = 0 \<and> got = ?a")
    case True
    then have "s' = s" using Suc.prems r by (subst (asm) cursor_search.simps) (auto simp: Let_def split: if_splits)
    then show ?thesis by simp
  next
    case False
    then have "cursor_search al window region sz alignment left ?next ?s1 = (found, stage, cursor', s')"
      using Suc.prems r by (subst (asm) cursor_search.simps) (simp only: Let_def prod.case nat.case, auto split: if_splits)
    from Suc.IH [OF this] show ?thesis by (simp split: if_splits)
  qed
qed

text \<open>An allocation touches the buffers, the accounts and the ranges' free lists, nothing in flight.\<close>

definition untouched :: "gpu_client \<Rightarrow> gpu_shared \<Rightarrow> gpu_client \<Rightarrow> gpu_shared \<Rightarrow> bool" where
  "untouched c s c' s' \<longleftrightarrow> gs_fences s' = gs_fences s \<and> gs_wedged s' = gs_wedged s \<and> cl_ranges c' = cl_ranges c \<and>
     cl_range_index c' = cl_range_index c \<and> cl_range_count c' = cl_range_count c"

lemma settle_untouched: "settle c s m i ranged at sz fd dmem = (st, c', s', m', fd') \<Longrightarrow> untouched c s c' s'"
  by (auto simp: settle_def untouched_def Let_def at_stage_def set_buffer_def)

lemma at_stage_untouched [simp]: "untouched c s (at_stage stage c) s' \<longleftrightarrow> gs_fences s' = gs_fences s \<and> gs_wedged s' = gs_wedged s"
  by (auto simp: untouched_def at_stage_def)

lemma in_range_untouched:
  assumes "in_range ke al c s m i r sz alignment = (st, c', s', m', fd)"
  shows "untouched c s c' s'"
proof -
  obtain address rng where t: "hr_take sz alignment (gs_ranges s ! r) = (address, rng)" by (cases "hr_take sz alignment (gs_ranges s ! r)")
  obtain mapped fd1 dmem s1 where mh: "map_host ke (al_map al) address sz (s\<lparr>gs_ranges := (gs_ranges s)[r := rng]\<rparr>) = (mapped, fd1, dmem, s1)"
    by (rule prod_cases4)
  have s1: "gs_fences s1 = gs_fences s" "gs_wedged s1 = gs_wedged s" using map_host_fences [OF mh] by simp_all
  show ?thesis
  proof (cases "address \<noteq> 0 \<and> mapped = Some address \<and> al_grant al")
    case True
    then have "settle c s1 m i True address sz fd1 dmem = (st, c', s', m', fd)" using assms t mh by (simp add: in_range_def)
    from settle_untouched [OF this] show ?thesis using s1 by (simp add: untouched_def)
  next
    case False
    then show ?thesis using assms t mh s1 by (auto simp: in_range_def Let_def split: if_splits)
  qed
qed

lemma at_cursor_untouched:
  assumes "at_cursor ke al region c s m i sz alignment = (st, c', s', m', fd)"
  shows "untouched c s c' s'"
proof -
  let ?w = "gm_argument1 m \<noteq> 0"
  obtain found stage cursor s1 where cs: "cursor_search al ?w region sz alignment 63 (if ?w then gs_window s else gs_high s) s = (found, stage, cursor, s1)"
    by (rule prod_cases4)
  note f1 = cursor_search_fences [OF cs]
  show ?thesis
  proof (cases found)
    case (Inl err)
    then show ?thesis using assms cs f1 by (auto simp: at_cursor_def Let_def)
  next
    case (Inr address)
    obtain mapped fd1 dmem s2 where mh: "map_host ke (al_map al) address sz (put_cursor ?w cursor s1) = (mapped, fd1, dmem, s2)"
      by (rule prod_cases4)
    have s2: "gs_fences s2 = gs_fences s" "gs_wedged s2 = gs_wedged s" using map_host_fences [OF mh] f1 by simp_all
    show ?thesis
    proof (cases "mapped = Some address \<and> al_grant al")
      case True
      then have "settle c (put_cursor ?w (address + sz) s2) m i False address sz fd1 dmem = (st, c', s', m', fd)"
        using assms cs Inr mh by (simp add: at_cursor_def Let_def)
      from settle_untouched [OF this] show ?thesis using s2 by (simp add: untouched_def)
    next
      case False
      then show ?thesis using assms cs Inr mh s2 by (auto simp: at_cursor_def Let_def split: if_splits)
    qed
  qed
qed

lemma allocate_untouched:
  assumes "allocate ke al hl region c s m = (st, c', s', m', fd)"
  shows "untouched c s c' s'"
proof -
  have loc: "allocate_local al c s m i sz = (st, c', s', m', fd) \<Longrightarrow> untouched c s c' s'" for i sz
    by (auto simp: allocate_local_def Let_def untouched_def at_stage_def set_buffer_def split: if_splits option.splits)
  show ?thesis
    using assms loc in_range_untouched at_cursor_untouched
    unfolding allocate_def Let_def by (auto split: if_splits option.splits)
qed

text \<open>Everything the broker keeps of a client and of what is in flight.\<close>

definition broker_inv :: "u64 \<Rightarrow> gpu_client \<Rightarrow> gpu_shared \<Rightarrow> bool" where
  "broker_inv hl c s \<longleftrightarrow> client_ok hl c \<and> ranges_ok c \<and> flight_ok s"

text \<open>What the platform promises: sizes kept, reserved ranges apart, a fence value issued recently.\<close>

definition answers_ok :: "handle_answers \<Rightarrow> gpu_client \<Rightarrow> gpu_shared \<Rightarrow> pw_gpu_message \<Rightarrow> bool" where
  "answers_ok ha c s m \<longleftrightarrow>
     (\<forall>memory. al_memory (ha_alloc ha) = Some memory \<longrightarrow> mem_bytes memory = (gm_bytes m + 16383) AND NOT 16383) \<and>
     (\<forall>memory. ha_range ha = Some memory \<longrightarrow> fresh_range c memory) \<and>
     looks_recent s (ha_looks ha) \<and> submit_recent s (ha_submit ha)"

lemma ranges_ok_cong:
  "cl_ranges c' = cl_ranges c \<Longrightarrow> cl_range_index c' = cl_range_index c \<Longrightarrow> cl_range_count c' = cl_range_count c \<Longrightarrow> ranges_ok c' = ranges_ok c"
  by (simp add: ranges_ok_def)

lemma client_ok_cong:
  "cl_buffers c' = cl_buffers c \<Longrightarrow> cl_allocated c' = cl_allocated c \<Longrightarrow> cl_local c' = cl_local c \<Longrightarrow> client_ok hl c' = client_ok hl c"
  by (simp add: client_ok_def)

lemma free_buffer_ranges:
  "free_buffer ke fl i c s = Some (c', s') \<Longrightarrow> cl_ranges c' = cl_ranges c \<and> cl_range_index c' = cl_range_index c \<and> cl_range_count c' = cl_range_count c"
  by (auto simp: free_buffer_def Let_def set_buffer_def split: if_splits prod.splits)

lemma launch_client: "launch ts su ws slot tess offchip staging c s = Some (st, c', s') \<Longrightarrow> \<exists>n. c' = c\<lparr>cl_submissions := n\<rparr>"
  by (auto simp: launch_def Let_def split: if_splits prod.splits intro: exI [of _ "cl_submissions c"])

lemma submit_client:
  "submit ke ts su ws slot c s m = Some (st, c', s') \<Longrightarrow> \<exists>n. c' = c\<lparr>cl_submissions := n\<rparr>"
  by (auto simp: submit_def Let_def split: if_splits prod.splits option.splits bool.splits dest: launch_client
      intro: exI [of _ "cl_submissions c"])

lemma submit_flight:
  assumes "flight_ok s" and "submit_recent s su" and "submit ke ts su ws slot c s m = Some (st, c', s')"
  shows "flight_ok s'"
  using assms
proof (cases rule: submit_cases)
  case (launched tess offchip staging s4 s5)
  then show ?thesis using launch_kept [OF launched(1-4,7)] by blast
qed simp

lemma vrange_reserve_buffers:
  "vrange_reserve tables got c m = (st, c', m') \<Longrightarrow> cl_buffers c' = cl_buffers c \<and> cl_allocated c' = cl_allocated c \<and> cl_local c' = cl_local c"
  by (auto simp: vrange_reserve_def Let_def split: if_splits option.splits)

lemma vrange_release_buffers:
  "vrange_release ke fl c s m = (st, c', s') \<Longrightarrow> cl_buffers c' = cl_buffers c \<and> cl_allocated c' = cl_allocated c \<and> cl_local c' = cl_local c"
  by (auto simp: vrange_release_def split: if_splits option.splits prod.splits bool.splits)

lemma named_buffer_Some: "named_buffer c m = Some i \<Longrightarrow> i < length (cl_buffers c) \<and> buf_token (cl_buffers c ! i) \<noteq> 0"
  by (auto simp: named_buffer_def find_Some_iff nth_enumerate_eq)

lemma handle_alloc_inv:
  assumes "broker_inv (bk_host_limit b) c (bk_shared b)" and "bk_host_limit b \<le> PW_GPU_HOST_LIMIT_MAX"
    and "cl_next_token c + 1 \<noteq> 0" and "answers_ok ha c (bk_shared b) m" and "handle_alloc ha b c m = (st, m', c', s')"
  shows "broker_inv (bk_host_limit b) c' s'"
proof (cases "gs_wedged (bk_shared b)")
  case True
  then show ?thesis using assms(1,5) by (simp add: handle_alloc_def)
next
  case False
  obtain st1 c1 s1 m1 fd where a: "allocate (ha_kernel ha) (ha_alloc ha) (bk_host_limit b) (ha_window ha) c (bk_shared b) m = (st1, c1, s1, m1, fd)"
    by (rule prod_cases5)
  have eq: "c' = c1" "s' = s1" using assms(5) False a by (simp_all add: handle_alloc_def)
  have "client_ok (bk_host_limit b) c1"
    using allocate_kept [OF _ assms(2,3) _ a] assms(1,4) by (simp add: broker_inv_def answers_ok_def)
  then show ?thesis using allocate_untouched [OF a] assms(1) eq
    by (simp add: broker_inv_def untouched_def ranges_ok_def flight_ok_def Let_def)
qed

lemma handle_free_inv:
  assumes "broker_inv (bk_host_limit b) c (bk_shared b)" and "answers_ok ha c (bk_shared b) m"
    and "handle_free ha b c m = Some (st, m', c', s')"
  shows "broker_inv (bk_host_limit b) c' s'"
proof (cases "named_buffer c m")
  case None
  then show ?thesis using assms(1,3) by (simp add: handle_free_def)
next
  case (Some i)
  note slot = named_buffer_Some [OF Some]
  let ?a = "cl_buffers c ! i"
  let ?c1 = "if cl_tess c \<noteq> 0 \<and> pw_gpu_contains (buf_address ?a) (buf_bytes ?a) (cl_tess c) (ucast (cl_tess_bytes c))
      then c\<lparr>cl_tess := 0, cl_tess_bytes := 0\<rparr> else c"
  have f: "free_buffer (ha_kernel ha) (ha_looks ha) i ?c1 (bk_shared b) = Some (c', s')"
    using assms(3) Some unfolding handle_free_def Let_def by (auto split: option.splits)
  have c1: "client_ok (bk_host_limit b) ?c1" "cl_buffers ?c1 = cl_buffers c" "cl_ranges ?c1 = cl_ranges c"
    "cl_range_index ?c1 = cl_range_index c" "cl_range_count ?c1 = cl_range_count c"
    using assms(1) by (auto simp: broker_inv_def client_ok_def)
  have "client_ok (bk_host_limit b) c' \<and> flight_ok s'"
    using free_buffer_kept [OF c1(1) _ _ _ _ f] slot c1(2) assms(1,2) by (simp add: broker_inv_def answers_ok_def)
  moreover have "ranges_ok c'" using free_buffer_ranges [OF f] c1 assms(1) ranges_ok_cong [of c' c] by (simp add: broker_inv_def)
  ultimately show ?thesis by (simp add: broker_inv_def)
qed

text \<open>A handler that only sets fields of the client outside its accounts and ranges.\<close>

lemma broker_inv_same:
  "broker_inv hl c s \<Longrightarrow> cl_buffers c' = cl_buffers c \<Longrightarrow> cl_allocated c' = cl_allocated c \<Longrightarrow> cl_local c' = cl_local c \<Longrightarrow>
     cl_ranges c' = cl_ranges c \<Longrightarrow> cl_range_index c' = cl_range_index c \<Longrightarrow> cl_range_count c' = cl_range_count c \<Longrightarrow> broker_inv hl c' s"
  by (simp add: broker_inv_def client_ok_def ranges_ok_def)

lemma handle_op_inv:
  assumes "broker_inv (bk_host_limit b) c (bk_shared b)" and "bk_host_limit b \<le> PW_GPU_HOST_LIMIT_MAX"
    and "cl_next_token c + 1 \<noteq> 0" and "answers_ok ha c (bk_shared b) m" and "handle ha present b slot c m = Some (st, m', c', s')"
    and "0 < cl_pid c" and "\<not> (present \<and> operation_of (gm_operation m) \<notin> {Some PW_GPU_SWAPCHAIN, Some PW_GPU_WINDOW_SWAPCHAIN, Some PW_GPU_TIMING})"
    and "operation_of (gm_operation m) = Some op"
  shows "broker_inv (bk_host_limit b) c' s'"
proof -
  have eq: "handle ha present b slot c m = (case op of
           PW_GPU_ALLOC \<Rightarrow> Some (handle_alloc ha b c m)
         | PW_GPU_VRANGE_RESERVE \<Rightarrow>
             Some (if gs_wedged (bk_shared b) then (EIO, m, c, bk_shared b)
                   else case vrange_reserve (ha_tables ha) (ha_range ha) c m of (st, c', m') \<Rightarrow> (st, m', c', bk_shared b))
         | PW_GPU_VRANGE_RELEASE \<Rightarrow>
             Some (if gs_wedged (bk_shared b) then (EIO, m, c, bk_shared b)
                   else case vrange_release (ha_kernel ha) (ha_looks ha) c (bk_shared b) m of (st, c', s') \<Rightarrow> (st, m, c', s'))
         | PW_GPU_VRANGE_BIND \<Rightarrow> Some (if gs_wedged (bk_shared b) then EIO else vrange_bind (ha_bind ha) True c m, m, c, bk_shared b)
         | PW_GPU_VRANGE_UNBIND \<Rightarrow> Some (if gs_wedged (bk_shared b) then EIO else vrange_bind (ha_bind ha) False c m, m, c, bk_shared b)
         | PW_GPU_FREE \<Rightarrow> handle_free ha b c m
         | PW_GPU_SUBMIT \<Rightarrow>
             map_option (\<lambda>(st, c', s'). (st, m, c', s')) (submit (ha_kernel ha) (ha_stamps ha) (ha_submit ha) (ha_words ha) slot c (bk_shared b) m)
         | PW_GPU_PRESENT_LINK \<Rightarrow> (case handle_link ha c of (st, c') \<Rightarrow> Some (st, m, c', bk_shared b))
         | PW_GPU_TESS \<Rightarrow> (case handle_tess c m of (st, c') \<Rightarrow> Some (st, m, c', bk_shared b))
         | PW_GPU_TIMING \<Rightarrow> Some (E_OK, m, c, bk_shared b)
         | PW_GPU_OFFCHIP \<Rightarrow> (case handle_offchip c m of (st, c') \<Rightarrow> Some (st, m, c', bk_shared b))
         | PW_GPU_WINDOW_SWAPCHAIN \<Rightarrow> Some (handle_window ha b c m, m, c, bk_shared b)
         | PW_GPU_SWAPCHAIN \<Rightarrow> Some (handle_swapchain ha b c m, m, c, bk_shared b)
         | _ \<Rightarrow> Some (EINVAL, m, c, bk_shared b))"
    using assms(6,7,8) unfolding handle_def Let_def by (cases op) auto
  note h = assms(5) [unfolded eq]
  have keep: "c' = c \<Longrightarrow> s' = bk_shared b \<Longrightarrow> broker_inv (bk_host_limit b) c' s'" using assms(1) by simp
  have inv: "client_ok (bk_host_limit b) c" "ranges_ok c" "flight_ok (bk_shared b)" using assms(1) by (simp_all add: broker_inv_def)
  show ?thesis
  proof (cases op)
    case PW_GPU_ALLOC
    then show ?thesis using h by (intro handle_alloc_inv [OF assms(1-4)]) auto
  next
    case PW_GPU_FREE
    then show ?thesis using h by (intro handle_free_inv [OF assms(1,4)]) auto
  next
    case PW_GPU_SUBMIT
    then have sub: "submit (ha_kernel ha) (ha_stamps ha) (ha_submit ha) (ha_words ha) slot c (bk_shared b) m = Some (st, c', s')" using h by auto
    obtain n where "c' = c\<lparr>cl_submissions := n\<rparr>" using submit_client [OF sub] by blast
    then show ?thesis using inv submit_flight [OF inv(3) _ sub] assms(4) by (simp add: broker_inv_def answers_ok_def client_ok_def ranges_ok_def)
  next
    case PW_GPU_TESS
    then show ?thesis using h assms(1) by (auto simp: handle_tess_def split: if_splits intro: broker_inv_same [OF assms(1)])
  next
    case PW_GPU_OFFCHIP
    then show ?thesis using h assms(1) by (auto simp: handle_offchip_def split: if_splits intro: broker_inv_same [OF assms(1)])
  next
    case PW_GPU_PRESENT_LINK
    then show ?thesis using h assms(1) by (auto simp: handle_link_def split: if_splits option.splits intro: broker_inv_same [OF assms(1)])
  next
    case PW_GPU_VRANGE_RESERVE
    obtain st1 c1 m1 where r: "vrange_reserve (ha_tables ha) (ha_range ha) c m = (st1, c1, m1)" by (rule prod_cases3)
    have "ranges_ok c1" using vrange_reserve_kept [OF inv(2) _ r] assms(4) by (simp add: answers_ok_def)
    then have "broker_inv (bk_host_limit b) c1 (bk_shared b)"
      using inv client_ok_cong [of c1 c] vrange_reserve_buffers [OF r] by (simp add: broker_inv_def)
    then show ?thesis using h PW_GPU_VRANGE_RESERVE r keep by (auto split: if_splits)
  next
    case PW_GPU_VRANGE_RELEASE
    obtain st1 c1 s1 where r: "vrange_release (ha_kernel ha) (ha_looks ha) c (bk_shared b) m = (st1, c1, s1)" by (rule prod_cases3)
    have "ranges_ok c1 \<and> flight_ok s1" using vrange_release_kept [OF inv(2,3) _ r] assms(4) by (simp add: answers_ok_def)
    then have "broker_inv (bk_host_limit b) c1 s1"
      using inv client_ok_cong [of c1 c] vrange_release_buffers [OF r] by (simp add: broker_inv_def)
    then show ?thesis using h PW_GPU_VRANGE_RELEASE r keep by (auto split: if_splits)
  qed (use h keep in auto)
qed

lemma handle_inv:
  assumes "broker_inv (bk_host_limit b) c (bk_shared b)" and "bk_host_limit b \<le> PW_GPU_HOST_LIMIT_MAX"
    and "cl_next_token c + 1 \<noteq> 0" and "answers_ok ha c (bk_shared b) m" and "handle ha present b slot c m = Some (st, m', c', s')"
  shows "broker_inv (bk_host_limit b) c' s'"
proof (cases "0 < cl_pid c \<and> \<not> (present \<and> operation_of (gm_operation m) \<notin> {Some PW_GPU_SWAPCHAIN, Some PW_GPU_WINDOW_SWAPCHAIN, Some PW_GPU_TIMING}) \<and>
    operation_of (gm_operation m) \<noteq> None")
  case True
  then obtain op where "operation_of (gm_operation m) = Some op" by auto
  then show ?thesis using handle_op_inv [OF assms] True by blast
next
  case False
  then have "(c' = c \<or> c' = c\<lparr>cl_pid := uint (gm_argument0 m)\<rparr>) \<and> s' = bk_shared b"
    using assms(5) by (auto simp: handle_def Let_def handle_init_def split: if_splits)
  then show ?thesis using assms(1) broker_inv_same [OF assms(1), of "c\<lparr>cl_pid := uint (gm_argument0 m)\<rparr>"] by auto
qed

section \<open>A running broker\<close>

definition broker_ok :: "gpu_broker \<Rightarrow> bool" where
  "broker_ok b \<longleftrightarrow> (\<forall>c \<in> set (bk_clients b). client_ok (bk_host_limit b) c \<and> ranges_ok c) \<and> flight_ok (bk_shared b) \<and>
     bk_host_limit b \<le> PW_GPU_HOST_LIMIT_MAX"

definition broker_started :: "u64 \<Rightarrow> bool \<Rightarrow> bool list \<Rightarrow> gpu_broker" where
  "broker_started hl local_memory granted =
     \<lparr>bk_shared = gpu_shared_new\<lparr>gs_ranges := host_ranges_reserve granted host_ranges\<rparr>, bk_clients = replicate 32 client_new,
       bk_started = True, bk_local_memory = local_memory, bk_host_limit = hl, bk_console_model = 0, bk_next_cookie = 0,
       bk_host_peak = 0, bk_local_peak = 0\<rparr>"

text \<open>The broker's steps: a message, a look at the fence while idle, a client opened, a client closed.\<close>

inductive broker_step :: "gpu_broker \<Rightarrow> gpu_broker \<Rightarrow> bool" where
  message: "slot < length (bk_clients b) \<Longrightarrow> cl_next_token (bk_clients b ! slot) + 1 \<noteq> 0 \<Longrightarrow>
    answers_ok ha (bk_clients b ! slot) (bk_shared b) m \<Longrightarrow> serve_message ha present whole b slot m = Some (reply, b') \<Longrightarrow> broker_step b b'"
| look: "recent (bk_shared b) now \<Longrightarrow> broker_step b (b\<lparr>bk_shared := reap ke now (bk_shared b)\<rparr>)"
| opened: "open_client pair thread expected b = (result, b') \<Longrightarrow> broker_step b b'"
| closed: "slot < length (bk_clients b) \<Longrightarrow> looks_recent (bk_shared b) fl \<Longrightarrow> close_client ke fl slot b = Some b' \<Longrightarrow> broker_step b b'"

lemma client_new_ok: "client_ok hl client_new" "ranges_ok client_new"
proof -
  have "held P (replicate n no_buffer) = 0" for P n by (induction n) (simp_all add: held_def no_buffer_def)
  then show "client_ok hl client_new" by (simp add: client_ok_def client_new_def)
  show "ranges_ok client_new" by (simp add: ranges_ok_def client_new_def)
qed

lemma broker_ok_put:
  assumes "broker_ok b" and "client_ok (bk_host_limit b) c" and "ranges_ok c" and "flight_ok s"
    and "bk_clients b' = (bk_clients b)[i := c]" and "bk_shared b' = s" and "bk_host_limit b' = bk_host_limit b"
  shows "broker_ok b'"
  using assms set_update_subset_insert [of "bk_clients b" i c] unfolding broker_ok_def by auto

lemma kick_flight: "flight_ok (kick s) = flight_ok s"
proof -
  have "flight_ok (put_fences (\<lambda>f. f\<lparr>fe_kicks := fe_kicks f + 1, fe_kick := False\<rparr>) (call Suspend_point s)) = flight_ok (call Suspend_point s)"
    by (rule flight_ok_put) (simp add: ring_items_def ring_ok_def)
  then show ?thesis by (simp add: kick_def flight_ok_def Let_def)
qed

lemma serve_message_ok:
  assumes "broker_ok b" and "slot < length (bk_clients b)" and "cl_next_token (bk_clients b ! slot) + 1 \<noteq> 0"
    and "answers_ok ha (bk_clients b ! slot) (bk_shared b) m" and "serve_message ha present whole b slot m = Some (reply, b')"
  shows "broker_ok b'"
proof -
  let ?c = "bk_clients b ! slot"
  let ?n = "if present then ?c\<lparr>cl_present_sequence := gm_sequence m\<rparr> else ?c\<lparr>cl_sequence := gm_sequence m\<rparr>"
  have c: "client_ok (bk_host_limit b) ?c" "ranges_ok ?c" "flight_ok (bk_shared b)" "bk_host_limit b \<le> PW_GPU_HOST_LIMIT_MAX"
    using assms(1,2) by (simp_all add: broker_ok_def)
  have same: "cl_buffers ?n = cl_buffers ?c" "cl_allocated ?n = cl_allocated ?c" "cl_local ?n = cl_local ?c" "cl_ranges ?n = cl_ranges ?c"
    "cl_range_index ?n = cl_range_index ?c" "cl_range_count ?n = cl_range_count ?c" "cl_next_token ?n = cl_next_token ?c" by simp_all
  have inv: "broker_inv (bk_host_limit b) ?n (bk_shared b)"
    using broker_inv_same [of "bk_host_limit b" ?c "bk_shared b" ?n] same c by (simp add: broker_inv_def)
  have ans: "answers_ok ha ?n (bk_shared b) m" using assms(4) same by (simp add: answers_ok_def fresh_range_def)
  consider (ended) "b' = b\<lparr>bk_clients := (bk_clients b)[slot := ?c\<lparr>cl_ended := True\<rparr>]\<rparr>"
    | (handled) st m' c' s' where "handle ha present b slot ?n m = Some (st, m', c', s')"
        "b' = note_peaks (b\<lparr>bk_clients := (bk_clients b)[slot := c'], bk_shared := kick s'\<rparr>)"
    using assms(5) unfolding serve_message_def Let_def by (auto split: if_splits option.splits)
  then show ?thesis
  proof cases
    case ended
    then show ?thesis using c by (intro broker_ok_put [OF assms(1), of "?c\<lparr>cl_ended := True\<rparr>" "bk_shared b" _ slot])
      (simp_all add: client_ok_def ranges_ok_def)
  next
    case handled
    have "broker_inv (bk_host_limit b) c' s'" using handle_inv [OF inv c(4) _ ans handled(1)] same assms(3) by simp
    then show ?thesis using handled(2) kick_flight
      by (intro broker_ok_put [OF assms(1), of c' "kick s'" _ slot]) (simp_all add: broker_inv_def note_peaks_def Let_def)
  qed
qed

lemma open_client_ok:
  assumes "broker_ok b" and "open_client pair thread expected b = (result, b')"
  shows "broker_ok b'"
proof -
  have new: "client_ok (bk_host_limit b) (client_new\<lparr>cl_expected_pid := e, cl_socket := o1, cl_cookie := k\<rparr>)"
    "ranges_ok (client_new\<lparr>cl_expected_pid := e, cl_socket := o1, cl_cookie := k\<rparr>)" for e o1 k
    using client_new_ok by (simp_all add: client_ok_def ranges_ok_def)
  have f: "flight_ok (bk_shared b)" using assms(1) by (simp add: broker_ok_def)
  consider (same) "b' = b"
    | (served) i e o1 k where "bk_clients b' = (bk_clients b)[i := client_new\<lparr>cl_expected_pid := e, cl_socket := o1, cl_cookie := k\<rparr>]"
        "bk_shared b' = bk_shared b" "bk_host_limit b' = bk_host_limit b"
    | (plain) i where "bk_clients b' = (bk_clients b)[i := client_new]" "bk_shared b' = bk_shared b" "bk_host_limit b' = bk_host_limit b"
    using assms(2) unfolding open_client_def Let_def by (auto split: if_splits option.splits prod.splits)
  then show ?thesis
  proof cases
    case served
    then show ?thesis using broker_ok_put [OF assms(1) new f] by blast
  next
    case plain
    then show ?thesis using broker_ok_put [OF assms(1) client_new_ok f] by blast
  qed (use assms(1) in simp)
qed

lemma fold_call_simps:
  "gs_fences (fold (\<lambda>r. call (f r)) rs s) = gs_fences s" "gs_wedged (fold (\<lambda>r. call (f r)) rs s) = gs_wedged s"
  by (induction rs arbitrary: s) simp_all

lemma flight_cong: "gs_fences s' = gs_fences s \<Longrightarrow> gs_wedged s' = gs_wedged s \<Longrightarrow> flight_ok s' = flight_ok s"
  by (simp add: flight_ok_def Let_def)

lemma close_client_ok:
  assumes "broker_ok b" and "looks_recent (bk_shared b) fl" and "close_client ke fl slot b = Some b'"
  shows "broker_ok b'"
proof -
  let ?c = "bk_clients b ! slot" and ?s = "bk_shared b"
  have f: "flight_ok ?s" using assms(1) by (simp add: broker_ok_def)
  obtain drained s1 where d: "drain ke (fl_drain_now fl) (fl_drain_later fl) ?s = (drained, s1)" by (cases "drain ke (fl_drain_now fl) (fl_drain_later fl) ?s")
  have k: "flight_ok s1" "gs_wedged s1 = gs_wedged ?s" using drain_kept [OF f _ d] assms(2) by (simp_all add: looks_recent_def)
  obtain t where t: "(if gs_wedged ?s then Some ?s else if drained then Some s1 else give_up s1) = Some t"
    and sh: "gs_fences (bk_shared b') = gs_fences t" "gs_wedged (bk_shared b') = gs_wedged t"
    and cl: "bk_clients b' = (bk_clients b)[slot := client_new]" "bk_host_limit b' = bk_host_limit b"
    using assms(3) d unfolding close_client_def Let_def
    by (auto simp: fold_call_simps split: if_splits option.splits)
  have "flight_ok t"
  proof (cases "gs_wedged ?s \<or> drained")
    case True
    then show ?thesis using t f k by (auto split: if_splits)
  next
    case False
    then have "t = s1\<lparr>gs_wedged := True\<rparr>" using t by (auto simp: give_up_def split: if_splits)
    then show ?thesis using k False by (intro flight_wedge [OF k(1)]) (auto simp: flight_ok_def Let_def)
  qed
  then have "flight_ok (bk_shared b')" using flight_cong [OF sh] by simp
  then show ?thesis using broker_ok_put [OF assms(1) client_new_ok _ cl(1) refl cl(2)] by simp
qed



text \<open>Before a client has said which process it is, nothing it asks is done: every message but an
  acceptable INIT is answered EINVAL, and the client, the reply's fields and the shared state stay as
  they were. The same holds on a present link for everything but presents and their timing.\<close>

lemma unready_refused:
  assumes "cl_pid c \<le> 0 \<and> \<not> (operation_of (gm_operation m) = Some PW_GPU_INIT \<and>
        pw_gpu_client_pid (cl_expected_pid c) (gm_argument0 m) (ha_owner ha)) \<or>
      present \<and> operation_of (gm_operation m) \<notin> {Some PW_GPU_SWAPCHAIN, Some PW_GPU_WINDOW_SWAPCHAIN, Some PW_GPU_TIMING}"
  shows "handle ha present b slot c m = Some (EINVAL, m, c, bk_shared b)"
  using assms by (auto simp: handle_def Let_def)

text \<open>Who may show on a screen without composed windows: the foreground window's process when there is
  one, and then only it; and a source that does not hold the screen takes it only from nobody, from a
  holder that has not shown for 300 ms, or for the foreground process from another process. One that is
  refused leaves the holder as it was; one that is let is the holder.\<close>

lemma may_show_iff:
  "(fst (may_show windows foreground source pid now sc) \<longleftrightarrow>
     \<not> windows \<and> (foreground = 0 \<or> pid = foreground) \<and>
     (sc_holder sc = source \<or> sc_holder sc = 0 \<or> kHoldNs < now - sc_holder_ns sc \<or> foreground \<noteq> 0 \<and> sc_holder_pid sc \<noteq> foreground)) \<and>
   sc_holder (snd (may_show windows foreground source pid now sc)) =
     (if fst (may_show windows foreground source pid now sc) then source else sc_holder sc)"
  by (auto simp: may_show_def screen_hide_def Let_def)

lemma scaled_inside:
  assumes "0 \<le> a" and "a < (w :: int)" and "0 < n"
  shows "0 \<le> a * n div w" and "a * n div w < n"
proof -
  have w: "0 < w" using assms by simp
  show "0 \<le> a * n div w" using assms w by (simp add: pos_imp_zdiv_nonneg_iff)
  have "w * (a * n div w) \<le> a * n" using w mult_div_mod_eq [of w "a * n"] pos_mod_sign [OF w, of "a * n"] by linarith
  also have "\<dots> < w * n" using assms by simp
  finally show "a * n div w < n" using w by simp
qed

text \<open>The pointer is on the screen or nowhere: scaled from a picture that fills the 1920 by 1080 screen,
  a position inside the picture is a position inside the screen.\<close>

lemma screen_cursor_bounds:
  "case screen_cursor cursor x y width height of
     (sx, sy) \<Rightarrow> sx = - 1 \<and> sy = - 1 \<or> 0 \<le> sx \<and> sx < 1920 \<and> 0 \<le> sy \<and> sy < 1080"
proof (cases cursor)
  case (Some p)
  obtain px py where p: "p = (px, py)" by (cases p)
  define cx where "cx = px - x"
  define cy where "cy = py - y"
  have eq: "screen_cursor cursor x y width height =
      (if cx < 0 \<or> cy < 0 \<or> width \<le> cx \<or> height \<le> cy then (- 1, - 1) else (cx * 1920 div width, cy * 1080 div height))"
    by (simp add: screen_cursor_def Some p cx_def cy_def Let_def)
  show ?thesis unfolding eq using scaled_inside [of cx width 1920] scaled_inside [of cy height 1080] by auto
qed (simp add: screen_cursor_def)

end
