(* ===== verification/Vk_Formats.thy ===== *)
theory Vk_Formats
  imports Prelude
begin

text \<open>
  The format tables of the driver, \<open>driver/ps5vk_image.c\<close>: what each Vulkan format can be used for, the
  words by which descriptors and colour targets name it, and the questions an application asks about
  formats and images before it creates one. A flags word is the list of its bits; the queries of
  formats that Mesa answers are parameters.
\<close>

section \<open>Formats and features\<close>

datatype (plugins only: code) vk_format =
    VK_FORMAT_R8G8B8A8_UNORM
  | VK_FORMAT_A8B8G8R8_UNORM_PACK32
  | VK_FORMAT_B8G8R8A8_SRGB
  | VK_FORMAT_R8G8B8A8_SRGB
  | VK_FORMAT_R8G8B8A8_SNORM
  | VK_FORMAT_A8B8G8R8_SRGB_PACK32
  | VK_FORMAT_A8B8G8R8_SNORM_PACK32
  | VK_FORMAT_R16_SNORM
  | VK_FORMAT_R16G16_SNORM
  | VK_FORMAT_R16G16B16A16_SNORM
  | VK_FORMAT_R8G8_SNORM
  | VK_FORMAT_R8_SNORM
  | VK_FORMAT_R8_UNORM
  | VK_FORMAT_R8G8_UNORM
  | VK_FORMAT_R16_UNORM
  | VK_FORMAT_R16G16_UNORM
  | VK_FORMAT_R16G16B16A16_UNORM
  | VK_FORMAT_R16_SFLOAT
  | VK_FORMAT_R16G16_SFLOAT
  | VK_FORMAT_R16G16B16A16_SFLOAT
  | VK_FORMAT_R32_SFLOAT
  | VK_FORMAT_R32G32_SFLOAT
  | VK_FORMAT_R32G32B32A32_SFLOAT
  | VK_FORMAT_R8_UINT
  | VK_FORMAT_R8G8_UINT
  | VK_FORMAT_R8_SINT
  | VK_FORMAT_R8G8_SINT
  | VK_FORMAT_R8G8B8A8_SINT
  | VK_FORMAT_A8B8G8R8_SINT_PACK32
  | VK_FORMAT_R16_SINT
  | VK_FORMAT_R16G16_SINT
  | VK_FORMAT_R16G16B16A16_SINT
  | VK_FORMAT_R16G16B16A16_UINT
  | VK_FORMAT_R32_SINT
  | VK_FORMAT_R32G32_SINT
  | VK_FORMAT_R32G32B32A32_SINT
  | VK_FORMAT_A2B10G10R10_UINT_PACK32
  | VK_FORMAT_R16_UINT
  | VK_FORMAT_R16G16_UINT
  | VK_FORMAT_R32_UINT
  | VK_FORMAT_R32G32_UINT
  | VK_FORMAT_R8G8B8A8_UINT
  | VK_FORMAT_R5G6B5_UNORM_PACK16
  | VK_FORMAT_A1R5G5B5_UNORM_PACK16
  | VK_FORMAT_B4G4R4A4_UNORM_PACK16
  | VK_FORMAT_E5B9G9R9_UFLOAT_PACK32
  | VK_FORMAT_B10G11R11_UFLOAT_PACK32
  | VK_FORMAT_A2B10G10R10_UNORM_PACK32
  | VK_FORMAT_B8G8R8A8_UNORM
  | VK_FORMAT_D16_UNORM
  | VK_FORMAT_D32_SFLOAT
  | VK_FORMAT_D24_UNORM_S8_UINT
  | VK_FORMAT_D32_SFLOAT_S8_UINT
  | VK_FORMAT_R32G32B32_SFLOAT
  | VK_FORMAT_R32G32B32A32_UINT
  | VK_FORMAT_R32G32B32_SINT
  | VK_FORMAT_R32G32B32_UINT
  | VK_FORMAT_A8B8G8R8_UINT_PACK32
  | VK_FORMAT_other u32

datatype (plugins only: code) format_feature =
    VK_FORMAT_FEATURE_SAMPLED_IMAGE_BIT
  | VK_FORMAT_FEATURE_SAMPLED_IMAGE_FILTER_LINEAR_BIT
  | VK_FORMAT_FEATURE_TRANSFER_SRC_BIT
  | VK_FORMAT_FEATURE_TRANSFER_DST_BIT
  | VK_FORMAT_FEATURE_COLOR_ATTACHMENT_BIT
  | VK_FORMAT_FEATURE_COLOR_ATTACHMENT_BLEND_BIT
  | VK_FORMAT_FEATURE_BLIT_SRC_BIT
  | VK_FORMAT_FEATURE_BLIT_DST_BIT
  | VK_FORMAT_FEATURE_STORAGE_IMAGE_BIT
  | VK_FORMAT_FEATURE_VERTEX_BUFFER_BIT
  | VK_FORMAT_FEATURE_UNIFORM_TEXEL_BUFFER_BIT
  | VK_FORMAT_FEATURE_STORAGE_TEXEL_BUFFER_BIT
  | VK_FORMAT_FEATURE_STORAGE_IMAGE_ATOMIC_BIT
  | VK_FORMAT_FEATURE_STORAGE_TEXEL_BUFFER_ATOMIC_BIT
  | VK_FORMAT_FEATURE_DEPTH_STENCIL_ATTACHMENT_BIT

definition PS5VK_FORMAT_SWIZZLE_R001 :: u32 where "PS5VK_FORMAT_SWIZZLE_R001 = 0x0204"
definition PS5VK_FORMAT_SWIZZLE_RG01 :: u32 where "PS5VK_FORMAT_SWIZZLE_RG01 = 0x022c"
definition PS5VK_FORMAT_SWIZZLE_RGB1 :: u32 where "PS5VK_FORMAT_SWIZZLE_RGB1 = 0x03ac"
definition PS5VK_FORMAT_SWIZZLE_RGBA :: u32 where "PS5VK_FORMAT_SWIZZLE_RGBA = 0x0fac"
definition PS5VK_FORMAT_SWIZZLE_WZYX :: u32 where "PS5VK_FORMAT_SWIZZLE_WZYX = 0x0977"
definition PS5VK_FORMAT_SWIZZLE_ZYX1 :: u32 where "PS5VK_FORMAT_SWIZZLE_ZYX1 = 0x052e"
definition PS5VK_FORMAT_SWIZZLE_ZYXW :: u32 where "PS5VK_FORMAT_SWIZZLE_ZYXW = 0x0f2e"
definition PS5VK_FORMAT_SWIZZLE_YZWX :: u32 where "PS5VK_FORMAT_SWIZZLE_YZWX = 0x09f5"
definition PS5VK_FORMAT_SWIZZLE_XYZ1 :: u32 where "PS5VK_FORMAT_SWIZZLE_XYZ1 = 0x05ac"

datatype ps5vk_format = Format (fmt_format: vk_format) (fmt_optimal_features: "format_feature list")
  (fmt_buffer_features: "format_feature list") (fmt_image_format: u32) (fmt_dst_sel: u32) (fmt_storage_reversed: bool)

datatype ps5vk_colour_format = Colour_format (cf_format: vk_format) (cf_cb_format: u32) (cf_cb_number_type: u32)
  (cf_cb_comp_swap: u32) (cf_export_format: u32)

section \<open>The tables\<close>

text \<open>The rows in their order, in four pieces. A row that stops early has 0 in what it leaves out.\<close>

definition formats_first :: "ps5vk_format list" where
  "formats_first = [
     Format VK_FORMAT_R8G8B8A8_UNORM
       [VK_FORMAT_FEATURE_SAMPLED_IMAGE_BIT, VK_FORMAT_FEATURE_SAMPLED_IMAGE_FILTER_LINEAR_BIT,
        VK_FORMAT_FEATURE_TRANSFER_SRC_BIT, VK_FORMAT_FEATURE_TRANSFER_DST_BIT,
        VK_FORMAT_FEATURE_COLOR_ATTACHMENT_BIT, VK_FORMAT_FEATURE_COLOR_ATTACHMENT_BLEND_BIT,
        VK_FORMAT_FEATURE_BLIT_SRC_BIT, VK_FORMAT_FEATURE_BLIT_DST_BIT, VK_FORMAT_FEATURE_STORAGE_IMAGE_BIT]
       [VK_FORMAT_FEATURE_VERTEX_BUFFER_BIT, VK_FORMAT_FEATURE_UNIFORM_TEXEL_BUFFER_BIT,
        VK_FORMAT_FEATURE_STORAGE_TEXEL_BUFFER_BIT] 56 PS5VK_FORMAT_SWIZZLE_RGBA False,
     Format VK_FORMAT_A8B8G8R8_UNORM_PACK32
       [VK_FORMAT_FEATURE_SAMPLED_IMAGE_BIT, VK_FORMAT_FEATURE_SAMPLED_IMAGE_FILTER_LINEAR_BIT,
        VK_FORMAT_FEATURE_TRANSFER_SRC_BIT, VK_FORMAT_FEATURE_TRANSFER_DST_BIT, VK_FORMAT_FEATURE_BLIT_SRC_BIT,
        VK_FORMAT_FEATURE_COLOR_ATTACHMENT_BIT, VK_FORMAT_FEATURE_COLOR_ATTACHMENT_BLEND_BIT,
        VK_FORMAT_FEATURE_BLIT_DST_BIT]
       [VK_FORMAT_FEATURE_VERTEX_BUFFER_BIT, VK_FORMAT_FEATURE_UNIFORM_TEXEL_BUFFER_BIT,
        VK_FORMAT_FEATURE_STORAGE_TEXEL_BUFFER_BIT] 56 PS5VK_FORMAT_SWIZZLE_WZYX False,
     Format VK_FORMAT_B8G8R8A8_SRGB
       [VK_FORMAT_FEATURE_SAMPLED_IMAGE_BIT, VK_FORMAT_FEATURE_SAMPLED_IMAGE_FILTER_LINEAR_BIT,
        VK_FORMAT_FEATURE_TRANSFER_SRC_BIT, VK_FORMAT_FEATURE_TRANSFER_DST_BIT, VK_FORMAT_FEATURE_BLIT_SRC_BIT,
        VK_FORMAT_FEATURE_BLIT_DST_BIT, VK_FORMAT_FEATURE_COLOR_ATTACHMENT_BIT,
        VK_FORMAT_FEATURE_COLOR_ATTACHMENT_BLEND_BIT]
       [] 130 PS5VK_FORMAT_SWIZZLE_ZYXW False,
     Format VK_FORMAT_R8G8B8A8_SRGB
       [VK_FORMAT_FEATURE_SAMPLED_IMAGE_BIT, VK_FORMAT_FEATURE_SAMPLED_IMAGE_FILTER_LINEAR_BIT,
        VK_FORMAT_FEATURE_TRANSFER_SRC_BIT, VK_FORMAT_FEATURE_TRANSFER_DST_BIT, VK_FORMAT_FEATURE_BLIT_SRC_BIT,
        VK_FORMAT_FEATURE_COLOR_ATTACHMENT_BIT, VK_FORMAT_FEATURE_COLOR_ATTACHMENT_BLEND_BIT,
        VK_FORMAT_FEATURE_BLIT_DST_BIT]
       [] 130 PS5VK_FORMAT_SWIZZLE_RGBA False,
     Format VK_FORMAT_R8G8B8A8_SNORM
       [VK_FORMAT_FEATURE_SAMPLED_IMAGE_BIT, VK_FORMAT_FEATURE_SAMPLED_IMAGE_FILTER_LINEAR_BIT,
        VK_FORMAT_FEATURE_TRANSFER_SRC_BIT, VK_FORMAT_FEATURE_TRANSFER_DST_BIT, VK_FORMAT_FEATURE_BLIT_SRC_BIT,
        VK_FORMAT_FEATURE_STORAGE_IMAGE_BIT]
       [VK_FORMAT_FEATURE_VERTEX_BUFFER_BIT, VK_FORMAT_FEATURE_UNIFORM_TEXEL_BUFFER_BIT,
        VK_FORMAT_FEATURE_STORAGE_TEXEL_BUFFER_BIT] 57 PS5VK_FORMAT_SWIZZLE_RGBA False,
     Format VK_FORMAT_A8B8G8R8_SRGB_PACK32
       [VK_FORMAT_FEATURE_SAMPLED_IMAGE_BIT, VK_FORMAT_FEATURE_SAMPLED_IMAGE_FILTER_LINEAR_BIT,
        VK_FORMAT_FEATURE_TRANSFER_SRC_BIT, VK_FORMAT_FEATURE_TRANSFER_DST_BIT, VK_FORMAT_FEATURE_BLIT_SRC_BIT,
        VK_FORMAT_FEATURE_BLIT_DST_BIT, VK_FORMAT_FEATURE_COLOR_ATTACHMENT_BIT,
        VK_FORMAT_FEATURE_COLOR_ATTACHMENT_BLEND_BIT]
       [] 130 PS5VK_FORMAT_SWIZZLE_RGBA True,
     Format VK_FORMAT_A8B8G8R8_SNORM_PACK32
       [VK_FORMAT_FEATURE_SAMPLED_IMAGE_BIT, VK_FORMAT_FEATURE_SAMPLED_IMAGE_FILTER_LINEAR_BIT,
        VK_FORMAT_FEATURE_TRANSFER_SRC_BIT, VK_FORMAT_FEATURE_TRANSFER_DST_BIT, VK_FORMAT_FEATURE_BLIT_SRC_BIT]
       [VK_FORMAT_FEATURE_VERTEX_BUFFER_BIT, VK_FORMAT_FEATURE_UNIFORM_TEXEL_BUFFER_BIT,
        VK_FORMAT_FEATURE_STORAGE_TEXEL_BUFFER_BIT] 57 PS5VK_FORMAT_SWIZZLE_WZYX False,
     Format VK_FORMAT_R16_SNORM
       []
       [VK_FORMAT_FEATURE_VERTEX_BUFFER_BIT] 8 PS5VK_FORMAT_SWIZZLE_R001 False,
     Format VK_FORMAT_R16G16_SNORM
       []
       [VK_FORMAT_FEATURE_VERTEX_BUFFER_BIT] 24 PS5VK_FORMAT_SWIZZLE_RG01 False,
     Format VK_FORMAT_R16G16B16A16_SNORM
       []
       [VK_FORMAT_FEATURE_VERTEX_BUFFER_BIT] 66 PS5VK_FORMAT_SWIZZLE_RGBA False,
     Format VK_FORMAT_R8G8_SNORM
       [VK_FORMAT_FEATURE_SAMPLED_IMAGE_BIT, VK_FORMAT_FEATURE_SAMPLED_IMAGE_FILTER_LINEAR_BIT,
        VK_FORMAT_FEATURE_TRANSFER_SRC_BIT, VK_FORMAT_FEATURE_TRANSFER_DST_BIT, VK_FORMAT_FEATURE_BLIT_SRC_BIT]
       [VK_FORMAT_FEATURE_VERTEX_BUFFER_BIT,
        VK_FORMAT_FEATURE_UNIFORM_TEXEL_BUFFER_BIT] 15 PS5VK_FORMAT_SWIZZLE_RG01 False,
     Format VK_FORMAT_R8_SNORM
       [VK_FORMAT_FEATURE_SAMPLED_IMAGE_BIT, VK_FORMAT_FEATURE_SAMPLED_IMAGE_FILTER_LINEAR_BIT,
        VK_FORMAT_FEATURE_TRANSFER_SRC_BIT, VK_FORMAT_FEATURE_TRANSFER_DST_BIT, VK_FORMAT_FEATURE_BLIT_SRC_BIT]
       [VK_FORMAT_FEATURE_VERTEX_BUFFER_BIT,
        VK_FORMAT_FEATURE_UNIFORM_TEXEL_BUFFER_BIT] 2 PS5VK_FORMAT_SWIZZLE_R001 False,
     Format VK_FORMAT_R8_UNORM
       [VK_FORMAT_FEATURE_SAMPLED_IMAGE_BIT, VK_FORMAT_FEATURE_SAMPLED_IMAGE_FILTER_LINEAR_BIT,
        VK_FORMAT_FEATURE_TRANSFER_SRC_BIT, VK_FORMAT_FEATURE_TRANSFER_DST_BIT, VK_FORMAT_FEATURE_BLIT_SRC_BIT,
        VK_FORMAT_FEATURE_BLIT_DST_BIT, VK_FORMAT_FEATURE_COLOR_ATTACHMENT_BIT,
        VK_FORMAT_FEATURE_COLOR_ATTACHMENT_BLEND_BIT]
       [VK_FORMAT_FEATURE_VERTEX_BUFFER_BIT,
        VK_FORMAT_FEATURE_UNIFORM_TEXEL_BUFFER_BIT] 1 PS5VK_FORMAT_SWIZZLE_R001 False,
     Format VK_FORMAT_R8G8_UNORM
       [VK_FORMAT_FEATURE_SAMPLED_IMAGE_BIT, VK_FORMAT_FEATURE_SAMPLED_IMAGE_FILTER_LINEAR_BIT,
        VK_FORMAT_FEATURE_TRANSFER_SRC_BIT, VK_FORMAT_FEATURE_TRANSFER_DST_BIT, VK_FORMAT_FEATURE_BLIT_SRC_BIT,
        VK_FORMAT_FEATURE_BLIT_DST_BIT, VK_FORMAT_FEATURE_COLOR_ATTACHMENT_BIT,
        VK_FORMAT_FEATURE_COLOR_ATTACHMENT_BLEND_BIT]
       [VK_FORMAT_FEATURE_VERTEX_BUFFER_BIT,
        VK_FORMAT_FEATURE_UNIFORM_TEXEL_BUFFER_BIT] 14 PS5VK_FORMAT_SWIZZLE_RG01 False,
     Format VK_FORMAT_R16_UNORM
       [VK_FORMAT_FEATURE_SAMPLED_IMAGE_BIT, VK_FORMAT_FEATURE_SAMPLED_IMAGE_FILTER_LINEAR_BIT,
        VK_FORMAT_FEATURE_TRANSFER_SRC_BIT, VK_FORMAT_FEATURE_TRANSFER_DST_BIT, VK_FORMAT_FEATURE_BLIT_SRC_BIT,
        VK_FORMAT_FEATURE_BLIT_DST_BIT, VK_FORMAT_FEATURE_COLOR_ATTACHMENT_BIT,
        VK_FORMAT_FEATURE_COLOR_ATTACHMENT_BLEND_BIT]
       [VK_FORMAT_FEATURE_VERTEX_BUFFER_BIT] 7 PS5VK_FORMAT_SWIZZLE_R001 False,
     Format VK_FORMAT_R16G16_UNORM
       [VK_FORMAT_FEATURE_SAMPLED_IMAGE_BIT, VK_FORMAT_FEATURE_SAMPLED_IMAGE_FILTER_LINEAR_BIT,
        VK_FORMAT_FEATURE_TRANSFER_SRC_BIT, VK_FORMAT_FEATURE_TRANSFER_DST_BIT, VK_FORMAT_FEATURE_BLIT_SRC_BIT,
        VK_FORMAT_FEATURE_BLIT_DST_BIT, VK_FORMAT_FEATURE_COLOR_ATTACHMENT_BIT,
        VK_FORMAT_FEATURE_COLOR_ATTACHMENT_BLEND_BIT]
       [VK_FORMAT_FEATURE_VERTEX_BUFFER_BIT] 23 PS5VK_FORMAT_SWIZZLE_RG01 False]"

definition formats_second :: "ps5vk_format list" where
  "formats_second = [
     Format VK_FORMAT_R16G16B16A16_UNORM
       [VK_FORMAT_FEATURE_SAMPLED_IMAGE_BIT, VK_FORMAT_FEATURE_SAMPLED_IMAGE_FILTER_LINEAR_BIT,
        VK_FORMAT_FEATURE_TRANSFER_SRC_BIT, VK_FORMAT_FEATURE_TRANSFER_DST_BIT, VK_FORMAT_FEATURE_BLIT_SRC_BIT,
        VK_FORMAT_FEATURE_BLIT_DST_BIT, VK_FORMAT_FEATURE_COLOR_ATTACHMENT_BIT,
        VK_FORMAT_FEATURE_COLOR_ATTACHMENT_BLEND_BIT]
       [VK_FORMAT_FEATURE_VERTEX_BUFFER_BIT] 65 PS5VK_FORMAT_SWIZZLE_RGBA False,
     Format VK_FORMAT_R16_SFLOAT
       [VK_FORMAT_FEATURE_SAMPLED_IMAGE_BIT, VK_FORMAT_FEATURE_SAMPLED_IMAGE_FILTER_LINEAR_BIT,
        VK_FORMAT_FEATURE_TRANSFER_SRC_BIT, VK_FORMAT_FEATURE_TRANSFER_DST_BIT, VK_FORMAT_FEATURE_BLIT_SRC_BIT,
        VK_FORMAT_FEATURE_BLIT_DST_BIT, VK_FORMAT_FEATURE_COLOR_ATTACHMENT_BIT,
        VK_FORMAT_FEATURE_COLOR_ATTACHMENT_BLEND_BIT]
       [VK_FORMAT_FEATURE_VERTEX_BUFFER_BIT,
        VK_FORMAT_FEATURE_UNIFORM_TEXEL_BUFFER_BIT] 13 PS5VK_FORMAT_SWIZZLE_R001 False,
     Format VK_FORMAT_R16G16_SFLOAT
       [VK_FORMAT_FEATURE_SAMPLED_IMAGE_BIT, VK_FORMAT_FEATURE_SAMPLED_IMAGE_FILTER_LINEAR_BIT,
        VK_FORMAT_FEATURE_TRANSFER_SRC_BIT, VK_FORMAT_FEATURE_TRANSFER_DST_BIT, VK_FORMAT_FEATURE_BLIT_SRC_BIT,
        VK_FORMAT_FEATURE_COLOR_ATTACHMENT_BIT, VK_FORMAT_FEATURE_COLOR_ATTACHMENT_BLEND_BIT,
        VK_FORMAT_FEATURE_BLIT_DST_BIT]
       [VK_FORMAT_FEATURE_VERTEX_BUFFER_BIT,
        VK_FORMAT_FEATURE_UNIFORM_TEXEL_BUFFER_BIT] 29 PS5VK_FORMAT_SWIZZLE_RG01 False,
     Format VK_FORMAT_R16G16B16A16_SFLOAT
       [VK_FORMAT_FEATURE_SAMPLED_IMAGE_BIT, VK_FORMAT_FEATURE_SAMPLED_IMAGE_FILTER_LINEAR_BIT,
        VK_FORMAT_FEATURE_TRANSFER_SRC_BIT, VK_FORMAT_FEATURE_TRANSFER_DST_BIT, VK_FORMAT_FEATURE_BLIT_SRC_BIT,
        VK_FORMAT_FEATURE_BLIT_DST_BIT, VK_FORMAT_FEATURE_COLOR_ATTACHMENT_BIT,
        VK_FORMAT_FEATURE_COLOR_ATTACHMENT_BLEND_BIT, VK_FORMAT_FEATURE_STORAGE_IMAGE_BIT]
       [VK_FORMAT_FEATURE_VERTEX_BUFFER_BIT, VK_FORMAT_FEATURE_UNIFORM_TEXEL_BUFFER_BIT,
        VK_FORMAT_FEATURE_STORAGE_TEXEL_BUFFER_BIT] 71 PS5VK_FORMAT_SWIZZLE_RGBA False,
     Format VK_FORMAT_R32_SFLOAT
       [VK_FORMAT_FEATURE_SAMPLED_IMAGE_BIT, VK_FORMAT_FEATURE_SAMPLED_IMAGE_FILTER_LINEAR_BIT,
        VK_FORMAT_FEATURE_TRANSFER_SRC_BIT, VK_FORMAT_FEATURE_TRANSFER_DST_BIT, VK_FORMAT_FEATURE_BLIT_SRC_BIT,
        VK_FORMAT_FEATURE_BLIT_DST_BIT, VK_FORMAT_FEATURE_COLOR_ATTACHMENT_BIT, VK_FORMAT_FEATURE_STORAGE_IMAGE_BIT]
       [VK_FORMAT_FEATURE_VERTEX_BUFFER_BIT, VK_FORMAT_FEATURE_UNIFORM_TEXEL_BUFFER_BIT,
        VK_FORMAT_FEATURE_STORAGE_TEXEL_BUFFER_BIT] 22 PS5VK_FORMAT_SWIZZLE_R001 False,
     Format VK_FORMAT_R32G32_SFLOAT
       [VK_FORMAT_FEATURE_SAMPLED_IMAGE_BIT, VK_FORMAT_FEATURE_SAMPLED_IMAGE_FILTER_LINEAR_BIT,
        VK_FORMAT_FEATURE_TRANSFER_SRC_BIT, VK_FORMAT_FEATURE_TRANSFER_DST_BIT, VK_FORMAT_FEATURE_BLIT_SRC_BIT,
        VK_FORMAT_FEATURE_BLIT_DST_BIT, VK_FORMAT_FEATURE_COLOR_ATTACHMENT_BIT, VK_FORMAT_FEATURE_STORAGE_IMAGE_BIT]
       [VK_FORMAT_FEATURE_VERTEX_BUFFER_BIT, VK_FORMAT_FEATURE_UNIFORM_TEXEL_BUFFER_BIT,
        VK_FORMAT_FEATURE_STORAGE_TEXEL_BUFFER_BIT] 64 PS5VK_FORMAT_SWIZZLE_RG01 False,
     Format VK_FORMAT_R32G32B32A32_SFLOAT
       [VK_FORMAT_FEATURE_COLOR_ATTACHMENT_BIT, VK_FORMAT_FEATURE_SAMPLED_IMAGE_BIT,
        VK_FORMAT_FEATURE_SAMPLED_IMAGE_FILTER_LINEAR_BIT, VK_FORMAT_FEATURE_TRANSFER_SRC_BIT,
        VK_FORMAT_FEATURE_TRANSFER_DST_BIT, VK_FORMAT_FEATURE_BLIT_SRC_BIT, VK_FORMAT_FEATURE_BLIT_DST_BIT,
        VK_FORMAT_FEATURE_STORAGE_IMAGE_BIT]
       [VK_FORMAT_FEATURE_VERTEX_BUFFER_BIT, VK_FORMAT_FEATURE_UNIFORM_TEXEL_BUFFER_BIT,
        VK_FORMAT_FEATURE_STORAGE_TEXEL_BUFFER_BIT] 77 PS5VK_FORMAT_SWIZZLE_RGBA False,
     Format VK_FORMAT_R8_UINT
       [VK_FORMAT_FEATURE_SAMPLED_IMAGE_BIT, VK_FORMAT_FEATURE_TRANSFER_SRC_BIT, VK_FORMAT_FEATURE_TRANSFER_DST_BIT,
        VK_FORMAT_FEATURE_BLIT_SRC_BIT, VK_FORMAT_FEATURE_BLIT_DST_BIT, VK_FORMAT_FEATURE_COLOR_ATTACHMENT_BIT]
       [VK_FORMAT_FEATURE_VERTEX_BUFFER_BIT,
        VK_FORMAT_FEATURE_UNIFORM_TEXEL_BUFFER_BIT] 5 PS5VK_FORMAT_SWIZZLE_R001 False,
     Format VK_FORMAT_R8G8_UINT
       [VK_FORMAT_FEATURE_SAMPLED_IMAGE_BIT, VK_FORMAT_FEATURE_TRANSFER_SRC_BIT, VK_FORMAT_FEATURE_TRANSFER_DST_BIT,
        VK_FORMAT_FEATURE_BLIT_SRC_BIT, VK_FORMAT_FEATURE_BLIT_DST_BIT, VK_FORMAT_FEATURE_COLOR_ATTACHMENT_BIT]
       [VK_FORMAT_FEATURE_VERTEX_BUFFER_BIT,
        VK_FORMAT_FEATURE_UNIFORM_TEXEL_BUFFER_BIT] 18 PS5VK_FORMAT_SWIZZLE_RG01 False,
     Format VK_FORMAT_R8_SINT
       [VK_FORMAT_FEATURE_COLOR_ATTACHMENT_BIT, VK_FORMAT_FEATURE_SAMPLED_IMAGE_BIT,
        VK_FORMAT_FEATURE_TRANSFER_SRC_BIT, VK_FORMAT_FEATURE_TRANSFER_DST_BIT, VK_FORMAT_FEATURE_BLIT_SRC_BIT,
        VK_FORMAT_FEATURE_BLIT_DST_BIT]
       [VK_FORMAT_FEATURE_VERTEX_BUFFER_BIT,
        VK_FORMAT_FEATURE_UNIFORM_TEXEL_BUFFER_BIT] 6 PS5VK_FORMAT_SWIZZLE_R001 False,
     Format VK_FORMAT_R8G8_SINT
       [VK_FORMAT_FEATURE_COLOR_ATTACHMENT_BIT, VK_FORMAT_FEATURE_SAMPLED_IMAGE_BIT,
        VK_FORMAT_FEATURE_TRANSFER_SRC_BIT, VK_FORMAT_FEATURE_TRANSFER_DST_BIT, VK_FORMAT_FEATURE_BLIT_SRC_BIT,
        VK_FORMAT_FEATURE_BLIT_DST_BIT]
       [VK_FORMAT_FEATURE_VERTEX_BUFFER_BIT,
        VK_FORMAT_FEATURE_UNIFORM_TEXEL_BUFFER_BIT] 19 PS5VK_FORMAT_SWIZZLE_RG01 False,
     Format VK_FORMAT_R8G8B8A8_SINT
       [VK_FORMAT_FEATURE_COLOR_ATTACHMENT_BIT, VK_FORMAT_FEATURE_SAMPLED_IMAGE_BIT,
        VK_FORMAT_FEATURE_TRANSFER_SRC_BIT, VK_FORMAT_FEATURE_TRANSFER_DST_BIT, VK_FORMAT_FEATURE_BLIT_SRC_BIT,
        VK_FORMAT_FEATURE_BLIT_DST_BIT, VK_FORMAT_FEATURE_STORAGE_IMAGE_BIT]
       [VK_FORMAT_FEATURE_VERTEX_BUFFER_BIT, VK_FORMAT_FEATURE_UNIFORM_TEXEL_BUFFER_BIT,
        VK_FORMAT_FEATURE_STORAGE_TEXEL_BUFFER_BIT] 61 PS5VK_FORMAT_SWIZZLE_RGBA False,
     Format VK_FORMAT_A8B8G8R8_SINT_PACK32
       [VK_FORMAT_FEATURE_COLOR_ATTACHMENT_BIT, VK_FORMAT_FEATURE_SAMPLED_IMAGE_BIT,
        VK_FORMAT_FEATURE_TRANSFER_SRC_BIT, VK_FORMAT_FEATURE_TRANSFER_DST_BIT, VK_FORMAT_FEATURE_BLIT_SRC_BIT,
        VK_FORMAT_FEATURE_BLIT_DST_BIT]
       [VK_FORMAT_FEATURE_VERTEX_BUFFER_BIT, VK_FORMAT_FEATURE_UNIFORM_TEXEL_BUFFER_BIT,
        VK_FORMAT_FEATURE_STORAGE_TEXEL_BUFFER_BIT] 61 PS5VK_FORMAT_SWIZZLE_WZYX False,
     Format VK_FORMAT_R16_SINT
       [VK_FORMAT_FEATURE_COLOR_ATTACHMENT_BIT, VK_FORMAT_FEATURE_SAMPLED_IMAGE_BIT,
        VK_FORMAT_FEATURE_TRANSFER_SRC_BIT, VK_FORMAT_FEATURE_TRANSFER_DST_BIT, VK_FORMAT_FEATURE_BLIT_SRC_BIT,
        VK_FORMAT_FEATURE_BLIT_DST_BIT]
       [VK_FORMAT_FEATURE_VERTEX_BUFFER_BIT,
        VK_FORMAT_FEATURE_UNIFORM_TEXEL_BUFFER_BIT] 12 PS5VK_FORMAT_SWIZZLE_R001 False,
     Format VK_FORMAT_R16G16_SINT
       [VK_FORMAT_FEATURE_COLOR_ATTACHMENT_BIT, VK_FORMAT_FEATURE_SAMPLED_IMAGE_BIT,
        VK_FORMAT_FEATURE_TRANSFER_SRC_BIT, VK_FORMAT_FEATURE_TRANSFER_DST_BIT, VK_FORMAT_FEATURE_BLIT_SRC_BIT,
        VK_FORMAT_FEATURE_BLIT_DST_BIT]
       [VK_FORMAT_FEATURE_VERTEX_BUFFER_BIT,
        VK_FORMAT_FEATURE_UNIFORM_TEXEL_BUFFER_BIT] 28 PS5VK_FORMAT_SWIZZLE_RG01 False]"

definition formats_third :: "ps5vk_format list" where
  "formats_third = [
     Format VK_FORMAT_R16G16B16A16_SINT
       [VK_FORMAT_FEATURE_COLOR_ATTACHMENT_BIT, VK_FORMAT_FEATURE_SAMPLED_IMAGE_BIT,
        VK_FORMAT_FEATURE_TRANSFER_SRC_BIT, VK_FORMAT_FEATURE_TRANSFER_DST_BIT, VK_FORMAT_FEATURE_BLIT_SRC_BIT,
        VK_FORMAT_FEATURE_BLIT_DST_BIT, VK_FORMAT_FEATURE_STORAGE_IMAGE_BIT]
       [VK_FORMAT_FEATURE_VERTEX_BUFFER_BIT, VK_FORMAT_FEATURE_UNIFORM_TEXEL_BUFFER_BIT,
        VK_FORMAT_FEATURE_STORAGE_TEXEL_BUFFER_BIT] 70 PS5VK_FORMAT_SWIZZLE_RGBA False,
     Format VK_FORMAT_R16G16B16A16_UINT
       [VK_FORMAT_FEATURE_SAMPLED_IMAGE_BIT, VK_FORMAT_FEATURE_TRANSFER_SRC_BIT, VK_FORMAT_FEATURE_TRANSFER_DST_BIT,
        VK_FORMAT_FEATURE_BLIT_SRC_BIT, VK_FORMAT_FEATURE_BLIT_DST_BIT, VK_FORMAT_FEATURE_COLOR_ATTACHMENT_BIT,
        VK_FORMAT_FEATURE_STORAGE_IMAGE_BIT]
       [VK_FORMAT_FEATURE_VERTEX_BUFFER_BIT, VK_FORMAT_FEATURE_UNIFORM_TEXEL_BUFFER_BIT,
        VK_FORMAT_FEATURE_STORAGE_TEXEL_BUFFER_BIT] 69 PS5VK_FORMAT_SWIZZLE_RGBA False,
     Format VK_FORMAT_R32_SINT
       [VK_FORMAT_FEATURE_COLOR_ATTACHMENT_BIT, VK_FORMAT_FEATURE_SAMPLED_IMAGE_BIT,
        VK_FORMAT_FEATURE_TRANSFER_SRC_BIT, VK_FORMAT_FEATURE_TRANSFER_DST_BIT, VK_FORMAT_FEATURE_BLIT_SRC_BIT,
        VK_FORMAT_FEATURE_BLIT_DST_BIT, VK_FORMAT_FEATURE_STORAGE_IMAGE_BIT,
        VK_FORMAT_FEATURE_STORAGE_IMAGE_ATOMIC_BIT]
       [VK_FORMAT_FEATURE_VERTEX_BUFFER_BIT, VK_FORMAT_FEATURE_UNIFORM_TEXEL_BUFFER_BIT,
        VK_FORMAT_FEATURE_STORAGE_TEXEL_BUFFER_BIT,
        VK_FORMAT_FEATURE_STORAGE_TEXEL_BUFFER_ATOMIC_BIT] 21 PS5VK_FORMAT_SWIZZLE_R001 False,
     Format VK_FORMAT_R32G32_SINT
       [VK_FORMAT_FEATURE_COLOR_ATTACHMENT_BIT, VK_FORMAT_FEATURE_SAMPLED_IMAGE_BIT,
        VK_FORMAT_FEATURE_TRANSFER_SRC_BIT, VK_FORMAT_FEATURE_TRANSFER_DST_BIT, VK_FORMAT_FEATURE_BLIT_SRC_BIT,
        VK_FORMAT_FEATURE_BLIT_DST_BIT, VK_FORMAT_FEATURE_STORAGE_IMAGE_BIT]
       [VK_FORMAT_FEATURE_VERTEX_BUFFER_BIT, VK_FORMAT_FEATURE_UNIFORM_TEXEL_BUFFER_BIT,
        VK_FORMAT_FEATURE_STORAGE_TEXEL_BUFFER_BIT] 63 PS5VK_FORMAT_SWIZZLE_RG01 False,
     Format VK_FORMAT_R32G32B32A32_SINT
       [VK_FORMAT_FEATURE_COLOR_ATTACHMENT_BIT, VK_FORMAT_FEATURE_SAMPLED_IMAGE_BIT,
        VK_FORMAT_FEATURE_TRANSFER_SRC_BIT, VK_FORMAT_FEATURE_TRANSFER_DST_BIT, VK_FORMAT_FEATURE_BLIT_SRC_BIT,
        VK_FORMAT_FEATURE_BLIT_DST_BIT, VK_FORMAT_FEATURE_STORAGE_IMAGE_BIT]
       [VK_FORMAT_FEATURE_VERTEX_BUFFER_BIT, VK_FORMAT_FEATURE_UNIFORM_TEXEL_BUFFER_BIT,
        VK_FORMAT_FEATURE_STORAGE_TEXEL_BUFFER_BIT] 76 PS5VK_FORMAT_SWIZZLE_RGBA False,
     Format VK_FORMAT_A2B10G10R10_UINT_PACK32
       [VK_FORMAT_FEATURE_SAMPLED_IMAGE_BIT, VK_FORMAT_FEATURE_TRANSFER_SRC_BIT, VK_FORMAT_FEATURE_TRANSFER_DST_BIT,
        VK_FORMAT_FEATURE_COLOR_ATTACHMENT_BIT, VK_FORMAT_FEATURE_BLIT_SRC_BIT, VK_FORMAT_FEATURE_BLIT_DST_BIT]
       [VK_FORMAT_FEATURE_UNIFORM_TEXEL_BUFFER_BIT] 54 PS5VK_FORMAT_SWIZZLE_RGBA False,
     Format VK_FORMAT_R16_UINT
       [VK_FORMAT_FEATURE_SAMPLED_IMAGE_BIT, VK_FORMAT_FEATURE_TRANSFER_SRC_BIT, VK_FORMAT_FEATURE_TRANSFER_DST_BIT,
        VK_FORMAT_FEATURE_BLIT_SRC_BIT, VK_FORMAT_FEATURE_BLIT_DST_BIT, VK_FORMAT_FEATURE_COLOR_ATTACHMENT_BIT]
       [VK_FORMAT_FEATURE_VERTEX_BUFFER_BIT,
        VK_FORMAT_FEATURE_UNIFORM_TEXEL_BUFFER_BIT] 11 PS5VK_FORMAT_SWIZZLE_R001 False,
     Format VK_FORMAT_R16G16_UINT
       [VK_FORMAT_FEATURE_SAMPLED_IMAGE_BIT, VK_FORMAT_FEATURE_TRANSFER_SRC_BIT, VK_FORMAT_FEATURE_TRANSFER_DST_BIT,
        VK_FORMAT_FEATURE_COLOR_ATTACHMENT_BIT, VK_FORMAT_FEATURE_BLIT_SRC_BIT, VK_FORMAT_FEATURE_BLIT_DST_BIT]
       [VK_FORMAT_FEATURE_VERTEX_BUFFER_BIT,
        VK_FORMAT_FEATURE_UNIFORM_TEXEL_BUFFER_BIT] 27 PS5VK_FORMAT_SWIZZLE_RG01 False,
     Format VK_FORMAT_R32_UINT
       [VK_FORMAT_FEATURE_SAMPLED_IMAGE_BIT, VK_FORMAT_FEATURE_TRANSFER_SRC_BIT, VK_FORMAT_FEATURE_TRANSFER_DST_BIT,
        VK_FORMAT_FEATURE_COLOR_ATTACHMENT_BIT, VK_FORMAT_FEATURE_BLIT_SRC_BIT, VK_FORMAT_FEATURE_BLIT_DST_BIT,
        VK_FORMAT_FEATURE_STORAGE_IMAGE_BIT, VK_FORMAT_FEATURE_STORAGE_IMAGE_ATOMIC_BIT]
       [VK_FORMAT_FEATURE_VERTEX_BUFFER_BIT, VK_FORMAT_FEATURE_UNIFORM_TEXEL_BUFFER_BIT,
        VK_FORMAT_FEATURE_STORAGE_TEXEL_BUFFER_BIT,
        VK_FORMAT_FEATURE_STORAGE_TEXEL_BUFFER_ATOMIC_BIT] 20 PS5VK_FORMAT_SWIZZLE_R001 False,
     Format VK_FORMAT_R32G32_UINT
       [VK_FORMAT_FEATURE_SAMPLED_IMAGE_BIT, VK_FORMAT_FEATURE_TRANSFER_SRC_BIT, VK_FORMAT_FEATURE_TRANSFER_DST_BIT,
        VK_FORMAT_FEATURE_BLIT_SRC_BIT, VK_FORMAT_FEATURE_BLIT_DST_BIT, VK_FORMAT_FEATURE_COLOR_ATTACHMENT_BIT,
        VK_FORMAT_FEATURE_STORAGE_IMAGE_BIT]
       [VK_FORMAT_FEATURE_VERTEX_BUFFER_BIT, VK_FORMAT_FEATURE_UNIFORM_TEXEL_BUFFER_BIT,
        VK_FORMAT_FEATURE_STORAGE_TEXEL_BUFFER_BIT] 62 PS5VK_FORMAT_SWIZZLE_RG01 False,
     Format VK_FORMAT_R8G8B8A8_UINT
       [VK_FORMAT_FEATURE_SAMPLED_IMAGE_BIT, VK_FORMAT_FEATURE_TRANSFER_SRC_BIT, VK_FORMAT_FEATURE_TRANSFER_DST_BIT,
        VK_FORMAT_FEATURE_COLOR_ATTACHMENT_BIT, VK_FORMAT_FEATURE_BLIT_SRC_BIT, VK_FORMAT_FEATURE_BLIT_DST_BIT,
        VK_FORMAT_FEATURE_STORAGE_IMAGE_BIT]
       [VK_FORMAT_FEATURE_VERTEX_BUFFER_BIT, VK_FORMAT_FEATURE_UNIFORM_TEXEL_BUFFER_BIT,
        VK_FORMAT_FEATURE_STORAGE_TEXEL_BUFFER_BIT] 60 PS5VK_FORMAT_SWIZZLE_RGBA False,
     Format VK_FORMAT_R5G6B5_UNORM_PACK16
       [VK_FORMAT_FEATURE_SAMPLED_IMAGE_BIT, VK_FORMAT_FEATURE_SAMPLED_IMAGE_FILTER_LINEAR_BIT,
        VK_FORMAT_FEATURE_TRANSFER_SRC_BIT, VK_FORMAT_FEATURE_TRANSFER_DST_BIT, VK_FORMAT_FEATURE_BLIT_SRC_BIT,
        VK_FORMAT_FEATURE_BLIT_DST_BIT, VK_FORMAT_FEATURE_COLOR_ATTACHMENT_BIT,
        VK_FORMAT_FEATURE_COLOR_ATTACHMENT_BLEND_BIT]
       [] 133 PS5VK_FORMAT_SWIZZLE_ZYX1 False,
     Format VK_FORMAT_A1R5G5B5_UNORM_PACK16
       [VK_FORMAT_FEATURE_SAMPLED_IMAGE_BIT, VK_FORMAT_FEATURE_SAMPLED_IMAGE_FILTER_LINEAR_BIT,
        VK_FORMAT_FEATURE_TRANSFER_SRC_BIT, VK_FORMAT_FEATURE_TRANSFER_DST_BIT, VK_FORMAT_FEATURE_BLIT_SRC_BIT,
        VK_FORMAT_FEATURE_BLIT_DST_BIT, VK_FORMAT_FEATURE_COLOR_ATTACHMENT_BIT,
        VK_FORMAT_FEATURE_COLOR_ATTACHMENT_BLEND_BIT]
       [] 134 PS5VK_FORMAT_SWIZZLE_ZYXW False,
     Format VK_FORMAT_B4G4R4A4_UNORM_PACK16
       [VK_FORMAT_FEATURE_SAMPLED_IMAGE_BIT, VK_FORMAT_FEATURE_SAMPLED_IMAGE_FILTER_LINEAR_BIT,
        VK_FORMAT_FEATURE_TRANSFER_SRC_BIT, VK_FORMAT_FEATURE_TRANSFER_DST_BIT, VK_FORMAT_FEATURE_BLIT_SRC_BIT,
        VK_FORMAT_FEATURE_BLIT_DST_BIT]
       [] 136 PS5VK_FORMAT_SWIZZLE_YZWX False]"

definition formats_last :: "ps5vk_format list" where
  "formats_last = [
     Format VK_FORMAT_E5B9G9R9_UFLOAT_PACK32
       [VK_FORMAT_FEATURE_SAMPLED_IMAGE_BIT, VK_FORMAT_FEATURE_SAMPLED_IMAGE_FILTER_LINEAR_BIT,
        VK_FORMAT_FEATURE_TRANSFER_SRC_BIT, VK_FORMAT_FEATURE_TRANSFER_DST_BIT, VK_FORMAT_FEATURE_BLIT_SRC_BIT]
       [] 132 PS5VK_FORMAT_SWIZZLE_XYZ1 False,
     Format VK_FORMAT_B10G11R11_UFLOAT_PACK32
       [VK_FORMAT_FEATURE_SAMPLED_IMAGE_BIT, VK_FORMAT_FEATURE_SAMPLED_IMAGE_FILTER_LINEAR_BIT,
        VK_FORMAT_FEATURE_TRANSFER_SRC_BIT, VK_FORMAT_FEATURE_TRANSFER_DST_BIT, VK_FORMAT_FEATURE_BLIT_SRC_BIT]
       [VK_FORMAT_FEATURE_UNIFORM_TEXEL_BUFFER_BIT] 36 PS5VK_FORMAT_SWIZZLE_XYZ1 False,
     Format VK_FORMAT_A2B10G10R10_UNORM_PACK32
       [VK_FORMAT_FEATURE_SAMPLED_IMAGE_BIT, VK_FORMAT_FEATURE_SAMPLED_IMAGE_FILTER_LINEAR_BIT,
        VK_FORMAT_FEATURE_TRANSFER_SRC_BIT, VK_FORMAT_FEATURE_TRANSFER_DST_BIT, VK_FORMAT_FEATURE_BLIT_SRC_BIT,
        VK_FORMAT_FEATURE_COLOR_ATTACHMENT_BIT, VK_FORMAT_FEATURE_COLOR_ATTACHMENT_BLEND_BIT,
        VK_FORMAT_FEATURE_BLIT_DST_BIT]
       [VK_FORMAT_FEATURE_VERTEX_BUFFER_BIT,
        VK_FORMAT_FEATURE_UNIFORM_TEXEL_BUFFER_BIT] 50 PS5VK_FORMAT_SWIZZLE_RGBA False,
     Format VK_FORMAT_B8G8R8A8_UNORM
       [VK_FORMAT_FEATURE_SAMPLED_IMAGE_BIT, VK_FORMAT_FEATURE_SAMPLED_IMAGE_FILTER_LINEAR_BIT,
        VK_FORMAT_FEATURE_COLOR_ATTACHMENT_BIT, VK_FORMAT_FEATURE_COLOR_ATTACHMENT_BLEND_BIT,
        VK_FORMAT_FEATURE_TRANSFER_SRC_BIT, VK_FORMAT_FEATURE_TRANSFER_DST_BIT, VK_FORMAT_FEATURE_BLIT_SRC_BIT,
        VK_FORMAT_FEATURE_BLIT_DST_BIT]
       [VK_FORMAT_FEATURE_VERTEX_BUFFER_BIT,
        VK_FORMAT_FEATURE_UNIFORM_TEXEL_BUFFER_BIT] 56 PS5VK_FORMAT_SWIZZLE_ZYXW False,
     Format VK_FORMAT_D16_UNORM
       [VK_FORMAT_FEATURE_DEPTH_STENCIL_ATTACHMENT_BIT, VK_FORMAT_FEATURE_SAMPLED_IMAGE_BIT,
        VK_FORMAT_FEATURE_BLIT_SRC_BIT, VK_FORMAT_FEATURE_TRANSFER_SRC_BIT, VK_FORMAT_FEATURE_TRANSFER_DST_BIT]
       [] 7 PS5VK_FORMAT_SWIZZLE_R001 False,
     Format VK_FORMAT_D32_SFLOAT
       [VK_FORMAT_FEATURE_DEPTH_STENCIL_ATTACHMENT_BIT, VK_FORMAT_FEATURE_TRANSFER_SRC_BIT,
        VK_FORMAT_FEATURE_TRANSFER_DST_BIT, VK_FORMAT_FEATURE_SAMPLED_IMAGE_BIT, VK_FORMAT_FEATURE_BLIT_SRC_BIT]
       [] 22 PS5VK_FORMAT_SWIZZLE_R001 False,
     Format VK_FORMAT_D24_UNORM_S8_UINT
       [VK_FORMAT_FEATURE_DEPTH_STENCIL_ATTACHMENT_BIT]
       [] 141 PS5VK_FORMAT_SWIZZLE_R001 False,
     Format VK_FORMAT_D32_SFLOAT_S8_UINT
       [VK_FORMAT_FEATURE_DEPTH_STENCIL_ATTACHMENT_BIT, VK_FORMAT_FEATURE_SAMPLED_IMAGE_BIT,
        VK_FORMAT_FEATURE_TRANSFER_SRC_BIT, VK_FORMAT_FEATURE_TRANSFER_DST_BIT]
       [] 22 PS5VK_FORMAT_SWIZZLE_R001 False,
     Format VK_FORMAT_R32G32B32_SFLOAT
       []
       [VK_FORMAT_FEATURE_VERTEX_BUFFER_BIT] 0 0 False,
     Format VK_FORMAT_R32G32B32A32_UINT
       [VK_FORMAT_FEATURE_COLOR_ATTACHMENT_BIT, VK_FORMAT_FEATURE_SAMPLED_IMAGE_BIT,
        VK_FORMAT_FEATURE_TRANSFER_SRC_BIT, VK_FORMAT_FEATURE_TRANSFER_DST_BIT, VK_FORMAT_FEATURE_BLIT_SRC_BIT,
        VK_FORMAT_FEATURE_BLIT_DST_BIT, VK_FORMAT_FEATURE_STORAGE_IMAGE_BIT]
       [VK_FORMAT_FEATURE_VERTEX_BUFFER_BIT, VK_FORMAT_FEATURE_UNIFORM_TEXEL_BUFFER_BIT,
        VK_FORMAT_FEATURE_STORAGE_TEXEL_BUFFER_BIT] 75 PS5VK_FORMAT_SWIZZLE_RGBA False,
     Format VK_FORMAT_R32G32B32_SINT
       []
       [VK_FORMAT_FEATURE_VERTEX_BUFFER_BIT] 0 0 False,
     Format VK_FORMAT_R32G32B32_UINT
       []
       [VK_FORMAT_FEATURE_VERTEX_BUFFER_BIT] 0 0 False,
     Format VK_FORMAT_A8B8G8R8_UINT_PACK32
       [VK_FORMAT_FEATURE_SAMPLED_IMAGE_BIT, VK_FORMAT_FEATURE_COLOR_ATTACHMENT_BIT,
        VK_FORMAT_FEATURE_TRANSFER_SRC_BIT, VK_FORMAT_FEATURE_TRANSFER_DST_BIT, VK_FORMAT_FEATURE_BLIT_SRC_BIT,
        VK_FORMAT_FEATURE_BLIT_DST_BIT]
       [VK_FORMAT_FEATURE_VERTEX_BUFFER_BIT, VK_FORMAT_FEATURE_UNIFORM_TEXEL_BUFFER_BIT,
        VK_FORMAT_FEATURE_STORAGE_TEXEL_BUFFER_BIT] 60 PS5VK_FORMAT_SWIZZLE_RGBA False]"

definition ps5vk_formats :: "ps5vk_format list" where
  "ps5vk_formats = formats_first @ formats_second @ formats_third @ formats_last"

definition ps5vk_colour_formats :: "ps5vk_colour_format list" where
  "ps5vk_colour_formats = [
     Colour_format VK_FORMAT_R8G8B8A8_UNORM 10 0 0 0,
     Colour_format VK_FORMAT_B8G8R8A8_UNORM 10 0 1 0,
     Colour_format VK_FORMAT_A8B8G8R8_UNORM_PACK32 10 0 2 0,
     Colour_format VK_FORMAT_R8G8B8A8_SRGB 10 6 0 0,
     Colour_format VK_FORMAT_A8B8G8R8_SRGB_PACK32 10 6 0 0,
     Colour_format VK_FORMAT_B8G8R8A8_SRGB 10 6 1 0,
     Colour_format VK_FORMAT_A2B10G10R10_UNORM_PACK32 9 0 0 0,
     Colour_format VK_FORMAT_R16G16_SFLOAT 5 7 0 0,
     Colour_format VK_FORMAT_R8G8B8A8_UINT 10 4 0 7,
     Colour_format VK_FORMAT_A8B8G8R8_UINT_PACK32 10 4 2 7,
     Colour_format VK_FORMAT_A2B10G10R10_UINT_PACK32 9 4 0 7,
     Colour_format VK_FORMAT_R16G16_UINT 5 4 0 7,
     Colour_format VK_FORMAT_R32_SFLOAT 4 7 0 1,
     Colour_format VK_FORMAT_R32_UINT 4 4 0 1,
     Colour_format VK_FORMAT_R8G8B8A8_SINT 10 5 0 8,
     Colour_format VK_FORMAT_A8B8G8R8_SINT_PACK32 10 5 2 8,
     Colour_format VK_FORMAT_R16G16_SINT 5 5 0 8,
     Colour_format VK_FORMAT_R32_SINT 4 5 0 1,
     Colour_format VK_FORMAT_R16G16B16A16_SINT 12 5 0 8,
     Colour_format VK_FORMAT_R32G32_SINT 11 5 0 9,
     Colour_format VK_FORMAT_R32G32B32A32_SINT 14 5 0 9,
     Colour_format VK_FORMAT_R8_UNORM 1 0 0 4,
     Colour_format VK_FORMAT_R8G8_UNORM 3 0 0 4,
     Colour_format VK_FORMAT_R16_SFLOAT 2 7 0 4,
     Colour_format VK_FORMAT_R8_UINT 1 4 0 7,
     Colour_format VK_FORMAT_R8_SINT 1 5 0 8,
     Colour_format VK_FORMAT_R8G8_UINT 3 4 0 7,
     Colour_format VK_FORMAT_R8G8_SINT 3 5 0 8,
     Colour_format VK_FORMAT_R16_UINT 2 4 0 7,
     Colour_format VK_FORMAT_R16_SINT 2 5 0 8,
     Colour_format VK_FORMAT_R5G6B5_UNORM_PACK16 16 0 0 4,
     Colour_format VK_FORMAT_A1R5G5B5_UNORM_PACK16 17 0 0 4,
     Colour_format VK_FORMAT_R16G16B16A16_UINT 12 4 0 7,
     Colour_format VK_FORMAT_R16_UNORM 2 0 0 1,
     Colour_format VK_FORMAT_R16G16_UNORM 5 0 0 9,
     Colour_format VK_FORMAT_R16G16B16A16_UNORM 12 0 0 9,
     Colour_format VK_FORMAT_R16G16B16A16_SFLOAT 12 7 0 4,
     Colour_format VK_FORMAT_R32G32_UINT 11 4 0 9,
     Colour_format VK_FORMAT_R32G32_SFLOAT 11 7 0 9,
     Colour_format VK_FORMAT_R32G32B32A32_UINT 14 4 0 9,
     Colour_format VK_FORMAT_R32G32B32A32_SFLOAT 14 7 0 9]"

section \<open>Looking a format up\<close>

fun find_format_in :: "ps5vk_format list \<Rightarrow> vk_format \<Rightarrow> ps5vk_format option" where
  "find_format_in [] format = None"
| "find_format_in (e # es) format = (if fmt_format e = format then Some e else find_format_in es format)"

definition ps5vk_find_format :: "vk_format \<Rightarrow> ps5vk_format option" where
  "ps5vk_find_format = find_format_in ps5vk_formats"

fun find_colour_in :: "ps5vk_colour_format list \<Rightarrow> vk_format \<Rightarrow> ps5vk_colour_format option" where
  "find_colour_in [] format = None"
| "find_colour_in (e # es) format = (if cf_format e = format then Some e else find_colour_in es format)"

definition ps5vk_find_colour_format :: "vk_format \<Rightarrow> ps5vk_colour_format option" where
  "ps5vk_find_colour_format = find_colour_in ps5vk_colour_formats"

section \<open>What an image may be\<close>

datatype image_usage =
    VK_IMAGE_USAGE_TRANSFER_SRC_BIT
  | VK_IMAGE_USAGE_TRANSFER_DST_BIT
  | VK_IMAGE_USAGE_SAMPLED_BIT
  | VK_IMAGE_USAGE_STORAGE_BIT
  | VK_IMAGE_USAGE_COLOR_ATTACHMENT_BIT
  | VK_IMAGE_USAGE_DEPTH_STENCIL_ATTACHMENT_BIT
  | VK_IMAGE_USAGE_TRANSIENT_ATTACHMENT_BIT
  | VK_IMAGE_USAGE_INPUT_ATTACHMENT_BIT
  | VK_IMAGE_USAGE_other nat

datatype image_create = VK_IMAGE_CREATE_CUBE_COMPATIBLE_BIT | VK_IMAGE_CREATE_MUTABLE_FORMAT_BIT | VK_IMAGE_CREATE_other nat
datatype image_type = VK_IMAGE_TYPE_1D | VK_IMAGE_TYPE_2D | VK_IMAGE_TYPE_3D
datatype image_tiling = VK_IMAGE_TILING_OPTIMAL | VK_IMAGE_TILING_LINEAR | VK_IMAGE_TILING_other nat

definition ps5vk_format_usage :: "ps5vk_format \<Rightarrow> image_usage list" where
  "ps5vk_format_usage format =
     (let has = (\<lambda>f. f \<in> set (fmt_optimal_features format))
      in (if has VK_FORMAT_FEATURE_TRANSFER_SRC_BIT then [VK_IMAGE_USAGE_TRANSFER_SRC_BIT] else []) @
         (if has VK_FORMAT_FEATURE_TRANSFER_DST_BIT then [VK_IMAGE_USAGE_TRANSFER_DST_BIT] else []) @
         (if has VK_FORMAT_FEATURE_SAMPLED_IMAGE_BIT then [VK_IMAGE_USAGE_SAMPLED_BIT] else []) @
         (if has VK_FORMAT_FEATURE_COLOR_ATTACHMENT_BIT then [VK_IMAGE_USAGE_COLOR_ATTACHMENT_BIT] else []) @
         (if has VK_FORMAT_FEATURE_DEPTH_STENCIL_ATTACHMENT_BIT then [VK_IMAGE_USAGE_DEPTH_STENCIL_ATTACHMENT_BIT] else []) @
         (if has VK_FORMAT_FEATURE_STORAGE_IMAGE_BIT then [VK_IMAGE_USAGE_STORAGE_BIT] else []) @
         (if has VK_FORMAT_FEATURE_COLOR_ATTACHMENT_BIT \<or> has VK_FORMAT_FEATURE_DEPTH_STENCIL_ATTACHMENT_BIT
          then [VK_IMAGE_USAGE_INPUT_ATTACHMENT_BIT, VK_IMAGE_USAGE_TRANSIENT_ATTACHMENT_BIT] else []))"

text \<open>Mesa's \<open>vk_format_has_stencil\<close> is the first parameter.\<close>

definition ps5vk_image_supported ::
  "(vk_format \<Rightarrow> bool) \<Rightarrow> vk_format \<Rightarrow> image_type \<Rightarrow> image_tiling \<Rightarrow> image_usage list \<Rightarrow> image_create list \<Rightarrow> bool" where
  "ps5vk_image_supported has_stencil format type tiling usage flags =
     (if has_stencil format \<and> VK_IMAGE_USAGE_DEPTH_STENCIL_ATTACHMENT_BIT \<notin> set usage then False
      else case ps5vk_find_format format of
        None \<Rightarrow> False
      | Some entry \<Rightarrow>
          let tolerated = (if has_stencil format \<and> VK_IMAGE_USAGE_DEPTH_STENCIL_ATTACHMENT_BIT \<in> set usage
                           then [VK_IMAGE_USAGE_TRANSFER_SRC_BIT, VK_IMAGE_USAGE_TRANSFER_DST_BIT, VK_IMAGE_USAGE_SAMPLED_BIT]
                           else [])
          in type = VK_IMAGE_TYPE_2D \<and> tiling = VK_IMAGE_TILING_OPTIMAL \<and>
             list_all (\<lambda>f. f \<in> {VK_IMAGE_CREATE_CUBE_COMPATIBLE_BIT, VK_IMAGE_CREATE_MUTABLE_FORMAT_BIT}) flags \<and>
             usage \<noteq> [] \<and> list_all (\<lambda>u. u \<in> set (ps5vk_format_usage entry @ tolerated)) usage)"

text \<open>The answers to \<open>vkGetPhysicalDeviceFormatProperties2\<close>; \<open>no_d24\<close> is the test switch that hides one format.\<close>

definition ps5vk_GetPhysicalDeviceFormatProperties2 ::
  "bool \<Rightarrow> vk_format \<Rightarrow> format_feature list \<times> format_feature list \<times> format_feature list" where
  "ps5vk_GetPhysicalDeviceFormatProperties2 no_d24 format =
     (case (if no_d24 \<and> format = VK_FORMAT_D24_UNORM_S8_UINT then None else ps5vk_find_format format) of
        None \<Rightarrow> ([], [], [])
      | Some entry \<Rightarrow> ([], fmt_optimal_features entry, fmt_buffer_features entry))"

record image_format_properties =
  ifp_max_extent :: "u32 \<times> u32 \<times> u32"
  ifp_max_mip_levels :: u32
  ifp_max_array_layers :: u32
  ifp_sample_counts :: "u32 list"
  ifp_max_resource_size :: u64

definition PS5VK_MAX_EXTENT_2D :: u32 where "PS5VK_MAX_EXTENT_2D = 16384"
definition PS5VK_MAX_MIP_LEVELS :: u32 where "PS5VK_MAX_MIP_LEVELS = 13"
definition PS5VK_MAX_ARRAY_LAYERS :: u32 where "PS5VK_MAX_ARRAY_LAYERS = 256"
definition PS5VK_SAMPLE_COUNTS :: "u32 list" where "PS5VK_SAMPLE_COUNTS = [1, 2, 4, 8]"
definition PS5VK_ADDRESS_WINDOW_BYTES :: u64 where "PS5VK_ADDRESS_WINDOW_BYTES = push_bit 32 1"

text \<open>\<open>external\<close> is the handle type of the external-memory structure, when the chain has one.\<close>

definition ps5vk_GetPhysicalDeviceImageFormatProperties2 ::
  "(vk_format \<Rightarrow> bool) \<Rightarrow> vk_format \<Rightarrow> image_type \<Rightarrow> image_tiling \<Rightarrow> image_usage list \<Rightarrow> image_create list \<Rightarrow>
     u32 option \<Rightarrow> image_format_properties option" where
  "ps5vk_GetPhysicalDeviceImageFormatProperties2 has_stencil format type tiling usage flags external =
     (if \<not> ps5vk_image_supported has_stencil format type tiling usage flags \<or> (external \<noteq> None \<and> external \<noteq> Some 0)
      then None
      else Some \<lparr>ifp_max_extent = (PS5VK_MAX_EXTENT_2D, PS5VK_MAX_EXTENT_2D, 1),
                 ifp_max_mip_levels = (if has_stencil format then 1 else PS5VK_MAX_MIP_LEVELS),
                 ifp_max_array_layers = (if has_stencil format then 1 else PS5VK_MAX_ARRAY_LAYERS),
                 ifp_sample_counts = (if has_stencil format then [1] else PS5VK_SAMPLE_COUNTS),
                 ifp_max_resource_size = PS5VK_ADDRESS_WINDOW_BYTES\<rparr>)"

section \<open>The tables agree\<close>

lemma find_format_in_iff:
  "distinct (map fmt_format es) \<Longrightarrow> find_format_in es format = Some e \<longleftrightarrow> e \<in> set es \<and> fmt_format e = format"
  by (induction es) auto

lemma find_colour_in_None: "find_colour_in es format = None \<longleftrightarrow> format \<notin> set (map cf_format es)"
  by (induction es) auto

definition row_consistent :: "ps5vk_format \<Rightarrow> bool" where
  "row_consistent e \<longleftrightarrow>
     (let has = (\<lambda>f. f \<in> set (fmt_optimal_features e))
      in (has VK_FORMAT_FEATURE_COLOR_ATTACHMENT_BIT \<longleftrightarrow> fmt_format e \<in> set (map cf_format ps5vk_colour_formats)) \<and>
         (has VK_FORMAT_FEATURE_COLOR_ATTACHMENT_BLEND_BIT \<longrightarrow> has VK_FORMAT_FEATURE_COLOR_ATTACHMENT_BIT) \<and>
         (has VK_FORMAT_FEATURE_SAMPLED_IMAGE_FILTER_LINEAR_BIT \<longrightarrow> has VK_FORMAT_FEATURE_SAMPLED_IMAGE_BIT) \<and>
         (has VK_FORMAT_FEATURE_SAMPLED_IMAGE_BIT \<or> has VK_FORMAT_FEATURE_BLIT_SRC_BIT \<or> has VK_FORMAT_FEATURE_BLIT_DST_BIT \<longrightarrow>
            has VK_FORMAT_FEATURE_TRANSFER_SRC_BIT \<and> has VK_FORMAT_FEATURE_TRANSFER_DST_BIT) \<and>
         (has VK_FORMAT_FEATURE_SAMPLED_IMAGE_BIT \<longrightarrow> fmt_image_format e \<noteq> 0))"

lemma format_table_distinct: "distinct (map fmt_format ps5vk_formats)"
  by code_simp

lemma rows_consistent: "list_all row_consistent ps5vk_formats"
  by code_simp

section \<open>What a supported image can rely on\<close>

text \<open>C40. An image that \<open>ps5vk_image_supported\<close> accepts is backed by the tables: its format has a row; if it may be a colour attachment,
  the format has a row of the colour-buffer table too; if it may be sampled and has no stencil plane, the row names a descriptor format
  and both transfers; and it is a two-dimensional, optimally tiled image with a use.
\<close>

theorem supported_image_backed:
  assumes "ps5vk_image_supported has_stencil format type tiling usage flags"
  shows "type = VK_IMAGE_TYPE_2D \<and> tiling = VK_IMAGE_TILING_OPTIMAL \<and> usage \<noteq> [] \<and>
    (\<exists>e. ps5vk_find_format format = Some e \<and> fmt_format e = format \<and>
      (VK_IMAGE_USAGE_COLOR_ATTACHMENT_BIT \<in> set usage \<longrightarrow> (\<exists>colour. ps5vk_find_colour_format format = Some colour)) \<and>
      (VK_IMAGE_USAGE_SAMPLED_BIT \<in> set usage \<and> \<not> has_stencil format \<longrightarrow>
         fmt_image_format e \<noteq> 0 \<and>
         {VK_FORMAT_FEATURE_TRANSFER_SRC_BIT, VK_FORMAT_FEATURE_TRANSFER_DST_BIT} \<subseteq> set (fmt_optimal_features e)))"
proof -
  obtain e where e: "ps5vk_find_format format = Some e" and t: "type = VK_IMAGE_TYPE_2D" "tiling = VK_IMAGE_TILING_OPTIMAL" "usage \<noteq> []"
    and u: "\<And>u. u \<in> set usage \<Longrightarrow> u \<in> set (ps5vk_format_usage e) \<or> has_stencil format \<and>
      u \<in> {VK_IMAGE_USAGE_TRANSFER_SRC_BIT, VK_IMAGE_USAGE_TRANSFER_DST_BIT, VK_IMAGE_USAGE_SAMPLED_BIT}"
    using assms by (auto simp: ps5vk_image_supported_def Let_def list_all_iff split: if_splits option.splits)
  have row: "e \<in> set ps5vk_formats" "fmt_format e = format"
    using e find_format_in_iff [OF format_table_distinct] by (auto simp: ps5vk_find_format_def)
  then have c: "row_consistent e" using rows_consistent by (simp add: list_all_iff)
  have "\<exists>colour. ps5vk_find_colour_format format = Some colour" if "VK_IMAGE_USAGE_COLOR_ATTACHMENT_BIT \<in> set usage"
  proof -
    have "VK_FORMAT_FEATURE_COLOR_ATTACHMENT_BIT \<in> set (fmt_optimal_features e)"
      using u [OF that] by (auto simp: ps5vk_format_usage_def Let_def split: if_splits)
    then have "format \<in> set (map cf_format ps5vk_colour_formats)" using c row(2) unfolding row_consistent_def Let_def by blast
    then show ?thesis using find_colour_in_None [of ps5vk_colour_formats format] by (auto simp: ps5vk_find_colour_format_def)
  qed
  moreover have "fmt_image_format e \<noteq> 0 \<and> {VK_FORMAT_FEATURE_TRANSFER_SRC_BIT, VK_FORMAT_FEATURE_TRANSFER_DST_BIT} \<subseteq> set (fmt_optimal_features e)"
    if "VK_IMAGE_USAGE_SAMPLED_BIT \<in> set usage" "\<not> has_stencil format"
  proof -
    have "VK_FORMAT_FEATURE_SAMPLED_IMAGE_BIT \<in> set (fmt_optimal_features e)"
      using u [OF that(1)] that(2) by (auto simp: ps5vk_format_usage_def Let_def split: if_splits)
    then show ?thesis using c unfolding row_consistent_def Let_def by blast
  qed
  ultimately show ?thesis using e t row(2) by blast
qed

lemma sample_supported:
  "ps5vk_image_supported (\<lambda>_. False) VK_FORMAT_R8G8B8A8_UNORM VK_IMAGE_TYPE_2D VK_IMAGE_TILING_OPTIMAL
     [VK_IMAGE_USAGE_COLOR_ATTACHMENT_BIT, VK_IMAGE_USAGE_SAMPLED_BIT] []"
  by code_simp

theorem supported_image_backed_witness:
  "\<exists>e colour. ps5vk_find_format VK_FORMAT_R8G8B8A8_UNORM = Some e \<and> ps5vk_find_colour_format VK_FORMAT_R8G8B8A8_UNORM = Some colour \<and> fmt_image_format e \<noteq> 0"
  using supported_image_backed [OF sample_supported] by auto

end
