(* ===== verification/Vk_Tiling.thy ===== *)
theory Vk_Tiling
  imports Prelude
begin

text \<open>
  The texel maps of tiled images, \<open>driver/ps5vk_image.c\<close>: a tiled level is a grid of 64 KiB tiles,
  and a texel's place inside its tile is an exclusive-or of shifted and masked bits of its
  coordinates, one table of terms per element size, with the coordinates turned by the place of the
  tile in the grid for some of them. The colour maps, the depth and stencil maps and the four-sample
  depth map are here, with the shortcut the code takes for the most common of them.
\<close>

section \<open>The tables\<close>

datatype tiled_term = Tiled_term (tt_coord: u8) (tt_shift: u8) (tt_mask: u32)

definition PS5VK_TILE_BYTES :: u64 where "PS5VK_TILE_BYTES = 0x10000"
definition PS5VK_SAMPLE_PLANE_BYTES :: u64 where "PS5VK_SAMPLE_PLANE_BYTES = 0x4000"
definition PS5VK_DEPTH_SAMPLE_BYTES :: u64 where "PS5VK_DEPTH_SAMPLE_BYTES = 4"

lemmas tile_constants [simp] =
  PS5VK_TILE_BYTES_def PS5VK_SAMPLE_PLANE_BYTES_def PS5VK_DEPTH_SAMPLE_BYTES_def

definition ps5vk_tiled_4b_terms :: "tiled_term list" where
  "ps5vk_tiled_4b_terms =
    [Tiled_term 0 2 0x0c, Tiled_term 0 5 0x380, Tiled_term 0 4 0x400, Tiled_term 0 6 0x800, Tiled_term 0 9 0xa000,
     Tiled_term 1 4 0x70, Tiled_term 1 5 0xf00, Tiled_term 1 9 0x1000, Tiled_term 1 8 0x4000]"

definition ps5vk_tiled_1b_terms :: "tiled_term list" where
  "ps5vk_tiled_1b_terms =
    [Tiled_term 0 0 0x7, Tiled_term 0 3 0x40, Tiled_term 0 5 0x300, Tiled_term 0 6 0x800, Tiled_term 0 4 0x400,
     Tiled_term 0 7 0x2000, Tiled_term 0 8 0x8000, Tiled_term 1 4 0x10, Tiled_term 1 2 0x8, Tiled_term 1 3 0xa0,
     Tiled_term 1 5 0xf00, Tiled_term 1 6 0x1000, Tiled_term 1 7 0x4000]"

definition ps5vk_tiled_8b_terms :: "tiled_term list" where
  "ps5vk_tiled_8b_terms =
    [Tiled_term 0 3 0x8, Tiled_term 0 4 0x460, Tiled_term 0 5 0x300, Tiled_term 0 10 0x2000, Tiled_term 0 6 0x800,
     Tiled_term 0 9 0x8000, Tiled_term 1 4 0x10, Tiled_term 1 6 0x80, Tiled_term 1 10 0x5000, Tiled_term 1 5 0x700]"

definition ps5vk_tiled_16b_terms :: "tiled_term list" where
  "ps5vk_tiled_16b_terms =
    [Tiled_term 0 4 0x10, Tiled_term 0 5 0x340, Tiled_term 0 11 0xa000, Tiled_term 0 6 0x800,
     Tiled_term 1 5 0x720, Tiled_term 1 6 0x80, Tiled_term 1 10 0x1000, Tiled_term 1 11 0x4000]"

definition ps5vk_tiled_2b_terms :: "tiled_term list" where
  "ps5vk_tiled_2b_terms =
    [Tiled_term 0 1 0x0e, Tiled_term 0 4 0x480, Tiled_term 0 5 0x300, Tiled_term 0 6 0x800,
     Tiled_term 0 7 0x2000, Tiled_term 0 8 0x8000, Tiled_term 1 4 0x70, Tiled_term 1 5 0xf00,
     Tiled_term 1 8 0x5000]"

definition ps5vk_tiled_depth2_terms :: "tiled_term list" where
  "ps5vk_tiled_depth2_terms =
    [Tiled_term 0 1 0x2, Tiled_term 0 2 0x8, Tiled_term 0 3 0x20, Tiled_term 0 4 0x480,
     Tiled_term 0 5 0x300, Tiled_term 0 6 0x800, Tiled_term 0 7 0x2000, Tiled_term 0 8 0x8000,
     Tiled_term 1 2 0x4, Tiled_term 1 3 0x10, Tiled_term 1 4 0x40, Tiled_term 1 5 0xf00,
     Tiled_term 1 8 0x5000]"

definition ps5vk_tiled_stencil_terms :: "tiled_term list" where
  "ps5vk_tiled_stencil_terms =
    [Tiled_term 0 0 0x1, Tiled_term 0 1 0x4, Tiled_term 0 2 0x10, Tiled_term 0 3 0x40, Tiled_term 0 5 0x300,
     Tiled_term 0 6 0x800, Tiled_term 0 4 0x400, Tiled_term 0 7 0x2000, Tiled_term 0 8 0x8000, Tiled_term 1 1 0x2,
     Tiled_term 1 2 0x8, Tiled_term 1 3 0xa0, Tiled_term 1 5 0xf00, Tiled_term 1 6 0x1000, Tiled_term 1 7 0x4000]"

definition ps5vk_tiled_depth4_terms :: "tiled_term list" where
  "ps5vk_tiled_depth4_terms =
    [Tiled_term 0 4 0x10, Tiled_term 0 5 0x340, Tiled_term 0 13 0x8000, Tiled_term 0 9 0x2000, Tiled_term 0 6 0x800,
     Tiled_term 1 5 0x720, Tiled_term 1 6 0x80, Tiled_term 1 12 0x4000, Tiled_term 1 9 0x1000]"

definition depth_x_masks :: "u16 list" where
  "depth_x_masks = [0x0004, 0x0010, 0x0040, 0x0100, 0x2200, 0x0800, 0x8400]"

definition depth_y_masks :: "u16 list" where
  "depth_y_masks = [0x0008, 0x0020, 0x0080, 0x1100, 0x0200, 0x0400, 0x4800]"

section \<open>The maps\<close>

definition DIV_ROUND_UP :: "'a::len word \<Rightarrow> 'a word \<Rightarrow> 'a word" where
  "DIV_ROUND_UP n d = (n + d - 1) div d"

text \<open>
  The extent of a tile in texels. Mesa's \<open>util_logbase2\<close> is a parameter.
\<close>

definition ps5vk_tile_extent :: "(u32 \<Rightarrow> u32) \<Rightarrow> u32 \<Rightarrow> bool \<Rightarrow> u32 \<Rightarrow> u32 \<times> u32" where
  "ps5vk_tile_extent util_logbase2 texel_bytes depth samples =
     (let texel_bytes = (if depth \<and> texel_bytes \<noteq> 2 \<and> texel_bytes \<noteq> 1 then 4 else texel_bytes);
          log2_bytes = (if texel_bytes = 1 then 0 else if texel_bytes = 2 then 1 else if texel_bytes = 8 then 3
                        else if texel_bytes = 16 then 4 else 2 :: u32);
          n = 16 - log2_bytes - util_logbase2 samples
      in (push_bit (unat ((n + 1) div 2)) 1, push_bit (unat (n div 2)) 1))"

text \<open>The loop over the terms of a table.\<close>

fun tiled_local :: "tiled_term list \<Rightarrow> u64 \<Rightarrow> u64 \<Rightarrow> u64 \<Rightarrow> u64" where
  "tiled_local [] in_x in_y acc = acc"
| "tiled_local (t # ts) in_x in_y acc =
     (let v = (if tt_coord t = 0 then in_x else in_y)
      in tiled_local ts in_x in_y (acc XOR (push_bit (unat (tt_shift t)) v AND ucast (tt_mask t))))"

definition terms_of :: "u32 \<Rightarrow> tiled_term list" where
  "terms_of element_bytes =
     (if element_bytes = 1 then ps5vk_tiled_1b_terms
      else if element_bytes = 2 then ps5vk_tiled_2b_terms
      else if element_bytes = 8 then ps5vk_tiled_8b_terms
      else if element_bytes = 16 then ps5vk_tiled_16b_terms
      else ps5vk_tiled_4b_terms)"

text \<open>How the tile's place in the grid turns the coordinates inside it.\<close>

definition turned :: "u32 \<Rightarrow> u32 \<Rightarrow> u32 \<Rightarrow> u32 \<Rightarrow> u32 \<Rightarrow> u32 \<Rightarrow> u32 \<times> u32" where
  "turned x y tile_width tile_height element_bytes samples =
     (let in_x = x AND (tile_width - 1); in_y = y AND (tile_height - 1)
      in if samples = 4
         then (in_x XOR ((y div tile_height) AND 1) * (tile_width div 2), in_y XOR ((x div tile_width) AND 1) * (tile_height div 2))
         else if element_bytes = 8 then (in_x XOR ((y div tile_height) AND 1) * 32, in_y)
         else if element_bytes = 16
         then (in_x XOR ((y div tile_height) AND 1) * (tile_width div 2), in_y XOR ((x div tile_width) AND 1) * (tile_height div 2))
         else (in_x, in_y))"

text \<open>
  The two ways through the function: the tables, and the shortcut for four-byte texels of one
  sample. Each answers the offset of the tile and, through the pointer, the place inside it.
\<close>

definition tiled_texel_general :: "u32 \<Rightarrow> u32 \<Rightarrow> u32 \<Rightarrow> u32 \<Rightarrow> u32 \<Rightarrow> u32 \<Rightarrow> u32 \<Rightarrow> u64 \<times> u64" where
  "tiled_texel_general x y level_width tile_width tile_height element_bytes samples =
     (case turned x y tile_width tile_height element_bytes samples of (in_x, in_y) \<Rightarrow>
      let swizzle = tiled_local (terms_of element_bytes) (ucast in_x) (ucast in_y) 0;
          blocks_per_row = ucast (DIV_ROUND_UP level_width tile_width) :: u64;
          block = ucast (y div tile_height) * blocks_per_row + ucast (x div tile_width)
      in (block * PS5VK_TILE_BYTES, swizzle))"

definition tiled_texel_fast :: "u32 \<Rightarrow> u32 \<Rightarrow> u32 \<Rightarrow> u64 \<times> u64" where
  "tiled_texel_fast x y level_width =
     (let sx = x AND 127; sy = y AND 127;
          swizzle = (push_bit 2 sx AND 0x0c) XOR (push_bit 5 sx AND 0x380) XOR
                    (push_bit 4 sx AND 0x400) XOR (push_bit 6 sx AND 0x800) XOR
                    (push_bit 9 sx AND 0xa000) XOR (push_bit 4 sy AND 0x70) XOR
                    (push_bit 5 sy AND 0xf00) XOR (push_bit 9 sy AND 0x1000) XOR
                    (push_bit 8 sy AND 0x4000)
      in ((ucast (drop_bit 7 y) * ucast (DIV_ROUND_UP level_width 128) + ucast (drop_bit 7 x)) * PS5VK_TILE_BYTES,
          ucast swizzle))"

definition ps5vk_tiled_texel_offset :: "u32 \<Rightarrow> u32 \<Rightarrow> u32 \<Rightarrow> u32 \<Rightarrow> u32 \<Rightarrow> u32 \<Rightarrow> u32 \<Rightarrow> u64 \<times> u64" where
  "ps5vk_tiled_texel_offset x y level_width tile_width tile_height element_bytes samples =
     (if element_bytes = 4 \<and> samples = 1 \<and> tile_width = 128 \<and> tile_height = 128
      then tiled_texel_fast x y level_width
      else tiled_texel_general x y level_width tile_width tile_height element_bytes samples)"

text \<open>The loop over the seven bits of a four-byte depth texel's coordinates.\<close>

fun depth_local :: "u32 \<Rightarrow> u32 \<Rightarrow> nat list \<Rightarrow> u64 \<Rightarrow> u64" where
  "depth_local x y [] acc = acc"
| "depth_local x y (n # ns) acc =
     (let acc = (if drop_bit n x AND 1 \<noteq> 0 then acc XOR ucast (depth_x_masks ! n) else acc);
          acc = (if drop_bit n y AND 1 \<noteq> 0 then acc XOR ucast (depth_y_masks ! n) else acc)
      in depth_local x y ns acc)"

definition ps5vk_tiled_depth_offset :: "u32 \<Rightarrow> u32 \<Rightarrow> u32 \<Rightarrow> u32 \<Rightarrow> u64" where
  "ps5vk_tiled_depth_offset x y level_width element_bytes =
     (if element_bytes = 1
      then (drop_bit 8 (ucast y) * ucast (DIV_ROUND_UP level_width 256) + ucast (drop_bit 8 x)) * PS5VK_TILE_BYTES
             + tiled_local ps5vk_tiled_stencil_terms (ucast (x AND 255)) (ucast (y AND 255)) 0
      else if element_bytes = 2
      then (drop_bit 7 (ucast y) * ucast (DIV_ROUND_UP level_width 256) + ucast (drop_bit 8 x)) * PS5VK_TILE_BYTES
             + tiled_local ps5vk_tiled_depth2_terms (ucast (x AND 255)) (ucast (y AND 127)) 0
      else (drop_bit 7 (ucast y) * ucast (DIV_ROUND_UP level_width 128) + ucast (drop_bit 7 x)) * PS5VK_TILE_BYTES
             + depth_local x y [0..<7] 0)"

definition ps5vk_tiled_depth4_offset :: "u32 \<Rightarrow> u32 \<Rightarrow> u32 \<Rightarrow> u32 \<Rightarrow> u32 \<Rightarrow> u64" where
  "ps5vk_tiled_depth4_offset x y level_width tile_width tile_height =
     (let in_x = x AND (tile_width - 1); in_y = y AND (tile_height - 1);
          column = x div tile_width; row = y div tile_height;
          acc = tiled_local ps5vk_tiled_depth4_terms (ucast in_x) (ucast in_y) 0;
          acc = acc XOR push_bit 10 (ucast (column AND 1));
          acc = acc XOR push_bit 11 (ucast (row AND 1));
          acc = acc XOR push_bit 14 (ucast (row AND 1));
          acc = acc XOR push_bit 15 (ucast (drop_bit 1 row AND 1));
          blocks_per_row = ucast (DIV_ROUND_UP level_width tile_width) :: u64
      in (ucast row * blocks_per_row + ucast column) * PS5VK_TILE_BYTES + acc)"

section \<open>Maps that are linear over exclusive or\<close>

text \<open>
  What every table promises: the place inside a tile is linear in the coordinates, no coordinates of
  the tile but the origin are sent to 0, the place lies in the tile and is a multiple of the element.
\<close>

lemma unat_low_zero: "take_bit e (s :: u64) = 0 \<Longrightarrow> unat s mod 2 ^ e = 0"
  by (metis (no_types) take_bit_eq_mod unsigned_0 unsigned_take_bit_eq)

lemma multiples_apart:
  assumes "p \<noteq> q" and "p mod d = 0" and "q mod d = (0 :: nat)"
  shows "p + d \<le> q \<or> q + d \<le> p"
proof -
  obtain i j where ij: "p = d * i" "q = d * j" using assms(2,3) by (metis mod_eq_0_iff_dvd dvdE)
  then have "Suc i \<le> j \<or> Suc j \<le> i" using assms(1) by (cases i j rule: linorder_cases) auto
  then have "d * Suc i \<le> d * j \<or> d * Suc j \<le> d * i" by (metis mult_le_mono2)
  then show ?thesis using ij by (simp add: add.commute)
qed

locale tile_map =
  fixes f :: "u64 \<Rightarrow> u64 \<Rightarrow> u64" and a b e :: nat
  assumes linear: "f (x XOR x') (y XOR y') = f x y XOR f x' y'"
    and kernel: "take_bit a x = x \<Longrightarrow> take_bit b y = y \<Longrightarrow> f x y = 0 \<Longrightarrow> x = 0 \<and> y = 0"
    and inside: "take_bit 16 (f x y) = f x y"
    and aligned: "take_bit e (f x y) = 0"
    and element: "e \<le> 16"
begin

lemma turned_inj:
  assumes "take_bit a x = x" "take_bit a x' = x'" "take_bit b y = y" "take_bit b y' = y'"
    and "f (x XOR cx) (y XOR cy) XOR k = f (x' XOR cx) (y' XOR cy) XOR k"
  shows "x = x' \<and> y = y'"
proof -
  have cancel: "(p XOR c) XOR (q XOR c) = p XOR q" for p q c :: u64
    by (simp add: ac_simps)
  have zero: "p = q" if "p XOR q = 0" for p q :: u64
    using that by (metis xor.assoc xor.right_neutral xor_self_eq xor.left_neutral)
  have "f (x XOR cx) (y XOR cy) = f (x' XOR cx) (y' XOR cy)"
    using arg_cong [OF assms(5), of "\<lambda>w. w XOR k"] by (simp add: xor.assoc)
  then have "f (x XOR x') (y XOR y') = 0"
    using linear [of "x XOR cx" "x' XOR cx" "y XOR cy" "y' XOR cy"] by (simp add: cancel)
  then have "x XOR x' = 0 \<and> y XOR y' = 0" using assms(1-4) by (intro kernel) simp_all
  then show ?thesis using zero by blast
qed

text \<open>
  A level is a grid of such tiles. The tile may turn the coordinates (\<open>cx\<close>, \<open>cy\<close>) and the
  place (\<open>k\<close>) of its texels, as long as it turns all of them alike.
\<close>

definition local_at :: "(nat \<Rightarrow> nat \<Rightarrow> u64) \<Rightarrow> (nat \<Rightarrow> nat \<Rightarrow> u64) \<Rightarrow> (nat \<Rightarrow> nat \<Rightarrow> u64) \<Rightarrow> nat \<Rightarrow> nat \<Rightarrow> u64" where
  "local_at cx cy k x y =
     f (of_nat (x mod 2 ^ a) XOR cx (x div 2 ^ a) (y div 2 ^ b)) (of_nat (y mod 2 ^ b) XOR cy (x div 2 ^ a) (y div 2 ^ b))
       XOR k (x div 2 ^ a) (y div 2 ^ b)"

definition texel_at :: "(nat \<Rightarrow> nat \<Rightarrow> u64) \<Rightarrow> (nat \<Rightarrow> nat \<Rightarrow> u64) \<Rightarrow> (nat \<Rightarrow> nat \<Rightarrow> u64) \<Rightarrow> nat \<Rightarrow> nat \<Rightarrow> nat \<Rightarrow> nat" where
  "texel_at cx cy k per_row x y = (y div 2 ^ b * per_row + x div 2 ^ a) * 65536 + unat (local_at cx cy k x y)"

definition turns :: "(nat \<Rightarrow> nat \<Rightarrow> u64) \<Rightarrow> bool" where
  "turns k \<longleftrightarrow> (\<forall>c r. take_bit 16 (k c r) = k c r \<and> take_bit e (k c r) = 0)"

lemma local_at_bounds:
  assumes "turns k"
  shows "unat (local_at cx cy k x y) + 2 ^ e \<le> 65536" "unat (local_at cx cy k x y) mod 2 ^ e = 0"
proof -
  let ?l = "local_at cx cy k x y"
  have l: "take_bit 16 ?l = ?l" "take_bit e ?l = 0"
    using inside aligned assms by (simp_all add: local_at_def turns_def)
  have lt: "unat ?l < 2 ^ 16"
    using l(1) by (metis (no_types) take_bit_nat_less_exp unsigned_take_bit_eq)
  show m: "unat ?l mod 2 ^ e = 0"
    using l(2) by (rule unat_low_zero)
  then obtain q where q: "unat ?l = 2 ^ e * q" by (metis mod_eq_0_iff_dvd dvdE)
  obtain d where d: "(2 :: nat) ^ 16 = 2 ^ e * d" using element by (metis le_imp_power_dvd dvdE)
  have "2 ^ e * q < 2 ^ e * d" using lt q d by simp
  then have "2 ^ e * Suc q \<le> 2 ^ e * d" by (intro mult_le_mono) auto
  then show "unat ?l + 2 ^ e \<le> 65536" using q d by simp
qed

lemma texel_at_within:
  assumes "turns k" and "x div 2 ^ a < per_row" and "y div 2 ^ b < rows"
  shows "texel_at cx cy k per_row x y + 2 ^ e \<le> rows * per_row * 65536"
proof -
  have "y div 2 ^ b * per_row + x div 2 ^ a < Suc (y div 2 ^ b) * per_row" using assms(2) by simp
  also have "\<dots> \<le> rows * per_row" using assms(3) by (intro mult_le_mono) auto
  finally have "Suc (y div 2 ^ b * per_row + x div 2 ^ a) * 65536 \<le> rows * per_row * 65536" by simp
  then show ?thesis using local_at_bounds(1) [OF assms(1), of cx cy x y] by (simp add: texel_at_def)
qed

lemma texel_at_apart:
  assumes "turns k" and "x div 2 ^ a < per_row" and "x' div 2 ^ a < per_row" and "(x, y) \<noteq> (x', y')"
    and "a \<le> 64" and "b \<le> 64"
  shows "texel_at cx cy k per_row x y + 2 ^ e \<le> texel_at cx cy k per_row x' y' \<or>
         texel_at cx cy k per_row x' y' + 2 ^ e \<le> texel_at cx cy k per_row x y"
proof -
  let ?B = "y div 2 ^ b * per_row + x div 2 ^ a" and ?B' = "y' div 2 ^ b * per_row + x' div 2 ^ a"
  let ?l = "local_at cx cy k x y" and ?l' = "local_at cx cy k x' y'"
  note bounds = local_at_bounds(1) [OF assms(1), of cx cy x y] local_at_bounds(1) [OF assms(1), of cx cy x' y']
  consider "?B < ?B'" | "?B' < ?B" | "?B = ?B'" by linarith
  then show ?thesis
  proof cases
    case 1
    then have "Suc ?B * 65536 \<le> ?B' * 65536" by (intro mult_le_mono) auto
    then show ?thesis using bounds by (simp add: texel_at_def)
  next
    case 2
    then have "Suc ?B' * 65536 \<le> ?B * 65536" by (intro mult_le_mono) auto
    then show ?thesis using bounds by (simp add: texel_at_def)
  next
    case 3
    have row: "y div 2 ^ b = y' div 2 ^ b" using arg_cong [OF 3, of "\<lambda>n. n div per_row"] assms(2,3) by simp
    with 3 have col: "x div 2 ^ a = x' div 2 ^ a" by simp
    have "?l \<noteq> ?l'"
    proof
      assume "?l = ?l'"
      have low: "take_bit i (of_nat (n mod 2 ^ i) :: u64) = of_nat (n mod 2 ^ i)" for i n
        unfolding take_bit_of_nat take_bit_nat_def by simp
      from \<open>?l = ?l'\<close>
      have eq: "of_nat (x mod 2 ^ a) = (of_nat (x' mod 2 ^ a) :: u64) \<and> of_nat (y mod 2 ^ b) = (of_nat (y' mod 2 ^ b) :: u64)"
        unfolding local_at_def row col by (intro turned_inj) (auto simp: low)
      have small: "n mod 2 ^ i < (2 :: nat) ^ 64" if "i \<le> 64" for n i
      proof -
        have "n mod 2 ^ i < (2 :: nat) ^ i" by simp
        also have "\<dots> \<le> 2 ^ 64" using that by (intro power_increasing) auto
        finally show ?thesis .
      qed
      have "x mod 2 ^ a = x' mod 2 ^ a" "y mod 2 ^ b = y' mod 2 ^ b"
        using eq small [OF assms(5)] small [OF assms(6)] by (metis unat_u64_small)+
      then have "x = x'" "y = y'" using row col by (metis div_mult_mod_eq)+
      then show False using assms(4) by simp
    qed
    then have "unat ?l \<noteq> unat ?l'" using word_unat_eq_iff [of ?l ?l'] by blast
    moreover have "unat ?l mod 2 ^ e = 0" "unat ?l' mod 2 ^ e = 0" using local_at_bounds(2) [OF assms(1)] by auto
    ultimately have "unat ?l + 2 ^ e \<le> unat ?l' \<or> unat ?l' + 2 ^ e \<le> unat ?l" by (rule multiples_apart)
    then show ?thesis using row col by (auto simp: texel_at_def)
  qed
qed

end

lemma tiled_local_acc: "tiled_local ts x y acc = acc XOR tiled_local ts x y 0"
proof (induction ts arbitrary: acc)
  case (Cons t ts)
  let ?v = "push_bit (unat (tt_shift t)) (if tt_coord t = 0 then x else y) AND ucast (tt_mask t)"
  have "tiled_local (t # ts) x y acc = (acc XOR ?v) XOR tiled_local ts x y 0"
    using Cons.IH [of "acc XOR ?v"] by (simp add: Let_def)
  moreover have "tiled_local (t # ts) x y 0 = ?v XOR tiled_local ts x y 0"
    using Cons.IH [of ?v] by (simp add: Let_def)
  ultimately show ?case by (simp add: xor.assoc)
qed simp

lemma tiled_local_Cons:
  "tiled_local (t # ts) x y 0 =
    (push_bit (unat (tt_shift t)) (if tt_coord t = 0 then x else y) AND ucast (tt_mask t)) XOR tiled_local ts x y 0"
  using tiled_local_acc [of ts x y "push_bit (unat (tt_shift t)) (if tt_coord t = 0 then x else y) AND ucast (tt_mask t)"]
  by (simp add: Let_def)

lemma and_xor_distrib: "(p XOR q) AND m = (p AND m) XOR (q AND m)" for p q m :: u64
  by (rule bit_word_eqI) (auto simp: bit_simps)

lemma tiled_local_linear:
  "tiled_local ts (x XOR x') (y XOR y') 0 = tiled_local ts x y 0 XOR tiled_local ts x' y' 0"
proof (induction ts)
  case (Cons t ts)
  then show ?case
    unfolding tiled_local_Cons by (cases "tt_coord t = 0") (simp_all add: push_bit_xor and_xor_distrib, simp_all add: ac_simps)
qed simp

lemma tiled_local_inside:
  assumes "list_all (\<lambda>t. take_bit 16 (tt_mask t) = tt_mask t) ts"
  shows "take_bit 16 (tiled_local ts x y 0) = tiled_local ts x y 0"
  using assms
proof (induction ts)
  case (Cons t ts)
  have "take_bit 16 (ucast (tt_mask t) :: u64) = ucast (tt_mask t)"
    using Cons.prems by (simp flip: unsigned_take_bit_eq)
  then have "take_bit 16 (v AND ucast (tt_mask t) :: u64) = v AND ucast (tt_mask t)" for v
    by (metis and.assoc and.commute take_bit_eq_mask)
  then show ?case using Cons unfolding tiled_local_Cons by simp
qed simp

lemma tiled_local_aligned:
  assumes "list_all (\<lambda>t. take_bit e (tt_mask t) = 0) ts" and "e \<le> 32"
  shows "take_bit e (tiled_local ts x y 0) = 0"
  using assms
proof (induction ts)
  case (Cons t ts)
  have "take_bit e (ucast (tt_mask t) :: u64) = 0"
    using Cons.prems by (simp flip: unsigned_take_bit_eq)
  then show ?case using Cons unfolding tiled_local_Cons by (simp add: take_bit_and)
qed simp


lemma zero_by_bits:
  assumes "take_bit n w = (w :: u64)" and "list_all (\<lambda>i. \<not> bit w i) [0..<n]"
  shows "w = 0"
proof (rule bit_word_eqI)
  fix i
  have "\<not> bit w i" if "\<not> i < n" using assms(1) that by (metis bit_take_bit_iff)
  moreover have "\<not> bit w i" if "i < n" using assms(2) that by (auto simp: list_all_iff)
  ultimately show "bit w i = bit 0 i" by auto
qed

lemma tiled_local_bit:
  "bit (tiled_local ts x y 0) n =
    foldr (\<lambda>t r. (bit (tt_mask t) n \<and> unat (tt_shift t) \<le> n \<and> n < 64 \<and> bit (if tt_coord t = 0 then x else y) (n - unat (tt_shift t))) \<noteq> r) ts False"
proof (induction ts)
  case (Cons t ts)
  then show ?case unfolding tiled_local_Cons
    by (auto simp: bit_simps)
qed simp

lemma upto_lists:
  "[0..<6] = [0, 1, 2, 3, 4, 5]"
  "[0..<7] = [0, 1, 2, 3, 4, 5, 6]"
  "[0..<8] = [0, 1, 2, 3, 4, 5, 6, 7]"
  "[0..<16] = [0, 1, 2, 3, 4, 5, 6, 7, 8, 9, 10, 11, 12, 13, 14, 15]"
  by code_simp+

declare tiled_local.simps(2) [simp del]

text \<open>A table is a map of its tile when its masks fit and its bits determine the coordinates.\<close>

lemma table_map:
  assumes "list_all (\<lambda>t. take_bit 16 (tt_mask t) = tt_mask t) ts"
    and "list_all (\<lambda>t. take_bit e (tt_mask t) = 0) ts" and "e \<le> 16"
    and "\<And>x y. list_all (\<lambda>n. \<not> bit (tiled_local ts x y 0) n) [0..<16] \<Longrightarrow>
      list_all (\<lambda>i. \<not> bit x i) [0..<a] \<and> list_all (\<lambda>i. \<not> bit y i) [0..<b]"
  shows "tile_map (\<lambda>x y. tiled_local ts x y 0) a b e"
proof
  fix x y assume "take_bit a x = x" "take_bit b y = y" "tiled_local ts x y 0 = 0"
  moreover from this have "list_all (\<lambda>n. \<not> bit (tiled_local ts x y 0) n) [0..<16]" by (simp add: list_all_iff)
  ultimately show "x = 0 \<and> y = 0" using assms(4) [of x y] zero_by_bits by blast
qed (use assms(3) in \<open>auto intro: tiled_local_linear tiled_local_inside [OF assms(1)] tiled_local_aligned [OF assms(2)]\<close>)

interpretation map_4b: tile_map "\<lambda>x y. tiled_local ps5vk_tiled_4b_terms x y 0" 7 7 2
  by (rule table_map) (auto simp: ps5vk_tiled_4b_terms_def tiled_local_bit upto_lists)

interpretation map_1b: tile_map "\<lambda>x y. tiled_local ps5vk_tiled_1b_terms x y 0" 8 8 0
  by (rule table_map) (auto simp: ps5vk_tiled_1b_terms_def tiled_local_bit upto_lists)

interpretation map_8b: tile_map "\<lambda>x y. tiled_local ps5vk_tiled_8b_terms x y 0" 7 6 3
  by (rule table_map) (auto simp: ps5vk_tiled_8b_terms_def tiled_local_bit upto_lists)

interpretation map_16b: tile_map "\<lambda>x y. tiled_local ps5vk_tiled_16b_terms x y 0" 6 6 4
  by (rule table_map) (auto simp: ps5vk_tiled_16b_terms_def tiled_local_bit upto_lists)

interpretation map_2b: tile_map "\<lambda>x y. tiled_local ps5vk_tiled_2b_terms x y 0" 8 7 1
  by (rule table_map) (auto simp: ps5vk_tiled_2b_terms_def tiled_local_bit upto_lists)

interpretation map_depth2: tile_map "\<lambda>x y. tiled_local ps5vk_tiled_depth2_terms x y 0" 8 7 1
  by (rule table_map) (auto simp: ps5vk_tiled_depth2_terms_def tiled_local_bit upto_lists)

interpretation map_stencil: tile_map "\<lambda>x y. tiled_local ps5vk_tiled_stencil_terms x y 0" 8 8 0
  by (rule table_map) (auto simp: ps5vk_tiled_stencil_terms_def tiled_local_bit upto_lists)

interpretation map_depth4: tile_map "\<lambda>x y. tiled_local ps5vk_tiled_depth4_terms x y 0" 6 6 4
  by (rule table_map) (auto simp: ps5vk_tiled_depth4_terms_def tiled_local_bit upto_lists)

text \<open>The four-byte depth map, whose two mask tables are indexed by the bits of the coordinates.\<close>

lemma low_bit_iff: "drop_bit n x AND 1 \<noteq> 0 \<longleftrightarrow> bit x n" for x :: u32
  by (simp add: bit_iff_odd_drop_bit and_one_eq odd_iff_mod_2_eq_one)

lemma depth_local_acc: "depth_local x y ns acc = acc XOR depth_local x y ns 0"
proof (induction ns arbitrary: acc)
  case (Cons n ns)
  show ?case
    unfolding depth_local.simps Let_def
    by (subst (1 2) Cons.IH) (simp add: ac_simps)
qed simp

lemma depth_local_Cons:
  "depth_local x y (n # ns) 0 =
    ((if bit x n then ucast (depth_x_masks ! n) else 0) XOR (if bit y n then ucast (depth_y_masks ! n) else 0))
      XOR depth_local x y ns 0"
  unfolding depth_local.simps(2) Let_def low_bit_iff by (subst depth_local_acc) simp

lemma depth_local_linear:
  "depth_local (x XOR x') (y XOR y') ns 0 = depth_local x y ns 0 XOR depth_local x' y' ns 0"
proof (induction ns)
  case (Cons n ns)
  then show ?case
    unfolding depth_local_Cons bit_xor_iff
    by (cases "bit x n"; cases "bit x' n"; cases "bit y n"; cases "bit y' n") (simp_all add: ac_simps)
qed simp

lemma depth_local_within:
  assumes "\<forall>n \<in> set ns. take_bit 2 (depth_x_masks ! n) = 0 \<and> take_bit 2 (depth_y_masks ! n) = 0"
  shows "take_bit 16 (depth_local x y ns 0) = depth_local x y ns 0 \<and> take_bit 2 (depth_local x y ns 0) = 0"
  using assms
proof (induction ns)
  case (Cons n ns)
  have "take_bit 2 (ucast (depth_x_masks ! n) :: u64) = 0 \<and> take_bit 2 (ucast (depth_y_masks ! n) :: u64) = 0"
    using Cons.prems by (simp flip: unsigned_take_bit_eq)
  moreover have "take_bit 16 (ucast m :: u64) = ucast m" for m :: u16
    by (rule bit_word_eqI) (auto simp: bit_simps dest: bit_imp_le_length)
  ultimately show ?case using Cons unfolding depth_local_Cons by simp
qed simp

lemma depth_local_bit:
  "n < 16 \<Longrightarrow> bit (depth_local x y ns 0) n =
    foldr (\<lambda>i r. ((bit x i \<and> bit (depth_x_masks ! i) n) \<noteq> (bit y i \<and> bit (depth_y_masks ! i) n)) \<noteq> r) ns False"
proof (induction ns)
  case (Cons i ns)
  then show ?case unfolding depth_local_Cons by (auto simp: bit_simps)
qed simp

declare depth_local.simps(2) [simp del]

interpretation map_depth: tile_map "\<lambda>x y. depth_local (ucast x) (ucast y) [0..<7] 0" 7 7 2
proof
  fix x y :: u64
  assume bounds: "take_bit 7 x = x" "take_bit 7 y = y" and zero: "depth_local (ucast x) (ucast y) [0..<7] 0 = 0"
  have "list_all (\<lambda>n. \<not> bit (depth_local (ucast x) (ucast y) [0..<7] 0) n) [0..<16]" by (simp add: zero list_all_iff)
  then have "list_all (\<lambda>i. \<not> bit x i) [0..<7] \<and> list_all (\<lambda>i. \<not> bit y i) [0..<7]"
    by (simp add: depth_local_bit upto_lists depth_x_masks_def depth_y_masks_def bit_simps) auto
  then show "x = 0 \<and> y = 0" using bounds zero_by_bits by blast
next
  have masks: "\<forall>n \<in> set [0..<7]. take_bit 2 (depth_x_masks ! n) = 0 \<and> take_bit 2 (depth_y_masks ! n) = 0"
    by (simp add: upto_lists depth_x_masks_def depth_y_masks_def)
  fix x y
  show "take_bit 16 (depth_local (ucast (x :: u64)) (ucast (y :: u64)) [0..<7] 0) = depth_local (ucast x) (ucast y) [0..<7] 0"
    "take_bit 2 (depth_local (ucast x) (ucast y) [0..<7] 0) = 0"
    using depth_local_within [OF masks] by simp_all
next
  fix x x' y y' :: u64
  have "(ucast (x XOR x') :: u32) = ucast x XOR ucast x'" for x x' :: u64 by (rule bit_word_eqI) (auto simp: bit_simps)
  then show "depth_local (ucast (x XOR x')) (ucast (y XOR y')) [0..<7] 0 =
    depth_local (ucast x) (ucast y) [0..<7] 0 XOR depth_local (ucast x') (ucast y') [0..<7] 0"
    by (simp add: depth_local_linear)
qed simp

section \<open>The code's functions in terms of the maps\<close>

lemma ucast_xor: "ucast (p XOR q) = (ucast p XOR ucast q :: u64)" for p q :: u32
  by (rule bit_word_eqI) (auto simp: bit_simps)

lemma low_mask: "x AND (2 ^ n - 1) = take_bit n x" for x :: u32
  by (simp add: take_bit_eq_mask mask_eq_exp_minus_1)

lemma ucast_low: "ucast (take_bit n x) = (of_nat (unat x mod 2 ^ n) :: u64)" for x :: u32
proof -
  have "unat (take_bit n x) = unat x mod 2 ^ n" by (simp only: unsigned_take_bit_eq take_bit_nat_def)
  then show ?thesis by (metis of_nat_unat)
qed

lemma unat_shift_div: "n < 32 \<Longrightarrow> unat (x div 2 ^ n) = unat x div 2 ^ n" for x :: u32
proof -
  have "unat (drop_bit n x) = drop_bit n (unat x)"
    using unsigned_less [of x, where ?'a = nat] by (simp add: unsigned_drop_bit_eq take_bit_nat_eq_self)
  then show ?thesis by (simp only: drop_bit_eq_div)
qed

lemma and_one_cases: "w AND 1 = (of_nat (unat w mod 2) :: u32)"
proof -
  have "unat (w AND 1) = unat w mod 2" by (simp add: and_one_eq unat_mod)
  then show ?thesis by (metis of_nat_unat ucast_id)
qed

definition turn_x :: "nat \<Rightarrow> u32 \<Rightarrow> u32 \<Rightarrow> nat \<Rightarrow> nat \<Rightarrow> u64" where
  "turn_x a element_bytes samples column row =
     (if samples = 4 \<or> element_bytes = 16 \<and> element_bytes \<noteq> 8 then of_nat (row mod 2) * 2 ^ (a - 1)
      else if element_bytes = 8 then of_nat (row mod 2) * 32 else 0)"

definition turn_y :: "nat \<Rightarrow> u32 \<Rightarrow> u32 \<Rightarrow> nat \<Rightarrow> nat \<Rightarrow> u64" where
  "turn_y b element_bytes samples column row =
     (if samples = 4 \<or> element_bytes = 16 then of_nat (column mod 2) * 2 ^ (b - 1) else 0)"

lemma turn_amount:
  assumes "1 \<le> n" and "n \<le> 8"
  shows "(2 ^ n :: u32) div 2 = 2 ^ (n - 1)" "(ucast (of_nat (i mod 2) * (2 ^ (n - 1)) :: u32) :: u64) = of_nat (i mod 2) * 2 ^ (n - 1)"
    "(ucast (of_nat (i mod 2) * 32 :: u32) :: u64) = of_nat (i mod 2) * 32"
proof -
  have n: "n \<in> set [1..<9]" using assms by auto
  show "(2 ^ n :: u32) div 2 = 2 ^ (n - 1)" using n by (auto simp: upt_rec)
  show "(ucast (of_nat (i mod 2) * (2 ^ (n - 1)) :: u32) :: u64) = of_nat (i mod 2) * 2 ^ (n - 1)"
    using n by (cases "even i") (auto simp: upt_rec mod_2_eq_odd)
  show "(ucast (of_nat (i mod 2) * 32 :: u32) :: u64) = of_nat (i mod 2) * 32" by (cases "even i") (auto simp: mod_2_eq_odd)
qed

lemma general_swizzle:
  assumes "1 \<le> a" "a \<le> 8" "1 \<le> b" "b \<le> 8"
  shows "snd (tiled_texel_general x y level_width (2 ^ a) (2 ^ b) element_bytes samples) =
    tiled_local (terms_of element_bytes)
      (of_nat (unat x mod 2 ^ a) XOR turn_x a element_bytes samples (unat x div 2 ^ a) (unat y div 2 ^ b))
      (of_nat (unat y mod 2 ^ b) XOR turn_y b element_bytes samples (unat x div 2 ^ a) (unat y div 2 ^ b)) 0"
proof -
  have "a < 32" "b < 32" using assms by auto
  then have d: "(x div 2 ^ a) AND 1 = of_nat (unat x div 2 ^ a mod 2)" "(y div 2 ^ b) AND 1 = of_nat (unat y div 2 ^ b mod 2)"
    by (simp_all only: and_one_cases unat_shift_div)
  show ?thesis
    unfolding tiled_texel_general_def turned_def turn_x_def turn_y_def Let_def low_mask d
    by (simp add: ucast_xor ucast_low turn_amount [OF assms(1,2)] turn_amount [OF assms(3,4)] del: One_nat_def)
qed

lemma round_up_div: "x < w \<Longrightarrow> 0 < d \<Longrightarrow> x div d < (w + d - 1) div (d :: nat)"
proof -
  assume "x < w" "0 < d"
  have "x div d * d \<le> x" by simp
  then have "x div d * d + d \<le> w + d - 1" using \<open>x < w\<close> by linarith
  then have "(x div d * d + d) div d \<le> (w + d - 1) div d" by (rule div_le_mono)
  then show ?thesis using \<open>0 < d\<close> by simp
qed

lemma unat_round_up:
  assumes "unat w \<le> 2 ^ 16" and "n \<le> 8"
  shows "unat (DIV_ROUND_UP w (2 ^ n) :: u32) = (unat w + 2 ^ n - 1) div 2 ^ n"
proof -
  have n: "n \<in> set [0..<9]" using assms(2) by auto
  then have p: "unat (2 ^ n :: u32) = 2 ^ n" by (auto simp: upt_rec)
  have le: "(2 :: nat) ^ n \<le> 2 ^ 8" using assms(2) by (intro power_increasing) auto
  have "unat (w + 2 ^ n) = unat w + 2 ^ n" using assms(1) le p by (simp add: unat_word_ariths(1))
  moreover from this have "unat (w + 2 ^ n - 1) = unat w + 2 ^ n - 1"
    by (subst unat_sub) (simp_all add: word_le_nat_alt trans_le_add2)
  ultimately show ?thesis unfolding DIV_ROUND_UP_def using unat_shift_div [of n "w + 2 ^ n - 1"] assms(2) by simp
qed

lemma block_offset:
  fixes x y w :: u32
  assumes "unat x < 2 ^ 16" "unat y < 2 ^ 16" "unat w \<le> 2 ^ 16" "a \<le> 8" "b \<le> 8"
  shows "unat ((ucast (y div 2 ^ b) * ucast (DIV_ROUND_UP w (2 ^ a)) + ucast (x div 2 ^ a)) * PS5VK_TILE_BYTES :: u64) =
    (unat y div 2 ^ b * ((unat w + 2 ^ a - 1) div 2 ^ a) + unat x div 2 ^ a) * 65536"
    (is "_ = (?r * ?p + ?c) * _")
proof -
  have u: "unat (ucast v :: u64) = unat v" for v :: u32
    using unsigned_less [of v, where ?'a = nat] by (simp add: unsigned_ucast_eq take_bit_nat_eq_self)
  have le: "(2 :: nat) ^ a \<le> 2 ^ 8" using assms(4) by (intro power_increasing) auto
  have r: "?r \<le> 2 ^ 16" "?c \<le> 2 ^ 16" using assms(1,2) by (meson div_le_dividend le_trans less_imp_le)+
  have "?p \<le> unat w + 2 ^ a - 1" by (rule div_le_dividend)
  also have "\<dots> \<le> 2 ^ 17" using assms(3) le by simp
  finally have p: "?p \<le> 2 ^ 17" .
  have rp: "?r * ?p \<le> 2 ^ 16 * 2 ^ 17" using r(1) p by (rule mult_le_mono)
  have "a < 32" "b < 32" using assms(4,5) by auto
  then have parts: "unat (ucast (y div 2 ^ b) :: u64) = ?r" "unat (ucast (x div 2 ^ a) :: u64) = ?c"
    "unat (ucast (DIV_ROUND_UP w (2 ^ a)) :: u64) = ?p"
    by (simp_all only: u unat_shift_div unat_round_up [OF assms(3,4)])
  have m: "unat (ucast (y div 2 ^ b) * ucast (DIV_ROUND_UP w (2 ^ a)) :: u64) = ?r * ?p"
    unfolding unat_word_ariths(2) parts using rp by (intro mod_less) simp
  have s: "unat (ucast (y div 2 ^ b) * ucast (DIV_ROUND_UP w (2 ^ a)) + ucast (x div 2 ^ a) :: u64) = ?r * ?p + ?c"
    unfolding unat_word_ariths(1) m parts using rp r(2) by (intro mod_less) simp
  show ?thesis unfolding unat_word_ariths(2) s using rp r(2) by (simp add: mod_less)
qed

section \<open>Colour\<close>

lemma ucast_term: "(ucast (push_bit k s AND m) :: u64) = push_bit k (ucast s) AND ucast m" for s m :: u32
  by (rule bit_word_eqI) (auto simp: bit_simps dest: bit_imp_le_length)

lemma fast_is_general: "tiled_texel_fast x y level_width = tiled_texel_general x y level_width 128 128 4 1"
proof -
  have "(128 :: u32) = 2 ^ 7" "(127 :: u32) = 2 ^ 7 - 1" by simp_all
  then have d: "drop_bit 7 v = v div 128" for v :: u32 by (simp add: drop_bit_eq_div)
  show ?thesis
    by (simp add: tiled_texel_fast_def tiled_texel_general_def turned_def terms_of_def ps5vk_tiled_4b_terms_def
        tiled_local.simps(2) Let_def d ucast_xor ucast_term xor.assoc)
qed

lemma colour_place:
  assumes map: "tile_map (\<lambda>x y. tiled_local (terms_of element_bytes) x y 0) a b e"
    and tile: "1 \<le> a" "a \<le> 8" "1 \<le> b" "b \<le> 8"
    and texel: "unat x < 2 ^ 16" "unat y < 2 ^ 16" "unat w \<le> 2 ^ 16"
    and place: "ps5vk_tiled_texel_offset x y w (2 ^ a) (2 ^ b) element_bytes samples = (t, s)"
  shows "unat t + unat s = tile_map.texel_at (\<lambda>x y. tiled_local (terms_of element_bytes) x y 0) a b
     (turn_x a element_bytes samples) (turn_y b element_bytes samples) (\<lambda>_ _. 0) ((unat w + 2 ^ a - 1) div 2 ^ a) (unat x) (unat y)"
proof -
  have g: "tiled_texel_general x y w (2 ^ a) (2 ^ b) element_bytes samples = (t, s)"
    using place fast_is_general unfolding ps5vk_tiled_texel_offset_def by (auto split: if_splits)
  have "unat t = (unat y div 2 ^ b * ((unat w + 2 ^ a - 1) div 2 ^ a) + unat x div 2 ^ a) * 65536"
    using g block_offset [OF texel tile(2,4)] by (auto simp: tiled_texel_general_def Let_def split: prod.splits)
  then show ?thesis
    using general_swizzle [OF tile, of x y w element_bytes samples] g
    by (simp add: tile_map.texel_at_def [OF map] tile_map.local_at_def [OF map])
qed

text \<open>The tile of every element size, as exponents.\<close>

definition tile_shape :: "u32 \<Rightarrow> (nat \<times> nat \<times> nat) option" where
  "tile_shape element_bytes =
     (if element_bytes = 1 then Some (8, 8, 0) else if element_bytes = 2 then Some (8, 7, 1)
      else if element_bytes = 4 then Some (7, 7, 2) else if element_bytes = 8 then Some (7, 6, 3)
      else if element_bytes = 16 then Some (6, 6, 4) else None)"

lemma tile_shape_cases:
  assumes "tile_shape element_bytes = Some (a, b, e)"
  shows "tile_map (\<lambda>x y. tiled_local (terms_of element_bytes) x y 0) a b e"
    and "1 \<le> a \<and> a \<le> 8 \<and> 1 \<le> b \<and> b \<le> 8 \<and> unat element_bytes = 2 ^ e"
    and "util_logbase2 1 = 0 \<Longrightarrow> ps5vk_tile_extent util_logbase2 element_bytes False 1 = (2 ^ a, 2 ^ b)"
  using assms map_1b.tile_map_axioms map_2b.tile_map_axioms map_4b.tile_map_axioms map_8b.tile_map_axioms map_16b.tile_map_axioms
  by (auto simp: tile_shape_def terms_of_def ps5vk_tile_extent_def Let_def split: if_splits)

lemma grid_facts:
  fixes x x' y y' w h :: u32
  assumes "x < w" "x' < w" "unat w \<le> 2 ^ 16" "y < h" "y' < h" "unat h \<le> 2 ^ 16" "(x, y) \<noteq> (x', y')"
  shows "unat x div 2 ^ a < (unat w + 2 ^ a - 1) div 2 ^ a" "unat x' div 2 ^ a < (unat w + 2 ^ a - 1) div 2 ^ a"
    and "unat y div 2 ^ b < (unat h + 2 ^ b - 1) div 2 ^ b" and "(unat x, unat y) \<noteq> (unat x', unat y')"
    and "a \<le> 8 \<Longrightarrow> b \<le> 8 \<Longrightarrow> unat (DIV_ROUND_UP w (2 ^ a)) = (unat w + 2 ^ a - 1) div 2 ^ a \<and>
        unat (DIV_ROUND_UP h (2 ^ b)) = (unat h + 2 ^ b - 1) div 2 ^ b"
    and "unat x < 2 ^ 16" "unat x' < 2 ^ 16" "unat y < 2 ^ 16" "unat y' < 2 ^ 16"
proof -
  have lt: "unat x < unat w" "unat x' < unat w" "unat y < unat h" using assms by (simp_all add: word_less_nat_alt)
  show "unat x div 2 ^ a < (unat w + 2 ^ a - 1) div 2 ^ a" "unat x' div 2 ^ a < (unat w + 2 ^ a - 1) div 2 ^ a"
    "unat y div 2 ^ b < (unat h + 2 ^ b - 1) div 2 ^ b"
    using round_up_div [OF lt(1), of "2 ^ a"] round_up_div [OF lt(2), of "2 ^ a"] round_up_div [OF lt(3), of "2 ^ b"] by simp_all
  show "(unat x, unat y) \<noteq> (unat x', unat y')" using assms(7) by (simp add: word_unat_eq_iff)
  show "a \<le> 8 \<Longrightarrow> b \<le> 8 \<Longrightarrow> unat (DIV_ROUND_UP w (2 ^ a)) = (unat w + 2 ^ a - 1) div 2 ^ a \<and>
        unat (DIV_ROUND_UP h (2 ^ b)) = (unat h + 2 ^ b - 1) div 2 ^ b"
    using unat_round_up [OF assms(3)] unat_round_up [OF assms(6)] by blast
  show "unat x < 2 ^ 16" "unat x' < 2 ^ 16" "unat y < 2 ^ 16" "unat y' < 2 ^ 16"
    using assms by (simp_all add: word_less_nat_alt)
qed

lemma colour_apart:
  assumes "tile_map (\<lambda>x y. tiled_local (terms_of element_bytes) x y 0) a b e" and "1 \<le> a" "a \<le> 8" "1 \<le> b" "b \<le> 8"
    and "x < w" "x' < w" "unat w \<le> 2 ^ 16" "y < h" "y' < h" "unat h \<le> 2 ^ 16" "(x, y) \<noteq> (x', y')"
    and "ps5vk_tiled_texel_offset x y w (2 ^ a) (2 ^ b) element_bytes samples = (t, s)"
    and "ps5vk_tiled_texel_offset x' y' w (2 ^ a) (2 ^ b) element_bytes samples = (t', s')"
  shows "unat t + unat s + 2 ^ e \<le> unat t' + unat s' \<or> unat t' + unat s' + 2 ^ e \<le> unat t + unat s"
    and "unat t + unat s + 2 ^ e \<le> unat (DIV_ROUND_UP h (2 ^ b)) * unat (DIV_ROUND_UP w (2 ^ a)) * 65536"
proof -
  note map = assms(1) and grid = grid_facts [OF assms(6-12)]
  have turns: "tile_map.turns e (\<lambda>_ _. 0)" by (simp add: tile_map.turns_def [OF map])
  note place = colour_place [OF assms(1-5) grid(6,8) assms(8,13)] colour_place [OF assms(1-5) grid(7,9) assms(8,14)]
  show "unat t + unat s + 2 ^ e \<le> unat t' + unat s' \<or> unat t' + unat s' + 2 ^ e \<le> unat t + unat s"
    using tile_map.texel_at_apart [OF map turns grid(1,2,4)] assms(3,5) place by simp
  show "unat t + unat s + 2 ^ e \<le> unat (DIV_ROUND_UP h (2 ^ b)) * unat (DIV_ROUND_UP w (2 ^ a)) * 65536"
    using tile_map.texel_at_within [OF map turns grid(1,3)] grid(5) assms(3,5) place by simp
qed

lemma colour_within:
  assumes "tile_map (\<lambda>x y. tiled_local (terms_of element_bytes) x y 0) a b e" and "1 \<le> a" "a \<le> 8" "1 \<le> b" "b \<le> 8"
    and "x < w" "unat w \<le> 2 ^ 16" "y < h" "unat h \<le> 2 ^ 16"
    and "ps5vk_tiled_texel_offset x y w (2 ^ a) (2 ^ b) element_bytes samples = (t, s)"
  shows "unat t + unat s + 2 ^ e \<le> unat (DIV_ROUND_UP h (2 ^ b)) * unat (DIV_ROUND_UP w (2 ^ a)) * 65536"
proof -
  note map = assms(1)
  have turns: "tile_map.turns e (\<lambda>_ _. 0)" by (simp add: tile_map.turns_def [OF map])
  have lt: "unat x < unat w" "unat y < unat h" using assms(6,8) by (simp_all add: word_less_nat_alt)
  then have small: "unat x < 2 ^ 16" "unat y < 2 ^ 16" using assms(7,9) by simp_all
  have cols: "unat x div 2 ^ a < (unat w + 2 ^ a - 1) div 2 ^ a" "unat y div 2 ^ b < (unat h + 2 ^ b - 1) div 2 ^ b"
    using round_up_div [OF lt(1), of "2 ^ a"] round_up_div [OF lt(2), of "2 ^ b"] by simp_all
  show ?thesis
    unfolding unat_round_up [OF assms(7,3)] unat_round_up [OF assms(9,5)] colour_place [OF assms(1-5) small assms(7,10)]
    by (rule tile_map.texel_at_within [OF map turns cols])
qed



text \<open>The shortcut for four-byte texels of one sample, written without a table and without a division,
  places every texel of every level where the tables place it.\<close>

lemma fast_path_is_table:
  "ps5vk_tiled_texel_offset x y w 128 128 4 1 = tiled_texel_general x y w 128 128 4 1"
  by (simp add: ps5vk_tiled_texel_offset_def fast_is_general)

section \<open>Depth and stencil\<close>

lemma block_bound:
  fixes x y w :: u32
  assumes "unat x < 2 ^ 16" "unat y < 2 ^ 16" "unat w \<le> 2 ^ 16" "a \<le> 8" "b \<le> 8"
  shows "(unat y div 2 ^ b * ((unat w + 2 ^ a - 1) div 2 ^ a) + unat x div 2 ^ a) * 65536 < 2 ^ 63"
proof -
  have le: "(2 :: nat) ^ a \<le> 2 ^ 8" using assms(4) by (intro power_increasing) auto
  have "unat y div 2 ^ b \<le> 2 ^ 16" "unat x div 2 ^ a \<le> 2 ^ 16"
    using assms(1,2) by (meson div_le_dividend le_trans less_imp_le)+
  moreover have "(unat w + 2 ^ a - 1) div 2 ^ a \<le> 2 ^ 17"
    using assms(3) le by (intro order.trans [OF div_le_dividend]) simp
  ultimately have "unat y div 2 ^ b * ((unat w + 2 ^ a - 1) div 2 ^ a) + unat x div 2 ^ a \<le> 2 ^ 16 * 2 ^ 17 + 2 ^ 16"
    by (intro add_mono mult_le_mono)
  then have "(unat y div 2 ^ b * ((unat w + 2 ^ a - 1) div 2 ^ a) + unat x div 2 ^ a) * 65536 \<le> (2 ^ 16 * 2 ^ 17 + 2 ^ 16) * 65536"
    by (rule mult_le_mono1)
  then show ?thesis by simp
qed

lemma placed_in_block:
  fixes x y w :: u32 and l :: u64
  assumes "unat x < 2 ^ 16" "unat y < 2 ^ 16" "unat w \<le> 2 ^ 16" "a \<le> 8" "b \<le> 8" and "unat l < 65536"
  shows "unat ((ucast (y div 2 ^ b) * ucast (DIV_ROUND_UP w (2 ^ a)) + ucast (x div 2 ^ a)) * PS5VK_TILE_BYTES + l :: u64) =
    (unat y div 2 ^ b * ((unat w + 2 ^ a - 1) div 2 ^ a) + unat x div 2 ^ a) * 65536 + unat l"
  using block_offset [OF assms(1-5)] block_bound [OF assms(1-5)] assms(6)
  by (subst unat_word_ariths(1)) simp

text \<open>The map and the tile of every depth element size.\<close>

definition depth_map :: "u32 \<Rightarrow> u64 \<Rightarrow> u64 \<Rightarrow> u64" where
  "depth_map element_bytes x y =
     (if element_bytes = 1 then tiled_local ps5vk_tiled_stencil_terms x y 0
      else if element_bytes = 2 then tiled_local ps5vk_tiled_depth2_terms x y 0
      else depth_local (ucast x) (ucast y) [0..<7] 0)"

definition depth_shape :: "u32 \<Rightarrow> nat \<times> nat \<times> nat" where
  "depth_shape element_bytes =
     (if element_bytes = 1 then (8, 8, 0) else if element_bytes = 2 then (8, 7, 1) else (7, 7, 2))"

lemma depth_shape_cases:
  assumes "depth_shape element_bytes = (a, b, e)"
  shows "tile_map (depth_map element_bytes) a b e"
    and "a \<le> 8 \<and> b \<le> 8 \<and> (element_bytes \<in> {1, 2, 4} \<longrightarrow> unat element_bytes = 2 ^ e)"
    and "util_logbase2 1 = 0 \<Longrightarrow> ps5vk_tile_extent util_logbase2 element_bytes True 1 = (2 ^ a, 2 ^ b)"
  using assms map_stencil.tile_map_axioms map_depth2.tile_map_axioms map_depth.tile_map_axioms
  by (auto simp: depth_shape_def depth_map_def [abs_def] ps5vk_tile_extent_def Let_def split: if_splits)

lemma depth_local_low:
  assumes "\<forall>n \<in> set ns. n < 7"
  shows "depth_local (take_bit 7 x) (take_bit 7 y) ns 0 = depth_local x y ns 0"
  using assms by (induction ns) (auto simp: depth_local_Cons bit_take_bit_iff)

lemma ucast_div: "ucast (y div 2 ^ k) = (drop_bit k (ucast y) :: u64)" for y :: u32
  unfolding drop_bit_eq_div [symmetric]
proof (rule bit_word_eqI)
  fix n
  show "bit (ucast (drop_bit k y) :: u64) n = bit (drop_bit k (ucast y) :: u64) n"
    using bit_imp_le_length [of y "k + n"] by (auto simp: bit_simps)
qed

lemma depth_place:
  assumes "depth_shape element_bytes = (a, b, e)" and "unat x < 2 ^ 16" "unat y < 2 ^ 16" "unat w \<le> 2 ^ 16"
  shows "unat (ps5vk_tiled_depth_offset x y w element_bytes) =
    tile_map.texel_at (depth_map element_bytes) a b (\<lambda>_ _. 0) (\<lambda>_ _. 0) (\<lambda>_ _. 0) ((unat w + 2 ^ a - 1) div 2 ^ a) (unat x) (unat y)"
proof -
  note map = depth_shape_cases(1) [OF assms(1)]
  have low: "ucast (v AND 255) = (of_nat (unat v mod 2 ^ 8) :: u64)" "ucast (v AND 127) = (of_nat (unat v mod 2 ^ 7) :: u64)" for v :: u32
    using ucast_low [of 8 v] ucast_low [of 7 v] low_mask [of v 8] low_mask [of v 7] by simp_all
  have "ucast (of_nat (unat v mod 2 ^ 7) :: u64) = take_bit 7 v" for v :: u32
    unfolding ucast_low [symmetric] by (rule bit_word_eqI) (auto simp: bit_simps)
  then have word: "depth_local (ucast (of_nat (unat x mod 2 ^ 7) :: u64)) (ucast (of_nat (unat y mod 2 ^ 7) :: u64)) [0..<7] 0 = depth_local x y [0..<7] 0"
    by (simp add: depth_local_low)
  have sh: "drop_bit 8 (ucast y :: u64) = ucast (y div 2 ^ 8)" "drop_bit 7 (ucast y :: u64) = ucast (y div 2 ^ 7)"
    "drop_bit 8 x = x div 2 ^ 8" "drop_bit 7 x = x div 2 ^ 7"
    using ucast_div [of y 8] ucast_div [of y 7] drop_bit_eq_div [of 8 x] drop_bit_eq_div [of 7 x] by simp_all
  let ?l = "tile_map.local_at (depth_map element_bytes) a b (\<lambda>_ _. 0) (\<lambda>_ _. 0) (\<lambda>_ _. 0) (unat x) (unat y)"
  have "tile_map.turns e (\<lambda>_ _. 0)" by (simp add: tile_map.turns_def [OF map])
  then have "unat ?l + 2 ^ e \<le> 65536" by (rule tile_map.local_at_bounds(1) [OF map])
  moreover have "0 < (2 :: nat) ^ e" by simp
  ultimately have l: "unat ?l < 65536" by linarith
  have "ps5vk_tiled_depth_offset x y w element_bytes =
      (ucast (y div 2 ^ b) * ucast (DIV_ROUND_UP w (2 ^ a)) + ucast (x div 2 ^ a)) * PS5VK_TILE_BYTES + ?l"
    using assms(1) unfolding tile_map.local_at_def [OF map]
    by (auto simp: ps5vk_tiled_depth_offset_def depth_shape_def depth_map_def sh low word [simplified] split: if_splits)
  then show ?thesis
    using placed_in_block [OF assms(2-4) _ _ l] depth_shape_cases(2) [OF assms(1)]
    by (simp add: tile_map.texel_at_def [OF map])
qed


lemma depth_apart:
  assumes "depth_shape element_bytes = (a, b, e)"
    and "x < w" "x' < w" "unat w \<le> 2 ^ 16" "y < h" "y' < h" "unat h \<le> 2 ^ 16" "(x, y) \<noteq> (x', y')"
  shows "unat (ps5vk_tiled_depth_offset x y w element_bytes) + 2 ^ e \<le> unat (ps5vk_tiled_depth_offset x' y' w element_bytes) \<or>
      unat (ps5vk_tiled_depth_offset x' y' w element_bytes) + 2 ^ e \<le> unat (ps5vk_tiled_depth_offset x y w element_bytes)"
    and "unat (ps5vk_tiled_depth_offset x y w element_bytes) + 2 ^ e
      \<le> unat (DIV_ROUND_UP h (2 ^ b)) * unat (DIV_ROUND_UP w (2 ^ a)) * 65536"
proof -
  note map = depth_shape_cases(1) [OF assms(1)] and shape = depth_shape_cases(2) [OF assms(1)]
  note grid = grid_facts [OF assms(2-8)]
  have turns: "tile_map.turns e (\<lambda>_ _. 0)" by (simp add: tile_map.turns_def [OF map])
  note place = depth_place [OF assms(1) grid(6,8) assms(4)] depth_place [OF assms(1) grid(7,9) assms(4)]
  show "unat (ps5vk_tiled_depth_offset x y w element_bytes) + 2 ^ e \<le> unat (ps5vk_tiled_depth_offset x' y' w element_bytes) \<or>
      unat (ps5vk_tiled_depth_offset x' y' w element_bytes) + 2 ^ e \<le> unat (ps5vk_tiled_depth_offset x y w element_bytes)"
    using tile_map.texel_at_apart [OF map turns grid(1,2,4)] shape place by simp
  show "unat (ps5vk_tiled_depth_offset x y w element_bytes) + 2 ^ e
      \<le> unat (DIV_ROUND_UP h (2 ^ b)) * unat (DIV_ROUND_UP w (2 ^ a)) * 65536"
    using tile_map.texel_at_within [OF map turns grid(1,3)] grid(5) [of a b] shape place by simp
qed

text \<open>The same of a depth or stencil plane of one sample: no two texels share a byte, and each lies whole
  in the plane's grid of tiles, whose extent the code computes.\<close>

lemma depth_texels_apart:
  assumes "element_bytes \<in> {1, 2, 4}" and "util_logbase2 1 = 0"
    and "ps5vk_tile_extent util_logbase2 element_bytes True 1 = (tile_width, tile_height)"
    and "x < w" "x' < w" "w \<le> 65536" "y < h" "y' < h" "h \<le> 65536" "(x, y) \<noteq> (x', y')"
  shows "(unat (ps5vk_tiled_depth_offset x y w element_bytes) + unat element_bytes \<le> unat (ps5vk_tiled_depth_offset x' y' w element_bytes) \<or>
      unat (ps5vk_tiled_depth_offset x' y' w element_bytes) + unat element_bytes \<le> unat (ps5vk_tiled_depth_offset x y w element_bytes)) \<and>
    unat (ps5vk_tiled_depth_offset x y w element_bytes) + unat element_bytes
      \<le> unat (DIV_ROUND_UP h tile_height) * unat (DIV_ROUND_UP w tile_width) * 65536"
proof -
  obtain a b e where shape: "depth_shape element_bytes = (a, b, e)" by (metis prod.exhaust)
  note c = depth_shape_cases [OF shape]
  have ext: "tile_width = 2 ^ a" "tile_height = 2 ^ b" using c(3) [of util_logbase2, OF assms(2)] assms(3) by auto
  have b: "unat w \<le> 2 ^ 16" "unat h \<le> 2 ^ 16" using assms(6,9) by (simp_all add: word_le_nat_alt)
  have e: "unat element_bytes = 2 ^ e" using c(2) assms(1) by blast
  show ?thesis using depth_apart [OF shape assms(4,5) b(1) assms(7,8) b(2) assms(10)] unfolding e ext by simp
qed

section \<open>Four samples\<close>

text \<open>
  A four-sample colour texel is four planes of its tile; a four-sample depth texel is one sixteen-byte
  unit. Both have tiles of 64 by 64 texels.
\<close>

lemma map_4b_quarter: "tile_map (\<lambda>x y. tiled_local ps5vk_tiled_4b_terms x y 0) 6 6 2"
proof
  fix x y :: u64
  assume a: "take_bit 6 x = x" "take_bit 6 y = y" and z: "tiled_local ps5vk_tiled_4b_terms x y 0 = 0"
  have "take_bit 7 (take_bit 6 v) = take_bit 6 v" for v :: u64 by simp
  then have "take_bit 7 v = v" if "take_bit 6 v = v" for v :: u64 using that by metis
  then show "x = 0 \<and> y = 0" using map_4b.kernel z a by blast
qed (rule map_4b.linear map_4b.inside map_4b.aligned, simp?)+


lemma plane_small: "unat (tiled_local ps5vk_tiled_4b_terms (take_bit 6 x) (take_bit 6 y) 0) < 2 ^ 14"
proof -
  let ?l = "tiled_local ps5vk_tiled_4b_terms (take_bit 6 x) (take_bit 6 y) 0"
  have "take_bit 14 ?l = ?l"
  proof (rule bit_word_eqI)
    fix n
    have "\<not> bit ?l n" if "14 \<le> n"
    proof (cases "n < 16")
      case True
      with that have "n = 14 \<or> n = 15" by auto
      moreover have "\<not> bit ?l 14" "\<not> bit ?l 15"
        by (simp_all add: tiled_local_bit ps5vk_tiled_4b_terms_def bit_take_bit_iff)
      ultimately show ?thesis by blast
    next
      case False
      then have "\<not> bit (take_bit 16 ?l) n" by (simp add: bit_take_bit_iff)
      then show ?thesis unfolding map_4b.inside .
    qed
    then show "bit (take_bit 14 ?l) n = bit ?l n" by (cases "14 \<le> n") (auto simp: bit_take_bit_iff)
  qed
  then show ?thesis by (metis (no_types) take_bit_nat_less_exp unsigned_take_bit_eq)
qed



text \<open>The places of a four-sample colour texel: the same place in four planes.\<close>

lemma four_sample_place:
  assumes "unat x < 2 ^ 16" "unat y < 2 ^ 16" "unat w \<le> 2 ^ 16"
    and "ps5vk_tiled_texel_offset x y w 64 64 4 4 = (t, s)"
  shows "unat t mod 65536 = 0 \<and> unat s + 4 \<le> 2 ^ 14"
proof -
  have g: "tiled_texel_general x y w (2 ^ 6) (2 ^ 6) 4 4 = (t, s)"
    using assms(4) by (simp add: ps5vk_tiled_texel_offset_def)
  have t: "unat t mod 65536 = 0"
    using g block_offset [OF assms(1-3), of 6 6] by (auto simp: tiled_texel_general_def Let_def split: prod.splits)
  have low: "take_bit 6 (of_nat (n mod 2 ^ 6) :: u64) = of_nat (n mod 2 ^ 6)" for n
    unfolding take_bit_of_nat take_bit_nat_def by simp
  have turn: "take_bit 6 (of_nat (i mod 2) * 2 ^ (6 - 1) :: u64) = of_nat (i mod 2) * 2 ^ (6 - 1)" for i
    by (cases "even i") (simp_all add: mod_2_eq_odd)
  have "terms_of 4 = ps5vk_tiled_4b_terms" by (simp add: terms_of_def)
  then have "s = tiled_local ps5vk_tiled_4b_terms
      (take_bit 6 (of_nat (unat x mod 2 ^ 6) XOR turn_x 6 4 4 (unat x div 2 ^ 6) (unat y div 2 ^ 6)))
      (take_bit 6 (of_nat (unat y mod 2 ^ 6) XOR turn_y 6 4 4 (unat x div 2 ^ 6) (unat y div 2 ^ 6))) 0"
    using general_swizzle [of 6 6 x y w 4 4] g
    unfolding take_bit_xor low turn_x_def turn_y_def by (simp del: take_bit_of_nat add: turn [simplified])
  then have "unat s < 2 ^ 14" "take_bit 2 s = 0" by (simp_all only: plane_small map_4b.aligned)
  moreover from this(2) have "unat s mod 4 = 0" using unat_low_zero [of 2 s] by simp
  moreover from this obtain q where "unat s = 4 * q" by (metis mod_eq_0_iff_dvd dvdE)
  ultimately have "unat s + 4 \<le> 2 ^ 14" by simp
  with t show ?thesis by blast
qed

definition depth4_turn :: "nat \<Rightarrow> nat \<Rightarrow> u64" where
  "depth4_turn column row = push_bit 10 (of_nat (column mod 2)) XOR push_bit 11 (of_nat (row mod 2)) XOR
     push_bit 14 (of_nat (row mod 2)) XOR push_bit 15 (of_nat (row div 2 mod 2))"

lemma depth4_turns: "tile_map.turns 4 depth4_turn"
proof -
  have parity: "n mod 2 = 0 \<or> n mod 2 = 1" for n :: nat by auto
  have "take_bit 16 (depth4_turn c r) = depth4_turn c r \<and> take_bit 4 (depth4_turn c r) = 0" for c r
    unfolding depth4_turn_def using parity [of c] parity [of r] parity [of "r div 2"] by (elim disjE) simp_all
  then show ?thesis by (simp add: map_depth4.turns_def)
qed

lemma depth4_place:
  assumes "unat x < 2 ^ 16" "unat y < 2 ^ 16" "unat w \<le> 2 ^ 16"
  shows "unat (ps5vk_tiled_depth4_offset x y w 64 64) =
    map_depth4.texel_at (\<lambda>_ _. 0) (\<lambda>_ _. 0) depth4_turn ((unat w + 2 ^ 6 - 1) div 2 ^ 6) (unat x) (unat y)"
proof -
  have one: "(ucast (v AND 1) :: u64) = of_nat (unat v mod 2)" for v :: u32
    using ucast_low [of 1 v] by (simp add: take_bit_eq_mask)
  have dv: "unat (v div 64) = unat v div 2 ^ 6" for v :: u32 using unat_shift_div [of 6 v] by simp
  have dr: "unat (drop_bit 1 (y div 64)) = unat y div 2 ^ 6 div 2"
    using unat_shift_div [of 1 "y div 64"] dv [of y] by (simp add: drop_bit_eq_div)
  have low: "ucast (v AND (64 - 1)) = (of_nat (unat v mod 2 ^ 6) :: u64)" for v :: u32
    using ucast_low [of 6 v] low_mask [of v 6] by simp
  let ?l = "map_depth4.local_at (\<lambda>_ _. 0) (\<lambda>_ _. 0) depth4_turn (unat x) (unat y)"
  have l: "unat ?l < 65536" using map_depth4.local_at_bounds(1) [OF depth4_turns, of "\<lambda>_ _. 0" "\<lambda>_ _. 0" "unat x" "unat y"] by simp
  have "ps5vk_tiled_depth4_offset x y w 64 64 =
      (ucast (y div 2 ^ 6) * ucast (DIV_ROUND_UP w (2 ^ 6)) + ucast (x div 2 ^ 6)) * PS5VK_TILE_BYTES + ?l"
    unfolding ps5vk_tiled_depth4_offset_def Let_def low one dv dr map_depth4.local_at_def depth4_turn_def
    by (simp add: xor.assoc)
  then show ?thesis using placed_in_block [OF assms _ _ l, of 6 6] by (simp add: map_depth4.texel_at_def)
qed


text \<open>The samples of a tiled four-sample image share no byte either, of one texel or of two: not in a
  colour image, whose samples are planes of the tile, and not in a depth image, whose samples lie side by
  side in a unit of sixteen bytes.\<close>

lemma samples_apart:
  assumes "x < w" "x' < w" "w \<le> 65536" "y < h" "y' < h" "h \<le> 65536"
    and "i < 4" "i' < 4" "(x, y, i) \<noteq> (x', y', i')"
    and "ps5vk_tiled_texel_offset x y w 64 64 4 4 = (t, s)" "ps5vk_tiled_texel_offset x' y' w 64 64 4 4 = (t', s')"
  shows "(unat t + i * 0x4000 + unat s + 4 \<le> unat t' + i' * 0x4000 + unat s' \<or>
          unat t' + i' * 0x4000 + unat s' + 4 \<le> unat t + i * 0x4000 + unat s) \<and>
    (unat (ps5vk_tiled_depth4_offset x y w 64 64) + i * 4 + 4 \<le> unat (ps5vk_tiled_depth4_offset x' y' w 64 64) + i' * 4 \<or>
     unat (ps5vk_tiled_depth4_offset x' y' w 64 64) + i' * 4 + 4 \<le> unat (ps5vk_tiled_depth4_offset x y w 64 64) + i * 4)"
proof
  have b: "unat w \<le> 2 ^ 16" "unat h \<le> 2 ^ 16" using assms(3,6) by (simp_all add: word_le_nat_alt)
  show "unat (ps5vk_tiled_depth4_offset x y w 64 64) + i * 4 + 4 \<le> unat (ps5vk_tiled_depth4_offset x' y' w 64 64) + i' * 4 \<or>
     unat (ps5vk_tiled_depth4_offset x' y' w 64 64) + i' * 4 + 4 \<le> unat (ps5vk_tiled_depth4_offset x y w 64 64) + i * 4"
    (is "?d + _ + _ \<le> ?d' + _ \<or> _")
  proof (cases "(x, y) = (x', y')")
    case False
    note grid = grid_facts [OF assms(1,2) b(1) assms(4,5) b(2) False]
    have "?d + 16 \<le> ?d' \<or> ?d' + 16 \<le> ?d"
      using map_depth4.texel_at_apart [OF depth4_turns grid(1,2,4)] depth4_place [OF grid(6,8) b(1)] depth4_place [OF grid(7,9) b(1)]
      by simp
    then show ?thesis using assms(7,8) by auto
  qed (use assms(9) in auto)
  have small: "unat x < 2 ^ 16" "unat x' < 2 ^ 16" "unat y < 2 ^ 16" "unat y' < 2 ^ 16"
    using assms(1-6) b by (simp_all add: word_less_nat_alt)
  have p: "unat t mod 65536 = 0" "unat s + 4 \<le> 2 ^ 14" "unat t' mod 65536 = 0" "unat s' + 4 \<le> 2 ^ 14"
    using four_sample_place [OF small(1,3) b(1) assms(10)] four_sample_place [OF small(2,4) b(1) assms(11)] by auto
  have map: "tile_map (\<lambda>x y. tiled_local (terms_of 4) x y 0) 6 6 2" using map_4b_quarter by (simp add: terms_of_def)
  have apart: "unat t + unat s + 4 \<le> unat t' + unat s' \<or> unat t' + unat s' + 4 \<le> unat t + unat s" if "(x, y) \<noteq> (x', y')"
    using colour_apart(1) [OF map _ _ _ _ assms(1,2) b(1) assms(4,5) b(2) that, of 4] assms(10,11) by simp
  consider "unat t = unat t'" "i = i'" | "unat t = unat t'" "i < i'" | "unat t = unat t'" "i' < i"
    | "unat t + 65536 \<le> unat t'" | "unat t' + 65536 \<le> unat t"
    using multiples_apart [OF _ p(1,3)] by fastforce
  then show "unat t + i * 0x4000 + unat s + 4 \<le> unat t' + i' * 0x4000 + unat s' \<or>
          unat t' + i' * 0x4000 + unat s' + 4 \<le> unat t + i * 0x4000 + unat s"
  proof cases
    case 1
    then show ?thesis using apart assms(9) by auto
  qed (use p(2,4) assms(7,8) in auto)
qed


end
