(* ===== verification/Vk_Image.thy ===== *)
theory Vk_Image
  imports Vk_Formats Vk_Tiling
begin

text \<open>
  Images, \<open>driver/ps5vk_image.c\<close>: how large the storage of an image is and how it is laid out, in rows
  padded to 256 bytes or in 64 KiB tiles, with mip levels and array layers; creating and binding an
  image; and the side of a copy that says where every texel of one level is. Mesa's helpers are a
  parameter, a record of the functions the code calls.
\<close>

record mesa =
  ms_blocksize :: "vk_format \<Rightarrow> u32"
  ms_has_depth :: "vk_format \<Rightarrow> bool"
  ms_has_stencil :: "vk_format \<Rightarrow> bool"
  ms_is_compressed :: "vk_format \<Rightarrow> bool"
  ms_align64 :: "u64 \<Rightarrow> u64 \<Rightarrow> u64"
  ms_logbase2 :: "u32 \<Rightarrow> u32"

text \<open>What the code relies on: \<open>align64\<close> rounds up to a power of two, \<open>util_logbase2\<close> is the logarithm.\<close>

definition mesa_ok :: "mesa \<Rightarrow> bool" where
  "mesa_ok ms \<longleftrightarrow>
     (\<forall>v k. k < 63 \<longrightarrow> unat v < 2 ^ 63 \<longrightarrow> unat (ms_align64 ms v (2 ^ k)) = (unat v + 2 ^ k - 1) div 2 ^ k * 2 ^ k) \<and>
     ms_logbase2 ms 1 = 0 \<and> ms_logbase2 ms 2 = 1 \<and> ms_logbase2 ms 4 = 2 \<and> ms_logbase2 ms 8 = 3"

datatype vk_error =
    VK_ERROR_OUT_OF_HOST_MEMORY
  | VK_ERROR_OUT_OF_DEVICE_MEMORY
  | VK_ERROR_FORMAT_NOT_SUPPORTED
  | Assertion_failed

datatype image_storage = PS5VK_IMAGE_STORAGE_ROWS | PS5VK_IMAGE_STORAGE_TILES

record image_info =
  ii_format :: vk_format
  ii_type :: image_type
  ii_tiling :: image_tiling
  ii_usage :: "image_usage list"
  ii_flags :: "image_create list"
  ii_width :: u32
  ii_height :: u32
  ii_mip_levels :: u32
  ii_array_layers :: u32
  ii_samples :: u32

record ps5vk_image =
  im_vk :: image_info
  im_storage :: image_storage
  im_size :: u64
  im_alignment :: u64
  im_stencil_offset :: u64
  im_address :: u64
  im_video :: int

definition PS5VK_TILED_ALIGNMENT :: u64 where "PS5VK_TILED_ALIGNMENT = 0x200000"
definition PS5VK_ROW_ALIGNMENT :: u64 where "PS5VK_ROW_ALIGNMENT = 256"
definition UINT64_MAX :: u64 where "UINT64_MAX = - 1"

section \<open>Levels\<close>

text \<open>The extent of a level stored in rows rounds up; that of a tiled one rounds down.\<close>

definition row_extent :: "u32 \<Rightarrow> nat \<Rightarrow> u64" where
  "row_extent extent level = max (DIV_ROUND_UP (ucast extent) (push_bit level 1)) 1"

definition tile_level_extent :: "u32 \<Rightarrow> nat \<Rightarrow> u64" where
  "tile_level_extent extent level = ucast (max (drop_bit level extent) 1)"

definition row_level_bytes :: "mesa \<Rightarrow> image_info \<Rightarrow> nat \<Rightarrow> u64" where
  "row_level_bytes ms info level =
     ms_align64 ms (row_extent (ii_width info) level * ucast (ms_blocksize ms (ii_format info))) PS5VK_ROW_ALIGNMENT
       * row_extent (ii_height info) level"

definition ps5vk_image_level_layout :: "mesa \<Rightarrow> ps5vk_image \<Rightarrow> nat \<Rightarrow> u64 \<times> u64 \<times> u32 \<times> u32" where
  "ps5vk_image_level_layout ms img level =
     (let info = im_vk img;
          at = fold (\<lambda>index at. at + row_level_bytes ms info index) [level + 1..<unat (ii_mip_levels info)] 0;
          width = row_extent (ii_width info) level; height = row_extent (ii_height info) level
      in (at, ms_align64 ms (width * ucast (ms_blocksize ms (ii_format info))) PS5VK_ROW_ALIGNMENT, ucast width, ucast height))"

section \<open>Measured mip chains\<close>

record tiled_chain =
  tc_width :: u32
  tc_height :: u32
  tc_levels :: u32
  tc_bytes :: u64
  tc_bases :: "u64 list"

definition ps5vk_tiled_chains :: "tiled_chain list" where
  "ps5vk_tiled_chains =
    [\<lparr>tc_width = 256, tc_height = 256, tc_levels = 1, tc_bytes = 0x40000, tc_bases = [0x0]\<rparr>,
     \<lparr>tc_width = 64, tc_height = 64, tc_levels = 1, tc_bytes = 0x10000, tc_bases = [0x0]\<rparr>,
     \<lparr>tc_width = 256, tc_height = 256, tc_levels = 5, tc_bytes = 0x60000, tc_bases = [0x20000, 0x10000, 0x8400, 0x4800, 0x800]\<rparr>,
     \<lparr>tc_width = 256, tc_height = 256, tc_levels = 6, tc_bytes = 0x60000, tc_bases = [0x20000, 0x10000, 0x8400, 0x4800, 0x800, 0x400]\<rparr>,
     \<lparr>tc_width = 128, tc_height = 128, tc_levels = 4, tc_bytes = 0x20000, tc_bases = [0x10000, 0x8400, 0x4800, 0x800]\<rparr>,
     \<lparr>tc_width = 512, tc_height = 512, tc_levels = 5, tc_bytes = 0x160000, tc_bases = [0x60000, 0x20000, 0x10000, 0x8400, 0x4800]\<rparr>,
     \<lparr>tc_width = 512, tc_height = 512, tc_levels = 7, tc_bytes = 0x160000, tc_bases = [0x60000, 0x20000, 0x10000, 0x8400, 0x4800, 0x800, 0x400]\<rparr>,
     \<lparr>tc_width = 1024, tc_height = 1024, tc_levels = 8, tc_bytes = 0x560000,
       tc_bases = [0x160000, 0x60000, 0x20000, 0x10000, 0x8400, 0x4800, 0x800, 0x400]\<rparr>,
     \<lparr>tc_width = 256, tc_height = 128, tc_levels = 4, tc_bytes = 0x40000, tc_bases = [0x20000, 0x10000, 0x8400, 0x4800]\<rparr>,
     \<lparr>tc_width = 64, tc_height = 64, tc_levels = 3, tc_bytes = 0x10000, tc_bases = [0x8400, 0x4800, 0x800]\<rparr>,
     \<lparr>tc_width = 32, tc_height = 32, tc_levels = 2, tc_bytes = 0x10000, tc_bases = [0x8400, 0x4800]\<rparr>]"

fun find_chain :: "tiled_chain list \<Rightarrow> u32 \<Rightarrow> u32 \<Rightarrow> u32 \<Rightarrow> tiled_chain option" where
  "find_chain [] width height levels = None"
| "find_chain (c # cs) width height levels =
     (if tc_width c = width \<and> tc_height c = height \<and> tc_levels c = levels then Some c else find_chain cs width height levels)"

definition ps5vk_tiled_chain_of :: "mesa \<Rightarrow> ps5vk_image \<Rightarrow> tiled_chain option" where
  "ps5vk_tiled_chain_of ms img =
     (let info = im_vk img
      in if ms_blocksize ms (ii_format info) \<noteq> 4 \<or> ii_samples info \<noteq> 1 \<or> ii_mip_levels info > 8 then None
         else find_chain ps5vk_tiled_chains (ii_width info) (ii_height info) (ii_mip_levels info))"

definition ps5vk_image_tiled_level_base :: "mesa \<Rightarrow> ps5vk_image \<Rightarrow> u32 \<Rightarrow> u64" where
  "ps5vk_image_tiled_level_base ms img level =
     (if level = 0 \<and> ii_mip_levels (im_vk img) = 1 then 0
      else case ps5vk_tiled_chain_of ms img of
        None \<Rightarrow> UINT64_MAX
      | Some chain \<Rightarrow> if level \<ge> tc_levels chain then UINT64_MAX else tc_bases chain ! unat level)"

definition ps5vk_image_layer_bytes :: "mesa \<Rightarrow> ps5vk_image \<Rightarrow> u64" where
  "ps5vk_image_layer_bytes ms img =
     (let info = im_vk img
      in if im_storage img = PS5VK_IMAGE_STORAGE_TILES
         then case ps5vk_tiled_chain_of ms img of
             Some chain \<Rightarrow> tc_bytes chain
           | None \<Rightarrow> if ii_mip_levels info = 1 \<and> \<not> ms_has_stencil ms (ii_format info)
                     then im_size img div ucast (max (ii_array_layers info) 1) else 0
         else fold (\<lambda>level slice. case ps5vk_image_level_layout ms img level of
                 (_, row_pitch, _, height) \<Rightarrow> slice + row_pitch * ucast height) [0..<unat (ii_mip_levels info)] 0)"

definition ps5vk_image_tiled_layer_level_base :: "mesa \<Rightarrow> ps5vk_image \<Rightarrow> u32 \<Rightarrow> u32 \<Rightarrow> u64" where
  "ps5vk_image_tiled_layer_level_base ms img level layer =
     (if layer = 0 then ps5vk_image_tiled_level_base ms img level
      else let slice = ps5vk_image_layer_bytes ms img
           in if slice = 0 then UINT64_MAX
              else let base = ps5vk_image_tiled_level_base ms img level
                   in if base = UINT64_MAX then UINT64_MAX else slice * ucast layer + base)"

section \<open>Storage\<close>

text \<open>The stencil plane: its bytes, and where it starts when the format has one.\<close>

definition ps5vk_image_stencil_plane :: "mesa \<Rightarrow> image_info \<Rightarrow> u64 \<Rightarrow> u64 \<times> u64 option" where
  "ps5vk_image_stencil_plane ms info depth_bytes =
     (if \<not> ms_has_stencil ms (ii_format info) then (0, None)
      else let bytes = fold (\<lambda>level bytes. bytes + DIV_ROUND_UP (tile_level_extent (ii_width info) level) 256 *
                 DIV_ROUND_UP (tile_level_extent (ii_height info) level) 256 * PS5VK_TILE_BYTES)
                 [0..<unat (ii_mip_levels info)] 0
           in (bytes * ucast (ii_array_layers info), Some (ms_align64 ms depth_bytes PS5VK_TILE_BYTES)))"

definition stored_in_tiles :: "mesa \<Rightarrow> bool \<Rightarrow> image_info \<Rightarrow> bool" where
  "stored_in_tiles ms tile_padded info =
     (let texel_bytes = ms_blocksize ms (ii_format info);
          padded_single = \<not> ms_has_depth ms (ii_format info) \<and> \<not> ms_is_compressed ms (ii_format info) \<and>
            ii_mip_levels info = 1 \<and> ii_array_layers info = 1 \<and> ii_samples info = 1 \<and>
            (texel_bytes = 1 \<or> texel_bytes = 2 \<or> texel_bytes = 4 \<or> texel_bytes = 8 \<or> texel_bytes = 16) \<and>
            (ii_width info * texel_bytes) mod 256 \<noteq> 0
      in VK_IMAGE_USAGE_COLOR_ATTACHMENT_BIT \<in> set (ii_usage info) \<or>
         VK_IMAGE_USAGE_DEPTH_STENCIL_ATTACHMENT_BIT \<in> set (ii_usage info) \<or>
         ms_has_stencil ms (ii_format info) \<or> tile_padded \<and> padded_single)"

definition tiled_layer_bytes :: "mesa \<Rightarrow> image_info \<Rightarrow> u64" where
  "tiled_layer_bytes ms info =
     (let texel_bytes = ms_blocksize ms (ii_format info)
      in case ps5vk_tile_extent (ms_logbase2 ms) texel_bytes (ms_has_depth ms (ii_format info)) (ii_samples info) of
           (tile_width, tile_height) \<Rightarrow>
           let summed = fold (\<lambda>level bytes. bytes + DIV_ROUND_UP (tile_level_extent (ii_width info) level) (ucast tile_width) *
                 DIV_ROUND_UP (tile_level_extent (ii_height info) level) (ucast tile_height) * PS5VK_TILE_BYTES)
                 [0..<unat (ii_mip_levels info)] 0
           in if texel_bytes = 4 \<and> ii_samples info = 1
              then (case find_chain ps5vk_tiled_chains (ii_width info) (ii_height info) (ii_mip_levels info) of
                  Some chain \<Rightarrow> tc_bytes chain | None \<Rightarrow> summed)
              else summed)"

text \<open>The storage, its size, its alignment and the offset of the stencil plane.\<close>

definition ps5vk_image_storage :: "mesa \<Rightarrow> bool \<Rightarrow> image_info \<Rightarrow> image_storage \<times> u64 \<times> u64 \<times> u64" where
  "ps5vk_image_storage ms tile_padded info =
     (if stored_in_tiles ms tile_padded info
      then let layer_bytes = tiled_layer_bytes ms info;
               sz = ms_align64 ms (layer_bytes * ucast (ii_array_layers info)) PS5VK_TILED_ALIGNMENT
           in case ps5vk_image_stencil_plane ms info layer_bytes of (stencil_bytes, plane) \<Rightarrow>
              let stencil_offset = (case plane of None \<Rightarrow> 0 | Some offset \<Rightarrow> offset)
              in (PS5VK_IMAGE_STORAGE_TILES,
                  if stencil_bytes \<noteq> 0 then ms_align64 ms (stencil_offset + stencil_bytes) PS5VK_TILED_ALIGNMENT else sz,
                  PS5VK_TILED_ALIGNMENT, stencil_offset)
      else let layer_bytes = fold (\<lambda>level bytes. bytes + row_level_bytes ms info level) [0..<unat (ii_mip_levels info)] 0
           in (PS5VK_IMAGE_STORAGE_ROWS, layer_bytes * ucast (ii_array_layers info) * ucast (ii_samples info), PS5VK_ROW_ALIGNMENT, 0))"

text \<open>
  \<open>vkCreateImage\<close>. Whether the process has memory for the object is the parameter \<open>made\<close>; an \<open>assert\<close>
  that does not hold is an error of its own.
\<close>

definition ps5vk_CreateImage :: "mesa \<Rightarrow> bool \<Rightarrow> bool \<Rightarrow> image_info \<Rightarrow> vk_error + ps5vk_image" where
  "ps5vk_CreateImage ms tile_padded made info =
     (if \<not> ps5vk_image_supported (ms_has_stencil ms) (ii_format info) (ii_type info) (ii_tiling info) (ii_usage info) (ii_flags info)
      then Inl VK_ERROR_FORMAT_NOT_SUPPORTED
      else if ms_has_stencil ms (ii_format info) \<and> (ii_mip_levels info \<noteq> 1 \<or> ii_array_layers info \<noteq> 1 \<or> ii_samples info \<noteq> 1)
      then Inl VK_ERROR_FORMAT_NOT_SUPPORTED
      else if \<not> (ii_width info \<le> PS5VK_MAX_EXTENT_2D \<and> ii_height info \<le> PS5VK_MAX_EXTENT_2D \<and>
                 ii_mip_levels info \<le> PS5VK_MAX_MIP_LEVELS \<and> ii_array_layers info \<le> PS5VK_MAX_ARRAY_LAYERS)
      then Inl Assertion_failed
      else case ps5vk_image_storage ms tile_padded info of (storage, sz, alignment, stencil_offset) \<Rightarrow>
        if sz > PS5VK_ADDRESS_WINDOW_BYTES then Inl VK_ERROR_OUT_OF_DEVICE_MEMORY
        else if \<not> made then Inl VK_ERROR_OUT_OF_HOST_MEMORY
        else Inr \<lparr>im_vk = info, im_storage = storage, im_size = sz, im_alignment = alignment,
                  im_stencil_offset = stencil_offset, im_address = 0, im_video = - 1\<rparr>)"

definition PS5VK_GPU_ADDRESS_LIMIT :: u64 where "PS5VK_GPU_ADDRESS_LIMIT = push_bit 47 1"

definition ps5vk_gpu_range_valid :: "u64 \<Rightarrow> u64 \<Rightarrow> bool" where
  "ps5vk_gpu_range_valid address sz \<longleftrightarrow>
     sz \<noteq> 0 \<and> address \<noteq> 0 \<and> address < PS5VK_GPU_ADDRESS_LIMIT \<and> sz \<le> PS5VK_GPU_ADDRESS_LIMIT - address"

text \<open>Binding an image to memory: the memory's address and size, and the offset in it.\<close>

definition ps5vk_BindImageMemory2 :: "ps5vk_image \<Rightarrow> u64 \<Rightarrow> u64 \<Rightarrow> u64 \<Rightarrow> vk_error + ps5vk_image" where
  "ps5vk_BindImageMemory2 img memory_address memory_size offset =
     (if offset mod im_alignment img \<noteq> 0 \<or> \<not> offset + im_size img \<le> memory_size then Inl Assertion_failed
      else let bound = img\<lparr>im_address := memory_address + offset\<rparr>
           in if ps5vk_gpu_range_valid (im_address bound) (im_size bound) then Inr bound else Inl Assertion_failed)"

section \<open>Sides of a copy\<close>

datatype aspect = VK_IMAGE_ASPECT_COLOR_BIT | VK_IMAGE_ASPECT_DEPTH_BIT | VK_IMAGE_ASPECT_STENCIL_BIT | VK_IMAGE_ASPECT_other nat

record image_plane =
  pl_offset :: u64
  pl_element_bytes :: u32
  pl_depth_map :: bool

definition ps5vk_image_plane :: "mesa \<Rightarrow> ps5vk_image \<Rightarrow> aspect \<Rightarrow> image_plane option" where
  "ps5vk_image_plane ms img asp =
     (let format = ii_format (im_vk img); depth = ms_has_depth ms format; stencil = ms_has_stencil ms format
      in if \<not> depth \<and> \<not> stencil
         then (if asp \<noteq> VK_IMAGE_ASPECT_COLOR_BIT then None
               else Some \<lparr>pl_offset = 0, pl_element_bytes = ms_blocksize ms format, pl_depth_map = False\<rparr>)
         else if asp = VK_IMAGE_ASPECT_DEPTH_BIT \<and> depth
         then Some \<lparr>pl_offset = 0, pl_element_bytes = (if stencil then 4 else ms_blocksize ms format), pl_depth_map = True\<rparr>
         else if asp = VK_IMAGE_ASPECT_STENCIL_BIT \<and> stencil \<and> im_stencil_offset img \<noteq> 0
         then Some \<lparr>pl_offset = im_stencil_offset img, pl_element_bytes = 1, pl_depth_map = True\<rparr>
         else None)"

record copy_side =
  cs_address :: u64
  cs_row_pitch :: u64
  cs_level_width :: u32
  cs_tile_xor :: u32
  cs_tile_width :: u32
  cs_tile_height :: u32
  cs_element_bytes :: u32
  cs_samples :: u32
  cs_depth :: bool
  cs_tiled :: bool

definition zero_side :: copy_side where
  "zero_side = \<lparr>cs_address = 0, cs_row_pitch = 0, cs_level_width = 0, cs_tile_xor = 0, cs_tile_width = 0, cs_tile_height = 0,
     cs_element_bytes = 0, cs_samples = 0, cs_depth = False, cs_tiled = False\<rparr>"

record subresource =
  sr_aspect :: aspect
  sr_mip_level :: u32
  sr_base_layer :: u32
  sr_layer_count :: u32

text \<open>The side of a chain's level, and the side of an image of one level or of one in rows.\<close>

definition chain_side :: "mesa \<Rightarrow> ps5vk_image \<Rightarrow> subresource \<Rightarrow> u32 \<Rightarrow> u32 \<Rightarrow> bool \<Rightarrow> copy_side option" where
  "chain_side ms img sub element_bytes samples depth =
     (case ps5vk_tile_extent (ms_logbase2 ms) element_bytes depth (ii_samples (im_vk img)) of (tile_width, tile_height) \<Rightarrow>
      let base = ps5vk_image_tiled_layer_level_base ms img (sr_mip_level sub) (sr_base_layer sub)
      in if base = UINT64_MAX then None
         else Some (zero_side\<lparr>cs_address := im_address img + (base AND NOT 0xffff), cs_tile_xor := ucast (base AND 0xffff),
                cs_level_width := max (drop_bit (unat (sr_mip_level sub)) (ii_width (im_vk img))) 1,
                cs_tile_width := tile_width, cs_tile_height := tile_height,
                cs_element_bytes := element_bytes, cs_samples := samples, cs_depth := depth, cs_tiled := True\<rparr>))"

definition ps5vk_image_copy_side :: "mesa \<Rightarrow> ps5vk_image \<Rightarrow> subresource \<Rightarrow> (u32 \<times> copy_side) option" where
  "ps5vk_image_copy_side ms img sub =
     (case ps5vk_image_plane ms img (sr_aspect sub) of None \<Rightarrow> None | Some plane \<Rightarrow>
      let info = im_vk img; element_bytes = pl_element_bytes plane; depth = pl_depth_map plane;
          samples = (if ii_samples info = 4 then 4 else 1); texel_bytes = element_bytes * samples;
          tiled = (im_storage img = PS5VK_IMAGE_STORAGE_TILES)
      in if element_bytes = 0 \<or> ii_samples info \<noteq> 1 \<and> ii_samples info \<noteq> 4 \<or>
            pl_offset plane \<noteq> 0 \<and> (ii_mip_levels info \<noteq> 1 \<or> ii_array_layers info \<noteq> 1 \<or> ii_samples info \<noteq> 1)
         then None
         else if tiled
         then (if element_bytes \<noteq> 4 \<and> element_bytes \<noteq> 8 \<and> element_bytes \<noteq> 16 \<and>
                  \<not> ((element_bytes = 1 \<or> element_bytes = 2) \<and> samples = 1) then None
               else if ii_mip_levels info \<noteq> 1
               then map_option (\<lambda>side. (texel_bytes, side)) (chain_side ms img sub element_bytes samples depth)
               else let slice = ps5vk_image_layer_bytes ms img
                    in if ii_array_layers info > 1 \<and> slice = 0 then None
                       else if depth \<and> texel_bytes \<noteq> 4 \<and> texel_bytes \<noteq> 16 \<and> texel_bytes \<noteq> 1 then None
                       else if depth \<and> ii_mip_levels info \<noteq> 1 then None
                       else case ps5vk_tile_extent (ms_logbase2 ms) element_bytes depth (ii_samples info) of (tile_width, tile_height) \<Rightarrow>
                         let level_offset = (if ii_array_layers info > 1 then slice * ucast (sr_base_layer sub) else 0)
                         in Some (texel_bytes, zero_side\<lparr>cs_address := im_address img + pl_offset plane + level_offset,
                              cs_level_width := ii_width info, cs_tile_width := tile_width, cs_tile_height := tile_height,
                              cs_element_bytes := element_bytes, cs_samples := samples, cs_depth := depth, cs_tiled := True\<rparr>))
         else if samples \<noteq> 1 then None
         else case ps5vk_image_level_layout ms img (unat (sr_mip_level sub)) of (level_offset, row_pitch, width, _) \<Rightarrow>
           Some (texel_bytes, zero_side\<lparr>cs_address := im_address img + pl_offset plane + level_offset, cs_row_pitch := row_pitch,
                cs_level_width := width, cs_element_bytes := element_bytes, cs_samples := samples, cs_depth := depth\<rparr>))"

text \<open>The one layer of a colour image's level.\<close>

definition level_of :: "u32 \<Rightarrow> subresource" where
  "level_of l = \<lparr>sr_aspect = VK_IMAGE_ASPECT_COLOR_BIT, sr_mip_level = l, sr_base_layer = 0, sr_layer_count = 1\<rparr>"

text \<open>Where a texel is. The coordinates are 32-bit signed numbers, here the words that hold them.\<close>

definition not_negative :: "u32 \<Rightarrow> u32" where
  "not_negative x = (if sint x < 0 then 0 else x)"

definition ps5vk_image_copy_address :: "copy_side \<Rightarrow> u32 \<Rightarrow> u32 \<Rightarrow> u32 \<Rightarrow> u32 \<Rightarrow> u64" where
  "ps5vk_image_copy_address side x y texel_bytes sample =
     (if cs_tiled side
      then if cs_depth side
        then if cs_samples side = 4
          then cs_address side + ps5vk_tiled_depth4_offset (not_negative x) (not_negative y) (cs_level_width side) (cs_tile_width side) (cs_tile_height side)
               + ucast (sample AND 3) * PS5VK_DEPTH_SAMPLE_BYTES
          else cs_address side + ps5vk_tiled_depth_offset (not_negative x) (not_negative y) (cs_level_width side) texel_bytes
        else case ps5vk_tiled_texel_offset x y (cs_level_width side) (cs_tile_width side) (cs_tile_height side)
                    (cs_element_bytes side) (cs_samples side) of (tile, swizzle) \<Rightarrow>
          let plane = (if cs_samples side = 4 then ucast (sample AND 3) * PS5VK_SAMPLE_PLANE_BYTES else 0)
          in cs_address side + tile + plane + (swizzle XOR ucast (cs_tile_xor side))
      else cs_address side + scast y * cs_row_pitch side + scast x * ucast texel_bytes)"

section \<open>Coordinates that are not negative\<close>

lemma unat_wide: "unat (ucast (v :: u32) :: u64) = unat v"
  using unsigned_less [of v, where ?'a = nat] by (simp add: unsigned_ucast_eq take_bit_nat_eq_self)

lemma high_bits_clear:
  assumes "unat (v :: u32) < 2 ^ 31" "31 \<le> m"
  shows "\<not> bit v m"
proof -
  have "take_bit 31 (unat v) = unat v" using assms(1) by (simp add: take_bit_nat_eq_self)
  then have "take_bit 31 v = v" by (metis unsigned_take_bit_eq word_unat_eq_iff)
  then show ?thesis using assms(2) by (metis bit_take_bit_iff not_le)
qed

lemma scast_nonneg: "unat (v :: u32) < 2 ^ 31 \<Longrightarrow> scast v = (ucast v :: u64)"
  using high_bits_clear [of v] by (intro bit_word_eqI) (auto simp: bit_simps bit_signed_iff min_def)

lemma not_negative_small: "unat x < 2 ^ 31 \<Longrightarrow> not_negative x = x"
  using high_bits_clear [of x 31] bit_last_iff [of x] by (simp add: not_negative_def)

section \<open>An instance of the helpers\<close>

definition sample_mesa :: mesa where
  "sample_mesa = \<lparr>ms_blocksize = (\<lambda>_. 4), ms_has_depth = (\<lambda>_. False), ms_has_stencil = (\<lambda>_. False), ms_is_compressed = (\<lambda>_. False),
     ms_align64 = (\<lambda>v a. (v + a - 1) div a * a), ms_logbase2 = (\<lambda>v. if v = 2 then 1 else if v = 4 then 2 else if v = 8 then 3 else 0)\<rparr>"

lemma unat_two_power:
  assumes "k < 64"
  shows "unat (2 ^ k :: u64) = 2 ^ k"
proof -
  have "(2 :: nat) ^ k < 2 ^ 64" using assms by (intro power_strict_increasing) auto
  then have "unat (of_nat (2 ^ k) :: u64) = 2 ^ k" using assms by (simp only: unsigned_of_nat) (simp add: take_bit_nat_eq_self)
  then show ?thesis by simp
qed

lemma unat_align:
  assumes "k < 63" "unat v < 2 ^ 63"
  shows "unat ((v + 2 ^ k - 1) div 2 ^ k * 2 ^ k :: u64) = (unat v + 2 ^ k - 1) div 2 ^ k * 2 ^ k"
proof -
  note p = unat_two_power [of k]
  have b: "(2 :: nat) ^ k \<le> 2 ^ 62" using assms(1) by (intro power_increasing) auto
  have "unat (v + 2 ^ k) = unat v + 2 ^ k" using assms b p by (simp add: unat_word_ariths(1))
  moreover from this have "unat (v + 2 ^ k - 1) = unat v + 2 ^ k - 1"
    by (subst unat_sub) (simp_all add: word_le_nat_alt trans_le_add2)
  ultimately have d: "unat ((v + 2 ^ k - 1) div 2 ^ k) = (unat v + 2 ^ k - 1) div 2 ^ k" using p assms(1) by (simp add: unat_div_distrib)
  have "(unat v + 2 ^ k - 1) div 2 ^ k * 2 ^ k \<le> unat v + 2 ^ k - 1" by (rule div_times_less_eq_dividend)
  also have "\<dots> < 2 ^ 64" using assms(2) b by simp
  finally show ?thesis using d p assms(1) by (simp add: unat_word_ariths(2))
qed

lemma sample_mesa_ok: "mesa_ok sample_mesa"
  by (simp add: mesa_ok_def sample_mesa_def unat_align)

end
