(* ===== verification/Vk_Chains.thy ===== *)
theory Vk_Chains
  imports Vk_Image
begin

text \<open>
  The measured mip chains of \<open>driver/ps5vk_image.c\<close>: the levels of a chain larger than a tile are grids of
  tiles of their own, and the smaller ones share one tile, in which a level's origin is combined with
  the place of a texel by exclusive or. No two texels of a chain, of one level or of two, share a byte.
\<close>

section \<open>Where a texel of a chain's level is\<close>

definition chain_place :: "u64 \<Rightarrow> u32 \<Rightarrow> u32 \<Rightarrow> u32 \<Rightarrow> u64" where
  "chain_place base w x y =
     (case ps5vk_tiled_texel_offset x y w 128 128 4 1 of (t, s) \<Rightarrow> (base AND NOT 0xffff) + t + (s XOR (base AND 0xffff)))"

definition level_extent :: "u32 \<Rightarrow> nat \<Rightarrow> u32" where
  "level_extent extent level = max (drop_bit level extent) 1"

text \<open>The bits that a texel of a level of at most \<open>2\<^sup>d\<close> texels a side can set.\<close>

definition tail_mask :: "nat \<Rightarrow> u64" where
  "tail_mask d = (if d = 3 then 0xfc else if d = 4 then 0x11fc else if d = 5 then 0x33fc else 0x3ffc)"

definition tail_size :: "u32 \<Rightarrow> u32 \<Rightarrow> nat" where
  "tail_size w h = (if w \<le> 8 \<and> h \<le> 8 then 3 else if w \<le> 16 \<and> h \<le> 16 then 4 else if w \<le> 32 \<and> h \<le> 32 then 5 else 6)"

definition level_bytes :: "u32 \<Rightarrow> u32 \<Rightarrow> u64" where
  "level_bytes w h = ucast (DIV_ROUND_UP h 128) * ucast (DIV_ROUND_UP w 128) * PS5VK_TILE_BYTES"

definition own_tiles :: "u64 \<Rightarrow> bool" where
  "own_tiles base \<longleftrightarrow> base AND 0xffff = 0"

text \<open>What the table has to satisfy, by computation: each level fits, and no two are in each other's way.\<close>

definition level_fits :: "u64 \<Rightarrow> u32 \<times> u32 \<times> u64 \<Rightarrow> bool" where
  "level_fits limit l = (case l of (w, h, base) \<Rightarrow>
     w \<le> 1024 \<and> h \<le> 1024 \<and>
     (if own_tiles base then base \<le> 0x1000000 \<and> base + level_bytes w h \<le> limit
      else w \<le> 64 \<and> h \<le> 64 \<and> base < 0x10000 \<and> base AND 3 = 0 \<and> 0x10000 \<le> limit))"

definition levels_apart :: "u32 \<times> u32 \<times> u64 \<Rightarrow> u32 \<times> u32 \<times> u64 \<Rightarrow> bool" where
  "levels_apart l l' = (case l of (w, h, base) \<Rightarrow> case l' of (w', h', base') \<Rightarrow>
     if own_tiles base
     then if own_tiles base'
       then base + level_bytes w h \<le> base' \<or> base' + level_bytes w' h' \<le> base
       else 0x10000 \<le> base
     else if own_tiles base' then 0x10000 \<le> base'
     else (base XOR base') AND NOT (tail_mask (tail_size w h) OR tail_mask (tail_size w' h')) \<noteq> 0)"

definition chain_levels :: "tiled_chain \<Rightarrow> (u32 \<times> u32 \<times> u64) list" where
  "chain_levels c = map (\<lambda>l. (level_extent (tc_width c) l, level_extent (tc_height c) l, tc_bases c ! l)) [0..<unat (tc_levels c)]"

definition chain_check :: "tiled_chain \<Rightarrow> bool" where
  "chain_check c \<longleftrightarrow>
     (let ls = chain_levels c; n = length ls
      in list_all (level_fits (tc_bytes c)) ls \<and>
         list_all (\<lambda>i. list_all (\<lambda>j. i = j \<or> levels_apart (ls ! i) (ls ! j)) [0..<n]) [0..<n])"

lemma chains_checked: "list_all chain_check ps5vk_tiled_chains"
  by code_simp

lemma tail_bit_lists:
  "list_all (\<lambda>n. bit (0xfc :: u64) n \<or> \<not> bit (tiled_local ps5vk_tiled_4b_terms (take_bit 3 x) (take_bit 3 y) 0) n) [0..<16]"
  "list_all (\<lambda>n. bit (0x11fc :: u64) n \<or> \<not> bit (tiled_local ps5vk_tiled_4b_terms (take_bit 4 x) (take_bit 4 y) 0) n) [0..<16]"
  "list_all (\<lambda>n. bit (0x33fc :: u64) n \<or> \<not> bit (tiled_local ps5vk_tiled_4b_terms (take_bit 5 x) (take_bit 5 y) 0) n) [0..<16]"
  "list_all (\<lambda>n. bit (0x3ffc :: u64) n \<or> \<not> bit (tiled_local ps5vk_tiled_4b_terms (take_bit 6 x) (take_bit 6 y) 0) n) [0..<16]"
  unfolding upto_lists list.pred_inject tiled_local_bit ps5vk_tiled_4b_terms_def
  by (simp_all add: bit_take_bit_iff)

lemma tail_masks: "tail_mask 3 = 0xfc" "tail_mask 4 = 0x11fc" "tail_mask 5 = 0x33fc" "tail_mask 6 = 0x3ffc"
  by (simp_all add: tail_mask_def)

lemma tail_bits:
  assumes "d = 3 \<or> d = 4 \<or> d = 5 \<or> d = 6" and "take_bit d x = x" and "take_bit d y = y"
  shows "tiled_local ps5vk_tiled_4b_terms x y 0 AND NOT (tail_mask d) = 0"
proof (rule bit_word_eqI)
  fix n
  let ?l = "tiled_local ps5vk_tiled_4b_terms (take_bit d x) (take_bit d y) 0"
  have l: "list_all (\<lambda>n. bit (tail_mask d) n \<or> \<not> bit ?l n) [0..<16]"
    using assms(1)
  proof (elim disjE)
    assume d: "d = 3" show ?thesis unfolding d tail_masks by (rule tail_bit_lists)
  next
    assume d: "d = 4" show ?thesis unfolding d tail_masks by (rule tail_bit_lists)
  next
    assume d: "d = 5" show ?thesis unfolding d tail_masks by (rule tail_bit_lists)
  next
    assume d: "d = 6" show ?thesis unfolding d tail_masks by (rule tail_bit_lists)
  qed
  have "bit (tail_mask d) n \<or> \<not> bit ?l n"
  proof (cases "n < 16")
    case True
    then show ?thesis using l by (auto simp: list_all_iff)
  next
    case False
    then have "\<not> bit (take_bit 16 ?l) n" by (simp add: bit_take_bit_iff)
    then show ?thesis unfolding map_4b.inside by blast
  qed
  then show "bit (tiled_local ps5vk_tiled_4b_terms x y 0 AND NOT (tail_mask d)) n = bit 0 n"
    unfolding assms(2,3) by (auto simp: bit_simps)
qed

section \<open>Texels of one chain\<close>

lemma xor_right_cancel:
  assumes "p XOR c = q XOR (c :: u64)"
  shows "p = q"
proof -
  have "(p XOR c) XOR c = (q XOR c) XOR c" using assms by simp
  then show ?thesis by (simp add: xor.assoc)
qed

lemma texel_parts:
  assumes "x < w" "y < h" "w \<le> 1024" "h \<le> 1024" and place: "ps5vk_tiled_texel_offset x y w 128 128 4 1 = (t, s)"
  shows "unat t + unat s + 4 \<le> unat (level_bytes w h)" and "unat (level_bytes w h) \<le> 0x400000"
    and "take_bit 16 s = s" "take_bit 2 s = 0" "unat t mod 65536 = 0"
    and "w \<le> 64 \<Longrightarrow> h \<le> 64 \<Longrightarrow> t = 0 \<and> s AND NOT (tail_mask (tail_size w h)) = 0"
proof -
  have b: "unat w \<le> 2 ^ 10" "unat h \<le> 2 ^ 10" "unat x < unat w" "unat y < unat h"
    using assms(1-4) by (simp_all add: word_le_nat_alt word_less_nat_alt)
  have r: "unat (DIV_ROUND_UP v 128 :: u32) \<le> 8" if "unat v \<le> 2 ^ 10" for v
  proof -
    have "unat (DIV_ROUND_UP v (2 ^ 7) :: u32) = (unat v + 2 ^ 7 - 1) div 2 ^ 7" using that by (intro unat_round_up) auto
    also have "\<dots> \<le> (2 ^ 10 + 2 ^ 7 - 1) div 2 ^ 7" using that by (intro div_le_mono) auto
    finally show ?thesis by simp
  qed
  have u: "unat (ucast v :: u64) = unat v" for v :: u32
    using unsigned_less [of v, where ?'a = nat] by (simp add: unsigned_ucast_eq take_bit_nat_eq_self)
  let ?H = "unat (DIV_ROUND_UP h 128)" and ?W = "unat (DIV_ROUND_UP w 128)"
  have m: "?H * ?W \<le> 8 * 8" using r b(1,2) by (intro mult_le_mono) auto
  have lb: "unat (level_bytes w h) = ?H * ?W * 65536"
    unfolding level_bytes_def unat_word_ariths(2) u PS5VK_TILE_BYTES_def using m by (simp add: mod_less)
  then show "unat (level_bytes w h) \<le> 0x400000" using m by simp
  have g: "tiled_texel_general x y w (2 ^ 7) (2 ^ 7) 4 1 = (t, s)"
    using place fast_is_general [of x y w] by (simp add: ps5vk_tiled_texel_offset_def)
  have map: "tile_map (\<lambda>x y. tiled_local (terms_of 4) x y 0) 7 7 2" by (rule tile_shape_cases(1)) (simp add: tile_shape_def)
  show "unat t + unat s + 4 \<le> unat (level_bytes w h)"
    using colour_within [OF map _ _ _ _ assms(1) _ assms(2), of 1 t s] b place unfolding lb by simp
  have t: "unat t = (unat y div 2 ^ 7 * ((unat w + 2 ^ 7 - 1) div 2 ^ 7) + unat x div 2 ^ 7) * 65536"
    using g block_offset [of x y w 7 7] b by (auto simp: tiled_texel_general_def Let_def split: prod.splits)
  then show "unat t mod 65536 = 0" by simp
  have s: "s = tiled_local ps5vk_tiled_4b_terms (of_nat (unat x mod 2 ^ 7)) (of_nat (unat y mod 2 ^ 7)) 0"
    using general_swizzle [of 7 7 x y w 4 1] g by (simp add: turn_x_def turn_y_def terms_of_def)
  then show "take_bit 16 s = s" "take_bit 2 s = 0" by (simp_all only: map_4b.inside map_4b.aligned)
  show "t = 0 \<and> s AND NOT (tail_mask (tail_size w h)) = 0" if small: "w \<le> 64" "h \<le> 64"
  proof -
    let ?d = "tail_size w h"
    have wd: "unat w \<le> 2 ^ ?d" "unat h \<le> 2 ^ ?d" and d: "?d = 3 \<or> ?d = 4 \<or> ?d = 5 \<or> ?d = 6"
      using small by (auto simp: tail_size_def word_le_nat_alt)
    have "(2 :: nat) ^ ?d \<le> 2 ^ 6" using d by auto
    then have lt: "unat x < 2 ^ ?d" "unat y < 2 ^ ?d" "unat x < 64" "unat y < 64" using wd b(3,4) by auto
    have "take_bit ?d (of_nat (v mod 2 ^ 7) :: u64) = of_nat (v mod 2 ^ 7)" if "v < 2 ^ ?d" "v < 64" for v
      unfolding take_bit_of_nat using that by (simp add: take_bit_nat_eq_self)
    then have "s AND NOT (tail_mask ?d) = 0" unfolding s using lt tail_bits [OF d] by blast
    moreover have "unat t = 0" using t lt(3,4) by simp
    ultimately show ?thesis by (simp add: unat_eq_0)
  qed
qed

lemma place_own:
  assumes "level_fits limit (w, h, base)" "own_tiles base" "x < w" "y < h"
  obtains t s where "ps5vk_tiled_texel_offset x y w 128 128 4 1 = (t, s)"
    and "unat (chain_place base w x y) = unat base + unat t + unat s"
    and "unat t + unat s + 4 \<le> unat (level_bytes w h)" and "unat (base + level_bytes w h) = unat base + unat (level_bytes w h)"
proof -
  obtain t s where p: "ps5vk_tiled_texel_offset x y w 128 128 4 1 = (t, s)" by (metis prod.exhaust)
  have f: "w \<le> 1024" "h \<le> 1024" "unat base \<le> 0x1000000" using assms(1,2) by (simp_all add: level_fits_def word_le_nat_alt)
  note parts = texel_parts [OF assms(3,4) f(1,2) p]
  have z: "base AND 0xffff = 0" using assms(2) by (simp add: own_tiles_def)
  have "base AND NOT 0xffff = base" 
  proof (rule bit_word_eqI)
    fix n
    have "bit (base AND 0xffff) n = False" by (simp add: z)
    then show "bit (base AND NOT 0xffff) n = bit base n" using bit_imp_le_length [of base n] by (auto simp: bit_simps)
  qed
  then have c: "chain_place base w x y = base + t + s" by (simp add: chain_place_def p z)
  have "unat (base + t) = unat base + unat t" using parts(1,2) f(3) by (subst unat_word_ariths(1)) simp
  then have "unat (chain_place base w x y) = unat base + unat t + unat s"
    unfolding c using parts(1,2) f(3) by (subst unat_word_ariths(1)) simp
  moreover have "unat (base + level_bytes w h) = unat base + unat (level_bytes w h)"
    using parts(2) f(3) by (subst unat_word_ariths(1)) simp
  ultimately show ?thesis using that p parts(1) by blast
qed

lemma place_tail:
  assumes "level_fits limit (w, h, base)" "\<not> own_tiles base" "x < w" "y < h"
  obtains s where "ps5vk_tiled_texel_offset x y w 128 128 4 1 = (0, s)" and "chain_place base w x y = s XOR base"
    and "unat (chain_place base w x y) + 4 \<le> 65536" "unat (chain_place base w x y) mod 4 = 0"
    and "s AND NOT (tail_mask (tail_size w h)) = 0"
proof -
  obtain t s where p: "ps5vk_tiled_texel_offset x y w 128 128 4 1 = (t, s)" by (metis prod.exhaust)
  have f: "w \<le> 1024" "h \<le> 1024" "w \<le> 64" "h \<le> 64" "base < 0x10000" "base AND 3 = 0"
    using assms(1,2) by (simp_all add: level_fits_def)
  note parts = texel_parts [OF assms(3,4) f(1,2) p]
  have t: "t = 0" "s AND NOT (tail_mask (tail_size w h)) = 0" using parts(6) f(3,4) by auto
  have "take_bit 16 (unat base) = unat base" using f(5) by (simp add: take_bit_nat_eq_self word_less_nat_alt)
  then have b16: "take_bit 16 base = base" by (metis unsigned_take_bit_eq word_unat_eq_iff)
  then have m: "base AND 0xffff = base" by (simp add: take_bit_eq_mask mask_numeral)
  have "base AND NOT 0xffff = 0"
    by (subst m [symmetric]) (simp add: and.assoc)
  then have c: "chain_place base w x y = s XOR base" by (simp add: chain_place_def p t m)
  have b2: "take_bit 2 base = 0" using f(6) by (simp add: take_bit_eq_mask mask_numeral)
  have q: "take_bit 16 (s XOR base) = s XOR base" "take_bit 2 (s XOR base) = 0" using parts(3,4) b16 b2 by simp_all
  have m4: "unat (s XOR base) mod 4 = 0" using unat_low_zero [OF q(2)] by simp
  moreover have "unat (s XOR base) < 65536"
    using take_bit_nat_less_exp [of 16 "unat (s XOR base)"] unfolding unsigned_take_bit_eq [symmetric] q(1) by simp
  moreover from m4 obtain k where "unat (s XOR base) = 4 * k" by (metis mod_eq_0_iff_dvd dvdE)
  ultimately have "unat (s XOR base) + 4 \<le> 65536" by simp
  then show ?thesis using that p t c m4 by simp
qed

lemma same_level_apart:
  assumes "level_fits limit (w, h, base)" "x < w" "y < h" "x' < w" "y' < h" "(x, y) \<noteq> (x', y')"
  shows "unat (chain_place base w x y) + 4 \<le> unat (chain_place base w x' y') \<or>
         unat (chain_place base w x' y') + 4 \<le> unat (chain_place base w x y)"
proof -
  have b: "unat w \<le> 2 ^ 16" "unat h \<le> 2 ^ 16" using assms(1) by (simp_all add: level_fits_def word_le_nat_alt)
  have map: "tile_map (\<lambda>x y. tiled_local (terms_of 4) x y 0) 7 7 2" by (rule tile_shape_cases(1)) (simp add: tile_shape_def)
  note apart = colour_apart(1) [OF map _ _ _ _ assms(2,4) b(1) assms(3,5) b(2) assms(6), of 1, simplified]
  show ?thesis
  proof (cases "own_tiles base")
    case True
    obtain t s where p: "ps5vk_tiled_texel_offset x y w 128 128 4 1 = (t, s)"
      "unat (chain_place base w x y) = unat base + unat t + unat s" "unat t + unat s + 4 \<le> unat (level_bytes w h)"
      "unat (base + level_bytes w h) = unat base + unat (level_bytes w h)"
      by (rule place_own [OF assms(1) True assms(2,3)])
    obtain t' s' where p': "ps5vk_tiled_texel_offset x' y' w 128 128 4 1 = (t', s')"
      "unat (chain_place base w x' y') = unat base + unat t' + unat s'" "unat t' + unat s' + 4 \<le> unat (level_bytes w h)"
      "unat (base + level_bytes w h) = unat base + unat (level_bytes w h)"
      by (rule place_own [OF assms(1) True assms(4,5)])
    show ?thesis using apart [OF p(1) p'(1)] p(2) p'(2) by linarith
  next
    case False
    obtain s where s: "ps5vk_tiled_texel_offset x y w 128 128 4 1 = (0, s)" "chain_place base w x y = s XOR base"
      "unat (chain_place base w x y) + 4 \<le> 65536" "unat (chain_place base w x y) mod 4 = 0"
      "s AND NOT (tail_mask (tail_size w h)) = 0"
      by (rule place_tail [OF assms(1) False assms(2,3)])
    obtain s' where s': "ps5vk_tiled_texel_offset x' y' w 128 128 4 1 = (0, s')" "chain_place base w x' y' = s' XOR base"
      "unat (chain_place base w x' y') + 4 \<le> 65536" "unat (chain_place base w x' y') mod 4 = 0"
      "s' AND NOT (tail_mask (tail_size w h)) = 0"
      by (rule place_tail [OF assms(1) False assms(4,5)])
    have "s \<noteq> s'" using apart [OF s(1) s'(1)] by auto
    then have "chain_place base w x y \<noteq> chain_place base w x' y'"
      unfolding s(2) s'(2) using xor_right_cancel by blast
    then have "unat (chain_place base w x y) \<noteq> unat (chain_place base w x' y')" using word_unat_eq_iff by blast
    then show ?thesis using s(4) s'(4) by (rule multiples_apart)
  qed
qed

lemma two_levels_apart:
  assumes "level_fits limit (w, h, base)" "level_fits limit (w', h', base')" "levels_apart (w, h, base) (w', h', base')"
    and "x < w" "y < h" "x' < w'" "y' < h'"
  shows "unat (chain_place base w x y) + 4 \<le> unat (chain_place base' w' x' y') \<or>
         unat (chain_place base' w' x' y') + 4 \<le> unat (chain_place base w x y)"
proof (cases "own_tiles base"; cases "own_tiles base'")
  assume o: "own_tiles base" "own_tiles base'"
  obtain t s where p: "ps5vk_tiled_texel_offset x y w 128 128 4 1 = (t, s)"
      "unat (chain_place base w x y) = unat base + unat t + unat s" "unat t + unat s + 4 \<le> unat (level_bytes w h)"
      "unat (base + level_bytes w h) = unat base + unat (level_bytes w h)"
    by (rule place_own [OF assms(1) o(1) assms(4,5)])
  obtain t' s' where p': "ps5vk_tiled_texel_offset x' y' w' 128 128 4 1 = (t', s')"
      "unat (chain_place base' w' x' y') = unat base' + unat t' + unat s'" "unat t' + unat s' + 4 \<le> unat (level_bytes w' h')"
      "unat (base' + level_bytes w' h') = unat base' + unat (level_bytes w' h')"
    by (rule place_own [OF assms(2) o(2) assms(6,7)])
  show ?thesis using assms(3) o p(2-4) p'(2-4) by (auto simp: levels_apart_def word_le_nat_alt)
next
  assume o: "own_tiles base" "\<not> own_tiles base'"
  obtain t s where p: "ps5vk_tiled_texel_offset x y w 128 128 4 1 = (t, s)"
      "unat (chain_place base w x y) = unat base + unat t + unat s" "unat t + unat s + 4 \<le> unat (level_bytes w h)"
      "unat (base + level_bytes w h) = unat base + unat (level_bytes w h)"
    by (rule place_own [OF assms(1) o(1) assms(4,5)])
  obtain s' where p': "ps5vk_tiled_texel_offset x' y' w' 128 128 4 1 = (0, s')" "chain_place base' w' x' y' = s' XOR base'"
      "unat (chain_place base' w' x' y') + 4 \<le> 65536" "unat (chain_place base' w' x' y') mod 4 = 0"
      "s' AND NOT (tail_mask (tail_size w' h')) = 0"
    by (rule place_tail [OF assms(2) o(2) assms(6,7)])
  have "65536 \<le> unat base" using assms(3) o by (simp add: levels_apart_def word_le_nat_alt)
  then show ?thesis using p(2) p'(3) by linarith
next
  assume o: "\<not> own_tiles base" "own_tiles base'"
  obtain t' s' where p': "ps5vk_tiled_texel_offset x' y' w' 128 128 4 1 = (t', s')"
      "unat (chain_place base' w' x' y') = unat base' + unat t' + unat s'" "unat t' + unat s' + 4 \<le> unat (level_bytes w' h')"
      "unat (base' + level_bytes w' h') = unat base' + unat (level_bytes w' h')"
    by (rule place_own [OF assms(2) o(2) assms(6,7)])
  obtain s where p: "ps5vk_tiled_texel_offset x y w 128 128 4 1 = (0, s)" "chain_place base w x y = s XOR base"
      "unat (chain_place base w x y) + 4 \<le> 65536" "unat (chain_place base w x y) mod 4 = 0"
      "s AND NOT (tail_mask (tail_size w h)) = 0"
    by (rule place_tail [OF assms(1) o(1) assms(4,5)])
  have "65536 \<le> unat base'" using assms(3) o by (simp add: levels_apart_def word_le_nat_alt)
  then show ?thesis using p(3) p'(2) by linarith
next
  assume o: "\<not> own_tiles base" "\<not> own_tiles base'"
  let ?m = "tail_mask (tail_size w h)" and ?m' = "tail_mask (tail_size w' h')"
  obtain s where s: "ps5vk_tiled_texel_offset x y w 128 128 4 1 = (0, s)" "chain_place base w x y = s XOR base"
      "unat (chain_place base w x y) + 4 \<le> 65536" "unat (chain_place base w x y) mod 4 = 0"
      "s AND NOT (tail_mask (tail_size w h)) = 0"
    by (rule place_tail [OF assms(1) o(1) assms(4,5)])
  obtain s' where s': "ps5vk_tiled_texel_offset x' y' w' 128 128 4 1 = (0, s')" "chain_place base' w' x' y' = s' XOR base'"
      "unat (chain_place base' w' x' y') + 4 \<le> 65536" "unat (chain_place base' w' x' y') mod 4 = 0"
      "s' AND NOT (tail_mask (tail_size w' h')) = 0"
    by (rule place_tail [OF assms(2) o(2) assms(6,7)])
  have n: "(base XOR base') AND NOT (?m OR ?m') \<noteq> 0" using assms(3) o by (simp add: levels_apart_def)
  have "chain_place base w x y \<noteq> chain_place base' w' x' y'"
  proof
    assume "chain_place base w x y = chain_place base' w' x' y'"
    then have eq: "s XOR base = s' XOR base'" unfolding s(2) s'(2) .
    have bits: "(bit s n \<noteq> bit base n) = (bit s' n \<noteq> bit base' n)" for n using arg_cong [OF eq, of "\<lambda>w. bit w n"] by (simp add: bit_xor_iff)
    have "\<not> bit (s AND NOT ?m) n" "\<not> bit (s' AND NOT ?m') n" for n unfolding s(5) s'(5) by simp_all
    then have "\<not> bit ((base XOR base') AND NOT (?m OR ?m')) n" for n
      using bits [of n] bit_imp_le_length [of s n] bit_imp_le_length [of s' n] by (auto simp: bit_simps)
    then have "(base XOR base') AND NOT (?m OR ?m') = 0" by (intro bit_word_eqI) simp
    then show False using n by contradiction
  qed
  then have "unat (chain_place base w x y) \<noteq> unat (chain_place base' w' x' y')" using word_unat_eq_iff by blast
  then show ?thesis using s(4) s'(4) by (rule multiples_apart)
qed

lemma place_in_chain:
  assumes "level_fits limit (w, h, base)" "x < w" "y < h"
  shows "unat (chain_place base w x y) + 4 \<le> unat limit"
proof (cases "own_tiles base")
  case True
  obtain t s where p: "ps5vk_tiled_texel_offset x y w 128 128 4 1 = (t, s)"
      "unat (chain_place base w x y) = unat base + unat t + unat s" "unat t + unat s + 4 \<le> unat (level_bytes w h)"
      "unat (base + level_bytes w h) = unat base + unat (level_bytes w h)"
    by (rule place_own [OF assms(1) True assms(2,3)])
  then show ?thesis using assms(1) True by (simp add: level_fits_def word_le_nat_alt)
next
  case False
  obtain s where p: "ps5vk_tiled_texel_offset x y w 128 128 4 1 = (0, s)" "chain_place base w x y = s XOR base"
      "unat (chain_place base w x y) + 4 \<le> 65536" "unat (chain_place base w x y) mod 4 = 0"
      "s AND NOT (tail_mask (tail_size w h)) = 0"
    by (rule place_tail [OF assms(1) False assms(2,3)])
  then show ?thesis using assms(1) False by (simp add: level_fits_def word_le_nat_alt)
qed

section \<open>A chain as the copies see it\<close>

lemma chain_of_row:
  assumes "find_chain cs w h n = Some c"
  shows "c \<in> set cs \<and> tc_width c = w \<and> tc_height c = h \<and> tc_levels c = n"
  using assms by (induction cs w h n rule: find_chain.induct) (auto split: if_splits)

lemma level_of_chain:
  assumes "c \<in> set ps5vk_tiled_chains" "l < tc_levels c" "l' < tc_levels c"
  defines "level \<equiv> \<lambda>l. (level_extent (tc_width c) (unat l), level_extent (tc_height c) (unat l), tc_bases c ! unat l)"
  shows "level_fits (tc_bytes c) (level l)" and "l \<noteq> l' \<Longrightarrow> levels_apart (level l) (level l')"
proof -
  have c: "chain_check c" using chains_checked assms(1) by (simp add: list_all_iff)
  have u: "unat l < unat (tc_levels c)" "unat l' < unat (tc_levels c)" using assms(2,3) by (simp_all add: word_less_nat_alt)
  then have n: "chain_levels c ! unat l = level l" "chain_levels c ! unat l' = level l'" "length (chain_levels c) = unat (tc_levels c)"
    by (simp_all add: chain_levels_def level_def)
  then have "level l \<in> set (chain_levels c)" using u by (metis nth_mem)
  then show "level_fits (tc_bytes c) (level l)" using c by (simp add: chain_check_def Let_def list_all_iff)
  assume "l \<noteq> l'"
  then have "unat l \<noteq> unat l'" using word_unat_eq_iff by blast
  then show "levels_apart (level l) (level l')"
    using c u unfolding chain_check_def Let_def list_all_iff n(3) set_upt n(1,2) [symmetric] by force
qed

lemma base_known:
  assumes "level_fits limit (w, h, base)"
  shows "base \<noteq> UINT64_MAX"
  using assms by (auto simp: level_fits_def UINT64_MAX_def own_tiles_def split: if_splits)

lemma chain_level_side:
  assumes chain: "ps5vk_tiled_chain_of ms img = Some c" and "ii_mip_levels (im_vk img) \<noteq> 1"
    and "im_storage img = PS5VK_IMAGE_STORAGE_TILES" "mesa_ok ms"
    and "\<not> ms_has_depth ms (ii_format (im_vk img))" "\<not> ms_has_stencil ms (ii_format (im_vk img))"
    and "l < ii_mip_levels (im_vk img)"
  obtains side where "ps5vk_image_copy_side ms img (level_of l) = Some (4, side)"
    and "\<And>x y s. ps5vk_image_copy_address side x y 4 s = im_address img + chain_place (tc_bases c ! unat l) (level_extent (tc_width c) (unat l)) x y"
proof -
  let ?base = "tc_bases c ! unat l"
  have b: "ms_blocksize ms (ii_format (im_vk img)) = 4" "ii_samples (im_vk img) = 1"
    and f: "find_chain ps5vk_tiled_chains (ii_width (im_vk img)) (ii_height (im_vk img)) (ii_mip_levels (im_vk img)) = Some c"
    using chain by (auto simp: ps5vk_tiled_chain_of_def Let_def split: if_splits)
  note row = chain_of_row [OF f]
  have n: "?base \<noteq> UINT64_MAX" using base_known [OF level_of_chain(1)] row assms(7) by metis
  have lb: "ps5vk_image_tiled_layer_level_base ms img l 0 = ?base"
    using row assms(2,7) by (auto simp: ps5vk_image_tiled_layer_level_base_def ps5vk_image_tiled_level_base_def chain)
  have e: "ps5vk_tile_extent (ms_logbase2 ms) 4 False 1 = (128, 128)"
    using assms(4) by (simp add: ps5vk_tile_extent_def mesa_ok_def)
  have x: "ucast (ucast (?base AND 0xffff) :: u32) = ?base AND 0xffff"
  proof -
    have "ucast (ucast (?base AND mask 16) :: u32) = ?base AND mask 16" by (rule bit_word_eqI) (auto simp: bit_simps)
    then show ?thesis by (simp add: mask_numeral)
  qed
  obtain side where side: "chain_side ms img (level_of l) 4 1 False = Some side"
    and at: "\<And>x y s. ps5vk_image_copy_address side x y 4 s = im_address img + chain_place ?base (level_extent (tc_width c) (unat l)) x y"
  proof
    show "chain_side ms img (level_of l) 4 1 False = Some (zero_side\<lparr>cs_address := im_address img + (?base AND NOT 0xffff),
       cs_tile_xor := ucast (?base AND 0xffff), cs_level_width := level_extent (tc_width c) (unat l),
       cs_tile_width := 128, cs_tile_height := 128, cs_element_bytes := 4, cs_samples := 1, cs_depth := False, cs_tiled := True\<rparr>)"
      using n lb e b row by (simp add: chain_side_def level_of_def level_extent_def Let_def)
  qed (simp add: ps5vk_image_copy_address_def zero_side_def chain_place_def x add.assoc split: prod.splits)
  have "ps5vk_image_copy_side ms img (level_of l) = Some (4, side)"
    using assms(2,3,5,6) b side by (simp add: ps5vk_image_copy_side_def ps5vk_image_plane_def level_of_def Let_def)
  then show ?thesis using that at by blast
qed


text \<open>A 256 by 256 image of six levels, and the texels (1, 2) of the level of 64 texels and of that of 16.\<close>

definition sample_chain :: ps5vk_image where
  "sample_chain = \<lparr>im_vk = \<lparr>ii_format = VK_FORMAT_R8G8B8A8_UNORM, ii_type = VK_IMAGE_TYPE_2D, ii_tiling = VK_IMAGE_TILING_OPTIMAL,
       ii_usage = [VK_IMAGE_USAGE_COLOR_ATTACHMENT_BIT], ii_flags = [], ii_width = 256, ii_height = 256, ii_mip_levels = 6,
       ii_array_layers = 1, ii_samples = 1\<rparr>,
     im_storage = PS5VK_IMAGE_STORAGE_TILES, im_size = 0x200000, im_alignment = 0x200000, im_stencil_offset = 0,
     im_address = 0x400000, im_video = - 1\<rparr>"

lemma sample_chain_row:
  "ps5vk_tiled_chain_of sample_mesa sample_chain = Some (ps5vk_tiled_chains ! 3)"
  by code_simp


end
