(* ===== verification/Vk_Rows.thy ===== *)
theory Vk_Rows
  imports Vk_Image
begin

text \<open>
  Images stored in rows, \<open>driver/ps5vk_image.c\<close>: what \<open>vkCreateImage\<close> accepts and how the levels of a
  created and bound image lie one after the other, each row padded to 256 bytes.
\<close>

section \<open>Creating what the queries promise\<close>

lemma created_image:
  assumes "ps5vk_CreateImage ms tile_padded made info = Inr img"
  shows "im_vk img = info"
    and "ps5vk_image_storage ms tile_padded info = (im_storage img, im_size img, im_alignment img, im_stencil_offset img)"
    and "ii_width info \<le> PS5VK_MAX_EXTENT_2D" "ii_height info \<le> PS5VK_MAX_EXTENT_2D"
    and "ii_mip_levels info \<le> PS5VK_MAX_MIP_LEVELS" "ii_array_layers info \<le> PS5VK_MAX_ARRAY_LAYERS"
    and "im_size img \<le> PS5VK_ADDRESS_WINDOW_BYTES"
  using assms by (auto simp: ps5vk_CreateImage_def split: if_splits prod.splits)

text \<open>C39. What \<open>vkGetPhysicalDeviceImageFormatProperties2\<close> answers, \<open>vkCreateImage\<close> honours: an image within the limits it
  reported is created, or fails only because its storage exceeds the reported maximal resource size or
  because the process has no memory for the object; it is never refused as unsupported and never runs into an assertion.
\<close>

theorem queried_image_created:
  assumes "ps5vk_GetPhysicalDeviceImageFormatProperties2 (ms_has_stencil ms) (ii_format info) (ii_type info) (ii_tiling info)
      (ii_usage info) (ii_flags info) external = Some p"
    and "ii_width info \<le> fst (ifp_max_extent p)" "ii_height info \<le> fst (snd (ifp_max_extent p))"
    and "1 \<le> ii_mip_levels info" "ii_mip_levels info \<le> ifp_max_mip_levels p"
    and "1 \<le> ii_array_layers info" "ii_array_layers info \<le> ifp_max_array_layers p"
    and "ii_samples info \<in> set (ifp_sample_counts p)"
  shows "case ps5vk_CreateImage ms tile_padded made info of
      Inr img \<Rightarrow> made \<and> im_vk img = info \<and> im_size img \<le> ifp_max_resource_size p
    | Inl e \<Rightarrow> e = VK_ERROR_OUT_OF_DEVICE_MEMORY \<and> fst (snd (ps5vk_image_storage ms tile_padded info)) > ifp_max_resource_size p \<or>
               e = VK_ERROR_OUT_OF_HOST_MEMORY \<and> \<not> made"
proof -
  have one: "v = 1" if "1 \<le> v" "v \<le> (1 :: u32)" for v using that by simp
  have p: "ps5vk_image_supported (ms_has_stencil ms) (ii_format info) (ii_type info) (ii_tiling info) (ii_usage info) (ii_flags info)"
    "ii_width info \<le> PS5VK_MAX_EXTENT_2D" "ii_height info \<le> PS5VK_MAX_EXTENT_2D"
    "ii_mip_levels info \<le> PS5VK_MAX_MIP_LEVELS" "ii_array_layers info \<le> PS5VK_MAX_ARRAY_LAYERS"
    "ms_has_stencil ms (ii_format info) \<Longrightarrow> ii_mip_levels info = 1 \<and> ii_array_layers info = 1 \<and> ii_samples info = 1"
    "ifp_max_resource_size p = PS5VK_ADDRESS_WINDOW_BYTES"
    using assms one
    by (auto simp: ps5vk_GetPhysicalDeviceImageFormatProperties2_def PS5VK_MAX_MIP_LEVELS_def PS5VK_MAX_ARRAY_LAYERS_def split: if_splits)
  then show ?thesis by (auto simp: ps5vk_CreateImage_def split: prod.splits)
qed

section \<open>Rows and levels\<close>

text \<open>The extent of a level, the pitch of its rows and its bytes, as numbers.\<close>

definition extent_at :: "nat \<Rightarrow> nat \<Rightarrow> nat" where
  "extent_at extent l = max ((extent + 2 ^ l - 1) div 2 ^ l) 1"

definition pitch_at :: "nat \<Rightarrow> nat \<Rightarrow> nat \<Rightarrow> nat" where
  "pitch_at width element l = (extent_at width l * element + 255) div 256 * 256"

definition bytes_at :: "nat \<Rightarrow> nat \<Rightarrow> nat \<Rightarrow> nat \<Rightarrow> nat" where
  "bytes_at width height element l = pitch_at width element l * extent_at height l"

lemma extent_at_le: "n \<le> 16384 \<Longrightarrow> extent_at n l \<le> 16384"
proof -
  assume n: "n \<le> 16384"
  have "(n + 2 ^ l - 1) div 2 ^ l \<le> n"
  proof (cases "n = 0")
    case False
    then have "n + 2 ^ l - 1 \<le> n * 2 ^ l" by (cases n) (simp_all add: algebra_simps)
    then show ?thesis by (metis div_le_mono nonzero_mult_div_cancel_right power_not_zero zero_neq_numeral)
  qed simp
  then show ?thesis using n by (simp add: extent_at_def)
qed

lemma unat_row_extent:
  assumes "unat e \<le> 16384" "l < 16"
  shows "unat (row_extent e l) = extent_at (unat e) l"
proof -
  have p: "push_bit l (1 :: u64) = 2 ^ l" by (simp add: push_bit_eq_mult)
  have b: "(2 :: nat) ^ l \<le> 2 ^ 15" using assms(2) by (intro power_increasing) auto
  have u: "unat (2 ^ l :: u64) = 2 ^ l" using unat_two_power [of l] assms(2) by simp
  have "unat (ucast e + 2 ^ l :: u64) = unat e + 2 ^ l" using assms(1) b u by (simp add: unat_word_ariths(1) unat_wide)
  moreover from this have "unat (ucast e + 2 ^ l - 1 :: u64) = unat e + 2 ^ l - 1"
    by (subst unat_sub) (simp_all add: word_le_nat_alt trans_le_add2)
  ultimately have "unat (DIV_ROUND_UP (ucast e) (push_bit l 1) :: u64) = (unat e + 2 ^ l - 1) div 2 ^ l"
    using u by (simp add: DIV_ROUND_UP_def p unat_div_distrib)
  then show ?thesis by (auto simp: row_extent_def extent_at_def max_def word_le_nat_alt)
qed

lemma pitch_at_le:
  assumes "w \<le> 16384" "element \<le> 16"
  shows "pitch_at w element l \<le> 2 ^ 19"
proof -
  have "extent_at w l * element \<le> 16384 * 16" using extent_at_le [OF assms(1)] assms(2) by (rule mult_le_mono)
  moreover have "pitch_at w element l \<le> extent_at w l * element + 255" by (simp add: pitch_at_def div_times_less_eq_dividend)
  ultimately show ?thesis by simp
qed

lemma row_fits_pitch: "extent_at w l * element \<le> pitch_at w element l"
proof -
  have "n \<le> (n + 255) div 256 * 256" for n :: nat
    using div_mult_mod_eq [of "n + 255" 256] mod_less_divisor [of 256 "n + 255"] by linarith
  then show ?thesis unfolding pitch_at_def .
qed

lemma unat_row_pitch:
  assumes "mesa_ok ms" "unat e \<le> 16384" "l < 16" "unat b \<le> 16"
  shows "unat (ms_align64 ms (row_extent e l * ucast (b :: u32)) PS5VK_ROW_ALIGNMENT) = pitch_at (unat e) (unat b) l"
proof -
  have le: "extent_at (unat e) l * unat b \<le> 16384 * 16" using extent_at_le [OF assms(2)] assms(4) by (rule mult_le_mono)
  have m: "unat (row_extent e l * ucast b) = extent_at (unat e) l * unat b"
    using le by (simp add: unat_word_ariths(2) unat_row_extent [OF assms(2,3)] unat_wide)
  have "unat (ms_align64 ms v (2 ^ 8)) = (unat v + 2 ^ 8 - 1) div 2 ^ 8 * 2 ^ 8" if "unat v < 2 ^ 63" for v
  proof -
    have "8 < (63 :: nat) \<longrightarrow> unat v < 2 ^ 63 \<longrightarrow> unat (ms_align64 ms v (2 ^ 8)) = (unat v + 2 ^ 8 - 1) div 2 ^ 8 * 2 ^ 8"
      using assms(1) unfolding mesa_ok_def by blast
    then show ?thesis using that by simp
  qed
  from this [of "row_extent e l * ucast b"] show ?thesis using le m by (simp add: PS5VK_ROW_ALIGNMENT_def pitch_at_def)
qed

lemma unat_row_level_bytes:
  assumes "mesa_ok ms" "unat (ii_width info) \<le> 16384" "unat (ii_height info) \<le> 16384" "unat (ms_blocksize ms (ii_format info)) \<le> 16" "l < 16"
  defines "bytes \<equiv> bytes_at (unat (ii_width info)) (unat (ii_height info)) (unat (ms_blocksize ms (ii_format info))) l"
  shows "unat (row_level_bytes ms info l) = bytes" and "bytes \<le> 2 ^ 33"
proof -
  have "bytes \<le> 2 ^ 19 * 16384" unfolding bytes_def bytes_at_def
    using pitch_at_le [OF assms(2,4)] extent_at_le [OF assms(3)] by (rule mult_le_mono)
  then show le: "bytes \<le> 2 ^ 33" by simp
  show "unat (row_level_bytes ms info l) = bytes"
    using le unfolding row_level_bytes_def unat_word_ariths(2) unat_row_pitch [OF assms(1,2,5,4)] unat_row_extent [OF assms(3,5)] bytes_def bytes_at_def
    by simp
qed

text \<open>A sum kept in 64 bits that never wraps is the sum.\<close>

lemma unat_fold_sum:
  assumes "unat a + sum_list (map (\<lambda>i. unat (f i)) is) < 2 ^ 64"
  shows "unat (fold (\<lambda>i a. a + f i) is a :: u64) = unat a + sum_list (map (\<lambda>i. unat (f i)) is)"
  using assms
proof (induction "is" arbitrary: a)
  case (Cons i "is")
  have "unat (a + f i) = unat a + unat (f i)" using Cons.prems by (simp add: unat_word_ariths(1))
  then show ?case using Cons.IH [of "a + f i"] Cons.prems by (simp add: add.assoc)
qed simp

text \<open>Where a level starts: after the smaller ones.\<close>

definition start_at :: "nat \<Rightarrow> nat \<Rightarrow> nat \<Rightarrow> nat \<Rightarrow> nat \<Rightarrow> nat" where
  "start_at width height element levels l = sum_list (map (bytes_at width height element) [l + 1..<levels])"

lemma start_at_step:
  "l < n \<Longrightarrow> sum_list (map (bytes_at w h b) [l..<n]) = bytes_at w h b l + start_at w h b n l"
  by (simp add: start_at_def upt_conv_Cons)

lemma start_at_below:
  assumes "l < l'" "l' < n"
  shows "start_at w h b n l' + bytes_at w h b l' \<le> start_at w h b n l"
proof -
  have "[l + 1..<n] = [l + 1..<l'] @ [l'..<n]" using upt_add_eq_append [of "l + 1" l' "n - l'"] assms by simp
  then show ?thesis using start_at_step [OF assms(2), of w h b] by (simp add: start_at_def)
qed

lemma start_at_within:
  assumes "l < n"
  shows "start_at w h b n l + bytes_at w h b l \<le> sum_list (map (bytes_at w h b) [0..<n])"
proof -
  have "[0..<n] = [0..<l] @ [l..<n]" using upt_add_eq_append [of 0 l "n - l"] assms by simp
  then show ?thesis using start_at_step [OF assms, of w h b] by simp
qed

lemma unat_level_sum:
  assumes "mesa_ok ms" "unat (ii_width info) \<le> 16384" "unat (ii_height info) \<le> 16384" "unat (ms_blocksize ms (ii_format info)) \<le> 16" "n \<le> 13"
  defines "bytes \<equiv> bytes_at (unat (ii_width info)) (unat (ii_height info)) (unat (ms_blocksize ms (ii_format info)))"
  shows "unat (fold (\<lambda>l at. at + row_level_bytes ms info l) [m..<n] 0) = sum_list (map bytes [m..<n])"
    and "sum_list (map bytes [m..<n]) \<le> 2 ^ 37"
proof -
  note row = unat_row_level_bytes [OF assms(1-4)]
  have eq: "map (\<lambda>i. unat (row_level_bytes ms info i)) [m..<n] = map bytes [m..<n]"
    using row(1) assms(5) by (auto simp: bytes_def)
  have "sum_list (map bytes [m..<n]) \<le> sum_list (map (\<lambda>_. 2 ^ 33) [m..<n])"
    using row(2) assms(5) by (intro sum_list_mono) (auto simp: bytes_def)
  also have "\<dots> = (n - m) * 2 ^ 33" by (simp add: sum_list_triv)
  also have "\<dots> \<le> 13 * 2 ^ 33" using assms(5) by (intro mult_le_mono1) simp
  finally show le: "sum_list (map bytes [m..<n]) \<le> 2 ^ 37" by simp
  then show "unat (fold (\<lambda>l at. at + row_level_bytes ms info l) [m..<n] 0) = sum_list (map bytes [m..<n])"
    using unat_fold_sum [of 0 "row_level_bytes ms info" "[m..<n]"] unfolding eq by simp
qed

section \<open>Texels of an image in rows\<close>

definition place_at :: "nat \<Rightarrow> nat \<Rightarrow> nat \<Rightarrow> nat \<Rightarrow> nat \<Rightarrow> nat \<Rightarrow> nat \<Rightarrow> nat" where
  "place_at width height element levels l x y =
     start_at width height element levels l + y * pitch_at width element l + x * element"

lemma row_within_pitch:
  assumes "x < extent_at w l"
  shows "x * b + b \<le> pitch_at w b l"
proof -
  have "(x + 1) * b \<le> extent_at w l * b" using assms by (intro mult_le_mono1) simp
  then show ?thesis using row_fits_pitch [of w l b] by simp
qed

lemma product_step: "v < v' \<Longrightarrow> v * k + k \<le> v' * (k :: nat)"
  using mult_le_mono1 [of "v + 1" v' k] by simp

lemma place_at_within:
  assumes "x < extent_at w l" "y < extent_at h l"
  shows "place_at w h b n l x y + b \<le> start_at w h b n l + bytes_at w h b l"
  using row_within_pitch [OF assms(1), of b] product_step [OF assms(2), of "pitch_at w b l"]
  by (simp add: place_at_def bytes_at_def mult.commute)

lemma places_apart:
  assumes "l < n" "x < extent_at w l" "y < extent_at h l" "l' < n" "x' < extent_at w l'" "y' < extent_at h l'" "(l, x, y) \<noteq> (l', x', y')"
  shows "place_at w h b n l x y + b \<le> place_at w h b n l' x' y' \<or> place_at w h b n l' x' y' + b \<le> place_at w h b n l x y"
proof (cases l l' rule: linorder_cases)
  case less
  then show ?thesis using start_at_below [OF less assms(4), of w h b] place_at_within [OF assms(5,6), of b n]
    by (simp add: place_at_def)
next
  case greater
  then show ?thesis using start_at_below [OF greater assms(1), of w h b] place_at_within [OF assms(2,3), of b n]
    by (simp add: place_at_def)
next
  case equal
  then have "y < y' \<or> y' < y \<or> y = y' \<and> (x < x' \<or> x' < x)" using assms(7) by auto
  then show ?thesis
    using product_step [of y y' "pitch_at w b l"] product_step [of y' y "pitch_at w b l"] product_step [of x x' b] product_step [of x' x b]
      row_within_pitch [OF assms(2), of b] row_within_pitch [OF assms(5), of b] equal
    by (auto simp: place_at_def)
qed

lemma row_level_side:
  assumes "mesa_ok ms" "im_storage img = PS5VK_IMAGE_STORAGE_ROWS" "ii_samples (im_vk img) = 1"
    and "\<not> ms_has_depth ms (ii_format (im_vk img))" "\<not> ms_has_stencil ms (ii_format (im_vk img))"
    and "ii_width (im_vk img) \<le> PS5VK_MAX_EXTENT_2D" "ii_height (im_vk img) \<le> PS5VK_MAX_EXTENT_2D" "ii_mip_levels (im_vk img) \<le> PS5VK_MAX_MIP_LEVELS"
    and "ms_blocksize ms (ii_format (im_vk img)) = b" "b \<noteq> 0" "unat b \<le> 16" "l < ii_mip_levels (im_vk img)"
  obtains side where "ps5vk_image_copy_side ms img (level_of l) = Some (b, side)"
    and "\<And>x y s. unat x < extent_at (unat (ii_width (im_vk img))) (unat l) \<Longrightarrow> unat y < extent_at (unat (ii_height (im_vk img))) (unat l) \<Longrightarrow>
      \<exists>at. ps5vk_image_copy_address side x y b s = im_address img + at \<and>
        unat at = place_at (unat (ii_width (im_vk img))) (unat (ii_height (im_vk img))) (unat b) (unat (ii_mip_levels (im_vk img))) (unat l) (unat x) (unat y)"
proof -
  let ?i = "im_vk img" and ?l = "unat l"
  let ?W = "unat (ii_width ?i)" and ?H = "unat (ii_height ?i)" and ?n = "unat (ii_mip_levels ?i)"
  have n: "?W \<le> 16384" "?H \<le> 16384" "?n \<le> 13" "?l < ?n"
    using assms(6-8,12) by (simp_all add: PS5VK_MAX_EXTENT_2D_def PS5VK_MAX_MIP_LEVELS_def word_le_nat_alt word_less_nat_alt)
  have l16: "?l < 16" using n(3,4) by simp
  obtain at pitch width height where layout: "ps5vk_image_level_layout ms img ?l = (at, pitch, width, height)" by (metis prod.exhaust)
  have at: "unat at = start_at ?W ?H (unat b) ?n ?l" and small: "unat at \<le> 2 ^ 37"
    using unat_level_sum [OF assms(1) n(1,2), of ?n "?l + 1"] assms(9,11) n(3) layout
    by (auto simp: ps5vk_image_level_layout_def Let_def start_at_def)
  have pitch: "unat pitch = pitch_at ?W (unat b) ?l"
    using unat_row_pitch [OF assms(1) n(1) l16 assms(11)] layout assms(9) by (auto simp: ps5vk_image_level_layout_def Let_def)
  let ?side = "zero_side\<lparr>cs_address := im_address img + at, cs_row_pitch := pitch, cs_level_width := width, cs_element_bytes := b, cs_samples := 1, cs_depth := False\<rparr>"
  show ?thesis
  proof (rule that [of ?side])
    show "ps5vk_image_copy_side ms img (level_of l) = Some (b, ?side)"
      using assms(2-5,9,10) layout by (simp add: ps5vk_image_copy_side_def ps5vk_image_plane_def level_of_def Let_def)
  next
    fix x y s :: u32
    assume x: "unat x < extent_at ?W ?l" and y: "unat y < extent_at ?H ?l"
    then have "unat x < 16384" "unat y < 16384" using extent_at_le [OF n(1)] extent_at_le [OF n(2)] by (meson less_le_trans)+
    then have sc: "scast x = (ucast x :: u64)" "scast y = (ucast y :: u64)" by (auto intro: scast_nonneg)
    have m: "unat y * pitch_at ?W (unat b) ?l \<le> 16384 * 2 ^ 19" "unat x * unat b \<le> 16384 * 16"
      using \<open>unat x < 16384\<close> \<open>unat y < 16384\<close> pitch_at_le [OF n(1) assms(11)] assms(11) by (intro mult_le_mono; simp)+
    have u: "unat (scast y * pitch) = unat y * pitch_at ?W (unat b) ?l" "unat (scast x * ucast b :: u64) = unat x * unat b"
      using m by (simp_all add: sc unat_word_ariths(2) unat_wide pitch)
    have s1: "unat (at + scast y * pitch) = unat at + unat y * pitch_at ?W (unat b) ?l"
      using m u small by (subst unat_word_ariths(1)) simp
    have "unat (at + scast y * pitch + scast x * ucast b) = unat at + unat y * pitch_at ?W (unat b) ?l + unat x * unat b"
      using m u small s1 by (subst unat_word_ariths(1)) simp
    then show "\<exists>at'. ps5vk_image_copy_address ?side x y b s = im_address img + at' \<and>
        unat at' = place_at ?W ?H (unat b) ?n ?l (unat x) (unat y)"
      by (intro exI [of _ "at + scast y * pitch + scast x * ucast b"]) (simp add: place_at_def ps5vk_image_copy_address_def zero_side_def at add.assoc)
  qed
qed

lemma bound_image:
  assumes "ps5vk_BindImageMemory2 img0 memory_address memory_size offset = Inr img"
  shows "im_vk img = im_vk img0" "im_storage img = im_storage img0" "im_size img = im_size img0"
    and "unat (im_address img) + unat (im_size img) \<le> 2 ^ 47"
proof -
  have s: "im_vk img = im_vk img0" "im_storage img = im_storage img0" "im_size img = im_size img0"
    and v: "ps5vk_gpu_range_valid (im_address img) (im_size img)"
    using assms by (auto simp: ps5vk_BindImageMemory2_def Let_def split: if_splits)
  then show "im_vk img = im_vk img0" "im_storage img = im_storage img0" "im_size img = im_size img0" by simp_all
  have l: "unat PS5VK_GPU_ADDRESS_LIMIT = 2 ^ 47" by (simp add: PS5VK_GPU_ADDRESS_LIMIT_def)
  from v have "im_address img < PS5VK_GPU_ADDRESS_LIMIT" "im_size img \<le> PS5VK_GPU_ADDRESS_LIMIT - im_address img"
    by (auto simp: ps5vk_gpu_range_valid_def)
  then show "unat (im_address img) + unat (im_size img) \<le> 2 ^ 47"
    using l by (simp add: word_le_nat_alt word_less_nat_alt unat_sub)
qed

lemma row_storage_size:
  assumes "ps5vk_CreateImage ms tile_padded made info = Inr img" "im_storage img = PS5VK_IMAGE_STORAGE_ROWS" "mesa_ok ms"
    and "ii_samples info = 1" "1 \<le> ii_array_layers info" "unat (ms_blocksize ms (ii_format info)) \<le> 16"
  shows "sum_list (map (bytes_at (unat (ii_width info)) (unat (ii_height info)) (unat (ms_blocksize ms (ii_format info)))) [0..<unat (ii_mip_levels info)])
    \<le> unat (im_size img)"
proof -
  note made = created_image [OF assms(1)]
  have n: "unat (ii_width info) \<le> 16384" "unat (ii_height info) \<le> 16384" "unat (ii_mip_levels info) \<le> 13" "unat (ii_array_layers info) \<le> 256"
    "1 \<le> unat (ii_array_layers info)"
    using made(3-6) assms(5) by (simp_all add: PS5VK_MAX_EXTENT_2D_def PS5VK_MAX_MIP_LEVELS_def PS5VK_MAX_ARRAY_LAYERS_def word_le_nat_alt)
  note total = unat_level_sum [OF assms(3) n(1,2) assms(6) n(3), of 0]
  let ?t = "fold (\<lambda>l bytes. bytes + row_level_bytes ms info l) [0..<unat (ii_mip_levels info)] (0 :: u64)"
  have s: "im_size img = ?t * ucast (ii_array_layers info)"
    using made(2) assms(2,4) by (auto simp: ps5vk_image_storage_def Let_def split: if_splits prod.splits)
  have "unat ?t * unat (ii_array_layers info) \<le> 2 ^ 37 * 256" using total n(4) by (intro mult_le_mono) simp_all
  then have "unat (im_size img) = unat ?t * unat (ii_array_layers info)" unfolding s unat_word_ariths(2) unat_wide by simp
  then show ?thesis using total(1) n(5) by simp
qed

text \<open>C24. Every level of a one-sample colour image that \<open>vkCreateImage\<close> stored in rows and \<open>vkBindImageMemory2\<close> bound is found by the copies
  (\<open>ps5vk_image_copy_side\<close>, \<open>ps5vk_image_copy_address\<close>), each of its texels lies whole inside the image's storage, and two
  different texels, of one level or of two, never share a byte.
\<close>

theorem row_texels_apart:
  assumes "ps5vk_CreateImage ms tile_padded made info = Inr img0" "ps5vk_BindImageMemory2 img0 memory_address memory_size offset = Inr img"
    and "im_storage img = PS5VK_IMAGE_STORAGE_ROWS" "mesa_ok ms"
    and "\<not> ms_has_depth ms (ii_format info)" "\<not> ms_has_stencil ms (ii_format info)"
    and "ms_blocksize ms (ii_format info) = b" "b \<noteq> 0" "b \<le> 16" "ii_samples info = 1" "1 \<le> ii_array_layers info"
    and "l < ii_mip_levels info" "unat x < extent_at (unat (ii_width info)) (unat l)" "unat y < extent_at (unat (ii_height info)) (unat l)"
    and "l' < ii_mip_levels info" "unat x' < extent_at (unat (ii_width info)) (unat l')" "unat y' < extent_at (unat (ii_height info)) (unat l')"
    and "(l, x, y) \<noteq> (l', x', y')"
  shows "\<exists>side side'. ps5vk_image_copy_side ms img (level_of l) = Some (b, side) \<and> ps5vk_image_copy_side ms img (level_of l') = Some (b, side') \<and>
     (let p = unat (ps5vk_image_copy_address side x y b 0); p' = unat (ps5vk_image_copy_address side' x' y' b 0)
      in unat (im_address img) \<le> p \<and> p + unat b \<le> unat (im_address img) + unat (im_size img) \<and> (p + unat b \<le> p' \<or> p' + unat b \<le> p))"
proof -
  note made = created_image [OF assms(1)] and bound = bound_image [OF assms(2)]
  have vk: "im_vk img = info" using made(1) bound(1) by simp
  have b16: "unat b \<le> 16" using assms(9) by (simp add: word_le_nat_alt)
  let ?W = "unat (ii_width info)" and ?H = "unat (ii_height info)" and ?n = "unat (ii_mip_levels info)" and ?b = "unat b"
  note side = row_level_side [where img = img and b = b, unfolded vk, OF assms(4,3,10,5,6) made(3-5) assms(7,8) b16]
  obtain side where s: "ps5vk_image_copy_side ms img (level_of l) = Some (b, side)"
    and at: "\<And>x y s. unat x < extent_at ?W (unat l) \<Longrightarrow> unat y < extent_at ?H (unat l) \<Longrightarrow>
      \<exists>at. ps5vk_image_copy_address side x y b s = im_address img + at \<and> unat at = place_at ?W ?H ?b ?n (unat l) (unat x) (unat y)"
    by (rule side [OF assms(12)]) (rule that)
  obtain side' where s': "ps5vk_image_copy_side ms img (level_of l') = Some (b, side')"
    and at': "\<And>x y s. unat x < extent_at ?W (unat l') \<Longrightarrow> unat y < extent_at ?H (unat l') \<Longrightarrow>
      \<exists>at. ps5vk_image_copy_address side' x y b s = im_address img + at \<and> unat at = place_at ?W ?H ?b ?n (unat l') (unat x) (unat y)"
    by (rule side [OF assms(15)]) (rule that)
  obtain p where p: "ps5vk_image_copy_address side x y b 0 = im_address img + p" "unat p = place_at ?W ?H ?b ?n (unat l) (unat x) (unat y)"
    using at [OF assms(13,14)] by blast
  obtain p' where p': "ps5vk_image_copy_address side' x' y' b 0 = im_address img + p'" "unat p' = place_at ?W ?H ?b ?n (unat l') (unat x') (unat y')"
    using at' [OF assms(16,17)] by blast
  have n: "unat l < ?n" "unat l' < ?n" using assms(12,15) by (simp_all add: word_less_nat_alt)
  note total = row_storage_size [OF assms(1) assms(3) [unfolded bound(2)] assms(4,10,11), unfolded assms(7), OF b16]
  have inside: "unat p + ?b \<le> unat (im_size img)" "unat p' + ?b \<le> unat (im_size img)"
    using place_at_within [OF assms(13,14), of ?b ?n] start_at_within [OF n(1), of ?W ?H ?b]
      place_at_within [OF assms(16,17), of ?b ?n] start_at_within [OF n(2), of ?W ?H ?b] total
    unfolding p(2) p'(2) bound(3) by linarith+
  have ne: "(unat l, unat x, unat y) \<noteq> (unat l', unat x', unat y')" using assms(18) by (auto simp: word_unat_eq_iff)
  have "unat (im_address img + v) = unat (im_address img) + unat v" if "unat v + ?b \<le> unat (im_size img)" for v
    using that bound(4) by (subst unat_word_ariths(1)) simp
  then show ?thesis
    using s s' p(1) p'(1) inside places_apart [OF n(1) assms(13,14) n(2) assms(16,17) ne, of ?b] p(2) p'(2) by (auto simp: Let_def)
qed

text \<open>A 100 by 60 texture of three levels, bound at the start of its memory; texels of its first and of its last level.\<close>

definition sample_texture :: image_info where
  "sample_texture = \<lparr>ii_format = VK_FORMAT_R8G8B8A8_UNORM, ii_type = VK_IMAGE_TYPE_2D, ii_tiling = VK_IMAGE_TILING_OPTIMAL,
     ii_usage = [VK_IMAGE_USAGE_SAMPLED_BIT, VK_IMAGE_USAGE_TRANSFER_DST_BIT], ii_flags = [], ii_width = 100, ii_height = 60,
     ii_mip_levels = 3, ii_array_layers = 1, ii_samples = 1\<rparr>"

definition sample_rows :: "u64 \<Rightarrow> ps5vk_image" where
  "sample_rows address = \<lparr>im_vk = sample_texture, im_storage = PS5VK_IMAGE_STORAGE_ROWS, im_size = 42240, im_alignment = 256,
     im_stencil_offset = 0, im_address = address, im_video = - 1\<rparr>"

lemma sample_rows_made:
  "ps5vk_CreateImage sample_mesa False True sample_texture = Inr (sample_rows 0)"
  "ps5vk_BindImageMemory2 (sample_rows 0) 0x10000 0x100000 0 = Inr (sample_rows 0x10000)"
  by code_simp+

theorem row_texels_apart_witness:
  "\<exists>side side'. ps5vk_image_copy_side sample_mesa (sample_rows 0x10000) (level_of 0) = Some (4, side) \<and>
     ps5vk_image_copy_side sample_mesa (sample_rows 0x10000) (level_of 2) = Some (4, side') \<and>
     (let p = unat (ps5vk_image_copy_address side 99 59 4 0); p' = unat (ps5vk_image_copy_address side' 24 14 4 0)
      in unat (im_address (sample_rows 0x10000)) \<le> p \<and>
         p + unat (4 :: u32) \<le> unat (im_address (sample_rows 0x10000)) + unat (im_size (sample_rows 0x10000)) \<and>
         (p + unat (4 :: u32) \<le> p' \<or> p' + unat (4 :: u32) \<le> p))"
  by (rule row_texels_apart [OF sample_rows_made]) (simp_all add: sample_mesa_ok, simp_all add: sample_rows_def sample_mesa_def sample_texture_def extent_at_def)

definition sample_limits :: image_format_properties where
  "sample_limits = \<lparr>ifp_max_extent = (16384, 16384, 1), ifp_max_mip_levels = 13, ifp_max_array_layers = 256,
     ifp_sample_counts = [1, 2, 4, 8], ifp_max_resource_size = 0x100000000\<rparr>"

lemma sample_limits_answer:
  "ps5vk_GetPhysicalDeviceImageFormatProperties2 (ms_has_stencil sample_mesa) (ii_format sample_texture) (ii_type sample_texture)
     (ii_tiling sample_texture) (ii_usage sample_texture) (ii_flags sample_texture) None = Some sample_limits"
  by code_simp

theorem queried_image_created_witness:
  "ps5vk_CreateImage sample_mesa False True sample_texture = Inr (sample_rows 0) \<and>
   im_vk (sample_rows 0) = sample_texture \<and> im_size (sample_rows 0) \<le> ifp_max_resource_size sample_limits"
  using queried_image_created [OF sample_limits_answer, of False True]
  unfolding sample_rows_made by (simp add: sample_limits_def sample_texture_def)

end
