(* ===== verification/Vk_Region.thy ===== *)
theory Vk_Region
  imports Vk_Image
begin

text \<open>
  The device memory region, \<open>driver/ps5vk_direct_memory.c\<close>: 2 MiB granules, a bit each in an array of 64-bit words,
  taken first fit and given back.
\<close>

section \<open>The bitmap\<close>

definition granule_used :: "u64 list \<Rightarrow> nat \<Rightarrow> bool" where
  "granule_used used granule \<longleftrightarrow> used ! (granule div 64) AND push_bit (granule mod 64) 1 \<noteq> 0"

definition mark_granule :: "bool \<Rightarrow> nat \<Rightarrow> u64 list \<Rightarrow> u64 list" where
  "mark_granule mark granule used =
     (let word = used ! (granule div 64); flag = push_bit (granule mod 64) 1
      in used[granule div 64 := (if mark then word OR flag else word AND NOT flag)])"

definition ps5vk_region_mark :: "nat \<Rightarrow> nat \<Rightarrow> bool \<Rightarrow> u64 list \<Rightarrow> u64 list" where
  "ps5vk_region_mark first count mark used = fold (mark_granule mark) [first..<first + count] used"

text \<open>The scan: a whole word in use is passed over at once, a granule in use ends the run of free ones.\<close>

function region_scan :: "u64 list \<Rightarrow> nat \<Rightarrow> nat \<Rightarrow> nat \<Rightarrow> nat option" where
  "region_scan used count granule run =
     (if 64 * length used \<le> granule then None
      else if granule mod 64 = 0 \<and> used ! (granule div 64) = UINT64_MAX then region_scan used count (granule + 64) 0
      else if granule_used used granule then region_scan used count (granule + 1) 0
      else if run + 1 = count then Some (granule + 1 - count)
      else region_scan used count (granule + 1) (run + 1))"
  by pat_completeness auto
termination
  by (relation "measure (\<lambda>(used, count, granule, run). 64 * length used - granule)") auto

declare region_scan.simps [simp del]

text \<open>The first of \<open>count\<close> free granules in a row, and the array with them taken; \<open>None\<close> is \<open>UINT32_MAX\<close>.\<close>

definition ps5vk_region_take :: "nat \<Rightarrow> u64 list \<Rightarrow> (nat \<times> u64 list) option" where
  "ps5vk_region_take count used =
     (if count = 0 \<or> 64 * length used < count then None
      else map_option (\<lambda>first. (first, ps5vk_region_mark first count True used)) (region_scan used count 0 0))"

definition ps5vk_region_give :: "nat \<Rightarrow> nat \<Rightarrow> u64 list \<Rightarrow> u64 list" where
  "ps5vk_region_give first count used = (if count = 0 then used else ps5vk_region_mark first count False used)"

section \<open>Allocators of granules\<close>

text \<open>The runs a client holds: no two of them overlapping.\<close>

definition runs_of :: "(nat \<times> nat) list \<Rightarrow> nat set" where
  "runs_of held = (\<Union>(first, count) \<in> set held. {first..<first + count})"

fun runs_apart :: "(nat \<times> nat) list \<Rightarrow> bool" where
  "runs_apart [] = True"
| "runs_apart ((first, count) # held) \<longleftrightarrow> {first..<first + count} \<inter> runs_of held = {} \<and> runs_apart held"

lemma runs_of_simps [simp]:
  "runs_of [] = {}" "runs_of ((first, count) # held) = {first..<first + count} \<union> runs_of held"
  "runs_of (xs @ ys) = runs_of xs \<union> runs_of ys"
  by (simp_all add: runs_of_def)

lemma runs_apart_remove:
  assumes "runs_apart (xs @ (first, count) # ys)"
  shows "runs_apart (xs @ ys)" "{first..<first + count} \<inter> runs_of (xs @ ys) = {}"
proof -
  have "runs_apart (xs @ ys) \<and> {first..<first + count} \<inter> runs_of (xs @ ys) = {}"
    using assms
  proof (induction xs)
    case (Cons x xs)
    obtain f n where x: "x = (f, n)" by (cases x)
    then show ?case using Cons by (simp add: Int_Un_distrib Int_Un_distrib2) blast
  qed simp
  then show "runs_apart (xs @ ys)" "{first..<first + count} \<inter> runs_of (xs @ ys) = {}" by blast+
qed

text \<open>
  What the region promises its client: a take returns the lowest run of free granules and takes exactly those, fails
  only when there is none, and a give frees exactly what it is told to.
\<close>

locale granule_pool =
  fixes taken :: "'s \<Rightarrow> nat set" and limit :: "'s \<Rightarrow> nat"
    and take_run :: "nat \<Rightarrow> 's \<Rightarrow> (nat \<times> 's) option" and give_run :: "nat \<Rightarrow> nat \<Rightarrow> 's \<Rightarrow> 's"
  assumes take_free: "take_run count s = Some (first, s') \<Longrightarrow> 0 < count \<and> first + count \<le> limit s \<and> {first..<first + count} \<inter> taken s = {}"
    and take_least: "take_run count s = Some (first, s') \<Longrightarrow> q < first \<Longrightarrow> {q..<q + count} \<inter> taken s \<noteq> {}"
    and take_takes: "take_run count s = Some (first, s') \<Longrightarrow> taken s' = taken s \<union> {first..<first + count} \<and> limit s' = limit s"
    and take_none: "take_run count s = None \<Longrightarrow> 0 < count \<Longrightarrow> q + count \<le> limit s \<Longrightarrow> {q..<q + count} \<inter> taken s \<noteq> {}"
    and give_gives: "first + count \<le> limit s \<Longrightarrow> taken (give_run first count s) = taken s - {first..<first + count} \<and> limit (give_run first count s) = limit s"
begin

definition holds :: "(nat \<times> nat) list \<Rightarrow> 's \<Rightarrow> bool" where
  "holds held s \<longleftrightarrow> taken s = runs_of held \<and> runs_apart held \<and> (\<forall>(first, count) \<in> set held. first + count \<le> limit s)"

lemma holds_take:
  assumes "holds held s" "take_run count s = Some (first, s')"
  shows "holds ((first, count) # held) s'"
  using assms(1) take_free [OF assms(2)] take_takes [OF assms(2)] unfolding holds_def by (auto simp: Un_commute)

lemma holds_give:
  assumes "holds (xs @ (first, count) # ys) s"
  shows "holds (xs @ ys) (give_run first count s)"
proof -
  have "taken s = {first..<first + count} \<union> runs_of (xs @ ys)" using assms by (auto simp: holds_def)
  then have "taken (give_run first count s) = runs_of (xs @ ys)" "limit (give_run first count s) = limit s"
    using give_gives [of first count s] runs_apart_remove(2) [of xs first count ys] assms by (auto simp: holds_def)
  then show ?thesis using assms runs_apart_remove(1) [of xs first count ys] by (auto simp: holds_def)
qed

lemma take_give: 
  assumes "take_run count s = Some (first, s')"
  shows "taken (give_run first count s') = taken s"
  using give_gives [of first count s'] take_takes [OF assms] take_free [OF assms] by auto

end

section \<open>The bitmap is such an allocator\<close>

definition region_taken :: "u64 list \<Rightarrow> nat set" where
  "region_taken used = {granule. granule < 64 * length used \<and> granule_used used granule}"

lemma granule_used_bit: "granule_used used granule \<longleftrightarrow> bit (used ! (granule div 64)) (granule mod 64)"
proof -
  have "(w AND push_bit n 1 = 0) = (\<not> bit w n)" if "n < 64" for w :: u64 and n
  proof
    assume "w AND push_bit n 1 = 0"
    then have "\<not> bit (w AND push_bit n 1) n" by simp
    then show "\<not> bit w n" using that by (simp add: bit_simps)
  qed (auto intro!: bit_word_eqI simp: bit_simps)
  then show ?thesis by (simp add: granule_used_def)
qed

lemma granule_split: "g < 64 * n \<longleftrightarrow> g div 64 < (n :: nat)"
  by (simp add: div_less_iff_less_mult mult.commute)

lemma mark_granule_used:
  assumes "g < 64 * length used"
  shows "granule_used (mark_granule mark g used) h = (if h = g then mark else granule_used used h)" and "length (mark_granule mark g used) = length used"
proof -
  show "length (mark_granule mark g used) = length used" by (simp add: mark_granule_def Let_def)
  have g: "g div 64 < length used" using assms granule_split by simp
  show "granule_used (mark_granule mark g used) h = (if h = g then mark else granule_used used h)"
  proof (cases "h div 64 = g div 64")
    case True
    then have "h mod 64 = g mod 64 \<longleftrightarrow> h = g" by (metis div_mult_mod_eq)
    then show ?thesis using True g unfolding granule_used_bit mark_granule_def Let_def by (auto simp: bit_simps)
  next
    case False
    then show ?thesis by (auto simp: granule_used_bit mark_granule_def Let_def)
  qed
qed

lemma region_mark_used:
  assumes "first + count \<le> 64 * length used"
  shows "granule_used (ps5vk_region_mark first count mark used) h = (if first \<le> h \<and> h < first + count then mark else granule_used used h)"
    and "length (ps5vk_region_mark first count mark used) = length used"
proof -
  have "granule_used (fold (mark_granule mark) gs used) h = (if h \<in> set gs then mark else granule_used used h) \<and>
      length (fold (mark_granule mark) gs used) = length used" if "\<forall>g \<in> set gs. g < 64 * length used" for gs
    using that
  proof (induction gs arbitrary: used)
    case (Cons g gs)
    then show ?case using Cons.IH [of "mark_granule mark g used"] mark_granule_used(1) [of g used mark h] mark_granule_used(2) [of g used mark] by auto
  qed simp
  from this [of "[first..<first + count]"] assms
  show "granule_used (ps5vk_region_mark first count mark used) h = (if first \<le> h \<and> h < first + count then mark else granule_used used h)"
    "length (ps5vk_region_mark first count mark used) = length used"
    by (auto simp: ps5vk_region_mark_def)
qed

lemma region_mark_taken:
  assumes "first + count \<le> 64 * length used"
  shows "region_taken (ps5vk_region_mark first count mark used) =
    (if mark then region_taken used \<union> {first..<first + count} else region_taken used - {first..<first + count})"
  using assms by (auto simp: region_taken_def region_mark_used)

text \<open>The state of the scan: a run of free granules ends at the one it looks at, and no place below that run has room.\<close>

definition scan_inv :: "u64 list \<Rightarrow> nat \<Rightarrow> nat \<Rightarrow> nat \<Rightarrow> bool" where
  "scan_inv used count granule run \<longleftrightarrow> run \<le> granule \<and> run < count \<and>
     (\<forall>g. granule - run \<le> g \<and> g < granule \<longrightarrow> \<not> granule_used used g) \<and>
     (\<forall>q < granule - run. \<exists>g. q \<le> g \<and> g < q + count \<and> g < granule \<and> granule_used used g)"

lemma full_word:
  assumes "granule mod 64 = 0" "used ! (granule div 64) = UINT64_MAX" "granule \<le> g" "g < granule + 64"
  shows "granule_used used g"
proof -
  have "g div 64 = granule div 64"
    using assms(1,3,4) by (metis add.commute div_mult_mod_eq add_0_right div_nat_eqI mult.commute mult_Suc_right)
  then show ?thesis using assms(2) by (simp add: granule_used_bit UINT64_MAX_def bit_simps)
qed

lemma scan_stop:
  assumes "scan_inv used count granule run" "granule < g'" "\<And>g. granule \<le> g \<Longrightarrow> g < g' \<Longrightarrow> granule_used used g"
  shows "scan_inv used count g' 0"
proof -
  have c: "run < count" "run \<le> granule" using assms(1) by (auto simp: scan_inv_def)
  have "\<exists>g. q \<le> g \<and> g < q + count \<and> g < g' \<and> granule_used used g" if "q < g'" for q
  proof (cases "q < granule - run")
    case True
    then show ?thesis using assms(1,2) unfolding scan_inv_def by (meson less_trans)
  next
    case False
    then have "max q granule < q + count" "max q granule < g'" using c assms(2) that by auto
    then show ?thesis using assms(3) [of "max q granule"] by (intro exI [of _ "max q granule"]) auto
  qed
  then show ?thesis using c by (auto simp: scan_inv_def)
qed

lemma scan_more:
  assumes "scan_inv used count granule run" "\<not> granule_used used granule" "run + 1 < count"
  shows "scan_inv used count (granule + 1) (run + 1)"
proof -
  have d: "granule + 1 - (run + 1) = granule - run" by simp
  show ?thesis using assms unfolding scan_inv_def d by (metis Suc_eq_plus1 Suc_le_mono less_SucI less_Suc_eq)
qed

lemma region_scan_first_fit:
  assumes "scan_inv used count granule run"
  shows "case region_scan used count granule run of
      Some first \<Rightarrow> first + count \<le> 64 * length used \<and> (\<forall>g. first \<le> g \<and> g < first + count \<longrightarrow> \<not> granule_used used g) \<and>
        (\<forall>q < first. \<exists>g. q \<le> g \<and> g < q + count \<and> granule_used used g)
    | None \<Rightarrow> \<forall>q. q + count \<le> 64 * length used \<longrightarrow> (\<exists>g. q \<le> g \<and> g < q + count \<and> granule_used used g)"
  using assms
proof (induction used count granule run rule: region_scan.induct)
  case (1 used count granule run)
  note inv = "1.prems"
  consider (stop) "64 * length used \<le> granule"
    | (full) "granule < 64 * length used" "granule mod 64 = 0 \<and> used ! (granule div 64) = UINT64_MAX"
    | (used) "granule < 64 * length used" "\<not> (granule mod 64 = 0 \<and> used ! (granule div 64) = UINT64_MAX)" "granule_used used granule"
    | (found) "granule < 64 * length used" "\<not> (granule mod 64 = 0 \<and> used ! (granule div 64) = UINT64_MAX)" "\<not> granule_used used granule" "run + 1 = count"
    | (more) "granule < 64 * length used" "\<not> (granule mod 64 = 0 \<and> used ! (granule div 64) = UINT64_MAX)" "\<not> granule_used used granule" "run + 1 \<noteq> count"
    by linarith
  then show ?case
  proof cases
    case stop
    have "\<exists>g. q \<le> g \<and> g < q + count \<and> granule_used used g" if "q + count \<le> 64 * length used" for q
    proof -
      have "q < granule - run" using that stop inv by (auto simp: scan_inv_def)
      then show ?thesis using inv unfolding scan_inv_def by blast
    qed
    then show ?thesis using stop by (simp add: region_scan.simps [of used count granule run])
  next
    case full
    have "scan_inv used count (granule + 64) 0"
      by (rule scan_stop [OF inv _ full_word [OF conjunct1 [OF full(2)] conjunct2 [OF full(2)]]]) simp
    then show ?thesis using "1.IH"(1) full by (simp add: region_scan.simps [of used count granule run])
  next
    case used
    have "scan_inv used count (granule + 1) 0" by (rule scan_stop [OF inv]) (use used in \<open>auto simp: less_Suc_eq_le dest: le_antisym\<close>)
    moreover have "region_scan used count granule run = region_scan used count (granule + 1) 0"
      using used by (subst region_scan.simps) auto
    ultimately show ?thesis using "1.IH"(2) used by simp
  next
    case found
    have r: "region_scan used count granule run = Some (granule - run)"
      using found by (simp add: region_scan.simps [of used count granule run]) auto
    have "run \<le> granule" using inv by (simp add: scan_inv_def)
    then have e: "granule - run + count = granule + 1" using found(4) by simp
    have "\<not> granule_used used g" if "granule - run \<le> g" "g < granule + 1" for g
      using that inv found(3) unfolding scan_inv_def by (metis Suc_eq_plus1 less_Suc_eq)
    moreover have "\<exists>g. q \<le> g \<and> g < q + count \<and> granule_used used g" if "q < granule - run" for q
      using that inv unfolding scan_inv_def by blast
    ultimately show ?thesis unfolding r option.case e using found(1) by auto
  next
    case more
    have "run + 1 < count" using inv more(4) by (auto simp: scan_inv_def)
    then have "scan_inv used count (granule + 1) (run + 1)" by (rule scan_more [OF inv more(3)])
    moreover have "region_scan used count granule run = region_scan used count (granule + 1) (run + 1)"
      using more by (subst region_scan.simps) auto
    ultimately show ?thesis using "1.IH"(3) more by simp
  qed
qed

lemma region_take_scan:
  assumes "0 < count"
  shows "case ps5vk_region_take count used of
      Some (first, used') \<Rightarrow> first + count \<le> 64 * length used \<and> {first..<first + count} \<inter> region_taken used = {} \<and>
        (\<forall>q < first. {q..<q + count} \<inter> region_taken used \<noteq> {}) \<and> used' = ps5vk_region_mark first count True used
    | None \<Rightarrow> \<forall>q. q + count \<le> 64 * length used \<longrightarrow> {q..<q + count} \<inter> region_taken used \<noteq> {}"
proof (cases "64 * length used < count")
  case True
  then show ?thesis by (auto simp: ps5vk_region_take_def)
next
  case False
  have "scan_inv used count 0 0" using assms by (simp add: scan_inv_def)
  note scan = region_scan_first_fit [OF this]
  have meets: "{q..<q + count} \<inter> region_taken used \<noteq> {}" if "\<exists>g. q \<le> g \<and> g < q + count \<and> granule_used used g" "q + count \<le> 64 * length used" for q
    using that by (auto simp: region_taken_def)
  show ?thesis
  proof (cases "region_scan used count 0 0")
    case None
    then show ?thesis using scan False assms meets by (simp add: ps5vk_region_take_def)
  next
    case (Some first)
    then have "q + count \<le> 64 * length used" if "q < first" for q using scan that by auto
    then show ?thesis using Some scan False assms meets by (auto simp: ps5vk_region_take_def region_taken_def)
  qed
qed

interpretation region: granule_pool region_taken "\<lambda>used. 64 * length used" ps5vk_region_take ps5vk_region_give
proof
  fix count first q and s s' :: "u64 list"
  assume t: "ps5vk_region_take count s = Some (first, s')"
  then have c: "0 < count" by (auto simp: ps5vk_region_take_def split: if_splits)
  note r = region_take_scan [OF c, of s, unfolded t option.case prod.case]
  show "0 < count \<and> first + count \<le> 64 * length s \<and> {first..<first + count} \<inter> region_taken s = {}" using r c by blast
  show "q < first \<Longrightarrow> {q..<q + count} \<inter> region_taken s \<noteq> {}" using r by blast
  show "region_taken s' = region_taken s \<union> {first..<first + count} \<and> 64 * length s' = 64 * length s"
    using r region_mark_taken [of first count s True] region_mark_used(2) [of first count s True] by simp
next
  fix count q and s :: "u64 list"
  assume "ps5vk_region_take count s = None" "0 < count" "q + count \<le> 64 * length s"
  then show "{q..<q + count} \<inter> region_taken s \<noteq> {}" using region_take_scan [of count s] by simp
next
  fix first count and s :: "u64 list"
  assume "first + count \<le> 64 * length s"
  then show "region_taken (ps5vk_region_give first count s) = region_taken s - {first..<first + count} \<and>
      64 * length (ps5vk_region_give first count s) = 64 * length s"
    using region_mark_taken [of first count s False] region_mark_used(2) [of first count s False] by (auto simp: ps5vk_region_give_def)
qed

text \<open>C28. \<open>ps5vk_region_take\<close> is a first-fit allocator over the granules of the device memory region: it returns the lowest place where the granules asked for are
  all free and takes exactly those, and it fails only when there is no such place; giving them back (\<open>ps5vk_region_give\<close>) restores the granules that were taken before.\<close>

theorem region_take_refines:
  assumes "0 < count"
  shows "case ps5vk_region_take count used of
      Some (first, used') \<Rightarrow>
        first = (LEAST p. p + count \<le> 64 * length used \<and> {p..<p + count} \<inter> region_taken used = {}) \<and>
        first + count \<le> 64 * length used \<and> {first..<first + count} \<inter> region_taken used = {} \<and>
        region_taken used' = region_taken used \<union> {first..<first + count} \<and>
        region_taken (ps5vk_region_give first count used') = region_taken used
    | None \<Rightarrow> \<nexists>p. p + count \<le> 64 * length used \<and> {p..<p + count} \<inter> region_taken used = {}"
proof (cases "ps5vk_region_take count used")
  case None
  then show ?thesis using region.take_none [OF None assms] by auto
next
  case (Some r)
  obtain first used' where r: "r = (first, used')" by (cases r)
  note t = Some [unfolded r]
  have "first = (LEAST p. p + count \<le> 64 * length used \<and> {p..<p + count} \<inter> region_taken used = {})"
    using region.take_free [OF t] region.take_least [OF t] by (intro Least_equality [symmetric]) (auto simp: not_less [symmetric])
  then show ?thesis using Some r region.take_free [OF t] region.take_takes [OF t] region.take_give [OF t] by simp
qed

theorem region_take_refines_witness:
  "ps5vk_region_take 3 [0x3b, 0] = Some (6, [0x1fb, 0]) \<and> region_taken (ps5vk_region_give 6 3 [0x1fb, 0]) = region_taken [0x3b, 0]"
proof -
  have t: "ps5vk_region_take 3 [0x3b, 0] = Some (6, [0x1fb, 0])" by code_simp
  show ?thesis using region_take_refines [of 3 "[0x3b, 0]"] t by simp
qed

end
