(* ===== verification/Vk_Memory.thy ===== *)
theory Vk_Memory
  imports Vk_Region
begin

text \<open>
  GPU-visible direct memory, \<open>driver/ps5vk_direct_memory.c\<close>, and \<open>VkDeviceMemory\<close>, \<open>driver/ps5vk_memory.c\<close>. What the
  kernel answers is a parameter of each call; the kernel calls a function makes are a result of it.
\<close>

datatype direct_kind =
    PS5VK_DIRECT_MEMORY | PS5VK_DIRECT_STAGE | PS5VK_DIRECT_COMPUTE | PS5VK_DIRECT_TABLES
  | PS5VK_DIRECT_QUERY | PS5VK_DIRECT_QUEUE | PS5VK_DIRECT_DISPLAY

record direct_mapping =
  dm_start :: int
  dm_bytes :: u64
  dm_address :: u64
  dm_kind :: direct_kind
  dm_granule :: nat
  dm_granules :: nat

record direct_state =
  ds_live_count :: u64
  ds_live_bytes :: u64
  ds_kind_count :: "direct_kind \<Rightarrow> u64"
  ds_kind_bytes :: "direct_kind \<Rightarrow> u64"
  ds_region :: "u64 list"
  ds_base :: u64
  ds_next :: u64
  ds_outside :: u64

text \<open>
  The answers of one call of \<open>sceKernelAllocateDirectMemory\<close> (a result and the start), of \<open>sceKernelMapDirectMemory\<close> (a result
  and the address, by the address asked for), and of its second call.
\<close>

record kernel_answers =
  ka_allocate :: "int \<times> int"
  ka_map :: "u64 \<Rightarrow> int \<times> u64"
  ka_map_again :: "int \<times> u64"

datatype kernel_call =
    Allocate_direct u64 u64
  | Map_direct u64 u64 int
  | Munmap u64 u64
  | Release_direct int u64

definition PS5VK_DIRECT_PAGE_BYTES :: u64 where "PS5VK_DIRECT_PAGE_BYTES = 0x4000"
definition PS5VK_DEVICE_MEMORY_REGION :: u64 where "PS5VK_DEVICE_MEMORY_REGION = 0x4000000000"
definition PS5VK_DEVICE_MEMORY_GRANULE :: u64 where "PS5VK_DEVICE_MEMORY_GRANULE = 0x200000"
definition PS5VK_REGION_GRANULES :: nat where "PS5VK_REGION_GRANULES = 131072"
definition PS5VK_DIRECT_OUTSIDE_WINDOW :: int where "PS5VK_DIRECT_OUTSIDE_WINDOW = - 1"
definition PS5VK_ADDRESS_HIGH_WORD :: u64 where "PS5VK_ADDRESS_HIGH_WORD = 2"

definition ps5vk_address_range_valid :: "u64 \<Rightarrow> u64 \<Rightarrow> bool" where
  "ps5vk_address_range_valid address bytes \<longleftrightarrow>
     bytes \<noteq> 0 \<and> drop_bit 32 address = PS5VK_ADDRESS_HIGH_WORD \<and> bytes \<le> PS5VK_ADDRESS_WINDOW_BYTES - (address AND 0xffffffff)"

section \<open>Mappings\<close>

definition account :: "direct_kind \<Rightarrow> u64 \<Rightarrow> direct_state \<Rightarrow> direct_state" where
  "account kind bytes st =
     st\<lparr>ds_live_count := ds_live_count st + 1, ds_live_bytes := ds_live_bytes st + bytes,
        ds_kind_count := (ds_kind_count st)(kind := ds_kind_count st kind + 1),
        ds_kind_bytes := (ds_kind_bytes st)(kind := ds_kind_bytes st kind + bytes)\<rparr>"

definition unaccount :: "direct_kind \<Rightarrow> u64 \<Rightarrow> direct_state \<Rightarrow> direct_state" where
  "unaccount kind bytes st =
     st\<lparr>ds_live_count := ds_live_count st - 1, ds_live_bytes := ds_live_bytes st - bytes,
        ds_kind_count := (ds_kind_count st)(kind := ds_kind_count st kind - 1),
        ds_kind_bytes := (ds_kind_bytes st)(kind := ds_kind_bytes st kind - bytes)\<rparr>"

definition give_granules :: "direct_mapping \<Rightarrow> direct_state \<Rightarrow> direct_mapping \<times> direct_state" where
  "give_granules mapping st =
     (if dm_granules mapping = 0 then (mapping, st)
      else (mapping\<lparr>dm_granules := 0\<rparr>, st\<lparr>ds_region := ps5vk_region_give (dm_granule mapping) (dm_granules mapping) (ds_region st)\<rparr>))"

text \<open>Where a new mapping asks to go, 0 for the kernel's own choice.\<close>

definition ps5vk_direct_mapping_hint :: "mesa \<Rightarrow> direct_mapping \<Rightarrow> direct_state \<Rightarrow> u64 \<times> direct_mapping \<times> direct_state" where
  "ps5vk_direct_mapping_hint ms mapping st =
     (if dm_kind mapping \<noteq> PS5VK_DIRECT_MEMORY then (0, mapping, st)
      else let step = ms_align64 ms (dm_bytes mapping) PS5VK_DEVICE_MEMORY_GRANULE
           in if ds_base st \<noteq> 0
              then let next = ds_next st + step in (ds_base st + next - step, mapping, st\<lparr>ds_next := next\<rparr>)
              else let count = unat (ucast (step div PS5VK_DEVICE_MEMORY_GRANULE) :: u32)
                   in case ps5vk_region_take count (ds_region st) of
                        None \<Rightarrow> (0, mapping, st)
                      | Some (first, used) \<Rightarrow>
                          (PS5VK_DEVICE_MEMORY_REGION + of_nat first * PS5VK_DEVICE_MEMORY_GRANULE,
                           mapping\<lparr>dm_granule := first, dm_granules := count\<rparr>, st\<lparr>ds_region := used\<rparr>))"

definition ps5vk_direct_mapping_destroy :: "direct_mapping \<Rightarrow> direct_state \<Rightarrow> direct_mapping \<times> direct_state \<times> kernel_call list" where
  "ps5vk_direct_mapping_destroy mapping st =
     (let unmap = (if dm_address mapping \<noteq> 0 then [Munmap (dm_address mapping) (dm_bytes mapping)] else []);
          held = (dm_start mapping \<ge> 0 \<and> dm_bytes mapping \<noteq> 0);
          release = (if held then [Release_direct (dm_start mapping) (dm_bytes mapping)] else []);
          st = (if held then unaccount (dm_kind mapping) (dm_bytes mapping) st else st)
      in case give_granules mapping st of
           (mapping, st) \<Rightarrow> (mapping\<lparr>dm_start := - 1, dm_address := 0\<rparr>, st, unmap @ release))"

text \<open>Mapping what was allocated: at the hint, or where the kernel wants it when it would not map there.\<close>

definition map_allocation ::
  "kernel_answers \<Rightarrow> u64 \<Rightarrow> int \<Rightarrow> u64 \<Rightarrow> direct_mapping \<Rightarrow> direct_state \<Rightarrow> int \<times> u64 \<times> direct_mapping \<times> direct_state \<times> kernel_call list" where
  "map_allocation ka bytes start hint mapping st =
     (case ka_map ka hint of (result, address) \<Rightarrow>
        if result \<noteq> 0 \<and> hint \<noteq> 0
        then case give_granules mapping st of (mapping, st) \<Rightarrow>
             case ka_map_again ka of (result, address) \<Rightarrow> (result, address, mapping, st, [Map_direct hint bytes start, Map_direct 0 bytes start])
        else (result, address, mapping, st, [Map_direct hint bytes start]))"

text \<open>The result, the mapping, the state and the calls; \<open>None\<close> is an assertion that does not hold.\<close>

definition ps5vk_direct_mapping_create ::
  "mesa \<Rightarrow> kernel_answers \<Rightarrow> u64 \<Rightarrow> u64 \<Rightarrow> direct_kind \<Rightarrow> direct_state \<Rightarrow> (int \<times> direct_mapping \<times> direct_state \<times> kernel_call list) option" where
  "ps5vk_direct_mapping_create ms ka bytes alignment kind st =
     (if bytes = 0 \<or> bytes mod PS5VK_DIRECT_PAGE_BYTES \<noteq> 0 then None
      else let mapping = \<lparr>dm_start = - 1, dm_bytes = bytes, dm_address = 0, dm_kind = kind, dm_granule = 0, dm_granules = 0\<rparr>
           in case ka_allocate ka of (result, start) \<Rightarrow>
              if result \<noteq> 0 then Some (result, mapping, st, [Allocate_direct bytes alignment])
              else case ps5vk_direct_mapping_hint ms (mapping\<lparr>dm_start := start\<rparr>) (account kind bytes st) of (hint, mapping, st) \<Rightarrow>
                   case map_allocation ka bytes start hint mapping st of (result, address, mapping, st, calls) \<Rightarrow>
                   let mapped = (result = 0 \<and> address \<noteq> 0);
                       mapping = (if mapped then mapping\<lparr>dm_address := address\<rparr> else mapping)
                   in case (if mapped \<and> address \<noteq> hint then give_granules mapping st else (mapping, st)) of (mapping, st) \<Rightarrow>
                      if mapped \<and> ps5vk_address_range_valid address bytes
                      then Some (0, mapping, st, Allocate_direct bytes alignment # calls)
                      else if mapped \<and> kind = PS5VK_DIRECT_MEMORY \<and> ps5vk_gpu_range_valid address bytes
                      then Some (0, mapping, st\<lparr>ds_outside := ds_outside st + 1\<rparr>, Allocate_direct bytes alignment # calls)
                      else case ps5vk_direct_mapping_destroy mapping st of (mapping, st, undo) \<Rightarrow>
                           Some (if result = 0 then PS5VK_DIRECT_OUTSIDE_WINDOW else result, mapping, st, Allocate_direct bytes alignment # calls @ undo))"

section \<open>Device memory\<close>

record device_memory =
  me_direct :: direct_mapping
  me_size :: u64
  me_type :: nat
  me_host_mapped :: bool

definition PS5VK_LARGE_ALIGNMENT :: u64 where "PS5VK_LARGE_ALIGNMENT = 0x200000"
definition PS5VK_MAX_MEMORY_ALLOCATIONS :: int where "PS5VK_MAX_MEMORY_ALLOCATIONS = 4096"
definition PS5VK_MEMORY_TYPE_COUNT :: nat where "PS5VK_MEMORY_TYPE_COUNT = 2"
definition PS5VK_MEMORY_TYPE_HOST :: nat where "PS5VK_MEMORY_TYPE_HOST = 1"

datatype memory_error = Memory_error vk_error | VK_ERROR_TOO_MANY_OBJECTS | VK_ERROR_MEMORY_MAP_FAILED

text \<open>
  Allocating and freeing: the device's count of allocations and the direct memory. \<open>pool\<close> is what \<open>sceKernelGetDirectMemorySize\<close>
  answers, \<open>made\<close> whether the process has memory for the object.
\<close>

definition ps5vk_device_memory_release :: "device_memory \<Rightarrow> int \<Rightarrow> direct_state \<Rightarrow> int \<times> direct_state \<times> kernel_call list" where
  "ps5vk_device_memory_release memory count st =
     (case ps5vk_direct_mapping_destroy (me_direct memory) st of (_, st, calls) \<Rightarrow> (count - 1, st, calls))"

definition ps5vk_AllocateMemory ::
  "mesa \<Rightarrow> kernel_answers \<Rightarrow> int \<Rightarrow> bool \<Rightarrow> u64 \<Rightarrow> nat \<Rightarrow> int \<Rightarrow> direct_state \<Rightarrow> (memory_error + device_memory) \<times> int \<times> direct_state \<times> kernel_call list" where
  "ps5vk_AllocateMemory ms ka pool made allocation_size memory_type count st =
     (if \<not> memory_type < PS5VK_MEMORY_TYPE_COUNT then (Inl (Memory_error Assertion_failed), count, st, [])
      else if pool \<le> 0 \<or> uint allocation_size > pool then (Inl (Memory_error VK_ERROR_OUT_OF_DEVICE_MEMORY), count, st, [])
      else let bytes = ms_align64 ms allocation_size PS5VK_DIRECT_PAGE_BYTES;
               alignment = (if bytes \<ge> PS5VK_LARGE_ALIGNMENT then PS5VK_LARGE_ALIGNMENT else PS5VK_DIRECT_PAGE_BYTES)
           in if count + 1 > PS5VK_MAX_MEMORY_ALLOCATIONS then (Inl VK_ERROR_TOO_MANY_OBJECTS, count + 1 - 1, st, [])
              else if \<not> made then (Inl (Memory_error VK_ERROR_OUT_OF_HOST_MEMORY), count + 1 - 1, st, [])
              else case ps5vk_direct_mapping_create ms ka bytes alignment PS5VK_DIRECT_MEMORY st of
                     None \<Rightarrow> (Inl (Memory_error Assertion_failed), count + 1, st, [])
                   | Some (result, direct, st, calls) \<Rightarrow>
                       let memory = \<lparr>me_direct = direct, me_size = allocation_size, me_type = memory_type, me_host_mapped = False\<rparr>
                       in if result \<noteq> 0
                          then case ps5vk_device_memory_release memory (count + 1) st of (count, st, undo) \<Rightarrow>
                               (Inl (Memory_error VK_ERROR_OUT_OF_DEVICE_MEMORY), count, st, calls @ undo)
                          else (Inr memory, count + 1, st, calls))"

definition ps5vk_FreeMemory :: "device_memory option \<Rightarrow> int \<Rightarrow> direct_state \<Rightarrow> int \<times> direct_state \<times> kernel_call list" where
  "ps5vk_FreeMemory memory count st = (case memory of None \<Rightarrow> (count, st, []) | Some memory \<Rightarrow> ps5vk_device_memory_release memory count st)"

text \<open>Mapping: the first one flushes the whole allocation out of the CPU cache. The spans flushed, the memory, and the pointer.\<close>

definition ps5vk_MapMemory2 :: "device_memory \<Rightarrow> u32 \<Rightarrow> u64 \<Rightarrow> (u64 \<times> u64) list \<times> device_memory \<times> (memory_error + u64)" where
  "ps5vk_MapMemory2 memory flags offset =
     (if me_type memory \<noteq> PS5VK_MEMORY_TYPE_HOST then ([], memory, Inl VK_ERROR_MEMORY_MAP_FAILED)
      else if flags \<noteq> 0 \<or> \<not> offset < me_size memory then ([], memory, Inl (Memory_error Assertion_failed))
      else (if me_host_mapped memory then [] else [(dm_address (me_direct memory), dm_bytes (me_direct memory))],
            memory\<lparr>me_host_mapped := True\<rparr>, Inr (dm_address (me_direct memory) + offset)))"

definition ps5vk_GetDeviceMemoryCommitment :: "device_memory \<Rightarrow> u64" where
  "ps5vk_GetDeviceMemoryCommitment memory = me_size memory"

definition ps5vk_direct_memory_live :: "direct_state \<Rightarrow> u64 \<times> u64" where
  "ps5vk_direct_memory_live st = (ds_live_count st, ds_live_bytes st)"

definition ps5vk_direct_memory_kind_live :: "direct_kind \<Rightarrow> direct_state \<Rightarrow> u64 \<times> u64" where
  "ps5vk_direct_memory_kind_live kind st = (ds_kind_count st kind, ds_kind_bytes st kind)"

section \<open>Cache lines\<close>

text \<open>The addresses the two functions flush; a flush of an address flushes its line of 64 bytes.\<close>

function flushes :: "nat \<Rightarrow> nat \<Rightarrow> nat list" where
  "flushes p q = (if p < q then p # flushes (p + 64) q else [])"
  by pat_completeness auto
termination
  by (relation "measure (\<lambda>(p, q). q - p)") auto

declare flushes.simps [simp del]

definition ps5vk_evict_cpu_lines :: "nat \<Rightarrow> nat \<Rightarrow> nat list" where
  "ps5vk_evict_cpu_lines address bytes = flushes (address div 64 * 64) (address + bytes)"

definition ps5vk_flush_cpu_cache :: "nat \<Rightarrow> nat \<Rightarrow> nat list" where
  "ps5vk_flush_cpu_cache address bytes = flushes address (address + bytes)"

lemma flushes_cover:
  assumes "p mod 64 = 0" "p \<le> a" "a < q"
  shows "a div 64 * 64 \<in> set (flushes p q)"
  using assms
proof (induction p q rule: flushes.induct)
  case (1 p q)
  show ?case
  proof (cases "a < p + 64")
    case True
    then have "a div 64 * 64 = p" using "1.prems" by (metis add.commute div_nat_eqI div_mult_mod_eq add_0_right mult.commute mult_Suc_right)
    then show ?thesis using "1.prems" by (simp add: flushes.simps [of p q])
  next
    case False
    then have "a div 64 * 64 \<in> set (flushes (p + 64) q)" using "1.prems" by (intro "1.IH") auto
    then show ?thesis using "1.prems" by (simp add: flushes.simps [of p q])
  qed
qed

text \<open>\<open>ps5vk_evict_cpu_lines\<close> flushes the line of every byte of its range, wherever the range starts.\<close>

lemma evict_covers_range:
  assumes "address \<le> a" "a < address + bytes"
  shows "\<exists>l \<in> set (ps5vk_evict_cpu_lines address bytes). l div 64 = a div 64"
proof -
  have "a div 64 * 64 \<in> set (ps5vk_evict_cpu_lines address bytes)"
    unfolding ps5vk_evict_cpu_lines_def using assms by (intro flushes_cover) (auto intro: order.trans [OF div_times_less_eq_dividend])
  then show ?thesis by (intro bexI) auto
qed

text \<open>
  \<open>ps5vk_flush_cpu_cache\<close> starts at the first byte and not at its line: of a range that starts inside a line it may miss the last one.
\<close>

lemma flush_misses_last_line: "map (\<lambda>l. l div 64) (ps5vk_flush_cpu_cache 60 8) = [0]" "(60 + 7) div 64 = (1 :: nat)"
  by (simp_all add: ps5vk_flush_cpu_cache_def flushes.simps)

lemma flush_covers_aligned:
  assumes "address mod 64 = 0" "address \<le> a" "a < address + bytes"
  shows "a div 64 * 64 \<in> set (ps5vk_flush_cpu_cache address bytes)"
  unfolding ps5vk_flush_cpu_cache_def using assms by (rule flushes_cover)

section \<open>Accounts and granules\<close>

text \<open>What is known of a live mapping: allocated and mapped, and at its granules as long as it holds some.\<close>

definition mapping_ok :: "direct_mapping \<Rightarrow> bool" where
  "mapping_ok m \<longleftrightarrow> 0 \<le> dm_start m \<and> dm_bytes m \<noteq> 0 \<and> dm_address m \<noteq> 0 \<and>
     (dm_granules m \<noteq> 0 \<longrightarrow> dm_address m = PS5VK_DEVICE_MEMORY_REGION + of_nat (dm_granule m) * PS5VK_DEVICE_MEMORY_GRANULE \<and>
        unat (dm_bytes m) \<le> dm_granules m * 0x200000)"

definition held_runs :: "direct_mapping list \<Rightarrow> (nat \<times> nat) list" where
  "held_runs live = map (\<lambda>m. (dm_granule m, dm_granules m)) (filter (\<lambda>m. dm_granules m \<noteq> 0) live)"

definition direct_ok :: "direct_state \<Rightarrow> direct_mapping list \<Rightarrow> bool" where
  "direct_ok st live \<longleftrightarrow>
     ds_live_count st = of_nat (length live) \<and> ds_live_bytes st = sum_list (map dm_bytes live) \<and>
     (\<forall>kind. ds_kind_count st kind = of_nat (length (filter (\<lambda>m. dm_kind m = kind) live)) \<and>
        ds_kind_bytes st kind = sum_list (map dm_bytes (filter (\<lambda>m. dm_kind m = kind) live))) \<and>
     region.holds (held_runs live) (ds_region st) \<and> length (ds_region st) = 2048 \<and> list_all mapping_ok live"

text \<open>What the kernel promises: an allocation that succeeds has a start.\<close>

definition kernel_ok :: "kernel_answers \<Rightarrow> bool" where
  "kernel_ok ka \<longleftrightarrow> (fst (ka_allocate ka) = 0 \<longrightarrow> 0 \<le> snd (ka_allocate ka))"

lemma held_runs_simps [simp]:
  "held_runs [] = []" "held_runs (m # live) = (if dm_granules m \<noteq> 0 then [(dm_granule m, dm_granules m)] else []) @ held_runs live"
  "held_runs (xs @ ys) = held_runs xs @ held_runs ys"
  by (simp_all add: held_runs_def)

text \<open>Destroying a live mapping takes it out of the accounts.\<close>

lemma destroy_ok:
  assumes "direct_ok st (xs @ m # ys)" "ps5vk_direct_mapping_destroy m st = (m', st', calls)"
  shows "direct_ok st' (xs @ ys)" "calls = [Munmap (dm_address m) (dm_bytes m), Release_direct (dm_start m) (dm_bytes m)]"
proof -
  have m: "mapping_ok m" using assms(1) by (simp add: direct_ok_def)
  then have held: "0 \<le> dm_start m" "dm_bytes m \<noteq> 0" "dm_address m \<noteq> 0" by (simp_all add: mapping_ok_def)
  show "calls = [Munmap (dm_address m) (dm_bytes m), Release_direct (dm_start m) (dm_bytes m)]"
    using assms(2) held by (auto simp: ps5vk_direct_mapping_destroy_def Let_def split: prod.splits)
  have st': "st' = snd (give_granules m (unaccount (dm_kind m) (dm_bytes m) st))"
    using assms(2) held by (auto simp: ps5vk_direct_mapping_destroy_def Let_def split: prod.splits)
  have r: "region.holds (held_runs (xs @ ys)) (ds_region st')"
  proof (cases "dm_granules m = 0")
    case True
    then show ?thesis using assms(1) unfolding st' by (simp add: direct_ok_def give_granules_def unaccount_def)
  next
    case False
    then have "region.holds (held_runs xs @ (dm_granule m, dm_granules m) # held_runs ys) (ds_region st)"
      using assms(1) by (simp add: direct_ok_def)
    then show ?thesis using False region.holds_give unfolding st' by (simp add: give_granules_def unaccount_def)
  qed
  have len: "length (ds_region st') = 2048"
  proof (cases "dm_granules m = 0")
    case True
    then show ?thesis using assms(1) unfolding st' by (simp add: direct_ok_def give_granules_def unaccount_def)
  next
    case False
    then have "dm_granule m + dm_granules m \<le> 64 * length (ds_region st)"
      using assms(1) by (auto simp: direct_ok_def region.holds_def)
    then show ?thesis using region.give_gives [of "dm_granule m" "dm_granules m" "ds_region st"] assms(1) False unfolding st'
      by (simp add: direct_ok_def give_granules_def unaccount_def)
  qed
  have c: "ds_live_count st' = ds_live_count st - 1" "ds_live_bytes st' = ds_live_bytes st - dm_bytes m"
    "ds_kind_count st' = (ds_kind_count st)(dm_kind m := ds_kind_count st (dm_kind m) - 1)"
    "ds_kind_bytes st' = (ds_kind_bytes st)(dm_kind m := ds_kind_bytes st (dm_kind m) - dm_bytes m)"
    unfolding st' by (simp_all add: give_granules_def unaccount_def)
  show "direct_ok st' (xs @ ys)"
    using assms(1) r len unfolding direct_ok_def c by auto
qed

text \<open>
  A mapping that is being made: the granules it holds, if any, are the ones taken from the region as it was, and
  nothing else of the state has changed but the test switch's next address.
\<close>

definition same_object :: "direct_mapping \<Rightarrow> direct_mapping \<Rightarrow> bool" where
  "same_object m m' \<longleftrightarrow> dm_start m' = dm_start m \<and> dm_bytes m' = dm_bytes m \<and> dm_address m' = dm_address m \<and> dm_kind m' = dm_kind m"

definition grabbed :: "direct_state \<Rightarrow> direct_mapping \<Rightarrow> direct_state \<Rightarrow> bool" where
  "grabbed st0 m st \<longleftrightarrow> (\<exists>used next. st = st0\<lparr>ds_region := used, ds_next := next\<rparr> \<and>
     (if dm_granules m = 0 then used = ds_region st0
      else ps5vk_region_take (dm_granules m) (ds_region st0) = Some (dm_granule m, used)))"

lemma region_ext:
  assumes "length u = length u'" "region_taken u = region_taken u'"
  shows "u = u'"
proof (rule nth_equalityI [OF assms(1)])
  fix i assume i: "i < length u"
  show "u ! i = u' ! i"
  proof (rule bit_word_eqI)
    fix n :: nat assume n: "n < LENGTH(64)"
    have "i * 64 + n < 64 * length u" using i n by simp
    then have "granule_used u (i * 64 + n) = granule_used u' (i * 64 + n)" using assms by (auto simp: region_taken_def set_eq_iff)
    then show "bit (u ! i) n = bit (u' ! i) n" using n by (simp add: granule_used_bit)
  qed
qed

lemma take_give_same: "ps5vk_region_take count used = Some (first, used') \<Longrightarrow> ps5vk_region_give first count used' = used"
  using region.take_give [of count used first used'] region.take_takes [of count used first used'] region.take_free [of count used first used']
    region.give_gives [of first count used'] by (intro region_ext) auto

lemma grabbed_give:
  assumes "grabbed st0 m st" "give_granules m st = (m', st')"
  shows "grabbed st0 m' st'" "m' = m\<lparr>dm_granules := 0\<rparr>" "st' = st0\<lparr>ds_next := ds_next st\<rparr>"
proof -
  obtain used "next" where st: "st = st0\<lparr>ds_region := used, ds_next := next\<rparr>"
    and t: "if dm_granules m = 0 then used = ds_region st0 else ps5vk_region_take (dm_granules m) (ds_region st0) = Some (dm_granule m, used)"
    using assms(1) unfolding grabbed_def by blast
  show m': "m' = m\<lparr>dm_granules := 0\<rparr>" using assms(2) by (auto simp: give_granules_def split: if_splits)
  show st': "st' = st0\<lparr>ds_next := ds_next st\<rparr>"
    using assms(2) t take_give_same [of "dm_granules m" "ds_region st0" "dm_granule m" used] unfolding st
    by (auto simp: give_granules_def split: if_splits)
  show "grabbed st0 m' st'" unfolding grabbed_def m' st' by (intro exI [of _ "ds_region st0"] exI [of _ "ds_next st"]) simp
qed

lemma unat_align_up:
  assumes "mesa_ok ms" "unat v < 2 ^ 63" "k < 63"
  shows "unat (ms_align64 ms v (2 ^ k)) = (unat v + 2 ^ k - 1) div 2 ^ k * 2 ^ k"
  using assms unfolding mesa_ok_def by blast

lemma same_next: "\<exists>next. st = st\<lparr>ds_next := next\<rparr>" "\<exists>next. st\<lparr>ds_region := used\<rparr> = st\<lparr>ds_region := used, ds_next := next\<rparr>"
  by (rule exI [of _ "ds_next st"], simp)+

lemma hint_grabs:
  assumes "ps5vk_direct_mapping_hint ms m st = (hint, m', st')" "dm_granules m = 0" "mesa_ok ms" "unat (dm_bytes m) \<le> 2 ^ 52"
  shows "grabbed st m' st'" "same_object m m'"
    and "dm_granules m' \<noteq> 0 \<Longrightarrow> hint = PS5VK_DEVICE_MEMORY_REGION + of_nat (dm_granule m') * PS5VK_DEVICE_MEMORY_GRANULE \<and>
      unat (dm_bytes m) \<le> dm_granules m' * 0x200000"
proof -
  let ?n = "(unat (dm_bytes m) + 2097151) div 2097152"
  let ?c = "unat (ucast (ms_align64 ms (dm_bytes m) PS5VK_DEVICE_MEMORY_GRANULE div PS5VK_DEVICE_MEMORY_GRANULE) :: u32)"
  have "unat (ms_align64 ms (dm_bytes m) (2 ^ 21)) = (unat (dm_bytes m) + 2 ^ 21 - 1) div 2 ^ 21 * 2 ^ 21"
    using assms(3,4) by (intro unat_align_up) simp_all
  then have "unat (ms_align64 ms (dm_bytes m) PS5VK_DEVICE_MEMORY_GRANULE) = ?n * 2097152" by (simp add: PS5VK_DEVICE_MEMORY_GRANULE_def)
  then have "unat (ms_align64 ms (dm_bytes m) PS5VK_DEVICE_MEMORY_GRANULE div PS5VK_DEVICE_MEMORY_GRANULE) = ?n"
    by (simp add: unat_div_distrib PS5VK_DEVICE_MEMORY_GRANULE_def)
  moreover have "?n < 2 ^ 32" using assms(4) by simp
  ultimately have c: "?c = ?n" by (simp add: unsigned_ucast_eq take_bit_nat_eq_self)
  have "v \<le> (v + 2097151) div 2097152 * 2097152" for v :: nat
    using div_mult_mod_eq [of "v + 2097151" 2097152] mod_less_divisor [of 2097152 "v + 2097151"] by linarith
  then have b: "unat (dm_bytes m) \<le> ?c * 0x200000" unfolding c by simp
  have pos: "?c \<noteq> 0" if "ps5vk_region_take ?c (ds_region st) = Some r" for r
    using that region.take_free [of ?c "ds_region st" "fst r" "snd r"] by simp
  show "grabbed st m' st'" "same_object m m'"
    using assms(1,2) pos by (auto simp: same_object_def ps5vk_direct_mapping_hint_def Let_def grabbed_def same_next split: if_splits option.splits)
  show "dm_granules m' \<noteq> 0 \<Longrightarrow> hint = PS5VK_DEVICE_MEMORY_REGION + of_nat (dm_granule m') * PS5VK_DEVICE_MEMORY_GRANULE \<and>
      unat (dm_bytes m) \<le> dm_granules m' * 0x200000"
    using assms(1,2) b by (auto simp: ps5vk_direct_mapping_hint_def Let_def split: if_splits option.splits)
qed

lemma map_allocation_grabs:
  assumes "map_allocation ka bytes start hint m st = (result, address, m', st', calls)" "grabbed st0 m st"
  shows "grabbed st0 m' st'" "same_object m m'" "dm_granules m' \<noteq> 0 \<Longrightarrow> dm_granules m' = dm_granules m \<and> dm_granule m' = dm_granule m"
proof -
  obtain m1 st1 where g: "give_granules m st = (m1, st1)" by (metis prod.exhaust)
  note given = grabbed_give [OF assms(2) g]
  have "(m', st') = (m, st) \<or> (m', st') = (m1, st1)"
    using assms(1) g by (auto simp: map_allocation_def split: if_splits prod.splits)
  then show "grabbed st0 m' st'" "same_object m m'" "dm_granules m' \<noteq> 0 \<Longrightarrow> dm_granules m' = dm_granules m \<and> dm_granule m' = dm_granule m"
    using assms(2) given by (auto simp: same_object_def)
qed

lemma grabbed_address: "grabbed st0 (m\<lparr>dm_address := address\<rparr>) st = grabbed st0 m st"
  by (simp add: grabbed_def)

lemma account_unaccount: "unaccount kind bytes (account kind bytes st\<lparr>ds_next := next\<rparr>) = st\<lparr>ds_next := next\<rparr>"
  by (simp add: account_def unaccount_def)

text \<open>A new mapping before its address is judged: it holds what it took, or nothing.\<close>

lemma create_steps:
  assumes "ps5vk_direct_mapping_create ms ka bytes alignment kind st = Some (result, m', st', calls)" "fst (ka_allocate ka) = 0"
    and "mesa_ok ms" "unat bytes \<le> 2 ^ 52"
  obtains m1 st1 pre where "grabbed (account kind bytes st) m1 st1" "dm_start m1 = snd (ka_allocate ka)" "dm_bytes m1 = bytes" "dm_kind m1 = kind"
    and "dm_granules m1 \<noteq> 0 \<Longrightarrow> dm_address m1 = 0 \<or> dm_address m1 = PS5VK_DEVICE_MEMORY_REGION + of_nat (dm_granule m1) * PS5VK_DEVICE_MEMORY_GRANULE"
    and "dm_granules m1 \<noteq> 0 \<Longrightarrow> unat bytes \<le> dm_granules m1 * 0x200000"
    and "if result = 0 then m' = m1 \<and> dm_address m1 \<noteq> 0 \<and> (st' = st1 \<or> st' = st1\<lparr>ds_outside := ds_outside st1 + 1\<rparr>) \<and>
           (ps5vk_address_range_valid (dm_address m1) bytes \<or> kind = PS5VK_DIRECT_MEMORY \<and> ps5vk_gpu_range_valid (dm_address m1) bytes)
         else (\<exists>undo. ps5vk_direct_mapping_destroy m1 st1 = (m', st', undo) \<and> calls = pre @ undo)"
proof -
  let ?m = "\<lparr>dm_start = snd (ka_allocate ka), dm_bytes = bytes, dm_address = 0, dm_kind = kind, dm_granule = 0, dm_granules = 0\<rparr>"
  obtain hint m0 st0 where h: "ps5vk_direct_mapping_hint ms ?m (account kind bytes st) = (hint, m0, st0)" by (metis prod.exhaust)
  have hb: "dm_granules ?m = 0" "unat (dm_bytes ?m) \<le> 2 ^ 52" using assms(4) by simp_all
  note hint = hint_grabs [OF h hb(1) assms(3) hb(2)]
  obtain res address ma sta mc where a: "map_allocation ka bytes (snd (ka_allocate ka)) hint m0 st0 = (res, address, ma, sta, mc)" by (metis prod.exhaust)
  note made = map_allocation_grabs [OF a hint(1)]
  let ?mapped = "res = 0 \<and> address \<noteq> 0"
  let ?mb = "if ?mapped then ma\<lparr>dm_address := address\<rparr> else ma"
  obtain m1 st1 where g: "(if ?mapped \<and> address \<noteq> hint then give_granules ?mb sta else (?mb, sta)) = (m1, st1)" by (metis prod.exhaust)
  have same: "grabbed (account kind bytes st) ?mb sta" using made(1) by (cases ?mapped) (simp_all add: grabbed_address)
  have parts: "dm_start ma = snd (ka_allocate ka)" "dm_bytes ma = bytes" "dm_kind ma = kind" "dm_address ma = 0"
    using made(2) hint(2) by (simp_all add: same_object_def)
  have m1: "grabbed (account kind bytes st) m1 st1" "dm_start m1 = snd (ka_allocate ka)" "dm_bytes m1 = bytes" "dm_kind m1 = kind"
    "dm_address m1 = (if ?mapped then address else 0)"
    "dm_granules m1 \<noteq> 0 \<Longrightarrow> dm_granules m1 = dm_granules m0 \<and> dm_granule m1 = dm_granule m0 \<and> (?mapped \<longrightarrow> address = hint)"
    using g grabbed_give [OF same] same parts made(3) by (auto split: if_splits)
  have create: "Some (result, m', st', calls) =
      (if ?mapped \<and> ps5vk_address_range_valid address bytes then Some (0, m1, st1, Allocate_direct bytes alignment # mc)
       else if ?mapped \<and> kind = PS5VK_DIRECT_MEMORY \<and> ps5vk_gpu_range_valid address bytes
       then Some (0, m1, st1\<lparr>ds_outside := ds_outside st1 + 1\<rparr>, Allocate_direct bytes alignment # mc)
       else case ps5vk_direct_mapping_destroy m1 st1 of (mapping, st, undo) \<Rightarrow>
            Some (if res = 0 then PS5VK_DIRECT_OUTSIDE_WINDOW else res, mapping, st, Allocate_direct bytes alignment # mc @ undo))"
    using assms(1,2) h a g unfolding ps5vk_direct_mapping_create_def Let_def by (cases "ka_allocate ka") (auto split: if_splits)
  show ?thesis
  proof (rule that [of m1 st1 "Allocate_direct bytes alignment # mc"])
    show "dm_granules m1 \<noteq> 0 \<Longrightarrow> dm_address m1 = 0 \<or> dm_address m1 = PS5VK_DEVICE_MEMORY_REGION + of_nat (dm_granule m1) * PS5VK_DEVICE_MEMORY_GRANULE"
      "dm_granules m1 \<noteq> 0 \<Longrightarrow> unat bytes \<le> dm_granules m1 * 0x200000"
      using m1(5,6) hint(3) by auto
    show "if result = 0 then m' = m1 \<and> dm_address m1 \<noteq> 0 \<and> (st' = st1 \<or> st' = st1\<lparr>ds_outside := ds_outside st1 + 1\<rparr>) \<and>
           (ps5vk_address_range_valid (dm_address m1) bytes \<or> kind = PS5VK_DIRECT_MEMORY \<and> ps5vk_gpu_range_valid (dm_address m1) bytes)
         else (\<exists>undo. ps5vk_direct_mapping_destroy m1 st1 = (m', st', undo) \<and> calls = (Allocate_direct bytes alignment # mc) @ undo)"
      using create m1(5) by (auto simp: PS5VK_DIRECT_OUTSIDE_WINDOW_def split: if_splits prod.splits)
  qed (use m1 in simp_all)
qed

lemma grabbed_account:
  assumes "grabbed (account kind bytes st) m st1"
  obtains used "next" where "st1 = (account kind bytes st)\<lparr>ds_region := used, ds_next := next\<rparr>"
    and "if dm_granules m = 0 then used = ds_region st else ps5vk_region_take (dm_granules m) (ds_region st) = Some (dm_granule m, used)"
proof -
  have "ds_region (account kind bytes st) = ds_region st" by (simp add: account_def)
  then show ?thesis using assms that unfolding grabbed_def by metis
qed

lemma grabbed_holds:
  assumes "grabbed (account kind bytes st) m st1" "direct_ok st live" "dm_kind m = kind" "dm_bytes m = bytes" "mapping_ok m"
  shows "direct_ok st1 (m # live)"
proof -
  obtain used "next" where st: "st1 = (account kind bytes st)\<lparr>ds_region := used, ds_next := next\<rparr>"
    and t: "if dm_granules m = 0 then used = ds_region st else ps5vk_region_take (dm_granules m) (ds_region st) = Some (dm_granule m, used)"
    by (rule grabbed_account [OF assms(1)])
  have h: "region.holds (held_runs live) (ds_region st)" "length (ds_region st) = 2048" using assms(2) by (simp_all add: direct_ok_def)
  have "region.holds (held_runs (m # live)) used"
  proof (cases "dm_granules m = 0")
    case True
    then show ?thesis using t h by simp
  next
    case False
    then show ?thesis using t region.holds_take [OF h(1)] by simp
  qed
  moreover have "length used = 2048"
    using t h(2) region.take_takes [of "dm_granules m" "ds_region st" "dm_granule m" used] by (auto split: if_splits)
  ultimately show ?thesis
    using assms(2-5) unfolding st direct_ok_def by (auto simp: account_def)
qed

lemma destroy_new:
  assumes "grabbed (account kind bytes st) m st1" "dm_kind m = kind" "dm_bytes m = bytes" "bytes \<noteq> 0" "0 \<le> dm_start m"
    and "ps5vk_direct_mapping_destroy m st1 = (m', st', undo)"
  shows "st' = st\<lparr>ds_next := ds_next st1\<rparr>" "dm_start m' = - 1" "dm_address m' = 0" "dm_granules m' = 0"
    "undo = (if dm_address m \<noteq> 0 then [Munmap (dm_address m) bytes] else []) @ [Release_direct (dm_start m) bytes]"
proof -
  obtain used "next" where st: "st1 = (account kind bytes st)\<lparr>ds_region := used, ds_next := next\<rparr>"
    and t: "if dm_granules m = 0 then used = ds_region st else ps5vk_region_take (dm_granules m) (ds_region st) = Some (dm_granule m, used)"
    by (rule grabbed_account [OF assms(1)])
  show "st' = st\<lparr>ds_next := ds_next st1\<rparr>"
    using assms(2-6) t take_give_same [of "dm_granules m" "ds_region st" "dm_granule m" used] unfolding st
    by (auto simp: ps5vk_direct_mapping_destroy_def Let_def give_granules_def account_def unaccount_def split: if_splits)
  show "dm_start m' = - 1" "dm_address m' = 0" "dm_granules m' = 0"
    "undo = (if dm_address m \<noteq> 0 then [Munmap (dm_address m) bytes] else []) @ [Release_direct (dm_start m) bytes]"
    using assms(3-6) by (auto simp: ps5vk_direct_mapping_destroy_def Let_def give_granules_def split: if_splits)
qed

lemma create_ok:
  assumes "ps5vk_direct_mapping_create ms ka bytes alignment kind st = Some (result, m, st', calls)" "direct_ok st live"
    and "kernel_ok ka" "mesa_ok ms" "unat bytes \<le> 2 ^ 52"
  shows "if result = 0 then direct_ok st' (m # live) else direct_ok st' live"
proof (cases "fst (ka_allocate ka) = 0")
  case False
  then show ?thesis using assms(1,2) by (auto simp: ps5vk_direct_mapping_create_def Let_def split: if_splits prod.splits)
next
  case True
  have nz: "bytes \<noteq> 0" using assms(1) by (auto simp: ps5vk_direct_mapping_create_def)
  obtain m1 st1 pre where c: "grabbed (account kind bytes st) m1 st1" "dm_start m1 = snd (ka_allocate ka)" "dm_bytes m1 = bytes" "dm_kind m1 = kind"
    and g: "dm_granules m1 \<noteq> 0 \<Longrightarrow> dm_address m1 = 0 \<or> dm_address m1 = PS5VK_DEVICE_MEMORY_REGION + of_nat (dm_granule m1) * PS5VK_DEVICE_MEMORY_GRANULE"
      "dm_granules m1 \<noteq> 0 \<Longrightarrow> unat bytes \<le> dm_granules m1 * 0x200000"
    and r: "if result = 0 then m = m1 \<and> dm_address m1 \<noteq> 0 \<and> (st' = st1 \<or> st' = st1\<lparr>ds_outside := ds_outside st1 + 1\<rparr>) \<and>
           (ps5vk_address_range_valid (dm_address m1) bytes \<or> kind = PS5VK_DIRECT_MEMORY \<and> ps5vk_gpu_range_valid (dm_address m1) bytes)
         else (\<exists>undo. ps5vk_direct_mapping_destroy m1 st1 = (m, st', undo) \<and> calls = pre @ undo)"
    by (rule create_steps [OF assms(1) True assms(4,5)]) (rule that)
  have start: "0 \<le> dm_start m1" using assms(3) True c(2) by (simp add: kernel_ok_def)
  show ?thesis
  proof (cases "result = 0")
    case True
    then have "mapping_ok m1" using r g nz c start by (auto simp: mapping_ok_def)
    then have "direct_ok st1 (m1 # live)" using grabbed_holds [OF c(1) assms(2) c(4,3)] by simp
    then show ?thesis using r True by (auto simp: direct_ok_def)
  next
    case False
    then obtain undo where "ps5vk_direct_mapping_destroy m1 st1 = (m, st', undo)" using r by auto
    then have "st' = st\<lparr>ds_next := ds_next st1\<rparr>" using destroy_new [OF c(1,4,3) nz start] by simp
    then show ?thesis using False assms(2) by (simp add: direct_ok_def)
  qed
qed

section \<open>Every sequence of calls\<close>

definition fresh_state :: direct_state where
  "fresh_state = \<lparr>ds_live_count = 0, ds_live_bytes = 0, ds_kind_count = (\<lambda>_. 0), ds_kind_bytes = (\<lambda>_. 0), ds_region = replicate 2048 0,
     ds_base = 0, ds_next = 0, ds_outside = 0\<rparr>"

definition ps5vk_debug_device_memory_base :: "u64 \<Rightarrow> direct_state \<Rightarrow> u64 \<times> direct_state" where
  "ps5vk_debug_device_memory_base base st = (ds_outside st, st\<lparr>ds_next := 0, ds_base := base, ds_outside := 0\<rparr>)"

inductive direct_reach :: "mesa \<Rightarrow> direct_state \<Rightarrow> direct_mapping list \<Rightarrow> bool" for ms where
  start: "direct_reach ms fresh_state []"
| created: "direct_reach ms st live \<Longrightarrow> kernel_ok ka \<Longrightarrow> unat bytes \<le> 2 ^ 52 \<Longrightarrow>
    ps5vk_direct_mapping_create ms ka bytes alignment kind st = Some (0, m, st', calls) \<Longrightarrow> direct_reach ms st' (m # live)"
| refused: "direct_reach ms st live \<Longrightarrow> kernel_ok ka \<Longrightarrow> unat bytes \<le> 2 ^ 52 \<Longrightarrow> result \<noteq> 0 \<Longrightarrow>
    ps5vk_direct_mapping_create ms ka bytes alignment kind st = Some (result, m, st', calls) \<Longrightarrow> direct_reach ms st' live"
| destroyed: "direct_reach ms st (xs @ m # ys) \<Longrightarrow> ps5vk_direct_mapping_destroy m st = (m', st', calls) \<Longrightarrow> direct_reach ms st' (xs @ ys)"
| switched: "direct_reach ms st live \<Longrightarrow> direct_reach ms (snd (ps5vk_debug_device_memory_base base st)) live"

lemma fresh_ok: "direct_ok fresh_state []"
proof -
  have "\<not> granule_used (replicate 2048 0) g" if "g < 64 * 2048" for g
    using that granule_split [of g 2048] by (simp add: granule_used_bit)
  then have "region_taken (replicate 2048 0) = {}" by (auto simp: region_taken_def)
  then show ?thesis by (simp add: direct_ok_def fresh_state_def region.holds_def)
qed

lemma reach_ok: "direct_reach ms st live \<Longrightarrow> mesa_ok ms \<Longrightarrow> direct_ok st live"
proof (induction rule: direct_reach.induct)
  case (created st live ka bytes alignment kind m st' calls)
  then show ?case using create_ok [OF created(4)] by simp
next
  case (refused st live ka bytes result alignment kind m st' calls)
  then show ?case using create_ok [OF refused(5)] by simp
next
  case (destroyed st xs m ys m' st' calls)
  then show ?case using destroy_ok(1) by blast
next
  case (switched st live base)
  then show ?case by (simp add: direct_ok_def ps5vk_debug_device_memory_base_def)
qed (rule fresh_ok)

lemma held_runs_apart:
  assumes "runs_apart (held_runs (xs @ a # ys @ b # zs))" "dm_granules a \<noteq> 0" "dm_granules b \<noteq> 0"
  shows "{dm_granule a..<dm_granule a + dm_granules a} \<inter> {dm_granule b..<dm_granule b + dm_granules b} = {}"
  using runs_apart_remove(2) [of "held_runs xs" "dm_granule a" "dm_granules a" "held_runs ys @ (dm_granule b, dm_granules b) # held_runs zs"] assms
  by (auto simp: Int_Un_distrib)

lemma ranges_apart:
  assumes "{a..<a + n} \<inter> {b..<b + k} = {}" "0 < n" "0 < k"
  shows "a + n \<le> b \<or> b + k \<le> (a :: nat)"
proof (rule ccontr)
  assume "\<not> ?thesis"
  then have "max a b \<in> {a..<a + n} \<inter> {b..<b + k}" using assms(2,3) by auto
  then show False using assms(1) by blast
qed

lemma granule_address:
  assumes "mapping_ok m" "dm_granules m \<noteq> 0" "dm_granule m + dm_granules m \<le> 131072"
  shows "unat (dm_address m) = 0x4000000000 + dm_granule m * 0x200000" "unat (dm_bytes m) \<le> dm_granules m * 0x200000"
proof -
  have g: "dm_granule m \<le> 131072" using assms(3) by simp
  then have "unat (of_nat (dm_granule m) * PS5VK_DEVICE_MEMORY_GRANULE :: u64) = dm_granule m * 0x200000"
    by (simp add: PS5VK_DEVICE_MEMORY_GRANULE_def unat_word_ariths(2) unsigned_of_nat take_bit_nat_eq_self)
  then show "unat (dm_address m) = 0x4000000000 + dm_granule m * 0x200000"
    using assms(1,2) g by (simp add: mapping_ok_def PS5VK_DEVICE_MEMORY_REGION_def unat_word_ariths(1))
  show "unat (dm_bytes m) \<le> dm_granules m * 0x200000" using assms(1,2) by (simp add: mapping_ok_def)
qed


text \<open>A kernel that maps where it is asked to, and the first two mappings of a region.\<close>

definition sample_answers :: kernel_answers where
  "sample_answers = \<lparr>ka_allocate = (0, 0), ka_map = (\<lambda>hint. (0, hint)), ka_map_again = (0, 0)\<rparr>"

definition granule_mapping :: "nat \<Rightarrow> direct_mapping" where
  "granule_mapping granule = \<lparr>dm_start = 0, dm_bytes = 0x200000, dm_address = 0x4000000000 + of_nat granule * 0x200000,
     dm_kind = PS5VK_DIRECT_MEMORY, dm_granule = granule, dm_granules = 1\<rparr>"

definition granule_state :: "u64 \<Rightarrow> u64 \<Rightarrow> direct_state" where
  "granule_state n word = \<lparr>ds_live_count = n, ds_live_bytes = n * 0x200000, ds_kind_count = (\<lambda>_. 0)(PS5VK_DIRECT_MEMORY := n),
     ds_kind_bytes = (\<lambda>_. 0)(PS5VK_DIRECT_MEMORY := n * 0x200000), ds_region = word # replicate 2047 0, ds_base = 0, ds_next = 0, ds_outside = n\<rparr>"

lemma fresh_granules: "fresh_state = granule_state 0 0"
  using replicate_Suc [of 2047 "0 :: u64"] by (simp add: fresh_state_def granule_state_def fun_eq_iff)

lemma take_granule: "ps5vk_region_take 1 (0 # ws) = Some (0, 1 # ws)" "ps5vk_region_take 1 (1 # ws) = Some (1, 3 # ws)"
  by (simp_all add: ps5vk_region_take_def region_scan.simps granule_used_def ps5vk_region_mark_def mark_granule_def UINT64_MAX_def)

lemma granule_step:
  "ms_align64 sample_mesa 0x200000 PS5VK_DEVICE_MEMORY_GRANULE = 0x200000"
  "unat (ucast ((0x200000 :: u64) div PS5VK_DEVICE_MEMORY_GRANULE) :: u32) = 1" "(0x200000 :: u64) mod PS5VK_DIRECT_PAGE_BYTES = 0"
  by (simp_all add: sample_mesa_def) code_simp+

lemma granule_ranges:
  assumes "granule = 0 \<or> granule = 1"
  shows "\<not> ps5vk_address_range_valid (0x4000000000 + of_nat granule * 0x200000) 0x200000"
    "ps5vk_gpu_range_valid (0x4000000000 + of_nat granule * 0x200000) 0x200000" "0x4000000000 + of_nat granule * 0x200000 \<noteq> (0 :: u64)"
  using assms by (auto simp: ps5vk_address_range_valid_def PS5VK_ADDRESS_HIGH_WORD_def ps5vk_gpu_range_valid_def PS5VK_GPU_ADDRESS_LIMIT_def)

lemma create_granule:
  assumes "ps5vk_region_take 1 (word # replicate 2047 0) = Some (granule, word' # replicate 2047 0)" "granule = 0 \<or> granule = 1"
  shows "ps5vk_direct_mapping_create sample_mesa sample_answers 0x200000 alignment PS5VK_DIRECT_MEMORY (granule_state n word) =
    Some (0, granule_mapping granule, granule_state (n + 1) word', [Allocate_direct 0x200000 alignment, Map_direct (0x4000000000 + of_nat granule * 0x200000) 0x200000 0])"
proof -
  let ?fresh = "\<lparr>dm_start = 0, dm_bytes = 0x200000, dm_address = 0, dm_kind = PS5VK_DIRECT_MEMORY, dm_granule = 0, dm_granules = 0\<rparr>"
  have "ps5vk_direct_mapping_hint sample_mesa ?fresh (account PS5VK_DIRECT_MEMORY 0x200000 (granule_state n word)) =
    (0x4000000000 + of_nat granule * 0x200000, (granule_mapping granule)\<lparr>dm_address := 0\<rparr>, (granule_state (n + 1) word')\<lparr>ds_outside := n\<rparr>)"
    using assms(1) by (simp add: ps5vk_direct_mapping_hint_def granule_step account_def granule_state_def granule_mapping_def Let_def fun_eq_iff distrib_right)
      (simp add: PS5VK_DEVICE_MEMORY_REGION_def PS5VK_DEVICE_MEMORY_GRANULE_def)
  then show ?thesis using granule_ranges [OF assms(2)] granule_step(3)
    by (simp add: ps5vk_direct_mapping_create_def map_allocation_def sample_answers_def Let_def) (simp add: granule_state_def granule_mapping_def)
qed

lemma sample_answers_ok: "kernel_ok sample_answers"
  by (simp add: kernel_ok_def sample_answers_def)

lemma first_granules:
  "\<exists>calls. ps5vk_direct_mapping_create sample_mesa sample_answers 0x200000 alignment PS5VK_DIRECT_MEMORY (granule_state 0 0) = Some (0, granule_mapping 0, granule_state 1 1, calls)"
  "\<exists>calls. ps5vk_direct_mapping_create sample_mesa sample_answers 0x200000 alignment PS5VK_DIRECT_MEMORY (granule_state 1 1) = Some (0, granule_mapping 1, granule_state 2 3, calls)"
  using create_granule [OF take_granule(1), where n = 0] create_granule [OF take_granule(2), where n = 1] by simp_all

lemma reach_granules: "direct_reach sample_mesa (granule_state 2 3) [granule_mapping 1, granule_mapping 0]"
proof -
  obtain c d where g: "ps5vk_direct_mapping_create sample_mesa sample_answers 0x200000 0x4000 PS5VK_DIRECT_MEMORY (granule_state 0 0) = Some (0, granule_mapping 0, granule_state 1 1, c)"
    "ps5vk_direct_mapping_create sample_mesa sample_answers 0x200000 0x4000 PS5VK_DIRECT_MEMORY (granule_state 1 1) = Some (0, granule_mapping 1, granule_state 2 3, d)"
    using first_granules [where alignment = "0x4000"] by blast
  have l: "unat (0x200000 :: u64) \<le> 2 ^ 52" by simp
  show ?thesis
    by (rule direct_reach.created [OF direct_reach.created [OF direct_reach.start [unfolded fresh_granules] sample_answers_ok l g(1)] sample_answers_ok l g(2)])
qed


lemma refused_undone:
  assumes "ps5vk_direct_mapping_create ms ka bytes alignment kind st = Some (result, m, st', calls)" "result \<noteq> 0"
    and "kernel_ok ka" "mesa_ok ms" "unat bytes \<le> 2 ^ 52"
  shows "(\<exists>next. st' = st\<lparr>ds_next := next\<rparr>) \<and> dm_start m = - 1 \<and> dm_address m = 0 \<and> dm_granules m = 0 \<and>
    (fst (ka_allocate ka) = 0 \<longrightarrow> (\<exists>pre address. calls = pre @ (if address \<noteq> 0 then [Munmap address bytes] else []) @ [Release_direct (snd (ka_allocate ka)) bytes]))"
proof (cases "fst (ka_allocate ka) = 0")
  case False
  then show ?thesis using assms(1) same_next(1) by (auto simp: ps5vk_direct_mapping_create_def Let_def split: if_splits prod.splits)
next
  case True
  have nz: "bytes \<noteq> 0" using assms(1) by (auto simp: ps5vk_direct_mapping_create_def)
  obtain m1 st1 pre where c: "grabbed (account kind bytes st) m1 st1" "dm_start m1 = snd (ka_allocate ka)" "dm_bytes m1 = bytes" "dm_kind m1 = kind"
    and d: "\<exists>undo. ps5vk_direct_mapping_destroy m1 st1 = (m, st', undo) \<and> calls = pre @ undo"
    by (rule create_steps [OF assms(1) True assms(4,5)]) (use assms(2) that in simp)
  have "0 \<le> dm_start m1" using assms(3) True c(2) by (simp add: kernel_ok_def)
  then show ?thesis using d destroy_new [OF c(1,4,3) nz] c(2) True by metis
qed



section \<open>Device memory allocations\<close>

lemma create_success:
  assumes "ps5vk_direct_mapping_create ms ka bytes alignment kind st = Some (0, m, st', calls)" "mesa_ok ms" "unat bytes \<le> 2 ^ 52"
  shows "dm_bytes m = bytes" "ps5vk_address_range_valid (dm_address m) bytes \<or> kind = PS5VK_DIRECT_MEMORY \<and> ps5vk_gpu_range_valid (dm_address m) bytes"
proof -
  have True: "fst (ka_allocate ka) = 0"
    using assms(1) by (auto simp: ps5vk_direct_mapping_create_def Let_def split: if_splits prod.splits)
  obtain m1 where c: "dm_bytes m1 = bytes"
    "m = m1 \<and> (ps5vk_address_range_valid (dm_address m1) bytes \<or> kind = PS5VK_DIRECT_MEMORY \<and> ps5vk_gpu_range_valid (dm_address m1) bytes)"
    by (rule create_steps [OF assms(1) True assms(2,3)]) (use that in auto)
  then show "dm_bytes m = bytes" "ps5vk_address_range_valid (dm_address m) bytes \<or> kind = PS5VK_DIRECT_MEMORY \<and> ps5vk_gpu_range_valid (dm_address m) bytes"
    by auto
qed

lemma window_reachable:
  assumes "ps5vk_address_range_valid address bytes"
  shows "ps5vk_gpu_range_valid address bytes"
proof -
  have v: "bytes \<noteq> 0" "drop_bit 32 address = 2" "bytes \<le> 0x100000000 - (address AND 0xffffffff)"
    using assms by (simp_all add: ps5vk_address_range_valid_def PS5VK_ADDRESS_HIGH_WORD_def PS5VK_ADDRESS_WINDOW_BYTES_def)
  have "unat (drop_bit 32 address) = drop_bit 32 (unat address)"
    using unsigned_less [of address, where ?'a = nat] by (simp add: unsigned_drop_bit_eq take_bit_nat_eq_self)
  then have "drop_bit 32 (unat address) = 2" using v(2) by simp
  then have d: "unat address div 2 ^ 32 = 2" by (simp only: drop_bit_nat_def)
  have l: "unat (address AND 0xffffffff) = unat address mod 2 ^ 32"
  proof -
    have "address AND 0xffffffff = take_bit 32 address" by (simp add: take_bit_eq_mask mask_numeral)
    then show ?thesis by (simp only: unsigned_take_bit_eq take_bit_nat_def)
  qed
  have m: "unat address mod 2 ^ 32 < 2 ^ 32" by simp
  have a: "unat address = 2 * 2 ^ 32 + unat address mod 2 ^ 32" using div_mult_mod_eq [of "unat address" "2 ^ 32"] unfolding d by simp
  have "unat bytes \<le> 2 ^ 32 - unat address mod 2 ^ 32"
    using v(3) l m by (simp add: word_le_nat_alt unat_sub)
  then have "unat bytes \<le> 2 ^ 47 - unat address" "unat address < 2 ^ 47" "unat address \<noteq> 0" using a m by simp_all
  then show ?thesis using v(1) unfolding ps5vk_gpu_range_valid_def PS5VK_GPU_ADDRESS_LIMIT_def
    by (simp add: word_le_nat_alt word_less_nat_alt unat_sub) auto
qed

lemma page_round:
  assumes "mesa_ok ms" "0 < unat s" "unat s \<le> 2 ^ 48"
  defines "bytes \<equiv> ms_align64 ms s PS5VK_DIRECT_PAGE_BYTES"
  shows "unat s \<le> unat bytes" "unat bytes \<le> 2 ^ 52" "bytes \<noteq> 0" "bytes mod PS5VK_DIRECT_PAGE_BYTES = 0"
proof -
  have "unat (ms_align64 ms s (2 ^ 14)) = (unat s + 2 ^ 14 - 1) div 2 ^ 14 * 2 ^ 14" using assms(1,3) by (intro unat_align_up) simp_all
  then have u: "unat bytes = (unat s + 16383) div 16384 * 16384" by (simp add: bytes_def PS5VK_DIRECT_PAGE_BYTES_def)
  show le: "unat s \<le> unat bytes"
    using div_mult_mod_eq [of "unat s + 16383" 16384] mod_less_divisor [of 16384 "unat s + 16383"] unfolding u by linarith
  then have "unat bytes \<noteq> 0" using assms(2) by linarith
  then show "bytes \<noteq> 0" by auto
  have "(unat s + 16383) div 16384 * 16384 \<le> unat s + 16383" by (rule div_times_less_eq_dividend)
  then show "unat bytes \<le> 2 ^ 52" using assms(3) unfolding u by simp
  have "unat (bytes mod PS5VK_DIRECT_PAGE_BYTES) = 0" unfolding unat_mod_distrib u by (simp add: PS5VK_DIRECT_PAGE_BYTES_def)
  then show "bytes mod PS5VK_DIRECT_PAGE_BYTES = 0" by (simp only: unat_eq_0)
qed

lemma destroy_nothing:
  assumes "dm_start m = - 1" "dm_address m = 0" "dm_granules m = 0"
  shows "snd (ps5vk_direct_mapping_destroy m st) = (st, [])"
  using assms by (simp add: ps5vk_direct_mapping_destroy_def give_granules_def)

lemma large_page: "ms_align64 sample_mesa 0x200000 PS5VK_DIRECT_PAGE_BYTES = 0x200000" "PS5VK_LARGE_ALIGNMENT \<le> 0x200000"
  by code_simp+

lemma sample_allocation:
  "\<exists>calls. ps5vk_AllocateMemory sample_mesa sample_answers 0x10000000 True 0x200000 1 7 fresh_state =
     (Inr \<lparr>me_direct = granule_mapping 0, me_size = 0x200000, me_type = 1, me_host_mapped = False\<rparr>, 8, granule_state 1 1, calls)"
proof -
  obtain calls where "ps5vk_direct_mapping_create sample_mesa sample_answers 0x200000 PS5VK_LARGE_ALIGNMENT PS5VK_DIRECT_MEMORY fresh_state = Some (0, granule_mapping 0, granule_state 1 1, calls)"
    using first_granules(1) [where alignment = PS5VK_LARGE_ALIGNMENT] unfolding fresh_granules by blast
  then show ?thesis by (simp add: ps5vk_AllocateMemory_def large_page Let_def PS5VK_MEMORY_TYPE_COUNT_def PS5VK_MAX_MEMORY_ALLOCATIONS_def)
qed

text \<open>Device memory may lie outside the 4 GiB window of shader pointers, where the header of \<open>ps5vk_memory.c\<close> says it fails.\<close>

lemma allocate_outside_window:
  "\<exists>memory st' calls. ps5vk_AllocateMemory sample_mesa sample_answers 0x10000000 True 0x200000 1 7 fresh_state = (Inr memory, 8, st', calls) \<and>
     \<not> ps5vk_address_range_valid (dm_address (me_direct memory)) (dm_bytes (me_direct memory))"
  using sample_allocation granule_ranges(1) [of 0] by (auto simp: granule_mapping_def)

text \<open>C30. \<open>vkAllocateMemory\<close> either returns memory of at least the size asked for, at an address the GPU can reach, and counts it, never beyond the limit of 4096; or it
  fails for a reason of memory or of the limit, and then neither its count nor the direct memory has changed, on every path.\<close>

theorem allocate_memory_exact:
  assumes "ps5vk_AllocateMemory ms ka pool made allocation_size memory_type count st = (r, count', st', calls)"
    and "kernel_ok ka" "mesa_ok ms" "memory_type < PS5VK_MEMORY_TYPE_COUNT" "0 < unat allocation_size" "pool \<le> 2 ^ 48"
  shows "case r of
      Inr memory \<Rightarrow> count' = count + 1 \<and> count' \<le> PS5VK_MAX_MEMORY_ALLOCATIONS \<and> unat allocation_size \<le> unat (dm_bytes (me_direct memory)) \<and>
        ps5vk_gpu_range_valid (dm_address (me_direct memory)) (dm_bytes (me_direct memory))
    | Inl e \<Rightarrow> e \<noteq> Memory_error Assertion_failed \<and> count' = count \<and> (\<exists>next. st' = st\<lparr>ds_next := next\<rparr>)"
proof -
  let ?bytes = "ms_align64 ms allocation_size PS5VK_DIRECT_PAGE_BYTES"
  let ?al = "if ?bytes \<ge> PS5VK_LARGE_ALIGNMENT then PS5VK_LARGE_ALIGNMENT else PS5VK_DIRECT_PAGE_BYTES"
  show ?thesis
  proof (cases "pool \<le> 0 \<or> uint allocation_size > pool \<or> count + 1 > PS5VK_MAX_MEMORY_ALLOCATIONS \<or> \<not> made")
    case True
    then show ?thesis using assms(1,4) same_next(1) [of st] by (auto simp: ps5vk_AllocateMemory_def Let_def split: if_splits)
  next
    case early: False
    then have go: "0 < pool" "uint allocation_size \<le> pool" "count + 1 \<le> PS5VK_MAX_MEMORY_ALLOCATIONS" "made" by auto
    have "uint allocation_size \<le> 2 ^ 48" using go(2) assms(6) by (rule order_trans)
    from nat_mono [OF this] have s: "unat allocation_size \<le> 2 ^ 48" by simp
    note page = page_round [OF assms(3,5) s]
    have "ps5vk_direct_mapping_create ms ka ?bytes ?al PS5VK_DIRECT_MEMORY st \<noteq> None"
      using page(3,4) by (auto simp: ps5vk_direct_mapping_create_def Let_def split: prod.splits)
    then obtain result m st1 c1 where create: "ps5vk_direct_mapping_create ms ka ?bytes ?al PS5VK_DIRECT_MEMORY st = Some (result, m, st1, c1)"
      by auto
    show ?thesis
    proof (cases "result = 0")
      case True
      note ok = create_success [OF create [unfolded True] assms(3) page(2)]
      have "ps5vk_gpu_range_valid (dm_address m) ?bytes" using ok(2) window_reachable by blast
      then show ?thesis using assms(1,4) go create True ok(1) page(1) by (auto simp: ps5vk_AllocateMemory_def Let_def)
    next
      case False
      note undone = refused_undone [OF create False assms(2,3) page(2)]
      then have "snd (ps5vk_direct_mapping_destroy m st1) = (st1, [])" by (intro destroy_nothing) simp_all
      then show ?thesis using assms(1,4) go create False undone
        by (auto simp: ps5vk_AllocateMemory_def ps5vk_device_memory_release_def Let_def split: prod.splits)
    qed
  qed
qed

theorem allocate_memory_exact_witness:
  "\<exists>memory st' calls. ps5vk_AllocateMemory sample_mesa sample_answers 0x10000000 True 0x200000 1 7 fresh_state = (Inr memory, 8, st', calls) \<and>
     ps5vk_gpu_range_valid (dm_address (me_direct memory)) (dm_bytes (me_direct memory))"
proof -
  obtain calls where a: "ps5vk_AllocateMemory sample_mesa sample_answers 0x10000000 True 0x200000 1 7 fresh_state =
      (Inr \<lparr>me_direct = granule_mapping 0, me_size = 0x200000, me_type = 1, me_host_mapped = False\<rparr>, 8, granule_state 1 1, calls)"
    using sample_allocation by blast
  show ?thesis using allocate_memory_exact [OF a sample_answers_ok sample_mesa_ok] a
    by (simp add: PS5VK_MEMORY_TYPE_COUNT_def)
qed

end
