(* ===== verification/Vk_Runs.thy ===== *)
theory Vk_Runs
  imports Vk_Image
begin

text \<open>
  Runs of a tile map, \<open>ps5vk_copy_side_run_bytes\<close> of \<open>driver/ps5vk_queue.c\<close>: the texels of a row that a map
  keeps next to each other, so that a copy may move them with one call.
\<close>

section \<open>Maps that keep runs\<close>

text \<open>A map keeps runs of \<open>2\<^sup>r\<close> texels when the low bits of a place are those of \<open>x\<close>, and those bits are nowhere else.\<close>

locale tile_run = tile_map f a b e for f a b e +
  fixes r :: nat
  assumes run: "f (take_bit r x) 0 = push_bit e (take_bit r x)"
    and low: "take_bit (e + r) (f x y) = push_bit e (take_bit r x)"
begin

lemma run_step:
  assumes "take_bit r x = 0" "take_bit r i = i" "take_bit (e + r) k = 0"
  shows "f (x XOR i) y XOR k = (f x y XOR k) + push_bit e i"
proof -
  have s: "f (x XOR i) y = f x y XOR push_bit e i" using linear [of x i y 0] run [of i] assms(2) by simp
  have z: "take_bit (e + r) (f x y XOR k) = 0" using low [of x y] assms(1,3) by simp
  have "\<not> bit (f x y XOR k) n \<or> \<not> bit (push_bit e i) n" for n
  proof (cases "n < e + r")
    case True
    then show ?thesis using arg_cong [OF z, of "\<lambda>w. bit w n"] by (auto simp: bit_simps)
  next
    case False
    then have "\<not> bit i (n - e)" using assms(2) by (metis bit_take_bit_iff less_diff_conv2 nat_le_linear not_less add.commute le_add1 le_trans)
    then show ?thesis by (simp add: bit_push_bit_iff)
  qed
  then have "(f x y XOR k) AND push_bit e i = 0" by (intro bit_word_eqI) (auto simp: bit_simps)
  then show ?thesis unfolding s by (simp add: disjunctive_add_eq_xor ac_simps)
qed

end

lemma tile_runI:
  assumes map: "tile_map f a b e" and "e + r \<le> 16"
    and one: "\<And>x. list_all (\<lambda>n. bit (f (take_bit r x) 0) n = (e \<le> n \<and> bit (take_bit r x) (n - e))) [0..<16]"
    and two: "\<And>x y. list_all (\<lambda>n. bit (f x y) n = (e \<le> n \<and> bit x (n - e))) [0..<e + r]"
  shows "tile_run f a b e r"
proof (intro tile_run.intro tile_run_axioms.intro map)
  fix x y :: u64
  show "f (take_bit r x) 0 = push_bit e (take_bit r x)"
  proof (rule bit_word_eqI)
    fix n :: nat
    assume "n < LENGTH(64)"
    show "bit (f (take_bit r x) 0) n = bit (push_bit e (take_bit r x)) n"
    proof (cases "n < 16")
      case True
      then have "bit (f (take_bit r x) 0) n = (e \<le> n \<and> bit (take_bit r x) (n - e))" using one [of x] by (simp add: list_all_iff)
      then show ?thesis using True by (auto simp: bit_push_bit_iff)
    next
      case False
      then have "\<not> bit (f (take_bit r x) 0) n" using tile_map.inside [OF map, of "take_bit r x" 0] by (metis bit_take_bit_iff)
      then show ?thesis using False assms(2) by (auto simp: bit_simps)
    qed
  qed
  show "take_bit (e + r) (f x y) = push_bit e (take_bit r x)"
  proof (rule bit_word_eqI)
    fix n :: nat
    assume "n < LENGTH(64)"
    show "bit (take_bit (e + r) (f x y)) n = bit (push_bit e (take_bit r x)) n"
    proof (cases "n < e + r")
      case True
      then have "bit (f x y) n = (e \<le> n \<and> bit x (n - e))" using two [of x y] by (simp add: list_all_iff)
      then show ?thesis using True assms(2) by (auto simp: bit_simps)
    qed (auto simp: bit_simps)
  qed
qed

lemma short_lists:
  "[0..<1] = [0]" "[0..<2] = [0, 1]" "[0..<3] = [0, 1, 2]" "[0..<4] = [0, 1, 2, 3]"
  by code_simp+

interpretation run_1b: tile_run "\<lambda>x y. tiled_local ps5vk_tiled_1b_terms x y 0" 8 8 0 3
  by (rule tile_runI [OF map_1b.tile_map_axioms])
    (simp_all add: ps5vk_tiled_1b_terms_def tiled_local_bit upto_lists short_lists bit_take_bit_iff)

interpretation run_2b: tile_run "\<lambda>x y. tiled_local ps5vk_tiled_2b_terms x y 0" 8 7 1 3
  by (rule tile_runI [OF map_2b.tile_map_axioms])
    (simp_all add: ps5vk_tiled_2b_terms_def tiled_local_bit upto_lists short_lists bit_take_bit_iff)

interpretation run_4b: tile_run "\<lambda>x y. tiled_local ps5vk_tiled_4b_terms x y 0" 7 7 2 2
  by (rule tile_runI [OF map_4b.tile_map_axioms])
    (simp_all add: ps5vk_tiled_4b_terms_def tiled_local_bit upto_lists short_lists bit_take_bit_iff)

interpretation run_8b: tile_run "\<lambda>x y. tiled_local ps5vk_tiled_8b_terms x y 0" 7 6 3 1
  by (rule tile_runI [OF map_8b.tile_map_axioms])
    (simp_all add: ps5vk_tiled_8b_terms_def tiled_local_bit upto_lists short_lists bit_take_bit_iff)

interpretation run_16b: tile_run "\<lambda>x y. tiled_local ps5vk_tiled_16b_terms x y 0" 6 6 4 0
  by (rule tile_runI [OF map_16b.tile_map_axioms])
    (simp_all add: ps5vk_tiled_16b_terms_def tiled_local_bit upto_lists short_lists bit_take_bit_iff)

interpretation run_depth2: tile_run "\<lambda>x y. tiled_local ps5vk_tiled_depth2_terms x y 0" 8 7 1 1
  by (rule tile_runI [OF map_depth2.tile_map_axioms])
    (simp_all add: ps5vk_tiled_depth2_terms_def tiled_local_bit upto_lists short_lists bit_take_bit_iff)

interpretation run_stencil: tile_run "\<lambda>x y. tiled_local ps5vk_tiled_stencil_terms x y 0" 8 8 0 1
  by (rule tile_runI [OF map_stencil.tile_map_axioms])
    (simp_all add: ps5vk_tiled_stencil_terms_def tiled_local_bit upto_lists short_lists bit_take_bit_iff)

interpretation run_depth: tile_run "\<lambda>x y. depth_local (ucast x) (ucast y) [0..<7] 0" 7 7 2 1
  by (rule tile_runI [OF map_depth.tile_map_axioms])
    (simp_all add: depth_local_bit depth_x_masks_def depth_y_masks_def upto_lists short_lists bit_simps)

section \<open>Sides that keep runs\<close>

definition run_log :: "u32 \<Rightarrow> nat" where
  "run_log element_bytes =
     (if element_bytes = 1 \<or> element_bytes = 2 then 3 else if element_bytes = 4 then 2 else if element_bytes = 8 then 1 else 0)"

lemma colour_run:
  assumes "tile_shape element_bytes = Some (a, b, e)"
  shows "tile_run (\<lambda>x y. tiled_local (terms_of element_bytes) x y 0) a b e (run_log element_bytes)"
    and "run_log element_bytes < a" "a \<le> 8" "e \<le> 4" "run_log element_bytes \<le> 3" "element_bytes = 8 \<Longrightarrow> run_log element_bytes = 1"
  using assms run_1b.tile_run_axioms run_2b.tile_run_axioms run_4b.tile_run_axioms run_8b.tile_run_axioms run_16b.tile_run_axioms
  by (auto simp: tile_shape_def terms_of_def run_log_def split: if_splits)

lemma depth_run:
  assumes "depth_shape element_bytes = (a, b, e)"
  shows "tile_run (depth_map element_bytes) a b e 1"
  using assms run_stencil.tile_run_axioms run_depth2.tile_run_axioms run_depth.tile_run_axioms
  by (auto simp: depth_shape_def depth_map_def [abs_def] split: if_splits)

lemma add_low:
  assumes "take_bit r x = 0" "take_bit r i = (i :: 'a::len word)"
  shows "x + i = x XOR i"
proof -
  have "\<not> bit x n \<or> \<not> bit i n" for n
    using arg_cong [OF assms(1), of "\<lambda>w. bit w n"] arg_cong [OF assms(2), of "\<lambda>w. bit w n"] by (auto simp: bit_take_bit_iff)
  then have "x AND i = 0" by (intro bit_word_eqI) (auto simp: bit_simps)
  then show ?thesis by (rule disjunctive_add_eq_xor)
qed

lemma low_parts:
  fixes x i :: u32
  assumes "take_bit r x = 0" "take_bit r i = i" "r \<le> a" "a < 32"
  shows "(x + i) div 2 ^ a = x div 2 ^ a" "take_bit a (x + i) = take_bit a x XOR i"
proof -
  have i: "take_bit a i = i" using assms(2,3) by (metis min.absorb2 take_bit_take_bit)
  have d: "drop_bit a i = 0" by (subst i [symmetric]) (rule bit_word_eqI, auto simp: bit_simps)
  show "(x + i) div 2 ^ a = x div 2 ^ a"
    unfolding add_low [OF assms(1,2)] drop_bit_eq_div [symmetric] by (simp add: drop_bit_xor d)
  show "take_bit a (x + i) = take_bit a x XOR i" unfolding add_low [OF assms(1,2)] by (simp add: i)
qed

lemma turned_step:
  fixes x i :: u32
  assumes "take_bit r x = 0" "take_bit r i = i" "r < a" "a \<le> 8" "turned x y (2 ^ a) (2 ^ b) element_bytes samples = (u, v)"
  shows "turned (x + i) y (2 ^ a) (2 ^ b) element_bytes samples = (u XOR i, v)"
proof -
  have "r \<le> a" "a < 32" using assms(3,4) by auto
  then show ?thesis
    using assms(5) unfolding turned_def Let_def low_mask low_parts [OF assms(1,2) \<open>r \<le> a\<close> \<open>a < 32\<close>]
    by (auto simp: xor.assoc xor.commute [of i] split: if_splits)
qed

lemma turned_low:
  fixes x :: u32
  assumes "take_bit r x = 0" "r < a" "a \<le> 8" "element_bytes = 8 \<Longrightarrow> r \<le> 5" "turned x y (2 ^ a) (2 ^ b) element_bytes samples = (u, v)"
  shows "take_bit r u = 0"
proof -
  have t: "take_bit r (take_bit a x) = 0" using assms(1,2) by simp
  have m: "take_bit r (w * 2 ^ k :: u32) = 0" if "r \<le> k" for w k
    using that by (intro bit_word_eqI) (auto simp: bit_simps simp flip: push_bit_eq_mult)
  have h: "(2 ^ a :: u32) div 2 = 2 ^ (a - 1)" using turn_amount(1) [of a] assms(2,3) by simp
  have "r \<le> a - 1" using assms(2) by simp
  then show ?thesis
    using assms(5) m [of "a - 1"] m [of 5] assms(4) t unfolding turned_def Let_def low_mask h
    by (auto simp: xor.assoc split: if_splits)
qed

text \<open>The place of a texel and that of the next ones of its run, in a colour tile and in a depth tile.\<close>

lemma colour_step:
  fixes x i :: u32
  assumes "tile_shape element_bytes = Some (a, b, e)" "take_bit (run_log element_bytes) x = 0" "take_bit (run_log element_bytes) i = i"
    and "take_bit (e + run_log element_bytes) k = 0"
    and "ps5vk_tiled_texel_offset x y w (2 ^ a) (2 ^ b) element_bytes 1 = (t, s)"
    and "ps5vk_tiled_texel_offset (x + i) y w (2 ^ a) (2 ^ b) element_bytes 1 = (t', s')"
  shows "t' = t" "s' XOR k = (s XOR k) + push_bit e (ucast i)"
proof -
  let ?r = "run_log element_bytes"
  note run = colour_run [OF assms(1)]
  have g: "tiled_texel_general v y w (2 ^ a) (2 ^ b) element_bytes 1 = ps5vk_tiled_texel_offset v y w (2 ^ a) (2 ^ b) element_bytes 1" for v
    using fast_is_general unfolding ps5vk_tiled_texel_offset_def by auto
  obtain u v where u: "turned x y (2 ^ a) (2 ^ b) element_bytes 1 = (u, v)" by (metis prod.exhaust)
  note step = turned_step [OF assms(2,3) run(2,3) u]
  have l: "take_bit ?r u = 0" using turned_low [OF assms(2) run(2,3) _ u] run(6) by simp
  have d: "(x + i) div 2 ^ a = x div 2 ^ a" using low_parts(1) [OF assms(2,3)] run(2,3) by simp
  have parts: "t = t'" "s = tiled_local (terms_of element_bytes) (ucast u) (ucast v) 0"
    "s' = tiled_local (terms_of element_bytes) (ucast (u XOR i)) (ucast v) 0"
    using assms(5,6) unfolding g [symmetric] tiled_texel_general_def Let_def u step d by auto
  then show "t' = t" by simp
  have c: "take_bit ?r (ucast u :: u64) = 0" "take_bit ?r (ucast i :: u64) = ucast i"
    using l assms(3) run(5) by (simp_all flip: unsigned_take_bit_eq)
  show "s' XOR k = (s XOR k) + push_bit e (ucast i)"
    unfolding parts(2,3) ucast_xor by (rule tile_run.run_step [OF run(1) c assms(4)])
qed

lemma depth_step:
  fixes x i :: u32
  assumes "take_bit 1 x = 0" "take_bit 1 i = i" "element_bytes \<in> {1, 2, 4}"
  shows "ps5vk_tiled_depth_offset (x + i) y w element_bytes = ps5vk_tiled_depth_offset x y w element_bytes + ucast i * ucast element_bytes"
proof -
  obtain a b e where shape: "depth_shape element_bytes = (a, b, e)" by (metis prod.exhaust)
  note run = depth_run [OF shape]
  have ae: "1 \<le> a" "a < 32" "(ucast element_bytes :: u64) = 2 ^ e"
    using shape assms(3) by (auto simp: depth_shape_def split: if_splits)
  note parts = low_parts [OF assms(1,2) ae(1,2)]
  have c: "take_bit 1 (ucast (take_bit a x) :: u64) = 0" "take_bit 1 (ucast i :: u64) = ucast i"
    using assms(1,2) ae(1) by (simp_all flip: unsigned_take_bit_eq)
  have s: "depth_map element_bytes (ucast (take_bit a (x + i))) (ucast (take_bit b y)) =
      depth_map element_bytes (ucast (take_bit a x)) (ucast (take_bit b y)) + push_bit e (ucast i)"
    unfolding parts(2) ucast_xor using tile_run.run_step [OF run c, of 0] by simp
  have m: "v AND 255 = take_bit 8 v" "v AND 127 = take_bit 7 v" for v :: u32 using low_mask [of v 8] low_mask [of v 7] by simp_all
  have u: "ucast (ucast v :: u64) = v" for v :: u32 by (rule bit_word_eqI) (auto simp: bit_simps)
  have o: "ps5vk_tiled_depth_offset v y w element_bytes =
      (drop_bit b (ucast y) * ucast (DIV_ROUND_UP w (2 ^ a)) + ucast (v div 2 ^ a)) * PS5VK_TILE_BYTES
        + depth_map element_bytes (ucast (take_bit a v)) (ucast (take_bit b y))" for v
    using shape assms(3) drop_bit_eq_div [of 8 v] drop_bit_eq_div [of 7 v] depth_local_low [of "[0..<7]" v y]
    by (auto simp: ps5vk_tiled_depth_offset_def depth_map_def depth_shape_def m u split: if_splits)
  show ?thesis unfolding o s parts(1) ae(3) by (simp add: push_bit_eq_mult)
qed

text \<open>A side keeps runs of \<open>2\<^sup>r\<close> texels: from a column that is a multiple of it, the texels of a run lie one after the other.\<close>

definition run_side :: "copy_side \<Rightarrow> u32 \<Rightarrow> nat \<Rightarrow> bool" where
  "run_side side texel_bytes r \<longleftrightarrow>
     (\<forall>x y i s. take_bit r x = 0 \<longrightarrow> take_bit r i = i \<longrightarrow> unat x + unat i < 2 ^ 31 \<longrightarrow>
        ps5vk_image_copy_address side (x + i) y texel_bytes s =
        ps5vk_image_copy_address side x y texel_bytes s + ucast i * ucast texel_bytes)"

lemma colour_side_runs:
  assumes "cs_tiled side" "\<not> cs_depth side" "cs_samples side = 1" "tile_shape (cs_element_bytes side) = Some (a, b, e)"
    and "cs_tile_width side = 2 ^ a" "cs_tile_height side = 2 ^ b"
    and "take_bit (e + run_log (cs_element_bytes side)) (cs_tile_xor side) = 0"
  shows "run_side side (cs_element_bytes side) (run_log (cs_element_bytes side))"
  unfolding run_side_def
proof (intro allI impI)
  fix x y i s :: u32
  let ?b = "cs_element_bytes side" and ?w = "cs_level_width side"
  assume x: "take_bit (run_log ?b) x = 0" and i: "take_bit (run_log ?b) i = i"
  obtain t s1 where p: "ps5vk_tiled_texel_offset x y ?w (2 ^ a) (2 ^ b) ?b 1 = (t, s1)" by (metis prod.exhaust)
  obtain t' s2 where q: "ps5vk_tiled_texel_offset (x + i) y ?w (2 ^ a) (2 ^ b) ?b 1 = (t', s2)" by (metis prod.exhaust)
  have k: "take_bit (e + run_log ?b) (ucast (cs_tile_xor side) :: u64) = 0"
    using assms(7) colour_run(4,5) [OF assms(4)] by (simp flip: unsigned_take_bit_eq)
  have e: "(ucast ?b :: u64) = 2 ^ e" using assms(4) by (auto simp: tile_shape_def split: if_splits)
  show "ps5vk_image_copy_address side (x + i) y ?b s = ps5vk_image_copy_address side x y ?b s + ucast i * ucast ?b"
    using colour_step [OF assms(4) x i k p q] assms(1-3,5,6) unfolding e
    by (simp add: ps5vk_image_copy_address_def p q push_bit_eq_mult add.assoc)
qed

lemma depth_side_runs:
  assumes "cs_tiled side" "cs_depth side" "cs_samples side = 1" "texel_bytes \<in> {1, 2, 4}"
  shows "run_side side texel_bytes 1"
  unfolding run_side_def
proof (intro allI impI)
  fix x y i s :: u32
  assume a: "take_bit 1 x = 0" "take_bit 1 i = i" "unat x + unat i < 2 ^ 31"
  have "unat (x + i) = unat x + unat i" using a(3) by (subst unat_word_ariths(1)) simp
  then have n: "not_negative x = x" "not_negative (x + i) = x + i" using a(3) by (auto intro: not_negative_small)
  show "ps5vk_image_copy_address side (x + i) y texel_bytes s = ps5vk_image_copy_address side x y texel_bytes s + ucast i * ucast texel_bytes"
    using assms(1-3) depth_step [OF a(1,2) assms(4)] by (simp add: ps5vk_image_copy_address_def n add.assoc)
qed

lemma linear_side_runs:
  assumes "\<not> cs_tiled side"
  shows "run_side side texel_bytes r"
  unfolding run_side_def
proof (intro allI impI)
  fix x y i s :: u32
  assume a: "unat x + unat i < 2 ^ 31"
  have u: "unat (x + i) = unat x + unat i" using a by (subst unat_word_ariths(1)) simp
  have "unat (ucast (x + i) :: u64) = unat (ucast x + ucast i :: u64)"
    using a u by (simp add: unat_word_ariths(1) unsigned_ucast_eq take_bit_nat_eq_self)
  then have "scast (x + i) = (scast x + ucast i :: u64)" using a u by (simp add: scast_nonneg word_unat_eq_iff)
  then show "ps5vk_image_copy_address side (x + i) y texel_bytes s = ps5vk_image_copy_address side x y texel_bytes s + ucast i * ucast texel_bytes"
    using assms by (simp add: ps5vk_image_copy_address_def algebra_simps)
qed

end
