(* ===== verification/Vk_Copy.thy ===== *)
theory Vk_Copy
  imports Vk_Runs
begin

text \<open>
  Copies that the CPU makes between the words of a submission, \<open>driver/ps5vk_queue.c\<close>: uploads into tiled
  images, image copies and readbacks. Memory is a function from addresses to bytes;
  \<open>memcpy\<close> copies upwards (what it does to overlapping ranges, C leaves open).
\<close>

type_synonym memory = "u64 \<Rightarrow> u8"

record memory_copy =
  mc_source :: u64
  mc_source_pitch :: u64
  mc_source_side :: copy_side
  mc_destination_side :: copy_side
  mc_source_x :: u32
  mc_source_y :: u32
  mc_destination_x :: u32
  mc_destination_y :: u32
  mc_width :: u32
  mc_height :: u32
  mc_source_texel_bytes :: u32
  mc_destination_texel_bytes :: u32
  mc_reverse_texel_bytes :: u32
  mc_clear_texel :: "u8 list"
  mc_source_span :: u64
  mc_source_span_bytes :: u64

section \<open>Moving bytes\<close>

fun memcpy :: "memory \<Rightarrow> u64 \<Rightarrow> u64 \<Rightarrow> nat \<Rightarrow> memory" where
  "memcpy m dst src 0 = m"
| "memcpy m dst src (Suc n) = memcpy (m(dst := m src)) (dst + 1) (src + 1) n"

text \<open>One texel with its bytes in the other order, and a run of such texels.\<close>

definition reverse_texel :: "memory \<Rightarrow> u64 \<Rightarrow> u64 \<Rightarrow> nat \<Rightarrow> memory" where
  "reverse_texel m dst src n = fold (\<lambda>k m. m(dst + of_nat k := m (src + of_nat (n - 1 - k)))) [0..<n] m"

fun reverse_run :: "memory \<Rightarrow> u64 \<Rightarrow> u64 \<Rightarrow> nat \<Rightarrow> nat \<Rightarrow> memory" where
  "reverse_run m dst src n 0 = m"
| "reverse_run m dst src n (Suc count) = reverse_run (reverse_texel m dst src n) (dst + of_nat n) (src + of_nat n) n count"

definition move_run :: "memory_copy \<Rightarrow> memory \<Rightarrow> u64 \<Rightarrow> u64 \<Rightarrow> nat \<Rightarrow> nat \<Rightarrow> memory" where
  "move_run copy m dst src n count =
     (if mc_reverse_texel_bytes copy = 0 then memcpy m dst src (count * n) else reverse_run m dst src n count)"

section \<open>Runs\<close>

definition PS5VK_TILED_RUN_BYTES :: u64 where "PS5VK_TILED_RUN_BYTES = 16"

definition ps5vk_copy_side_run_bytes :: "copy_side \<Rightarrow> u32 \<Rightarrow> u64" where
  "ps5vk_copy_side_run_bytes side texel_bytes =
     (if \<not> cs_tiled side then UINT64_MAX
      else if cs_depth side then (if cs_samples side = 4 then ucast texel_bytes else 2 * ucast (cs_element_bytes side))
      else if cs_element_bytes side = 1 then 8 else PS5VK_TILED_RUN_BYTES)"

section \<open>Uploads into tiles\<close>

definition upload_run_texels :: "memory_copy \<Rightarrow> nat" where
  "upload_run_texels copy =
     (let texel_bytes = mc_destination_texel_bytes copy;
          run_limit = ps5vk_copy_side_run_bytes (mc_destination_side copy) texel_bytes
      in if run_limit \<noteq> UINT64_MAX \<and> run_limit \<ge> ucast texel_bytes \<and>
            ucast (cs_tile_xor (mc_destination_side copy)) AND (run_limit - 1) = 0
         then unat (ucast (run_limit div ucast texel_bytes) :: u32) else 1)"

text \<open>
  The loop over the columns of a row: the memory, and the lowest and the highest address written so far.
  A run of no texels, which would be a division by 0, ends it; there is none.
\<close>

function write_row :: "memory_copy \<Rightarrow> nat \<Rightarrow> u64 \<Rightarrow> u32 \<Rightarrow> nat \<Rightarrow> memory \<times> u64 \<times> u64 \<Rightarrow> memory \<times> u64 \<times> u64" where
  "write_row copy run row_source y x (m, low, high) =
     (if unat (mc_width copy) \<le> x \<or> run = 0 then (m, low, high)
      else let texel_bytes = mc_destination_texel_bytes copy;
               column = mc_destination_x copy + of_nat x;
               count = min (run - unat column mod run) (unat (mc_width copy) - x);
               destination = ps5vk_image_copy_address (mc_destination_side copy) column y texel_bytes 0;
               texels = row_source + of_nat x * ucast texel_bytes
           in write_row copy run row_source y (x + count)
                (move_run copy m destination texels (unat texel_bytes) count,
                 min low destination, max high (destination + of_nat (count * unat texel_bytes))))"
  by pat_completeness auto
termination
proof (relation "measure (\<lambda>(copy, run, row_source, y, x, st). unat (mc_width copy) - x)", goal_cases)
  case (2 copy run row_source y x m low high)
  have "unat v mod run < run" for v :: u32 using 2 by (intro mod_less_divisor) simp
  then have "0 < min (run - unat v mod run) (unat (mc_width copy) - x)" for v :: u32 using 2 by simp
  then show ?case using 2 by (simp add: diff_less_mono2)
qed simp

declare write_row.simps [simp del]

definition write_rows :: "memory_copy \<Rightarrow> memory \<Rightarrow> memory \<times> u64 \<times> u64" where
  "write_rows copy m =
     fold (\<lambda>row st. write_row copy (upload_run_texels copy) (mc_source copy + of_nat row * mc_source_pitch copy)
                     (mc_destination_y copy + of_nat row) 0 st)
       [0..<unat (mc_height copy)] (m, UINT64_MAX, 0)"

definition flush_span :: "u64 \<Rightarrow> u64 \<Rightarrow> (u64 \<times> u64) list" where
  "flush_span low high = (if low < high then [(low, high - low)] else [])"

text \<open>The memory after an upload, and the two spans that the CPU cache was flushed for: the source before it and what was written after it.\<close>

definition ps5vk_image_write_execute :: "memory_copy \<Rightarrow> memory \<Rightarrow> memory \<times> (u64 \<times> u64) list" where
  "ps5vk_image_write_execute copy m =
     (case write_rows copy m of (m', low, high) \<Rightarrow>
       (m', (mc_source copy, mc_source_pitch copy * ucast (mc_height copy - 1) +
               ucast (mc_width copy) * ucast (mc_destination_texel_bytes copy)) #
            flush_span low high))"

section \<open>Image copies and readbacks\<close>

datatype copy_pass = PS5VK_COPY_EVICT_SOURCE | PS5VK_COPY_RUNS | PS5VK_COPY_EVICT_DESTINATION

definition copy_run_texels :: "memory_copy \<Rightarrow> nat" where
  "copy_run_texels copy =
     (let texel_bytes = mc_source_texel_bytes copy;
          limit = min (ps5vk_copy_side_run_bytes (mc_source_side copy) texel_bytes)
                      (ps5vk_copy_side_run_bytes (mc_destination_side copy) texel_bytes)
      in if limit = UINT64_MAX then max (unat (mc_width copy)) 1 else max (unat (limit div ucast texel_bytes)) 1)"

text \<open>The loop counters of a row, \<open>for (at = 0; at < limit; at += step)\<close>, in texels.\<close>

function steps :: "nat \<Rightarrow> nat \<Rightarrow> nat \<Rightarrow> nat list" where
  "steps step at limit = (if at < limit \<and> 0 < step then at # steps step (at + step) limit else [])"
  by pat_completeness auto
termination
  by (relation "measure (\<lambda>(step, at, limit). limit - at)") auto

declare steps.simps [simp del]

record pass_state =
  ps_memory :: memory
  ps_last_line :: u64
  ps_evicted :: "(u64 \<times> nat) list"

definition source_place :: "memory_copy \<Rightarrow> nat \<Rightarrow> nat \<Rightarrow> u64" where
  "source_place copy row x =
     ps5vk_image_copy_address (mc_source_side copy) (mc_source_x copy + of_nat x) (mc_source_y copy + of_nat row)
       (mc_source_texel_bytes copy) 0"

definition destination_place :: "memory_copy \<Rightarrow> nat \<Rightarrow> nat \<Rightarrow> u64" where
  "destination_place copy row x =
     ps5vk_image_copy_address (mc_destination_side copy) (mc_destination_x copy + of_nat x) (mc_destination_y copy + of_nat row)
       (mc_source_texel_bytes copy) 0"

text \<open>A run of \<open>run_bytes\<close> bytes in the line evicted last is not evicted again.\<close>

definition evict_run :: "u64 \<Rightarrow> nat \<Rightarrow> pass_state \<Rightarrow> pass_state" where
  "evict_run address run_bytes st =
     (let evicted = (if 64 < run_bytes \<or> drop_bit 6 address \<noteq> ps_last_line st
                     then ps_evicted st @ [(address, run_bytes)] else ps_evicted st)
      in st\<lparr>ps_evicted := evicted, ps_last_line := drop_bit 6 (address + of_nat run_bytes - 1)\<rparr>)"

definition copy_step :: "memory_copy \<Rightarrow> copy_pass \<Rightarrow> nat \<Rightarrow> nat \<Rightarrow> pass_state \<Rightarrow> pass_state" where
  "copy_step copy pass row x st =
     (let n = unat (mc_source_texel_bytes copy); count = min (unat (mc_width copy) - x) (copy_run_texels copy)
      in case pass of
           PS5VK_COPY_EVICT_SOURCE \<Rightarrow> evict_run (source_place copy row x) (count * n) st
         | PS5VK_COPY_EVICT_DESTINATION \<Rightarrow> evict_run (destination_place copy row x) (count * n) st
         | PS5VK_COPY_RUNS \<Rightarrow>
             st\<lparr>ps_memory := move_run copy (ps_memory st) (destination_place copy row x) (source_place copy row x) n count\<rparr>)"

definition ps5vk_image_copy_pass :: "memory_copy \<Rightarrow> copy_pass \<Rightarrow> memory \<Rightarrow> pass_state" where
  "ps5vk_image_copy_pass copy pass m =
     fold (\<lambda>row st. fold (copy_step copy pass row) (steps (copy_run_texels copy) 0 (unat (mc_width copy))) st)
       [0..<unat (mc_height copy)] \<lparr>ps_memory = m, ps_last_line = UINT64_MAX, ps_evicted = []\<rparr>"

text \<open>The whole copy: the source lines evicted before it, the memory after it and the destination lines evicted after it.\<close>

definition ps5vk_image_copy_execute :: "memory_copy \<Rightarrow> memory \<Rightarrow> (u64 \<times> nat) list \<times> memory \<times> (u64 \<times> nat) list" where
  "ps5vk_image_copy_execute copy m =
     (let before = ps_evicted (ps5vk_image_copy_pass copy PS5VK_COPY_EVICT_SOURCE m);
          m' = ps_memory (ps5vk_image_copy_pass copy PS5VK_COPY_RUNS m)
      in (before, m', ps_evicted (ps5vk_image_copy_pass copy PS5VK_COPY_EVICT_DESTINATION m')))"

section \<open>A run at a time is a texel at a time\<close>

definition move_texel :: "memory_copy \<Rightarrow> memory \<Rightarrow> u64 \<Rightarrow> u64 \<Rightarrow> nat \<Rightarrow> memory" where
  "move_texel copy m dst src n = (if mc_reverse_texel_bytes copy = 0 then memcpy m dst src n else reverse_texel m dst src n)"

lemma memcpy_append: "memcpy m dst src (k + n) = memcpy (memcpy m dst src k) (dst + of_nat k) (src + of_nat k) n"
  by (induction k arbitrary: m dst src) (simp_all add: ac_simps)

lemma memcpy_below:
  assumes "unat a < unat dst" "unat dst + n \<le> 2 ^ 64"
  shows "memcpy m dst src n a = m a"
  using assms
proof (induction n arbitrary: m dst src)
  case (Suc n)
  show ?case
  proof (cases n)
    case 0
    then show ?thesis using Suc.prems by auto
  next
    case (Suc k)
    then have "unat (dst + 1) = unat dst + 1" using Suc.prems(2) by (simp add: unat_word_ariths(1))
    then have "memcpy (m(dst := m src)) (dst + 1) (src + 1) n a = (m(dst := m src)) a" using Suc.prems by (intro Suc.IH) simp_all
    then show ?thesis using Suc.prems(1) by auto
  qed
qed simp

lemma memcpy_first:
  assumes "0 < n" "unat dst + n \<le> 2 ^ 64"
  shows "memcpy m dst src n dst = m src"
proof (cases "n = 1")
  case False
  then obtain k where n: "n = Suc k" "0 < k" using assms(1) by (cases n) auto
  then have "unat (dst + 1) = unat dst + 1" using assms(2) by (simp add: unat_word_ariths(1))
  then show ?thesis using memcpy_below [of dst "dst + 1" k] assms(2) n(1) by simp
qed simp

lemma move_run_Suc:
  "move_run copy m dst src n (Suc count) = move_run copy (move_texel copy m dst src n) (dst + of_nat n) (src + of_nat n) n count"
  by (simp add: move_run_def move_texel_def memcpy_append)

lemma move_run_texels:
  assumes "\<And>j. j < count \<Longrightarrow> p j = at0 + of_nat (j * n)" "\<And>j. j < count \<Longrightarrow> q j = src0 + of_nat (j * n)"
  shows "move_run copy m at0 src0 n count = fold (\<lambda>j m. move_texel copy m (p j) (q j) n) [0..<count] m"
  using assms
proof (induction count arbitrary: m at0 src0 p q)
  case 0
  then show ?case by (simp add: move_run_def)
next
  case (Suc count)
  have "move_run copy m' (at0 + of_nat n) (src0 + of_nat n) n count =
      fold (\<lambda>j m. move_texel copy m (p (Suc j)) (q (Suc j)) n) [0..<count] m'" for m'
    by (rule Suc.IH) (simp_all add: Suc.prems algebra_simps)
  moreover have "[0..<Suc count] = 0 # map Suc [0..<count]" by (simp add: upt_conv_Cons map_Suc_upt del: upt_Suc)
  ultimately show ?case unfolding move_run_Suc using Suc.prems [of 0] by (simp add: fold_map comp_def)
qed

text \<open>Within a run, the columns of a side follow each other.\<close>

lemma unat_bound_low:
  assumes "unat (i :: u32) < 2 ^ r"
  shows "take_bit r i = i"
  using assms by (metis take_bit_nat_eq_self unsigned_take_bit_eq word_unat_eq_iff)

lemma run_side_columns:
  assumes "run_side side texel_bytes r" "r < 31" "unat x mod 2 ^ r + j < 2 ^ r" "unat x + j < 2 ^ 31"
  shows "ps5vk_image_copy_address side (x + of_nat j) y texel_bytes s =
    ps5vk_image_copy_address side x y texel_bytes s + of_nat (j * unat texel_bytes)"
proof -
  define base where "base = push_bit r (drop_bit r x)"
  have low: "unat (take_bit r x) = unat x mod 2 ^ r" by (simp only: unsigned_take_bit_eq take_bit_nat_def)
  have sum: "base + take_bit r x = x" by (simp add: base_def bits_ident)
  have z: "take_bit r base = 0" by (simp add: base_def take_bit_push_bit)
  have "(2 :: nat) ^ r < 2 ^ 31" using assms(2) by (intro power_strict_increasing) auto
  then have b: "unat x mod 2 ^ r + j < 2 ^ 31" using assms(3) by linarith
  define i where "i = take_bit r x + of_nat j"
  have i: "unat i = unat x mod 2 ^ r + j"
    using b by (simp add: i_def unat_word_ariths(1) low unsigned_of_nat take_bit_nat_eq_self)
  have "base = x - take_bit r x" using sum by (simp add: algebra_simps)
  moreover have "take_bit r x \<le> x" by (simp add: word_le_nat_alt low)
  ultimately have ub: "unat base = unat x - unat x mod 2 ^ r" by (simp add: unat_sub low)
  have m: "unat x mod 2 ^ r \<le> unat x" by simp
  have s: "ps5vk_image_copy_address side (base + k) y texel_bytes s = ps5vk_image_copy_address side base y texel_bytes s + ucast k * ucast texel_bytes"
    if "take_bit r k = k" "unat base + unat k < 2 ^ 31" for k
    using assms(1) z that unfolding run_side_def by blast
  have one: "ps5vk_image_copy_address side x y texel_bytes s = ps5vk_image_copy_address side base y texel_bytes s + ucast (take_bit r x) * ucast texel_bytes"
    using s [of "take_bit r x"] assms(4) m ub low sum by simp
  have xi: "x + of_nat j = base + i" using sum by (simp add: i_def algebra_simps)
  have two: "ps5vk_image_copy_address side (x + of_nat j) y texel_bytes s = ps5vk_image_copy_address side base y texel_bytes s + ucast i * ucast texel_bytes"
    unfolding xi using s [of i] unat_bound_low [of i r] assms(3,4) i ub m by simp
  have "unat (ucast i :: u64) = unat (ucast (take_bit r x) + of_nat j :: u64)"
    using b i by (simp add: unat_word_ariths(1) unsigned_ucast_eq low unsigned_of_nat take_bit_nat_eq_self)
  then have c: "(ucast i :: u64) = ucast (take_bit r x) + of_nat j" by (simp only: word_unat_eq_iff)
  have t: "(ucast texel_bytes :: u64) = of_nat (unat texel_bytes)" by simp
  show ?thesis unfolding one two c t by (simp add: algebra_simps)
qed

lemma fold_shift: "fold (\<lambda>j. g (x + j)) [0..<c] m = fold g [x..<x + c] m"
  by (induction c) simp_all

definition upload_place :: "memory_copy \<Rightarrow> nat \<Rightarrow> nat \<Rightarrow> u64" where
  "upload_place copy row x =
     ps5vk_image_copy_address (mc_destination_side copy) (mc_destination_x copy + of_nat x) (mc_destination_y copy + of_nat row)
       (mc_destination_texel_bytes copy) 0"

definition upload_source :: "memory_copy \<Rightarrow> nat \<Rightarrow> nat \<Rightarrow> u64" where
  "upload_source copy row x = mc_source copy + of_nat row * mc_source_pitch copy + of_nat x * ucast (mc_destination_texel_bytes copy)"

text \<open>The upload as it would be without runs.\<close>

definition write_texels :: "memory_copy \<Rightarrow> memory \<Rightarrow> memory" where
  "write_texels copy m =
     fold (\<lambda>row. fold (\<lambda>x m. move_texel copy m (upload_place copy row x) (upload_source copy row x) (unat (mc_destination_texel_bytes copy)))
       [0..<unat (mc_width copy)]) [0..<unat (mc_height copy)] m"

lemma write_row_texels:
  assumes "run_side (mc_destination_side copy) (mc_destination_texel_bytes copy) r" "r < 31" "run = 2 ^ r"
    and "unat (mc_destination_x copy) + unat (mc_width copy) < 2 ^ 31"
  shows "fst (write_row copy run (mc_source copy + of_nat row * mc_source_pitch copy) (mc_destination_y copy + of_nat row) x (m, low, high)) =
    fold (\<lambda>x m. move_texel copy m (upload_place copy row x) (upload_source copy row x) (unat (mc_destination_texel_bytes copy)))
      [x..<unat (mc_width copy)] m"
    (is "_ = fold ?g _ m")
proof (induction "unat (mc_width copy) - x" arbitrary: x m low high rule: less_induct)
  case less
  let ?W = "unat (mc_width copy)" and ?n = "unat (mc_destination_texel_bytes copy)" and ?d = "mc_destination_x copy"
  show ?case
  proof (cases "?W \<le> x")
    case True
    then show ?thesis by (simp add: write_row.simps)
  next
    case False
    let ?c = "min (run - unat (?d + of_nat x) mod run) (?W - x)"
    have "unat (?d + of_nat x) mod run < run" using assms(3) by simp
    then have c: "0 < ?c" "x + ?c \<le> ?W" "unat (?d + of_nat x) mod run + ?c \<le> run" using False by auto
    have d: "unat (?d + of_nat x) = unat ?d + x"
      using assms(4) False by (simp add: unat_word_ariths(1) unsigned_of_nat take_bit_nat_eq_self)
    have "move_run copy m (upload_place copy row x) (upload_source copy row x) ?n ?c =
        fold (\<lambda>j m. move_texel copy m (upload_place copy row (x + j)) (upload_source copy row (x + j)) ?n) [0..<?c] m"
    proof (rule move_run_texels)
      fix j assume j: "j < ?c"
      have "unat (?d + of_nat x) mod run + j < run" "x + j < ?W" using j c(2,3) by (meson add_strict_left_mono less_le_trans)+
      then have "unat (?d + of_nat x) mod 2 ^ r + j < 2 ^ r" "unat (?d + of_nat x) + j < 2 ^ 31" unfolding assms(3) d using assms(4) by simp_all
      then show "upload_place copy row (x + j) = upload_place copy row x + of_nat (j * ?n)"
        using run_side_columns [OF assms(1,2), of "?d + of_nat x" j] by (simp add: upload_place_def add.assoc)
      have t: "(ucast (mc_destination_texel_bytes copy) :: u64) = of_nat ?n" by simp
      show "upload_source copy row (x + j) = upload_source copy row x + of_nat (j * ?n)"
        unfolding upload_source_def t by (simp add: algebra_simps)
    qed
    also have "\<dots> = fold ?g [x..<x + ?c] m" by (rule fold_shift)
    finally have run: "move_run copy m (upload_place copy row x) (upload_source copy row x) ?n ?c = fold ?g [x..<x + ?c] m" .
    have split: "[x..<?W] = [x..<x + ?c] @ [x + ?c..<?W]" using c(2) upt_add_eq_append [of x "x + ?c" "?W - (x + ?c)"] by simp
    have smaller: "?W - (x + ?c) < ?W - x" using c(1) False by simp
    have "write_row copy run (mc_source copy + of_nat row * mc_source_pitch copy) (mc_destination_y copy + of_nat row) x (m, low, high) =
        write_row copy run (mc_source copy + of_nat row * mc_source_pitch copy) (mc_destination_y copy + of_nat row) (x + ?c)
          (move_run copy m (upload_place copy row x) (upload_source copy row x) ?n ?c,
           min low (upload_place copy row x), max high (upload_place copy row x + of_nat (?c * ?n)))"
      using False assms(3) by (subst write_row.simps) (simp add: Let_def upload_place_def upload_source_def)
    then show ?thesis unfolding split using less [OF smaller] run by simp
  qed
qed

text \<open>The sides an upload is recorded with: the tiles of a colour image of one sample, or of a depth or stencil plane.\<close>

definition upload_side :: "copy_side \<Rightarrow> u32 \<Rightarrow> bool" where
  "upload_side side texel_bytes \<longleftrightarrow>
     cs_tiled side \<and> cs_samples side = 1 \<and> cs_element_bytes side = texel_bytes \<and>
     (if cs_depth side then texel_bytes \<in> {1, 2, 4}
      else texel_bytes \<in> {1, 2, 4, 8, 16} \<and>
        (cs_tile_width side, cs_tile_height side) = ps5vk_tile_extent (\<lambda>_. 0) texel_bytes False 1)"

lemma one_texel_runs: "run_side side texel_bytes 0"
  by (simp add: run_side_def)

lemma colour_upload_side:
  assumes "upload_side side texel_bytes" "\<not> cs_depth side"
    and "take_bit (if texel_bytes = 1 then 3 else 4) (cs_tile_xor side) = 0"
  shows "run_side side texel_bytes (run_log texel_bytes)"
proof -
  have s: "cs_tiled side" "cs_samples side = 1" "cs_element_bytes side = texel_bytes" "texel_bytes \<in> {1, 2, 4, 8, 16}"
    "(cs_tile_width side, cs_tile_height side) = ps5vk_tile_extent (\<lambda>_. 0) texel_bytes False 1"
    using assms(1,2) by (simp_all add: upload_side_def)
  obtain a b e where shape: "tile_shape texel_bytes = Some (a, b, e)" using s(4) by (auto simp: tile_shape_def)
  have ext: "cs_tile_width side = 2 ^ a" "cs_tile_height side = 2 ^ b" using tile_shape_cases(3) [OF shape, of "\<lambda>_. 0"] s(5) by simp_all
  have "e + run_log texel_bytes = (if texel_bytes = 1 then 3 else 4)" using s(4) shape by (auto simp: tile_shape_def run_log_def)
  then show ?thesis using colour_side_runs [OF s(1) assms(2) s(2), of a b e] shape ext s(3) assms(3) by simp
qed

lemma upload_run:
  assumes "upload_side (mc_destination_side copy) (mc_destination_texel_bytes copy)"
  obtains r where "upload_run_texels copy = 2 ^ r" "r < 31" "run_side (mc_destination_side copy) (mc_destination_texel_bytes copy) r"
proof -
  let ?s = "mc_destination_side copy" and ?b = "mc_destination_texel_bytes copy"
  have s: "cs_tiled ?s" "cs_samples ?s = 1" "cs_element_bytes ?s = ?b" using assms by (simp_all add: upload_side_def)
  show ?thesis
  proof (cases "ucast (cs_tile_xor ?s) AND (ps5vk_copy_side_run_bytes ?s ?b - 1) = 0")
    case False
    then have "upload_run_texels copy = 2 ^ 0" by (simp add: upload_run_texels_def Let_def)
    then show ?thesis using that [of 0] one_texel_runs by simp
  next
    case aligned: True
    show ?thesis
    proof (cases "cs_depth ?s")
      case True
      then have b: "?b \<in> {1, 2, 4}" using assms by (simp add: upload_side_def)
      then have "upload_run_texels copy = 2 ^ 1"
        using s True aligned by (auto simp: upload_run_texels_def Let_def ps5vk_copy_side_run_bytes_def UINT64_MAX_def)
      then show ?thesis using that [of 1] depth_side_runs [OF s(1) True s(2) b] by simp
    next
      case False
      then have b: "?b \<in> {1, 2, 4, 8, 16}" using assms by (simp add: upload_side_def)
      have run: "upload_run_texels copy = 2 ^ run_log ?b"
        using b s False aligned by (auto simp: upload_run_texels_def Let_def ps5vk_copy_side_run_bytes_def PS5VK_TILED_RUN_BYTES_def UINT64_MAX_def run_log_def)
      have "(7 :: u64) = mask 3" "(15 :: u64) = mask 4" by (simp_all add: mask_numeral)
      then have "ps5vk_copy_side_run_bytes ?s ?b - 1 = mask (if ?b = 1 then 3 else 4)"
        using s False by (simp add: ps5vk_copy_side_run_bytes_def PS5VK_TILED_RUN_BYTES_def)
      then have "take_bit (if ?b = 1 then 3 else 4) (ucast (cs_tile_xor ?s) :: u64) = 0" using aligned by (simp add: take_bit_eq_mask)
      then have "(ucast (take_bit (if ?b = 1 then 3 else 4) (cs_tile_xor ?s)) :: u64) = 0" by (simp add: unsigned_take_bit_eq)
      then have "take_bit (if ?b = 1 then 3 else 4) (cs_tile_xor ?s) = 0" by (metis unat_wide unsigned_0 word_unat_eq_iff)
      then have "run_side ?s ?b (run_log ?b)" by (rule colour_upload_side [OF assms False])
      then show ?thesis using that [OF run] by (simp add: run_log_def)
    qed
  qed
qed

text \<open>C26. An upload into tiled storage (\<open>ps5vk_image_write_execute\<close>), which moves a run of texels with one copy, leaves in memory what an upload of
  one texel after the other would: every texel of the region, in its row order or with its bytes reversed, at the place
  the image's map gives it. This is so for every element size, for colour, depth and stencil planes, and for the packed levels of a chain.\<close>

theorem upload_is_texelwise:
  assumes "upload_side (mc_destination_side copy) (mc_destination_texel_bytes copy)"
    and "unat (mc_destination_x copy) + unat (mc_width copy) < 2 ^ 31"
  shows "fst (ps5vk_image_write_execute copy m) = write_texels copy m"
proof -
  obtain r where r: "upload_run_texels copy = 2 ^ r" "r < 31" "run_side (mc_destination_side copy) (mc_destination_texel_bytes copy) r"
    using upload_run [OF assms(1)] by blast
  let ?g = "\<lambda>row. fold (\<lambda>x m. move_texel copy m (upload_place copy row x) (upload_source copy row x) (unat (mc_destination_texel_bytes copy)))
       [0..<unat (mc_width copy)]"
  have "fst (fold (\<lambda>row st. write_row copy (2 ^ r) (mc_source copy + of_nat row * mc_source_pitch copy) (mc_destination_y copy + of_nat row) 0 st) rows (m, low, high)) =
      fold ?g rows m" for rows low high
  proof (induction rows arbitrary: m low high)
    case (Cons row rows)
    obtain m' low' high' where w: "write_row copy (2 ^ r) (mc_source copy + of_nat row * mc_source_pitch copy) (mc_destination_y copy + of_nat row) 0 (m, low, high) = (m', low', high')"
      by (metis prod.exhaust)
    then have "m' = ?g row m" using write_row_texels [OF r(3,2) refl assms(2), of row 0 m low high] by simp
    then show ?case using Cons.IH [of m' low' high'] w by simp
  qed simp
  then have "fst (write_rows copy m) = write_texels copy m" unfolding write_rows_def write_texels_def r(1) .
  then show ?thesis by (cases "write_rows copy m") (simp add: ps5vk_image_write_execute_def)
qed

section \<open>Image copies\<close>

text \<open>The copy as it would be without runs.\<close>

definition copy_texels :: "memory_copy \<Rightarrow> memory \<Rightarrow> memory" where
  "copy_texels copy m =
     fold (\<lambda>row. fold (\<lambda>x m. move_texel copy m (destination_place copy row x) (source_place copy row x) (unat (mc_source_texel_bytes copy)))
       [0..<unat (mc_width copy)]) [0..<unat (mc_height copy)] m"

lemma steps_cover:
  assumes "0 < step"
  shows "fold (\<lambda>x. fold g [x..<x + min (limit - x) step]) (steps step x0 limit) m = fold g [x0..<limit] m"
proof (induction "limit - x0" arbitrary: x0 m rule: less_induct)
  case less
  show ?case
  proof (cases "x0 < limit")
    case True
    let ?c = "min (limit - x0) step"
    have split: "[x0..<limit] = [x0..<x0 + ?c] @ [x0 + ?c..<limit]" using True upt_add_eq_append [of x0 "x0 + ?c" "limit - (x0 + ?c)"] by simp
    have "limit - (x0 + step) < limit - x0" using True assms by simp
    from less [OF this]
    have "fold (\<lambda>x. fold g [x..<x + min (limit - x) step]) (steps step x0 limit) m = fold g [x0 + step..<limit] (fold g [x0..<x0 + ?c] m)"
      using True assms by (subst steps.simps) simp
    also have "[x0 + step..<limit] = [x0 + ?c..<limit]" by (simp add: min_def)
    finally show ?thesis unfolding split by simp
  qed (simp add: steps.simps)
qed

lemma run_side_mono:
  assumes "run_side side texel_bytes r" "r < 31" "k \<le> r"
  shows "run_side side texel_bytes k"
  unfolding run_side_def
proof (intro allI impI)
  fix x y i s :: u32
  assume x: "take_bit k x = 0" and i: "take_bit k i = i" and b: "unat x + unat i < 2 ^ 31"
  have "unat x mod 2 ^ k = 0" using x by (metis take_bit_nat_def unsigned_0 unsigned_take_bit_eq)
  then have "unat x mod 2 ^ r mod 2 ^ k = 0" using assms(3) by (simp add: mod_mod_cancel le_imp_power_dvd)
  then obtain q where q: "unat x mod 2 ^ r = 2 ^ k * q" by (metis mod_eq_0_iff_dvd dvdE)
  have "(2 :: nat) ^ r = 2 ^ k * 2 ^ (r - k)" using assms(3) by (simp flip: power_add)
  moreover have "unat x mod 2 ^ r < 2 ^ r" by simp
  ultimately have "2 ^ k * Suc q \<le> 2 ^ r" using q by (metis Suc_leI mult_le_mono2 nat_mult_less_cancel_disj)
  moreover have "unat i < 2 ^ k" by (metis i take_bit_nat_less_exp unsigned_take_bit_eq)
  ultimately have "unat x mod 2 ^ r + unat i < 2 ^ r" using q by simp
  from run_side_columns [OF assms(1,2) this b]
  show "ps5vk_image_copy_address side (x + i) y texel_bytes s = ps5vk_image_copy_address side x y texel_bytes s + ucast i * ucast texel_bytes"
    by simp
qed

text \<open>The sides a copy is recorded with: rows, one-sample tiles whose level offset leaves the runs alone, or four-sample depth tiles.\<close>

definition map_side :: "copy_side \<Rightarrow> u32 \<Rightarrow> bool" where
  "map_side side texel_bytes \<longleftrightarrow>
     \<not> cs_tiled side \<or> upload_side side texel_bytes \<and> take_bit 4 (cs_tile_xor side) = 0 \<or>
     cs_tiled side \<and> cs_depth side \<and> cs_samples side = 4"

lemma map_side_run:
  assumes "map_side side texel_bytes" "cs_tiled side" "texel_bytes \<noteq> 0"
  obtains r where "r < 31" "unat (ps5vk_copy_side_run_bytes side texel_bytes) = 2 ^ r * unat texel_bytes" "run_side side texel_bytes r"
proof (cases "cs_depth side \<and> cs_samples side = 4")
  case True
  then have "ps5vk_copy_side_run_bytes side texel_bytes = ucast texel_bytes" using assms(2) by (simp add: ps5vk_copy_side_run_bytes_def)
  then show ?thesis using that [of 0] one_texel_runs by (simp add: unat_wide)
next
  case False
  then have u: "upload_side side texel_bytes" "take_bit 4 (cs_tile_xor side) = 0" using assms(1,2) by (auto simp: map_side_def)
  show ?thesis
  proof (cases "cs_depth side")
    case True
    then have b: "texel_bytes \<in> {1, 2, 4}" using u(1) by (simp add: upload_side_def)
    then have "unat (ps5vk_copy_side_run_bytes side texel_bytes) = 2 ^ 1 * unat texel_bytes"
      using u(1) True by (auto simp: ps5vk_copy_side_run_bytes_def upload_side_def)
    moreover have "run_side side texel_bytes 1" using depth_side_runs [OF assms(2) True] u(1) b by (simp add: upload_side_def)
    ultimately show ?thesis using that [of 1] by simp
  next
    case False
    then have b: "texel_bytes \<in> {1, 2, 4, 8, 16}" using u(1) by (simp add: upload_side_def)
    then have "unat (ps5vk_copy_side_run_bytes side texel_bytes) = 2 ^ run_log texel_bytes * unat texel_bytes"
      using u(1) False by (auto simp: ps5vk_copy_side_run_bytes_def upload_side_def PS5VK_TILED_RUN_BYTES_def run_log_def)
    moreover have "take_bit (if texel_bytes = 1 then 3 else 4) (cs_tile_xor side) = 0"
      using u(2) take_bit_take_bit [of 3 4 "cs_tile_xor side"] by simp
    ultimately show ?thesis using that [of "run_log texel_bytes"] colour_upload_side [OF u(1) False] by (simp add: run_log_def)
  qed
qed

lemma unlimited_run: "\<not> cs_tiled side \<Longrightarrow> ps5vk_copy_side_run_bytes side texel_bytes = UINT64_MAX"
  by (simp add: ps5vk_copy_side_run_bytes_def)

lemma limit_texels:
  assumes "unat (limit :: u64) = 2 ^ r * unat (texel_bytes :: u32)" "texel_bytes \<noteq> 0" "r < 31"
  shows "limit \<noteq> UINT64_MAX" "max (unat (limit div ucast texel_bytes)) 1 = 2 ^ r"
proof -
  have n: "0 < unat texel_bytes" using assms(2) by (simp add: unat_gt_0)
  show "max (unat (limit div ucast texel_bytes)) 1 = 2 ^ r" using assms(1) n by (simp add: unat_div_distrib unat_wide)
  have "unat texel_bytes < 2 ^ 32" using unsigned_less [of texel_bytes, where ?'a = nat] by simp
  moreover have "(2 :: nat) ^ r \<le> 2 ^ 30" using assms(3) by (intro power_increasing) auto
  ultimately have "2 ^ r * unat texel_bytes \<le> 2 ^ 30 * 2 ^ 32" by (intro mult_le_mono) auto
  then have "unat limit \<noteq> unat UINT64_MAX" unfolding assms(1) UINT64_MAX_def unsigned_minus_1_eq_mask by (simp add: mask_eq_exp_minus_1)
  then show "limit \<noteq> UINT64_MAX" by blast
qed

lemma copy_run:
  assumes "map_side (mc_source_side copy) (mc_source_texel_bytes copy)" "map_side (mc_destination_side copy) (mc_source_texel_bytes copy)"
    and "mc_source_texel_bytes copy \<noteq> 0" "cs_tiled (mc_source_side copy) \<or> cs_tiled (mc_destination_side copy)"
  obtains k where "copy_run_texels copy = 2 ^ k" "k < 31"
    "run_side (mc_source_side copy) (mc_source_texel_bytes copy) k" "run_side (mc_destination_side copy) (mc_source_texel_bytes copy) k"
proof -
  let ?b = "mc_source_texel_bytes copy" and ?s = "mc_source_side copy" and ?d = "mc_destination_side copy"
  have top: "min UINT64_MAX v = v" "min v UINT64_MAX = v" for v by (simp_all add: UINT64_MAX_def min_absorb1 min_absorb2 word_order.extremum)
  consider "\<not> cs_tiled ?s" "cs_tiled ?d" | "cs_tiled ?s" "\<not> cs_tiled ?d" | "cs_tiled ?s" "cs_tiled ?d" using assms(4) by blast
  then show ?thesis
  proof cases
    case 1
    obtain r where r: "r < 31" "unat (ps5vk_copy_side_run_bytes ?d ?b) = 2 ^ r * unat ?b" "run_side ?d ?b r"
      by (rule map_side_run [OF assms(2) 1(2) assms(3)])
    then show ?thesis using that [of r] limit_texels [OF r(2) assms(3) r(1)] linear_side_runs [OF 1(1)]
      by (simp add: copy_run_texels_def Let_def unlimited_run [OF 1(1)] top)
  next
    case 2
    obtain r where r: "r < 31" "unat (ps5vk_copy_side_run_bytes ?s ?b) = 2 ^ r * unat ?b" "run_side ?s ?b r"
      by (rule map_side_run [OF assms(1) 2(1) assms(3)])
    then show ?thesis using that [of r] limit_texels [OF r(2) assms(3) r(1)] linear_side_runs [OF 2(2)]
      by (simp add: copy_run_texels_def Let_def unlimited_run [OF 2(2)] top)
  next
    case 3
    obtain r where r: "r < 31" "unat (ps5vk_copy_side_run_bytes ?s ?b) = 2 ^ r * unat ?b" "run_side ?s ?b r"
      by (rule map_side_run [OF assms(1) 3(1) assms(3)])
    obtain r' where r': "r' < 31" "unat (ps5vk_copy_side_run_bytes ?d ?b) = 2 ^ r' * unat ?b" "run_side ?d ?b r'"
      by (rule map_side_run [OF assms(2) 3(2) assms(3)])
    have "unat (min (ps5vk_copy_side_run_bytes ?s ?b) (ps5vk_copy_side_run_bytes ?d ?b)) = min (2 ^ r * unat ?b) (2 ^ r' * unat ?b)"
      using r(2) r'(2) by (simp add: min_def word_le_nat_alt)
    also have "\<dots> = 2 ^ min r r' * unat ?b" by (auto simp: min_def)
    finally have "copy_run_texels copy = 2 ^ min r r'"
      using limit_texels [OF _ assms(3), of "min (ps5vk_copy_side_run_bytes ?s ?b) (ps5vk_copy_side_run_bytes ?d ?b)" "min r r'"] r(1)
      by (simp add: copy_run_texels_def Let_def)
    then show ?thesis using that [of "min r r'"] r(1) run_side_mono [OF r(3,1)] run_side_mono [OF r'(3,1)] by simp
  qed
qed

lemma copy_step_texels:
  assumes "0 < copy_run_texels copy"
    and "\<And>j. j < min (unat (mc_width copy) - x) (copy_run_texels copy) \<Longrightarrow>
      source_place copy row (x + j) = source_place copy row x + of_nat (j * unat (mc_source_texel_bytes copy)) \<and>
      destination_place copy row (x + j) = destination_place copy row x + of_nat (j * unat (mc_source_texel_bytes copy))"
  shows "ps_memory (copy_step copy PS5VK_COPY_RUNS row x st) =
    fold (\<lambda>x m. move_texel copy m (destination_place copy row x) (source_place copy row x) (unat (mc_source_texel_bytes copy)))
      [x..<x + min (unat (mc_width copy) - x) (copy_run_texels copy)] (ps_memory st)"
    (is "_ = fold ?g _ _")
proof -
  let ?n = "unat (mc_source_texel_bytes copy)" and ?c = "min (unat (mc_width copy) - x) (copy_run_texels copy)"
  have "move_run copy m (destination_place copy row x) (source_place copy row x) ?n ?c =
      fold (\<lambda>j m. move_texel copy m (destination_place copy row (x + j)) (source_place copy row (x + j)) ?n) [0..<?c] m" for m
    by (rule move_run_texels) (use assms(2) in auto)
  then show ?thesis using fold_shift [of ?g x ?c] by (simp add: copy_step_def Let_def)
qed

lemma steps_multiple:
  assumes "x \<in> set (steps step x0 limit)"
  shows "x < limit \<and> (\<exists>k. x = x0 + k * step)"
  using assms
proof (induction step x0 limit rule: steps.induct)
  case (1 step x0 limit)
  from "1.prems" have lt: "x0 < limit" "0 < step" and x: "x = x0 \<or> x \<in> set (steps step (x0 + step) limit)"
    by (auto simp: steps.simps [of step x0 limit] split: if_splits)
  from x show ?case
  proof
    assume "x = x0"
    then show ?thesis using lt(1) by (auto intro: exI [of _ 0])
  next
    assume "x \<in> set (steps step (x0 + step) limit)"
    then obtain k where "x < limit" "x = x0 + step + k * step" using "1.IH" lt by auto
    then show ?thesis by (auto intro: exI [of _ "Suc k"])
  qed
qed

text \<open>A copy is aligned when the columns it starts from in a tiled image are multiples of the run.\<close>

definition aligned_copy :: "memory_copy \<Rightarrow> bool" where
  "aligned_copy copy \<longleftrightarrow>
     (cs_tiled (mc_source_side copy) \<longrightarrow> unat (mc_source_x copy) mod copy_run_texels copy = 0) \<and>
     (cs_tiled (mc_destination_side copy) \<longrightarrow> unat (mc_destination_x copy) mod copy_run_texels copy = 0)"

lemma run_columns:
  assumes "cs_tiled side \<Longrightarrow> (\<exists>k<31. run = 2 ^ k \<and> run_side side texel_bytes k) \<and> unat x0 mod run = 0"
    and "unat x0 + w < 2 ^ 31" "x + j < w" "j < run" "x = q * run"
  shows "ps5vk_image_copy_address side (x0 + of_nat (x + j)) y texel_bytes s =
    ps5vk_image_copy_address side (x0 + of_nat x) y texel_bytes s + of_nat (j * unat texel_bytes)"
proof -
  have u: "unat (x0 + of_nat x) = unat x0 + x"
    using assms(2,3) by (simp add: unat_word_ariths(1) unsigned_of_nat take_bit_nat_eq_self)
  then have b: "unat (x0 + of_nat x) + j < 2 ^ 31" using assms(2,3) by simp
  have eq: "x0 + of_nat (x + j) = (x0 + of_nat x) + of_nat j" by (simp add: add.assoc)
  show ?thesis
  proof (cases "cs_tiled side")
    case True
    from assms(1) [OF True] obtain k where k: "k < 31" "run = 2 ^ k" "run_side side texel_bytes k" and z: "unat x0 mod run = 0" by auto
    have "unat (x0 + of_nat x) mod run = 0" unfolding u using z assms(5) by auto
    then have "unat (x0 + of_nat x) mod 2 ^ k + j < 2 ^ k" using assms(4) unfolding k(2) by simp
    then show ?thesis unfolding eq by (rule run_side_columns [OF k(3,1) _ b])
  next
    case False
    have lin: "ps5vk_image_copy_address side i y texel_bytes s = ps5vk_image_copy_address side 0 y texel_bytes s + of_nat (unat i * unat texel_bytes)"
      if "unat i < 2 ^ 31" for i
      using linear_side_runs [OF False, of texel_bytes 31, unfolded run_side_def, rule_format, of 0 i y s] unat_bound_low [OF that] that
      by simp
    have "unat ((x0 + of_nat x) + of_nat j) = unat (x0 + of_nat x) + j"
      using b by (simp add: unat_word_ariths(1) unsigned_of_nat take_bit_nat_eq_self)
    then show ?thesis unfolding eq using lin [of "x0 + of_nat x + of_nat j"] lin [of "x0 + of_nat x"] b by (simp add: algebra_simps)
  qed
qed

text \<open>C25. An image copy or a readback (\<open>ps5vk_image_copy_execute\<close>) whose first columns in the tiled images are multiples of its run leaves in memory
  what a copy of one texel after the other would: every texel of the region moved from the place one image's map gives it to the place the other's
  gives it. The sides may be rows, one-sample colour, depth or stencil tiles, or four-sample depth tiles, in any combination.\<close>

theorem copy_is_texelwise:
  assumes "map_side (mc_source_side copy) (mc_source_texel_bytes copy)" "map_side (mc_destination_side copy) (mc_source_texel_bytes copy)"
    and "mc_source_texel_bytes copy \<noteq> 0" "aligned_copy copy"
    and "unat (mc_source_x copy) + unat (mc_width copy) < 2 ^ 31" "unat (mc_destination_x copy) + unat (mc_width copy) < 2 ^ 31"
  shows "fst (snd (ps5vk_image_copy_execute copy m)) = copy_texels copy m"
proof -
  let ?b = "mc_source_texel_bytes copy" and ?s = "mc_source_side copy" and ?d = "mc_destination_side copy"
  let ?run = "copy_run_texels copy" and ?W = "unat (mc_width copy)"
  have pos: "0 < ?run" by (auto simp: copy_run_texels_def Let_def)
  have sides: "(\<exists>k<31. ?run = 2 ^ k \<and> run_side ?s ?b k \<and> run_side ?d ?b k)" if "cs_tiled ?s \<or> cs_tiled ?d"
    using copy_run [OF assms(1-3) that] by metis
  let ?g = "\<lambda>row x m. move_texel copy m (destination_place copy row x) (source_place copy row x) (unat ?b)"
  have step: "ps_memory (copy_step copy PS5VK_COPY_RUNS row x st) = fold (?g row) [x..<x + min (?W - x) ?run] (ps_memory st)"
    if x: "x \<in> set (steps ?run 0 ?W)" for row x st
  proof (rule copy_step_texels [OF pos])
    fix j assume j: "j < min (?W - x) ?run"
    obtain q where q: "x = q * ?run" using steps_multiple [OF x] by auto
    have lt: "x + j < ?W" "j < ?run" using j by auto
    have s: "(\<exists>k<31. ?run = 2 ^ k \<and> run_side ?s ?b k) \<and> unat (mc_source_x copy) mod ?run = 0" if "cs_tiled ?s"
      using sides assms(4) that unfolding aligned_copy_def by blast
    have d: "(\<exists>k<31. ?run = 2 ^ k \<and> run_side ?d ?b k) \<and> unat (mc_destination_x copy) mod ?run = 0" if "cs_tiled ?d"
      using sides assms(4) that unfolding aligned_copy_def by blast
    show "source_place copy row (x + j) = source_place copy row x + of_nat (j * unat ?b) \<and>
        destination_place copy row (x + j) = destination_place copy row x + of_nat (j * unat ?b)"
      unfolding source_place_def destination_place_def
      using run_columns [OF s assms(5) lt q] run_columns [OF d assms(6) lt q] by blast
  qed
  have row: "ps_memory (fold (copy_step copy PS5VK_COPY_RUNS row) xs st) = fold (\<lambda>x. fold (?g row) [x..<x + min (?W - x) ?run]) xs (ps_memory st)"
    if "set xs \<subseteq> set (steps ?run 0 ?W)" for row xs st
    using that by (induction xs arbitrary: st) (auto simp: step)
  have "ps_memory (fold (\<lambda>row st. fold (copy_step copy PS5VK_COPY_RUNS row) (steps ?run 0 ?W) st) rows st) =
      fold (\<lambda>row. fold (?g row) [0..<?W]) rows (ps_memory st)" for rows st
    by (induction rows arbitrary: st) (simp_all add: row steps_cover [OF pos])
  then show ?thesis by (simp add: ps5vk_image_copy_execute_def ps5vk_image_copy_pass_def copy_texels_def Let_def)
qed

section \<open>Instances\<close>

text \<open>A tile of four-byte texels at address 0, rows at 0x100000, and copies between them.\<close>

definition sample_tile :: copy_side where
  "sample_tile = zero_side\<lparr>cs_level_width := 128, cs_tile_width := 128, cs_tile_height := 128, cs_element_bytes := 4, cs_samples := 1, cs_tiled := True\<rparr>"

definition sample_buffer :: "u64 \<Rightarrow> copy_side" where
  "sample_buffer address = zero_side\<lparr>cs_address := address, cs_row_pitch := 256\<rparr>"

definition sample_upload :: memory_copy where
  "sample_upload = \<lparr>mc_source = 0x100000, mc_source_pitch = 256, mc_source_side = zero_side, mc_destination_side = sample_tile,
     mc_source_x = 0, mc_source_y = 0, mc_destination_x = 3, mc_destination_y = 1, mc_width = 7, mc_height = 2,
     mc_source_texel_bytes = 0, mc_destination_texel_bytes = 4, mc_reverse_texel_bytes = 0,
     mc_clear_texel = [], mc_source_span = 0, mc_source_span_bytes = 0\<rparr>"

definition sample_readback :: "u64 \<Rightarrow> u32 \<Rightarrow> u32 \<Rightarrow> memory_copy" where
  "sample_readback address x width = \<lparr>mc_source = 0, mc_source_pitch = 0, mc_source_side = sample_tile, mc_destination_side = sample_buffer address,
     mc_source_x = x, mc_source_y = 0, mc_destination_x = 0, mc_destination_y = 0, mc_width = width, mc_height = 1,
     mc_source_texel_bytes = 4, mc_destination_texel_bytes = 0, mc_reverse_texel_bytes = 0,
     mc_clear_texel = [], mc_source_span = 0, mc_source_span_bytes = 0\<rparr>"

lemma sample_sides: "upload_side sample_tile 4" "map_side sample_tile 4" "map_side (sample_buffer address) 4"
  by (simp_all add: upload_side_def map_side_def sample_tile_def sample_buffer_def zero_side_def ps5vk_tile_extent_def)

lemma sample_run: "copy_run_texels (sample_readback address x width) = 4"
  by (simp add: copy_run_texels_def sample_readback_def ps5vk_copy_side_run_bytes_def sample_tile_def sample_buffer_def zero_side_def
      PS5VK_TILED_RUN_BYTES_def UINT64_MAX_def min_absorb1 word_order.extremum)

theorem upload_is_texelwise_witness:
  "\<forall>m. fst (ps5vk_image_write_execute sample_upload m) = write_texels sample_upload m"
  using upload_is_texelwise [of sample_upload] sample_sides(1) by (simp add: sample_upload_def)

theorem copy_is_texelwise_witness:
  "\<forall>m. fst (snd (ps5vk_image_copy_execute (sample_readback 0x100000 8 10) m)) = copy_texels (sample_readback 0x100000 8 10) m"
proof -
  have "aligned_copy (sample_readback 0x100000 8 10)" by (simp add: aligned_copy_def sample_run) (simp add: sample_readback_def)
  then show ?thesis using copy_is_texelwise [of "sample_readback 0x100000 8 10"] sample_sides by (simp add: sample_readback_def)
qed

text \<open>
  The alignment is needed. A readback of four texels from column 1 moves sixteen bytes from the place of that column: the last
  texel it reads is that of column 0 of the next row (at 0x10) and not that of column 4 (at 0x80).
\<close>

lemma sample_places:
  "map (source_place (sample_readback 0x100000 1 4) 0) [0, 1, 2, 3] = [0x4, 0x8, 0xc, 0x80]"
  "map (destination_place (sample_readback 0x100000 1 4) 0) [0, 1, 2, 3] = [0x100000, 0x100004, 0x100008, 0x10000c]"
  by code_simp+

lemma sample_fields:
  "mc_width (sample_readback a x w) = w" "mc_height (sample_readback a x w) = 1" "mc_source_texel_bytes (sample_readback a x w) = 4"
  "mc_reverse_texel_bytes (sample_readback a x w) = 0"
  by (simp_all add: sample_readback_def)

lemma unaligned_readback_wrong:
  "fst (snd (ps5vk_image_copy_execute (sample_readback 0x100000 1 4) m)) 0x10000c = m 0x10"
  "copy_texels (sample_readback 0x100000 1 4) m 0x10000c = m 0x80"
proof -
  have s: "steps 4 0 4 = [0]" by code_simp
  have "fst (snd (ps5vk_image_copy_execute (sample_readback 0x100000 1 4) m)) = memcpy m 0x100000 4 16"
    using sample_places
    by (simp add: ps5vk_image_copy_execute_def ps5vk_image_copy_pass_def copy_step_def sample_run sample_fields s move_run_def Let_def)
  also have "\<dots> = memcpy (memcpy m 0x100000 4 12) 0x10000c 0x10 4" using memcpy_append [where k = 12 and n = 4] by simp
  finally show "fst (snd (ps5vk_image_copy_execute (sample_readback 0x100000 1 4) m)) 0x10000c = m 0x10"
    by (simp add: memcpy_first memcpy_below del: memcpy.simps)
  have l: "[0..<4] = [0, 1, 2, 3]" by code_simp
  have "copy_texels (sample_readback 0x100000 1 4) m =
      memcpy (memcpy (memcpy (memcpy m 0x100000 4 4) 0x100004 8 4) 0x100008 0xc 4) 0x10000c 0x80 4"
    using sample_places by (simp add: copy_texels_def sample_fields move_texel_def l)
  then show "copy_texels (sample_readback 0x100000 1 4) m 0x10000c = m 0x80"
    by (simp add: memcpy_first memcpy_below del: memcpy.simps)
qed
section \<open>Evictions\<close>

text \<open>
  A run that crosses into the next line of 64 bytes is not evicted when its first line was: here the last four texels are
  written to the bytes 0x10003c to 0x10004b, and the line from 0x100040 is never evicted.
\<close>

lemma crossing_run_not_evicted:
  "ps_evicted (ps5vk_image_copy_pass (sample_readback 0x10002c 0 8) PS5VK_COPY_EVICT_DESTINATION (\<lambda>_. 1)) = [(0x10002c, 16)]"
  "map (destination_place (sample_readback 0x10002c 0 8) 0) [0, 4] = [0x10002c, 0x10003c]"
  by code_simp+

text \<open>A line is evicted when it is one of the lines of a span that was.\<close>

definition evicted_line :: "(u64 \<times> nat) list \<Rightarrow> u64 \<Rightarrow> bool" where
  "evicted_line spans line \<longleftrightarrow> (\<exists>(p, n) \<in> set spans. drop_bit 6 p \<le> line \<and> line \<le> drop_bit 6 (p + of_nat n - 1))"

definition one_line :: "u64 \<Rightarrow> nat \<Rightarrow> bool" where
  "one_line p n \<longleftrightarrow> drop_bit 6 (p + of_nat n - 1) = drop_bit 6 p \<or> 64 < n \<and> drop_bit 6 p \<le> drop_bit 6 (p + of_nat n - 1)"

definition last_evicted :: "pass_state \<Rightarrow> bool" where
  "last_evicted st \<longleftrightarrow> ps_last_line st = UINT64_MAX \<or> evicted_line (ps_evicted st) (ps_last_line st)"

lemma line_small: "drop_bit 6 (p :: u64) \<noteq> UINT64_MAX"
proof
  assume "drop_bit 6 p = UINT64_MAX"
  then have "bit (drop_bit 6 p) 63 = bit UINT64_MAX 63" by simp
  then show False by (auto simp: UINT64_MAX_def bit_drop_bit_eq dest: bit_imp_le_length)
qed

lemma evict_run_keeps:
  assumes "last_evicted st" "one_line p n"
  shows "last_evicted (evict_run p n st)" "\<And>line. evicted_line (ps_evicted st) line \<Longrightarrow> evicted_line (ps_evicted (evict_run p n st)) line"
    and "\<And>line. drop_bit 6 p \<le> line \<Longrightarrow> line \<le> drop_bit 6 (p + of_nat n - 1) \<Longrightarrow> evicted_line (ps_evicted (evict_run p n st)) line"
proof -
  have grow: "ps_evicted (evict_run p n st) = ps_evicted st @ (if 64 < n \<or> drop_bit 6 p \<noteq> ps_last_line st then [(p, n)] else [])"
    and last: "ps_last_line (evict_run p n st) = drop_bit 6 (p + of_nat n - 1)"
    by (simp_all add: evict_run_def Let_def)
  show "evicted_line (ps_evicted (evict_run p n st)) line" if "evicted_line (ps_evicted st) line" for line
    using that unfolding grow evicted_line_def by auto
  show all: "evicted_line (ps_evicted (evict_run p n st)) line" if l: "drop_bit 6 p \<le> line" "line \<le> drop_bit 6 (p + of_nat n - 1)" for line
  proof (cases "64 < n \<or> drop_bit 6 p \<noteq> ps_last_line st")
    case True
    then show ?thesis using l unfolding grow evicted_line_def by auto
  next
    case False
    then have "line = ps_last_line st" "evicted_line (ps_evicted st) (ps_last_line st)"
      using l assms line_small [of p] by (auto simp: one_line_def last_evicted_def)
    then show ?thesis unfolding grow evicted_line_def by auto
  qed
  show "last_evicted (evict_run p n st)"
    using all [of "drop_bit 6 (p + of_nat n - 1)"] assms(2) unfolding last_evicted_def last by (auto simp: one_line_def)
qed

definition run_place :: "memory_copy \<Rightarrow> copy_pass \<Rightarrow> nat \<Rightarrow> nat \<Rightarrow> u64" where
  "run_place copy pass = (if pass = PS5VK_COPY_EVICT_SOURCE then source_place copy else destination_place copy)"

definition run_bytes :: "memory_copy \<Rightarrow> nat \<Rightarrow> nat" where
  "run_bytes copy x = min (unat (mc_width copy) - x) (copy_run_texels copy) * unat (mc_source_texel_bytes copy)"

lemma fold_product: "fold (\<lambda>row st. fold (g row) xs st) rows st = fold (\<lambda>(row, x). g row x) (List.product rows xs) st"
proof (induction rows arbitrary: st)
  case (Cons row rows)
  have "fold (\<lambda>(row, x). g row x) (map (Pair row) xs) st = fold (g row) xs st" by (simp add: fold_map comp_def)
  then show ?case using Cons by simp
qed simp

lemma evict_steps_cover:
  assumes "list_all (\<lambda>(row, x). one_line (run_place copy pass row x) (run_bytes copy x)) runs" "last_evicted st" "pass \<noteq> PS5VK_COPY_RUNS"
  shows "(\<forall>line. evicted_line (ps_evicted st) line \<longrightarrow> evicted_line (ps_evicted (fold (\<lambda>(row, x). copy_step copy pass row x) runs st)) line) \<and>
    (\<forall>(row, x) \<in> set runs. \<forall>line. drop_bit 6 (run_place copy pass row x) \<le> line \<longrightarrow>
       line \<le> drop_bit 6 (run_place copy pass row x + of_nat (run_bytes copy x) - 1) \<longrightarrow>
       evicted_line (ps_evicted (fold (\<lambda>(row, x). copy_step copy pass row x) runs st)) line)"
  using assms(1,2)
proof (induction runs arbitrary: st)
  case (Cons run runs)
  obtain row x where run: "run = (row, x)" by (cases run)
  have one: "one_line (run_place copy pass row x) (run_bytes copy x)" using Cons.prems(1) run by simp
  have step: "copy_step copy pass row x st = evict_run (run_place copy pass row x) (run_bytes copy x) st"
    using assms(3) by (cases pass) (simp_all add: copy_step_def run_place_def run_bytes_def Let_def)
  note keeps = evict_run_keeps [OF Cons.prems(2) one, folded step]
  have IH: "\<forall>line. evicted_line (ps_evicted (copy_step copy pass row x st)) line \<longrightarrow> evicted_line (ps_evicted (fold (\<lambda>(row, x). copy_step copy pass row x) runs (copy_step copy pass row x st))) line"
    "\<forall>(row', x') \<in> set runs. \<forall>line. drop_bit 6 (run_place copy pass row' x') \<le> line \<longrightarrow>
       line \<le> drop_bit 6 (run_place copy pass row' x' + of_nat (run_bytes copy x') - 1) \<longrightarrow>
       evicted_line (ps_evicted (fold (\<lambda>(row, x). copy_step copy pass row x) runs (copy_step copy pass row x st))) line"
    using Cons.IH [of "copy_step copy pass row x st"] Cons.prems(1) keeps(1) by simp_all
  show ?case using IH keeps(2,3) run by auto
qed simp

text \<open>The two eviction passes of an image copy (\<open>ps5vk_image_copy_pass\<close>), which skip a run whose line was evicted last, evict every line of 64 bytes that a run of
  the copy touches, of the source before the copy and of the destination after it, provided that no run of at most 64 bytes crosses into a second line.\<close>

lemma evictions_cover:
  assumes "pass \<noteq> PS5VK_COPY_RUNS"
    and "list_all (\<lambda>(row, x). one_line (run_place copy pass row x) (run_bytes copy x))
      (List.product [0..<unat (mc_height copy)] (steps (copy_run_texels copy) 0 (unat (mc_width copy))))"
    and "row < unat (mc_height copy)" "x \<in> set (steps (copy_run_texels copy) 0 (unat (mc_width copy)))"
    and "drop_bit 6 (run_place copy pass row x) \<le> line" "line \<le> drop_bit 6 (run_place copy pass row x + of_nat (run_bytes copy x) - 1)"
  shows "evicted_line (ps_evicted (ps5vk_image_copy_pass copy pass m)) line"
proof -
  let ?st = "\<lparr>ps_memory = m, ps_last_line = UINT64_MAX, ps_evicted = []\<rparr>"
  have "last_evicted ?st" by (simp add: last_evicted_def)
  note cover = evict_steps_cover [OF assms(2) this assms(1)]
  show ?thesis unfolding ps5vk_image_copy_pass_def fold_product using conjunct2 [OF cover] assms(3-6) by fastforce
qed

end
