(* ===== verification/Vk_Pool.thy ===== *)
theory Vk_Pool
  imports Vk_Copy "HOL-Library.Multiset"
begin

text \<open>
  Blits in parallel, \<open>driver/ps5vk_queue.c\<close>: how a wave of blits is cut into parts, and the pool of workers that share
  the parts of a round with the submitting thread. Each rule of \<open>pool_step\<close> is one access of a thread to what the threads
  share; the threads interleave in any order.
\<close>

section \<open>Cutting a wave into parts\<close>

definition PS5VK_BLIT_WORKERS :: nat where "PS5VK_BLIT_WORKERS = 4"
definition PS5VK_BLIT_MIN_ROWS :: u32 where "PS5VK_BLIT_MIN_ROWS = 16"

text \<open>A part: the record of the wave it belongs to, its first row and the row after its last.\<close>

record blit_part =
  pt_copy :: nat
  pt_row_begin :: u32
  pt_row_end :: u32

definition ps5vk_blit_part_rows :: "u32 \<Rightarrow> u32 \<Rightarrow> u32" where
  "ps5vk_blit_part_rows height threads = max PS5VK_BLIT_MIN_ROWS (DIV_ROUND_UP height (2 * threads))"

text \<open>The loop over the parts of one record; it ends when a row is reached that is not below the height.\<close>

partial_function (option) cut_rows :: "nat \<Rightarrow> u32 \<Rightarrow> u32 \<Rightarrow> u32 \<Rightarrow> blit_part list option" where
  "cut_rows copy height rows row =
     (let part = \<lparr>pt_copy = copy, pt_row_begin = row, pt_row_end = min height (row + rows)\<rparr>
      in if row + rows < height
         then Option.bind (cut_rows copy height rows (row + rows)) (\<lambda>parts. Some (part # parts))
         else Some [part])"

fun cut_wave :: "u32 \<Rightarrow> nat \<Rightarrow> u32 list \<Rightarrow> blit_part list option" where
  "cut_wave threads copy [] = Some []"
| "cut_wave threads copy (height # heights) =
     Option.bind (cut_rows copy height (ps5vk_blit_part_rows height threads) 0) (\<lambda>parts.
     Option.bind (cut_wave threads (Suc copy) heights) (\<lambda>later. Some (parts @ later)))"

text \<open>The parts there is room for.\<close>

definition wave_total :: "u32 \<Rightarrow> u32 list \<Rightarrow> nat" where
  "wave_total threads heights =
     sum_list (map (\<lambda>height. unat (max 1 (DIV_ROUND_UP height (ps5vk_blit_part_rows height threads)))) heights)"

section \<open>The parts of a wave are its rows\<close>

definition part_rows :: "blit_part \<Rightarrow> (nat \<times> nat) list" where
  "part_rows part = map (Pair (pt_copy part)) [unat (pt_row_begin part)..<unat (pt_row_end part)]"

definition wave_rows :: "u32 list \<Rightarrow> (nat \<times> nat) list" where
  "wave_rows heights = concat (map (\<lambda>i. map (Pair i) [0..<unat (heights ! i)]) [0..<length heights])"

lemma cut_rows_parts:
  assumes "unat height + unat rows < 2 ^ 32" "0 < unat rows" "unat row \<le> unat height"
  shows "\<exists>parts. cut_rows copy height rows row = Some parts \<and> concat (map part_rows parts) = map (Pair copy) [unat row..<unat height] \<and>
    length parts = max 1 ((unat height - unat row + unat rows - 1) div unat rows)"
  using assms(3)
proof (induction "unat height - unat row" arbitrary: row rule: less_induct)
  case less
  have sum: "unat (row + rows) = unat row + unat rows" using less.prems assms(1) by (simp add: unat_word_ariths(1))
  show ?case
  proof (cases "row + rows < height")
    case True
    then have lt: "unat row + unat rows < unat height" by (simp add: word_less_nat_alt sum)
    obtain parts where p: "cut_rows copy height rows (row + rows) = Some parts"
      "concat (map part_rows parts) = map (Pair copy) [unat row + unat rows..<unat height]"
      "length parts = max 1 ((unat height - unat row - unat rows + unat rows - 1) div unat rows)"
    proof -
      have "unat height - unat (row + rows) < unat height - unat row" "unat (row + rows) \<le> unat height" using lt assms(2) by (simp_all add: sum)
      from less.hyps [OF this] that show ?thesis unfolding sum by (auto simp: diff_diff_left)
    qed
    have "(unat height - unat row + unat rows - 1) div unat rows = Suc ((unat height - unat row - 1) div unat rows)"
      using lt assms(2) div_add_self2 [of "unat rows" "unat height - unat row - 1"] by simp
    moreover have "unat height - unat row - unat rows + unat rows - 1 = unat height - unat row - 1" using lt by simp
    moreover have "1 \<le> (unat height - unat row - 1) div unat rows"
      using lt assms(2) div_greater_zero_iff [of "unat height - unat row - 1" "unat rows"] by linarith
    moreover have "[unat row..<unat row + unat rows] @ [unat row + unat rows..<unat height] = [unat row..<unat height]"
      using upt_add_eq_append [of "unat row" "unat row + unat rows" "unat height - unat row - unat rows"] lt by simp
    ultimately show ?thesis using True p lt
      by (simp add: cut_rows.simps [of copy height rows row] part_rows_def min_def sum word_le_nat_alt) (metis map_append)
  next
    case False
    then have ge: "unat height \<le> unat row + unat rows" by (simp add: word_less_nat_alt sum)
    then have "min height (row + rows) = height" by (simp add: min_def word_le_nat_alt sum)
    moreover have "(unat height - unat row + unat rows - 1) div unat rows \<le> 1"
      using ge assms(2) less_mult_imp_div_less [of "unat height - unat row + unat rows - 1" 2 "unat rows"] by linarith
    ultimately show ?thesis using False by (simp add: cut_rows.simps [of copy height rows row] part_rows_def)
  qed
qed

lemma unat_parts_up:
  assumes "unat n + unat d < 2 ^ LENGTH('a)" "d \<noteq> 0"
  shows "unat (DIV_ROUND_UP n d :: 'a::len word) = (unat n + unat d - 1) div unat d"
proof -
  have "0 < unat d" using assms(2) by (simp add: unat_gt_0)
  moreover have "unat (n + d) = unat n + unat d" using assms(1) by (simp add: unat_word_ariths(1))
  ultimately have "unat (n + d - 1) = unat n + unat d - 1" by (subst unat_sub) (simp_all add: word_le_nat_alt)
  then show ?thesis by (simp add: DIV_ROUND_UP_def unat_div_distrib)
qed

lemma part_rows_bounds:
  assumes "unat height \<le> 2 ^ 31" "threads \<in> {1, 2, 3, 4, 5}"
  shows "0 < unat (ps5vk_blit_part_rows height threads)" "unat height + unat (ps5vk_blit_part_rows height threads) < 2 ^ 32"
proof -
  have t: "unat (2 * threads) \<in> {2, 4, 6, 8, 10}" using assms(2) by auto
  have "unat (DIV_ROUND_UP height (2 * threads)) = (unat height + unat (2 * threads) - 1) div unat (2 * threads)"
    using assms t by (intro unat_parts_up) auto
  also have "\<dots> \<le> (unat height + unat (2 * threads) - 1) div 2" using t by (intro div_le_mono2) auto
  also have "\<dots> \<le> (2 ^ 31 + 9) div 2" using assms(1) t by (intro div_le_mono) auto
  finally have d: "unat (DIV_ROUND_UP height (2 * threads)) \<le> 2 ^ 30 + 4" by simp
  show "0 < unat (ps5vk_blit_part_rows height threads)" by (simp add: ps5vk_blit_part_rows_def PS5VK_BLIT_MIN_ROWS_def max_def word_le_nat_alt)
  show "unat height + unat (ps5vk_blit_part_rows height threads) < 2 ^ 32"
    using d assms(1) by (simp add: ps5vk_blit_part_rows_def PS5VK_BLIT_MIN_ROWS_def max_def)
qed

lemma cut_wave_parts:
  assumes "\<forall>height \<in> set heights. unat height \<le> 2 ^ 31" "threads \<in> {1, 2, 3, 4, 5}"
  shows "\<exists>parts. cut_wave threads copy heights = Some parts \<and> length parts = wave_total threads heights \<and>
    concat (map part_rows parts) = concat (map (\<lambda>i. map (Pair (copy + i)) [0..<unat (heights ! i)]) [0..<length heights])"
  using assms(1)
proof (induction heights arbitrary: copy)
  case (Cons height heights)
  let ?rows = "ps5vk_blit_part_rows height threads"
  have h: "unat height \<le> 2 ^ 31" using Cons.prems by simp
  note b = part_rows_bounds [OF h assms(2)]
  have nz: "?rows \<noteq> 0" using b(1) by auto
  have w: "unat (max 1 (DIV_ROUND_UP height ?rows)) = max 1 ((unat height + unat ?rows - 1) div unat ?rows)"
    using unat_parts_up [OF _ nz, of height] b(2) by (simp add: max_def word_le_nat_alt)
  obtain parts where p: "cut_rows copy height ?rows 0 = Some parts" "concat (map part_rows parts) = map (Pair copy) [0..<unat height]"
    "length parts = unat (max 1 (DIV_ROUND_UP height ?rows))"
    using cut_rows_parts [OF b(2,1), of 0 copy] w by auto
  obtain later where l: "cut_wave threads (Suc copy) heights = Some later" "length later = wave_total threads heights"
    "concat (map part_rows later) = concat (map (\<lambda>i. map (Pair (Suc copy + i)) [0..<unat (heights ! i)]) [0..<length heights])"
    using Cons.IH [of "Suc copy"] Cons.prems by auto
  have "[0..<length (height # heights)] = 0 # map Suc [0..<length heights]" by (simp add: upt_conv_Cons map_Suc_upt del: upt_Suc)
  then show ?case using p l by (simp add: wave_total_def comp_def del: upt_Suc)
qed (simp add: wave_total_def)

text \<open>C37. Cutting a wave into parts ends, makes exactly the number of parts that there is room for, and its parts have every row of every blit of the wave once,
  in order. Heights are at most \<open>2\<^sup>3\<^sup>1\<close> and there are one to five threads.\<close>

theorem wave_parts_are_rows:
  assumes "\<forall>height \<in> set heights. unat height \<le> 2 ^ 31" "threads \<in> {1, 2, 3, 4, 5}"
  shows "\<exists>parts. cut_wave threads 0 heights = Some parts \<and> length parts = wave_total threads heights \<and> concat (map part_rows parts) = wave_rows heights"
  using cut_wave_parts [OF assms, of 0] by (simp add: wave_rows_def)

theorem wave_parts_are_rows_witness:
  "\<exists>parts. cut_wave 3 0 [40, 0] = Some parts \<and> length parts = 4 \<and> concat (map part_rows parts) = wave_rows [40, 0]"
proof -
  have "wave_total 3 [40, 0] = 4" by code_simp
  then show ?thesis using wave_parts_are_rows [of "[40, 0]" 3] by simp
qed

section \<open>The pool\<close>

text \<open>
  Where a worker is in \<open>ps5vk_blit_worker\<close> and \<open>ps5vk_blit_pool_run\<close>, with the generation it has seen and the index it has
  fetched; where the submitting thread is in \<open>ps5vk_blit_wave_execute\<close> and \<open>ps5vk_blit_pool_destroy\<close>, with the wave it brings.
\<close>

datatype worker =
    Starting | Looking u32 | Sleeping u32 | Joined u32 | Fetching u32 | Checking u32 nat | Running u32 nat | Counting u32
  | Leaving u32 | Relocking u32 | Finished

datatype submitter =
    Outside
  | S_locking "u32 list" "blit_part list" | S_testing "u32 list" "blit_part list" | S_allocating "u32 list" "blit_part list"
  | S_clearing | S_rewinding | S_announcing | S_unlocking
  | S_fetching | S_checking nat | S_running nat | S_counting | S_waiting | S_idling | S_flushing
  | S_stopping | S_quitting | S_joining | Destroyed

text \<open>
  The pool and its threads. The lock has its owner, 0 the submitting thread and \<open>Suc i\<close> worker \<open>i\<close>. Two fields are no part of the
  program: the heights of the wave in the pool, and the indices of the parts that were resampled, in their order.
\<close>

record blit_pool =
  po_lock :: "nat option"
  po_quit :: bool
  po_generation :: u32
  po_parts :: "blit_part list"
  po_count :: nat
  po_next :: nat
  po_done :: nat
  po_active :: nat
  po_workers :: "worker list"
  po_submitter :: submitter
  po_heights :: "u32 list"
  po_log :: "nat list"

text \<open>The pool that \<open>ps5vk_blit_pool_get\<close> makes with \<open>started\<close> workers.\<close>

definition ps5vk_blit_pool_get :: "nat \<Rightarrow> blit_pool" where
  "ps5vk_blit_pool_get started =
     \<lparr>po_lock = None, po_quit = False, po_generation = 0, po_parts = [], po_count = 0, po_next = 0, po_done = 0, po_active = 0,
      po_workers = replicate started Starting, po_submitter = Outside, po_heights = [], po_log = []\<rparr>"

definition move_worker :: "nat \<Rightarrow> worker \<Rightarrow> blit_pool \<Rightarrow> blit_pool" where
  "move_worker i w st = st\<lparr>po_workers := (po_workers st)[i := w]\<rparr>"

inductive worker_step :: "nat \<Rightarrow> worker \<Rightarrow> blit_pool \<Rightarrow> worker \<Rightarrow> blit_pool \<Rightarrow> bool" for i where
  start: "po_lock st = None \<Longrightarrow> worker_step i Starting st (Looking (po_generation st)) (st\<lparr>po_lock := Some (Suc i)\<rparr>)"
| sleep: "\<not> po_quit st \<Longrightarrow> po_generation st = seen \<Longrightarrow> worker_step i (Looking seen) st (Sleeping seen) (st\<lparr>po_lock := None\<rparr>)"
| wake: "po_lock st = None \<Longrightarrow> worker_step i (Sleeping seen) st (Looking seen) (st\<lparr>po_lock := Some (Suc i)\<rparr>)"
| quit: "po_quit st \<Longrightarrow> worker_step i (Looking seen) st Finished (st\<lparr>po_lock := None\<rparr>)"
| join: "\<not> po_quit st \<Longrightarrow> po_generation st \<noteq> seen \<Longrightarrow> worker_step i (Looking seen) st (Joined (po_generation st)) (st\<lparr>po_active := po_active st + 1\<rparr>)"
| go: "worker_step i (Joined seen) st (Fetching seen) (st\<lparr>po_lock := None\<rparr>)"
| fetch: "worker_step i (Fetching seen) st (Checking seen (po_next st)) (st\<lparr>po_next := po_next st + 1\<rparr>)"
| over: "po_count st \<le> index \<Longrightarrow> worker_step i (Checking seen index) st (Leaving seen) st"
| take: "index < po_count st \<Longrightarrow> worker_step i (Checking seen index) st (Running seen index) st"
| run: "worker_step i (Running seen index) st (Counting seen) (st\<lparr>po_log := po_log st @ [index]\<rparr>)"
| count: "worker_step i (Counting seen) st (Fetching seen) (st\<lparr>po_done := po_done st + 1\<rparr>)"
| leave: "worker_step i (Leaving seen) st (Relocking seen) (st\<lparr>po_active := po_active st - 1\<rparr>)"
| relock: "po_lock st = None \<Longrightarrow> worker_step i (Relocking seen) st (Looking seen) (st\<lparr>po_lock := Some (Suc i)\<rparr>)"

inductive submitter_step :: "submitter \<Rightarrow> blit_pool \<Rightarrow> submitter \<Rightarrow> blit_pool \<Rightarrow> bool" where
  wave: "cut_wave (of_nat (length (po_workers st) + 1)) 0 heights = Some parts \<Longrightarrow> submitter_step Outside st (S_locking heights parts) st"
| lock: "po_lock st = None \<Longrightarrow> submitter_step (S_locking heights parts) st (S_testing heights parts) (st\<lparr>po_lock := Some 0\<rparr>)"
| busy: "po_active st \<noteq> 0 \<Longrightarrow> submitter_step (S_testing heights parts) st (S_locking heights parts) (st\<lparr>po_lock := None\<rparr>)"
| free: "po_active st = 0 \<Longrightarrow> submitter_step (S_testing heights parts) st (S_allocating heights parts) st"
| no_memory: "submitter_step (S_allocating heights parts) st Outside (st\<lparr>po_lock := None\<rparr>)"
| publish: "submitter_step (S_allocating heights parts) st S_clearing (st\<lparr>po_parts := parts, po_count := length parts, po_heights := heights\<rparr>)"
| clear: "submitter_step S_clearing st S_rewinding (st\<lparr>po_done := 0\<rparr>)"
| rewind: "submitter_step S_rewinding st S_announcing (st\<lparr>po_next := 0, po_log := []\<rparr>)"
| announce: "submitter_step S_announcing st S_unlocking (st\<lparr>po_generation := po_generation st + 1\<rparr>)"
| unlock: "submitter_step S_unlocking st S_fetching (st\<lparr>po_lock := None\<rparr>)"
| fetch: "submitter_step S_fetching st (S_checking (po_next st)) (st\<lparr>po_next := po_next st + 1\<rparr>)"
| over: "po_count st \<le> index \<Longrightarrow> submitter_step (S_checking index) st S_waiting st"
| take: "index < po_count st \<Longrightarrow> submitter_step (S_checking index) st (S_running index) st"
| run: "submitter_step (S_running index) st S_counting (st\<lparr>po_log := po_log st @ [index]\<rparr>)"
| count: "submitter_step S_counting st S_fetching (st\<lparr>po_done := po_done st + 1\<rparr>)"
| all_done: "po_count st \<le> po_done st \<Longrightarrow> submitter_step S_waiting st S_idling st"
| still_active: "po_active st \<noteq> 0 \<Longrightarrow> submitter_step S_idling st S_waiting st"
| none_active: "po_active st = 0 \<Longrightarrow> submitter_step S_idling st S_flushing st"
| flushed: "submitter_step S_flushing st Outside st"
| stop: "submitter_step Outside st S_stopping st"
| stop_lock: "po_lock st = None \<Longrightarrow> submitter_step S_stopping st S_quitting (st\<lparr>po_lock := Some 0\<rparr>)"
| set_quit: "submitter_step S_quitting st S_joining (st\<lparr>po_quit := True, po_lock := None\<rparr>)"
| joined: "list_all (\<lambda>w. w = Finished) (po_workers st) \<Longrightarrow> submitter_step S_joining st Destroyed st"

inductive pool_reach :: "nat \<Rightarrow> blit_pool \<Rightarrow> bool" for started where
  fresh: "pool_reach started (ps5vk_blit_pool_get started)"
| worker: "pool_reach started st \<Longrightarrow> i < length (po_workers st) \<Longrightarrow> worker_step i (po_workers st ! i) st w st' \<Longrightarrow> pool_reach started (move_worker i w st')"
| submitter: "pool_reach started st \<Longrightarrow> submitter_step (po_submitter st) st s st' \<Longrightarrow> pool_reach started (st'\<lparr>po_submitter := s\<rparr>)"

section \<open>What the pool keeps\<close>

fun worker_holds :: "worker \<Rightarrow> bool" where
  "worker_holds (Looking _) = True"
| "worker_holds (Joined _) = True"
| "worker_holds _ = False"

fun submitter_holds :: "submitter \<Rightarrow> bool" where
  "submitter_holds (S_testing _ _) = True"
| "submitter_holds (S_allocating _ _) = True"
| "submitter_holds S_clearing = True"
| "submitter_holds S_rewinding = True"
| "submitter_holds S_announcing = True"
| "submitter_holds S_unlocking = True"
| "submitter_holds S_quitting = True"
| "submitter_holds _ = False"

text \<open>A worker that may read the parts of a round, and the submitting thread while it replaces them.\<close>

fun in_round :: "worker \<Rightarrow> nat" where
  "in_round (Joined _) = 1"
| "in_round (Fetching _) = 1"
| "in_round (Checking _ _) = 1"
| "in_round (Running _ _) = 1"
| "in_round (Counting _) = 1"
| "in_round (Leaving _) = 1"
| "in_round _ = 0"

fun replacing :: "submitter \<Rightarrow> bool" where
  "replacing (S_allocating _ _) = True"
| "replacing S_clearing = True"
| "replacing S_rewinding = True"
| "replacing S_announcing = True"
| "replacing _ = False"

text \<open>The index a thread has fetched and not resampled, and whether it has resampled one that is not counted.\<close>

fun held :: "nat \<Rightarrow> worker \<Rightarrow> nat multiset" where
  "held n (Checking _ index) = (if index < n then {#index#} else {#})"
| "held n (Running _ index) = {#index#}"
| "held n _ = {#}"

fun uncounted :: "worker \<Rightarrow> nat" where
  "uncounted (Counting _) = 1"
| "uncounted _ = 0"

fun submitter_held :: "nat \<Rightarrow> submitter \<Rightarrow> nat multiset" where
  "submitter_held n (S_checking index) = (if index < n then {#index#} else {#})"
| "submitter_held n (S_running index) = {#index#}"
| "submitter_held n _ = {#}"

fun submitter_uncounted :: "submitter \<Rightarrow> nat" where
  "submitter_uncounted S_counting = 1"
| "submitter_uncounted _ = 0"

fun brings :: "nat \<Rightarrow> submitter \<Rightarrow> bool" where
  "brings started (S_locking heights parts) \<longleftrightarrow> cut_wave (of_nat (started + 1)) 0 heights = Some parts"
| "brings started (S_testing heights parts) \<longleftrightarrow> cut_wave (of_nat (started + 1)) 0 heights = Some parts"
| "brings started (S_allocating heights parts) \<longleftrightarrow> cut_wave (of_nat (started + 1)) 0 heights = Some parts"
| "brings started _ = True"

definition locked_ok :: "blit_pool \<Rightarrow> bool" where
  "locked_ok st \<longleftrightarrow> (po_lock st = Some 0 \<longleftrightarrow> submitter_holds (po_submitter st)) \<and>
     (\<forall>i < length (po_workers st). po_lock st = Some (Suc i) \<longleftrightarrow> worker_holds (po_workers st ! i)) \<and>
     po_active st = sum_list (map in_round (po_workers st)) \<and> (replacing (po_submitter st) \<longrightarrow> po_active st = 0)"

definition counted_ok :: "blit_pool \<Rightarrow> bool" where
  "counted_ok st \<longleftrightarrow>
     mset (po_log st) + (sum_list (map (held (po_count st)) (po_workers st)) + submitter_held (po_count st) (po_submitter st)) =
       mset [0..<min (po_next st) (po_count st)] \<and>
     length (po_log st) = po_done st + (sum_list (map uncounted (po_workers st)) + submitter_uncounted (po_submitter st))"

definition wave_ok :: "nat \<Rightarrow> blit_pool \<Rightarrow> bool" where
  "wave_ok started st \<longleftrightarrow> length (po_workers st) = started \<and> brings started (po_submitter st) \<and>
     cut_wave (of_nat (started + 1)) 0 (po_heights st) = Some (po_parts st) \<and> po_count st = length (po_parts st)"

definition pool_ok :: "nat \<Rightarrow> blit_pool \<Rightarrow> bool" where
  "pool_ok started st \<longleftrightarrow> locked_ok st \<and> wave_ok started st \<and>
     (po_submitter st \<noteq> S_clearing \<and> po_submitter st \<noteq> S_rewinding \<longrightarrow> counted_ok st) \<and> (po_submitter st = S_rewinding \<longrightarrow> po_done st = 0) \<and>
     (po_submitter st = S_idling \<or> po_submitter st = S_flushing \<longrightarrow> po_count st \<le> po_done st)"

lemma others_kept:
  fixes f :: "worker \<Rightarrow> 'a::comm_monoid_add"
  assumes "i < length ws"
  obtains x where "sum_list (map f ws) = f (ws ! i) + x" "\<And>w. sum_list (map f (ws[i := w])) = f w + x"
proof
  let ?x = "sum_list (map f (take i ws)) + sum_list (map f (drop (Suc i) ws))"
  have "sum_list (map f (take i ws @ ws ! i # drop (Suc i) ws)) = f (ws ! i) + ?x" by (simp add: ac_simps)
  then show "sum_list (map f ws) = f (ws ! i) + ?x" using id_take_nth_drop [OF assms] by simp
  show "sum_list (map f (ws[i := w])) = f w + ?x" for w using assms by (simp add: upd_conv_take_nth_drop ac_simps)
qed

lemma none_in_round:
  assumes "sum_list (map in_round ws) = 0"
  shows "sum_list (map (held n) ws) = {#}" "sum_list (map uncounted ws) = 0"
proof -
  have r: "in_round w = 0" if "w \<in> set ws" for w using that assms by (simp add: sum_list_eq_0_iff)
  have "held n w = {#}" "uncounted w = 0" if "w \<in> set ws" for w using r [OF that] by (cases w; simp)+
  then show "sum_list (map (held n) ws) = {#}" "sum_list (map uncounted ws) = 0" by (induction ws) auto
qed

lemma fetched: "mset [0..<min (n + 1) c] = mset [0..<min n c] + (if n < c then {#n#} else {#})"
  by (simp add: min_def del: mset_upt)

lemma replacing_holds: "replacing s \<Longrightarrow> submitter_holds s"
  by (cases s) simp_all

lemma worker_locked:
  assumes "worker_step i (po_workers st ! i) st w st'" "locked_ok st" "i < length (po_workers st)"
  shows "locked_ok (move_worker i w st')"
proof -
  obtain x where x: "sum_list (map in_round (po_workers st)) = in_round (po_workers st ! i) + x"
    "\<And>w. sum_list (map in_round ((po_workers st)[i := w])) = in_round w + x"
    by (rule others_kept [where f = in_round, OF assms(3)]) (rule that)
  have h: "po_lock st = Some (Suc i) \<longleftrightarrow> worker_holds (po_workers st ! i)" using assms(2,3) by (simp add: locked_ok_def)
  have alone: "\<not> worker_holds (po_workers st ! j)" if "worker_holds (po_workers st ! i)" "i \<noteq> j" "j < length (po_workers st)" for j
    using that h assms(2) by (auto simp: locked_ok_def)
  have quiet: "\<not> replacing (po_submitter st)" if "worker_holds (po_workers st ! i)"
    using that h assms(2) replacing_holds by (auto simp: locked_ok_def)
  from assms(1) show ?thesis
    by (cases; use assms(2,3) x h alone quiet in \<open>auto simp: locked_ok_def move_worker_def nth_list_update\<close>)
qed

lemma worker_counted:
  assumes "worker_step i (po_workers st ! i) st w st'" "counted_ok st" "i < length (po_workers st)"
  shows "counted_ok (move_worker i w st')" "po_done st \<le> po_done st'" "po_count st' = po_count st"
proof -
  obtain x where x: "sum_list (map (held (po_count st)) (po_workers st)) = held (po_count st) (po_workers st ! i) + x"
    "\<And>w. sum_list (map (held (po_count st)) ((po_workers st)[i := w])) = held (po_count st) w + x"
    by (rule others_kept [where f = "held (po_count st)", OF assms(3)]) (rule that)
  obtain y where y: "sum_list (map uncounted (po_workers st)) = uncounted (po_workers st ! i) + y"
    "\<And>w. sum_list (map uncounted ((po_workers st)[i := w])) = uncounted w + y"
    by (rule others_kept [where f = uncounted, OF assms(3)]) (rule that)
  from assms(1) show "counted_ok (move_worker i w st')"
    by (cases; use assms(2,3) x y fetched [of "po_next st" "po_count st"] in \<open>simp add: counted_ok_def move_worker_def ac_simps\<close>)
  from assms(1) show "po_done st \<le> po_done st'" "po_count st' = po_count st" by (cases; simp)+
qed

lemma worker_same:
  assumes "worker_step i v st w st'"
  shows "po_submitter st' = po_submitter st" "po_workers st' = po_workers st" "po_parts st' = po_parts st" "po_count st' = po_count st"
    "po_heights st' = po_heights st" "in_round v = 0 \<Longrightarrow> po_done st' = po_done st"
  using assms by (cases; simp)+

lemma worker_ok:
  assumes "worker_step i (po_workers st ! i) st w st'" "pool_ok started st" "i < length (po_workers st)"
  shows "pool_ok started (move_worker i w st')"
proof -
  note same = worker_same [OF assms(1)]
  have l: "locked_ok (move_worker i w st')" using worker_locked [OF assms(1) _ assms(3)] assms(2) by (simp add: pool_ok_def)
  have w: "wave_ok started (move_worker i w st')" using assms(2) same by (simp add: pool_ok_def wave_ok_def move_worker_def)
  show ?thesis
  proof (cases "po_submitter st = S_clearing \<or> po_submitter st = S_rewinding")
    case True
    then have "sum_list (map in_round (po_workers st)) = 0" using assms(2) by (auto simp: pool_ok_def locked_ok_def)
    then have "in_round (po_workers st ! i) = 0" using assms(3) by (simp add: sum_list_eq_0_iff)
    then show ?thesis using True l w same assms(2) by (auto simp: pool_ok_def move_worker_def)
  next
    case False
    then have "counted_ok st" using assms(2) by (simp add: pool_ok_def)
    from worker_counted [OF assms(1) this assms(3)] show ?thesis using False l w same assms(2) by (auto simp: pool_ok_def move_worker_def)
  qed
qed

lemma submitter_locked:
  assumes "submitter_step (po_submitter st) st s st'" "locked_ok st"
  shows "locked_ok (st'\<lparr>po_submitter := s\<rparr>)"
proof -
  have h: "po_lock st = Some 0 \<longleftrightarrow> submitter_holds (po_submitter st)" using assms(2) by (simp add: locked_ok_def)
  have others: "\<not> worker_holds (po_workers st ! j)" if "submitter_holds (po_submitter st)" "j < length (po_workers st)" for j
    using that h assms(2) by (auto simp: locked_ok_def)
  from assms(1) show ?thesis
    by (cases; use assms(2) h others in \<open>auto simp: locked_ok_def\<close>)
qed

lemma submitter_counted:
  assumes "submitter_step (po_submitter st) st s st'" "counted_ok st" "s \<noteq> S_clearing" "s \<noteq> S_rewinding" "s \<noteq> S_announcing"
  shows "counted_ok (st'\<lparr>po_submitter := s\<rparr>)" "po_count st' = po_count st"
proof -
  from assms(1) show "counted_ok (st'\<lparr>po_submitter := s\<rparr>)"
    by (cases; use assms(2-5) fetched [of "po_next st" "po_count st"] in \<open>simp add: counted_ok_def ac_simps\<close>)
  from assms(1) show "po_count st' = po_count st" by (cases; use assms(3) in simp)
qed

lemma submitter_ok:
  assumes "submitter_step (po_submitter st) st s st'" "pool_ok started st"
  shows "pool_ok started (st'\<lparr>po_submitter := s\<rparr>)"
proof -
  have l: "locked_ok (st'\<lparr>po_submitter := s\<rparr>)" using submitter_locked [OF assms(1)] assms(2) by (simp add: pool_ok_def)
  have w: "wave_ok started (st'\<lparr>po_submitter := s\<rparr>)"
    using assms(1) by (cases; use assms(2) in \<open>simp add: pool_ok_def wave_ok_def\<close>)
  have d: "po_submitter (st'\<lparr>po_submitter := s\<rparr>) = S_rewinding \<longrightarrow> po_done st' = 0" using assms(1) by (cases; simp)
  have f: "s = S_idling \<or> s = S_flushing \<longrightarrow> po_count st' \<le> po_done st'" using assms(1) by (cases; use assms(2) in \<open>simp add: pool_ok_def\<close>)
  have "counted_ok (st'\<lparr>po_submitter := s\<rparr>)" if "s \<noteq> S_clearing" "s \<noteq> S_rewinding"
  proof (cases "s = S_announcing")
    case True
    have st: "po_submitter st = S_rewinding \<and> st' = st\<lparr>po_next := 0, po_log := []\<rparr>" using assms(1) by (cases; use True in simp)
    then have "sum_list (map in_round (po_workers st)) = 0" "po_done st = 0" using assms(2) by (auto simp: pool_ok_def locked_ok_def)
    then show ?thesis using none_in_round [of "po_workers st"] st True by (simp add: counted_ok_def)
  next
    case False
    have "po_submitter st \<noteq> S_clearing" "po_submitter st \<noteq> S_rewinding" using assms(1) that False by (cases; auto)+
    then have "counted_ok st" using assms(2) by (simp add: pool_ok_def)
    then show ?thesis using submitter_counted(1) [OF assms(1)] that False by simp
  qed
  then show ?thesis using l w d f by (simp add: pool_ok_def)
qed

lemma no_indices: "sum_list (replicate n {#}) = {#}"
  by (induction n) simp_all

lemma fresh_pool_ok: "pool_ok started (ps5vk_blit_pool_get started)"
  by (simp add: pool_ok_def ps5vk_blit_pool_get_def locked_ok_def wave_ok_def counted_ok_def sum_list_eq_0_iff no_indices)

lemma pool_reach_ok: "pool_reach started st \<Longrightarrow> pool_ok started st"
proof (induction rule: pool_reach.induct)
  case (worker st i w st')
  then show ?case using worker_ok by blast
next
  case (submitter st s st')
  then show ?case using submitter_ok by blast
qed (rule fresh_pool_ok)

text \<open>A round of two parts that a worker and the submitting thread share.\<close>

definition sample_heights :: "u32 list" where "sample_heights = [20]"

definition sample_parts :: "blit_part list" where
  "sample_parts = [\<lparr>pt_copy = 0, pt_row_begin = 0, pt_row_end = 16\<rparr>, \<lparr>pt_copy = 0, pt_row_begin = 16, pt_row_end = 20\<rparr>]"

definition pool_at :: "nat option \<Rightarrow> u32 \<Rightarrow> bool \<Rightarrow> nat \<Rightarrow> nat \<Rightarrow> nat \<Rightarrow> worker \<Rightarrow> submitter \<Rightarrow> nat list \<Rightarrow> blit_pool" where
  "pool_at lock generation published next_part done_parts active w s log =
     \<lparr>po_lock = lock, po_quit = False, po_generation = generation, po_parts = (if published then sample_parts else []),
      po_count = (if published then 2 else 0), po_next = next_part, po_done = done_parts, po_active = active, po_workers = [w], po_submitter = s,
      po_heights = (if published then sample_heights else []), po_log = log\<rparr>"

lemma sample_cut: "cut_wave 2 0 sample_heights = Some sample_parts" "length sample_parts = 2"
  by (simp_all add: sample_heights_def sample_parts_def cut_rows.simps ps5vk_blit_part_rows_def DIV_ROUND_UP_def PS5VK_BLIT_MIN_ROWS_def max_def min_def)

lemma reach_allocating: "pool_reach 1 (pool_at (Some 0) 0 False 0 0 0 (Sleeping 0) (S_allocating sample_heights sample_parts) [])"
proof -
  have a0: "pool_reach 1 (pool_at None 0 False 0 0 0 (Starting) (Outside) [])"
    using pool_reach.fresh [of 1] by (simp add: pool_at_def ps5vk_blit_pool_get_def)
  have a1: "pool_reach 1 (pool_at (Some 1) 0 False 0 0 0 (Looking 0) (Outside) [])"
    using pool_reach.worker [OF a0, of 0 "Looking 0" "pool_at (Some 1) 0 False 0 0 0 (Starting) (Outside) []"] by (simp add: pool_at_def move_worker_def worker_step.simps)
  have a2: "pool_reach 1 (pool_at None 0 False 0 0 0 (Sleeping 0) (Outside) [])"
    using pool_reach.worker [OF a1, of 0 "Sleeping 0" "pool_at None 0 False 0 0 0 (Looking 0) (Outside) []"] by (simp add: pool_at_def move_worker_def worker_step.simps)
  have a3: "pool_reach 1 (pool_at None 0 False 0 0 0 (Sleeping 0) (S_locking sample_heights sample_parts) [])"
    using pool_reach.submitter [OF a2, of "S_locking sample_heights sample_parts" "pool_at None 0 False 0 0 0 (Sleeping 0) (Outside) []"] by (simp add: pool_at_def submitter_step.simps sample_cut)
  have a4: "pool_reach 1 (pool_at (Some 0) 0 False 0 0 0 (Sleeping 0) (S_testing sample_heights sample_parts) [])"
    using pool_reach.submitter [OF a3, of "S_testing sample_heights sample_parts" "pool_at (Some 0) 0 False 0 0 0 (Sleeping 0) (S_locking sample_heights sample_parts) []"] by (simp add: pool_at_def submitter_step.simps sample_cut)
  show ?thesis
    using pool_reach.submitter [OF a4, of "S_allocating sample_heights sample_parts" "pool_at (Some 0) 0 False 0 0 0 (Sleeping 0) (S_testing sample_heights sample_parts) []"] by (simp add: pool_at_def submitter_step.simps sample_cut)
qed

lemma reach_flushing: "pool_reach 1 (pool_at None 1 True 4 2 0 (Relocking 1) (S_flushing) [1, 0])"
proof -
  note a5 = reach_allocating
  have a6: "pool_reach 1 (pool_at (Some 0) 0 True 0 0 0 (Sleeping 0) (S_clearing) [])"
    using pool_reach.submitter [OF a5, of "S_clearing" "pool_at (Some 0) 0 True 0 0 0 (Sleeping 0) (S_allocating sample_heights sample_parts) []"] by (simp add: pool_at_def submitter_step.simps sample_cut)
  have a7: "pool_reach 1 (pool_at (Some 0) 0 True 0 0 0 (Sleeping 0) (S_rewinding) [])"
    using pool_reach.submitter [OF a6, of "S_rewinding" "pool_at (Some 0) 0 True 0 0 0 (Sleeping 0) (S_clearing) []"] by (simp add: pool_at_def submitter_step.simps sample_cut)
  have a8: "pool_reach 1 (pool_at (Some 0) 0 True 0 0 0 (Sleeping 0) (S_announcing) [])"
    using pool_reach.submitter [OF a7, of "S_announcing" "pool_at (Some 0) 0 True 0 0 0 (Sleeping 0) (S_rewinding) []"] by (simp add: pool_at_def submitter_step.simps sample_cut)
  have a9: "pool_reach 1 (pool_at (Some 0) 1 True 0 0 0 (Sleeping 0) (S_unlocking) [])"
    using pool_reach.submitter [OF a8, of "S_unlocking" "pool_at (Some 0) 1 True 0 0 0 (Sleeping 0) (S_announcing) []"] by (simp add: pool_at_def submitter_step.simps sample_cut)
  have a10: "pool_reach 1 (pool_at None 1 True 0 0 0 (Sleeping 0) (S_fetching) [])"
    using pool_reach.submitter [OF a9, of "S_fetching" "pool_at None 1 True 0 0 0 (Sleeping 0) (S_unlocking) []"] by (simp add: pool_at_def submitter_step.simps sample_cut)
  have a11: "pool_reach 1 (pool_at (Some 1) 1 True 0 0 0 (Looking 0) (S_fetching) [])"
    using pool_reach.worker [OF a10, of 0 "Looking 0" "pool_at (Some 1) 1 True 0 0 0 (Sleeping 0) (S_fetching) []"] by (simp add: pool_at_def move_worker_def worker_step.simps)
  have a12: "pool_reach 1 (pool_at (Some 1) 1 True 0 0 1 (Joined 1) (S_fetching) [])"
    using pool_reach.worker [OF a11, of 0 "Joined 1" "pool_at (Some 1) 1 True 0 0 1 (Looking 0) (S_fetching) []"] by (simp add: pool_at_def move_worker_def worker_step.simps)
  have a13: "pool_reach 1 (pool_at None 1 True 0 0 1 (Fetching 1) (S_fetching) [])"
    using pool_reach.worker [OF a12, of 0 "Fetching 1" "pool_at None 1 True 0 0 1 (Joined 1) (S_fetching) []"] by (simp add: pool_at_def move_worker_def worker_step.simps)
  have a14: "pool_reach 1 (pool_at None 1 True 1 0 1 (Checking 1 0) (S_fetching) [])"
    using pool_reach.worker [OF a13, of 0 "Checking 1 0" "pool_at None 1 True 1 0 1 (Fetching 1) (S_fetching) []"] by (simp add: pool_at_def move_worker_def worker_step.simps)
  have a15: "pool_reach 1 (pool_at None 1 True 2 0 1 (Checking 1 0) (S_checking 1) [])"
    using pool_reach.submitter [OF a14, of "S_checking 1" "pool_at None 1 True 2 0 1 (Checking 1 0) (S_fetching) []"] by (simp add: pool_at_def submitter_step.simps sample_cut)
  have a16: "pool_reach 1 (pool_at None 1 True 2 0 1 (Running 1 0) (S_checking 1) [])"
    using pool_reach.worker [OF a15, of 0 "Running 1 0" "pool_at None 1 True 2 0 1 (Checking 1 0) (S_checking 1) []"] by (simp add: pool_at_def move_worker_def worker_step.simps)
  have a17: "pool_reach 1 (pool_at None 1 True 2 0 1 (Running 1 0) (S_running 1) [])"
    using pool_reach.submitter [OF a16, of "S_running 1" "pool_at None 1 True 2 0 1 (Running 1 0) (S_checking 1) []"] by (simp add: pool_at_def submitter_step.simps sample_cut)
  have a18: "pool_reach 1 (pool_at None 1 True 2 0 1 (Running 1 0) (S_counting) [1])"
    using pool_reach.submitter [OF a17, of "S_counting" "pool_at None 1 True 2 0 1 (Running 1 0) (S_running 1) [1]"] by (simp add: pool_at_def submitter_step.simps sample_cut)
  have a19: "pool_reach 1 (pool_at None 1 True 2 0 1 (Counting 1) (S_counting) [1, 0])"
    using pool_reach.worker [OF a18, of 0 "Counting 1" "pool_at None 1 True 2 0 1 (Running 1 0) (S_counting) [1, 0]"] by (simp add: pool_at_def move_worker_def worker_step.simps)
  have a20: "pool_reach 1 (pool_at None 1 True 2 1 1 (Counting 1) (S_fetching) [1, 0])"
    using pool_reach.submitter [OF a19, of "S_fetching" "pool_at None 1 True 2 1 1 (Counting 1) (S_counting) [1, 0]"] by (simp add: pool_at_def submitter_step.simps sample_cut)
  have a21: "pool_reach 1 (pool_at None 1 True 2 2 1 (Fetching 1) (S_fetching) [1, 0])"
    using pool_reach.worker [OF a20, of 0 "Fetching 1" "pool_at None 1 True 2 2 1 (Counting 1) (S_fetching) [1, 0]"] by (simp add: pool_at_def move_worker_def worker_step.simps)
  have a22: "pool_reach 1 (pool_at None 1 True 3 2 1 (Fetching 1) (S_checking 2) [1, 0])"
    using pool_reach.submitter [OF a21, of "S_checking 2" "pool_at None 1 True 3 2 1 (Fetching 1) (S_fetching) [1, 0]"] by (simp add: pool_at_def submitter_step.simps sample_cut)
  have a23: "pool_reach 1 (pool_at None 1 True 3 2 1 (Fetching 1) (S_waiting) [1, 0])"
    using pool_reach.submitter [OF a22, of "S_waiting" "pool_at None 1 True 3 2 1 (Fetching 1) (S_checking 2) [1, 0]"] by (simp add: pool_at_def submitter_step.simps sample_cut)
  have a24: "pool_reach 1 (pool_at None 1 True 4 2 1 (Checking 1 3) (S_waiting) [1, 0])"
    using pool_reach.worker [OF a23, of 0 "Checking 1 3" "pool_at None 1 True 4 2 1 (Fetching 1) (S_waiting) [1, 0]"] by (simp add: pool_at_def move_worker_def worker_step.simps)
  have a25: "pool_reach 1 (pool_at None 1 True 4 2 1 (Leaving 1) (S_waiting) [1, 0])"
    using pool_reach.worker [OF a24, of 0 "Leaving 1" "pool_at None 1 True 4 2 1 (Checking 1 3) (S_waiting) [1, 0]"] by (simp add: pool_at_def move_worker_def worker_step.simps)
  have a26: "pool_reach 1 (pool_at None 1 True 4 2 0 (Relocking 1) (S_waiting) [1, 0])"
    using pool_reach.worker [OF a25, of 0 "Relocking 1" "pool_at None 1 True 4 2 0 (Leaving 1) (S_waiting) [1, 0]"] by (simp add: pool_at_def move_worker_def worker_step.simps)
  have a27: "pool_reach 1 (pool_at None 1 True 4 2 0 (Relocking 1) (S_idling) [1, 0])"
    using pool_reach.submitter [OF a26, of "S_idling" "pool_at None 1 True 4 2 0 (Relocking 1) (S_waiting) [1, 0]"] by (simp add: pool_at_def submitter_step.simps sample_cut)
  show ?thesis
    using pool_reach.submitter [OF a27, of "S_flushing" "pool_at None 1 True 4 2 0 (Relocking 1) (S_idling) [1, 0]"] by (simp add: pool_at_def submitter_step.simps sample_cut)
qed

text \<open>While the submitting thread replaces the parts of a round (reallocates them, fills them, resets the counters), it holds the lock and no worker is
  between joining a round and leaving it, so no worker reads parts that are being replaced; however the threads interleave.\<close>

lemma round_replaced_alone:
  assumes "pool_reach started st" "replacing (po_submitter st)"
  shows "po_lock st = Some 0 \<and> list_all (\<lambda>w. in_round w = 0) (po_workers st)"
  using pool_reach_ok [OF assms(1)] assms(2) replacing_holds [OF assms(2)] by (auto simp: pool_ok_def locked_ok_def list_all_iff sum_list_eq_0_iff)

text \<open>C31. When the submitting thread flushes the parts of a round and returns, every part was resampled exactly once, by it or by a worker, and so every row of
  every blit of the wave was, however the threads interleave. Heights are at most \<open>2\<^sup>3\<^sup>1\<close>.\<close>

theorem round_complete:
  assumes "pool_reach started st" "po_submitter st = S_flushing" "started \<le> PS5VK_BLIT_WORKERS" "\<forall>height \<in> set (po_heights st). unat height \<le> 2 ^ 31"
  shows "mset (po_log st) = mset [0..<length (po_parts st)] \<and>
    mset (concat (map (\<lambda>index. part_rows (po_parts st ! index)) (po_log st))) = mset (wave_rows (po_heights st))"
proof -
  have ok: "counted_ok st" "wave_ok started st" "po_count st \<le> po_done st"
    using pool_reach_ok [OF assms(1)] assms(2) by (simp_all add: pool_ok_def)
  let ?held = "sum_list (map (held (po_count st)) (po_workers st)) + submitter_held (po_count st) (po_submitter st)"
  have sum: "mset (po_log st) + ?held = mset [0..<min (po_next st) (po_count st)]" using ok(1) by (simp only: counted_ok_def)
  have "length (po_log st) + size ?held = min (po_next st) (po_count st)" using arg_cong [OF sum, of size] by simp
  moreover have "po_count st \<le> length (po_log st)" using ok(1,3) by (simp add: counted_ok_def)
  ultimately have "size ?held = 0" "min (po_next st) (po_count st) = po_count st" by linarith+
  then have all: "mset (po_log st) = mset [0..<length (po_parts st)]" using sum ok(2) by (simp add: wave_ok_def)
  have "of_nat (started + 1) \<in> {1, 2, 3, 4, 5 :: u32}" using assms(3) by (auto simp: PS5VK_BLIT_WORKERS_def le_Suc_eq numeral_eq_Suc)
  from cut_wave_parts [OF assms(4) this, of 0] have rows: "concat (map part_rows (po_parts st)) = wave_rows (po_heights st)"
    using ok(2) by (auto simp: wave_ok_def wave_rows_def)
  have "mset (concat (map (\<lambda>index. part_rows (po_parts st ! index)) (po_log st))) =
      mset (concat (map (\<lambda>index. part_rows (po_parts st ! index)) [0..<length (po_parts st)]))"
    using arg_cong [OF all, of "\<lambda>m. \<Sum>\<^sub># (image_mset (\<lambda>index. mset (part_rows (po_parts st ! index))) m)"]
    by (simp add: mset_concat comp_def flip: sum_mset_sum_list mset_map del: mset_upt)
  moreover have "map (\<lambda>index. part_rows (po_parts st ! index)) [0..<length (po_parts st)] = map part_rows (po_parts st)"
    by (rule nth_equalityI) simp_all
  ultimately show ?thesis using all rows by simp
qed

theorem round_complete_witness:
  "po_log (pool_at None 1 True 4 2 0 (Relocking 1) (S_flushing) [1, 0]) = [1, 0] \<and> mset (part_rows (sample_parts ! 1) @ part_rows (sample_parts ! 0)) = mset (wave_rows sample_heights)"
proof -
  have h: "po_submitter (pool_at None 1 True 4 2 0 (Relocking 1) (S_flushing) [1, 0]) = S_flushing" "1 \<le> PS5VK_BLIT_WORKERS" "\<forall>height \<in> set (po_heights (pool_at None 1 True 4 2 0 (Relocking 1) (S_flushing) [1, 0])). unat height \<le> 2 ^ 31"
    by (simp_all add: pool_at_def PS5VK_BLIT_WORKERS_def sample_heights_def)
  from round_complete [OF reach_flushing h] show ?thesis by (simp add: pool_at_def)
qed

end
