(* ===== verification/Vk_Resolve.thy ===== *)
theory Vk_Resolve
  imports Vk_Copy
begin

text \<open>
  Resolves and clears on the CPU, \<open>ps5vk_resolve_execute\<close> and \<open>ps5vk_clear_execute\<close> of \<open>driver/ps5vk_queue.c\<close>: the bytes of
  a resolved texel are the rounded averages of the bytes of the four samples of its source, and a clear writes its colour over every sample.
\<close>


section \<open>Resolves\<close>

text \<open>The sum of a byte of the four samples, and the bytes of one destination texel: the averages, rounded.\<close>

definition sample_place :: "memory_copy \<Rightarrow> nat \<Rightarrow> nat \<Rightarrow> u32 \<Rightarrow> u64" where
  "sample_place copy row column s =
     ps5vk_image_copy_address (mc_source_side copy) (of_nat column) (of_nat row) (mc_source_texel_bytes copy div 4) s"

definition resolved_place :: "memory_copy \<Rightarrow> nat \<Rightarrow> nat \<Rightarrow> u64" where
  "resolved_place copy row column =
     ps5vk_image_copy_address (mc_destination_side copy) (mc_destination_x copy + of_nat column) (mc_destination_y copy + of_nat row)
       (mc_destination_texel_bytes copy) 0"

definition sample_total :: "memory_copy \<Rightarrow> memory \<Rightarrow> nat \<Rightarrow> nat \<Rightarrow> nat \<Rightarrow> u32" where
  "sample_total copy m column row byte =
     fold (\<lambda>sample sum. sum + ucast (m (sample_place copy row column sample + of_nat byte))) [0, 1, 2, 3] 0"

definition resolved_texel :: "memory_copy \<Rightarrow> memory \<Rightarrow> nat \<Rightarrow> nat \<Rightarrow> u8 list" where
  "resolved_texel copy m column row =
     map (\<lambda>byte. ucast ((sample_total copy m column row byte + 2) div 4)) [0..<unat (mc_destination_texel_bytes copy)]"

fun store_bytes :: "memory \<Rightarrow> u64 \<Rightarrow> u8 list \<Rightarrow> memory" where
  "store_bytes m dst [] = m"
| "store_bytes m dst (b # bs) = store_bytes (m(dst := b)) (dst + 1) bs"

definition resolve_step :: "memory_copy \<Rightarrow> nat \<Rightarrow> nat \<Rightarrow> memory \<Rightarrow> memory" where
  "resolve_step copy row column m = store_bytes m (resolved_place copy row column) (resolved_texel copy m column row)"

text \<open>The lowest and the highest address of the texels a loop has passed, \<open>MIN2\<close> and \<open>MAX2\<close>.\<close>

definition widen :: "u64 \<Rightarrow> u64 \<Rightarrow> u64 \<times> u64 \<Rightarrow> u64 \<times> u64" where
  "widen bytes at span = (min (fst span) at, max (snd span) (at + bytes))"

definition resolve_source_span :: "memory_copy \<Rightarrow> u64 \<times> u64" where
  "resolve_source_span copy =
     fold (\<lambda>row. fold (\<lambda>column. fold (\<lambda>byte. fold (\<lambda>sample. widen (ucast (mc_source_texel_bytes copy div 4)) (sample_place copy row column sample))
       [0, 1, 2, 3]) [0..<unat (mc_destination_texel_bytes copy)]) [0..<unat (mc_width copy)]) [0..<unat (mc_height copy)] (UINT64_MAX, 0)"

definition resolve_destination_span :: "memory_copy \<Rightarrow> u64 \<times> u64" where
  "resolve_destination_span copy =
     fold (\<lambda>row. fold (\<lambda>column. widen (ucast (mc_destination_texel_bytes copy)) (resolved_place copy row column))
       [0..<unat (mc_width copy)]) [0..<unat (mc_height copy)] (UINT64_MAX, 0)"

text \<open>
  The memory after a resolve, and the spans flushed out of the CPU cache before and after it. \<open>None\<close> is a write past the four
  bytes of the local \<open>resolved\<close>.
\<close>

definition ps5vk_resolve_execute :: "memory_copy \<Rightarrow> memory \<Rightarrow> (memory \<times> (u64 \<times> u64) list) option" where
  "ps5vk_resolve_execute copy m =
     (if 4 < mc_destination_texel_bytes copy \<and> 0 < mc_width copy \<and> 0 < mc_height copy then None
      else Some (fold (\<lambda>row. fold (resolve_step copy row) [0..<unat (mc_width copy)]) [0..<unat (mc_height copy)] m,
        (if mc_source_span_bytes copy \<noteq> 0 then [(mc_source_span copy, mc_source_span_bytes copy)] else []) @
        case_prod flush_span (resolve_source_span copy) @ case_prod flush_span (resolve_destination_span copy)))"

section \<open>Clears\<close>

text \<open>A clear writes its colour over every sample of every texel of a region.\<close>

definition clear_samples :: "memory_copy \<Rightarrow> u32 list" where
  "clear_samples copy = (if cs_samples (mc_destination_side copy) = 4 then [0, 1, 2, 3] else [0])"

definition clear_sample_bytes :: "memory_copy \<Rightarrow> u32" where
  "clear_sample_bytes copy = mc_destination_texel_bytes copy div (if cs_samples (mc_destination_side copy) = 4 then 4 else 1)"

definition clear_place :: "memory_copy \<Rightarrow> nat \<Rightarrow> nat \<Rightarrow> u32 \<Rightarrow> u64" where
  "clear_place copy row column sample =
     ps5vk_image_copy_address (mc_destination_side copy) (mc_destination_x copy + of_nat column) (mc_destination_y copy + of_nat row)
       (clear_sample_bytes copy) sample"

definition clear_step :: "memory_copy \<Rightarrow> u64 \<Rightarrow> memory \<times> u64 \<times> u64 \<Rightarrow> memory \<times> u64 \<times> u64" where
  "clear_step copy at st =
     (store_bytes (fst st) at (take (unat (clear_sample_bytes copy)) (mc_clear_texel copy)), widen (ucast (clear_sample_bytes copy)) at (snd st))"

text \<open>The memory after it and the span flushed; \<open>None\<close> is a read past the colour's bytes.\<close>

definition ps5vk_clear_execute :: "memory_copy \<Rightarrow> memory \<Rightarrow> (memory \<times> (u64 \<times> u64) list) option" where
  "ps5vk_clear_execute copy m =
     (if length (mc_clear_texel copy) < unat (clear_sample_bytes copy) \<and> 0 < mc_width copy \<and> 0 < mc_height copy then None
      else case fold (\<lambda>row. fold (\<lambda>column. fold (\<lambda>sample. clear_step copy (clear_place copy row column sample)) (clear_samples copy))
               [0..<unat (mc_width copy)]) [0..<unat (mc_height copy)] (m, UINT64_MAX, 0) of
             (m, low, high) \<Rightarrow> Some (m, flush_span low high))"

section \<open>Bytes at an address\<close>

definition span :: "u64 \<Rightarrow> nat \<Rightarrow> u64 set" where
  "span p n = (\<lambda>j. p + of_nat j) ` {..<n}"

lemma span_Suc: "span p (Suc n) = insert p (span (p + 1) n)"
proof -
  have "{..<Suc n} = insert 0 (Suc ` {..<n})" by (rule lessThan_Suc_eq_insert_0)
  then show ?thesis by (simp add: span_def image_image add.assoc)
qed

lemma store_bytes_outside: "a \<notin> span p (length bs) \<Longrightarrow> store_bytes m p bs a = m a"
  by (induction m p bs rule: store_bytes.induct) (auto simp: span_Suc)

lemma start_not_later:
  assumes "n < 2 ^ 64"
  shows "p \<notin> span (p + 1) n"
proof
  assume "p \<in> span (p + 1) n"
  then obtain j where j: "j < n" "p = p + 1 + of_nat j" by (auto simp: span_def)
  then have "(of_nat (Suc j) :: u64) = 0" by (simp add: add.assoc)
  then have "unat (of_nat (Suc j) :: u64) = 0" by simp
  then show False using j(1) assms by (simp only: unsigned_of_nat) (simp add: take_bit_nat_eq_self)
qed

lemma store_bytes_inside:
  assumes "j < length bs" "length bs \<le> 2 ^ 64"
  shows "store_bytes m p bs (p + of_nat j) = bs ! j"
  using assms
proof (induction m p bs arbitrary: j rule: store_bytes.induct)
  case (2 m p b bs)
  show ?case
  proof (cases j)
    case 0
    have "p \<notin> span (p + 1) (length bs)" using "2.prems"(2) by (intro start_not_later) simp
    then show ?thesis using 0 store_bytes_outside [of p "p + 1" bs "m(p := b)"] by simp
  next
    case (Suc k)
    then show ?thesis using "2.IH" [of k] "2.prems" by (simp add: add.assoc del: fun_upd_apply)
  qed
qed simp

section \<open>What a resolve leaves\<close>

definition average :: "nat list \<Rightarrow> nat" where
  "average vs = (sum_list vs + 2) div 4"

lemma sample_total_sum:
  "unat (sample_total copy m column row byte) =
    sum_list (map (\<lambda>s. unat (m (sample_place copy row column s + of_nat byte))) [0, 1, 2, 3])"
  "sum_list (map (\<lambda>s. unat (m (sample_place copy row column s + of_nat byte))) [0, 1, 2, 3]) \<le> 1020"
proof -
  have b: "unat (v :: u8) \<le> 255" for v using unsigned_less [of v, where ?'a = nat] by simp
  have u: "unat (ucast v :: u32) = unat v" for v :: u8 using b [of v] by (simp add: unsigned_ucast_eq take_bit_nat_eq_self)
  note bs = b [of "m (sample_place copy row column 0 + of_nat byte)"] b [of "m (sample_place copy row column 1 + of_nat byte)"]
    b [of "m (sample_place copy row column 2 + of_nat byte)"] b [of "m (sample_place copy row column 3 + of_nat byte)"]
  show "sum_list (map (\<lambda>s. unat (m (sample_place copy row column s + of_nat byte))) [0, 1, 2, 3]) \<le> 1020" using bs by simp
  show "unat (sample_total copy m column row byte) =
      sum_list (map (\<lambda>s. unat (m (sample_place copy row column s + of_nat byte))) [0, 1, 2, 3])"
    using bs unfolding sample_total_def by (simp add: unat_word_ariths(1) u)
qed

lemma resolved_texel_bytes:
  "length (resolved_texel copy m c r) = unat (mc_destination_texel_bytes copy)"
  "byte < unat (mc_destination_texel_bytes copy) \<Longrightarrow>
    unat (resolved_texel copy m column row ! byte) =
    average (map (\<lambda>s. unat (m (sample_place copy row column s + of_nat byte))) [0, 1, 2, 3])"
proof -
  show "length (resolved_texel copy m c r) = unat (mc_destination_texel_bytes copy)" by (simp add: resolved_texel_def)
  assume b: "byte < unat (mc_destination_texel_bytes copy)"
  let ?t = "sample_total copy m column row byte"
  note t = sample_total_sum [where copy = copy and m = m and column = column and row = row and byte = byte]
  have "unat ?t \<le> 1020" using t by simp
  then have "unat ((?t + 2) div 4) = (unat ?t + 2) div 4" by (simp add: unat_div_distrib unat_word_ariths(1))
  moreover from this have "unat ((?t + 2) div 4) \<le> 255" using \<open>unat ?t \<le> 1020\<close> by simp
  ultimately have "unat (ucast ((?t + 2) div 4) :: u8) = (unat ?t + 2) div 4" by (simp add: unsigned_ucast_eq take_bit_nat_eq_self)
  then show "unat (resolved_texel copy m column row ! byte) =
    average (map (\<lambda>s. unat (m (sample_place copy row column s + of_nat byte))) [0, 1, 2, 3])"
    using b t(1) by (simp add: resolved_texel_def average_def)
qed

text \<open>No destination texel meets another one or a sample that is still to be read.\<close>

definition resolve_apart :: "memory_copy \<Rightarrow> (nat \<times> nat) list \<Rightarrow> bool" where
  "resolve_apart copy texels \<longleftrightarrow>
     (let n = unat (mc_destination_texel_bytes copy)
      in list_all (\<lambda>(row, column). list_all (\<lambda>(row', column').
           ((row, column) = (row', column') \<or> span (resolved_place copy row column) n \<inter> span (resolved_place copy row' column') n = {}) \<and>
           list_all (\<lambda>s. span (sample_place copy row column s) n \<inter> span (resolved_place copy row' column') n = {}) [0, 1, 2, 3]) texels) texels)"

lemma resolve_apartD:
  assumes "resolve_apart copy all" "(row, column) \<in> set all" "(row', column') \<in> set all"
  shows "(row, column) \<noteq> (row', column') \<Longrightarrow> j < unat (mc_destination_texel_bytes copy) \<Longrightarrow>
      resolved_place copy row column + of_nat j \<notin> span (resolved_place copy row' column') (unat (mc_destination_texel_bytes copy))"
    and "s \<in> {0, 1, 2, 3} \<Longrightarrow> j < unat (mc_destination_texel_bytes copy) \<Longrightarrow>
      sample_place copy row column s + of_nat j \<notin> span (resolved_place copy row' column') (unat (mc_destination_texel_bytes copy))"
proof -
  let ?n = "unat (mc_destination_texel_bytes copy)"
  have in_span: "p + of_nat j \<in> span p ?n" if "j < ?n" for p j using that by (auto simp: span_def)
  have a: "(row, column) \<noteq> (row', column') \<Longrightarrow> span (resolved_place copy row column) ?n \<inter> span (resolved_place copy row' column') ?n = {}"
    "s \<in> {0, 1, 2, 3} \<Longrightarrow> span (sample_place copy row column s) ?n \<inter> span (resolved_place copy row' column') ?n = {}"
    using bspec [OF bspec [OF assms(1) [unfolded resolve_apart_def Let_def list_all_iff] assms(2), unfolded prod.case] assms(3), unfolded prod.case]
    unfolding list.set by blast+
  show "resolved_place copy row column + of_nat j \<notin> span (resolved_place copy row' column') ?n" if "(row, column) \<noteq> (row', column')" "j < ?n"
    using a(1) [OF that(1)] in_span [OF that(2)] by blast
  show "sample_place copy row column s + of_nat j \<notin> span (resolved_place copy row' column') ?n" if "s \<in> {0, 1, 2, 3}" "j < ?n"
    using a(2) [OF that(1)] in_span [OF that(2)] by blast
qed

lemma resolve_frame:
  assumes "\<And>row column. (row, column) \<in> set texels \<Longrightarrow> a \<notin> span (resolved_place copy row column) (unat (mc_destination_texel_bytes copy))"
  shows "fold (\<lambda>(row, column). resolve_step copy row column) texels m a = m a"
  using assms
proof (induction texels arbitrary: m)
  case (Cons t texels)
  obtain r c where t: "t = (r, c)" by (cases t)
  have "resolve_step copy r c m a = m a"
    unfolding resolve_step_def using Cons.prems [of r c] t resolved_texel_bytes(1)
    by (intro store_bytes_outside) simp
  then show ?case using Cons.IH [of "resolve_step copy r c m"] Cons.prems t by simp
qed simp

lemma resolve_texels:
  assumes "distinct texels" "resolve_apart copy all" "set texels \<subseteq> set all"
    and "\<And>row column s j. (row, column) \<in> set all \<Longrightarrow> s \<in> {0, 1, 2, 3} \<Longrightarrow> j < unat (mc_destination_texel_bytes copy) \<Longrightarrow>
      m (sample_place copy row column s + of_nat j) = m0 (sample_place copy row column s + of_nat j)"
    and "(row, column) \<in> set texels" "byte < unat (mc_destination_texel_bytes copy)"
  shows "unat (fold (\<lambda>(row, column). resolve_step copy row column) texels m (resolved_place copy row column + of_nat byte)) =
        average (map (\<lambda>s. unat (m0 (sample_place copy row column s + of_nat byte))) [0, 1, 2, 3])"
  using assms(1,3-5)
proof (induction texels arbitrary: m)
  case (Cons t texels)
  let ?n = "unat (mc_destination_texel_bytes copy)"
  obtain r c where t: "t = (r, c)" by (cases t)
  let ?m = "resolve_step copy r c m"
  have inall: "(r, c) \<in> set all" using Cons.prems(2) t by simp
  have len: "length (resolved_texel copy m c r) = ?n" by (rule resolved_texel_bytes(1))
  have keep: "?m (sample_place copy row column s + of_nat j) = m (sample_place copy row column s + of_nat j)"
    if "(row, column) \<in> set all" "s \<in> {0, 1, 2, 3}" "j < ?n" for row column s j
    unfolding resolve_step_def
    using resolve_apartD(2) [OF assms(2) that(1) inall that(2,3)] by (intro store_bytes_outside) (simp add: len)
  show ?case
  proof (cases "(row, column) = (r, c)")
    case True
    have "a \<notin> span (resolved_place copy row' column') ?n" if "(row', column') \<in> set texels" "a = resolved_place copy r c + of_nat byte" for row' column' a
      using resolve_apartD(1) [OF assms(2) inall, of row' column' byte] that Cons.prems(1,2) t assms(6) by auto
    then have "fold (\<lambda>(row, column). resolve_step copy row column) texels ?m (resolved_place copy r c + of_nat byte) = ?m (resolved_place copy r c + of_nat byte)"
      by (intro resolve_frame) blast
    also have "\<dots> = resolved_texel copy m c r ! byte"
      unfolding resolve_step_def
      using assms(6) unsigned_less [of "mc_destination_texel_bytes copy", where ?'a = nat] by (intro store_bytes_inside) (simp_all add: len)
    finally have "unat (fold (\<lambda>(row, column). resolve_step copy row column) texels ?m (resolved_place copy r c + of_nat byte)) =
        average (map (\<lambda>s. unat (m (sample_place copy r c s + of_nat byte))) [0, 1, 2, 3])"
      using resolved_texel_bytes(2) [OF assms(6), of m c r] by simp
    moreover have "m (sample_place copy r c s + of_nat byte) = m0 (sample_place copy r c s + of_nat byte)" if "s \<in> {0, 1, 2, 3}" for s
      using Cons.prems(3) [OF inall that assms(6)] .
    ultimately show ?thesis using True t by simp
  next
    case False
    then have "(row, column) \<in> set texels" using Cons.prems(4) t by auto
    then show ?thesis using Cons.IH [of ?m] Cons.prems keep t by simp
  qed
qed simp

text \<open>C38. After a resolve (\<open>ps5vk_resolve_execute\<close>) every byte of every destination texel is the average of the bytes of the four samples of the source texel, rounded to
  the nearest with ties upwards, and every byte outside the destination texels is what it was. The texels may not overlap each other or the samples.\<close>

theorem resolve_averages:
  fixes copy :: memory_copy
  defines "texels \<equiv> List.product [0..<unat (mc_height copy)] [0..<unat (mc_width copy)]"
  assumes "resolve_apart copy texels" "mc_destination_texel_bytes copy \<le> 4"
  shows "\<exists>m' spans. ps5vk_resolve_execute copy m = Some (m', spans) \<and>
    (row < unat (mc_height copy) \<longrightarrow> column < unat (mc_width copy) \<longrightarrow> byte < unat (mc_destination_texel_bytes copy) \<longrightarrow>
      unat (m' (resolved_place copy row column + of_nat byte)) =
        average (map (\<lambda>s. unat (m (sample_place copy row column s + of_nat byte))) [0, 1, 2, 3])) \<and>
    ((\<forall>(row, column) \<in> set texels. a \<notin> span (resolved_place copy row column) (unat (mc_destination_texel_bytes copy))) \<longrightarrow> m' a = m a)"
proof -
  have e: "fold (\<lambda>row. fold (resolve_step copy row) [0..<unat (mc_width copy)]) [0..<unat (mc_height copy)] m =
      fold (\<lambda>(row, column). resolve_step copy row column) texels m"
    unfolding texels_def by (rule fold_product)
  have d: "distinct texels" by (simp add: texels_def distinct_product)
  have i: "(row, column) \<in> set texels" if "row < unat (mc_height copy)" "column < unat (mc_width copy)" using that by (simp add: texels_def)
  have "\<not> 4 < mc_destination_texel_bytes copy" using assms(3) by simp
  then show ?thesis unfolding ps5vk_resolve_execute_def e
    using resolve_texels [where m = m and m0 = m, OF d assms(2) subset_refl refl i] resolve_frame [where texels = texels and a = a and m = m and copy = copy]
    by auto
qed

text \<open>One texel of a four-sample tile at address 0 into rows at 0x100000.\<close>

definition sample_resolve :: memory_copy where
  "sample_resolve = \<lparr>mc_source = 0, mc_source_pitch = 0,
     mc_source_side = zero_side\<lparr>cs_level_width := 64, cs_tile_width := 64, cs_tile_height := 64, cs_element_bytes := 4, cs_samples := 4, cs_tiled := True\<rparr>,
     mc_destination_side = sample_buffer 0x100000, mc_source_x = 0, mc_source_y = 0, mc_destination_x = 5, mc_destination_y = 0, mc_width = 2, mc_height = 1,
     mc_source_texel_bytes = 16, mc_destination_texel_bytes = 4, mc_reverse_texel_bytes = 0,
     mc_clear_texel = [], mc_source_span = 0, mc_source_span_bytes = 0\<rparr>"

lemma sample_resolve_apart:
  "resolve_apart sample_resolve (List.product [0..<unat (mc_height sample_resolve)] [0..<unat (mc_width sample_resolve)])"
  by code_simp

lemma sample_resolve_places:
  "map (sample_place sample_resolve 0 1) [0, 1, 2, 3] = [0x4, 0x4004, 0x8004, 0xc004]" "resolved_place sample_resolve 0 1 = 0x100018"
  by code_simp+

theorem resolve_averages_witness:
  "\<exists>m' spans. ps5vk_resolve_execute sample_resolve (\<lambda>a. if a = 0x4006 then 7 else 0) = Some (m', spans) \<and> unat (m' 0x10001a) = 2"
proof -
  have "mc_destination_texel_bytes sample_resolve \<le> 4" by (simp add: sample_resolve_def)
  from resolve_averages [OF sample_resolve_apart this, of "\<lambda>a. if a = 0x4006 then 7 else 0" 0 1 2 0] show ?thesis
    using sample_resolve_places by (simp add: average_def) (auto simp: sample_resolve_def)
qed

section \<open>What a clear leaves\<close>

definition clear_places :: "memory_copy \<Rightarrow> u64 list" where
  "clear_places copy =
     concat (map (\<lambda>(row, column). map (clear_place copy row column) (clear_samples copy)) (List.product [0..<unat (mc_height copy)] [0..<unat (mc_width copy)]))"

lemma fold_concat_pairs: "fold g (concat (map (\<lambda>(row, column). h row column) xs)) st = fold (\<lambda>(row, column). fold g (h row column)) xs st"
  by (induction xs arbitrary: st) auto

lemma clear_loops:
  "fold (\<lambda>row. fold (\<lambda>column. fold (\<lambda>sample. clear_step copy (clear_place copy row column sample)) (clear_samples copy))
     [0..<unat (mc_width copy)]) [0..<unat (mc_height copy)] st = fold (clear_step copy) (clear_places copy) st"
  unfolding clear_places_def fold_product by (simp add: fold_concat_pairs fold_map comp_def)

lemma clear_steps:
  "fold (clear_step copy) ps (m, lh) =
     (fold (\<lambda>at m. store_bytes m at (take (unat (clear_sample_bytes copy)) (mc_clear_texel copy))) ps m, fold (widen (ucast (clear_sample_bytes copy))) ps lh)"
  by (induction ps arbitrary: m lh) (simp_all add: clear_step_def)

lemma stores_outside: "\<forall>p \<in> set ps. a \<notin> span p (length bs) \<Longrightarrow> fold (\<lambda>at m. store_bytes m at bs) ps m a = m a"
  by (induction ps arbitrary: m) (simp_all add: store_bytes_outside)

text \<open>No place meets another one.\<close>

definition places_apart :: "nat \<Rightarrow> u64 list \<Rightarrow> bool" where
  "places_apart n ps \<longleftrightarrow> list_all (\<lambda>p. list_all (\<lambda>q. p = q \<or> span p n \<inter> span q n = {}) ps) ps"

lemma stores_inside:
  assumes "places_apart (length bs) ps" "p \<in> set ps" "j < length bs" "length bs \<le> 2 ^ 64"
  shows "fold (\<lambda>at m. store_bytes m at bs) ps m (p + of_nat j) = bs ! j"
  using assms(1,2)
proof (induction ps rule: rev_induct)
  case (snoc q ps)
  show ?case
  proof (cases "p = q")
    case True
    then show ?thesis using store_bytes_inside [OF assms(3,4)] by simp
  next
    case False
    then have "p + of_nat j \<notin> span q (length bs)" using snoc.prems assms(3) by (fastforce simp: places_apart_def list_all_iff span_def)
    moreover have "places_apart (length bs) ps" "p \<in> set ps" using snoc.prems False by (simp_all add: places_apart_def list_all_iff)
    ultimately show ?thesis using snoc.IH by (simp add: store_bytes_outside)
  qed
qed simp

lemma widen_covers:
  assumes "p \<in> set ps"
  shows "fst (fold (widen n) ps lh) \<le> p \<and> p + n \<le> snd (fold (widen n) ps lh)"
  using assms by (induction ps rule: rev_induct) (auto simp: widen_def min_le_iff_disj le_max_iff_disj)

lemma flush_span_covers:
  assumes "low \<le> p" "p + n \<le> high" "unat p + unat n < 2 ^ 64" "n \<noteq> 0"
  shows "\<exists>bytes. flush_span low high = [(low, bytes)] \<and> unat p + unat n \<le> unat low + unat bytes"
proof -
  have "unat (p + n) = unat p + unat n" using assms(3) by (simp add: unat_word_ariths(1))
  moreover have "0 < unat n" using assms(4) by (simp add: unat_gt_0)
  ultimately have "unat low < unat high" "unat p + unat n \<le> unat high" using assms(1,2) by (simp_all add: word_le_nat_alt)
  then show ?thesis by (auto simp: flush_span_def word_less_nat_alt unat_sub word_le_nat_alt)
qed

text \<open>A clear (\<open>ps5vk_clear_execute\<close>) leaves its colour in every byte of every sample of every texel of its region and flushes a span that holds
  all of them; every byte outside them is what it was. The samples may not overlap.\<close>

lemma clear_fills:
  assumes "places_apart (unat (clear_sample_bytes copy)) (clear_places copy)" "unat (clear_sample_bytes copy) \<le> length (mc_clear_texel copy)"
  shows "\<exists>m' spans. ps5vk_clear_execute copy m = Some (m', spans) \<and>
    (row < unat (mc_height copy) \<longrightarrow> column < unat (mc_width copy) \<longrightarrow> sample \<in> set (clear_samples copy) \<longrightarrow> byte < unat (clear_sample_bytes copy) \<longrightarrow>
      m' (clear_place copy row column sample + of_nat byte) = mc_clear_texel copy ! byte \<and>
      (unat (clear_place copy row column sample) + unat (clear_sample_bytes copy) < 2 ^ 64 \<longrightarrow>
        (\<exists>low bytes. spans = [(low, bytes)] \<and> low \<le> clear_place copy row column sample \<and>
          unat (clear_place copy row column sample) + unat (clear_sample_bytes copy) \<le> unat low + unat bytes))) \<and>
    ((\<forall>p \<in> set (clear_places copy). a \<notin> span p (unat (clear_sample_bytes copy))) \<longrightarrow> m' a = m a)"
proof -
  let ?n = "clear_sample_bytes copy" and ?ps = "clear_places copy" and ?at = "clear_place copy row column sample"
  let ?bs = "take (unat ?n) (mc_clear_texel copy)"
  let ?m' = "fold (\<lambda>at m. store_bytes m at ?bs) ?ps m" and ?lh = "fold (widen (ucast ?n)) ?ps (UINT64_MAX, 0)"
  have len: "length ?bs = unat ?n" using assms(2) by simp
  have small: "length ?bs \<le> 2 ^ 64" using unsigned_less [of ?n, where ?'a = nat] unfolding len by simp
  have run: "ps5vk_clear_execute copy m = Some (?m', flush_span (fst ?lh) (snd ?lh))"
    using assms(2) unfolding ps5vk_clear_execute_def clear_loops clear_steps by (simp add: case_prod_beta)
  have "?m' (?at + of_nat byte) = mc_clear_texel copy ! byte \<and>
      (unat ?at + unat ?n < 2 ^ 64 \<longrightarrow> (\<exists>low bytes. flush_span (fst ?lh) (snd ?lh) = [(low, bytes)] \<and> low \<le> ?at \<and> unat ?at + unat ?n \<le> unat low + unat bytes))"
    if h: "row < unat (mc_height copy)" "column < unat (mc_width copy)" "sample \<in> set (clear_samples copy)" "byte < unat ?n"
  proof
    have p: "?at \<in> set ?ps" using h(1-3) by (force simp: clear_places_def)
    have "?m' (?at + of_nat byte) = ?bs ! byte" using p h(4) assms(1) len by (intro stores_inside [OF _ _ _ small]) simp_all
    then show "?m' (?at + of_nat byte) = mc_clear_texel copy ! byte" using h(4) by simp
    have u: "unat (ucast ?n :: u64) = unat ?n" using unsigned_less [of ?n, where ?'a = nat] by (simp add: unsigned_ucast_eq take_bit_nat_eq_self)
    then have "(ucast ?n :: u64) \<noteq> 0" using h(4) by (metis less_nat_zero_code unat_0)
    then show "unat ?at + unat ?n < 2 ^ 64 \<longrightarrow> (\<exists>low bytes. flush_span (fst ?lh) (snd ?lh) = [(low, bytes)] \<and> low \<le> ?at \<and> unat ?at + unat ?n \<le> unat low + unat bytes)"
      using flush_span_covers [of "fst ?lh" ?at "ucast ?n" "snd ?lh"] widen_covers [OF p, of "ucast ?n" "(UINT64_MAX, 0)"] u by auto
  qed
  moreover have "?m' a = m a" if "\<forall>p \<in> set ?ps. a \<notin> span p (unat ?n)" using that stores_outside [of ?ps a ?bs m] len by simp
  ultimately show ?thesis using run by blast
qed

definition sample_clear :: memory_copy where
  "sample_clear = sample_resolve\<lparr>mc_destination_side := mc_source_side sample_resolve, mc_destination_texel_bytes := 16, mc_clear_texel := replicate 16 9\<rparr>"

end
