(* ===== verification/Vk_Steps.thy ===== *)
theory Vk_Steps
  imports Vk_Pool Vk_Resolve
begin

text \<open>
  Submissions with CPU work in them, \<open>driver/ps5vk_queue.c\<close>: the words of the command buffers are gathered into one stream
  (\<open>ps5vk_queue_run\<close>), and the stream is submitted in steps, with the copies that were recorded at a place in it run
  between the steps (\<open>ps5vk_queue_run_copy_steps\<close>).
\<close>

section \<open>Gathering the stream\<close>

definition PS5VK_GPU_BARRIER_WORDS :: u64 where "PS5VK_GPU_BARRIER_WORDS = 17"

text \<open>
  Of a command buffer: the words it recorded, where in them each of its records falls, whether it samples before a barrier of its own
  and whether it renders.
\<close>

record command_buffer =
  cb_words :: u64
  cb_after_words :: "u32 list"
  cb_samples_early :: bool
  cb_targets :: bool

definition barrier_words :: "bool \<Rightarrow> command_buffer \<Rightarrow> command_buffer list \<Rightarrow> u64" where
  "barrier_words fence buffer later =
     (case later of [] \<Rightarrow> 0 | next_buffer # _ \<Rightarrow> if cb_samples_early next_buffer \<and> cb_targets buffer \<and> fence then PS5VK_GPU_BARRIER_WORDS else 0)"

text \<open>
  The words of the stream and the offset of each record in it. \<open>limit\<close> is the capacity less the end packets; the test subtracts
  unsigned numbers.
\<close>

fun gather_splits :: "u64 \<Rightarrow> bool \<Rightarrow> u64 \<Rightarrow> command_buffer list \<Rightarrow> vk_error + (u64 \<times> u32 list)" where
  "gather_splits limit fence words [] = Inr (words, [])"
| "gather_splits limit fence words (buffer # later) =
     (if limit - words < cb_words buffer then Inl VK_ERROR_OUT_OF_DEVICE_MEMORY
      else case gather_splits limit fence (words + cb_words buffer + barrier_words fence buffer later) later of
             Inl e \<Rightarrow> Inl e
           | Inr (end_words, offsets) \<Rightarrow>
               Inr (end_words, map (\<lambda>after. ucast words + min after (ucast (cb_words buffer))) (cb_after_words buffer) @ offsets))"

section \<open>Running the steps\<close>

text \<open>What a record of a split asks for, in the order in which the queue looks at it.\<close>

record copy_record =
  cr_resolve :: bool
  cr_blit :: bool
  cr_image_write :: bool
  cr_image_copy :: bool
  cr_clear :: bool
  cr_query :: bool
  cr_event :: bool
  cr_bytes :: u64
  cr_fill :: bool
  cr_height :: u32
  cr_source_span :: u64
  cr_source_span_bytes :: u64
  cr_destination_span :: u64
  cr_destination_span_bytes :: u64

datatype record_action = Do_resolve | Do_blit | Do_image_write | Do_image_copy | Do_clear | Do_query | Do_event | Do_nothing | Do_fill | Do_copy

definition record_action :: "copy_record \<Rightarrow> record_action" where
  "record_action r =
     (if cr_resolve r then Do_resolve else if cr_blit r then Do_blit else if cr_image_write r then Do_image_write
      else if cr_image_copy r then Do_image_copy else if cr_clear r then Do_clear else if cr_query r then Do_query
      else if cr_event r then Do_event else if cr_bytes r = 0 then Do_nothing else if cr_fill r then Do_fill else Do_copy)"

definition ps5vk_spans_overlap :: "u64 \<Rightarrow> u64 \<Rightarrow> u64 \<Rightarrow> u64 \<Rightarrow> bool" where
  "ps5vk_spans_overlap a a_bytes b b_bytes \<longleftrightarrow> a < b + b_bytes \<and> b < a + a_bytes"

definition record_spans :: "copy_record \<Rightarrow> (u64 \<times> u64) list" where
  "record_spans r = [(cr_source_span r, cr_source_span_bytes r), (cr_destination_span r, cr_destination_span_bytes r)]"

definition ps5vk_blit_conflicts :: "copy_record \<Rightarrow> copy_record list \<Rightarrow> bool" where
  "ps5vk_blit_conflicts copy wave \<longleftrightarrow>
     cr_source_span_bytes copy = 0 \<or> cr_destination_span_bytes copy = 0 \<or>
     list_ex (\<lambda>other. cr_source_span_bytes other = 0 \<or> cr_destination_span_bytes other = 0 \<or>
       list_ex (\<lambda>(a, a_bytes). list_ex (\<lambda>(b, b_bytes). ps5vk_spans_overlap a a_bytes b b_bytes) (record_spans other)) (record_spans copy)) wave"

text \<open>The run of independent blits at one offset: \<open>wave\<close> so far, and the splits behind it.\<close>

fun grow_wave :: "nat \<Rightarrow> copy_record list \<Rightarrow> (nat \<times> copy_record) list \<Rightarrow> copy_record list" where
  "grow_wave end_at wave [] = wave"
| "grow_wave end_at wave ((offset, r) # later) =
     (if offset = end_at \<and> cr_blit r \<and> \<not> ps5vk_blit_conflicts r wave then grow_wave end_at (wave @ [r]) later else wave)"

text \<open>
  What happens in a submission: words \<open>start\<close> up to \<open>end\<close> go to the GPU, waited for or not; the queue waits until it is idle; the
  record of a split runs. A blit runs with its wave, in parallel or in turn.
\<close>

datatype step_event = Submit nat nat bool | Wait_idle | Run nat

datatype step_error = Step_lost | Step_capture_overflow

text \<open>\<open>works\<close> is whether a call succeeds: a step, a wait, an event waited for.\<close>

definition wave_at :: "(nat \<times> copy_record) list \<Rightarrow> nat \<Rightarrow> nat" where
  "wave_at splits at =
     (if record_action (snd (splits ! at)) = Do_blit then length (grow_wave (fst (splits ! at)) [snd (splits ! at)] (drop (at + 1) splits)) else 1)"

lemma grow_wave_bounds: "length wave \<le> length (grow_wave end_at wave later)" "length (grow_wave end_at wave later) \<le> length wave + length later"
  by (induction end_at wave later rule: grow_wave.induct) auto

lemma wave_at_bounds: "0 < wave_at splits at" "at < length splits \<Longrightarrow> at + wave_at splits at \<le> length splits"
  using grow_wave_bounds [where wave = "[snd (splits ! at)]" and end_at = "fst (splits ! at)" and later = "drop (at + 1) splits"] by (auto simp: wave_at_def)

function run_records :: "(step_event \<Rightarrow> bool) \<Rightarrow> (nat \<times> copy_record) list \<Rightarrow> nat \<Rightarrow> nat \<Rightarrow> step_error option \<times> nat \<times> step_event list" where
  "run_records works splits end_at at =
     (if at < length splits \<and> fst (splits ! at) = end_at
      then if record_action (snd (splits ! at)) = Do_event \<and> \<not> works (Run at) then (Some Step_lost, at, [Run at])
           else case run_records works splits end_at (at + wave_at splits at) of
                  (e, after, trace) \<Rightarrow> (e, after, map Run [at..<at + wave_at splits at] @ trace)
      else (None, at, []))"
  by pat_completeness auto
termination
  by (relation "measure (\<lambda>(works, splits, end_at, at). length splits - at)") (auto simp: wave_at_bounds(1) diff_less_mono2)

declare run_records.simps [simp del]

lemma run_records_mono: "at \<le> fst (snd (run_records works splits end_at at))"
proof (induction works splits end_at at rule: run_records.induct)
  case (1 works splits end_at at)
  then show ?case by (subst run_records.simps) (auto simp: case_prod_beta intro: add_leD1)
qed

lemma run_records_progress:
  assumes "run_records works splits end_at at = (None, after, trace)" "at < length splits" "fst (splits ! at) = end_at"
  shows "at < after"
proof -
  have "fst (snd (run_records works splits end_at (at + wave_at splits at))) = after"
    using assms by (subst (asm) run_records.simps) (auto split: prod.splits if_splits)
  then show ?thesis using run_records_mono [of "at + wave_at splits at" works splits end_at] wave_at_bounds(1) [of splits at] by linarith
qed

lemma run_records_moves:
  assumes "(None, after, trace) = run_records works splits end_at at"
  shows "at \<le> after \<and> (at < length splits \<longrightarrow> fst (splits ! at) = end_at \<longrightarrow> at < after)"
  using run_records_mono [of at works splits end_at] run_records_progress [OF assms [symmetric]] by (simp flip: assms)

text \<open>
  The steps: the words up to the next record, waited for when there is one, then the records there. The queue waits until it is idle for
  records with no words before them. \<open>capture\<close> is the room for the captured words of the steps and \<open>end_words\<close> the words a step ends with.
\<close>

definition step_end :: "nat \<Rightarrow> (nat \<times> copy_record) list \<Rightarrow> nat \<Rightarrow> nat" where
  "step_end words splits at = (if at < length splits then fst (splits ! at) else words)"

definition step_calls :: "nat \<Rightarrow> nat \<Rightarrow> bool \<Rightarrow> step_event list" where
  "step_calls start end_at left = (if end_at \<noteq> start then [Submit start end_at left] else if left then [Wait_idle] else [])"

definition step_captured :: "nat \<Rightarrow> nat \<Rightarrow> nat \<Rightarrow> nat \<Rightarrow> nat" where
  "step_captured start end_at end_words capture_at = (if end_at \<noteq> start then capture_at + (end_at - start + end_words) else capture_at)"

function run_steps :: "(step_event \<Rightarrow> bool) \<Rightarrow> nat \<Rightarrow> nat \<Rightarrow> nat \<Rightarrow> (nat \<times> copy_record) list \<Rightarrow> nat \<Rightarrow> nat \<Rightarrow> nat \<Rightarrow> step_error option \<times> step_event list" where
  "run_steps works capture end_words words splits start at capture_at =
     (if at < length splits \<or> start < words
      then let end_at = step_end words splits at;
               calls = step_calls start end_at (at < length splits);
               captured = step_captured start end_at end_words capture_at
           in if end_at \<noteq> start \<and> capture < captured then (Some Step_capture_overflow, [])
              else if \<not> list_all works calls then (Some Step_lost, calls)
              else case run_records works splits end_at at of
                     (Some e, after, trace) \<Rightarrow> (Some e, calls @ trace)
                   | (None, after, trace) \<Rightarrow>
                       (case run_steps works capture end_words words splits end_at after captured of (e, later) \<Rightarrow> (e, calls @ trace @ later))
      else (None, []))"
  by pat_completeness auto
termination
  by (relation "measure (\<lambda>(works, capture, end_words, words, splits, start, at, capture_at). 2 * (length splits - at) + (if start < words then 1 else 0))")
    (auto dest!: run_records_moves simp: step_end_def)

declare run_steps.simps [simp del]

text \<open>The whole: the room for the capture is made for one step more than there are records. \<open>None\<close> for an allocation that fails.\<close>

definition ps5vk_queue_run_copy_steps ::
  "(step_event \<Rightarrow> bool) \<Rightarrow> bool \<Rightarrow> nat \<Rightarrow> nat \<Rightarrow> nat \<Rightarrow> (nat \<times> copy_record) list \<Rightarrow> (step_error option \<times> step_event list) option" where
  "ps5vk_queue_run_copy_steps works allocated capture end_words words splits =
     (let need = words + (length splits + 1) * end_words
      in if \<not> allocated \<and> (words \<noteq> 0 \<or> capture < need) then None
         else Some (run_steps works (max capture need) end_words words splits 0 0 0))"

section \<open>The order of a submission\<close>

text \<open>
  What a submission promises, as an automaton over its events. A state has the words the GPU was given, the records that ran, and whether
  the GPU is known to be idle. Words go to the GPU in order and never past the next record, and a step is waited for while records are left;
  a record runs in its turn, when exactly the words before its place were given to the GPU and the GPU is idle.
\<close>

fun spec_event :: "nat list \<Rightarrow> nat \<Rightarrow> nat \<times> nat \<times> bool \<Rightarrow> step_event \<Rightarrow> (nat \<times> nat \<times> bool) option" where
  "spec_event offsets words (given, finished, idle) (Submit start end_at wait) =
     (if start = given \<and> start < end_at \<and> end_at \<le> words \<and> (if finished < length offsets then end_at \<le> offsets ! finished \<and> wait else \<not> wait)
      then Some (end_at, finished, wait) else None)"
| "spec_event offsets words (given, finished, idle) Wait_idle = Some (given, finished, True)"
| "spec_event offsets words (given, finished, idle) (Run i) =
     (if i = finished \<and> finished < length offsets \<and> offsets ! finished = given \<and> idle then Some (given, Suc finished, idle) else None)"

fun spec_run :: "nat list \<Rightarrow> nat \<Rightarrow> nat \<times> nat \<times> bool \<Rightarrow> step_event list \<Rightarrow> (nat \<times> nat \<times> bool) option" where
  "spec_run offsets words state [] = Some state"
| "spec_run offsets words state (e # es) = Option.bind (spec_event offsets words state e) (\<lambda>state. spec_run offsets words state es)"

lemma spec_run_append: "spec_run offsets words state (xs @ ys) = Option.bind (spec_run offsets words state xs) (\<lambda>state. spec_run offsets words state ys)"
  by (induction xs arbitrary: state) (auto split: Option.bind_split)

lemma grow_wave_offsets:
  assumes "j < length (grow_wave end_at wave later) - length wave"
  shows "fst (later ! j) = end_at"
  using assms
proof (induction end_at wave later arbitrary: j rule: grow_wave.induct)
  case (2 end_at wave offset r later)
  then show ?case by (cases j) (auto split: if_splits)
qed simp

lemma wave_at_offsets:
  assumes "at < length splits" "j < wave_at splits at"
  shows "fst (splits ! (at + j)) = fst (splits ! at)"
proof (cases j)
  case (Suc k)
  then have "k < length (grow_wave (fst (splits ! at)) [snd (splits ! at)] (drop (at + 1) splits)) - 1"
    using assms(2) by (auto simp: wave_at_def split: if_splits)
  then have "fst (drop (at + 1) splits ! k) = fst (splits ! at)" using grow_wave_offsets [of k "fst (splits ! at)" "[snd (splits ! at)]"] by simp
  then show ?thesis using assms(1) Suc by simp
qed simp

lemma spec_wave:
  assumes "\<And>j. j < n \<Longrightarrow> at + j < length offsets \<and> offsets ! (at + j) = given"
  shows "spec_run offsets words (given, at, True) (map Run [at..<at + n]) = Some (given, at + n, True)"
  using assms
proof (induction n)
  case (Suc n)
  then show ?case by (simp add: spec_run_append)
qed simp

lemma run_records_spec:
  assumes "run_records works splits end_at at = (e, after, trace)" "at \<le> length splits"
  shows "\<exists>finished. spec_run (map fst splits) words (end_at, at, True) trace = Some (end_at, finished, True) \<and>
    (e = None \<longrightarrow> finished = after \<and> after \<le> length splits \<and> (after < length splits \<longrightarrow> fst (splits ! after) \<noteq> end_at)) \<and> e \<noteq> Some Step_capture_overflow"
  using assms
proof (induction works splits end_at at arbitrary: e after trace rule: run_records.induct)
  case (1 works splits end_at at)
  show ?case
  proof (cases "at < length splits \<and> fst (splits ! at) = end_at")
    case here: True
    let ?wave = "wave_at splits at"
    show ?thesis
    proof (cases "record_action (snd (splits ! at)) = Do_event \<and> \<not> works (Run at)")
      case True
      then show ?thesis using here "1.prems"(1) by (subst (asm) run_records.simps) auto
    next
      case False
      obtain e' after' trace' where r: "run_records works splits end_at (at + ?wave) = (e', after', trace')" by (cases "run_records works splits end_at (at + ?wave)")
      then have t: "e = e'" "after = after'" "trace = map Run [at..<at + ?wave] @ trace'"
        using here False "1.prems"(1) by (subst (asm) (2) run_records.simps; auto)+
      have "at + ?wave \<le> length splits" using wave_at_bounds(2) here by blast
      from "1.IH" [OF here False r this] obtain finished where "spec_run (map fst splits) words (end_at, at + ?wave, True) trace' = Some (end_at, finished, True)"
        "e' = None \<longrightarrow> finished = after' \<and> after' \<le> length splits \<and> (after' < length splits \<longrightarrow> fst (splits ! after') \<noteq> end_at)" "e' \<noteq> Some Step_capture_overflow"
        by blast
      moreover have "spec_run (map fst splits) words (end_at, at, True) (map Run [at..<at + ?wave]) = Some (end_at, at + ?wave, True)"
        using here wave_at_offsets [of at splits] \<open>at + ?wave \<le> length splits\<close> by (intro spec_wave) simp
      ultimately show ?thesis using t by (auto simp: spec_run_append)
    qed
  next
    case False
    then show ?thesis using "1.prems" by (subst (asm) run_records.simps) auto
  qed
qed

lemma steps_room:
  assumes "capture_at + (words - start) + (n - at + 1) * end_words \<le> capture" "start \<le> end_at" "end_at \<le> words"
  shows "step_captured start end_at end_words capture_at \<le> capture"
    "at < after \<Longrightarrow> at < n \<Longrightarrow> step_captured start end_at end_words capture_at + (words - end_at) + (n - after + 1) * end_words \<le> capture"
proof -
  have c: "step_captured start end_at end_words capture_at \<le> capture_at + (end_at - start) + end_words" by (simp add: step_captured_def)
  have "end_words \<le> (n - at + 1) * end_words" by simp
  then show "step_captured start end_at end_words capture_at \<le> capture" using assms c by linarith
  show "step_captured start end_at end_words capture_at + (words - end_at) + (n - after + 1) * end_words \<le> capture" if "at < after" "at < n"
  proof -
    have "n - after + 2 \<le> n - at + 1" using that by linarith
    then have "(n - after + 2) * end_words \<le> (n - at + 1) * end_words" by (rule mult_le_mono1)
    then have "end_words + (n - after + 1) * end_words \<le> (n - at + 1) * end_words" by simp
    then show ?thesis using assms c by linarith
  qed
qed

lemma run_steps_spec:
  assumes "run_steps works capture end_words words splits start at capture_at = (e, trace)"
    and "sorted (map fst splits)" "\<forall>offset \<in> set (map fst splits). offset \<le> words" "at \<le> length splits" "start \<le> words"
    and "at < length splits \<longrightarrow> start \<le> fst (splits ! at)"
    and "capture_at + (words - start) + (length splits - at + 1) * end_words \<le> capture"
  shows "e \<noteq> Some Step_capture_overflow \<and> (\<exists>given finished idle'. spec_run (map fst splits) words (start, at, idle) trace = Some (given, finished, idle') \<and>
    (e = None \<longrightarrow> given = words \<and> finished = length splits))"
  using assms
proof (induction works capture end_words words splits start at capture_at arbitrary: e trace idle rule: run_steps.induct)
  case (1 works capture end_words words splits start at capture_at)
  let ?n = "length splits" and ?stop = "step_end words splits at"
  let ?calls = "step_calls start ?stop (at < length splits)" and ?captured = "step_captured start ?stop end_words capture_at"
  show ?case
  proof (cases "at < ?n \<or> start < words")
    case go: True
    have le: "start \<le> ?stop" "?stop \<le> words" using "1.prems"(3-6) by (auto simp: step_end_def)
    note room = steps_room [OF "1.prems"(7) le]
    have given: "spec_run (map fst splits) words (start, at, idle) ?calls = Some (?stop, at, at < ?n)"
      using le go by (auto simp: step_calls_def step_end_def)
    have no_overflow: "\<not> (?stop \<noteq> start \<and> capture < ?captured)" using room(1) by simp
    show ?thesis
    proof (cases "list_all works ?calls")
      case False
      then have "e = Some Step_lost" "trace = ?calls" using go no_overflow "1.prems"(1) by (subst (asm) run_steps.simps; simp add: Let_def)+
      then show ?thesis using given by simp
    next
      case works: True
      obtain e1 after t1 where r: "run_records works splits ?stop at = (e1, after, t1)" by (cases "run_records works splits ?stop at")
      show ?thesis
      proof (cases "at < ?n")
        case True
        obtain finished where f: "spec_run (map fst splits) words (?stop, at, True) t1 = Some (?stop, finished, True)" "e1 \<noteq> Some Step_capture_overflow"
          "e1 = None \<longrightarrow> finished = after \<and> after \<le> ?n \<and> (after < ?n \<longrightarrow> fst (splits ! after) \<noteq> ?stop)"
          using run_records_spec [OF r "1.prems"(4)] by blast
        show ?thesis
        proof (cases e1)
          case (Some x)
          then have "e = Some x" "trace = ?calls @ t1" using go no_overflow works r "1.prems"(1) by (subst (asm) run_steps.simps; simp add: Let_def)+
          then show ?thesis using given f True Some by (auto simp: spec_run_append)
        next
          case None
          obtain e2 t2 where r2: "run_steps works capture end_words words splits ?stop after ?captured = (e2, t2)" by fastforce
          then have t: "e = e2" "trace = ?calls @ t1 @ t2"
            using go no_overflow works r None "1.prems"(1) by (subst (asm) (2) run_steps.simps; simp add: Let_def)+
          have next_le: "at < after" "after \<le> ?n" "after < ?n \<longrightarrow> ?stop \<le> fst (splits ! after)"
          proof -
            show "at < after" using run_records_progress [OF r [unfolded None] True] True by (simp add: step_end_def)
            show "after \<le> ?n" using f(3) None by simp
            show "after < ?n \<longrightarrow> ?stop \<le> fst (splits ! after)"
              using \<open>at < after\<close> True sorted_nth_mono [OF "1.prems"(2), of at after] by (simp add: step_end_def)
          qed
          have "e2 \<noteq> Some Step_capture_overflow \<and> (\<exists>given finished idle'. spec_run (map fst splits) words (?stop, after, True) t2 = Some (given, finished, idle') \<and>
              (e2 = None \<longrightarrow> given = words \<and> finished = ?n))"
            by (rule "1.IH" [OF go refl refl refl no_overflow _ r [symmetric] None refl r2 "1.prems"(2,3) next_le(2) le(2) next_le(3) room(2) [OF next_le(1) True]])
              (use works in simp)
          then show ?thesis using t given f None True by (auto simp: spec_run_append)
        qed
      next
        case False
        then have over: "at = ?n" "?stop = words" using "1.prems"(4) by (simp_all add: step_end_def)
        then have "e1 = None" "after = at" "t1 = []" using r by (subst (asm) run_records.simps; simp)+
        moreover have "run_steps works capture end_words words splits words ?n c = (None, [])" for c by (subst run_steps.simps) simp
        ultimately have "e = None" "trace = ?calls" using go no_overflow works r over "1.prems"(1) by (subst (asm) run_steps.simps; simp add: Let_def)+
        then show ?thesis using given over by auto
      qed
    qed
  next
    case False
    then show ?thesis using "1.prems"(1,4,5) by (subst (asm) run_steps.simps) auto
  qed
qed

lemma copies_in_order:
  assumes "ps5vk_queue_run_copy_steps works allocated capture end_words words splits = Some (e, trace)"
    and "sorted (map fst splits)" "\<forall>offset \<in> set (map fst splits). offset \<le> words"
  shows "e \<noteq> Some Step_capture_overflow \<and> (\<exists>given finished idle. spec_run (map fst splits) words (0, 0, False) trace = Some (given, finished, idle) \<and>
    (e = None \<longrightarrow> given = words \<and> finished = length splits))"
proof -
  have "run_steps works (max capture (words + (length splits + 1) * end_words)) end_words words splits 0 0 0 = (e, trace)"
    using assms(1) by (simp add: ps5vk_queue_run_copy_steps_def Let_def split: if_splits)
  from run_steps_spec [OF this assms(2,3)] show ?thesis by simp
qed

section \<open>Waves\<close>

definition spans_apart :: "copy_record \<Rightarrow> copy_record \<Rightarrow> bool" where
  "spans_apart r other \<longleftrightarrow> list_all (\<lambda>(a, a_bytes). list_all (\<lambda>(b, b_bytes). \<not> ps5vk_spans_overlap a a_bytes b b_bytes) (record_spans other)) (record_spans r)"

lemma no_conflict:
  assumes "\<not> ps5vk_blit_conflicts r wave" "other \<in> set wave"
  shows "spans_apart r other"
  using assms by (fastforce simp: ps5vk_blit_conflicts_def spans_apart_def list_ex_iff list_all_iff)

lemma grow_wave_apart:
  assumes "\<And>i j. i < j \<Longrightarrow> j < length wave \<Longrightarrow> spans_apart (wave ! j) (wave ! i)" "i < j" "j < length (grow_wave end_at wave later)"
  shows "spans_apart (grow_wave end_at wave later ! j) (grow_wave end_at wave later ! i)"
  using assms
proof (induction end_at wave later rule: grow_wave.induct)
  case (2 end_at wave offset r later)
  show ?case
  proof (cases "offset = end_at \<and> cr_blit r \<and> \<not> ps5vk_blit_conflicts r wave")
    case True
    have "spans_apart ((wave @ [r]) ! b) ((wave @ [r]) ! a)" if "a < b" "b < length (wave @ [r])" for a b
      using that "2.prems"(1) [of a b] no_conflict [of r wave "wave ! a"] True by (auto simp: nth_append less_Suc_eq)
    then show ?thesis using "2.IH" [OF True] "2.prems"(2,3) True by simp
  qed (use "2.prems" in auto)
qed simp

lemma grow_wave_prefix: "\<exists>k \<le> length later. grow_wave end_at wave later = wave @ map snd (take k later) \<and> (\<forall>j < k. cr_blit (snd (later ! j)))"
proof (induction end_at wave later rule: grow_wave.induct)
  case (2 end_at wave offset r later)
  show ?case
  proof (cases "offset = end_at \<and> cr_blit r \<and> \<not> ps5vk_blit_conflicts r wave")
    case True
    from "2.IH" [OF True] obtain k where k: "k \<le> length later" "grow_wave end_at (wave @ [r]) later = (wave @ [r]) @ map snd (take k later)"
      "\<forall>j < k. cr_blit (snd (later ! j))" by blast
    have "cr_blit (snd (((offset, r) # later) ! j))" if "j < Suc k" for j using that k(3) True by (cases j) auto
    then show ?thesis using k(1,2) True by (intro exI [of _ "Suc k"]) simp
  next
    case False
    then have "grow_wave end_at wave ((offset, r) # later) = wave" by auto
    then show ?thesis by (intro exI [of _ 0]) simp
  qed
qed simp

lemma wave_records:
  assumes "at < length splits" "i < wave_at splits at" "cr_blit (snd (splits ! at))" "\<not> cr_resolve (snd (splits ! at))"
  defines "wave \<equiv> grow_wave (fst (splits ! at)) [snd (splits ! at)] (drop (at + 1) splits)"
  shows "i < length wave" "wave ! i = snd (splits ! (at + i))" "cr_blit (snd (splits ! (at + i)))"
proof -
  show l: "i < length wave" using assms by (simp add: wave_at_def record_action_def)
  obtain k where k: "k \<le> length splits - (at + 1)" "wave = [snd (splits ! at)] @ map snd (take k (drop (at + 1) splits))"
    "\<forall>j < k. cr_blit (snd (drop (at + 1) splits ! j))"
    using grow_wave_prefix [of "drop (at + 1) splits" "fst (splits ! at)" "[snd (splits ! at)]"] unfolding wave_def by auto
  show "wave ! i = snd (splits ! (at + i))" using l k(1) assms(1) unfolding k(2) by (cases i) auto
  show "cr_blit (snd (splits ! (at + i)))" using l k assms(1,3) by (cases i) auto
qed

lemma spans_apart_bytes:
  assumes "spans_apart r other" "(a, n) \<in> set (record_spans r)" "(b, k) \<in> set (record_spans other)" "unat a + unat n < 2 ^ 64" "unat b + unat k < 2 ^ 64"
  shows "unat a + unat n \<le> unat b \<or> unat b + unat k \<le> unat a"
proof -
  have "\<not> ps5vk_spans_overlap a n b k" using assms(1-3) by (auto simp: spans_apart_def list_all_iff)
  then show ?thesis using assms(4,5) by (simp add: ps5vk_spans_overlap_def word_less_nat_alt unat_word_ariths(1)) linarith
qed

text \<open>C36. The blits of a wave, which run at the same time, touch no common byte: they are blits of one offset, and the images of two of them, source or destination, do
  not overlap. No image reaches the end of the address space.\<close>

theorem wave_blits_apart:
  assumes "at < length splits" "record_action (snd (splits ! at)) = Do_blit" "i < j" "j < wave_at splits at"
    and "(a, n) \<in> set (record_spans (snd (splits ! (at + i))))" "(b, k) \<in> set (record_spans (snd (splits ! (at + j))))"
    and "unat a + unat n < 2 ^ 64" "unat b + unat k < 2 ^ 64"
  shows "fst (splits ! (at + j)) = fst (splits ! at) \<and> cr_blit (snd (splits ! (at + j))) \<and> (unat a + unat n \<le> unat b \<or> unat b + unat k \<le> unat a)"
proof -
  have blit: "cr_blit (snd (splits ! at))" "\<not> cr_resolve (snd (splits ! at))" using assms(2) by (auto simp: record_action_def split: if_splits)
  have i: "i < wave_at splits at" using assms(3,4) by simp
  note rj = wave_records [OF assms(1,4) blit] and ri = wave_records [OF assms(1) i blit]
  have "spans_apart (snd (splits ! (at + j))) (snd (splits ! (at + i)))"
    using grow_wave_apart [OF _ assms(3) rj(1)] unfolding rj(2) ri(2) by simp
  then show ?thesis using spans_apart_bytes [OF _ assms(6,5,8,7)] wave_at_offsets [OF assms(1,4)] rj(3) by auto
qed

section \<open>The offsets of a stream\<close>

lemma ucast_small: "unat w < 2 ^ 32 \<Longrightarrow> unat (ucast w :: u32) = unat (w :: u64)"
  by (simp add: unsigned_ucast_eq take_bit_nat_eq_self)

text \<open>The words a list of command buffers can take.\<close>

definition stream_words :: "command_buffer list \<Rightarrow> nat" where
  "stream_words buffers = sum_list (map (\<lambda>buffer. unat (cb_words buffer) + 17) buffers)"

lemma gather_splits_ok:
  assumes "gather_splits limit fence words buffers = Inr (end_at, offsets)" "unat words + stream_words buffers \<le> unat limit" "unat limit < 2 ^ 32"
    and "list_all (\<lambda>buffer. sorted (cb_after_words buffer)) buffers"
  shows "sorted offsets \<and> (\<forall>offset \<in> set offsets. unat words \<le> unat offset \<and> unat offset \<le> unat end_at) \<and> unat words \<le> unat end_at \<and> unat end_at \<le> unat limit"
  using assms
proof (induction limit fence words buffers arbitrary: end_at offsets rule: gather_splits.induct)
  case (2 limit fence words buffer later)
  let ?words = "words + cb_words buffer + barrier_words fence buffer later"
  have b: "unat (barrier_words fence buffer later) \<le> 17" by (simp add: barrier_words_def PS5VK_GPU_BARRIER_WORDS_def split: list.split)
  have l: "unat words + (unat (cb_words buffer) + 17 + stream_words later) \<le> unat limit" using "2.prems"(2) by (simp add: stream_words_def)
  have w: "unat ?words = unat words + unat (cb_words buffer) + unat (barrier_words fence buffer later)"
    using l b "2.prems"(3) by (simp add: unat_word_ariths(1))
  define place :: "u32 \<Rightarrow> u32" where "place after = ucast words + min after (ucast (cb_words buffer))" for after
  obtain os where g: "gather_splits limit fence ?words later = Inr (end_at, os)" "\<not> limit - words < cb_words buffer"
    "offsets = map place (cb_after_words buffer) @ os"
    using "2.prems"(1) by (auto simp: place_def split: if_splits sum.splits)
  have ih: "sorted os" "\<forall>offset \<in> set os. unat ?words \<le> unat offset \<and> unat offset \<le> unat end_at" "unat ?words \<le> unat end_at" "unat end_at \<le> unat limit"
    using "2.IH" [OF g(2,1)] l b w "2.prems"(3,4) by simp_all
  have small: "unat (ucast words :: u32) = unat words" "unat (ucast (cb_words buffer) :: u32) = unat (cb_words buffer)"
    using l "2.prems"(3) by (simp_all add: ucast_small)
  have o: "unat (place after) = unat words + min (unat after) (unat (cb_words buffer))" for after
  proof -
    have m: "unat (min after (ucast (cb_words buffer))) = min (unat after) (unat (cb_words buffer))" by (simp add: min_def word_le_nat_alt small)
    then have "unat words + unat (min after (ucast (cb_words buffer))) < 2 ^ 32" using l "2.prems"(3) by simp
    then show ?thesis using m small by (simp add: place_def unat_word_ariths(1))
  qed
  then have "place x \<le> place y" if "x \<le> y" for x y using that by (auto simp: word_le_nat_alt)
  moreover have "sorted (cb_after_words buffer)" using "2.prems"(4) by simp
  ultimately have "sorted (map place (cb_after_words buffer))" by (auto simp: sorted_wrt_map intro: sorted_wrt_mono_rel [rotated])
  have p: "unat words \<le> unat (place after) \<and> unat (place after) \<le> unat ?words" for after using w o by simp
  have "place after \<le> offset" if "offset \<in> set os" for after offset
    unfolding word_le_nat_alt using p [of after] ih(2) that by (meson order_trans)
  then have "sorted offsets" using \<open>sorted (map place _)\<close> ih(1) unfolding g(3) by (auto simp: sorted_append)
  moreover have "unat words \<le> unat offset \<and> unat offset \<le> unat end_at" if "offset \<in> set offsets" for offset
    using that p ih(2,3) w unfolding g(3) by (auto intro: order_trans)
  ultimately show ?case using ih(3,4) w by simp
qed simp

text \<open>C32. A submission of command buffers with CPU work in them keeps their order, whatever calls fail: words go to the GPU in order, every record runs in its turn
  when exactly the words recorded before it were given to the GPU and the GPU is idle, only a step behind the last record is not waited for, and the captured
  words fit their buffer. When no call fails, all words were given and all records ran. The stream, with a barrier behind every buffer, fits
  its room, and a buffer's records are in the order of its words.\<close>

theorem submission_in_order:
  assumes "gather_splits limit fence words buffers = Inr (end_at, offsets)" "unat words + stream_words buffers \<le> unat limit" "unat limit < 2 ^ 32"
    and "list_all (\<lambda>buffer. sorted (cb_after_words buffer)) buffers" "length records = length offsets"
    and "ps5vk_queue_run_copy_steps works allocated capture end_words (unat end_at) (zip (map unat offsets) records) = Some (e, trace)"
  shows "unat end_at \<le> unat limit \<and> e \<noteq> Some Step_capture_overflow \<and>
    (\<exists>given finished idle. spec_run (map unat offsets) (unat end_at) (0, 0, False) trace = Some (given, finished, idle) \<and>
      (e = None \<longrightarrow> given = unat end_at \<and> finished = length records))"
proof -
  note g = gather_splits_ok [OF assms(1-4)]
  have "sorted (map unat offsets)" 
    using conjunct1 [OF g] unfolding sorted_wrt_map by (rule sorted_wrt_mono_rel [rotated]) (simp add: word_le_nat_alt)
  moreover have "map fst (zip (map unat offsets) records) = map unat offsets" using assms(5) by simp
  ultimately show ?thesis using copies_in_order [OF assms(6)] g assms(5) by (simp add: image_iff)
qed

text \<open>An upload recorded after 3 words, a readback recorded after all 5, and 2 words of another buffer.\<close>

definition sample_record :: copy_record where
  "sample_record = \<lparr>cr_resolve = False, cr_blit = False, cr_image_write = True, cr_image_copy = False, cr_clear = False, cr_query = False, cr_event = False,
     cr_bytes = 0, cr_fill = False, cr_height = 8, cr_source_span = 0, cr_source_span_bytes = 16, cr_destination_span = 16, cr_destination_span_bytes = 16\<rparr>"

definition sample_buffers :: "command_buffer list" where
  "sample_buffers = [\<lparr>cb_words = 5, cb_after_words = [3, 5], cb_samples_early = False, cb_targets = True\<rparr>,
     \<lparr>cb_words = 2, cb_after_words = [], cb_samples_early = False, cb_targets = False\<rparr>]"

lemma sample_steps:
  "gather_splits 100 True 0 sample_buffers = Inr (7, [3, 5])"
  "ps5vk_queue_run_copy_steps (\<lambda>_. True) True 0 16 (unat (7 :: u64)) (zip (map unat [3, 5 :: u32]) [sample_record, sample_record]) =
     Some (None, [Submit 0 3 True, Run 0, Submit 3 5 True, Run 1, Submit 5 7 False])"
  by code_simp+

theorem submission_in_order_witness:
  "\<exists>trace given finished idle. ps5vk_queue_run_copy_steps (\<lambda>_. True) True 0 16 7 (zip [3, 5] [sample_record, sample_record]) = Some (None, trace) \<and>
     spec_run [3, 5] 7 (0, 0, False) trace = Some (given, finished, idle) \<and> given = 7 \<and> finished = 2"
proof -
  have h: "unat (0 :: u64) + stream_words sample_buffers \<le> unat (100 :: u64)" "unat (100 :: u64) < 2 ^ 32"
    "list_all (\<lambda>buffer. sorted (cb_after_words buffer)) sample_buffers" "length [sample_record, sample_record] = length [3, 5 :: u32]"
    by (simp_all add: stream_words_def sample_buffers_def)
  from submission_in_order [OF sample_steps(1) h sample_steps(2)] sample_steps(2) show ?thesis by auto
qed

theorem wave_blits_apart_witness:
  "\<exists>splits. wave_at splits 0 = 2 \<and> (0 :: nat) + 16 \<le> unat (cr_source_span (snd (splits ! 1)))"
proof -
  let ?first = "sample_record\<lparr>cr_blit := True\<rparr>" and ?second = "sample_record\<lparr>cr_blit := True, cr_source_span := 32, cr_destination_span := 48\<rparr>"
  let ?splits = "[(4, ?first), (4, ?second)]"
  have w: "wave_at ?splits 0 = 2" "record_action ?first = Do_blit" by code_simp+
  have "(0 :: u64, 16 :: u64) \<in> set (record_spans ?first)" "(32 :: u64, 16 :: u64) \<in> set (record_spans ?second)"
    by (simp_all add: record_spans_def sample_record_def)
  from wave_blits_apart [of 0 ?splits 0 1 0 16 32 16] this w show ?thesis by (intro exI [of _ ?splits]) (simp add: sample_record_def)
qed

text \<open>
  The barrier behind a command buffer is not tested for room. When a buffer leaves less than its words, the room left is
  less than nothing, which is a large unsigned number, and the next buffer is taken whatever its size.
\<close>

lemma barrier_passes_limit:
  "\<exists>end_at offsets. gather_splits 1000 True 0
     [\<lparr>cb_words = 990, cb_after_words = [], cb_samples_early = False, cb_targets = True\<rparr>,
      \<lparr>cb_words = 5000, cb_after_words = [], cb_samples_early = True, cb_targets = False\<rparr>] = Inr (end_at, offsets) \<and> 1000 < end_at"
  by (simp add: barrier_words_def PS5VK_GPU_BARRIER_WORDS_def)

section \<open>The room of a stream\<close>

definition PS5VK_STREAM_END_WORDS :: nat where "PS5VK_STREAM_END_WORDS = 16"
definition PS5VK_TIMESTAMP_EVENT_WORDS :: nat where "PS5VK_TIMESTAMP_EVENT_WORDS = 8"
definition PS5VK_MARKER_WAIT_WORDS :: nat where "PS5VK_MARKER_WAIT_WORDS = 9"
definition PS5VK_SWAPCHAIN_IMAGES :: nat where "PS5VK_SWAPCHAIN_IMAGES = 5"

definition ps5vk_queue_end_words :: "bool \<Rightarrow> nat" where
  "ps5vk_queue_end_words stamped = PS5VK_STREAM_END_WORDS + (if stamped then PS5VK_TIMESTAMP_EVENT_WORDS else 0)"

text \<open>
  The room asked for before a stream is placed, and the words in front of the command buffers: a stamp, a wait for the step before, a wait packet for
  each image of the swapchain that is rendered into, and another stamp. The size of a wait packet is the platform's.
\<close>

definition stream_footprint :: "bool \<Rightarrow> nat \<Rightarrow> command_buffer list \<Rightarrow> nat" where
  "stream_footprint stamped wait_words buffers =
     ps5vk_queue_end_words stamped + 2 * PS5VK_TIMESTAMP_EVENT_WORDS + PS5VK_SWAPCHAIN_IMAGES * wait_words + PS5VK_MARKER_WAIT_WORDS +
     sum_list (map (\<lambda>buffer. unat (cb_words buffer) + unat PS5VK_GPU_BARRIER_WORDS) buffers)"

definition prologue_words :: "bool \<Rightarrow> bool \<Rightarrow> nat \<Rightarrow> nat list \<Rightarrow> nat" where
  "prologue_words stamped pending wait_words images =
     (if stamped then PS5VK_TIMESTAMP_EVENT_WORDS else 0) + (if pending then PS5VK_MARKER_WAIT_WORDS else 0) +
     length (remdups images) * wait_words + (if stamped then PS5VK_TIMESTAMP_EVENT_WORDS else 0)"

lemma gather_splits_upper:
  assumes "gather_splits limit fence words buffers = Inr (end_at, offsets)" "unat words + stream_words buffers < 2 ^ 64"
  shows "unat end_at \<le> unat words + stream_words buffers"
  using assms
proof (induction limit fence words buffers arbitrary: end_at offsets rule: gather_splits.induct)
  case (2 limit fence words buffer later)
  let ?words = "words + cb_words buffer + barrier_words fence buffer later"
  have b: "unat (barrier_words fence buffer later) \<le> 17" by (simp add: barrier_words_def PS5VK_GPU_BARRIER_WORDS_def split: list.split)
  have l: "unat words + (unat (cb_words buffer) + 17 + stream_words later) < 2 ^ 64" using "2.prems"(2) by (simp add: stream_words_def)
  have w: "unat ?words = unat words + unat (cb_words buffer) + unat (barrier_words fence buffer later)"
    using l b by (simp add: unat_word_ariths(1))
  obtain os where g: "gather_splits limit fence ?words later = Inr (end_at, os)" "\<not> limit - words < cb_words buffer"
    using "2.prems"(1) by (auto split: if_splits sum.splits)
  have "unat end_at \<le> unat ?words + stream_words later" using l b w by (intro "2.IH" [OF g(2,1)]) linarith
  then show ?case using w b by (simp add: stream_words_def)
qed (simp add: stream_words_def)

text \<open>The room asked for holds the stream and its end packets, whatever of it is used.\<close>

lemma footprint_holds:
  assumes "gather_splits limit fence (of_nat (prologue_words stamped pending wait_words images)) buffers = Inr (end_at, offsets)"
    and "set images \<subseteq> {..<PS5VK_SWAPCHAIN_IMAGES}" "stream_footprint stamped wait_words buffers < 2 ^ 64"
  shows "unat end_at + ps5vk_queue_end_words stamped \<le> stream_footprint stamped wait_words buffers"
proof -
  let ?p = "prologue_words stamped pending wait_words images"
  have "card (set images) \<le> card {..<PS5VK_SWAPCHAIN_IMAGES}" by (rule card_mono [OF _ assms(2)]) simp
  then have "length (remdups images) \<le> PS5VK_SWAPCHAIN_IMAGES" by (simp add: length_remdups_card_conv)
  then have "length (remdups images) * wait_words \<le> PS5VK_SWAPCHAIN_IMAGES * wait_words" by (rule mult_le_mono1)
  moreover have "(if stamped then t else 0) + (if pending then m else 0) + x + (if stamped then t else 0) \<le> 2 * t + y + m" if "x \<le> y" for t m x y :: nat
    using that by (cases stamped; cases pending) simp_all
  ultimately have "?p \<le> 2 * PS5VK_TIMESTAMP_EVENT_WORDS + PS5VK_SWAPCHAIN_IMAGES * wait_words + PS5VK_MARKER_WAIT_WORDS"
    unfolding prologue_words_def by blast
  moreover have "sum_list (map (\<lambda>buffer. unat (cb_words buffer) + unat PS5VK_GPU_BARRIER_WORDS) buffers) = stream_words buffers"
    by (simp add: stream_words_def PS5VK_GPU_BARRIER_WORDS_def)
  ultimately have f: "?p + stream_words buffers + ps5vk_queue_end_words stamped \<le> stream_footprint stamped wait_words buffers"
    by (simp add: stream_footprint_def)
  then have "unat (of_nat ?p :: u64) = ?p" using assms(3) by (intro unat_of_nat_small) simp
  then show ?thesis using gather_splits_upper [OF assms(1)] f assms(3) by simp
qed

end
