(* ===== verification/Vk_Queue.thy ===== *)
theory Vk_Queue
  imports Vk_Copy
begin

text \<open>
  What the GPU may still be running, \<open>driver/ps5vk_queue.c\<close>: the marker that counts finished steps, the ranges to evict once a step
  is finished, waiting for a step, and where the next stream starts in the submission buffer.
\<close>

section \<open>The marker\<close>

definition ps5vk_marker_reached :: "u32 \<Rightarrow> u32 \<Rightarrow> bool" where
  "ps5vk_marker_reached current v \<longleftrightarrow> 0 \<le> sint (current - v)"

text \<open>The value of the next step; no step has 0.\<close>

definition next_marker :: "u32 \<Rightarrow> u32" where
  "next_marker v = (if v = 0xffffffff then 1 else v + 1)"

text \<open>A range of memory that a step writes, with the value of the step and, which is no part of the program, its number.\<close>

record retire_range =
  rr_value :: u32
  rr_address :: u64
  rr_bytes :: u64
  rr_step :: nat

record vk_queue =
  qu_marker_value :: u32
  qu_submitted_value :: u32
  qu_completed_value :: u32
  qu_ring_head :: nat
  qu_retire :: "retire_range list"

text \<open>The queue and the ranges flushed.\<close>

definition ps5vk_queue_retire_locked :: "vk_queue \<Rightarrow> vk_queue \<times> retire_range list" where
  "ps5vk_queue_retire_locked q =
     (q\<lparr>qu_retire := filter (\<lambda>r. \<not> ps5vk_marker_reached (qu_completed_value q) (rr_value r)) (qu_retire q)\<rparr>,
      filter (\<lambda>r. ps5vk_marker_reached (qu_completed_value q) (rr_value r)) (qu_retire q))"

text \<open>\<open>seen\<close> is what the marker holds.\<close>

definition ps5vk_queue_poll :: "u32 \<Rightarrow> vk_queue \<Rightarrow> vk_queue \<times> retire_range list" where
  "ps5vk_queue_poll seen q =
     ps5vk_queue_retire_locked
       (if ps5vk_marker_reached seen (qu_completed_value q) \<and> ps5vk_marker_reached (qu_submitted_value q) seen
        then q\<lparr>qu_completed_value := seen\<rparr> else q)"

definition ps5vk_queue_defer_targets :: "u32 \<Rightarrow> nat \<Rightarrow> (u64 \<times> u64) list \<Rightarrow> vk_queue \<Rightarrow> vk_queue" where
  "ps5vk_queue_defer_targets v step targets q =
     q\<lparr>qu_retire := qu_retire q @ map (\<lambda>(address, bytes). \<lparr>rr_value = v, rr_address = address, rr_bytes = bytes, rr_step = step\<rparr>) targets\<rparr>"

section \<open>Waiting\<close>

datatype wait_result = Wait_success | Wait_timeout | Wait_lost

definition PS5VK_MARKER_POLLS :: nat where
  "PS5VK_MARKER_POLLS = 2000"

text \<open>
  What a wait meets: the values its reads of the marker give, in the order of the reads, and whether the deadline has passed when it looks
  at the clock. The spin reads once and goes on reading until its time is over.
\<close>

record wait_world =
  ww_first :: u32
  ww_spin :: u32
  ww_spins :: "u32 list"
  ww_polls :: "nat \<Rightarrow> u32"
  ww_late :: bool
  ww_lates :: "nat \<Rightarrow> bool"

fun wait_spin :: "u32 \<Rightarrow> u32 \<Rightarrow> u32 list \<Rightarrow> vk_queue \<Rightarrow> bool \<times> vk_queue" where
  "wait_spin v seen later q =
     (let q' = fst (ps5vk_queue_poll seen q)
      in if ps5vk_marker_reached (qu_completed_value q') v then (True, q')
         else case later of [] \<Rightarrow> (False, q') | seen' # later' \<Rightarrow> wait_spin v seen' later' q')"

declare wait_spin.simps [simp del]

text \<open>\<open>left\<close> counts the polls left after this one.\<close>

fun wait_polls :: "u32 \<Rightarrow> wait_world \<Rightarrow> nat \<Rightarrow> vk_queue \<Rightarrow> wait_result \<times> vk_queue" where
  "wait_polls v w left q =
     (let poll = PS5VK_MARKER_POLLS - left; q' = fst (ps5vk_queue_poll (ww_polls w poll) q)
      in if ps5vk_marker_reached (qu_completed_value q') v then (Wait_success, q')
         else if ww_lates w poll then (Wait_timeout, q')
         else case left of 0 \<Rightarrow> (Wait_lost, q') | Suc left' \<Rightarrow> wait_polls v w left' q')"

declare wait_polls.simps [simp del]

definition ps5vk_queue_wait_value :: "u32 \<Rightarrow> wait_world \<Rightarrow> vk_queue \<Rightarrow> wait_result \<times> vk_queue" where
  "ps5vk_queue_wait_value v w q =
     (let q' = fst (ps5vk_queue_poll (ww_first w) q)
      in if ps5vk_marker_reached (qu_completed_value q') v then (Wait_success, q')
         else if ww_late w then (Wait_timeout, q')
         else case wait_spin v (ww_spin w) (ww_spins w) q' of (found, q') \<Rightarrow>
           if found then (Wait_success, q') else wait_polls v w PS5VK_MARKER_POLLS q')"

text \<open>No clock passes the deadline of the two waits below.\<close>

definition endless :: "wait_world \<Rightarrow> wait_world" where
  "endless w = w\<lparr>ww_late := False, ww_lates := (\<lambda>_. False)\<rparr>"

definition ps5vk_queue_wait_idle :: "wait_world \<Rightarrow> vk_queue \<Rightarrow> wait_result \<times> vk_queue" where
  "ps5vk_queue_wait_idle w q = ps5vk_queue_wait_value (qu_submitted_value q) (endless w) q"

definition overlaps :: "u64 \<Rightarrow> u64 \<Rightarrow> retire_range \<Rightarrow> bool" where
  "overlaps low bytes r \<longleftrightarrow> rr_address r < low + bytes \<and> low < rr_address r + rr_bytes r"

text \<open>The newest value of a range that overlaps the one asked for.\<close>

definition newer_overlap :: "u64 \<Rightarrow> u64 \<Rightarrow> retire_range \<Rightarrow> u32 option \<Rightarrow> u32 option" where
  "newer_overlap low bytes r found =
     (if overlaps low bytes r \<and> (case found of None \<Rightarrow> True | Some v \<Rightarrow> ps5vk_marker_reached (rr_value r) v)
      then Some (rr_value r) else found)"

definition range_value :: "u64 \<Rightarrow> u64 \<Rightarrow> vk_queue \<Rightarrow> u32 option" where
  "range_value low bytes q = fold (newer_overlap low bytes) (qu_retire q) None"

definition ps5vk_queue_wait_range :: "u64 \<Rightarrow> u64 \<Rightarrow> wait_world \<Rightarrow> vk_queue \<Rightarrow> wait_result \<times> vk_queue" where
  "ps5vk_queue_wait_range low bytes w q =
     (case range_value low bytes q of None \<Rightarrow> (Wait_success, q) | Some v \<Rightarrow> ps5vk_queue_wait_value v (endless w) q)"

section \<open>The submission buffer\<close>

text \<open>Where a stream starts: the result, the place and the queue. The words are those of a buffer, so that nothing wraps.\<close>

definition ps5vk_queue_stream_base :: "nat \<Rightarrow> nat \<Rightarrow> u32 \<Rightarrow> wait_world \<Rightarrow> vk_queue \<Rightarrow> wait_result \<times> nat \<times> vk_queue" where
  "ps5vk_queue_stream_base capacity footprint seen w q =
     (let submitted = qu_submitted_value q; q' = fst (ps5vk_queue_poll seen q)
      in if ps5vk_marker_reached (qu_completed_value q') submitted then (Wait_success, 0, q')
         else let base = (qu_ring_head q' + 15) div 16 * 16
              in if base \<le> capacity \<and> footprint \<le> capacity - base then (Wait_success, base, q')
                 else case ps5vk_queue_wait_idle w q' of (result, q') \<Rightarrow> (result, 0, q'))"

text \<open>The stream of a submission has been built, \<open>words\<close> words long, and the next one starts behind its end packets.\<close>

definition place_stream :: "nat \<Rightarrow> nat \<Rightarrow> nat \<Rightarrow> vk_queue \<Rightarrow> vk_queue" where
  "place_stream base words end_words q = q\<lparr>qu_ring_head := base + words + end_words\<rparr>"

text \<open>
  One step, as far as the queue's own state goes: it takes the next value, is submitted, and then either leaves its evictions for later or
  is waited for. \<open>step\<close> is its number. The packets and the calls of the platform are left out, and so is their failure, which loses the device.
\<close>

fun step_polls :: "u32 \<Rightarrow> (nat \<Rightarrow> u32) \<Rightarrow> nat \<Rightarrow> vk_queue \<Rightarrow> wait_result \<times> vk_queue" where
  "step_polls v polls 0 q = (Wait_lost, q)"
| "step_polls v polls (Suc left) q =
     (let q' = fst (ps5vk_queue_poll (polls (PS5VK_MARKER_POLLS - Suc left)) q)
      in if ps5vk_marker_reached (qu_completed_value q') v then (Wait_success, q') else step_polls v polls left q')"

definition ps5vk_queue_run_step :: "bool \<Rightarrow> nat \<Rightarrow> (u64 \<times> u64) list \<Rightarrow> wait_world \<Rightarrow> vk_queue \<Rightarrow> wait_result \<times> vk_queue" where
  "ps5vk_queue_run_step wait step targets w q =
     (let v = next_marker (qu_marker_value q); q = q\<lparr>qu_marker_value := v, qu_submitted_value := v\<rparr>
      in if \<not> wait then (Wait_success, ps5vk_queue_defer_targets v step targets q)
         else step_polls v (ww_polls w) PS5VK_MARKER_POLLS (snd (wait_spin v (ww_spin w) (ww_spins w) q)))"

section \<open>Steps by their number\<close>

text \<open>The value of the \<open>n\<close>-th step; 0 is the value before the first.\<close>

definition marker_of :: "nat \<Rightarrow> u32" where
  "marker_of n = (if n = 0 then 0 else of_nat ((n - 1) mod (2 ^ 32 - 1) + 1))"

lemma unat_of_small: "x < 2 ^ 32 \<Longrightarrow> unat (of_nat x :: u32) = x"
  by (simp add: unsigned_of_nat take_bit_nat_eq_self)

lemma next_marker_of: "next_marker (marker_of n) = marker_of (Suc n)"
proof (cases n)
  case (Suc k)
  let ?r = "k mod (2 ^ 32 - 1 :: nat)"
  have r: "?r < 2 ^ 32 - 1" by simp
  have u: "unat (of_nat (?r + 1) :: u32) = ?r + 1" using r by (intro unat_of_small) simp
  have m: "Suc k mod (2 ^ 32 - 1) = (if Suc ?r = 2 ^ 32 - 1 then 0 else Suc ?r)" by (rule mod_Suc)
  show ?thesis
  proof (cases "Suc ?r = 2 ^ 32 - 1")
    case True
    then have "(of_nat (?r + 1) :: u32) = 0xffffffff" by simp
    then show ?thesis using Suc m True by (simp add: marker_of_def next_marker_def)
  next
    case False
    then have "unat (of_nat (?r + 1) :: u32) \<noteq> 0xffffffff" using u by simp
    then have "(of_nat (?r + 1) :: u32) \<noteq> 0xffffffff" by auto
    then show ?thesis using Suc m False by (simp add: marker_of_def next_marker_def)
  qed
qed (simp add: marker_of_def next_marker_def)

lemma marker_gap:
  assumes "m \<le> n" "n - m < 2 ^ 31 - 1"
  shows "\<exists>d. marker_of n - marker_of m = of_nat d \<and> n - m \<le> d \<and> d \<le> n - m + 1 \<and> (n = m \<longrightarrow> d = 0)"
proof (cases m)
  case 0
  then have "(n - 1) mod (2 ^ 32 - 1) = n - 1" using assms(2) by (intro mod_less) simp
  then show ?thesis using 0 by (intro exI [of _ n]) (simp add: marker_of_def)
next
  case (Suc k)
  let ?K = "2 ^ 32 - 1 :: nat"
  define d where "d = n - m"
  have n: "n - 1 = k + d" "n \<noteq> 0" using assms(1) Suc by (auto simp: d_def)
  have dK: "d < ?K" using assms(2) by (simp add: d_def)
  have "(k + d) mod ?K = (k mod ?K + d) mod ?K" by (simp add: mod_add_left_eq)
  also have "\<dots> = (if k mod ?K + d < ?K then k mod ?K + d else k mod ?K + d - ?K)"
    using dK mod_less_divisor [of ?K k] by (simp add: le_mod_geq)
  finally have e: "(k + d) mod ?K = (if k mod ?K + d < ?K then k mod ?K + d else k mod ?K + d - ?K)" .
  have m: "marker_of m = of_nat (k mod ?K + 1)" "marker_of n = of_nat ((k + d) mod ?K + 1)" using Suc n by (simp_all add: marker_of_def)
  have nm: "n - m = d" "n = m \<longrightarrow> d = 0" by (simp_all add: d_def)
  show ?thesis
  proof (cases "k mod ?K + d < ?K")
    case True
    then have "marker_of n = marker_of m + of_nat d" unfolding m e by (simp add: ac_simps)
    then show ?thesis unfolding nm(1) using nm(2) by (intro exI [of _ d]) simp
  next
    case False
    then have "d \<noteq> 0" using mod_less_divisor [of ?K k] by (intro notI) simp
    have "(of_nat (k mod ?K + d - ?K) :: u32) = of_nat (k mod ?K + d) - of_nat ?K" using False by (intro of_nat_diff) simp
    moreover have "(of_nat ?K :: u32) = - 1" by simp
    ultimately have "marker_of n = marker_of m + of_nat (d + 1)" unfolding m e using False by simp
    then show ?thesis unfolding nm(1) using nm(2) \<open>d \<noteq> 0\<close> by (intro exI [of _ "d + 1"]) simp
  qed
qed

lemma sint_of_gap:
  assumes "d < 2 ^ 31"
  shows "0 \<le> sint (of_nat d :: u32)" "0 < d \<Longrightarrow> sint (- of_nat d :: u32) < 0"
proof -
  have s: "sint (word_of_int k :: u32) = k" if "- (2 ^ 31) \<le> k" "k < 2 ^ 31" for k
    using that by (simp add: sint_sbintrunc' signed_take_bit_int_eq_self)
  have "sint (word_of_int (int d) :: u32) = int d" using assms by (intro s) simp_all
  then show "0 \<le> sint (of_nat d :: u32)" by simp
  have "sint (word_of_int (- int d) :: u32) = - int d" using assms by (intro s) simp_all
  then show "sint (- of_nat d :: u32) < 0" if "0 < d" using that by simp
qed

text \<open>Among steps fewer than \<open>2\<^sup>3\<^sup>1 - 1\<close> apart the comparison of values is the order of steps.\<close>

lemma marker_order:
  assumes "m \<le> n" "n - m < 2 ^ 31 - 1"
  shows "ps5vk_marker_reached (marker_of n) (marker_of m)" "ps5vk_marker_reached (marker_of m) (marker_of n) \<longleftrightarrow> m = n"
proof -
  obtain d where d: "marker_of n - marker_of m = of_nat d" "n - m \<le> d" "d \<le> n - m + 1" "n = m \<longrightarrow> d = 0" using marker_gap [OF assms] by blast
  have s: "d < 2 ^ 31" using d(3) assms(2) by simp
  have "marker_of m - marker_of n = - of_nat d" using d(1) by (metis minus_diff_eq)
  then show "ps5vk_marker_reached (marker_of n) (marker_of m)" "ps5vk_marker_reached (marker_of m) (marker_of n) \<longleftrightarrow> m = n"
    using d sint_of_gap [OF s] assms(1) by (cases "m = n"; force simp: ps5vk_marker_reached_def)+
qed

text \<open>
  \<open>tracks c g q\<close>: \<open>g\<close> steps have been submitted, the queue knows that the first \<open>c\<close> are finished, and the ranges it keeps are those of
  later steps.
\<close>

definition tracks :: "nat \<Rightarrow> nat \<Rightarrow> vk_queue \<Rightarrow> bool" where
  "tracks c g q \<longleftrightarrow>
     qu_completed_value q = marker_of c \<and> qu_submitted_value q = marker_of g \<and> qu_marker_value q = marker_of g \<and>
     c \<le> g \<and> g - c < 2 ^ 31 - 1 \<and>
     (\<forall>r\<in>set (qu_retire q). c < rr_step r \<and> rr_step r \<le> g \<and> rr_value r = marker_of (rr_step r))"

lemma reached_order:
  assumes "l \<le> m" "m \<le> g" "l \<le> n" "n \<le> g" "g - l < 2 ^ 31 - 1"
  shows "ps5vk_marker_reached (marker_of n) (marker_of m) \<longleftrightarrow> m \<le> n"
proof (cases "m \<le> n")
  case True
  then show ?thesis using marker_order(1) [of m n] assms by simp
next
  case False
  then show ?thesis using marker_order(2) [of n m] assms by simp
qed

text \<open>What polls do to a queue: it knows that \<open>c'\<close> steps are finished, and has let go of the ranges of these.\<close>

definition polled :: "nat \<Rightarrow> nat \<Rightarrow> nat \<Rightarrow> nat \<Rightarrow> vk_queue \<Rightarrow> vk_queue \<Rightarrow> bool" where
  "polled hi c c' g q q' \<longleftrightarrow>
     tracks c' g q' \<and> c \<le> c' \<and> c' \<le> max c hi \<and> qu_ring_head q' = qu_ring_head q \<and>
     qu_retire q' = filter (\<lambda>r. c' < rr_step r) (qu_retire q)"

lemma polled_refl: "tracks c g q \<Longrightarrow> polled hi c c g q q"
  by (auto simp: polled_def tracks_def filter_id_conv)

lemma polled_trans: "polled hi c c' g q q' \<Longrightarrow> polled hi c' c'' g q' q'' \<Longrightarrow> polled hi c c'' g q q''"
  by (auto simp: polled_def intro!: filter_cong)

text \<open>A read of the marker between the steps \<open>l\<close> and \<open>hi\<close>.\<close>

definition shows_step :: "nat \<Rightarrow> nat \<Rightarrow> u32 \<Rightarrow> bool" where
  "shows_step l hi seen \<longleftrightarrow> (\<exists>f. l \<le> f \<and> f \<le> hi \<and> seen = marker_of f)"

lemma poll_polled:
  assumes q: "tracks c g q" and l: "l \<le> c" "g - l < 2 ^ 31 - 1" "hi \<le> g" and seen: "shows_step l hi seen"
  shows "\<exists>c'. polled hi c c' g q (fst (ps5vk_queue_poll seen q))"
proof -
  obtain f where f: "l \<le> f" "f \<le> hi" "seen = marker_of f" using seen by (auto simp: shows_step_def)
  note o = reached_order [OF _ _ _ _ l(2)]
  have c: "c \<le> g" and vals: "qu_completed_value q = marker_of c" "qu_submitted_value q = marker_of g"
    and rs: "\<And>r. r \<in> set (qu_retire q) \<Longrightarrow> c < rr_step r \<and> rr_step r \<le> g \<and> rr_value r = marker_of (rr_step r)"
    using q by (auto simp: tracks_def)
  let ?c = "max c f"
  have take: "ps5vk_marker_reached seen (qu_completed_value q) \<and> ps5vk_marker_reached (qu_submitted_value q) seen \<longleftrightarrow> c \<le> f"
    using f l c unfolding vals by (simp add: o)
  have kept: "ps5vk_marker_reached (marker_of ?c) (rr_value r) \<longleftrightarrow> \<not> ?c < rr_step r" if "r \<in> set (qu_retire q)" for r
    using rs [OF that] f l c by (auto simp: o)
  let ?q = "fst (ps5vk_queue_poll seen q)"
  have "(if ps5vk_marker_reached seen (qu_completed_value q) \<and> ps5vk_marker_reached (qu_submitted_value q) seen
      then q\<lparr>qu_completed_value := seen\<rparr> else q) = q\<lparr>qu_completed_value := marker_of ?c\<rparr>"
    unfolding take using f(3) vals(1) by (simp add: max_def)
  then have e: "?q = q\<lparr>qu_completed_value := marker_of ?c, qu_retire := filter (\<lambda>r. ?c < rr_step r) (qu_retire q)\<rparr>"
    using kept by (simp add: ps5vk_queue_poll_def ps5vk_queue_retire_locked_def cong: filter_cong)
  have "polled hi c ?c g q ?q" using q rs f l unfolding e by (auto simp: polled_def tracks_def)
  then show ?thesis by blast
qed

text \<open>A loop of polls ends where it has been polled, and a successful one when the step is known to be finished.\<close>

definition ends_wait :: "nat \<Rightarrow> nat \<Rightarrow> nat \<Rightarrow> nat \<Rightarrow> vk_queue \<Rightarrow> bool \<Rightarrow> vk_queue \<Rightarrow> bool" where
  "ends_wait hi c g n q ok q' \<longleftrightarrow> (\<exists>c'. polled hi c c' g q q' \<and> (ok \<longrightarrow> n \<le> c'))"

lemma ends_wait_step: "polled hi c c' g q q' \<Longrightarrow> ends_wait hi c' g n q' ok q'' \<Longrightarrow> ends_wait hi c g n q ok q''"
  unfolding ends_wait_def using polled_trans by blast

lemma wait_step:
  assumes "tracks c g q" "l \<le> c" "g - l < 2 ^ 31 - 1" "hi \<le> g" "shows_step l hi seen" "l \<le> n" "n \<le> g"
  obtains c' where "polled hi c c' g q (fst (ps5vk_queue_poll seen q))" "l \<le> c'" "tracks c' g (fst (ps5vk_queue_poll seen q))"
    "ps5vk_marker_reached (qu_completed_value (fst (ps5vk_queue_poll seen q))) (marker_of n) \<longleftrightarrow> n \<le> c'"
proof -
  obtain c' where c': "polled hi c c' g q (fst (ps5vk_queue_poll seen q))" using poll_polled [OF assms(1-5)] by blast
  then have t: "tracks c' g (fst (ps5vk_queue_poll seen q))" "c \<le> c'" by (auto simp: polled_def)
  then have "c' \<le> g" "qu_completed_value (fst (ps5vk_queue_poll seen q)) = marker_of c'" by (auto simp: tracks_def)
  then show thesis using reached_order [of l n g c'] assms t c' by (intro that [OF c']) auto
qed

lemma wait_spin_ends:
  assumes "g - l < 2 ^ 31 - 1" "hi \<le> g" "l \<le> n" "n \<le> g"
    and "tracks c g q" "l \<le> c" "shows_step l hi seen" "\<forall>s\<in>set later. shows_step l hi s"
  shows "ends_wait hi c g n q (fst (wait_spin (marker_of n) seen later q)) (snd (wait_spin (marker_of n) seen later q))"
  using assms(5-)
proof (induction later arbitrary: seen q c)
  case Nil
  obtain c' where "polled hi c c' g q (fst (ps5vk_queue_poll seen q))" "ps5vk_marker_reached (qu_completed_value (fst (ps5vk_queue_poll seen q))) (marker_of n) \<longleftrightarrow> n \<le> c'"
    by (rule wait_step [OF Nil(1,2) assms(1,2) Nil(3) assms(3,4)])
  then show ?case by (auto simp: wait_spin.simps Let_def ends_wait_def)
next
  case (Cons s later)
  obtain c' where c': "polled hi c c' g q (fst (ps5vk_queue_poll seen q))" "l \<le> c'" "tracks c' g (fst (ps5vk_queue_poll seen q))"
    "ps5vk_marker_reached (qu_completed_value (fst (ps5vk_queue_poll seen q))) (marker_of n) \<longleftrightarrow> n \<le> c'"
    by (rule wait_step [OF Cons.prems(1,2) assms(1,2) Cons.prems(3) assms(3,4)])
  show ?case
  proof (cases "n \<le> c'")
    case True
    then show ?thesis using c' by (subst (1 2) wait_spin.simps) (auto simp: Let_def ends_wait_def)
  next
    case False
    then have "wait_spin (marker_of n) seen (s # later) q = wait_spin (marker_of n) s later (fst (ps5vk_queue_poll seen q))"
      using c'(4) by (subst wait_spin.simps) (simp add: Let_def)
    then show ?thesis using ends_wait_step [OF c'(1) Cons.IH [OF c'(3,2)]] Cons.prems(4) by simp
  qed
qed

lemma wait_polls_end:
  assumes "g - l < 2 ^ 31 - 1" "hi \<le> g" "l \<le> n" "n \<le> g" "\<forall>i. shows_step l hi (ww_polls w i)"
    and "tracks c g q" "l \<le> c"
  shows "ends_wait hi c g n q (fst (wait_polls (marker_of n) w left q) = Wait_success) (snd (wait_polls (marker_of n) w left q))"
  using assms(6-)
proof (induction left arbitrary: q c)
  case 0
  let ?q = "fst (ps5vk_queue_poll (ww_polls w (PS5VK_MARKER_POLLS - 0)) q)"
  obtain c' where "polled hi c c' g q ?q" "ps5vk_marker_reached (qu_completed_value ?q) (marker_of n) \<longleftrightarrow> n \<le> c'"
    by (rule wait_step [OF 0(1,2) assms(1,2) spec [OF assms(5)] assms(3,4)])
  then show ?case by (auto simp: wait_polls.simps Let_def ends_wait_def)
next
  case (Suc left)
  let ?q = "fst (ps5vk_queue_poll (ww_polls w (PS5VK_MARKER_POLLS - Suc left)) q)"
  obtain c' where c': "polled hi c c' g q ?q" "l \<le> c'" "tracks c' g ?q" "ps5vk_marker_reached (qu_completed_value ?q) (marker_of n) \<longleftrightarrow> n \<le> c'"
    by (rule wait_step [OF Suc.prems(1,2) assms(1,2) spec [OF assms(5)] assms(3,4)])
  show ?case
  proof (cases "n \<le> c' \<or> ww_lates w (PS5VK_MARKER_POLLS - Suc left)")
    case True
    then show ?thesis using c' by (subst (1 2) wait_polls.simps) (auto simp: Let_def ends_wait_def)
  next
    case False
    then have "wait_polls (marker_of n) w (Suc left) q = wait_polls (marker_of n) w left ?q"
      using c'(4) by (subst wait_polls.simps) (simp add: Let_def)
    then show ?thesis using ends_wait_step [OF c'(1) Suc.IH [OF c'(3,2)]] by simp
  qed
qed

lemma step_polls_end:
  assumes "g - l < 2 ^ 31 - 1" "hi \<le> g" "l \<le> n" "n \<le> g" "\<forall>i. shows_step l hi (polls i)"
    and "tracks c g q" "l \<le> c"
  shows "ends_wait hi c g n q (fst (step_polls (marker_of n) polls left q) = Wait_success) (snd (step_polls (marker_of n) polls left q))"
  using assms(6-)
proof (induction left arbitrary: q c)
  case 0
  then show ?case using polled_refl [of c g q hi] by (auto simp: ends_wait_def)
next
  case (Suc left)
  let ?q = "fst (ps5vk_queue_poll (polls (PS5VK_MARKER_POLLS - Suc left)) q)"
  obtain c' where c': "polled hi c c' g q ?q" "l \<le> c'" "tracks c' g ?q" "ps5vk_marker_reached (qu_completed_value ?q) (marker_of n) \<longleftrightarrow> n \<le> c'"
    by (rule wait_step [OF Suc.prems(1,2) assms(1,2) spec [OF assms(5)] assms(3,4)])
  then show ?case using ends_wait_step [OF c'(1) Suc.IH [OF c'(3,2)]] by (auto simp: Let_def ends_wait_def)
qed

text \<open>Every read of a wait shows a step between \<open>l\<close> and \<open>hi\<close>.\<close>

definition reads :: "nat \<Rightarrow> nat \<Rightarrow> wait_world \<Rightarrow> bool" where
  "reads l hi w \<longleftrightarrow>
     shows_step l hi (ww_first w) \<and> shows_step l hi (ww_spin w) \<and> (\<forall>s\<in>set (ww_spins w). shows_step l hi s) \<and>
     (\<forall>i. shows_step l hi (ww_polls w i))"

lemma reads_endless [simp]: "reads l hi (endless w) = reads l hi w"
  by (simp add: reads_def endless_def)

lemma wait_value_ends:
  assumes b: "g - l < 2 ^ 31 - 1" "hi \<le> g" and n: "l \<le> n" "n \<le> g" and w: "reads l hi w" and q: "tracks c g q" "l \<le> c"
    and res: "ps5vk_queue_wait_value (marker_of n) w q = (res, q')"
  shows "ends_wait hi c g n q (res = Wait_success) q'"
proof -
  let ?q = "fst (ps5vk_queue_poll (ww_first w) q)" and ?v = "marker_of n"
  have r: "shows_step l hi (ww_first w)" "shows_step l hi (ww_spin w)" "\<forall>s\<in>set (ww_spins w). shows_step l hi s"
    "\<forall>i. shows_step l hi (ww_polls w i)" using w by (auto simp: reads_def)
  obtain c' where c': "polled hi c c' g q ?q" "l \<le> c'" "tracks c' g ?q" "ps5vk_marker_reached (qu_completed_value ?q) ?v \<longleftrightarrow> n \<le> c'"
    by (rule wait_step [OF q b r(1) n])
  show ?thesis
  proof (cases "n \<le> c' \<or> ww_late w")
    case True
    then show ?thesis using c' res by (auto simp: ps5vk_queue_wait_value_def Let_def ends_wait_def split: if_splits)
  next
    case False
    obtain found q2 where s: "wait_spin ?v (ww_spin w) (ww_spins w) ?q = (found, q2)" by fastforce
    have e: "ends_wait hi c' g n ?q found q2" using wait_spin_ends [OF b n c'(3,2) r(2,3)] s by simp
    then obtain c2 where c2: "polled hi c' c2 g ?q q2" by (auto simp: ends_wait_def)
    have res': "(res, q') = (if found then (Wait_success, q2) else wait_polls ?v w PS5VK_MARKER_POLLS q2)"
      using False c'(4) res s by (simp add: ps5vk_queue_wait_value_def Let_def)
    show ?thesis
    proof (cases found)
      case True
      then show ?thesis using ends_wait_step [OF c'(1) e] res' by simp
    next
      case False
      have "ends_wait hi c2 g n q2 (res = Wait_success) q'"
        using wait_polls_end [OF b n r(4), of c2 q2 PS5VK_MARKER_POLLS] c2 c'(2) res' False by (auto simp: polled_def dest: sym)
      then show ?thesis by (rule ends_wait_step [OF polled_trans [OF c'(1) c2]])
    qed
  qed
qed

text \<open>The value waited for is that of the last step that writes the range.\<close>

lemma range_fold:
  assumes b: "g - l < 2 ^ 31 - 1"
  shows "\<lbrakk>\<forall>r\<in>set rs. l \<le> rr_step r \<and> rr_step r \<le> g \<and> rr_value r = marker_of (rr_step r);
      case found of None \<Rightarrow> m = 0 | Some v \<Rightarrow> v = marker_of m \<and> l \<le> m \<and> m \<le> g\<rbrakk>
    \<Longrightarrow> case fold (newer_overlap low bytes) rs found of
          None \<Rightarrow> found = None \<and> (\<forall>r\<in>set rs. \<not> overlaps low bytes r)
        | Some v \<Rightarrow> \<exists>n. v = marker_of n \<and> l \<le> n \<and> n \<le> g \<and> m \<le> n \<and> (\<forall>r\<in>set rs. overlaps low bytes r \<longrightarrow> rr_step r \<le> n)"
proof (induction rs arbitrary: found m)
  case Nil
  then show ?case by (auto split: option.splits)
next
  case (Cons r rs)
  have r: "l \<le> rr_step r" "rr_step r \<le> g" "rr_value r = marker_of (rr_step r)" using Cons.prems(1) by auto
  show ?case
  proof (cases "overlaps low bytes r \<and> m \<le> rr_step r")
    case True
    have "newer_overlap low bytes r found = Some (marker_of (rr_step r))"
      using True Cons.prems(2) r b by (auto simp: newer_overlap_def reached_order split: option.splits)
    then show ?thesis using Cons.IH [where found = "Some (marker_of (rr_step r))" and m = "rr_step r"] Cons.prems(1) r True
      by (auto split: option.splits)
  next
    case False
    then have "newer_overlap low bytes r found = found"
      using Cons.prems(2) r reached_order [OF _ _ _ _ b, of m "rr_step r"] by (auto simp: newer_overlap_def split: option.splits)
    then show ?thesis using Cons.IH [where found = found and m = m] Cons.prems r False by (auto split: option.splits)
  qed
qed

lemma range_value_last:
  assumes "tracks c g q"
  shows "case range_value low bytes q of None \<Rightarrow> \<forall>r\<in>set (qu_retire q). \<not> overlaps low bytes r
         | Some v \<Rightarrow> \<exists>n. v = marker_of n \<and> c \<le> n \<and> n \<le> g \<and> (\<forall>r\<in>set (qu_retire q). overlaps low bytes r \<longrightarrow> rr_step r \<le> n)"
proof -
  have b: "g - c < 2 ^ 31 - 1" and r: "\<forall>r\<in>set (qu_retire q). c \<le> rr_step r \<and> rr_step r \<le> g \<and> rr_value r = marker_of (rr_step r)"
    using assms by (auto simp: tracks_def)
  show ?thesis using range_fold [OF b r, where found = None and m = 0 and low = low and bytes = bytes] by (auto simp: range_value_def split: option.splits)
qed

lemma wait_range_ends:
  assumes q: "tracks c g q" and w: "reads c hi w" "hi \<le> g" and res: "ps5vk_queue_wait_range low bytes w q = (res, q')"
  shows "\<exists>c'. polled hi c c' g q q' \<and> (res = Wait_success \<longrightarrow> (\<forall>r\<in>set (qu_retire q). overlaps low bytes r \<longrightarrow> rr_step r \<le> c'))"
proof (cases "range_value low bytes q")
  case None
  then show ?thesis using range_value_last [OF q, of low bytes] res polled_refl [OF q, of hi] by (auto simp: ps5vk_queue_wait_range_def)
next
  case (Some v)
  have b: "g - c < 2 ^ 31 - 1" using q by (simp add: tracks_def)
  obtain n where n: "v = marker_of n" "c \<le> n" "n \<le> g" "\<forall>r\<in>set (qu_retire q). overlaps low bytes r \<longrightarrow> rr_step r \<le> n"
    using range_value_last [OF q, of low bytes] Some by auto
  have "ends_wait hi c g n q (res = Wait_success) q'"
    using res Some n(1) w by (intro wait_value_ends [OF b w(2) n(2,3) _ q order_refl, of "endless w"]) (auto simp: ps5vk_queue_wait_range_def)
  then obtain c' where "polled hi c c' g q q'" "res = Wait_success \<longrightarrow> n \<le> c'" by (auto simp: ends_wait_def)
  then show ?thesis using n(4) by (meson order_trans)
qed

section \<open>The queue and the GPU\<close>

text \<open>
  The queue beside the GPU: the steps given to it and the steps it has finished, in order; the stream that is being submitted, from its
  first word to behind its end packets; and the streams of the steps given, each with the number of the step. All but the queue is what the
  GPU knows, and none of it can be read but through the marker.
\<close>

record gpu_queue =
  gq_queue :: vk_queue
  gq_given :: nat
  gq_finished :: nat
  gq_stream :: "(nat \<times> nat) option"
  gq_flights :: "(nat \<times> nat \<times> nat) list"

definition idle_queue :: vk_queue where
  "idle_queue = \<lparr>qu_marker_value = 0, qu_submitted_value = 0, qu_completed_value = 0, qu_ring_head = 0, qu_retire = []\<rparr>"

text \<open>
  What can happen: the GPU finishes a step; the queue polls the marker; a range is waited for; a stream of at most \<open>footprint\<close> words with its
  end packets is placed; a step of it is submitted and waited for, or submitted as its last one. The reads of an action show steps finished
  by then, from when it starts (\<open>gq_finished s\<close>) to when it ends (\<open>f\<close>). Fewer than \<open>2\<^sup>3\<^sup>1 - 1\<close> steps are ever submitted beyond the one
  the queue knows of.
\<close>

inductive queue_step :: "nat \<Rightarrow> gpu_queue \<Rightarrow> gpu_queue \<Rightarrow> bool" for capacity where
  finish: "gq_finished s < gq_given s \<Longrightarrow> queue_step capacity s (s\<lparr>gq_finished := gq_finished s + 1\<rparr>)"
| ask: "queue_step capacity s (s\<lparr>gq_queue := fst (ps5vk_queue_poll (marker_of (gq_finished s)) (gq_queue s))\<rparr>)"
| await: "\<lbrakk>gq_finished s \<le> f; f \<le> gq_given s; reads (gq_finished s) f w; ps5vk_queue_wait_range low bytes w (gq_queue s) = (res, q)\<rbrakk>
    \<Longrightarrow> queue_step capacity s (s\<lparr>gq_queue := q, gq_finished := f\<rparr>)"
| place: "\<lbrakk>gq_stream s = None; gq_finished s \<le> f; f \<le> gq_given s; shows_step (gq_finished s) f seen; reads (gq_finished s) f w;
     ps5vk_queue_stream_base capacity footprint seen w (gq_queue s) = (Wait_success, base, q); words + end_words \<le> footprint\<rbrakk>
    \<Longrightarrow> queue_step capacity s
         (s\<lparr>gq_queue := place_stream base words end_words q, gq_finished := f, gq_stream := Some (base, base + words + end_words)\<rparr>)"
| refuse: "\<lbrakk>gq_finished s \<le> f; f \<le> gq_given s; shows_step (gq_finished s) f seen; reads (gq_finished s) f w;
     ps5vk_queue_stream_base capacity footprint seen w (gq_queue s) = (res, base, q)\<rbrakk>
    \<Longrightarrow> queue_step capacity s (s\<lparr>gq_queue := q, gq_finished := f\<rparr>)"
| step: "\<lbrakk>gq_stream s = Some (a, b); gq_finished s \<le> f; f \<le> gq_given s + 1; reads (gq_finished s) f w;
     qu_completed_value (gq_queue s) = marker_of c; c \<le> gq_finished s; gq_given s + 1 - c < 2 ^ 31 - 1;
     ps5vk_queue_run_step wait (gq_given s + 1) targets w (gq_queue s) = (Wait_success, q)\<rbrakk>
    \<Longrightarrow> queue_step capacity s
         (s\<lparr>gq_queue := q, gq_given := gq_given s + 1, gq_finished := f, gq_stream := (if wait then Some (a, b) else None),
            gq_flights := (a, b, gq_given s + 1) # gq_flights s\<rparr>)"

inductive queue_reach :: "nat \<Rightarrow> gpu_queue \<Rightarrow> bool" for capacity where
  init: "queue_reach capacity \<lparr>gq_queue = idle_queue, gq_given = 0, gq_finished = 0, gq_stream = None, gq_flights = []\<rparr>"
| more: "queue_reach capacity s \<Longrightarrow> queue_step capacity s s' \<Longrightarrow> queue_reach capacity s'"

text \<open>The streams of steps that are not finished.\<close>

definition in_flight :: "gpu_queue \<Rightarrow> (nat \<times> nat \<times> nat) list" where
  "in_flight s = filter (\<lambda>(a, b, n). gq_finished s < n) (gq_flights s)"

fun apart :: "nat \<times> nat \<times> nat \<Rightarrow> nat \<times> nat \<times> nat \<Rightarrow> bool" where
  "apart (a, b, _) (c, d, _) \<longleftrightarrow> b \<le> c \<or> d \<le> a"

lemma shows_step_mono: "shows_step l hi seen \<Longrightarrow> c \<le> l \<Longrightarrow> shows_step c hi seen"
proof -
  assume "shows_step l hi seen" "c \<le> l"
  then obtain f where "l \<le> f" "f \<le> hi" "seen = marker_of f" by (auto simp: shows_step_def)
  then show ?thesis using \<open>c \<le> l\<close> unfolding shows_step_def by (intro exI [of _ f]) simp
qed

lemma reads_mono: "reads l hi w \<Longrightarrow> c \<le> l \<Longrightarrow> reads c hi w"
  by (auto simp: reads_def intro: shows_step_mono)

lemma stream_base_ends:
  assumes q: "tracks c g q" and hi: "hi \<le> g" and seen: "shows_step c hi seen" and w: "reads c hi w"
    and res: "ps5vk_queue_stream_base capacity footprint seen w q = (res, base, q')"
  shows "\<exists>c'. polled hi c c' g q q' \<and>
    (res = Wait_success \<longrightarrow> base = 0 \<and> g \<le> c' \<or> qu_ring_head q \<le> base \<and> base \<le> capacity \<and> footprint \<le> capacity - base)"
proof -
  have b: "g - c < 2 ^ 31 - 1" "c \<le> g" and sub: "qu_submitted_value q = marker_of g" using q by (auto simp: tracks_def)
  let ?q = "fst (ps5vk_queue_poll seen q)" and ?base = "(qu_ring_head (fst (ps5vk_queue_poll seen q)) + 15) div 16 * 16"
  obtain c1 where c1: "polled hi c c1 g q ?q" "c \<le> c1" "tracks c1 g ?q" "ps5vk_marker_reached (qu_completed_value ?q) (marker_of g) \<longleftrightarrow> g \<le> c1"
    by (rule wait_step [OF q order_refl b(1) hi seen b(2) order_refl])
  have head: "qu_ring_head ?q = qu_ring_head q" using c1(1) by (simp add: polled_def)
  have sub1: "qu_submitted_value ?q = marker_of g" using c1(3) by (simp add: tracks_def)
  consider (all) "g \<le> c1" | (room) "\<not> g \<le> c1" "?base \<le> capacity \<and> footprint \<le> capacity - ?base"
    | (full) "\<not> g \<le> c1" "\<not> (?base \<le> capacity \<and> footprint \<le> capacity - ?base)" by blast
  then show ?thesis
  proof cases
    case all
    then show ?thesis using res c1 by (auto simp: ps5vk_queue_stream_base_def sub Let_def)
  next
    case room
    have "n \<le> (n + 15) div 16 * 16" for n :: nat by presburger
    then show ?thesis using res c1 room head by (auto simp: ps5vk_queue_stream_base_def sub Let_def)
  next
    case full
    have r: "ps5vk_queue_wait_value (marker_of g) (endless w) ?q = (res, q')" "base = 0"
      using res full c1(4) by (auto simp: ps5vk_queue_stream_base_def sub sub1 Let_def ps5vk_queue_wait_idle_def split: prod.splits)
    have "ends_wait hi c1 g g ?q (res = Wait_success) q'"
      by (rule wait_value_ends [OF b(1) hi b(2) order_refl _ c1(3,2) r(1)]) (simp add: w)
    from ends_wait_step [OF c1(1) this] show ?thesis using r(2) by (auto simp: ends_wait_def)
  qed
qed

lemma run_step_ends:
  assumes q: "tracks c g q" and b: "g + 1 - c < 2 ^ 31 - 1" and hi: "hi \<le> g + 1" and w: "reads c hi w"
    and res: "ps5vk_queue_run_step wait (g + 1) targets w q = (Wait_success, q')"
  shows "\<exists>c'. tracks c' (g + 1) q' \<and> c' \<le> max c hi \<and> qu_ring_head q' = qu_ring_head q \<and> (wait \<longrightarrow> g + 1 \<le> c')"
proof -
  let ?v = "marker_of (g + 1)" and ?q = "q\<lparr>qu_marker_value := marker_of (g + 1), qu_submitted_value := marker_of (g + 1)\<rparr>"
  have v: "next_marker (qu_marker_value q) = ?v" and cg: "c \<le> g" using q next_marker_of [of g] by (simp_all add: tracks_def)
  have q1: "tracks c (g + 1) ?q" using q b by (force simp: tracks_def)
  show ?thesis
  proof (cases wait)
    case False
    then have "q' = ps5vk_queue_defer_targets ?v (g + 1) targets ?q" using res by (simp add: ps5vk_queue_run_step_def v Let_def)
    then show ?thesis using False q1 cg by (intro exI [of _ c]) (auto simp: tracks_def ps5vk_queue_defer_targets_def)
  next
    case True
    let ?q2 = "snd (wait_spin ?v (ww_spin w) (ww_spins w) ?q)"
    have n: "c \<le> g + 1" using cg by simp
    have "ends_wait hi c (g + 1) (g + 1) ?q (fst (wait_spin ?v (ww_spin w) (ww_spins w) ?q)) ?q2"
      using w by (intro wait_spin_ends [OF b hi n order_refl q1 order_refl]) (auto simp: reads_def)
    then obtain c1 where c1: "polled hi c c1 (g + 1) ?q ?q2" by (auto simp: ends_wait_def)
    have s: "step_polls ?v (ww_polls w) PS5VK_MARKER_POLLS ?q2 = (Wait_success, q')" using res True by (simp add: ps5vk_queue_run_step_def v Let_def)
    have t: "tracks c1 (g + 1) ?q2" "c \<le> c1" using c1 by (simp_all add: polled_def)
    have "\<forall>i. shows_step c hi (ww_polls w i)" using w by (simp add: reads_def)
    then have "ends_wait hi c1 (g + 1) (g + 1) ?q2 (fst (Wait_success, q') = Wait_success) (snd (Wait_success, q'))"
      unfolding s [symmetric] by (rule step_polls_end [OF b hi n order_refl _ t])
    from ends_wait_step [OF c1 this] obtain c' where "polled hi c c' (g + 1) ?q q'" "g + 1 \<le> c'" by (auto simp: ends_wait_def)
    then show ?thesis by (auto simp: polled_def)
  qed
qed

definition queue_inv :: "nat \<Rightarrow> gpu_queue \<Rightarrow> bool" where
  "queue_inv capacity s \<longleftrightarrow>
     (\<exists>c. c \<le> gq_finished s \<and> tracks c (gq_given s) (gq_queue s)) \<and> gq_finished s \<le> gq_given s \<and>
     sorted_wrt apart (in_flight s) \<and>
     (\<forall>(a, b, n)\<in>set (gq_flights s). n \<le> gq_given s \<and> (a \<noteq> 0 \<longrightarrow> b \<le> capacity)) \<and>
     (\<forall>(a, b, n)\<in>set (in_flight s). b \<le> qu_ring_head (gq_queue s)) \<and>
     (\<forall>a b. gq_stream s = Some (a, b) \<longrightarrow>
        b \<le> qu_ring_head (gq_queue s) \<and> (a \<noteq> 0 \<longrightarrow> b \<le> capacity) \<and> (\<forall>(x, y, n)\<in>set (in_flight s). y \<le> a))"

lemma in_flight_later:
  assumes "gq_flights s' = gq_flights s" "gq_finished s \<le> gq_finished s'"
  shows "in_flight s' = filter (\<lambda>(a, b, n). gq_finished s' < n) (in_flight s)"
  using assms by (auto simp: in_flight_def intro!: filter_cong)

text \<open>Time passes, and the queue polls.\<close>

lemma inv_later:
  assumes inv: "queue_inv capacity s" and f: "gq_finished s \<le> f" "f \<le> gq_given s"
    and q: "tracks c (gq_given s) q" "c \<le> f" "qu_ring_head q = qu_ring_head (gq_queue s)"
  shows "queue_inv capacity (s\<lparr>gq_queue := q, gq_finished := f\<rparr>)"
proof -
  let ?s = "s\<lparr>gq_queue := q, gq_finished := f\<rparr>"
  have i: "in_flight ?s = filter (\<lambda>(a, b, n). f < n) (in_flight s)" using in_flight_later [of ?s s] f by simp
  have "sorted_wrt apart (in_flight ?s)" using inv unfolding i queue_inv_def by (blast intro: sorted_wrt_filter)
  moreover have "set (in_flight ?s) \<subseteq> set (in_flight s)" unfolding i by auto
  ultimately show ?thesis using inv f q unfolding queue_inv_def by simp (blast dest: subsetD)
qed

lemma inv_same_time:
  assumes "queue_inv capacity s" "tracks c (gq_given s) q" "c \<le> gq_finished s" "qu_ring_head q = qu_ring_head (gq_queue s)"
  shows "queue_inv capacity (s\<lparr>gq_queue := q\<rparr>)"
  using inv_later [OF assms(1) order_refl _ assms(2-4)] assms(1) by (simp add: queue_inv_def in_flight_def)

lemma polled_bound: "polled hi c c' g q q' \<Longrightarrow> c \<le> hi \<Longrightarrow> c' \<le> hi"
  by (auto simp: polled_def)

lemma inv_place:
  assumes inv: "queue_inv capacity s" and f: "gq_finished s \<le> f" "f \<le> gq_given s"
    and seen: "shows_step (gq_finished s) f seen" "reads (gq_finished s) f w"
    and base: "ps5vk_queue_stream_base capacity footprint seen w (gq_queue s) = (Wait_success, base, q)" "words + end_words \<le> footprint"
  shows "queue_inv capacity
    (s\<lparr>gq_queue := place_stream base words end_words q, gq_finished := f, gq_stream := Some (base, base + words + end_words)\<rparr>)"
proof -
  obtain c where c: "c \<le> gq_finished s" "tracks c (gq_given s) (gq_queue s)" using inv by (auto simp: queue_inv_def)
  obtain c' where c': "polled f c c' (gq_given s) (gq_queue s) q" and or: "base = 0 \<and> gq_given s \<le> c' \<or>
      qu_ring_head (gq_queue s) \<le> base \<and> base \<le> capacity \<and> footprint \<le> capacity - base"
    using stream_base_ends [OF c(2) f(2) shows_step_mono [OF seen(1) c(1)] reads_mono [OF seen(2) c(1)] base(1)] by blast
  have le: "c' \<le> f" using polled_bound [OF c'] c(1) f(1) by simp
  let ?s = "s\<lparr>gq_queue := q, gq_finished := f\<rparr>"
  let ?t = "s\<lparr>gq_queue := place_stream base words end_words q, gq_finished := f, gq_stream := Some (base, base + words + end_words)\<rparr>"
  have later: "queue_inv capacity ?s" using inv_later [OF inv f, of c' q] c' le by (simp add: polled_def)
  have flights: "in_flight ?t = in_flight ?s" by (simp add: in_flight_def)
  have below: "\<forall>(x, y, n)\<in>set (in_flight ?s). y \<le> base"
  proof (cases "base = 0 \<and> gq_given s \<le> c'")
    case True
    then have "in_flight ?s = []" using later le by (auto simp: queue_inv_def in_flight_def filter_empty_conv)
    then show ?thesis by simp
  next
    case False
    then have "qu_ring_head (gq_queue s) \<le> base" using or by blast
    then have "qu_ring_head q \<le> base" using c' by (simp add: polled_def)
    then show ?thesis using later unfolding queue_inv_def by fastforce
  qed
  have room: "base \<noteq> 0 \<longrightarrow> base + words + end_words \<le> capacity" using or base(2) by auto
  have "tracks c' (gq_given s) q" using c' by (simp add: polled_def)
  then have "tracks c' (gq_given s) (place_stream base words end_words q)" by (simp add: tracks_def place_stream_def)
  then show ?thesis using later below room le unfolding queue_inv_def flights by (fastforce simp: place_stream_def)
qed

lemma inv_step:
  assumes inv: "queue_inv capacity s" and str: "gq_stream s = Some (a, b)" and f: "gq_finished s \<le> f" "f \<le> gq_given s + 1"
    and w: "reads (gq_finished s) f w"
    and c: "qu_completed_value (gq_queue s) = marker_of c" "c \<le> gq_finished s" "gq_given s + 1 - c < 2 ^ 31 - 1"
    and run: "ps5vk_queue_run_step wait (gq_given s + 1) targets w (gq_queue s) = (Wait_success, q)"
  shows "queue_inv capacity
    (s\<lparr>gq_queue := q, gq_given := gq_given s + 1, gq_finished := f, gq_stream := (if wait then Some (a, b) else None),
       gq_flights := (a, b, gq_given s + 1) # gq_flights s\<rparr>)"
proof -
  let ?g = "gq_given s"
  obtain d where d: "d \<le> gq_finished s" "tracks d ?g (gq_queue s)" and fg: "gq_finished s \<le> ?g" using inv by (auto simp: queue_inv_def)
  have l: "?g - min c d < 2 ^ 31 - 1" using c(3) d(2) by (auto simp: tracks_def min_def)
  have "d = c"
    using reached_order [OF _ _ _ _ l, of c d] reached_order [OF _ _ _ _ l, of d c] c d fg by (auto simp: tracks_def)
  then have t: "tracks c ?g (gq_queue s)" using d by simp
  obtain c' where c': "tracks c' (?g + 1) q" "c' \<le> max c f" "qu_ring_head q = qu_ring_head (gq_queue s)" "wait \<longrightarrow> ?g + 1 \<le> c'"
    using run_step_ends [OF t c(3) f(2) reads_mono [OF w c(2)] run] by blast
  have cf: "c' \<le> f" using c'(2) c(2) f(1) by simp
  let ?t = "s\<lparr>gq_queue := q, gq_given := ?g + 1, gq_finished := f, gq_stream := (if wait then Some (a, b) else None),
       gq_flights := (a, b, ?g + 1) # gq_flights s\<rparr>"
  have i: "in_flight ?t = (if f < ?g + 1 then [(a, b, ?g + 1)] else []) @ filter (\<lambda>(a, b, n). f < n) (in_flight s)"
    using in_flight_later [of "s\<lparr>gq_finished := f\<rparr>" s] f(1) by (simp add: in_flight_def)
  have sub: "set (filter (\<lambda>(a, b, n). f < n) (in_flight s)) \<subseteq> set (in_flight s)" by auto
  have below: "\<forall>(x, y, n)\<in>set (in_flight s). y \<le> a" "b \<le> qu_ring_head (gq_queue s)" "a \<noteq> 0 \<longrightarrow> b \<le> capacity"
    using inv str unfolding queue_inv_def by blast+
  have "sorted_wrt apart (filter (\<lambda>(a, b, n). f < n) (in_flight s))" using inv unfolding queue_inv_def by (blast intro: sorted_wrt_filter)
  then have sorted: "sorted_wrt apart (in_flight ?t)" unfolding i using sub below(1) by fastforce
  have heads: "\<forall>(x, y, n)\<in>set (in_flight ?t). y \<le> qu_ring_head q" unfolding i c'(3) using sub below(2) inv unfolding queue_inv_def by fastforce
  have "wait \<Longrightarrow> in_flight ?t = []"
    using c'(4) cf inv unfolding i queue_inv_def by (auto simp: in_flight_def filter_empty_conv)
  then have str': "\<forall>x y. gq_stream ?t = Some (x, y) \<longrightarrow>
      y \<le> qu_ring_head q \<and> (x \<noteq> 0 \<longrightarrow> y \<le> capacity) \<and> (\<forall>(u, v, n)\<in>set (in_flight ?t). v \<le> x)" using below c'(3) by simp
  have fl: "\<forall>(x, y, n)\<in>set (gq_flights ?t). n \<le> ?g + 1 \<and> (x \<noteq> 0 \<longrightarrow> y \<le> capacity)"
    using inv below(3) unfolding queue_inv_def by fastforce
  show ?thesis unfolding queue_inv_def using sorted heads str' fl f(2) cf c'(1) by auto
qed

lemma queue_step_inv: "queue_inv capacity s \<Longrightarrow> queue_step capacity s s' \<Longrightarrow> queue_inv capacity s'"
proof -
  assume inv: "queue_inv capacity s" and "queue_step capacity s s'"
  obtain c where c: "c \<le> gq_finished s" "tracks c (gq_given s) (gq_queue s)" "gq_finished s \<le> gq_given s"
    using inv by (auto simp: queue_inv_def)
  have b: "gq_given s - c < 2 ^ 31 - 1" using c(2) by (simp add: tracks_def)
  from \<open>queue_step capacity s s'\<close> show ?thesis
  proof cases
    case finish
    then show ?thesis using inv_later [OF inv, of "gq_finished s + 1" c "gq_queue s"] c by simp
  next
    case ask
    have "shows_step c (gq_finished s) (marker_of (gq_finished s))" using c(1) by (auto simp: shows_step_def)
    from poll_polled [OF c(2) order_refl b c(3) this] obtain c'
      where "polled (gq_finished s) c c' (gq_given s) (gq_queue s) (fst (ps5vk_queue_poll (marker_of (gq_finished s)) (gq_queue s)))" by blast
    then show ?thesis using inv_same_time [OF inv, of c'] c(1) unfolding ask by (auto simp: polled_def)
  next
    case (await f w low bytes res q)
    obtain c' where c': "polled f c c' (gq_given s) (gq_queue s) q"
      using wait_range_ends [OF c(2) reads_mono [OF await(4) c(1)] await(3,5)] by blast
    then show ?thesis using inv_later [OF inv await(2,3), of c' q] polled_bound [OF c'] await(1,2) c(1) by (simp add: polled_def)
  next
    case (place f seen w footprint base q words end_words)
    then show ?thesis using inv_place [OF inv] by blast
  next
    case (refuse f seen w footprint res base q)
    obtain c' where c': "polled f c c' (gq_given s) (gq_queue s) q"
      using stream_base_ends [OF c(2) refuse(3) shows_step_mono [OF refuse(4) c(1)] reads_mono [OF refuse(5) c(1)] refuse(6)] by blast
    then show ?thesis using inv_later [OF inv refuse(2,3), of c' q] polled_bound [OF c'] refuse(1,2) c(1) by (simp add: polled_def)
  next
    case (step a b f w c wait targets q)
    then show ?thesis using inv_step [OF inv] by blast
  qed
qed

lemma idle_inv: "queue_inv capacity \<lparr>gq_queue = idle_queue, gq_given = 0, gq_finished = 0, gq_stream = None, gq_flights = []\<rparr>"
  by (auto simp: queue_inv_def idle_queue_def tracks_def marker_of_def in_flight_def)

lemma queue_reach_inv: "queue_reach capacity s \<Longrightarrow> queue_inv capacity s"
  by (induction rule: queue_reach.induct) (auto intro: idle_inv queue_step_inv)

section \<open>What waiting gives\<close>

definition quiet :: "u32 \<Rightarrow> wait_world" where
  "quiet v = \<lparr>ww_first = v, ww_spin = v, ww_spins = [], ww_polls = (\<lambda>_. v), ww_late = False, ww_lates = (\<lambda>_. False)\<rparr>"

lemma reads_quiet: "reads l hi (quiet v) = shows_step l hi v"
  by (auto simp: reads_def quiet_def)

definition first_state :: gpu_queue where
  "first_state = \<lparr>gq_queue = idle_queue, gq_given = 0, gq_finished = 0, gq_stream = None, gq_flights = []\<rparr>"

definition one_step :: gpu_queue where
  "one_step =
     \<lparr>gq_queue = \<lparr>qu_marker_value = 1, qu_submitted_value = 1, qu_completed_value = 0, qu_ring_head = 20,
        qu_retire = [\<lparr>rr_value = 1, rr_address = 0x1000, rr_bytes = 0x100, rr_step = 1\<rparr>]\<rparr>,
      gq_given = 1, gq_finished = 0, gq_stream = None, gq_flights = [(0, 20, 1)]\<rparr>"

lemma marker_of_small: "marker_of 0 = 0" "marker_of (Suc 0) = 1" "marker_of 2 = 2"
  by (simp_all add: marker_of_def)

lemma shows_here: "l \<le> n \<Longrightarrow> n \<le> hi \<Longrightarrow> v = marker_of n \<Longrightarrow> shows_step l hi v"
  by (auto simp: shows_step_def)

lemmas queue_eval = ps5vk_queue_stream_base_def ps5vk_queue_poll_def ps5vk_queue_retire_locked_def ps5vk_marker_reached_def Let_def
  place_stream_def ps5vk_queue_run_step_def ps5vk_queue_defer_targets_def next_marker_def marker_of_small idle_queue_def

lemma reach_one_step: "queue_reach 1000 one_step"
proof -
  let ?a = "first_state\<lparr>gq_queue := place_stream 0 10 10 idle_queue, gq_finished := 0, gq_stream := Some (0, 0 + 10 + 10)\<rparr>"
  have z: "shows_step 0 0 0" by (rule shows_here [of _ 0]) (simp_all add: marker_of_small)
  have base: "ps5vk_queue_stream_base 1000 20 0 (quiet 0) idle_queue = (Wait_success, 0, idle_queue)" by (simp add: queue_eval)
  have "queue_reach 1000 first_state" unfolding first_state_def by (rule queue_reach.init)
  moreover have "queue_step 1000 first_state ?a" using z base by (intro queue_step.place [where footprint = 20]) (simp_all add: first_state_def reads_quiet)
  ultimately have a: "queue_reach 1000 ?a" by (rule queue_reach.more)
  have run: "ps5vk_queue_run_step False (gq_given ?a + 1) [(0x1000, 0x100)] (quiet 0) (gq_queue ?a) = (Wait_success, gq_queue one_step)"
    by (simp add: queue_eval first_state_def one_step_def)
  have "queue_step 1000 ?a (?a\<lparr>gq_queue := gq_queue one_step, gq_given := gq_given ?a + 1, gq_finished := 0,
      gq_stream := (if False then Some (0, 20) else None), gq_flights := (0, 20, gq_given ?a + 1) # gq_flights ?a\<rparr>)"
    using z run by (intro queue_step.step [where c = 0 and w = "quiet 0" and targets = "[(0x1000, 0x100)]"]) (simp_all add: first_state_def reads_quiet queue_eval)
  then have "queue_step 1000 ?a one_step" by (simp add: first_state_def one_step_def)
  with a show ?thesis by (rule queue_reach.more)
qed

text \<open>A second stream behind the first, while the GPU runs the first.\<close>

definition two_steps :: gpu_queue where
  "two_steps =
     \<lparr>gq_queue = \<lparr>qu_marker_value = 2, qu_submitted_value = 2, qu_completed_value = 0, qu_ring_head = 52,
        qu_retire = [\<lparr>rr_value = 1, rr_address = 0x1000, rr_bytes = 0x100, rr_step = 1\<rparr>]\<rparr>,
      gq_given = 2, gq_finished = 0, gq_stream = None, gq_flights = [(32, 52, 2), (0, 20, 1)]\<rparr>"

lemma reach_two_steps: "queue_reach 1000 two_steps"
proof -
  let ?q = "gq_queue one_step"
  let ?a = "one_step\<lparr>gq_queue := place_stream 32 10 10 ?q, gq_finished := 0, gq_stream := Some (32, 32 + 10 + 10)\<rparr>"
  have z: "shows_step 0 0 0" "shows_step 0 1 0" by (rule shows_here [of _ 0]; simp add: marker_of_small)+
  have base: "ps5vk_queue_stream_base 1000 20 0 (quiet 0) ?q = (Wait_success, 32, ?q)" by (simp add: queue_eval one_step_def)
  have "queue_step 1000 one_step ?a" using z base by (intro queue_step.place [where footprint = 20]) (simp_all add: one_step_def reads_quiet)
  then have a: "queue_reach 1000 ?a" by (rule queue_reach.more [OF reach_one_step])
  have run: "ps5vk_queue_run_step False (gq_given ?a + 1) [] (quiet 0) (gq_queue ?a) = (Wait_success, gq_queue two_steps)"
    by (simp add: queue_eval one_step_def two_steps_def)
  have "queue_step 1000 ?a (?a\<lparr>gq_queue := gq_queue two_steps, gq_given := gq_given ?a + 1, gq_finished := 0,
      gq_stream := (if False then Some (32, 52) else None), gq_flights := (32, 52, gq_given ?a + 1) # gq_flights ?a\<rparr>)"
    using z run by (intro queue_step.step [where c = 0 and w = "quiet 0" and targets = "[]"]) (simp_all add: one_step_def reads_quiet queue_eval)
  then have "queue_step 1000 ?a two_steps" by (simp add: one_step_def two_steps_def flip: Suc_1)
  with a show ?thesis by (rule queue_reach.more)
qed

text \<open>C34. In every state the queue and the GPU can reach, when a wait for a range of memory succeeds, every step known to write some of the
  range is finished and the queue no longer keeps evictions for it, though the marker wraps and is read while the GPU goes on.\<close>

theorem wait_range_safe:
  assumes "queue_reach capacity s" "gq_finished s \<le> f" "f \<le> gq_given s" "reads (gq_finished s) f w"
    and "ps5vk_queue_wait_range low bytes w (gq_queue s) = (Wait_success, q)"
  shows "(\<forall>r\<in>set (qu_retire (gq_queue s)). overlaps low bytes r \<longrightarrow> rr_step r \<le> f) \<and> (\<forall>r\<in>set (qu_retire q). \<not> overlaps low bytes r)"
proof -
  obtain c where c: "c \<le> gq_finished s" "tracks c (gq_given s) (gq_queue s)" using queue_reach_inv [OF assms(1)] by (auto simp: queue_inv_def)
  obtain c' where c': "polled f c c' (gq_given s) (gq_queue s) q" "\<forall>r\<in>set (qu_retire (gq_queue s)). overlaps low bytes r \<longrightarrow> rr_step r \<le> c'"
    using wait_range_ends [OF c(2) reads_mono [OF assms(4) c(1)] assms(3,5)] by blast
  have "c' \<le> f" using polled_bound [OF c'(1)] c(1) assms(2) by simp
  then show ?thesis using c' unfolding polled_def by fastforce
qed

theorem wait_range_safe_witness:
  "queue_reach 1000 one_step \<and>
   (\<exists>q. ps5vk_queue_wait_range 0x1080 1 (quiet 1) (gq_queue one_step) = (Wait_success, q) \<and>
     filter (overlaps 0x1080 1) (qu_retire (gq_queue one_step)) \<noteq> [] \<and> filter (overlaps 0x1080 1) (qu_retire q) = [])"
proof -
  let ?q = "(gq_queue one_step)\<lparr>qu_completed_value := 1, qu_retire := []\<rparr>"
  have e: "ps5vk_queue_wait_range 0x1080 1 (quiet 1) (gq_queue one_step) = (Wait_success, ?q)"
    by (simp add: ps5vk_queue_wait_range_def range_value_def newer_overlap_def overlaps_def ps5vk_queue_wait_value_def queue_eval one_step_def
        quiet_def endless_def)
  have "reads 0 1 (quiet 1)" unfolding reads_quiet by (rule shows_here [of _ 1]) (simp_all add: marker_of_small)
  then have "\<forall>r\<in>set (qu_retire ?q). \<not> overlaps 0x1080 1 r"
    using wait_range_safe [OF reach_one_step _ _ _ e, of 1] by (simp add: one_step_def)
  moreover have "filter (overlaps 0x1080 1) (qu_retire (gq_queue one_step)) \<noteq> []" by (simp add: one_step_def overlaps_def)
  ultimately show ?thesis using reach_one_step e by (simp add: filter_empty_conv)
qed

text \<open>C33. In every state the queue and the GPU can reach, the streams of steps that are not finished lie apart in the submission buffer, and
  each that does not start at its first word ends within its capacity: a stream is never written over one that the GPU may still read.\<close>

theorem streams_apart:
  assumes "queue_reach capacity s"
  shows "sorted_wrt apart (in_flight s) \<and> (\<forall>(a, b, n)\<in>set (in_flight s). a \<noteq> 0 \<longrightarrow> b \<le> capacity) \<and>
    (\<forall>a b. gq_stream s = Some (a, b) \<longrightarrow> (\<forall>(x, y, n)\<in>set (in_flight s). y \<le> a))"
  using queue_reach_inv [OF assms] unfolding queue_inv_def by (auto simp: in_flight_def)

theorem streams_apart_witness:
  "queue_reach 1000 two_steps \<and> in_flight two_steps = [(32, 52, 2), (0, 20, 1)] \<and> sorted_wrt apart (in_flight two_steps)"
  using streams_apart [OF reach_two_steps] reach_two_steps by (simp add: in_flight_def two_steps_def)

end
