(* ===== verification/Vk_Sync.thy ===== *)
theory Vk_Sync
  imports Vk_Queue
begin

text \<open>
  Fences, semaphores and events, \<open>driver/ps5vk_sync.c\<close>, with the part of \<open>ps5vk_queue_submit\<close> in \<open>driver/ps5vk_queue.c\<close> that waits for and
  signals them.
\<close>

section \<open>Sync objects\<close>

text \<open>
  A flag that, when a submission set it, holds only once the queue's marker reaches a value. There is one queue: \<open>sy_queue\<close> is whether the
  object refers to it. The last field is no part of the program: the number of the step the object stands for, 0 for one the host signals.
\<close>

record vk_sync =
  sy_signaled :: bool
  sy_queue :: bool
  sy_value :: u32
  sy_step :: nat

text \<open>\<open>locked\<close> and \<open>conditioned\<close> are whether the mutex and the condition variable could be made.\<close>

definition ps5vk_sync_init :: "bool \<Rightarrow> bool \<Rightarrow> u64 \<Rightarrow> vk_error + vk_sync" where
  "ps5vk_sync_init locked conditioned initial_value =
     (if \<not> locked \<or> \<not> conditioned then Inl VK_ERROR_OUT_OF_HOST_MEMORY
      else Inr \<lparr>sy_signaled = (initial_value \<noteq> 0), sy_queue = False, sy_value = 0, sy_step = 0\<rparr>)"

definition ps5vk_sync_set :: "bool \<Rightarrow> bool \<Rightarrow> u32 \<Rightarrow> nat \<Rightarrow> vk_sync \<Rightarrow> vk_sync" where
  "ps5vk_sync_set signaled queue v step sync =
     sync\<lparr>sy_signaled := signaled, sy_queue := signaled \<and> queue, sy_value := v, sy_step := step\<rparr>"

definition ps5vk_sync_signal_pending :: "u32 \<Rightarrow> nat \<Rightarrow> vk_sync \<Rightarrow> vk_sync" where
  "ps5vk_sync_signal_pending v step = ps5vk_sync_set True True v step"

definition ps5vk_sync_pending_on :: "vk_sync \<Rightarrow> bool" where
  "ps5vk_sync_pending_on sync \<longleftrightarrow> sy_signaled sync \<and> sy_queue sync"

definition ps5vk_sync_signal :: "nat \<Rightarrow> vk_sync \<Rightarrow> vk_sync" where
  "ps5vk_sync_signal step = ps5vk_sync_set True False 0 step"

definition ps5vk_sync_reset :: "vk_sync \<Rightarrow> vk_sync" where
  "ps5vk_sync_reset = ps5vk_sync_set False False 0 0"

text \<open>The source is cleared before the destination is set, which may be the same object.\<close>

definition ps5vk_sync_move :: "nat \<Rightarrow> nat \<Rightarrow> vk_sync list \<Rightarrow> vk_sync list" where
  "ps5vk_sync_move dst src syncs =
     (let s = syncs ! src; syncs = syncs[src := s\<lparr>sy_signaled := False, sy_queue := False\<rparr>]
      in syncs[dst := ps5vk_sync_set (sy_signaled s) (sy_queue s) (sy_value s) (sy_step s) (syncs ! dst)])"

datatype sync_result = Sync_success | Sync_timeout | Sync_error | Sync_lost

text \<open>
  The wait for the flag. Each look at an unset flag has whether the deadline has passed, whether the condition variable fails, and the object as it is
  when the wait wakes. \<open>None\<close> while it still waits.
\<close>

fun wait_signaled :: "vk_sync \<Rightarrow> (bool \<times> bool \<times> vk_sync) list \<Rightarrow> (sync_result \<times> vk_sync) option" where
  "wait_signaled sync looks =
     (if sy_signaled sync then Some (Sync_success, sync)
      else case looks of
             [] \<Rightarrow> None
           | (late, failed, woken) # later \<Rightarrow>
               if late then Some (Sync_timeout, sync) else if failed then Some (Sync_error, woken) else wait_signaled woken later)"

declare wait_signaled.simps [simp del]

definition sync_result_of :: "wait_result \<Rightarrow> sync_result" where
  "sync_result_of r = (case r of Wait_success \<Rightarrow> Sync_success | Wait_timeout \<Rightarrow> Sync_timeout | Wait_lost \<Rightarrow> Sync_lost)"

text \<open>When the queue's wait is over, the object stands for nothing any more, if no one has set it since. \<open>after\<close> is the object then.\<close>

definition clear_pending :: "u32 \<Rightarrow> vk_sync \<Rightarrow> vk_sync" where
  "clear_pending v after = (if sy_queue after \<and> sy_value after = v then after\<lparr>sy_queue := False\<rparr> else after)"

definition ps5vk_sync_wait ::
  "vk_sync \<Rightarrow> (bool \<times> bool \<times> vk_sync) list \<Rightarrow> wait_world \<Rightarrow> vk_sync \<Rightarrow> vk_queue \<Rightarrow> (sync_result \<times> vk_sync \<times> vk_queue) option" where
  "ps5vk_sync_wait sync looks w after q =
     (case wait_signaled sync looks of
        None \<Rightarrow> None
      | Some (result, found) \<Rightarrow>
          if result \<noteq> Sync_success \<or> \<not> sy_queue found then Some (result, found, q)
          else case ps5vk_queue_wait_value (sy_value found) w q of (result, q) \<Rightarrow>
            Some (sync_result_of result, if result = Wait_success then clear_pending (sy_value found) after else after, q))"

section \<open>Syncs of a submission\<close>

text \<open>A submission waits on the CPU for the objects that do not stand for an earlier step of the same queue; \<open>waited\<close> has what each wait returns.\<close>

fun submit_waits :: "(nat \<Rightarrow> sync_result) \<Rightarrow> vk_sync list \<Rightarrow> nat list \<Rightarrow> sync_result" where
  "submit_waits waited syncs [] = Sync_success"
| "submit_waits waited syncs (i # later) =
     (if ps5vk_sync_pending_on (syncs ! i) then submit_waits waited syncs later
      else case waited i of Sync_success \<Rightarrow> submit_waits waited syncs later | result \<Rightarrow> result)"

text \<open>What it signals holds once the GPU reaches the last step submitted, number \<open>step\<close>.\<close>

definition submit_signals :: "u32 \<Rightarrow> nat \<Rightarrow> nat list \<Rightarrow> vk_queue \<Rightarrow> vk_sync list \<Rightarrow> vk_queue \<times> vk_sync list" where
  "submit_signals seen step signals q syncs =
     (let submitted = qu_submitted_value q; q' = fst (ps5vk_queue_poll seen q);
          pending = \<not> ps5vk_marker_reached (qu_completed_value q') submitted
      in (q', fold (\<lambda>i syncs. syncs[i := (if pending then ps5vk_sync_signal_pending submitted step else ps5vk_sync_signal step) (syncs ! i)])
                signals syncs))"

section \<open>Events\<close>

datatype event_action = Event_none | Event_set | Event_reset | Event_wait

datatype event_status = VK_EVENT_SET | VK_EVENT_RESET

text \<open>An event is its flag.\<close>

definition ps5vk_CreateEvent :: "bool \<Rightarrow> bool \<Rightarrow> vk_error + bool" where
  "ps5vk_CreateEvent allocated locked = (if \<not> allocated \<or> \<not> locked then Inl VK_ERROR_OUT_OF_HOST_MEMORY else Inr False)"

definition ps5vk_event_set :: "bool \<Rightarrow> bool \<Rightarrow> bool" where
  "ps5vk_event_set signaled event = signaled"

definition ps5vk_SetEvent :: "bool \<Rightarrow> bool" where
  "ps5vk_SetEvent = ps5vk_event_set True"

definition ps5vk_ResetEvent :: "bool \<Rightarrow> bool" where
  "ps5vk_ResetEvent = ps5vk_event_set False"

definition ps5vk_GetEventStatus :: "bool \<Rightarrow> event_status" where
  "ps5vk_GetEventStatus event = (if event then VK_EVENT_SET else VK_EVENT_RESET)"

text \<open>An action of a submission. \<open>look n\<close> is the flag at the \<open>n\<close>-th look, which another thread may have set; \<open>left\<close> counts the looks left.\<close>

fun event_polls :: "(nat \<Rightarrow> bool) \<Rightarrow> nat \<Rightarrow> wait_result" where
  "event_polls look 0 = Wait_lost"
| "event_polls look (Suc left) = (if look (PS5VK_MARKER_POLLS - Suc left) then Wait_success else event_polls look left)"

text \<open>The result and the flag that a set or a reset leaves.\<close>

definition ps5vk_event_execute :: "event_action \<Rightarrow> (nat \<Rightarrow> bool) \<Rightarrow> wait_result \<times> bool option" where
  "ps5vk_event_execute action look =
     (if action = Event_wait then (event_polls look PS5VK_MARKER_POLLS, None) else (Wait_success, Some (action = Event_set)))"

text \<open>The records of a command buffer: how many words it had, the event, the action. \<open>memory\<close> is whether there is room for a record.\<close>

record event_buffer =
  eb_error :: bool
  eb_words :: u32
  eb_records :: "(u32 \<times> nat \<times> event_action) list"

definition ps5vk_cmd_buffer_record_event :: "bool \<Rightarrow> nat \<Rightarrow> event_action \<Rightarrow> event_buffer \<Rightarrow> event_buffer" where
  "ps5vk_cmd_buffer_record_event memory event action b =
     (if memory then b\<lparr>eb_records := eb_records b @ [(eb_words b, event, action)]\<rparr> else b\<lparr>eb_error := True\<rparr>)"

definition ps5vk_CmdSetEvent :: "bool \<Rightarrow> nat option \<Rightarrow> event_buffer \<Rightarrow> event_buffer" where
  "ps5vk_CmdSetEvent memory event b =
     (case event of Some e \<Rightarrow> if eb_error b then b else ps5vk_cmd_buffer_record_event memory e Event_set b | None \<Rightarrow> b)"

definition ps5vk_CmdResetEvent :: "bool \<Rightarrow> nat option \<Rightarrow> event_buffer \<Rightarrow> event_buffer" where
  "ps5vk_CmdResetEvent memory event b =
     (case event of Some e \<Rightarrow> if eb_error b then b else ps5vk_cmd_buffer_record_event memory e Event_reset b | None \<Rightarrow> b)"

definition ps5vk_CmdWaitEvents :: "(nat option \<times> bool) list \<Rightarrow> event_buffer \<Rightarrow> event_buffer" where
  "ps5vk_CmdWaitEvents events b =
     (if eb_error b then b
      else fold (\<lambda>(event, memory) b. case event of None \<Rightarrow> b | Some e \<Rightarrow> ps5vk_cmd_buffer_record_event memory e Event_wait b) events b)"

lemma event_polls_iff:
  "left \<le> PS5VK_MARKER_POLLS \<Longrightarrow>
    event_polls look left = (if \<exists>n. PS5VK_MARKER_POLLS - left \<le> n \<and> n < PS5VK_MARKER_POLLS \<and> look n then Wait_success else Wait_lost)"
proof (induction left)
  case (Suc left)
  let ?n = "PS5VK_MARKER_POLLS - Suc left"
  have "(?n \<le> n \<and> n < PS5VK_MARKER_POLLS) \<longleftrightarrow> n = ?n \<or> PS5VK_MARKER_POLLS - left \<le> n \<and> n < PS5VK_MARKER_POLLS" for n
    using Suc.prems by auto
  then have e: "(\<exists>n. ?n \<le> n \<and> n < PS5VK_MARKER_POLLS \<and> look n) \<longleftrightarrow> look ?n \<or> (\<exists>n. PS5VK_MARKER_POLLS - left \<le> n \<and> n < PS5VK_MARKER_POLLS \<and> look n)"
    by metis
  show ?case unfolding event_polls.simps e using Suc.IH Suc.prems by (cases "look ?n") simp_all
qed simp

text \<open>An event a submission waits for is found exactly when one of its looks sees it set, and otherwise the device is lost.\<close>

lemma event_wait_outcome:
  "fst (ps5vk_event_execute Event_wait look) = (if \<exists>n<PS5VK_MARKER_POLLS. look n then Wait_success else Wait_lost)"
  by (simp add: ps5vk_event_execute_def event_polls_iff)

section \<open>Syncs beside the queue\<close>

text \<open>
  The queue and the GPU, the sync objects, and the threads within a wait: those that found an object pending on the queue, with the value and
  the step they found, and those whose wait for the queue has succeeded.
\<close>

record sync_state =
  ss_gpu :: gpu_queue
  ss_syncs :: "vk_sync list"
  ss_reading :: "(u32 \<times> nat) list"
  ss_waited :: "(u32 \<times> nat) list"

text \<open>Nothing stands for a step more than \<open>2\<^sup>3\<^sup>1 - 2\<close> steps old.\<close>

definition recent :: "nat \<Rightarrow> sync_state \<Rightarrow> bool" where
  "recent g st \<longleftrightarrow>
     list_all (\<lambda>s. sy_queue s \<longrightarrow> g - sy_step s < 2 ^ 31 - 1) (ss_syncs st) \<and>
     list_all (\<lambda>(v, n). g - n < 2 ^ 31 - 1) (ss_reading st @ ss_waited st)"

inductive sync_act :: "nat \<Rightarrow> sync_state \<Rightarrow> sync_state \<Rightarrow> bool" for capacity where
  queue: "queue_step capacity (ss_gpu st) s \<Longrightarrow> recent (gq_given s) st \<Longrightarrow> sync_act capacity st (st\<lparr>ss_gpu := s\<rparr>)"
| create: "ps5vk_sync_init locked conditioned v = Inr sync \<Longrightarrow> sync_act capacity st (st\<lparr>ss_syncs := ss_syncs st @ [sync]\<rparr>)"
| host_signal: "i < length (ss_syncs st) \<Longrightarrow>
    sync_act capacity st (st\<lparr>ss_syncs := (ss_syncs st)[i := ps5vk_sync_signal 0 (ss_syncs st ! i)]\<rparr>)"
| host_reset: "i < length (ss_syncs st) \<Longrightarrow> sync_act capacity st (st\<lparr>ss_syncs := (ss_syncs st)[i := ps5vk_sync_reset (ss_syncs st ! i)]\<rparr>)"
| move: "src < length (ss_syncs st) \<Longrightarrow> dst < length (ss_syncs st) \<Longrightarrow>
    sync_act capacity st (st\<lparr>ss_syncs := ps5vk_sync_move dst src (ss_syncs st)\<rparr>)"
| submitted: "list_all (\<lambda>i. i < length (ss_syncs st)) signals \<Longrightarrow>
    submit_signals (marker_of (gq_finished (ss_gpu st))) (gq_given (ss_gpu st)) signals (gq_queue (ss_gpu st)) (ss_syncs st) = (q, syncs) \<Longrightarrow>
    sync_act capacity st (st\<lparr>ss_gpu := (ss_gpu st)\<lparr>gq_queue := q\<rparr>, ss_syncs := syncs\<rparr>)"
| read: "i < length (ss_syncs st) \<Longrightarrow> wait_signaled first looks = Some (Sync_success, ss_syncs st ! i) \<Longrightarrow> sy_queue (ss_syncs st ! i) \<Longrightarrow>
    sync_act capacity st (st\<lparr>ss_reading := (sy_value (ss_syncs st ! i), sy_step (ss_syncs st ! i)) # ss_reading st\<rparr>)"
| await: "\<lbrakk>(v, n) \<in> set (ss_reading st); gq_finished (ss_gpu st) \<le> f; f \<le> gq_given (ss_gpu st); reads (gq_finished (ss_gpu st)) f w;
     ps5vk_queue_wait_value v w (gq_queue (ss_gpu st)) = (result, q)\<rbrakk> \<Longrightarrow>
    sync_act capacity st (st\<lparr>ss_gpu := (ss_gpu st)\<lparr>gq_queue := q, gq_finished := f\<rparr>,
      ss_waited := (if result = Wait_success then [(v, n)] else []) @ ss_waited st\<rparr>)"
| clear: "(v, n) \<in> set (ss_waited st) \<Longrightarrow> i < length (ss_syncs st) \<Longrightarrow>
    sync_act capacity st (st\<lparr>ss_syncs := (ss_syncs st)[i := clear_pending v (ss_syncs st ! i)]\<rparr>)"

inductive sync_reach :: "nat \<Rightarrow> sync_state \<Rightarrow> bool" for capacity where
  fresh: "sync_reach capacity \<lparr>ss_gpu = first_state, ss_syncs = [], ss_reading = [], ss_waited = []\<rparr>"
| more: "sync_reach capacity st \<Longrightarrow> sync_act capacity st st' \<Longrightarrow> sync_reach capacity st'"

text \<open>An object that is pending stands for a step given, under its value; one that is signalled and not pending, for a step that is finished.\<close>

definition sync_ok :: "nat \<Rightarrow> nat \<Rightarrow> vk_sync \<Rightarrow> bool" where
  "sync_ok g f s \<longleftrightarrow>
     (sy_queue s \<longrightarrow> sy_signaled s \<and> sy_value s = marker_of (sy_step s) \<and> sy_step s \<le> g \<and> g - sy_step s < 2 ^ 31 - 1) \<and>
     (sy_signaled s \<and> \<not> sy_queue s \<longrightarrow> sy_step s \<le> f)"

definition sync_inv :: "nat \<Rightarrow> sync_state \<Rightarrow> bool" where
  "sync_inv capacity st \<longleftrightarrow> queue_inv capacity (ss_gpu st) \<and>
     (\<forall>s\<in>set (ss_syncs st). sync_ok (gq_given (ss_gpu st)) (gq_finished (ss_gpu st)) s) \<and>
     (\<forall>(v, n)\<in>set (ss_reading st). v = marker_of n \<and> n \<le> gq_given (ss_gpu st) \<and> gq_given (ss_gpu st) - n < 2 ^ 31 - 1) \<and>
     (\<forall>(v, n)\<in>set (ss_waited st). v = marker_of n \<and> n \<le> gq_finished (ss_gpu st) \<and> gq_given (ss_gpu st) - n < 2 ^ 31 - 1)"

lemma queue_step_times:
  assumes "queue_step capacity s s'"
  shows "gq_finished s \<le> gq_finished s'" "gq_given s \<le> gq_given s'"
  using assms by (cases; simp)+

lemma wait_value_known:
  assumes inv: "queue_inv capacity s" and f: "gq_finished s \<le> f" "f \<le> gq_given s" and w: "reads (gq_finished s) f w"
    and n: "n \<le> gq_given s" "gq_given s - n < 2 ^ 31 - 1"
    and res: "ps5vk_queue_wait_value (marker_of n) w (gq_queue s) = (result, q)"
  shows "queue_inv capacity (s\<lparr>gq_queue := q, gq_finished := f\<rparr>) \<and> (result = Wait_success \<longrightarrow> n \<le> f)"
proof -
  obtain c where c: "c \<le> gq_finished s" "tracks c (gq_given s) (gq_queue s)" using inv by (auto simp: queue_inv_def)
  have l: "gq_given s - min c n < 2 ^ 31 - 1" using c(2) n by (auto simp: tracks_def min_def)
  have "ends_wait f c (gq_given s) n (gq_queue s) (result = Wait_success) q"
    by (rule wait_value_ends [OF l f(2) _ n(1) _ c(2) _ res]) (use reads_mono [OF w, of "min c n"] c(1) in auto)
  then obtain c' where c': "polled f c c' (gq_given s) (gq_queue s) q" "result = Wait_success \<longrightarrow> n \<le> c'" by (auto simp: ends_wait_def)
  have "c' \<le> f" using polled_bound [OF c'(1)] c(1) f(1) by simp
  then show ?thesis using inv_later [OF inv f, of c' q] c' by (auto simp: polled_def)
qed

lemma sync_ok_later: "sync_ok g f s \<Longrightarrow> f \<le> f' \<Longrightarrow> g \<le> g' \<Longrightarrow> (sy_queue s \<longrightarrow> g' - sy_step s < 2 ^ 31 - 1) \<Longrightarrow> sync_ok g' f' s"
  by (auto simp: sync_ok_def)

text \<open>An action on one object keeps the others.\<close>

lemma sync_inv_update:
  assumes "sync_inv capacity st" "sync_ok (gq_given (ss_gpu st)) (gq_finished (ss_gpu st)) s"
  shows "sync_inv capacity (st\<lparr>ss_syncs := (ss_syncs st)[i := s]\<rparr>)"
  using assms set_update_subset_insert [of "ss_syncs st" i s] unfolding sync_inv_def by simp (blast dest: subsetD)

lemma sync_inv_syncs:
  assumes "sync_inv capacity st" "\<forall>s\<in>set syncs. sync_ok (gq_given (ss_gpu st)) (gq_finished (ss_gpu st)) s"
  shows "sync_inv capacity (st\<lparr>ss_syncs := syncs\<rparr>)"
  using assms unfolding sync_inv_def by simp

lemma sync_inv_at: "sync_inv capacity st \<Longrightarrow> i < length (ss_syncs st) \<Longrightarrow> sync_ok (gq_given (ss_gpu st)) (gq_finished (ss_gpu st)) (ss_syncs st ! i)"
  by (simp add: sync_inv_def)

lemma inv_move:
  assumes inv: "sync_inv capacity st" and "src < length (ss_syncs st)" "dst < length (ss_syncs st)"
  shows "sync_inv capacity (st\<lparr>ss_syncs := ps5vk_sync_move dst src (ss_syncs st)\<rparr>)"
proof -
  let ?s = "ss_syncs st ! src" and ?ok = "sync_ok (gq_given (ss_gpu st)) (gq_finished (ss_gpu st))"
  have ok: "?ok ?s" by (rule sync_inv_at [OF inv assms(2)])
  let ?cleared = "(ss_syncs st)[src := ?s\<lparr>sy_signaled := False, sy_queue := False\<rparr>]"
  have a: "sync_inv capacity (st\<lparr>ss_syncs := ?cleared\<rparr>)" by (rule sync_inv_update [OF inv]) (simp add: sync_ok_def)
  have "?ok (ps5vk_sync_set (sy_signaled ?s) (sy_queue ?s) (sy_value ?s) (sy_step ?s) (?cleared ! dst))"
    using ok by (auto simp: sync_ok_def ps5vk_sync_set_def)
  from sync_inv_update [OF a, of _ dst] this show ?thesis by (simp add: ps5vk_sync_move_def Let_def)
qed

lemma fold_updates_ok: "\<forall>s\<in>set syncs. P s \<Longrightarrow> (\<And>s. P (g s)) \<Longrightarrow> \<forall>s\<in>set (fold (\<lambda>i syncs. syncs[i := g (syncs ! i)]) signals syncs). P s"
proof (induction signals arbitrary: syncs)
  case (Cons i signals)
  have "\<forall>s\<in>set (syncs[i := g (syncs ! i)]). P s" using Cons.prems set_update_subset_insert [of syncs i "g (syncs ! i)"] by blast
  then show ?case using Cons.IH Cons.prems(2) by simp
qed simp

lemma inv_submitted:
  assumes inv: "sync_inv capacity st"
    and sub: "submit_signals (marker_of (gq_finished (ss_gpu st))) (gq_given (ss_gpu st)) signals (gq_queue (ss_gpu st)) (ss_syncs st) = (q, syncs)"
  shows "sync_inv capacity (st\<lparr>ss_gpu := (ss_gpu st)\<lparr>gq_queue := q\<rparr>, ss_syncs := syncs\<rparr>)"
proof -
  let ?s = "ss_gpu st"
  have qi: "queue_inv capacity ?s" using inv by (simp add: sync_inv_def)
  then obtain c where c: "c \<le> gq_finished ?s" "tracks c (gq_given ?s) (gq_queue ?s)" "gq_finished ?s \<le> gq_given ?s" by (auto simp: queue_inv_def)
  have b: "gq_given ?s - c < 2 ^ 31 - 1" "c \<le> gq_given ?s" and v: "qu_submitted_value (gq_queue ?s) = marker_of (gq_given ?s)"
    using c(2) by (auto simp: tracks_def)
  let ?q = "fst (ps5vk_queue_poll (marker_of (gq_finished ?s)) (gq_queue ?s))"
  let ?pending = "\<not> ps5vk_marker_reached (qu_completed_value ?q) (marker_of (gq_given ?s))"
  have "shows_step c (gq_finished ?s) (marker_of (gq_finished ?s))" using c(1) by (auto simp: shows_step_def)
  from wait_step [OF c(2) order_refl b(1) c(3) this b(2) order_refl]
  obtain c' where c': "polled (gq_finished ?s) c c' (gq_given ?s) (gq_queue ?s) ?q" "?pending \<longleftrightarrow> \<not> gq_given ?s \<le> c'" by blast
  have le: "c' \<le> gq_finished ?s" by (rule polled_bound [OF c'(1) c(1)])
  have q: "q = ?q" "syncs = fold (\<lambda>i syncs. syncs[i := (if ?pending then ps5vk_sync_signal_pending (marker_of (gq_given ?s)) (gq_given ?s)
      else ps5vk_sync_signal (gq_given ?s)) (syncs ! i)]) signals (ss_syncs st)"
    using sub by (auto simp: submit_signals_def v Let_def)
  have "queue_inv capacity (?s\<lparr>gq_queue := q\<rparr>)" using inv_same_time [OF qi, of c' q] c'(1) le q(1) by (simp add: polled_def)
  moreover have "\<forall>s\<in>set syncs. sync_ok (gq_given ?s) (gq_finished ?s) s" unfolding q(2)
    by (rule fold_updates_ok) (use inv c'(2) le in \<open>auto simp: sync_inv_def sync_ok_def ps5vk_sync_signal_pending_def ps5vk_sync_signal_def ps5vk_sync_set_def\<close>)
  ultimately show ?thesis using inv unfolding sync_inv_def by simp
qed

text \<open>Two recent steps with one value are one.\<close>

lemma same_value:
  assumes "marker_of m = marker_of n" "m \<le> g" "n \<le> g" "g - m < 2 ^ 31 - 1" "g - n < 2 ^ 31 - 1"
  shows "m = n"
proof -
  have l: "g - min m n < 2 ^ 31 - 1" using assms(4,5) by (simp add: min_def)
  note o = reached_order [OF _ _ _ _ l]
  have "ps5vk_marker_reached (marker_of n) (marker_of m)" "ps5vk_marker_reached (marker_of m) (marker_of n)"
    unfolding assms(1) by (simp_all add: ps5vk_marker_reached_def)
  then show ?thesis using o [of m n] o [of n m] assms(2,3) by simp
qed

lemma inv_clear:
  assumes inv: "sync_inv capacity st" and w: "(v, n) \<in> set (ss_waited st)" and i: "i < length (ss_syncs st)"
  shows "sync_inv capacity (st\<lparr>ss_syncs := (ss_syncs st)[i := clear_pending v (ss_syncs st ! i)]\<rparr>)"
proof (rule sync_inv_update [OF inv])
  let ?s = "ss_syncs st ! i" and ?g = "gq_given (ss_gpu st)" and ?f = "gq_finished (ss_gpu st)"
  have ok: "sync_ok ?g ?f ?s" by (rule sync_inv_at [OF inv i])
  have n: "v = marker_of n" "n \<le> ?f" "?g - n < 2 ^ 31 - 1" using inv w by (auto simp: sync_inv_def)
  have fg: "?f \<le> ?g" using inv by (auto simp: sync_inv_def queue_inv_def)
  have "sy_step ?s \<le> ?f" if "sy_queue ?s" "sy_value ?s = v"
  proof -
    have "sy_step ?s = n" using ok that n fg by (intro same_value [where g = ?g]) (auto simp: sync_ok_def)
    then show ?thesis using n(2) by simp
  qed
  then show "sync_ok ?g ?f (clear_pending v ?s)" using ok by (auto simp: sync_ok_def clear_pending_def)
qed

lemma inv_queue:
  assumes inv: "sync_inv capacity st" and s: "queue_step capacity (ss_gpu st) s" "recent (gq_given s) st"
  shows "sync_inv capacity (st\<lparr>ss_gpu := s\<rparr>)"
proof -
  note t = queue_step_times [OF s(1)]
  have "queue_inv capacity s" using queue_step_inv [OF _ s(1)] inv by (simp add: sync_inv_def)
  moreover have "sync_ok (gq_given s) (gq_finished s) x" if "x \<in> set (ss_syncs st)" for x
    using that inv s(2) t by (intro sync_ok_later [OF _ t]) (auto simp: sync_inv_def recent_def list_all_iff)
  ultimately show ?thesis using inv s(2) t unfolding sync_inv_def recent_def list_all_iff by fastforce
qed

lemma inv_await:
  assumes inv: "sync_inv capacity st" and n: "(v, n) \<in> set (ss_reading st)"
    and f: "gq_finished (ss_gpu st) \<le> f" "f \<le> gq_given (ss_gpu st)" "reads (gq_finished (ss_gpu st)) f w"
    and res: "ps5vk_queue_wait_value v w (gq_queue (ss_gpu st)) = (result, q)"
  shows "sync_inv capacity (st\<lparr>ss_gpu := (ss_gpu st)\<lparr>gq_queue := q, gq_finished := f\<rparr>,
      ss_waited := (if result = Wait_success then [(v, n)] else []) @ ss_waited st\<rparr>)"
proof -
  let ?g = "gq_given (ss_gpu st)"
  have qi: "queue_inv capacity (ss_gpu st)" and v: "v = marker_of n" "n \<le> ?g" "?g - n < 2 ^ 31 - 1" using inv n by (auto simp: sync_inv_def)
  have k: "queue_inv capacity ((ss_gpu st)\<lparr>gq_queue := q, gq_finished := f\<rparr>)" "result = Wait_success \<longrightarrow> n \<le> f"
    using wait_value_known [OF qi f(1-3) v(2,3)] res v(1) by auto
  have "sync_ok ?g f x" if "x \<in> set (ss_syncs st)" for x
    using that inv by (intro sync_ok_later [OF _ f(1) order_refl]) (auto simp: sync_inv_def sync_ok_def)
  then show ?thesis using inv k v f(1) unfolding sync_inv_def by fastforce
qed

lemma sync_act_inv: "sync_inv capacity st \<Longrightarrow> sync_act capacity st st' \<Longrightarrow> sync_inv capacity st'"
proof -
  assume inv: "sync_inv capacity st" and "sync_act capacity st st'"
  from this(2) show ?thesis
  proof cases
    case (queue s)
    then show ?thesis using inv_queue [OF inv] by blast
  next
    case (create locked conditioned v sync)
    have "sync_ok (gq_given (ss_gpu st)) (gq_finished (ss_gpu st)) sync"
      using create(2) by (auto simp: sync_ok_def ps5vk_sync_init_def split: if_splits)
    then show ?thesis unfolding create(1) using inv by (intro sync_inv_syncs [OF inv]) (auto simp: sync_inv_def)
  next
    case (host_signal i)
    show ?thesis unfolding host_signal(1)
      by (rule sync_inv_update [OF inv]) (simp add: sync_ok_def ps5vk_sync_signal_def ps5vk_sync_set_def)
  next
    case (host_reset i)
    show ?thesis unfolding host_reset(1)
      by (rule sync_inv_update [OF inv]) (simp add: sync_ok_def ps5vk_sync_reset_def ps5vk_sync_set_def)
  next
    case (move src dst)
    then show ?thesis using inv_move [OF inv] by blast
  next
    case (submitted signals q syncs)
    then show ?thesis using inv_submitted [OF inv] by blast
  next
    case (read i first looks)
    then show ?thesis using inv sync_inv_at [OF inv read(2)] by (auto simp: sync_inv_def sync_ok_def)
  next
    case (await v n f w result q)
    then show ?thesis using inv_await [OF inv] by blast
  next
    case (clear v n i)
    then show ?thesis using inv_clear [OF inv] by blast
  qed
qed

lemma sync_reach_inv: "sync_reach capacity st \<Longrightarrow> sync_inv capacity st"
proof (induction rule: sync_reach.induct)
  case fresh
  show ?case by (simp add: sync_inv_def first_state_def idle_inv)
qed (rule sync_act_inv)

text \<open>A submission that does not wait for an object on the CPU runs behind the step the object stands for.\<close>

lemma skipped_wait_ordered:
  assumes "sync_reach capacity st" "i < length (ss_syncs st)" "ps5vk_sync_pending_on (ss_syncs st ! i)"
  shows "sy_step (ss_syncs st ! i) \<le> gq_given (ss_gpu st)"
  using sync_inv_at [OF sync_reach_inv [OF assms(1)] assms(2)] assms(3) by (simp add: sync_ok_def ps5vk_sync_pending_on_def)

lemma submit_waits_success:
  "submit_waits waited syncs waits = Sync_success \<Longrightarrow> i \<in> set waits \<Longrightarrow> ps5vk_sync_pending_on (syncs ! i) \<or> waited i = Sync_success"
  by (induction waits) (auto split: if_splits sync_result.splits)

text \<open>States of the queue are states with no sync objects.\<close>

lemma queue_reach_syncs: "queue_reach capacity s \<Longrightarrow> sync_reach capacity \<lparr>ss_gpu = s, ss_syncs = [], ss_reading = [], ss_waited = []\<rparr>"
proof (induction rule: queue_reach.induct)
  case init
  show ?case using sync_reach.fresh by (simp add: first_state_def)
next
  case (more s s')
  from sync_reach.more [OF more.IH sync_act.queue [where s = s']] more.hyps(2) show ?case by (simp add: recent_def)
qed

definition pending_state :: sync_state where
  "pending_state = \<lparr>ss_gpu = one_step, ss_syncs = [\<lparr>sy_signaled = True, sy_queue = True, sy_value = 1, sy_step = 1\<rparr>], ss_reading = [], ss_waited = []\<rparr>"

lemma reach_pending: "sync_reach 1000 pending_state"
proof -
  let ?a = "\<lparr>ss_gpu = one_step, ss_syncs = [], ss_reading = [], ss_waited = []\<rparr>"
  let ?b = "?a\<lparr>ss_syncs := ss_syncs ?a @ [\<lparr>sy_signaled = False, sy_queue = False, sy_value = 0, sy_step = 0\<rparr>]\<rparr>"
  have "ps5vk_sync_init True True 0 = Inr \<lparr>sy_signaled = False, sy_queue = False, sy_value = 0, sy_step = 0\<rparr>" by (simp add: ps5vk_sync_init_def)
  then have "sync_reach 1000 ?b" by (rule sync_reach.more [OF queue_reach_syncs [OF reach_one_step] sync_act.create])
  moreover have "sync_act 1000 ?b (?b\<lparr>ss_gpu := (ss_gpu ?b)\<lparr>gq_queue := gq_queue one_step\<rparr>, ss_syncs := ss_syncs pending_state\<rparr>)"
    by (rule sync_act.submitted [where signals = "[0]"])
      (simp_all add: submit_signals_def queue_eval one_step_def pending_state_def ps5vk_sync_signal_pending_def ps5vk_sync_set_def)
  then have "sync_act 1000 ?b pending_state" by (simp add: one_step_def pending_state_def)
  ultimately show ?thesis by (rule sync_reach.more)
qed

text \<open>C35. When a wait for a fence or a semaphore succeeds, the GPU has finished the step the object stood for when the wait found it signalled: the last step
  of the submission that signalled it. This holds in every state reached by submissions, hosts that signal, reset and move objects, other waits and
  the GPU, though an object only has a value of the marker, which wraps.\<close>

theorem sync_wait_safe:
  assumes reach: "sync_reach capacity st" and i: "i < length (ss_syncs st)"
    and found: "wait_signaled first looks = Some (Sync_success, ss_syncs st ! i)"
    and f: "gq_finished (ss_gpu st) \<le> f" "f \<le> gq_given (ss_gpu st)" "reads (gq_finished (ss_gpu st)) f w"
    and res: "ps5vk_sync_wait first looks w after (gq_queue (ss_gpu st)) = Some (Sync_success, sync, q)"
  shows "sy_step (ss_syncs st ! i) \<le> f"
proof -
  let ?s = "ss_syncs st ! i"
  have ok: "sync_ok (gq_given (ss_gpu st)) (gq_finished (ss_gpu st)) ?s" by (rule sync_inv_at [OF sync_reach_inv [OF reach] i])
  have signaled: "sy_signaled ?s" using found
    by (induction looks arbitrary: first) (auto simp: wait_signaled.simps split: if_splits)
  show ?thesis
  proof (cases "sy_queue ?s")
    case True
    have v: "sy_value ?s = marker_of (sy_step ?s)" "sy_step ?s \<le> gq_given (ss_gpu st)" "gq_given (ss_gpu st) - sy_step ?s < 2 ^ 31 - 1"
      using ok True by (auto simp: sync_ok_def)
    have qi: "queue_inv capacity (ss_gpu st)" using sync_reach_inv [OF reach] by (simp add: sync_inv_def)
    obtain r q' where r: "ps5vk_queue_wait_value (sy_value ?s) w (gq_queue (ss_gpu st)) = (r, q')" by fastforce
    then have "r = Wait_success" using res found True by (auto simp: ps5vk_sync_wait_def sync_result_of_def split: wait_result.splits)
    then show ?thesis using wait_value_known [OF qi f(1-3) v(2,3)] r v(1) by auto
  next
    case False
    then show ?thesis using ok signaled f(1) by (auto simp: sync_ok_def)
  qed
qed

theorem sync_wait_safe_witness:
  "sync_reach 1000 pending_state \<and>
   (\<exists>sync q. ps5vk_sync_wait (ss_syncs pending_state ! 0) [] (quiet 1) (ss_syncs pending_state ! 0) (gq_queue one_step) = Some (Sync_success, sync, q) \<and>
     \<not> sy_queue sync) \<and> sy_step (ss_syncs pending_state ! 0) \<le> 1"
proof -
  have s: "wait_signaled (ss_syncs pending_state ! 0) [] = Some (Sync_success, ss_syncs pending_state ! 0)"
    by (simp add: wait_signaled.simps pending_state_def)
  let ?q = "(gq_queue one_step)\<lparr>qu_completed_value := 1, qu_retire := []\<rparr>" and ?s = "ss_syncs pending_state ! 0"
  have e: "ps5vk_sync_wait ?s [] (quiet 1) ?s (gq_queue one_step) = Some (Sync_success, ?s\<lparr>sy_queue := False\<rparr>, ?q)"
    by (simp add: ps5vk_sync_wait_def s) (simp add: pending_state_def one_step_def ps5vk_queue_wait_value_def queue_eval quiet_def sync_result_of_def clear_pending_def)
  have r: "reads 0 (Suc 0) (quiet 1)" unfolding reads_quiet by (rule shows_here [of _ 1]) (simp_all add: marker_of_small)
  have g: "ss_gpu pending_state = one_step" "gq_finished one_step = 0" "gq_given one_step = 1" by (simp_all add: pending_state_def one_step_def)
  have "sy_step ?s \<le> 1" by (rule sync_wait_safe [OF reach_pending _ s _ _ _ e [folded g(1)]]) (simp_all add: g r pending_state_def)
  then show ?thesis using reach_pending e by auto
qed

end
