(* ===== verification/Spec2Isabelle.thy ===== *)
theory Spec2Isabelle
  imports Self_Properties Elf_Object Module_Executable Libc_Properties Gpu_Serve Vk_Chains Vk_Rows Vk_Memory Vk_Steps Vk_Sync
begin

text \<open>
  Verification of PS5_Vulkan. Paths below are under \<open>src/\<close>.

  The repository has three programs of its own. The native tooling (\<open>tooling/native\<close>) turns what a linker
  produced into files the console loads. The GPU broker (\<open>tooling/gpu-broker\<close>) is a server that owns the GPU and
  gives memory and submissions to its clients. The Vulkan driver (\<open>driver\<close>) stores images, moves their texels and
  places memory for the GPU.

  \<^bold>\<open>Shared.\<close> \<open>Prelude\<close>: machine words, the result type of fallible code (\<open>Inl\<close> an exception or an access outside a
  buffer, \<open>Inr\<close> a value), loops over it, and the list operations \<open>chunk\<close> and \<open>put\<close>. \<open>Byte_Codec\<close>: little-endian
  fields; the locales \<open>field_read\<close> and \<open>field_access\<close> state what a reader and a writer promise and are interpreted on
  the helpers of each file.

  \<^bold>\<open>Native tooling.\<close>
  \<^item> \<open>Hash\<close> is \<open>hash.hpp\<close>; both digests equal their definitions in FIPS 180-4.
  \<^item> \<open>Elf_Object\<close> is \<open>elf_object.hpp\<close> and \<open>elf_object.cpp\<close>; no file makes a reader leave its buffer.
  \<^item> \<open>Self_Container\<close> is \<open>self_container.hpp\<close> and \<open>self_container.cpp\<close>. \<open>Self_Layout\<close> computes the places \<open>sign\<close> uses,
    \<open>Self_Roundtrip\<close> what \<open>parse\<close> and \<open>extract\<close> read from a signed container, \<open>Self_Properties\<close> states the results:
    safety, the round trip, the digest, when \<open>sign\<close> returns. The decompressor is a parameter.
  \<^item> \<open>Module_Writer\<close> is \<open>sce_module_writer.cpp\<close>; \<open>Module_Properties\<close> has its tables (the locale \<open>string_store\<close>, the
    relocation and symbol tables) and \<open>Module_Executable\<close> the file \<open>write_executable\<close> returns. \<open>Sysv_Hash\<close> proves the
    symbol hash once for both writers, in the locale \<open>word_table\<close>.
  \<^item> \<open>Libc_Builder\<close> is \<open>libc_builder.cpp\<close>; \<open>Libc_Properties\<close> relates it to the module writer and shows that exported
    objects do not overlap.

  \<^bold>\<open>GPU broker.\<close>
  \<^item> \<open>Gpu_Protocol\<close> is \<open>protocol.h\<close> and \<open>completion.h\<close>; \<open>Gpu_Staging\<close> is \<open>staging.h\<close>.
  \<^item> The other theories are parts of \<open>server.cpp\<close>: \<open>Host_Range\<close> the address allocator (locale \<open>range_allocator\<close>),
    \<open>Gpu_Fences\<close> the ring of submissions (locale \<open>bounded_queue\<close>), deferred releases, \<open>reap\<close> and \<open>drain\<close>, \<open>Gpu_Client\<close>
    a client's buffers and budgets, \<open>Gpu_Submit\<close> freeing and submitting, \<open>Gpu_Sparse\<close> sparse ranges, \<open>Gpu_Serve\<close> the
    messages, and opening and closing clients. Its states are those reached by any messages and any answers of the
    kernel, which are arguments of the operations; \<open>drain\<close> takes the fence values it sees as a list.

  \<^bold>\<open>Driver.\<close>
  \<^item> \<open>Vk_Tiling\<close>, \<open>Vk_Formats\<close> and \<open>Vk_Image\<close> are \<open>ps5vk_image.c\<close>: the tile maps, the format tables and queries, and
    the storage, creation, binding and copy sides of images. The locale \<open>tile_map\<close> has what a map linear over exclusive or needs
    for its texels to be apart. \<open>Vk_Chains\<close> and \<open>Vk_Rows\<close> show that the texels of an image, of all levels, are
    inside its storage and share no byte.
  \<^item> \<open>Vk_Runs\<close> extends that locale with the runs a map keeps contiguous; \<open>Vk_Copy\<close> is the uploads, copies and
    readbacks of \<open>ps5vk_queue.c\<close>, with the equivalence of a run at a time and a texel at a time; \<open>Vk_Resolve\<close> its
    resolves and clears. Memory is a function from addresses to bytes.
  \<^item> \<open>Vk_Pool\<close>, \<open>Vk_Steps\<close> and \<open>Vk_Queue\<close> are the submission of \<open>ps5vk_queue.c\<close>. \<open>Vk_Pool\<close> has the pool of threads that runs blits
    as a step relation per thread, one step for each access to shared state (\<open>pool_reach\<close> is every interleaving), with the parts
    run so far as a log that is no part of the program. \<open>Vk_Steps\<close> gathers a stream and runs its steps and CPU records; \<open>spec_run\<close>
    is the automaton of the recorded order that it refines. \<open>Vk_Queue\<close> has the completion marker, the waits, the deferred
    evictions and the places of streams beside a GPU that finishes steps in order (\<open>queue_reach\<close>), with steps numbered where the
    program only has their wrapping values; the reads of a wait are an argument (\<open>wait_world\<close>). \<open>Vk_Sync\<close> is \<open>ps5vk_sync.c\<close>, fences,
    semaphores and events, with the waits and signals of a submission (\<open>sync_reach\<close>).
  \<^item> \<open>Vk_Region\<close> and \<open>Vk_Memory\<close> are \<open>ps5vk_direct_memory.c\<close> and \<open>ps5vk_memory.c\<close>: the granules of the device memory
    region (the locale \<open>granule_pool\<close>, whose client is the mappings), mappings through any sequence of creations,
    refusals and destructions (\<open>direct_reach\<close>), allocations, and cache lines.

  \<^bold>\<open>Parameters and bounds.\<close> Mesa's helpers (block sizes, alignment, level sizes) are the record \<open>mesa\<close>, with
  \<open>mesa_ok\<close> saying what their documentation promises; what the kernel answers is \<open>kernel_answers\<close> and
  \<open>kernel_ok\<close> in the driver and arguments of the operations in the broker. Buffers are shorter than \<open>2\<^sup>6\<^sup>4\<close> bytes, as
  any object in memory is; allocations of the driver are of at most \<open>2\<^sup>4\<^sup>8\<close> bytes, the size of the address space.
  Fewer than \<open>2\<^sup>3\<^sup>1 - 1\<close> steps are submitted beyond the last one a queue knows to be finished. No loop has fuel: each is structural, has a
  termination proof or, for the parts of a blit, is a partial function that is shown to return.

  \<^bold>\<open>Where the code differs from its intent.\<close> \<open>unaligned_readback_wrong\<close> and \<open>crossing_run_not_evicted\<close> in
  \<open>Vk_Copy\<close> and \<open>flush_misses_last_line\<close> in \<open>Vk_Memory\<close> are concrete runs; the properties of copies and of evictions
  have the matching hypotheses (aligned runs, runs within a line). \<open>barrier_passes_limit\<close> in \<open>Vk_Steps\<close> shows a
  stream longer than its room, which the property of submissions excludes by its bound. \<open>allocate_outside_window\<close> shows memory outside the window
  that a comment says is refused.

  \<^bold>\<open>Not modelled.\<close> Files, sockets and logging; the broker's threads; the display of the broker and the windows of the driver; the
  register words of draws, dispatches and pipelines, whose meaning is the hardware's; what drives Mesa's
  compiler; the resampling of scaled blits, which is in floating point; the packets, flips and profile of the queue; descriptors, queries and buffers; the
  diagnostic title under \<open>src/\<close> and the tests.
\<close>

end
